(* ===== verification/Prelude.thy ===== *)
theory Prelude
  imports Main "HOL-Library.Word" "HOL-Library.Sublist"
begin

text \<open>
  Shared vocabulary of the development: bytes and byte streams, Go error values, the
  big-endian integers of encoding/binary, io.ReadFull, the decimal rendering of fmt's %d,
  and the generic facts on lists and maps the component theories rest on.

  Go slices of bytes are lists of 8-bit words; Go strings, which are byte strings, are HOL
  strings (lists of 8-bit characters). A Go reader is the list of bytes it still
  delivers before it reports end of file. A function with result (T, error) returns a sum:
  Inl the error, Inr the value.
\<close>

section \<open>Types\<close>

type_synonym byte = "8 word"
type_synonym bytes = "byte list"

datatype err =
    EOF
  | UnexpectedEOF
  | ErrorString string
  | Wrapped string err

named_theorems codec_simps \<open>round-trip equations of encoders and decoders\<close>
named_theorems inv_intros \<open>invariant preservation, one lemma per operation\<close>

section \<open>Big-endian integers\<close>

text \<open>binary.BigEndian.PutUintN writes the low n bytes of its argument, so a wider value is
  truncated as Go's conversion uint32(len) does; UintN reads them back.\<close>

fun be_bytes :: "nat \<Rightarrow> nat \<Rightarrow> bytes" where
  "be_bytes 0 x = []"
| "be_bytes (Suc n) x = be_bytes n (x div 256) @ [word_of_nat x]"

definition be_val :: "bytes \<Rightarrow> nat" where
  "be_val bs = foldl (\<lambda>a b. a * 256 + unat b) 0 bs"

lemma length_be_bytes [simp]: "length (be_bytes n x) = n"
  by (induction n arbitrary: x) simp_all

lemma be_val_Nil [simp]: "be_val [] = 0"
  by (simp add: be_val_def)

lemma be_val_snoc [simp]: "be_val (bs @ [b]) = be_val bs * 256 + unat b"
  by (simp add: be_val_def)

lemma unat_byte_of_nat [simp]: "unat (word_of_nat x :: byte) = x mod 256"
  by (simp add: unat_of_nat)

lemma unat_byte_less [simp]: "unat (b :: byte) < 256"
proof -
  have "unat b < 2 ^ LENGTH(8)" by (rule unsigned_less)
  then show ?thesis by simp
qed

lemma be_val_be_bytes: "be_val (be_bytes n x) = x mod 256 ^ n"
proof (induction n arbitrary: x)
  case (Suc n)
  have "be_val (be_bytes (Suc n) x) = (x div 256 mod 256 ^ n) * 256 + x mod 256"
    by (simp add: Suc)
  also have "\<dots> = x mod (256 * 256 ^ n)"
    by (subst mod_mult2_eq) simp
  finally show ?case by simp
qed simp

lemma be_val_be_bytes_id [codec_simps]: "x < 256 ^ n \<Longrightarrow> be_val (be_bytes n x) = x"
  by (simp add: be_val_be_bytes)

lemma be_val_less: "be_val bs < 256 ^ length bs"
proof (induction bs rule: rev_induct)
  case (snoc b bs)
  have "be_val bs * 256 + unat b < (be_val bs + 1) * 256" by simp
  also have "\<dots> \<le> 256 ^ length bs * 256" using snoc by (intro mult_le_mono1) simp
  finally show ?case by simp
qed simp

lemma be_bytes_be_val [codec_simps]: "be_bytes (length bs) (be_val bs) = bs"
proof (induction bs rule: rev_induct)
  case (snoc b bs)
  have "unat b < 256" by (rule unat_byte_less)
  then have "(be_val bs * 256 + unat b) div 256 = be_val bs"
    by (simp add: div_add1_eq)
  moreover have "(word_of_nat (be_val bs * 256 + unat b) :: byte) = b"
  proof -
    have "(word_of_nat (be_val bs * 256) :: byte) = 0"
      by (simp only: word_of_nat_eq_0_iff) simp
    then show ?thesis by simp
  qed
  ultimately show ?case using snoc by simp
qed simp

text \<open>The slice bs[a:b] for a <= b <= len(bs).\<close>

definition slice :: "nat \<Rightarrow> nat \<Rightarrow> 'a list \<Rightarrow> 'a list" where
  "slice a b xs = take (b - a) (drop a xs)"

lemma length_slice [simp]: "length (slice a b xs) = min (b - a) (length xs - a)"
  by (simp add: slice_def)

lemma slice_append2: "length xs = a \<Longrightarrow> slice (a + i) (a + j) (xs @ ys) = slice i j ys"
  by (simp add: slice_def)

section \<open>Reading from a stream\<close>

text \<open>io.ReadFull: nothing requested succeeds, a stream at its end reports EOF, a stream that
  ends inside the request reports ErrUnexpectedEOF.\<close>

definition read_full :: "nat \<Rightarrow> bytes \<Rightarrow> err + bytes \<times> bytes" where
  "read_full n s =
     (if n \<le> length s then Inr (take n s, drop n s)
      else if s = [] then Inl EOF else Inl UnexpectedEOF)"

lemma read_full_append [codec_simps]: "length a = n \<Longrightarrow> read_full n (a @ s) = Inr (a, s)"
  by (auto simp: read_full_def)

lemma read_full_0 [simp]: "read_full 0 s = Inr ([], s)"
  by (simp add: read_full_def)

lemma read_full_Nil [simp]: "0 < n \<Longrightarrow> read_full n [] = Inl EOF"
  by (simp add: read_full_def)

lemma read_full_short: "length s < n \<Longrightarrow> read_full n s = Inl (if s = [] then EOF else UnexpectedEOF)"
  by (simp add: read_full_def)

lemma read_full_Inr:
  "read_full n s = Inr (a, r) \<longleftrightarrow> s = a @ r \<and> length a = n"
  by (auto simp: read_full_def append_eq_conv_conj min_def)

lemma read_full_InlD: "read_full n s = Inl e \<Longrightarrow> length s < n \<and> e \<in> {EOF, UnexpectedEOF}"
  by (auto simp: read_full_def split: if_splits)

text \<open>io.ReadFull on a reader that delivers s and then reports the error e.\<close>

definition read_full_end :: "err \<Rightarrow> nat \<Rightarrow> bytes \<Rightarrow> err + bytes \<times> bytes" where
  "read_full_end e n s =
     (if n \<le> length s then Inr (take n s, drop n s)
      else if e = EOF \<and> s \<noteq> [] then Inl UnexpectedEOF else Inl e)"

lemma read_full_end_append [codec_simps]: "length a = n \<Longrightarrow> read_full_end e n (a @ s) = Inr (a, s)"
  by (auto simp: read_full_end_def)

lemma read_full_end_Nil [simp]: "0 < n \<Longrightarrow> read_full_end e n [] = Inl e"
  by (simp add: read_full_end_def)

lemma read_full_end_Inr:
  "read_full_end e n s = Inr (a, r) \<longleftrightarrow> s = a @ r \<and> length a = n"
  by (auto simp: read_full_end_def append_eq_conv_conj min_def)

section \<open>A framed stream\<close>

text \<open>A reader loop: read frames until the decoder reports an error, and keep that error.\<close>

function read_all :: "(bytes \<Rightarrow> err + 'a \<times> bytes) \<Rightarrow> bytes \<Rightarrow> 'a list \<times> err" where
  "read_all rd s =
     (case rd s of
        Inl e \<Rightarrow> ([], e)
      | Inr (x, s') \<Rightarrow>
          if length s' < length s
          then (let (xs, e) = read_all rd s' in (x # xs, e))
          else ([x], EOF))"
  by pat_completeness auto
termination by (relation "measure (length \<circ> snd)") auto

declare read_all.simps [simp del]

locale frame_codec =
  fixes enc :: "'a \<Rightarrow> bytes"
    and rd :: "bytes \<Rightarrow> err + 'a \<times> bytes"
    and ok :: "'a \<Rightarrow> bool"
  assumes enc_nonempty: "enc x \<noteq> []"
    and rd_enc: "ok x \<Longrightarrow> rd (enc x @ s) = Inr (x, s)"
    and rd_Nil: "rd [] = Inl EOF"
    and rd_cut: "ok x \<Longrightarrow> k < length (enc x) \<Longrightarrow> \<exists>e. rd (take k (enc x)) = Inl e"
begin

lemma read_all_Cons:
  assumes "ok x"
  shows "read_all rd (enc x @ s) = (x # fst (read_all rd s), snd (read_all rd s))"
  by (subst read_all.simps) (simp add: rd_enc assms enc_nonempty split: prod.split)

lemma read_all_frames:
  "\<forall>x\<in>set xs. ok x \<Longrightarrow> read_all rd (concat (map enc xs)) = (xs, EOF)"
proof (induction xs)
  case Nil
  show ?case by (subst read_all.simps) (simp add: rd_Nil)
qed (simp add: read_all_Cons)

text \<open>A stream cut at any byte delivers exactly the frames that are complete, in order: no
  frame is invented, none that arrived whole is dropped.\<close>

lemma read_all_cut:
  "\<forall>x\<in>set xs. ok x \<Longrightarrow>
   \<exists>n. fst (read_all rd (take k (concat (map enc xs)))) = take n xs \<and>
       length (concat (map enc (take n xs))) \<le> k \<and>
       (n < length xs \<longrightarrow> k < length (concat (map enc (take (Suc n) xs))))"
proof (induction xs arbitrary: k)
  case Nil
  show ?case by (subst read_all.simps) (simp add: rd_Nil)
next
  case (Cons x xs)
  have x: "ok x" using Cons.prems by simp
  show ?case
  proof (cases "k < length (enc x)")
    case True
    then obtain e where "rd (take k (enc x)) = Inl e" using rd_cut [OF x] by blast
    then have "fst (read_all rd (take k (concat (map enc (x # xs))))) = []"
      using True by (subst read_all.simps) simp
    then show ?thesis using True by (intro exI [of _ 0]) simp
  next
    case False
    let ?k = "k - length (enc x)"
    obtain n where ih: "fst (read_all rd (take ?k (concat (map enc xs)))) = take n xs"
      "length (concat (map enc (take n xs))) \<le> ?k"
      "n < length xs \<longrightarrow> ?k < length (concat (map enc (take (Suc n) xs)))"
      using Cons.IH [of ?k] Cons.prems by auto
    from False have "fst (read_all rd (take k (concat (map enc (x # xs))))) = take (Suc n) (x # xs)"
      by (simp add: read_all_Cons [OF x] ih)
    moreover have "length (concat (map enc (take (Suc n) (x # xs)))) \<le> k"
      using ih(2) False by simp
    moreover have "Suc n < length (x # xs) \<longrightarrow>
        k < length (concat (map enc (take (Suc (Suc n)) (x # xs))))"
      using ih(3) False by (auto simp del: length_concat)
    ultimately show ?thesis by blast
  qed
qed

end

section \<open>Subsequences\<close>

lemma subseq_subset: "subseq xs ys \<Longrightarrow> set xs \<subseteq> set ys"
  by (auto dest: list_emb_set)

lemma subseq_insert_mid: "subseq (xs @ zs) (xs @ ys @ zs)"
  by (intro list_emb_append_mono) (auto intro: list_emb_append2)

lemma subseq_dropWhile [simp]: "subseq (dropWhile P xs) xs"
  by (intro suffix_imp_subseq suffix_dropWhile)

section \<open>Decimal rendering\<close>

text \<open>fmt's %d of a non-negative integer.\<close>

fun show_nat :: "nat \<Rightarrow> string" where
  "show_nat n = (if n < 10 then [char_of (48 + n)] else show_nat (n div 10) @ [char_of (48 + n mod 10)])"

declare show_nat.simps [simp del]

lemma show_nat_digit [simp]: "n < 10 \<Longrightarrow> show_nat n = [char_of (48 + n)]"
  by (subst show_nat.simps) simp

lemma show_nat_nonempty [simp]: "show_nat n \<noteq> []"
  by (subst show_nat.simps) simp

text \<open>The hexadecimal digits of %x, and %0wx with its width.\<close>

definition hex_digit :: "nat \<Rightarrow> char" where
  "hex_digit d = (if d < 10 then char_of (48 + d) else char_of (87 + d))"

fun show_hex :: "nat \<Rightarrow> string" where
  "show_hex n = (if n < 16 then [hex_digit n] else show_hex (n div 16) @ [hex_digit (n mod 16)])"

declare show_hex.simps [simp del]

definition show_hex_pad :: "nat \<Rightarrow> nat \<Rightarrow> string" where
  "show_hex_pad w n = (let h = show_hex n in replicate (w - length h) CHR ''0'' @ h)"

definition show_int :: "int \<Rightarrow> string" where
  "show_int i = (if i < 0 then ''-'' @ show_nat (nat (- i)) else show_nat (nat i))"

end
