(* ===== verification/Cold_Buffer.thy ===== *)
theory Cold_Buffer
  imports Prelude
begin

text \<open>
  The compressed tier of a session's output buffer (internal/session/coldbuffer.go): a run of
  output chunks is concatenated as [seq:u64be][len:u32be][bytes] frames and compressed into a
  coldSegment; a resynchronisation decompresses it and takes the chunks from an offset on.
  compress/flate is a pair of parameters: deflate gives the compressed bytes or an error,
  inflate the bytes a reader delivers and the error it ends with (EOF when the data is whole).
\<close>

section \<open>Chunks and segments\<close>

text \<open>A time.Time is a number of nanoseconds; the zero Time is 0.\<close>

type_synonym time = int

(* internal/session/session.go:163-168 OutputChunk *)
record OutputChunk =
  Seq :: nat
  Data :: bytes
  Timestamp :: time

(* internal/session/coldbuffer.go:22-24 coldChunkFrameLimit *)
definition coldChunkFrameLimit :: nat where
  "coldChunkFrameLimit = 16 * 2 ^ 20"

(* internal/session/coldbuffer.go:26-36 coldSegment *)
record coldSegment =
  startSeq :: nat
  endSeq :: nat
  rawBytes :: nat
  seg_data :: bytes
  oldestTime :: time
  newestTime :: time

definition chunk_frame :: "OutputChunk \<Rightarrow> bytes" where
  "chunk_frame ch = be_bytes 8 (Seq ch) @ be_bytes 4 (length (Data ch)) @ Data ch"

definition raw_size :: "OutputChunk list \<Rightarrow> nat" where
  "raw_size chunks = sum_list (map (\<lambda>ch. length (Data ch)) chunks)"

(* internal/session/coldbuffer.go:38-73 compressChunks *)
definition compressChunks :: "(bytes \<Rightarrow> err + bytes) \<Rightarrow> OutputChunk list \<Rightarrow> err + coldSegment" where
  "compressChunks deflate chunks =
     (if length chunks = 0 then Inl (ErrorString ''compressChunks: empty input'')
      else (case deflate (concat (map chunk_frame chunks)) of
              Inl e \<Rightarrow> Inl e
            | Inr buf \<Rightarrow> Inr \<lparr>startSeq = Seq (hd chunks), endSeq = Seq (last chunks),
                rawBytes = raw_size chunks, seg_data = buf,
                oldestTime = Timestamp (hd chunks), newestTime = Timestamp (last chunks)\<rparr>))"

text \<open>The read loop of chunksFrom over the decompressed stream s, which ends with error e; out
  is the result so far. Each round takes at least the 12 bytes of a header.\<close>

definition corrupt :: "err \<Rightarrow> err" where
  "corrupt e = Wrapped ''cold segment corrupt: '' e"

(* internal/session/coldbuffer.go:82-101 chunksFrom *)
function chunks_loop :: "err \<Rightarrow> nat \<Rightarrow> bytes \<Rightarrow> OutputChunk list \<Rightarrow> err + OutputChunk list" where
  "chunks_loop e fromSeq s out =
     (case read_full_end e 12 s of
        Inl err \<Rightarrow> if err = EOF then Inr out else Inl (corrupt err)
      | Inr (hdr, s1) \<Rightarrow>
          let sq = be_val (take 8 hdr); n = be_val (drop 8 hdr) in
          if n > coldChunkFrameLimit
          then Inl (ErrorString (''cold segment corrupt: frame too large ('' @ show_nat n @ '')''))
          else (case read_full_end e n s1 of
                  Inl err \<Rightarrow> Inl (corrupt err)
                | Inr (d, s2) \<Rightarrow>
                    chunks_loop e fromSeq s2
                      (if sq \<ge> fromSeq then out @ [\<lparr>Seq = sq, Data = d, Timestamp = 0\<rparr>] else out)))"
  by pat_completeness auto
termination
  by (relation "measure (\<lambda>(e, fromSeq, s, out). length s)") (auto simp: read_full_end_Inr)

declare chunks_loop.simps [simp del]

(* internal/session/coldbuffer.go:75-102 chunksFrom *)
definition chunksFrom ::
  "(bytes \<Rightarrow> bytes \<times> err) \<Rightarrow> coldSegment \<Rightarrow> nat \<Rightarrow> err + OutputChunk list" where
  "chunksFrom inflate seg fromSeq =
     (case inflate (seg_data seg) of (s, e) \<Rightarrow> chunks_loop e fromSeq s [])"

section \<open>Correctness\<close>

definition flate_laws :: "(bytes \<Rightarrow> err + bytes) \<Rightarrow> (bytes \<Rightarrow> bytes \<times> err) \<Rightarrow> bool" where
  "flate_laws deflate inflate \<longleftrightarrow> (\<forall>x z. deflate x = Inr z \<longrightarrow> inflate z = (x, EOF))"

definition chunk_ok :: "OutputChunk \<Rightarrow> bool" where
  "chunk_ok ch \<longleftrightarrow> Seq ch < 2 ^ 64 \<and> length (Data ch) \<le> coldChunkFrameLimit"

definition untimed :: "OutputChunk \<Rightarrow> OutputChunk" where
  "untimed ch = \<lparr>Seq = Seq ch, Data = Data ch, Timestamp = 0\<rparr>"

lemma chunks_loop_Cons:
  assumes "chunk_ok ch"
  shows "chunks_loop e fromSeq (chunk_frame ch @ s) out =
     chunks_loop e fromSeq s (if Seq ch \<ge> fromSeq then out @ [untimed ch] else out)"
proof -
  let ?h = "be_bytes 8 (Seq ch) @ be_bytes 4 (length (Data ch))"
  have split: "chunk_frame ch @ s = ?h @ Data ch @ s" by (simp add: chunk_frame_def)
  have h: "read_full_end e 12 (?h @ Data ch @ s) = Inr (?h, Data ch @ s)"
    by (rule read_full_end_append) simp
  show ?thesis
    unfolding split
    by (subst chunks_loop.simps, subst h)
      (use assms in \<open>simp add: chunk_ok_def be_val_be_bytes coldChunkFrameLimit_def
        read_full_end_append untimed_def Let_def\<close>)
qed

lemma chunks_loop_frames:
  "\<forall>ch\<in>set chunks. chunk_ok ch \<Longrightarrow>
   chunks_loop e fromSeq (concat (map chunk_frame chunks) @ s) out =
   chunks_loop e fromSeq s (out @ map untimed (filter (\<lambda>ch. fromSeq \<le> Seq ch) chunks))"
  by (induction chunks arbitrary: out) (simp_all add: chunks_loop_Cons)

lemma chunks_loop_Nil [simp]:
  "chunks_loop e fromSeq [] out = (if e = EOF then Inr out else Inl (corrupt e))"
  by (subst chunks_loop.simps) simp

lemma chunks_loop_bad_end:
  "e \<noteq> EOF \<Longrightarrow> \<exists>e'. chunks_loop e fromSeq s out = Inl e'"
proof (induction e fromSeq s out rule: chunks_loop.induct)
  case (1 e fromSeq s out)
  show ?case
  proof (cases "read_full_end e 12 s")
    case (Inl err)
    then have "err \<noteq> EOF" using 1(2) by (auto simp: read_full_end_def split: if_splits)
    then show ?thesis by (subst chunks_loop.simps) (simp add: Inl)
  next
    case (Inr p)
    then obtain hdr s1 where r: "read_full_end e 12 s = Inr (hdr, s1)" by (cases p) auto
    show ?thesis
    proof (cases "be_val (drop 8 hdr) > coldChunkFrameLimit")
      case True
      then show ?thesis by (subst chunks_loop.simps) (simp add: r)
    next
      case small: False
      show ?thesis
      proof (cases "read_full_end e (be_val (drop 8 hdr)) s1")
        case (Inl err)
        with small show ?thesis by (subst chunks_loop.simps) (simp add: r)
      next
        case (Inr q)
        then obtain d s2 where r2: "read_full_end e (be_val (drop 8 hdr)) s1 = Inr (d, s2)"
          by (cases q) auto
        from 1(1) [OF r refl refl refl small r2 refl 1(2)] small r2 show ?thesis
          by (subst chunks_loop.simps) (simp add: r Let_def)
      qed
    qed
  qed
qed

lemma chunksFrom_compress:
  assumes "flate_laws deflate inflate" "compressChunks deflate chunks = Inr seg"
    "\<forall>ch\<in>set chunks. chunk_ok ch"
  shows "chunksFrom inflate seg fromSeq = Inr (map untimed (filter (\<lambda>ch. fromSeq \<le> Seq ch) chunks))"
proof -
  from assms(1,2) have "inflate (seg_data seg) = (concat (map chunk_frame chunks), EOF)"
    by (auto simp: compressChunks_def flate_laws_def split: if_splits sum.splits)
  with chunks_loop_frames [OF assms(3), of EOF fromSeq "[]" "[]"]
  show ?thesis by (simp add: chunksFrom_def)
qed

text \<open>C20. Reading back a segment from an offset gives exactly the chunks of the run with that
  sequence number or a later one, in order and byte for byte (timestamps are not kept); the
  segment's bounds and raw size are those of the run.\<close>

theorem cold_segment_roundtrip:
  assumes "flate_laws deflate inflate" "compressChunks deflate chunks = Inr seg"
    "\<forall>ch\<in>set chunks. chunk_ok ch"
  shows "chunksFrom inflate seg fromSeq = Inr (map untimed (filter (\<lambda>ch. fromSeq \<le> Seq ch) chunks)) \<and>
         startSeq seg = Seq (hd chunks) \<and> endSeq seg = Seq (last chunks) \<and>
         rawBytes seg = raw_size chunks"
  using chunksFrom_compress [OF assms] assms(2)
  by (auto simp: compressChunks_def split: if_splits sum.splits)

lemma cold_segment_roundtrip_witness:
  "\<exists>seg. compressChunks Inr [\<lparr>Seq = 4, Data = [1, 2], Timestamp = 9\<rparr>, \<lparr>Seq = 5, Data = [3], Timestamp = 11\<rparr>] = Inr seg \<and>
     chunksFrom (\<lambda>z. (z, EOF)) seg 5 = Inr [\<lparr>Seq = 5, Data = [3], Timestamp = 0\<rparr>]"
proof -
  let ?cs = "[\<lparr>Seq = 4, Data = [1, 2], Timestamp = 9\<rparr>, \<lparr>Seq = 5, Data = [3], Timestamp = 11\<rparr>]"
  obtain seg where seg: "compressChunks Inr ?cs = Inr seg" by (simp add: compressChunks_def)
  have "flate_laws Inr (\<lambda>z. (z, EOF))" by (simp add: flate_laws_def)
  from cold_segment_roundtrip [OF this seg, of 5] seg show ?thesis
    by (simp add: chunk_ok_def coldChunkFrameLimit_def untimed_def)
qed

end
