(* ===== verification/Output_Buffer.thy ===== *)
theory Output_Buffer
  imports Cold_Buffer
begin

text \<open>
  The retained output of a session (internal/session/session.go): recent chunks in the hot tier,
  chunks waiting for compression (coldPending) and compressed segments. The record out_buffer
  holds the fields of Session these operations touch; Session extends it, and every operation
  is polymorphic in the extension. Byte counters are Go ints, kept as integers. Background
  compression is two critical sections with an unlocked part between them, modelled as two
  steps with the batch in flight as part of the state.
\<close>

section \<open>State and limits\<close>

(* internal/session/session.go:92-104 Session *)
record out_buffer =
  sq :: nat
  outputChunks :: "OutputChunk list"
  outputBufferBytes :: int
  coldPending :: "OutputChunk list"
  coldPendingBytes :: int
  coldFlushing :: bool
  coldSegments :: "coldSegment list"
  coldBytes :: int
  coldRawBytes :: int

definition second :: int where
  "second = 1000000000"

(* internal/session/session.go:31-34 maxHotOutputBytes *)
definition maxHotOutputBytes :: int where
  "maxHotOutputBytes = 4 * 1024 * 1024"

(* internal/session/session.go:35-35 maxHotOutputChunks *)
definition maxHotOutputChunks :: nat where
  "maxHotOutputChunks = 8192"

(* internal/session/session.go:36-38 maxColdOutputBytes *)
definition maxColdOutputBytes :: int where
  "maxColdOutputBytes = 32 * 1024 * 1024"

(* internal/session/session.go:39-40 coldSegmentRawTarget *)
definition coldSegmentRawTarget :: int where
  "coldSegmentRawTarget = 1 * 1024 * 1024"

(* internal/session/session.go:41-43 maxOutputBufferAge *)
definition maxOutputBufferAge :: int where
  "maxOutputBufferAge = 72 * 3600 * second"

(* internal/session/session.go:44-46 coldPendingFlushAge *)
definition coldPendingFlushAge :: int where
  "coldPendingFlushAge = 2 * 60 * second"

(* internal/session/session.go:47-51 maxResyncBatchRawBytes *)
definition maxResyncBatchRawBytes :: nat where
  "maxResyncBatchRawBytes = 4 * 1024 * 1024"

section \<open>Eviction\<close>

(* internal/session/session.go:713-733 evictHotLocked *)
function evictHotLocked :: "time \<Rightarrow> 'a out_buffer_scheme \<Rightarrow> 'a out_buffer_scheme" where
  "evictHotLocked now s =
     (case outputChunks s of
        [] \<Rightarrow> s
      | oldest # rest \<Rightarrow>
          let tooOld = now - Timestamp oldest > maxOutputBufferAge;
              overLimit = length (outputChunks s) > maxHotOutputChunks \<or>
                          outputBufferBytes s > maxHotOutputBytes in
          if \<not> tooOld \<and> \<not> overLimit then s
          else
            let s1 = s\<lparr>outputChunks := rest,
                       outputBufferBytes := outputBufferBytes s - int (length (Data oldest))\<rparr> in
            evictHotLocked now
              (if \<not> tooOld
               then s1\<lparr>coldPending := coldPending s1 @ [oldest],
                       coldPendingBytes := coldPendingBytes s1 + int (length (Data oldest))\<rparr>
               else s1))"
  by pat_completeness auto
termination
  by (relation "measure (\<lambda>(now, s). length (outputChunks s))") (auto simp: Let_def)

declare evictHotLocked.simps [simp del]

text \<open>The loop of evictColdPendingLocked, without its coldFlushing guard.\<close>

function evict_pending_loop :: "time \<Rightarrow> 'a out_buffer_scheme \<Rightarrow> 'a out_buffer_scheme" where
  "evict_pending_loop now s =
     (case coldPending s of
        [] \<Rightarrow> s
      | c # rest \<Rightarrow>
          if now - Timestamp c > maxOutputBufferAge
          then evict_pending_loop now
                 (s\<lparr>coldPendingBytes := coldPendingBytes s - int (length (Data c)), coldPending := rest\<rparr>)
          else s)"
  by pat_completeness auto
termination
  by (relation "measure (\<lambda>(now, s). length (coldPending s))") auto

declare evict_pending_loop.simps [simp del]

(* internal/session/session.go:735-749 evictColdPendingLocked *)
definition evictColdPendingLocked :: "time \<Rightarrow> 'a out_buffer_scheme \<Rightarrow> 'a out_buffer_scheme" where
  "evictColdPendingLocked now s = (if coldFlushing s then s else evict_pending_loop now s)"

(* internal/session/session.go:751-766 evictColdLocked *)
function evictColdLocked :: "time \<Rightarrow> 'a out_buffer_scheme \<Rightarrow> 'a out_buffer_scheme" where
  "evictColdLocked now s =
     (case coldSegments s of
        [] \<Rightarrow> s
      | oldest # rest \<Rightarrow>
          let tooOld = now - newestTime oldest > maxOutputBufferAge;
              overLimit = coldBytes s > maxColdOutputBytes in
          if \<not> tooOld \<and> \<not> overLimit then s
          else evictColdLocked now
                 (s\<lparr>coldSegments := rest,
                    coldBytes := coldBytes s - int (length (seg_data oldest)),
                    coldRawBytes := coldRawBytes s - int (rawBytes oldest)\<rparr>))"
  by pat_completeness auto
termination
  by (relation "measure (\<lambda>(now, s). length (coldSegments s))") (auto simp: Let_def)

declare evictColdLocked.simps [simp del]

(* internal/session/session.go:700-711 evictOutputChunksLocked *)
definition evictOutputChunksLocked ::
  "time \<Rightarrow> 'a out_buffer_scheme \<Rightarrow> 'a out_buffer_scheme \<times> bool" where
  "evictOutputChunksLocked now s =
     (let s1 = evictHotLocked now s;
          s2 = evictColdPendingLocked now s1;
          needColdFlush = (coldPendingBytes s2 \<ge> coldSegmentRawTarget \<and> \<not> coldFlushing s2);
          s3 = evictColdLocked now s2 in
      (s3, needColdFlush))"

section \<open>Append\<close>

text \<open>The buffer part of handlePTYOutput's critical section, up to the eviction; the session's
  other fields are updated by its caller.\<close>

(* internal/session/session.go:874-901 handlePTYOutput *)
definition append_output :: "time \<Rightarrow> bytes \<Rightarrow> 'a out_buffer_scheme \<Rightarrow> 'a out_buffer_scheme" where
  "append_output now data s =
     (let currentSeq = (sq s + 1) mod 2 ^ 64;
          newChunk = \<lparr>Seq = currentSeq, Data = data, Timestamp = now\<rparr> in
      s\<lparr>sq := currentSeq, outputChunks := outputChunks s @ [newChunk],
        outputBufferBytes := outputBufferBytes s + int (length data)\<rparr>)"

section \<open>Background compression\<close>

text \<open>First critical section: nothing to do, or the batch to compress with the guard set.\<close>

(* internal/session/session.go:776-783 flushColdPending *)
definition flush_begin :: "'a out_buffer_scheme \<Rightarrow> 'a out_buffer_scheme \<times> OutputChunk list option" where
  "flush_begin s =
     (if coldFlushing s \<or> length (coldPending s) = 0 then (s, None)
      else (s\<lparr>coldFlushing := True\<rparr>, Some (coldPending s)))"

text \<open>Second critical section, after compressing the batch outside the lock.\<close>

(* internal/session/session.go:785-811 flushColdPending *)
definition flush_finish ::
  "(bytes \<Rightarrow> err + bytes) \<Rightarrow> OutputChunk list \<Rightarrow> 'a out_buffer_scheme \<Rightarrow> 'a out_buffer_scheme" where
  "flush_finish deflate batch s =
     (let batchBytes = int (raw_size batch);
          s1 = s\<lparr>coldPending := drop (length batch) (coldPending s),
                 coldPendingBytes := coldPendingBytes s - batchBytes\<rparr>;
          s2 = (case compressChunks deflate batch of
                  Inl e \<Rightarrow> s1
                | Inr seg \<Rightarrow> s1\<lparr>coldSegments := coldSegments s1 @ [seg],
                    coldBytes := coldBytes s1 + int (length (seg_data seg)),
                    coldRawBytes := coldRawBytes s1 + int (rawBytes seg)\<rparr>)
      in s2\<lparr>coldFlushing := False\<rparr>)"

text \<open>A whole flush with nothing in between.\<close>

(* internal/session/session.go:768-812 flushColdPending *)
definition flushColdPending ::
  "(bytes \<Rightarrow> err + bytes) \<Rightarrow> 'a out_buffer_scheme \<Rightarrow> 'a out_buffer_scheme" where
  "flushColdPending deflate s =
     (case flush_begin s of
        (s1, None) \<Rightarrow> s1
      | (s1, Some batch) \<Rightarrow> flush_finish deflate batch s1)"

text \<open>The locked part of EvictStaleOutput, with its decision to flush.\<close>

(* internal/session/session.go:819-825 EvictStaleOutput *)
definition evict_stale_locked :: "time \<Rightarrow> 'a out_buffer_scheme \<Rightarrow> 'a out_buffer_scheme \<times> bool" where
  "evict_stale_locked now s =
     (case evictOutputChunksLocked now s of
        (s1, needFlush) \<Rightarrow>
          (s1, needFlush \<or>
               (\<not> coldFlushing s1 \<and> length (coldPending s1) > 0 \<and>
                now - Timestamp (hd (coldPending s1)) > coldPendingFlushAge)))"

(* internal/session/session.go:814-829 EvictStaleOutput *)
definition EvictStaleOutput ::
  "(bytes \<Rightarrow> err + bytes) \<Rightarrow> time \<Rightarrow> 'a out_buffer_scheme \<Rightarrow> 'a out_buffer_scheme" where
  "EvictStaleOutput deflate now s =
     (case evict_stale_locked now s of
        (s1, needFlush) \<Rightarrow> if needFlush then flushColdPending deflate s1 else s1)"

section \<open>Reading back\<close>

(* internal/session/session.go:539-551 oldestRetainedSeqLocked *)
definition oldestRetainedSeqLocked :: "'a out_buffer_scheme \<Rightarrow> nat option" where
  "oldestRetainedSeqLocked s =
     (if length (coldSegments s) > 0 then Some (startSeq (hd (coldSegments s)))
      else if length (coldPending s) > 0 then Some (Seq (hd (coldPending s)))
      else if length (outputChunks s) > 0 then Some (Seq (hd (outputChunks s)))
      else None)"

text \<open>The loop over the cold segments: the batch so far, its size, and whether the limit was
  reached. A segment that does not decode is skipped.\<close>

(* internal/session/session.go:516-531 outputFromOffset *)
fun cold_batch ::
  "(bytes \<Rightarrow> bytes \<times> err) \<Rightarrow> nat \<Rightarrow> coldSegment list \<Rightarrow> OutputChunk list \<Rightarrow> nat \<Rightarrow> OutputChunk list \<times> nat \<times> bool"
where
  "cold_batch inflate fromOffset [] out tot = (out, tot, False)"
| "cold_batch inflate fromOffset (seg # segs) out tot =
     (if tot \<ge> maxResyncBatchRawBytes then (out, tot, True)
      else (case chunksFrom inflate seg fromOffset of
              Inl e \<Rightarrow> cold_batch inflate fromOffset segs out tot
            | Inr chunks \<Rightarrow>
                cold_batch inflate fromOffset segs (out @ chunks) (tot + raw_size chunks)))"

(* internal/session/session.go:530-536 outputFromOffset *)
fun raw_batch :: "OutputChunk list \<Rightarrow> OutputChunk list \<Rightarrow> nat \<Rightarrow> OutputChunk list" where
  "raw_batch [] out tot = out"
| "raw_batch (ch # chs) out tot =
     (if tot \<ge> maxResyncBatchRawBytes then out
      else raw_batch chs (out @ [ch]) (tot + length (Data ch)))"

definition raw_from :: "nat \<Rightarrow> OutputChunk list \<Rightarrow> OutputChunk list" where
  "raw_from fromOffset chs = filter (\<lambda>ch. Seq ch \<ge> fromOffset) chs"

definition drop_status :: string where
  "drop_status = ''Output was dropped (use Ctrl-^ f to redraw)''"

text \<open>The batch as (offset, data) pairs, and the status message sent to the client if any;
  st says whether the session has a transport.\<close>

(* internal/session/session.go:465-537 outputFromOffset *)
definition outputFromOffset ::
  "(bytes \<Rightarrow> bytes \<times> err) \<Rightarrow> bool \<Rightarrow> 'a out_buffer_scheme \<Rightarrow> nat \<Rightarrow> (nat \<times> bytes) list \<times> string option" where
  "outputFromOffset inflate st s fromOffset =
     (let segs = (if fromOffset > 1 then filter (\<lambda>seg. endSeq seg \<ge> fromOffset) (coldSegments s) else []);
          rawChunks = raw_from fromOffset (coldPending s) @ raw_from fromOffset (outputChunks s);
          status = (case oldestRetainedSeqLocked s of
                      None \<Rightarrow> None
                    | Some oldestSeq \<Rightarrow>
                        if st \<and> fromOffset > 1 \<and> oldestSeq > fromOffset then Some drop_status else None);
          (out, tot, full) = cold_batch inflate fromOffset segs [] 0;
          batch = (if full then out else raw_batch rawChunks out tot) in
      (map (\<lambda>ch. (Seq ch, Data ch)) batch, status))"

section \<open>The retained log\<close>

text \<open>What the buffer still holds, as one list of chunks: the contents of the segments (nothing
  for one that does not decode), then the chunks waiting, then the recent ones.\<close>

definition seg_chunks :: "(bytes \<Rightarrow> bytes \<times> err) \<Rightarrow> coldSegment \<Rightarrow> OutputChunk list" where
  "seg_chunks inflate seg = (case chunksFrom inflate seg 0 of Inl e \<Rightarrow> [] | Inr cs \<Rightarrow> cs)"

definition raw_retained :: "'a out_buffer_scheme \<Rightarrow> OutputChunk list" where
  "raw_retained s = map untimed (coldPending s @ outputChunks s)"

definition retained :: "(bytes \<Rightarrow> bytes \<times> err) \<Rightarrow> 'a out_buffer_scheme \<Rightarrow> OutputChunk list" where
  "retained inflate s = concat (map (seg_chunks inflate) (coldSegments s)) @ raw_retained s"

lemma untimed_simps [simp]:
  "Seq (untimed c) = Seq c" "Data (untimed c) = Data c" "untimed (untimed c) = untimed c"
  by (simp_all add: untimed_def)

lemma raw_size_simps [simp]:
  "raw_size [] = 0" "raw_size (c # cs) = length (Data c) + raw_size cs"
  "raw_size (xs @ ys) = raw_size xs + raw_size ys"
  by (simp_all add: raw_size_def)

text \<open>Decoding does not depend on the offset asked for, except that earlier chunks are left out.\<close>

lemma chunks_loop_from:
  "chunks_loop e n s (filter (\<lambda>c. n \<le> Seq c) out) =
   (case chunks_loop e 0 s out of Inl err \<Rightarrow> Inl err | Inr cs \<Rightarrow> Inr (filter (\<lambda>c. n \<le> Seq c) cs))"
proof (induction "length s" arbitrary: s out rule: less_induct)
  case less
  show ?case
  proof (cases "read_full_end e 12 s")
    case (Inl err)
    then show ?thesis by (simp add: chunks_loop.simps [of e _ s])
  next
    case (Inr p)
    then obtain hdr s1 where r: "read_full_end e 12 s = Inr (hdr, s1)" by (cases p) auto
    then have l1: "length s = 12 + length s1" by (auto simp: read_full_end_Inr)
    let ?n = "be_val (drop 8 hdr)"
    show ?thesis
    proof (cases "?n > coldChunkFrameLimit")
      case True
      then show ?thesis by (simp add: chunks_loop.simps [of e _ s] r)
    next
      case small: False
      show ?thesis
      proof (cases "read_full_end e ?n s1")
        case (Inl err)
        with small show ?thesis by (simp add: chunks_loop.simps [of e _ s] r)
      next
        case (Inr q)
        then obtain d s2 where r2: "read_full_end e ?n s1 = Inr (d, s2)" by (cases q) auto
        then have "length s2 < length s" using l1 by (auto simp: read_full_end_Inr)
        note ih = less [OF this, of "out @ [\<lparr>Seq = be_val (take 8 hdr), Data = d, Timestamp = 0\<rparr>]"]
        have unf: "chunks_loop e m s out' = chunks_loop e m s2
            (if be_val (take 8 hdr) \<ge> m then out' @ [\<lparr>Seq = be_val (take 8 hdr), Data = d, Timestamp = 0\<rparr>] else out')"
          for m out' by (subst chunks_loop.simps) (use small in \<open>simp add: r r2 Let_def\<close>)
        show ?thesis using ih by (cases "n \<le> be_val (take 8 hdr)") (simp_all add: unf)
      qed
    qed
  qed
qed

lemma chunksFrom_from:
  "chunksFrom inflate seg n =
   (case chunksFrom inflate seg 0 of Inl e \<Rightarrow> Inl e | Inr cs \<Rightarrow> Inr (filter (\<lambda>c. n \<le> Seq c) cs))"
  using chunks_loop_from [of _ n _ "[]"] by (simp add: chunksFrom_def case_prod_beta)

lemma chunksFrom_seg_chunks:
  "(case chunksFrom inflate seg n of Inl e \<Rightarrow> [] | Inr cs \<Rightarrow> cs) =
   filter (\<lambda>c. n \<le> Seq c) (seg_chunks inflate seg)"
  by (subst chunksFrom_from) (simp add: seg_chunks_def split: sum.splits)

section \<open>Invariant\<close>

definition seg_wf :: "(bytes \<Rightarrow> bytes \<times> err) \<Rightarrow> coldSegment \<Rightarrow> bool" where
  "seg_wf inflate seg \<longleftrightarrow> (\<forall>c\<in>set (seg_chunks inflate seg). startSeq seg \<le> Seq c \<and> Seq c \<le> endSeq seg)"

definition counters_ok :: "'a out_buffer_scheme \<Rightarrow> bool" where
  "counters_ok s \<longleftrightarrow>
     outputBufferBytes s = int (raw_size (outputChunks s)) \<and>
     coldPendingBytes s = int (raw_size (coldPending s)) \<and>
     coldBytes s = int (sum_list (map (\<lambda>seg. length (seg_data seg)) (coldSegments s))) \<and>
     coldRawBytes s = int (sum_list (map rawBytes (coldSegments s)))"

definition ascending :: "OutputChunk list \<Rightarrow> bool" where
  "ascending cs \<longleftrightarrow> sorted_wrt (<) (map Seq cs)"

definition log_ok :: "(bytes \<Rightarrow> bytes \<times> err) \<Rightarrow> 'a out_buffer_scheme \<Rightarrow> bool" where
  "log_ok inflate s \<longleftrightarrow>
     ascending (retained inflate s) \<and>
     (\<forall>c\<in>set (retained inflate s). 1 \<le> Seq c \<and> Seq c \<le> sq s) \<and>
     (\<forall>c\<in>set (coldPending s @ outputChunks s). chunk_ok c) \<and>
     (\<forall>seg\<in>set (coldSegments s). seg_wf inflate seg)"

definition buf_inv :: "(bytes \<Rightarrow> bytes \<times> err) \<Rightarrow> 'a out_buffer_scheme \<Rightarrow> bool" where
  "buf_inv inflate s \<longleftrightarrow> counters_ok s \<and> log_ok inflate s"

definition inflight_ok :: "'a out_buffer_scheme \<Rightarrow> OutputChunk list option \<Rightarrow> bool" where
  "inflight_ok s batch \<longleftrightarrow>
     (case batch of
        None \<Rightarrow> \<not> coldFlushing s
      | Some b \<Rightarrow> coldFlushing s \<and> b \<noteq> [] \<and> prefix b (coldPending s))"

text \<open>Every eviction keeps a subsequence of the log.\<close>

lemma ascending_subseq: "subseq xs ys \<Longrightarrow> ascending ys \<Longrightarrow> ascending xs"
  unfolding ascending_def by (induction rule: list_emb.induct) (auto simp: list_emb_set dest: list_emb_set)

lemma log_ok_subseq:
  assumes "log_ok inflate s" "subseq (retained inflate s') (retained inflate s)" "sq s \<le> sq s'"
    "set (coldPending s' @ outputChunks s') \<subseteq> set (coldPending s @ outputChunks s)"
    "set (coldSegments s') \<subseteq> set (coldSegments s)"
  shows "log_ok inflate s'"
proof -
  have "set (retained inflate s') \<subseteq> set (retained inflate s)"
    using assms(2) by (auto dest: list_emb_set)
  with assms ascending_subseq show ?thesis
    unfolding log_ok_def by (meson order_trans subsetD)
qed

subsection \<open>Eviction\<close>

definition too_old :: "time \<Rightarrow> OutputChunk \<Rightarrow> bool" where
  "too_old now c \<longleftrightarrow> now - Timestamp c > maxOutputBufferAge"

definition over_limit :: "'a out_buffer_scheme \<Rightarrow> bool" where
  "over_limit s \<longleftrightarrow> length (outputChunks s) > maxHotOutputChunks \<or> outputBufferBytes s > maxHotOutputBytes"

lemma evictHot_Nil: "outputChunks s = [] \<Longrightarrow> evictHotLocked now s = s"
  by (subst evictHotLocked.simps) simp

lemma evictHot_stop:
  "outputChunks s = c # rest \<Longrightarrow> \<not> too_old now c \<Longrightarrow> \<not> over_limit s \<Longrightarrow> evictHotLocked now s = s"
  by (subst evictHotLocked.simps) (simp add: too_old_def over_limit_def)

lemma evictHot_drop:
  "outputChunks s = c # rest \<Longrightarrow> too_old now c \<Longrightarrow>
   evictHotLocked now s = evictHotLocked now
     (s\<lparr>outputChunks := rest, outputBufferBytes := outputBufferBytes s - int (length (Data c))\<rparr>)"
  by (subst evictHotLocked.simps) (simp add: too_old_def Let_def)

lemma evictHot_demote:
  "outputChunks s = c # rest \<Longrightarrow> \<not> too_old now c \<Longrightarrow> over_limit s \<Longrightarrow>
   evictHotLocked now s = evictHotLocked now
     (s\<lparr>outputChunks := rest, outputBufferBytes := outputBufferBytes s - int (length (Data c)),
        coldPending := coldPending s @ [c],
        coldPendingBytes := coldPendingBytes s + int (length (Data c))\<rparr>)"
  by (subst evictHotLocked.simps) (simp add: too_old_def over_limit_def Let_def)

lemma evictHot_induct [case_names Nil stop drop demote]:
  assumes "\<And>s. outputChunks s = [] \<Longrightarrow> P s"
    and "\<And>s c rest. outputChunks s = c # rest \<Longrightarrow> \<not> too_old now c \<Longrightarrow> \<not> over_limit s \<Longrightarrow> P s"
    and "\<And>s c rest. outputChunks s = c # rest \<Longrightarrow> too_old now c \<Longrightarrow>
      P (s\<lparr>outputChunks := rest, outputBufferBytes := outputBufferBytes s - int (length (Data c))\<rparr>) \<Longrightarrow> P s"
    and "\<And>s c rest. outputChunks s = c # rest \<Longrightarrow> \<not> too_old now c \<Longrightarrow> over_limit s \<Longrightarrow>
      P (s\<lparr>outputChunks := rest, outputBufferBytes := outputBufferBytes s - int (length (Data c)),
           coldPending := coldPending s @ [c],
           coldPendingBytes := coldPendingBytes s + int (length (Data c))\<rparr>) \<Longrightarrow> P s"
  shows "P (s :: 'a out_buffer_scheme)"
proof (induction "length (outputChunks s)" arbitrary: s rule: less_induct)
  case less
  show ?case
  proof (cases "outputChunks s")
    case Nil
    then show ?thesis by (rule assms(1))
  next
    case (Cons c rest)
    consider "too_old now c" | "\<not> too_old now c" "over_limit s" | "\<not> too_old now c" "\<not> over_limit s" by blast
    then show ?thesis
    proof cases
      case 1
      then show ?thesis by (rule assms(3) [OF Cons]) (rule less, simp add: Cons)
    next
      case 2
      then show ?thesis by (rule assms(4) [OF Cons]) (rule less, simp add: Cons)
    next
      case 3
      then show ?thesis by (rule assms(2) [OF Cons])
    qed
  qed
qed

lemma evictHot_frame [simp]:
  "sq (evictHotLocked now s) = sq s" "coldFlushing (evictHotLocked now s) = coldFlushing s"
  "coldSegments (evictHotLocked now s) = coldSegments s" "coldBytes (evictHotLocked now s) = coldBytes s"
  "coldRawBytes (evictHotLocked now s) = coldRawBytes s"
  "out_buffer.more (evictHotLocked now s) = out_buffer.more s"
  by (induction s rule: evictHot_induct [where now = now];
      simp add: evictHot_Nil evictHot_stop evictHot_drop evictHot_demote)+

lemma evictHot_pending: "prefix (coldPending s) (coldPending (evictHotLocked now s))"
  by (induction s rule: evictHot_induct [where now = now])
    (auto simp: evictHot_Nil evictHot_stop evictHot_drop evictHot_demote dest: append_prefixD)

lemma evictHot_subseq:
  "subseq (coldPending (evictHotLocked now s) @ outputChunks (evictHotLocked now s))
     (coldPending s @ outputChunks s)"
proof (induction s rule: evictHot_induct [where now = now])
  case (drop s c rest)
  have "subseq (coldPending s @ rest) (coldPending s @ c # rest)"
    by (intro list_emb_append_mono) auto
  with drop show ?case
    by (auto simp: evictHot_drop intro: subseq_order.trans)
qed (simp_all add: evictHot_Nil evictHot_stop evictHot_demote)

lemma evictHot_lossless:
  "\<forall>c\<in>set (outputChunks s). \<not> too_old now c \<Longrightarrow>
   coldPending (evictHotLocked now s) @ outputChunks (evictHotLocked now s) = coldPending s @ outputChunks s"
  by (induction s rule: evictHot_induct [where now = now])
    (simp_all add: evictHot_Nil evictHot_stop evictHot_demote)

lemma evictHot_counters [inv_intros]: "counters_ok s \<Longrightarrow> counters_ok (evictHotLocked now s)"
  by (induction s rule: evictHot_induct [where now = now])
    (simp_all add: evictHot_Nil evictHot_stop evictHot_drop evictHot_demote counters_ok_def)

lemma evictHot_limits:
  "counters_ok s \<Longrightarrow> \<not> over_limit (evictHotLocked now s)"
  by (induction s rule: evictHot_induct [where now = now])
    (simp_all add: evictHot_Nil evictHot_stop evictHot_drop evictHot_demote counters_ok_def
      over_limit_def maxHotOutputChunks_def maxHotOutputBytes_def)

lemma evictHot_head:
  "outputChunks (evictHotLocked now s) = c # rest \<Longrightarrow> \<not> too_old now c"
  by (induction s arbitrary: c rest rule: evictHot_induct [where now = now])
    (simp_all add: evictHot_Nil evictHot_stop evictHot_drop evictHot_demote)

lemma pending_loop_frame [simp]:
  "sq (evict_pending_loop now s) = sq s" "coldFlushing (evict_pending_loop now s) = coldFlushing s"
  "coldSegments (evict_pending_loop now s) = coldSegments s" "coldBytes (evict_pending_loop now s) = coldBytes s"
  "coldRawBytes (evict_pending_loop now s) = coldRawBytes s"
  "outputChunks (evict_pending_loop now s) = outputChunks s"
  "outputBufferBytes (evict_pending_loop now s) = outputBufferBytes s"
  "out_buffer.more (evict_pending_loop now s) = out_buffer.more s"
  by (induction now s rule: evict_pending_loop.induct; subst evict_pending_loop.simps;
      simp split: list.split)+

lemma pending_loop_suffix:
  "coldPending (evict_pending_loop now s) = dropWhile (too_old now) (coldPending s)"
  by (induction now s rule: evict_pending_loop.induct; subst evict_pending_loop.simps)
    (auto simp: too_old_def [abs_def] split: list.split)

lemma pending_loop_counters [inv_intros]: "counters_ok s \<Longrightarrow> counters_ok (evict_pending_loop now s)"
  by (induction now s rule: evict_pending_loop.induct; subst evict_pending_loop.simps)
    (auto simp: counters_ok_def split: list.split)

lemma evictCold_frame [simp]:
  "sq (evictColdLocked now s) = sq s" "coldFlushing (evictColdLocked now s) = coldFlushing s"
  "outputChunks (evictColdLocked now s) = outputChunks s" "coldPending (evictColdLocked now s) = coldPending s"
  "outputBufferBytes (evictColdLocked now s) = outputBufferBytes s"
  "coldPendingBytes (evictColdLocked now s) = coldPendingBytes s"
  "out_buffer.more (evictColdLocked now s) = out_buffer.more s"
  by (induction now s rule: evictColdLocked.induct; subst evictColdLocked.simps;
      simp add: Let_def split: list.split)+

lemma evictCold_suffix: "suffix (coldSegments (evictColdLocked now s)) (coldSegments s)"
  by (induction now s rule: evictColdLocked.induct; subst evictColdLocked.simps)
    (auto simp: Let_def suffix_ConsI split: list.split)

lemma evictCold_counters [inv_intros]: "counters_ok s \<Longrightarrow> counters_ok (evictColdLocked now s)"
  by (induction now s rule: evictColdLocked.induct; subst evictColdLocked.simps)
    (auto simp: counters_ok_def Let_def split: list.split)

lemma evictCold_limit: "counters_ok s \<Longrightarrow> coldBytes (evictColdLocked now s) \<le> maxColdOutputBytes"
  by (induction now s rule: evictColdLocked.induct; subst evictColdLocked.simps)
    (auto simp: counters_ok_def Let_def maxColdOutputBytes_def split: list.split)

lemma evictCold_head:
  "coldSegments (evictColdLocked now s) = seg # rest \<Longrightarrow> now - newestTime seg \<le> maxOutputBufferAge"
proof (induction now s rule: evictColdLocked.induct)
  case (1 now s)
  show ?case
  proof (cases "coldSegments s")
    case Nil
    then have "evictColdLocked now s = s" by (subst evictColdLocked.simps) simp
    with Nil "1.prems" show ?thesis by simp
  next
    case (Cons c cs)
    have "evictColdLocked now s = (if \<not> maxOutputBufferAge < now - newestTime c \<and> \<not> maxColdOutputBytes < coldBytes s then s
        else evictColdLocked now (s\<lparr>coldSegments := cs, coldBytes := coldBytes s - int (length (seg_data c)),
          coldRawBytes := coldRawBytes s - int (rawBytes c)\<rparr>))"
      by (subst evictColdLocked.simps) (simp add: Cons Let_def)
    with "1.prems" "1.IH" [OF Cons refl refl] Cons show ?thesis by (auto split: if_splits)
  qed
qed

lemma evict_frame:
  "sq (fst (evictOutputChunksLocked now s)) = sq s"
  "coldFlushing (fst (evictOutputChunksLocked now s)) = coldFlushing s"
  by (simp_all add: evictOutputChunksLocked_def evictColdPendingLocked_def Let_def)

lemma evict_raw:
  "subseq (coldPending (fst (evictOutputChunksLocked now s)) @ outputChunks (fst (evictOutputChunksLocked now s)))
     (coldPending s @ outputChunks s)"
proof -
  let ?s1 = "evictHotLocked now s"
  have "fst (evictOutputChunksLocked now s) = evictColdLocked now (evictColdPendingLocked now ?s1)"
    by (simp add: evictOutputChunksLocked_def Let_def)
  moreover have "subseq (coldPending (evictColdPendingLocked now ?s1) @ outputChunks (evictColdPendingLocked now ?s1))
      (coldPending ?s1 @ outputChunks ?s1)"
    by (simp add: evictColdPendingLocked_def pending_loop_suffix)
  ultimately show ?thesis using evictHot_subseq [of now s] by (auto intro: subseq_order.trans)
qed

lemma evict_segments:
  "suffix (coldSegments (fst (evictOutputChunksLocked now s))) (coldSegments s)"
  using evictCold_suffix [of now "evictColdPendingLocked now (evictHotLocked now s)"]
  by (simp add: evictOutputChunksLocked_def evictColdPendingLocked_def Let_def split: if_splits)

lemma retained_subseq:
  assumes "suffix (coldSegments s') (coldSegments s)"
    "subseq (coldPending s' @ outputChunks s') (coldPending s @ outputChunks s)"
  shows "subseq (retained inflate s') (retained inflate s)"
proof -
  let ?f = "\<lambda>s. concat (map (seg_chunks inflate) (coldSegments s))"
  from assms(1) obtain pre where "coldSegments s = pre @ coldSegments s'" by (auto simp: suffix_def)
  then have "subseq (?f s') (?f s)" by (simp add: list_emb_append2)
  moreover have "subseq (raw_retained s') (raw_retained s)"
    unfolding raw_retained_def by (rule subseq_map [OF assms(2)])
  ultimately show ?thesis unfolding retained_def by (rule list_emb_append_mono)
qed

lemma evict_retained:
  "subseq (retained inflate (fst (evictOutputChunksLocked now s))) (retained inflate s)"
  by (rule retained_subseq [OF evict_segments evict_raw])

lemma evict_counters [inv_intros]: "counters_ok s \<Longrightarrow> counters_ok (fst (evictOutputChunksLocked now s))"
  by (simp add: evictOutputChunksLocked_def evictColdPendingLocked_def Let_def inv_intros)

lemma evict_inv [inv_intros]:
  "buf_inv inflate s \<Longrightarrow> buf_inv inflate (fst (evictOutputChunksLocked now s))"
proof -
  assume inv: "buf_inv inflate s"
  have "set (coldPending (fst (evictOutputChunksLocked now s)) @ outputChunks (fst (evictOutputChunksLocked now s)))
      \<subseteq> set (coldPending s @ outputChunks s)"
    using evict_raw by (rule subseq_subset)
  moreover have "set (coldSegments (fst (evictOutputChunksLocked now s))) \<subseteq> set (coldSegments s)"
    using evict_segments by (rule set_mono_suffix)
  ultimately show ?thesis
    using inv evict_counters [of s now] log_ok_subseq [OF _ evict_retained, of inflate s now]
    unfolding buf_inv_def by (metis evict_frame(1) order_refl)
qed

lemma evict_inflight [inv_intros]:
  assumes "inflight_ok s b"
  shows "inflight_ok (fst (evictOutputChunksLocked now s)) b"
proof (cases b)
  case None
  with assms show ?thesis by (simp add: inflight_ok_def evict_frame)
next
  case (Some bt)
  with assms have "coldFlushing s" "prefix bt (coldPending (evictHotLocked now s))"
    using evictHot_pending [of s now] by (auto simp: inflight_ok_def intro: prefix_order.trans)
  with assms Some show ?thesis
    by (simp add: inflight_ok_def evictOutputChunksLocked_def evictColdPendingLocked_def Let_def)
qed

subsection \<open>Append and flush\<close>

lemma ascending_snoc: "ascending (xs @ [c]) \<longleftrightarrow> ascending xs \<and> (\<forall>x\<in>set xs. Seq x < Seq c)"
  by (auto simp: ascending_def sorted_wrt_append)

lemma append_retained:
  "sq s + 1 < 2 ^ 64 \<Longrightarrow>
   retained inflate (append_output now data s) =
   retained inflate s @ [\<lparr>Seq = sq s + 1, Data = data, Timestamp = 0\<rparr>]"
  by (simp add: retained_def raw_retained_def append_output_def Let_def untimed_def)

lemma append_inv [inv_intros]:
  assumes "buf_inv inflate s" "sq s + 1 < 2 ^ 64" "length data \<le> coldChunkFrameLimit"
  shows "buf_inv inflate (append_output now data s)"
proof -
  have c: "counters_ok (append_output now data s)"
    using assms(1) by (simp add: buf_inv_def counters_ok_def append_output_def Let_def)
  have le: "\<forall>x\<in>set (retained inflate s). Seq x \<le> sq s" and asc: "ascending (retained inflate s)"
    using assms(1) by (auto simp: buf_inv_def log_ok_def)
  have r: "ascending (retained inflate (append_output now data s))"
    using le asc by (fastforce simp: append_retained [OF assms(2)] ascending_snoc)
  have "sq (append_output now data s) = sq s + 1"
    using assms(2) by (simp add: append_output_def Let_def)
  then have b: "\<forall>c\<in>set (retained inflate (append_output now data s)).
      1 \<le> Seq c \<and> Seq c \<le> sq (append_output now data s)"
    using assms(1) by (fastforce simp: append_retained [OF assms(2)] buf_inv_def log_ok_def)
  have k: "\<forall>c\<in>set (coldPending (append_output now data s) @ outputChunks (append_output now data s)). chunk_ok c"
    using assms by (auto simp: buf_inv_def log_ok_def append_output_def Let_def chunk_ok_def)
  have w: "\<forall>seg\<in>set (coldSegments (append_output now data s)). seg_wf inflate seg"
    using assms(1) by (simp add: buf_inv_def log_ok_def append_output_def Let_def)
  from c r b k w show ?thesis by (simp add: buf_inv_def log_ok_def)
qed

lemma append_inflight [inv_intros]: "inflight_ok s b \<Longrightarrow> inflight_ok (append_output now data s) b"
  by (simp add: inflight_ok_def append_output_def Let_def split: option.splits)

lemma flush_begin_inv [inv_intros]: "buf_inv inflate s \<Longrightarrow> buf_inv inflate (fst (flush_begin s))"
  by (simp add: flush_begin_def buf_inv_def counters_ok_def log_ok_def retained_def raw_retained_def)

lemma flush_begin_inflight [inv_intros]:
  "flush_begin s = (s', Some b) \<Longrightarrow> inflight_ok s' (Some b)"
  by (auto simp: flush_begin_def inflight_ok_def split: if_splits)

lemma compressed_chunks:
  assumes "flate_laws deflate inflate" "compressChunks deflate b = Inr seg" "\<forall>c\<in>set b. chunk_ok c"
  shows "seg_chunks inflate seg = map untimed b"
  using chunksFrom_compress [OF assms, of 0] by (simp add: seg_chunks_def)

lemma compressed_wf:
  assumes "flate_laws deflate inflate" "compressChunks deflate b = Inr seg" "\<forall>c\<in>set b. chunk_ok c"
    and asc: "ascending b"
  shows "seg_wf inflate seg"
proof -
  have b: "b \<noteq> []" "startSeq seg = Seq (hd b)" "endSeq seg = Seq (last b)"
    using assms(2) by (auto simp: compressChunks_def split: if_splits sum.splits)
  have "Seq (hd b) \<le> Seq c" if "c \<in> set b" for c
    using asc b(1) that by (cases b) (auto simp: ascending_def)
  moreover have "Seq c \<le> Seq (last b)" if "c \<in> set b" for c
    using asc b(1) that by (cases b rule: rev_cases) (auto simp: ascending_snoc)
  ultimately show ?thesis by (auto simp: seg_wf_def compressed_chunks [OF assms(1-3)] b)
qed

lemma ascending_map_untimed [simp]: "ascending (map untimed xs) = ascending xs"
  by (simp add: ascending_def comp_def)

lemma ascending_append:
  "ascending (xs @ ys) \<longleftrightarrow> ascending xs \<and> ascending ys \<and> (\<forall>x\<in>set xs. \<forall>y\<in>set ys. Seq x < Seq y)"
  by (simp add: ascending_def sorted_wrt_append)

text \<open>Compressing the batch in flight changes nothing that can be read back; if compression
  fails the batch is dropped.\<close>

lemma flush_finish_retained:
  assumes laws: "flate_laws deflate inflate" and inv: "buf_inv inflate s"
    and infl: "inflight_ok s (Some b)"
  shows "retained inflate (flush_finish deflate b s) =
    (case compressChunks deflate b of
       Inr seg \<Rightarrow> retained inflate s
     | Inl e \<Rightarrow> concat (map (seg_chunks inflate) (coldSegments s)) @
         map untimed (drop (length b) (coldPending s) @ outputChunks s))"
proof -
  from infl obtain rest where p: "coldPending s = b @ rest"
    by (auto simp: inflight_ok_def prefix_def)
  then have ok: "\<forall>c\<in>set b. chunk_ok c" using inv by (auto simp: buf_inv_def log_ok_def)
  show ?thesis
    using compressed_chunks [OF laws _ ok]
    by (auto simp: flush_finish_def Let_def retained_def raw_retained_def p split: sum.splits)
qed

lemma flush_finish_inv [inv_intros]:
  assumes laws: "flate_laws deflate inflate" and inv: "buf_inv inflate s"
    and infl: "inflight_ok s (Some b)"
  shows "buf_inv inflate (flush_finish deflate b s)"
proof -
  from infl obtain rest where p: "coldPending s = b @ rest"
    by (auto simp: inflight_ok_def prefix_def)
  have c: "counters_ok (flush_finish deflate b s)"
    using inv by (auto simp: flush_finish_def Let_def buf_inv_def counters_ok_def p split: sum.splits)
  have ok: "\<forall>c\<in>set b. chunk_ok c" using inv p by (auto simp: buf_inv_def log_ok_def)
  have asc: "ascending b"
    using inv p by (simp add: buf_inv_def log_ok_def retained_def raw_retained_def ascending_append)
  have "subseq (retained inflate (flush_finish deflate b s)) (retained inflate s)"
    unfolding flush_finish_retained [OF assms]
    using subseq_insert_mid [where ys = "map untimed b"]
    by (auto simp: retained_def raw_retained_def p split: sum.splits)
  then have sub: "ascending (retained inflate (flush_finish deflate b s))"
    "set (retained inflate (flush_finish deflate b s)) \<subseteq> set (retained inflate s)"
    using inv ascending_subseq subseq_subset unfolding buf_inv_def log_ok_def by blast+
  have sqe: "sq (flush_finish deflate b s) = sq s"
    by (simp add: flush_finish_def Let_def split: sum.splits)
  have raw: "\<forall>c\<in>set (coldPending (flush_finish deflate b s) @ outputChunks (flush_finish deflate b s)). chunk_ok c"
    using inv by (auto simp: flush_finish_def Let_def buf_inv_def log_ok_def p split: sum.splits)
  have wf: "\<forall>seg\<in>set (coldSegments (flush_finish deflate b s)). seg_wf inflate seg"
    using inv compressed_wf [OF laws _ ok asc]
    by (auto simp: flush_finish_def Let_def buf_inv_def log_ok_def split: sum.splits)
  from c sub sqe raw wf inv show ?thesis unfolding buf_inv_def log_ok_def by (simp add: subset_iff)
qed

lemma flush_finish_inflight [inv_intros]: "inflight_ok (flush_finish deflate b s) None"
  by (simp add: inflight_ok_def flush_finish_def Let_def split: sum.splits)

section \<open>Every interleaving\<close>

text \<open>The steps other goroutines can see: an append with its eviction, a periodic eviction, and
  the two critical sections of a flush. A batch is in flight between the latter two.\<close>

inductive buf_step ::
  "(bytes \<Rightarrow> err + bytes) \<Rightarrow> 'a out_buffer_scheme \<times> OutputChunk list option \<Rightarrow>
   'a out_buffer_scheme \<times> OutputChunk list option \<Rightarrow> bool"
  for deflate
where
  step_append: "data \<noteq> [] \<Longrightarrow> length data \<le> coldChunkFrameLimit \<Longrightarrow> sq s + 1 < 2 ^ 64 \<Longrightarrow>
     buf_step deflate (s, b) (fst (evictOutputChunksLocked now' (append_output now data s)), b)"
| step_stale: "buf_step deflate (s, b) (fst (evict_stale_locked now s), b)"
| step_begin: "flush_begin s = (s', Some batch) \<Longrightarrow> buf_step deflate (s, None) (s', Some batch)"
| step_finish: "buf_step deflate (s, Some batch) (flush_finish deflate batch s, None)"

inductive_cases buf_stepE: "buf_step deflate x y"

inductive buf_reach ::
  "(bytes \<Rightarrow> err + bytes) \<Rightarrow> 'a out_buffer_scheme \<times> OutputChunk list option \<Rightarrow>
   'a out_buffer_scheme \<times> OutputChunk list option \<Rightarrow> bool"
  for deflate x
where
  reach_refl: "buf_reach deflate x x"
| reach_step: "buf_reach deflate x y \<Longrightarrow> buf_step deflate y z \<Longrightarrow> buf_reach deflate x z"

definition empty_buffer :: "'a out_buffer_scheme \<Rightarrow> bool" where
  "empty_buffer s \<longleftrightarrow>
     sq s = 0 \<and> outputChunks s = [] \<and> outputBufferBytes s = 0 \<and> coldPending s = [] \<and>
     coldPendingBytes s = 0 \<and> \<not> coldFlushing s \<and> coldSegments s = [] \<and> coldBytes s = 0 \<and>
     coldRawBytes s = 0"

lemma empty_buffer_inv: "empty_buffer s \<Longrightarrow> buf_inv inflate s \<and> inflight_ok s None"
  by (simp add: empty_buffer_def buf_inv_def counters_ok_def log_ok_def retained_def
      raw_retained_def ascending_def inflight_ok_def)

lemma fst_evict_stale: "fst (evict_stale_locked now s) = fst (evictOutputChunksLocked now s)"
  by (simp add: evict_stale_locked_def case_prod_beta)

lemma buf_step_inv:
  assumes "buf_step deflate x y" "flate_laws deflate inflate"
    "buf_inv inflate (fst x) \<and> inflight_ok (fst x) (snd x)"
  shows "buf_inv inflate (fst y) \<and> inflight_ok (fst y) (snd y)"
  using assms
proof cases
  case (step_begin s s' batch)
  then show ?thesis using assms(3) flush_begin_inv [of inflate s] by (simp add: flush_begin_inflight)
qed (simp_all add: inv_intros fst_evict_stale)

text \<open>C11. Whatever the interleaving of output, periodic eviction and background compression, the
  byte counters equal the bytes held, the log that can be read back is strictly ascending in
  sequence numbers none of which exceeds the last one issued, each segment's bounds enclose what
  it decodes to, and the batch in flight is still at the head of the pending queue.\<close>

theorem buffer_invariant:
  assumes "flate_laws deflate inflate" "buf_reach deflate (s0, None) (s, b)" "empty_buffer s0"
  shows "buf_inv inflate s \<and> inflight_ok s b"
proof -
  have "buf_reach deflate x y \<Longrightarrow> buf_inv inflate (fst x) \<and> inflight_ok (fst x) (snd x) \<Longrightarrow>
      buf_inv inflate (fst y) \<and> inflight_ok (fst y) (snd y)" for x y
    by (induction rule: buf_reach.induct) (use assms(1) buf_step_inv in blast)+
  from this [OF assms(2)] empty_buffer_inv [OF assms(3)] show ?thesis by simp
qed

definition buffer0 :: out_buffer where
  "buffer0 = \<lparr>sq = 0, outputChunks = [], outputBufferBytes = 0, coldPending = [],
     coldPendingBytes = 0, coldFlushing = False, coldSegments = [], coldBytes = 0, coldRawBytes = 0\<rparr>"

lemma buffer_invariant_witness:
  "buf_inv (\<lambda>z. (z, EOF)) (fst (evictOutputChunksLocked 7 (append_output 5 [104, 105] buffer0)))"
proof -
  have "buf_step Inr (buffer0, None) (fst (evictOutputChunksLocked 7 (append_output 5 [104, 105] buffer0)), None)"
    by (rule step_append) (simp_all add: coldChunkFrameLimit_def buffer0_def)
  then have r: "buf_reach Inr (buffer0, None) (fst (evictOutputChunksLocked 7 (append_output 5 [104, 105] buffer0)), None)"
    by (rule reach_step [OF reach_refl])
  have "flate_laws Inr (\<lambda>z. (z, EOF))" by (simp add: flate_laws_def)
  moreover have "empty_buffer buffer0" by (simp add: empty_buffer_def buffer0_def)
  ultimately show ?thesis using buffer_invariant [OF _ r] by blast
qed

text \<open>C16. After every eviction the recent tier holds at most 8192 chunks and 4 MiB and the compressed tier
  at most 32 MiB, and what is oldest in each tier is within 72 hours: the first recent chunk, the newest
  chunk of the first segment, and the first chunk that waits for compression unless a batch is being
  compressed just then.\<close>

theorem eviction_limits:
  assumes "counters_ok s" and eq: "s' = fst (evictOutputChunksLocked now s)"
  shows "length (outputChunks s') \<le> 8192 \<and> raw_size (outputChunks s') \<le> 4194304 \<and>
         sum_list (map (\<lambda>seg. length (seg_data seg)) (coldSegments s')) \<le> 33554432 \<and>
         (outputChunks s' \<noteq> [] \<longrightarrow> now - Timestamp (hd (outputChunks s')) \<le> 72 * 3600 * 1000000000) \<and>
         (coldSegments s' \<noteq> [] \<longrightarrow> now - newestTime (hd (coldSegments s')) \<le> 72 * 3600 * 1000000000) \<and>
         (\<not> coldFlushing s \<and> coldPending s' \<noteq> [] \<longrightarrow> now - Timestamp (hd (coldPending s')) \<le> 72 * 3600 * 1000000000)"
proof -
  let ?h = "evictHotLocked now s" and ?p = "evictColdPendingLocked now (evictHotLocked now s)"
  have s': "s' = evictColdLocked now ?p" by (simp add: eq evictOutputChunksLocked_def Let_def)
  have ch: "counters_ok ?h" and cs: "counters_ok s'"
    using assms(1) by (simp_all add: eq inv_intros)
  have cp: "counters_ok ?p" using ch by (simp add: evictColdPendingLocked_def inv_intros)
  have out: "outputChunks s' = outputChunks ?h" "outputBufferBytes s' = outputBufferBytes ?h"
    by (simp_all add: s' evictColdPendingLocked_def)
  have age: "maxOutputBufferAge = 72 * 3600 * 1000000000" by (simp add: maxOutputBufferAge_def second_def)
  have "\<not> over_limit ?h" by (rule evictHot_limits [OF assms(1)])
  then have "length (outputChunks s') \<le> 8192 \<and> raw_size (outputChunks s') \<le> 4194304"
    using ch by (simp add: over_limit_def out maxHotOutputChunks_def maxHotOutputBytes_def counters_ok_def)
  moreover have "coldBytes s' \<le> maxColdOutputBytes" unfolding s' by (rule evictCold_limit [OF cp])
  then have "sum_list (map (\<lambda>seg. length (seg_data seg)) (coldSegments s')) \<le> 33554432"
    using cs by (simp add: counters_ok_def maxColdOutputBytes_def)
  moreover have "outputChunks s' \<noteq> [] \<longrightarrow> now - Timestamp (hd (outputChunks s')) \<le> maxOutputBufferAge"
    using evictHot_head [of now s] by (cases "outputChunks ?h") (auto simp: out too_old_def)
  moreover have "coldSegments s' \<noteq> [] \<longrightarrow> now - newestTime (hd (coldSegments s')) \<le> maxOutputBufferAge"
    unfolding s' using evictCold_head by (metis list.exhaust_sel)
  moreover have "coldPending s' = dropWhile (too_old now) (coldPending ?h)" if "\<not> coldFlushing s"
    using that by (simp add: s' evictColdPendingLocked_def pending_loop_suffix)
  then have "\<not> coldFlushing s \<and> coldPending s' \<noteq> [] \<longrightarrow> \<not> too_old now (hd (coldPending s'))"
    using hd_dropWhile by metis
  ultimately show ?thesis by (simp add: age too_old_def not_less)
qed

lemma eviction_limits_witness:
  "length (outputChunks (fst (evictOutputChunksLocked 7 (append_output 5 [104, 105] buffer0)))) \<le> 8192"
  using eviction_limits [OF _ refl, of "append_output 5 [104, 105] buffer0" 7]
  by (simp add: counters_ok_def append_output_def buffer0_def Let_def)

lemma evict_lossless:
  assumes "\<forall>c\<in>set (coldPending s @ outputChunks s). \<not> too_old now c"
    "\<forall>seg\<in>set (coldSegments s). now - newestTime seg \<le> maxOutputBufferAge" "coldBytes s \<le> maxColdOutputBytes"
  shows "retained inflate (fst (evictOutputChunksLocked now s)) = retained inflate s"
proof -
  let ?h = "evictHotLocked now s"
  have raw: "coldPending ?h @ outputChunks ?h = coldPending s @ outputChunks s"
    using assms(1) by (intro evictHot_lossless) simp
  have "set (coldPending ?h) \<subseteq> set (coldPending s @ outputChunks s)"
    by (simp add: raw [symmetric])
  then have "dropWhile (too_old now) (coldPending ?h) = coldPending ?h"
    using assms(1) by (intro dropWhile_eq_self_iff [THEN iffD2]) (meson hd_in_set subsetD)
  then have p: "coldPending (evictColdPendingLocked now ?h) = coldPending ?h"
    "outputChunks (evictColdPendingLocked now ?h) = outputChunks ?h"
    "coldSegments (evictColdPendingLocked now ?h) = coldSegments s"
    "coldBytes (evictColdPendingLocked now ?h) = coldBytes s"
    by (simp_all add: evictColdPendingLocked_def pending_loop_suffix)
  have "evictColdLocked now t = t"
    if "\<forall>seg\<in>set (coldSegments t). now - newestTime seg \<le> maxOutputBufferAge" "coldBytes t \<le> maxColdOutputBytes"
    for t :: "'a out_buffer_scheme"
    by (subst evictColdLocked.simps) (use that in \<open>auto simp: Let_def split: list.split\<close>)
  then show ?thesis
    using assms(2,3) raw p
    by (simp add: evictOutputChunksLocked_def Let_def retained_def raw_retained_def flip: map_append)
qed

text \<open>C21. While nothing is past its 72 hours and the compressed tier is within its limit, an append
  extends the log that can be read back by exactly the new chunk, whatever moves between the
  tiers, and a flush whose compression succeeds does not change it.\<close>

theorem retention_refines_log:
  assumes "\<forall>c\<in>set (coldPending s @ outputChunks s). \<not> too_old now c" "now - t \<le> maxOutputBufferAge"
    "\<forall>seg\<in>set (coldSegments s). now - newestTime seg \<le> maxOutputBufferAge"
    "coldBytes s \<le> maxColdOutputBytes" "sq s + 1 < 2 ^ 64"
    "flate_laws deflate inflate" "buf_inv inflate s'" "flush_begin s' = (s1, Some b)"
    "compressChunks deflate b = Inr seg"
  shows "retained inflate (fst (evictOutputChunksLocked now (append_output t data s))) =
           retained inflate s @ [\<lparr>Seq = sq s + 1, Data = data, Timestamp = 0\<rparr>] \<and>
         retained inflate (flushColdPending deflate s') = retained inflate s'"
proof
  have "\<forall>c\<in>set (coldPending (append_output t data s) @ outputChunks (append_output t data s)). \<not> too_old now c"
    using assms(1,2) by (auto simp: append_output_def Let_def too_old_def)
  then show "retained inflate (fst (evictOutputChunksLocked now (append_output t data s))) =
      retained inflate s @ [\<lparr>Seq = sq s + 1, Data = data, Timestamp = 0\<rparr>]"
    using assms(3,4) append_retained [OF assms(5), of inflate t data]
    by (subst evict_lossless) (auto simp: append_output_def Let_def)
  have r: "retained inflate s1 = retained inflate s'" and i: "buf_inv inflate s1"
    using assms(8) flush_begin_inv [OF assms(7)]
    by (auto simp: flush_begin_def retained_def raw_retained_def split: if_splits)
  from flush_finish_retained [OF assms(6) i flush_begin_inflight [OF assms(8)]]
  show "retained inflate (flushColdPending deflate s') = retained inflate s'"
    by (simp add: flushColdPending_def assms(8,9) r)
qed

definition pending_buffer :: out_buffer where
  "pending_buffer = buffer0\<lparr>sq := 1, coldPending := [\<lparr>Seq = 1, Data = [1], Timestamp = 0\<rparr>], coldPendingBytes := 1\<rparr>"

lemma retention_refines_log_witness:
  "retained (\<lambda>z. (z, EOF)) (flushColdPending Inr pending_buffer) = [\<lparr>Seq = 1, Data = [1], Timestamp = 0\<rparr>]"
proof -
  let ?b = "[\<lparr>Seq = 1, Data = [1], Timestamp = 0\<rparr>]"
  obtain seg where seg: "compressChunks Inr ?b = Inr seg" by (simp add: compressChunks_def)
  have fb: "flush_begin pending_buffer = (pending_buffer\<lparr>coldFlushing := True\<rparr>, Some ?b)"
    by (simp add: flush_begin_def pending_buffer_def buffer0_def)
  have l: "flate_laws Inr (\<lambda>z. (z, EOF))" by (simp add: flate_laws_def)
  have i: "buf_inv (\<lambda>z. (z, EOF)) pending_buffer"
    by (simp add: buf_inv_def counters_ok_def log_ok_def pending_buffer_def buffer0_def retained_def
        raw_retained_def ascending_def chunk_ok_def coldChunkFrameLimit_def)
  have "retained (\<lambda>z. (z, EOF)) (flushColdPending Inr pending_buffer) = retained (\<lambda>z. (z, EOF)) pending_buffer"
    by (rule retention_refines_log [OF _ _ _ _ _ l i fb seg, of buffer0 0 0, THEN conjunct2])
      (simp_all add: buffer0_def maxOutputBufferAge_def second_def maxColdOutputBytes_def)
  then show ?thesis by (simp add: retained_def raw_retained_def pending_buffer_def buffer0_def untimed_def)
qed

end
