(* ===== verification/Frames.thy ===== *)
theory Frames
  imports Prelude
begin

text \<open>
  The wire formats: the length-prefixed frames of the Unix socket (internal/netx/framing.go),
  and the control frames, output frames and input datagrams of the QUIC transport
  (internal/qtransport/frame.go). msgpack, a third-party package, is a pair of parameters
  (marshal, unmarshal). Every framed stream is an interpretation of the locale frame_codec.
\<close>

section \<open>Unix-socket frames\<close>

text \<open>The limit of a frame read from a socket.\<close>

(* internal/netx/framing.go:18-19 maxFrameSize *)
definition maxFrameSize :: nat where
  "maxFrameSize = 16 * 1024 * 1024"

(* internal/netx/framing.go:9-31 ReadFrame *)
definition ReadFrame :: "bytes \<Rightarrow> err + bytes \<times> bytes" where
  "ReadFrame r =
     (case read_full 4 r of
        Inl e \<Rightarrow> Inl e
      | Inr (lenBuf, r1) \<Rightarrow>
          let len = be_val lenBuf in
          if len > maxFrameSize
          then Inl (ErrorString (''frame too large: '' @ show_nat len @ '' bytes''))
          else if len > 0 then read_full len r1
          else Inr ([], r1))"

text \<open>A writer is a state and a Write operation giving the new state, the number of bytes
  accepted and an error. writeAll loops until everything is accepted; it may not return when a
  writer accepts nothing and reports no error, so it is partial.\<close>

(* internal/netx/framing.go:53-64 writeAll *)
partial_function (option) writeAll ::
  "('w \<Rightarrow> bytes \<Rightarrow> 'w \<times> nat \<times> err option) \<Rightarrow> bytes \<Rightarrow> nat \<Rightarrow> 'w \<Rightarrow> ('w \<times> err option) option"
where
  "writeAll wr data off w =
     (if off < length data
      then (case wr w (drop off data) of (w', n, e) \<Rightarrow>
              (case e of Some x \<Rightarrow> Some (w', Some x)
               | None \<Rightarrow> writeAll wr data (off + n) w'))
      else Some (w, None))"

(* internal/netx/framing.go:33-51 WriteFrame *)
definition WriteFrame ::
  "('w \<Rightarrow> bytes \<Rightarrow> 'w \<times> nat \<times> err option) \<Rightarrow> bytes \<Rightarrow> 'w \<Rightarrow> ('w \<times> err option) option"
where
  "WriteFrame wr payload w =
     (let len = length payload mod 2 ^ 32 in
      case writeAll wr (be_bytes 4 len) 0 w of
        None \<Rightarrow> None
      | Some (w1, Some e) \<Rightarrow> Some (w1, Some e)
      | Some (w1, None) \<Rightarrow>
          if len > 0 then writeAll wr payload 0 w1 else Some (w1, None))"

text \<open>The bytes of one frame, as a complete write leaves them on the stream.\<close>

definition frame_bytes :: "bytes \<Rightarrow> bytes" where
  "frame_bytes payload = be_bytes 4 (length payload) @ payload"

definition writer_laws :: "('w \<Rightarrow> bytes \<Rightarrow> 'w \<times> nat \<times> err option) \<Rightarrow> ('w \<Rightarrow> bytes) \<Rightarrow> bool" where
  "writer_laws wr out \<longleftrightarrow>
     (\<forall>w d. case wr w d of (w', n, e) \<Rightarrow>
        n \<le> length d \<and> out w' = out w @ take n d \<and> (e = None \<and> d \<noteq> [] \<longrightarrow> 0 < n))"

lemma writer_lawsD:
  "writer_laws wr out \<Longrightarrow> wr w d = (w', n, e) \<Longrightarrow>
   n \<le> length d \<and> out w' = out w @ take n d \<and> (e = None \<and> d \<noteq> [] \<longrightarrow> 0 < n)"
  unfolding writer_laws_def by (metis (mono_tags, lifting) case_prod_conv)

lemma writeAll_returns:
  assumes laws: "writer_laws wr out"
  shows "\<exists>w' e. writeAll wr data off w = Some (w', e) \<and>
           (\<exists>sent. out w' = out w @ sent \<and> prefix sent (drop off data) \<and>
                   (e = None \<longrightarrow> sent = drop off data))"
proof (induction "length data - off" arbitrary: off w rule: less_induct)
  case less
  show ?case
  proof (cases "off < length data")
    case False
    then show ?thesis by (subst writeAll.simps) simp
  next
    case True
    obtain w1 n e where wr: "wr w (drop off data) = (w1, n, e)" by (metis prod_cases3)
    note law = writer_lawsD [OF laws wr]
    show ?thesis
    proof (cases e)
      case (Some x)
      with True wr law show ?thesis
        by (subst writeAll.simps) (auto intro: take_is_prefix)
    next
      case None
      with law True have n: "0 < n" by simp
      with True have "length data - (off + n) < length data - off" by simp
      from less [OF this, of w1] obtain w' e' sent where ih:
        "writeAll wr data (off + n) w1 = Some (w', e')" "out w' = out w1 @ sent"
        "prefix sent (drop (off + n) data)" "e' = None \<longrightarrow> sent = drop (off + n) data"
        by blast
      have split: "drop off data = take n (drop off data) @ drop (off + n) data"
        by (metis append_take_drop_id drop_drop add.commute)
      have "writeAll wr data off w = Some (w', e')"
        using True wr None ih(1) by (subst writeAll.simps) simp
      moreover have "out w' = out w @ (take n (drop off data) @ sent)"
        using law ih(2) by simp
      moreover have "prefix (take n (drop off data) @ sent) (drop off data)"
        by (subst (2) split) (simp add: ih(3))
      moreover have "e' = None \<longrightarrow> take n (drop off data) @ sent = drop off data"
        using ih(4) split by auto
      ultimately show ?thesis by blast
    qed
  qed
qed

lemma WriteFrame_returns:
  assumes laws: "writer_laws wr out" and len: "length payload < 2 ^ 32"
  shows "\<exists>w' e. WriteFrame wr payload w = Some (w', e) \<and>
           (\<exists>sent. out w' = out w @ sent \<and> prefix sent (frame_bytes payload) \<and>
                   (e = None \<longrightarrow> sent = frame_bytes payload))"
proof -
  have m: "length payload mod 4294967296 = length payload" using len by simp
  obtain w1 e1 s1 where a: "writeAll wr (be_bytes 4 (length payload)) 0 w = Some (w1, e1)"
    "out w1 = out w @ s1" "prefix s1 (be_bytes 4 (length payload))"
    "e1 = None \<longrightarrow> s1 = be_bytes 4 (length payload)"
    using writeAll_returns [OF laws, of "be_bytes 4 (length payload)" 0 w] by auto
  obtain w2 e2 s2 where b: "writeAll wr payload 0 w1 = Some (w2, e2)"
    "out w2 = out w1 @ s2" "prefix s2 payload" "e2 = None \<longrightarrow> s2 = payload"
    using writeAll_returns [OF laws, of payload 0 w1] by auto
  show ?thesis
  proof (cases e1)
    case (Some x)
    then show ?thesis using a by (auto simp: WriteFrame_def m frame_bytes_def intro: prefix_prefix)
  next
    case None
    with a have s1: "s1 = be_bytes 4 (length payload)" by simp
    show ?thesis
    proof (cases "payload = []")
      case True
      then show ?thesis using a None s1 by (auto simp: WriteFrame_def m frame_bytes_def)
    next
      case False
      then have "WriteFrame wr payload w = Some (w2, e2)"
        using a b None by (simp add: WriteFrame_def m)
      moreover have "out w2 = out w @ (s1 @ s2)" using a b by simp
      moreover have "prefix (s1 @ s2) (frame_bytes payload)" using s1 b by (simp add: frame_bytes_def)
      moreover have "e2 = None \<longrightarrow> s1 @ s2 = frame_bytes payload" using s1 b by (simp add: frame_bytes_def)
      ultimately show ?thesis by blast
    qed
  qed
qed

lemma ReadFrame_frame:
  "length p \<le> maxFrameSize \<Longrightarrow> ReadFrame (frame_bytes p @ s) = Inr (p, s)"
  by (auto simp: ReadFrame_def frame_bytes_def codec_simps maxFrameSize_def Let_def)

lemma ReadFrame_cut:
  assumes "length p \<le> maxFrameSize" "k < length (frame_bytes p)"
  shows "\<exists>e. ReadFrame (take k (frame_bytes p)) = Inl e"
proof (cases "k < 4")
  case True
  then have "length (take k (frame_bytes p)) < 4" by simp
  then show ?thesis by (simp add: ReadFrame_def read_full_short)
next
  case False
  then have "take k (frame_bytes p) = be_bytes 4 (length p) @ take (k - 4) p"
    by (simp add: frame_bytes_def)
  moreover have "length (take (k - 4) p) < length p" using assms False by (simp add: frame_bytes_def)
  ultimately show ?thesis
    using assms by (auto simp: ReadFrame_def codec_simps maxFrameSize_def Let_def read_full_short)
qed

interpretation netx: frame_codec frame_bytes ReadFrame "\<lambda>p. length p \<le> maxFrameSize"
proof
  show "frame_bytes x \<noteq> []" for x by (simp add: frame_bytes_def flip: length_greater_0_conv)
qed (use ReadFrame_frame ReadFrame_cut in \<open>auto simp: ReadFrame_def\<close>)

section \<open>QUIC output frames and input datagrams\<close>

(* internal/qtransport/frame.go:67-67 maxCtrlFrame *)
definition maxCtrlFrame :: nat where
  "maxCtrlFrame = 2 ^ 20"

(* internal/qtransport/frame.go:68-68 maxOutputFrame *)
definition maxOutputFrame :: nat where
  "maxOutputFrame = 16 * 2 ^ 20"

(* internal/qtransport/frame.go:70-74 maxDupInputSize *)
definition maxDupInputSize :: nat where
  "maxDupInputSize = 512"

text \<open>The bytes of the single Write of an output frame: [offset:8][len:4][data].\<close>

(* internal/qtransport/frame.go:100-112 writeOutputFrame *)
definition writeOutputFrame :: "nat \<Rightarrow> bytes \<Rightarrow> bytes" where
  "writeOutputFrame offset data = be_bytes 8 offset @ be_bytes 4 (length data) @ data"

(* internal/qtransport/frame.go:114-129 readOutputFrame *)
definition readOutputFrame :: "bytes \<Rightarrow> err + (nat \<times> bytes) \<times> bytes" where
  "readOutputFrame r =
     (case read_full 12 r of
        Inl e \<Rightarrow> Inl e
      | Inr (hdr, r1) \<Rightarrow>
          let offset = be_val (take 8 hdr); n = be_val (drop 8 hdr) in
          if n > maxOutputFrame then Inl (ErrorString ''qtransport: output frame too large'')
          else (case read_full n r1 of
                  Inl e \<Rightarrow> Inl e
                | Inr (data, r2) \<Rightarrow> Inr ((offset, data), r2)))"

(* internal/qtransport/frame.go:131-139 encodeInputDatagram *)
definition encodeInputDatagram :: "nat \<Rightarrow> bytes \<Rightarrow> bytes" where
  "encodeInputDatagram offset data = be_bytes 8 offset @ data"

text \<open>The result (offset, data, ok) of the source: None is ok = false.\<close>

(* internal/qtransport/frame.go:141-146 decodeInputDatagram *)
definition decodeInputDatagram :: "bytes \<Rightarrow> (nat \<times> bytes) option" where
  "decodeInputDatagram b =
     (if length b < 8 then None else Some (be_val (take 8 b), drop 8 b))"

lemma decode_encode_datagram [codec_simps]:
  "off < 2 ^ 64 \<Longrightarrow> decodeInputDatagram (encodeInputDatagram off d) = Some (off, d)"
  by (simp add: decodeInputDatagram_def encodeInputDatagram_def be_val_be_bytes)

lemma decode_datagram_Some:
  "decodeInputDatagram b = Some (off, d) \<longleftrightarrow> off < 2 ^ 64 \<and> b = encodeInputDatagram off d"
proof
  assume "decodeInputDatagram b = Some (off, d)"
  then have l: "8 \<le> length b" and o: "off = be_val (take 8 b)" and d: "d = drop 8 b"
    by (auto simp: decodeInputDatagram_def split: if_splits)
  have "be_bytes 8 off = take 8 b"
    using be_bytes_be_val [of "take 8 b"] l o by simp
  moreover have "off < 2 ^ 64" using be_val_less [of "take 8 b"] l o by simp
  ultimately show "off < 2 ^ 64 \<and> b = encodeInputDatagram off d"
    by (simp add: encodeInputDatagram_def d)
qed (simp add: codec_simps)

definition output_ok :: "nat \<times> bytes \<Rightarrow> bool" where
  "output_ok = (\<lambda>(off, d). off < 2 ^ 64 \<and> length d \<le> maxOutputFrame)"

lemma readOutputFrame_write [codec_simps]:
  "output_ok (off, d) \<Longrightarrow> readOutputFrame (writeOutputFrame off d @ s) = Inr ((off, d), s)"
proof -
  assume ok: "output_ok (off, d)"
  have "read_full 12 ((be_bytes 8 off @ be_bytes 4 (length d)) @ d @ s) =
        Inr (be_bytes 8 off @ be_bytes 4 (length d), d @ s)"
    by (rule read_full_append) simp
  with ok show ?thesis
    by (simp add: readOutputFrame_def writeOutputFrame_def output_ok_def maxOutputFrame_def
        be_val_be_bytes read_full_append Let_def)
qed

lemma readOutputFrame_cut:
  assumes "output_ok (off, d)" "k < length (writeOutputFrame off d)"
  shows "\<exists>e. readOutputFrame (take k (writeOutputFrame off d)) = Inl e"
proof (cases "k < 12")
  case True
  then have "length (take k (writeOutputFrame off d)) < 12" by simp
  then show ?thesis by (simp add: readOutputFrame_def read_full_short)
next
  case False
  let ?h = "be_bytes 8 off @ be_bytes 4 (length d)"
  from False have "take k (writeOutputFrame off d) = ?h @ take (k - 12) d"
    by (simp add: writeOutputFrame_def)
  moreover have "read_full 12 (?h @ take (k - 12) d) = Inr (?h, take (k - 12) d)"
    by (rule read_full_append) simp
  moreover have "length (take (k - 12) d) < length d"
    using assms False by (simp add: writeOutputFrame_def)
  ultimately show ?thesis using assms
    by (auto simp: readOutputFrame_def output_ok_def maxOutputFrame_def be_val_be_bytes Let_def
        read_full_short)
qed

interpretation outf: frame_codec "\<lambda>(off, d). writeOutputFrame off d" readOutputFrame output_ok
proof
  show "(case x of (off, d) \<Rightarrow> writeOutputFrame off d) \<noteq> []" for x
    by (auto simp: writeOutputFrame_def split: prod.split simp flip: length_greater_0_conv)
qed (use readOutputFrame_write readOutputFrame_cut in \<open>auto simp: readOutputFrame_def\<close>)

section \<open>Control frames\<close>

(* internal/qtransport/frame.go:15-46 ctrlType *)
datatype ctrlType =
    ctrlHello | ctrlResize | ctrlServerMeta | ctrlSessionGone | ctrlStatus | ctrlLog
  | ctrlFwdOpen | ctrlFwdOpenOK | ctrlFwdOpenErr
  | ctrlAgentOpen | ctrlAgentOpenOK | ctrlAgentOpenErr
  | ctrlPing | ctrlPong
  | ctrlRFwdOpen | ctrlRFwdOpenOK | ctrlRFwdOpenErr
  | ctrlOther byte

text \<open>The number a type has on the wire; a number no constant names is kept as it is.\<close>

fun ctrlType_code :: "ctrlType \<Rightarrow> byte" where
  "ctrlType_code ctrlHello = 1"
| "ctrlType_code ctrlResize = 2"
| "ctrlType_code ctrlServerMeta = 3"
| "ctrlType_code ctrlSessionGone = 4"
| "ctrlType_code ctrlStatus = 5"
| "ctrlType_code ctrlLog = 6"
| "ctrlType_code ctrlFwdOpen = 7"
| "ctrlType_code ctrlFwdOpenOK = 8"
| "ctrlType_code ctrlFwdOpenErr = 9"
| "ctrlType_code ctrlAgentOpen = 10"
| "ctrlType_code ctrlAgentOpenOK = 11"
| "ctrlType_code ctrlAgentOpenErr = 12"
| "ctrlType_code ctrlPing = 13"
| "ctrlType_code ctrlPong = 14"
| "ctrlType_code ctrlRFwdOpen = 15"
| "ctrlType_code ctrlRFwdOpenOK = 16"
| "ctrlType_code ctrlRFwdOpenErr = 17"
| "ctrlType_code (ctrlOther b) = b"

type_synonym client_id = "16 word"
type_synonym port = "16 word"

(* internal/qtransport/frame.go:48-50 FeatureTCPForward *)
definition FeatureTCPForward :: "64 word" where
  "FeatureTCPForward = push_bit 0 1"

(* internal/qtransport/frame.go:52-55 FeatureAgentForward *)
definition FeatureAgentForward :: "64 word" where
  "FeatureAgentForward = push_bit 1 1"

(* internal/qtransport/frame.go:57-60 FeatureLiveness *)
definition FeatureLiveness :: "64 word" where
  "FeatureLiveness = push_bit 2 1"

(* internal/qtransport/frame.go:62-65 FeatureRemoteForward *)
definition FeatureRemoteForward :: "64 word" where
  "FeatureRemoteForward = push_bit 3 1"

(* internal/qtransport/frame.go:76-98 ctrlMsg *)
record ctrlMsg =
  cm_Type :: ctrlType
  cm_ClientID :: client_id
  cm_SessionID :: string
  cm_Cols :: int
  cm_Rows :: int
  cm_LastOffset :: nat
  cm_AgentForward :: bool
  cm_DeviceID :: string
  cm_RemoteForwards :: "port list"
  cm_Port :: port
  cm_BuildID :: string
  cm_BuildTime :: string
  cm_InstanceID :: bytes
  cm_Features :: "64 word"
  cm_Msg :: string
  cm_ExitCode :: "int option"

text \<open>The composite literal &ctrlMsg{Type: t}: every other field has its zero value.\<close>

definition ctrl_msg :: "ctrlType \<Rightarrow> ctrlMsg" where
  "ctrl_msg t = \<lparr>cm_Type = t, cm_ClientID = 0, cm_SessionID = [], cm_Cols = 0, cm_Rows = 0,
     cm_LastOffset = 0, cm_AgentForward = False, cm_DeviceID = [], cm_RemoteForwards = [],
     cm_Port = 0, cm_BuildID = [], cm_BuildTime = [], cm_InstanceID = [], cm_Features = 0,
     cm_Msg = [], cm_ExitCode = None\<rparr>"

(* internal/qtransport/frame.go:148-159 writeFrame *)
definition writeFrame :: "(ctrlMsg \<Rightarrow> err + bytes) \<Rightarrow> ctrlMsg \<Rightarrow> err + bytes" where
  "writeFrame marshal m =
     (case marshal m of
        Inl e \<Rightarrow> Inl e
      | Inr b \<Rightarrow> Inr (be_bytes 4 (length b) @ b))"

(* internal/qtransport/frame.go:161-179 readFrame *)
definition readFrame :: "(bytes \<Rightarrow> err + ctrlMsg) \<Rightarrow> bytes \<Rightarrow> err + ctrlMsg \<times> bytes" where
  "readFrame unmarshal r =
     (case read_full 4 r of
        Inl e \<Rightarrow> Inl e
      | Inr (hdr, r1) \<Rightarrow>
          let n = be_val hdr in
          if n > maxCtrlFrame then Inl (ErrorString ''qtransport: control frame too large'')
          else (case read_full n r1 of
                  Inl e \<Rightarrow> Inl e
                | Inr (b, r2) \<Rightarrow>
                    (case unmarshal b of Inl e \<Rightarrow> Inl e | Inr m \<Rightarrow> Inr (m, r2))))"

text \<open>What the code relies on of msgpack: a message that marshals unmarshals to itself. The
  frame limit is on the marshalled size.\<close>

definition msgpack_laws :: "('m \<Rightarrow> err + bytes) \<Rightarrow> (bytes \<Rightarrow> err + 'm) \<Rightarrow> bool" where
  "msgpack_laws marshal unmarshal \<longleftrightarrow> (\<forall>m b. marshal m = Inr b \<longrightarrow> unmarshal b = Inr m)"

definition ctrl_fits :: "(ctrlMsg \<Rightarrow> err + bytes) \<Rightarrow> ctrlMsg \<Rightarrow> bool" where
  "ctrl_fits marshal m = (case marshal m of Inl e \<Rightarrow> False | Inr b \<Rightarrow> length b \<le> maxCtrlFrame)"

definition ctrl_bytes :: "(ctrlMsg \<Rightarrow> err + bytes) \<Rightarrow> ctrlMsg \<Rightarrow> bytes" where
  "ctrl_bytes marshal m = (case writeFrame marshal m of Inl e \<Rightarrow> be_bytes 4 0 | Inr b \<Rightarrow> b)"

lemma ctrl_codec:
  assumes "msgpack_laws marshal unmarshal"
  shows "frame_codec (ctrl_bytes marshal) (readFrame unmarshal) (ctrl_fits marshal)"
proof
  fix m s
  show "ctrl_bytes marshal m \<noteq> []"
    by (auto simp: ctrl_bytes_def writeFrame_def split: sum.splits simp flip: length_greater_0_conv)
  show "readFrame unmarshal [] = Inl EOF" by (simp add: readFrame_def)
  assume "ctrl_fits marshal m"
  then obtain b where b: "marshal m = Inr b" "length b \<le> maxCtrlFrame"
    by (auto simp: ctrl_fits_def split: sum.splits)
  with assms have u: "unmarshal b = Inr m" by (simp add: msgpack_laws_def)
  have bytes: "ctrl_bytes marshal m = be_bytes 4 (length b) @ b"
    by (simp add: ctrl_bytes_def writeFrame_def b)
  have val: "be_val (be_bytes 4 (length b)) = length b"
    using b by (simp add: be_val_be_bytes maxCtrlFrame_def)
  show "readFrame unmarshal (ctrl_bytes marshal m @ s) = Inr (m, s)"
    using b by (simp add: bytes readFrame_def read_full_append val u)
  fix k
  assume k: "k < length (ctrl_bytes marshal m)"
  show "\<exists>e. readFrame unmarshal (take k (ctrl_bytes marshal m)) = Inl e"
  proof (cases "k < 4")
    case True
    then have "length (take k (ctrl_bytes marshal m)) < 4" by simp
    then show ?thesis by (simp add: readFrame_def read_full_short)
  next
    case False
    with k b show ?thesis
      by (simp add: readFrame_def bytes read_full_append val read_full_short)
  qed
qed

end
