(* ===== verification/Resync.thy ===== *)
theory Resync
  imports Output_Buffer Frames
begin

text \<open>
  Resynchronisation after a reconnect. The server pulls what the session still holds in batches
  and writes it to the client's output stream (the loop of handleConn in
  internal/qtransport/server.go); the client keeps the offset it has delivered and drops what is
  not newer (pumpOutput in internal/qtransport/client.go). The interface between the transport
  and the session, the callback OnResyncNeeded, is the locale resync_source; the session's
  outputFromOffset is its provider.
\<close>

section \<open>The server's loop\<close>

text \<open>One batch: each chunk is written to the stream (wr gives the new stream state and whether
  the write succeeded) and moves the next offset to ask for past it.\<close>

(* internal/qtransport/server.go:280-288 handleConn *)
fun resync_write ::
  "(nat \<times> bytes \<Rightarrow> 'w \<Rightarrow> 'w \<times> bool) \<Rightarrow> (nat \<times> bytes) list \<Rightarrow> nat \<Rightarrow> 'w \<Rightarrow> 'w \<times> nat \<times> bool" where
  "resync_write wr [] nxt w = (w, nxt, True)"
| "resync_write wr (ch # chs) nxt w =
     (case wr ch w of
        (w', ok) \<Rightarrow> if ok then resync_write wr chs ((fst ch + 1) mod 2 ^ 64) w' else (w', nxt, False))"

text \<open>The loop asks until it gets an error or an empty batch; nothing in it bounds the number of
  rounds, so it is partial.\<close>

(* internal/qtransport/server.go:268-290 handleConn *)
partial_function (option) resync_loop ::
  "(nat \<Rightarrow> err + (nat \<times> bytes) list) \<Rightarrow> (nat \<times> bytes \<Rightarrow> 'w \<Rightarrow> 'w \<times> bool) \<Rightarrow> nat \<Rightarrow> 'w \<Rightarrow> 'w option"
where
  "resync_loop onResync wr nxt w =
     (case onResync nxt of
        Inl e \<Rightarrow> Some w
      | Inr chunks \<Rightarrow>
          if length chunks = 0 then Some w
          else (case resync_write wr chunks nxt w of
                  (w', nxt', ok) \<Rightarrow> if ok then resync_loop onResync wr nxt' w' else Some w'))"

text \<open>A stream that accepts every frame, as the list of frames written.\<close>

definition stream_write :: "nat \<times> bytes \<Rightarrow> (nat \<times> bytes) list \<Rightarrow> (nat \<times> bytes) list \<times> bool" where
  "stream_write ch w = (w @ [ch], True)"

lemma resync_write_stream:
  "chs \<noteq> [] \<Longrightarrow> resync_write stream_write chs nxt w = (w @ chs, (fst (last chs) + 1) mod 2 ^ 64, True)"
  by (induction chs arbitrary: nxt w) (auto simp: stream_write_def)

section \<open>The interface\<close>

locale resync_source =
  fixes fetch :: "'s \<Rightarrow> nat \<Rightarrow> (nat \<times> bytes) list"
    and held :: "'s \<Rightarrow> nat \<Rightarrow> (nat \<times> bytes) list"
    and valid :: "'s \<Rightarrow> bool"
  assumes held_ascending: "valid s \<Longrightarrow> sorted_wrt (<) (map fst (held s start))"
    and held_bounds: "valid s \<Longrightarrow> p \<in> set (held s start) \<Longrightarrow> start \<le> fst p \<and> fst p + 1 < 2 ^ 64"
    and fetch_held: "valid s \<Longrightarrow> n = start \<or> (\<exists>p\<in>set (held s start). n = fst p + 1) \<Longrightarrow>
      \<exists>k. fetch s n = take k (filter (\<lambda>p. n \<le> fst p) (held s start)) \<and>
          (fetch s n = [] \<longrightarrow> filter (\<lambda>p. n \<le> fst p) (held s start) = [])"
begin

lemma filter_after_last:
  assumes "sorted_wrt (<) (map fst (xs @ ys :: (nat \<times> bytes) list))" "xs \<noteq> []"
  shows "filter (\<lambda>p. fst (last xs) + 1 \<le> fst p) (xs @ ys) = ys"
proof -
  have "fst p < fst (last xs) + 1" if "p \<in> set xs" for p
    using assms that by (cases xs rule: rev_cases) (auto simp: sorted_wrt_append less_Suc_eq)
  then have "filter (\<lambda>p. fst (last xs) + 1 \<le> fst p) xs = []"
    by (meson filter_empty_conv leD)
  moreover have "fst (last xs) + 1 \<le> fst p" if "p \<in> set ys" for p
    using assms that by (auto simp: sorted_wrt_append Suc_le_eq)
  then have "filter (\<lambda>p. fst (last xs) + 1 \<le> fst p) ys = ys"
    by (meson filter_True)
  ultimately show ?thesis by simp
qed

text \<open>The loop ends and has written everything held from the offset on, in order.\<close>

lemma loop_from:
  assumes v: "valid s" and n: "n = start \<or> (\<exists>p\<in>set (held s start). n = fst p + 1)"
  shows "resync_loop (\<lambda>n. Inr (fetch s n)) stream_write n w =
         Some (w @ filter (\<lambda>p. n \<le> fst p) (held s start))"
  using n
proof (induction "length (filter (\<lambda>p. n \<le> fst p) (held s start))" arbitrary: n w rule: less_induct)
  case less
  let ?F = "filter (\<lambda>p. n \<le> fst p) (held s start)"
  obtain k where k: "fetch s n = take k ?F" "fetch s n = [] \<longrightarrow> ?F = []"
    using fetch_held [OF v less.prems] by blast
  show ?case
  proof (cases "fetch s n = []")
    case True
    with k show ?thesis by (subst resync_loop.simps) simp
  next
    case False
    let ?xs = "take k ?F" and ?ys = "drop k ?F"
    define m where "m = fst (last ?xs) + 1"
    have ne: "?xs \<noteq> []" using False unfolding k(1) .
    have in_F: "last ?xs \<in> set ?F" by (rule in_set_takeD [OF last_in_set [OF ne]])
    then have in_held: "last ?xs \<in> set (held s start)" by simp
    have nm: "n \<le> m" using in_F by (simp add: m_def)
    have "sorted_wrt (<) (map fst ?F)"
      using held_ascending [OF v, of start] by (simp add: sorted_wrt_map sorted_wrt_filter)
    then have asc: "sorted_wrt (<) (map fst (?xs @ ?ys))" by (simp only: append_take_drop_id)
    have "filter (\<lambda>p. m \<le> fst p) (held s start) = filter (\<lambda>p. m \<le> fst p) ?F"
      using nm by (simp only: filter_filter) (rule filter_cong, auto)
    also have "\<dots> = ?ys"
      using filter_after_last [OF asc ne] by (simp only: append_take_drop_id m_def)
    finally have rest: "filter (\<lambda>p. m \<le> fst p) (held s start) = ?ys" .
    have "length ?ys < length ?F" using ne by (cases ?F) auto
    then have ih: "resync_loop (\<lambda>n. Inr (fetch s n)) stream_write m (w @ ?xs) = Some ((w @ ?xs) @ ?ys)"
      using less.hyps [of m "w @ ?xs"] in_held unfolding rest by (auto simp: m_def)
    have "m mod 2 ^ 64 = m" using held_bounds [OF v in_held] by (simp add: m_def)
    then have "resync_write stream_write ?xs n w = (w @ ?xs, m, True)"
      using resync_write_stream [OF ne, of n w] by (simp only: m_def)
    then have "resync_loop (\<lambda>n. Inr (fetch s n)) stream_write n w =
        resync_loop (\<lambda>n. Inr (fetch s n)) stream_write m (w @ ?xs)"
      using resync_loop.simps [of "\<lambda>n. Inr (fetch s n)" stream_write n w] ne
      by (simp only: k(1) sum.case length_0_conv if_False prod.case if_True)
    with ih show ?thesis by (simp only: append_assoc append_take_drop_id)
  qed
qed

lemma loop_complete:
  assumes "valid s"
  shows "resync_loop (\<lambda>n. Inr (fetch s n)) stream_write start w = Some (w @ held s start)"
proof -
  have "filter (\<lambda>p. start \<le> fst p) (held s start) = held s start"
    using held_bounds [OF assms] by (auto simp: filter_id_conv)
  with loop_from [OF assms, of start start w] show ?thesis by simp
qed

end

section \<open>The session as provider\<close>

lemma cold_batch_spec:
  "cold_batch inflate n segs out tot = (out', tot', full) \<Longrightarrow>
   \<exists>segs1 segs2. segs = segs1 @ segs2 \<and>
     out' = out @ concat (map (\<lambda>seg. filter (\<lambda>c. n \<le> Seq c) (seg_chunks inflate seg)) segs1) \<and>
     (full \<longleftrightarrow> segs2 \<noteq> []) \<and> (full \<longrightarrow> tot' \<ge> maxResyncBatchRawBytes) \<and>
     tot' + raw_size out = tot + raw_size out'"
proof (induction inflate n segs out tot rule: cold_batch.induct)
  case (1 inflate n out tot)
  then show ?case by simp
next
  case (2 inflate n seg segs out tot)
  show ?case
  proof (cases "tot \<ge> maxResyncBatchRawBytes")
    case True
    with 2(3) show ?thesis by (intro exI [of _ "[]"] exI [of _ "seg # segs"]) auto
  next
    case False
    show ?thesis
    proof (cases "chunksFrom inflate seg n")
      case (Inl e)
      then have "filter (\<lambda>c. n \<le> Seq c) (seg_chunks inflate seg) = []"
        using chunksFrom_seg_chunks [of inflate seg n] by simp
      moreover have "cold_batch inflate n segs out tot = (out', tot', full)"
        using 2(3) False Inl by simp
      from 2(1) [OF False Inl this] obtain segs1 segs2 where "segs = segs1 @ segs2 \<and>
          out' = out @ concat (map (\<lambda>seg. filter (\<lambda>c. n \<le> Seq c) (seg_chunks inflate seg)) segs1) \<and>
          (full \<longleftrightarrow> segs2 \<noteq> []) \<and> (full \<longrightarrow> tot' \<ge> maxResyncBatchRawBytes) \<and>
          tot' + raw_size out = tot + raw_size out'"
        by blast
      ultimately show ?thesis
        by (intro exI [of _ "seg # segs1"] exI [of _ segs2]) simp
    next
      case (Inr cs)
      then have "filter (\<lambda>c. n \<le> Seq c) (seg_chunks inflate seg) = cs"
        using chunksFrom_seg_chunks [of inflate seg n] by simp
      moreover have "cold_batch inflate n segs (out @ cs) (tot + raw_size cs) = (out', tot', full)"
        using 2(3) False Inr by simp
      from 2(2) [OF False Inr this] obtain segs1 segs2 where "segs = segs1 @ segs2 \<and>
          out' = (out @ cs) @ concat (map (\<lambda>seg. filter (\<lambda>c. n \<le> Seq c) (seg_chunks inflate seg)) segs1) \<and>
          (full \<longleftrightarrow> segs2 \<noteq> []) \<and> (full \<longrightarrow> tot' \<ge> maxResyncBatchRawBytes) \<and>
          tot' + raw_size (out @ cs) = (tot + raw_size cs) + raw_size out'"
        by blast
      ultimately show ?thesis
        by (intro exI [of _ "seg # segs1"] exI [of _ segs2]) simp
    qed
  qed
qed

lemma raw_batch_spec:
  "\<exists>k. raw_batch chs out tot = out @ take k chs \<and> (chs \<noteq> [] \<longrightarrow> tot < maxResyncBatchRawBytes \<longrightarrow> 0 < k)"
proof (induction chs arbitrary: out tot)
  case (Cons c chs)
  show ?case
  proof (cases "tot \<ge> maxResyncBatchRawBytes")
    case True
    then show ?thesis by (intro exI [of _ 0]) simp
  next
    case False
    obtain k where "raw_batch chs (out @ [c]) (tot + length (Data c)) = (out @ [c]) @ take k chs"
      using Cons by blast
    with False show ?thesis by (intro exI [of _ "Suc k"]) simp
  qed
qed simp

definition chunk_pair :: "OutputChunk \<Rightarrow> nat \<times> bytes" where
  "chunk_pair c = (Seq c, Data c)"

text \<open>What the session offers a client that asks from an offset: everything retained, but only the
  uncompressed tiers to a client that has seen nothing.\<close>

definition held_from ::
  "(bytes \<Rightarrow> bytes \<times> err) \<Rightarrow> 'a out_buffer_scheme \<Rightarrow> nat \<Rightarrow> (nat \<times> bytes) list" where
  "held_from inflate s start =
     map chunk_pair (filter (\<lambda>c. start \<le> Seq c) (if start > 1 then retained inflate s else raw_retained s))"

lemma held_fromD:
  "p \<in> set (held_from inflate s n) \<Longrightarrow>
   \<exists>c\<in>set (retained inflate s). p = chunk_pair c \<and> p = (Seq c, Data c) \<and> n \<le> Seq c"
  by (auto simp: held_from_def retained_def chunk_pair_def split: if_splits)

definition session_valid :: "(bytes \<Rightarrow> bytes \<times> err) \<Rightarrow> 'a out_buffer_scheme \<Rightarrow> bool" where
  "session_valid inflate s \<longleftrightarrow> buf_inv inflate s \<and> sq s + 1 < 2 ^ 64"

lemma chunk_pair_untimed [simp]: "chunk_pair (untimed c) = chunk_pair c"
  by (simp add: chunk_pair_def)

lemma fst_chunk_pair [simp]: "fst (chunk_pair c) = Seq c"
  by (simp add: chunk_pair_def)

text \<open>One batch is a non-empty beginning of what is held from the offset, if anything is.\<close>

lemma outputFromOffset_prefix:
  assumes inv: "buf_inv inflate s"
  shows "\<exists>k. fst (outputFromOffset inflate st s n) = take k (held_from inflate s n) \<and>
    (fst (outputFromOffset inflate st s n) = [] \<longrightarrow> held_from inflate s n = [])"
proof -
  define segs where "segs = (if n > 1 then filter (\<lambda>seg. endSeq seg \<ge> n) (coldSegments s) else [])"
  define raw where "raw = raw_from n (coldPending s) @ raw_from n (outputChunks s)"
  define f where "f = (\<lambda>seg. filter (\<lambda>c. n \<le> Seq c) (seg_chunks inflate seg))"
  obtain out tot full where cb: "cold_batch inflate n segs [] 0 = (out, tot, full)"
    by (metis prod_cases3)
  define batch where "batch = (if full then out else raw_batch raw out tot)"
  have res: "fst (outputFromOffset inflate st s n) = map chunk_pair batch"
    unfolding outputFromOffset_def Let_def segs_def [symmetric] raw_def [symmetric] cb batch_def
    by (simp add: chunk_pair_def [abs_def])
  have wf: "\<forall>seg\<in>set (coldSegments s). seg_wf inflate seg"
    using inv by (simp add: buf_inv_def log_ok_def)
  have skip: "concat (map f (filter (\<lambda>seg. endSeq seg \<ge> n) xs)) = concat (map f xs)"
    if "\<forall>seg\<in>set xs. seg_wf inflate seg" for xs
    using that by (induction xs) (fastforce simp: f_def seg_wf_def filter_empty_conv)+
  have r: "map chunk_pair (filter (\<lambda>c. n \<le> Seq c) (raw_retained s)) = map chunk_pair raw"
    by (simp add: raw_retained_def raw_def raw_from_def filter_map comp_def)
  have c: "filter (\<lambda>c. n \<le> Seq c) (concat (map (seg_chunks inflate) xs)) = concat (map f xs)" for xs
    by (induction xs) (simp_all add: f_def)
  have held: "held_from inflate s n = map chunk_pair (concat (map f segs) @ raw)"
    using skip [OF wf] by (simp add: held_from_def retained_def c r segs_def)
  obtain segs1 segs2 where sp: "segs = segs1 @ segs2" "out = concat (map f segs1)"
    "full \<longleftrightarrow> segs2 \<noteq> []" "full \<longrightarrow> tot \<ge> maxResyncBatchRawBytes" "tot = raw_size out"
    using cold_batch_spec [OF cb] by (auto simp: f_def)
  show ?thesis
  proof (cases full)
    case True
    then have b: "batch = take (length out) (concat (map f segs) @ raw)" by (simp add: batch_def sp)
    have "out \<noteq> []" using True sp(4,5) by (cases out) (simp_all add: maxResyncBatchRawBytes_def)
    then show ?thesis using True
      unfolding res held by (intro exI [of _ "length out"]) (subst b, simp add: take_map batch_def)
  next
    case False
    obtain k where k: "raw_batch raw out tot = out @ take k raw"
      "raw \<noteq> [] \<longrightarrow> tot < maxResyncBatchRawBytes \<longrightarrow> 0 < k"
      using raw_batch_spec by blast
    have b: "batch = take (length out + k) (concat (map f segs) @ raw)"
      using False sp k by (simp add: batch_def)
    have ne: "batch = [] \<longrightarrow> concat (map f segs) @ raw = []"
      using False sp(1-3) sp(5) k by (cases "out = []") (auto simp: batch_def maxResyncBatchRawBytes_def)
    show ?thesis unfolding res held
    proof (intro exI conjI)
      show "map chunk_pair batch = take (length out + k) (map chunk_pair (concat (map f segs) @ raw))"
        by (simp only: b take_map)
    qed (use ne in simp)
  qed
qed

text \<open>After the first round the offset asked for lies past an offset already sent, where the
  uncompressed tiers and the whole log agree.\<close>

lemma held_from_next:
  assumes inv: "buf_inv inflate s" and p: "p \<in> set (held_from inflate s start)"
  shows "held_from inflate s (fst p + 1) = filter (\<lambda>q. fst p + 1 \<le> fst q) (held_from inflate s start)"
proof -
  from p obtain c where c: "p = chunk_pair c" "start \<le> Seq c"
    "c \<in> set (if start > 1 then retained inflate s else raw_retained s)"
    by (auto simp: held_from_def)
  have asc: "ascending (retained inflate s)" and ge: "\<forall>c\<in>set (retained inflate s). 1 \<le> Seq c"
    using inv by (simp_all add: buf_inv_def log_ok_def)
  have "c \<in> set (retained inflate s)" using c(3) by (auto simp: retained_def split: if_splits)
  with ge have g: "1 < fst p + 1" by (auto simp: c(1))
  have "filter (\<lambda>q. fst p + 1 \<le> Seq q) (retained inflate s) = filter (\<lambda>q. fst p + 1 \<le> Seq q) (raw_retained s)"
    if "\<not> start > 1"
    using asc c that by (fastforce simp: retained_def ascending_append filter_empty_conv)
  then show ?thesis using g c(2)
    by (auto simp: held_from_def filter_map comp_def c(1) intro!: arg_cong [where f = "map chunk_pair"] filter_cong)
qed

interpretation session_resync: resync_source
  "\<lambda>s n. fst (outputFromOffset inflate True s n)" "held_from inflate" "session_valid inflate"
  for inflate
proof
  fix s :: "'a out_buffer_scheme" and start
  assume v: "session_valid inflate s"
  have asc: "ascending (retained inflate s)" and b: "\<forall>c\<in>set (retained inflate s). Seq c \<le> sq s"
    and small: "sq s + 1 < 2 ^ 64" and inv: "buf_inv inflate s"
    using v by (simp_all add: session_valid_def buf_inv_def log_ok_def)
  then have asc_raw: "ascending (raw_retained s)" by (simp add: retained_def ascending_append)
  show "sorted_wrt (<) (map fst (held_from inflate s start))"
    using asc asc_raw by (simp add: held_from_def ascending_def comp_def sorted_wrt_map sorted_wrt_filter)
  show "start \<le> fst p \<and> fst p + 1 < 2 ^ 64" if "p \<in> set (held_from inflate s start)" for p
  proof -
    from that obtain c where "p = chunk_pair c" "start \<le> Seq c" "c \<in> set (retained inflate s)"
      by (auto simp: held_from_def retained_def split: if_splits)
    with b small show ?thesis by fastforce
  qed
  fix n
  assume n: "n = start \<or> (\<exists>p\<in>set (held_from inflate s start). n = fst p + 1)"
  have "filter (\<lambda>p. start \<le> fst p) (held_from inflate s start) = held_from inflate s start"
    by (auto simp: filter_id_conv held_from_def)
  with n held_from_next [OF inv] have "held_from inflate s n = filter (\<lambda>p. n \<le> fst p) (held_from inflate s start)"
    by auto
  with outputFromOffset_prefix [OF inv, of True n]
  show "\<exists>k. fst (outputFromOffset inflate True s n) = take k (filter (\<lambda>p. n \<le> fst p) (held_from inflate s start)) \<and>
      (fst (outputFromOffset inflate True s n) = [] \<longrightarrow> filter (\<lambda>p. n \<le> fst p) (held_from inflate s start) = [])"
    by simp
qed

section \<open>The client's side\<close>

text \<open>The loop over the frames of one output stream: the offset delivered last and the chunks
  passed on. A frame whose offset is not newer is dropped.\<close>

fun pump :: "nat \<Rightarrow> (nat \<times> bytes) list \<Rightarrow> nat \<times> (nat \<times> bytes) list" where
  "pump lastOffset [] = (lastOffset, [])"
| "pump lastOffset ((offset, data) # fs) =
     (if offset \<le> lastOffset then pump lastOffset fs
      else (case pump offset fs of (l, out) \<Rightarrow> (l, (offset, data) # out)))"

(* internal/qtransport/client.go:622-646 pumpOutput *)
definition pumpOutput :: "nat \<Rightarrow> bytes \<Rightarrow> nat \<times> (nat \<times> bytes) list" where
  "pumpOutput lastOffset rs = pump lastOffset (fst (read_all readOutputFrame rs))"

lemma pump_append:
  "pump l (xs @ ys) =
   (case pump l xs of (l1, o1) \<Rightarrow> case pump l1 ys of (l2, o2) \<Rightarrow> (l2, o1 @ o2))"
  by (induction l xs rule: pump.induct) (auto split: prod.splits)

lemma pump_stale: "\<forall>p\<in>set fs. fst p \<le> l \<Longrightarrow> pump l fs = (l, [])"
  by (induction fs) auto

lemma pump_fresh:
  "sorted_wrt (<) (map fst fs) \<Longrightarrow> \<forall>p\<in>set fs. l < fst p \<Longrightarrow>
   pump l fs = (if fs = [] then l else fst (last fs), fs)"
  by (induction l fs rule: pump.induct) (auto split: prod.splits)

lemma pump_ascending:
  "pump l fs = (l', out) \<Longrightarrow>
   sorted_wrt (<) (l # map fst out) \<and> l' = last (l # map fst out) \<and> subseq out fs"
proof (induction l fs arbitrary: l' out rule: pump.induct)
  case (2 l off d fs)
  show ?case
  proof (cases "off \<le> l")
    case True
    with 2 show ?thesis by auto
  next
    case False
    then obtain o1 where o1: "pump off fs = (l', o1)" "out = (off, d) # o1"
      using 2(3) by (auto split: prod.splits)
    from 2(2) [OF False o1(1)] False show ?thesis by (auto simp: o1(2))
  qed
qed simp

text \<open>The streams of successive connections, each starting from the offset the last one left.\<close>

fun pump_streams :: "nat \<Rightarrow> bytes list \<Rightarrow> nat \<times> (nat \<times> bytes) list" where
  "pump_streams l [] = (l, [])"
| "pump_streams l (b # bs) =
     (case pumpOutput l b of (l1, o1) \<Rightarrow> case pump_streams l1 bs of (l2, o2) \<Rightarrow> (l2, o1 @ o2))"

lemma pump_streams_frames:
  "pump_streams l bs = pump l (concat (map (\<lambda>b. fst (read_all readOutputFrame b)) bs))"
  by (induction l bs rule: pump_streams.induct) (auto simp: pumpOutput_def pump_append split: prod.splits)

text \<open>Whatever bytes arrive on output streams, whole or cut short, over any number of
  reconnects, the offsets the client passes on strictly increase from the offset it started with:
  nothing is delivered twice or out of order.\<close>

theorem client_never_repeats:
  "sorted_wrt (<) (l # map fst (snd (pump_streams l bs))) \<and>
   fst (pump_streams l bs) = last (l # map fst (snd (pump_streams l bs)))"
  using pump_ascending [of l "concat (map (\<lambda>b. fst (read_all readOutputFrame b)) bs)"]
  by (simp add: pump_streams_frames split: prod.splits) (metis prod.collapse)

lemma chunks_loop_ok:
  "chunks_loop e n s out = Inr cs \<Longrightarrow> \<forall>c\<in>set out. chunk_ok c \<Longrightarrow> \<forall>c\<in>set cs. chunk_ok c"
proof (induction e n s out rule: chunks_loop.induct)
  case (1 e n s out)
  show ?case
  proof (cases "read_full_end e 12 s")
    case (Inl err)
    with 1(2,3) show ?thesis by (subst (asm) chunks_loop.simps) (simp split: if_splits)
  next
    case (Inr p)
    then obtain hdr s1 where r: "read_full_end e 12 s = Inr (hdr, s1)" by (cases p) auto
    then have "length (take 8 hdr) = 8" by (simp add: read_full_end_Inr)
    then have q: "be_val (take 8 hdr) < 2 ^ 64" using be_val_less [of "take 8 hdr"] by simp
    show ?thesis
    proof (cases "be_val (drop 8 hdr) > coldChunkFrameLimit")
      case True
      with 1(2) r show ?thesis by (subst (asm) chunks_loop.simps) simp
    next
      case small: False
      show ?thesis
      proof (cases "read_full_end e (be_val (drop 8 hdr)) s1")
        case (Inl err)
        with 1(2) r small show ?thesis by (subst (asm) chunks_loop.simps) simp
      next
        case (Inr p)
        then obtain d s2 where r2: "read_full_end e (be_val (drop 8 hdr)) s1 = Inr (d, s2)"
          by (cases p) auto
        then have "length d \<le> coldChunkFrameLimit" using small by (simp add: read_full_end_Inr)
        with q have "chunk_ok \<lparr>Seq = be_val (take 8 hdr), Data = d, Timestamp = 0\<rparr>"
          by (simp add: chunk_ok_def)
        moreover have "chunks_loop e n s2
            (if n \<le> be_val (take 8 hdr) then out @ [\<lparr>Seq = be_val (take 8 hdr), Data = d, Timestamp = 0\<rparr>] else out) = Inr cs"
          using 1(2) r r2 small by (subst (asm) chunks_loop.simps) (simp add: Let_def)
        moreover have "\<forall>c\<in>set (if n \<le> be_val (take 8 hdr)
            then out @ [\<lparr>Seq = be_val (take 8 hdr), Data = d, Timestamp = 0\<rparr>] else out). chunk_ok c"
          using calculation(1) 1(3) by auto
        ultimately show ?thesis
          using 1(1) [OF r refl refl refl small r2 refl] by blast
      qed
    qed
  qed
qed

lemma retained_ok: "buf_inv inflate s \<Longrightarrow> c \<in> set (retained inflate s) \<Longrightarrow> chunk_ok c"
proof -
  assume inv: "buf_inv inflate s" and c: "c \<in> set (retained inflate s)"
  have "chunk_ok c" if "c \<in> set (seg_chunks inflate seg)" for seg
  proof (cases "chunksFrom inflate seg 0")
    case (Inr cs)
    then have "chunks_loop (snd (inflate (seg_data seg))) 0 (fst (inflate (seg_data seg))) [] = Inr cs"
      by (simp add: chunksFrom_def case_prod_beta)
    from chunks_loop_ok [OF this] that Inr show ?thesis by (simp add: seg_chunks_def)
  qed (use that in \<open>simp add: seg_chunks_def\<close>)
  moreover have "chunk_ok c" if "c \<in> set (raw_retained s)"
    using that inv by (auto simp: raw_retained_def buf_inv_def log_ok_def chunk_ok_def)
  ultimately show ?thesis using c by (auto simp: retained_def)
qed

lemma held_output_ok:
  assumes "buf_inv inflate s"
  shows "\<forall>p\<in>set (held_from inflate s n). output_ok p"
proof
  fix p assume "p \<in> set (held_from inflate s n)"
  then obtain c where "p = chunk_pair c" "c \<in> set (retained inflate s)"
    by (auto simp: held_from_def retained_def split: if_splits)
  with retained_ok [OF assms] show "output_ok p"
    by (auto simp: chunk_pair_def output_ok_def chunk_ok_def maxOutputFrame_def coldChunkFrameLimit_def)
qed

text \<open>C10. When no live output is written in between, the resynchronisation of a client that has
  received up to an offset ends, and the client then delivers exactly the chunks the session
  still holds after that offset, byte for byte and in order, through the encoded stream.\<close>

theorem resync_complete:
  assumes "buf_inv inflate s" "sq s + 1 < 2 ^ 64"
  shows "\<exists>fs. resync_loop (\<lambda>n. Inr (fst (outputFromOffset inflate True s n))) stream_write (l + 1) [] = Some fs \<and>
     snd (pumpOutput l (concat (map (\<lambda>(off, d). writeOutputFrame off d) fs))) =
     map (\<lambda>c. (Seq c, Data c))
       (filter (\<lambda>c. l < Seq c) (if l \<ge> 1 then retained inflate s else raw_retained s))"
proof -
  let ?fs = "held_from inflate s (l + 1)"
  have v: "session_valid inflate s" using assms by (simp add: session_valid_def)
  have "resync_loop (\<lambda>n. Inr (fst (outputFromOffset inflate True s n))) stream_write (l + 1) [] = Some ?fs"
    using session_resync.loop_complete [OF v, of "l + 1" "[]"] by simp
  moreover have "fst (read_all readOutputFrame (concat (map (\<lambda>(off, d). writeOutputFrame off d) ?fs))) = ?fs"
    using outf.read_all_frames [OF held_output_ok [OF assms(1)]] by simp
  moreover have "pump l ?fs = (if ?fs = [] then l else fst (last ?fs), ?fs)"
    using session_resync.held_ascending [OF v, of "l + 1"] session_resync.held_bounds [OF v, of _ "l + 1"]
    by (intro pump_fresh) fastforce+
  moreover have "?fs = map (\<lambda>c. (Seq c, Data c))
      (filter (\<lambda>c. l < Seq c) (if l \<ge> 1 then retained inflate s else raw_retained s))"
    by (auto simp: held_from_def chunk_pair_def [abs_def] Suc_le_eq)
  ultimately show ?thesis by (auto simp: pumpOutput_def)
qed

definition three_chunks :: out_buffer where
  "three_chunks = \<lparr>sq = 4, outputChunks = [\<lparr>Seq = 3, Data = [51], Timestamp = 0\<rparr>, \<lparr>Seq = 4, Data = [52], Timestamp = 0\<rparr>],
     outputBufferBytes = 2, coldPending = [\<lparr>Seq = 2, Data = [50], Timestamp = 0\<rparr>], coldPendingBytes = 1,
     coldFlushing = False, coldSegments = [], coldBytes = 0, coldRawBytes = 0\<rparr>"

lemma three_chunks_inv: "buf_inv inflate three_chunks"
  by (simp add: buf_inv_def counters_ok_def log_ok_def three_chunks_def retained_def raw_retained_def
      ascending_def chunk_ok_def coldChunkFrameLimit_def)

lemma resync_complete_witness:
  "\<exists>fs. resync_loop (\<lambda>n. Inr (fst (outputFromOffset (\<lambda>z. (z, EOF)) True three_chunks n))) stream_write 3 [] = Some fs \<and>
     snd (pumpOutput 2 (concat (map (\<lambda>(off, d). writeOutputFrame off d) fs))) = [(3, [51]), (4, [52])]"
  using resync_complete [OF three_chunks_inv, of "\<lambda>z. (z, EOF)" 2]
  by (simp add: three_chunks_def retained_def raw_retained_def untimed_def)

text \<open>A live chunk that SendOutput writes before the resynchronisation is finished makes the
  client drop everything the resynchronisation writes after it, and moves the client's offset past
  it, so that no later resynchronisation asks for it again. (handleConn registers the client for
  live output before it resynchronises it.)\<close>

theorem live_output_overtakes_resync:
  assumes "buf_inv inflate s" "sq s + 1 < 2 ^ 64" "l \<le> sq s"
    "resync_loop (\<lambda>n. Inr (fst (outputFromOffset inflate True s n))) stream_write (l + 1) [] = Some (pre @ post)"
  shows "pump l (pre @ [(sq s + 1, d)] @ post) = (sq s + 1, pre @ [(sq s + 1, d)]) \<and>
         (\<forall>p\<in>set post. fst p < sq s + 2)"
proof -
  have v: "session_valid inflate s" using assms(1,2) by (simp add: session_valid_def)
  let ?fs = "held_from inflate s (Suc l)"
  have fs: "?fs = pre @ post"
    using session_resync.loop_complete [OF v, of "Suc l" "[]"] assms(4) by simp
  have le: "fst p \<le> sq s" if "p \<in> set ?fs" for p
    using assms(1) held_fromD [OF that] by (auto simp: buf_inv_def log_ok_def)
  have "sorted_wrt (<) (map fst pre)"
    using session_resync.held_ascending [OF v, of "Suc l"] by (simp add: fs sorted_wrt_append)
  moreover have "\<forall>p\<in>set pre. l < fst p"
    using session_resync.held_bounds [OF v, of _ "Suc l"] by (fastforce simp: fs)
  ultimately have p: "pump l pre = (if pre = [] then l else fst (last pre), pre)"
    by (rule pump_fresh)
  have "(if pre = [] then l else fst (last pre)) < sq s + 1"
    using assms(3) le [of "last pre"] by (auto simp: fs less_Suc_eq_le)
  moreover have "\<forall>p\<in>set post. fst p \<le> sq s + 1" using le by (fastforce simp: fs)
  ultimately show ?thesis by (auto simp: pump_append p pump_stale Let_def)
qed

lemma live_output_overtakes_resync_witness:
  "pump 2 ([(3, [51])] @ [(5, [53])] @ [(4, [52])]) = (5, [(3, [51])] @ [(5, [53])])"
proof -
  have v: "session_valid (\<lambda>z. (z, EOF)) three_chunks"
    by (simp add: session_valid_def three_chunks_inv) (simp add: three_chunks_def)
  have "resync_loop (\<lambda>n. Inr (fst (outputFromOffset (\<lambda>z. (z, EOF)) True three_chunks n))) stream_write (2 + 1) [] =
      Some ([(3, [51])] @ [(4, [52])])"
    using session_resync.loop_complete [OF v, of "2 + 1" "[]"]
    by (simp add: held_from_def three_chunks_def retained_def raw_retained_def untimed_def chunk_pair_def)
  from live_output_overtakes_resync [OF three_chunks_inv _ _ this, of "[53]"]
  show ?thesis by (simp add: three_chunks_def)
qed

text \<open>A segment that does not decode is left out without any notice: as long as the oldest
  position still listed is not past the one asked for, no status is sent, and the batches contain
  exactly the chunks of the segments that decode.\<close>

theorem corrupt_segment_is_silent:
  assumes "buf_inv inflate s" "oldestRetainedSeqLocked s = Some oldest" "oldest \<le> n"
  shows "snd (outputFromOffset inflate st s n) = None \<and>
         (\<forall>p\<in>set (fst (outputFromOffset inflate st s n)).
            \<exists>c\<in>set (retained inflate s). p = (Seq c, Data c) \<and> n \<le> Seq c)"
proof
  show "snd (outputFromOffset inflate st s n) = None"
    using assms(2,3) by (simp add: outputFromOffset_def Let_def case_prod_beta)
  obtain k where "fst (outputFromOffset inflate st s n) = take k (held_from inflate s n)"
    using outputFromOffset_prefix [OF assms(1)] by blast
  then have "set (fst (outputFromOffset inflate st s n)) \<subseteq> set (held_from inflate s n)"
    by (metis set_take_subset)
  then show "\<forall>p\<in>set (fst (outputFromOffset inflate st s n)).
      \<exists>c\<in>set (retained inflate s). p = (Seq c, Data c) \<and> n \<le> Seq c"
    using held_fromD [of _ inflate s n] by fast
qed

text \<open>The middle one of three segments is damaged; the client that resumes at 2 is told nothing.\<close>

definition damaged :: out_buffer where
  "damaged = \<lparr>sq = 3, outputChunks = [\<lparr>Seq = 3, Data = [51], Timestamp = 0\<rparr>], outputBufferBytes = 1,
     coldPending = [], coldPendingBytes = 0, coldFlushing = False,
     coldSegments = [\<lparr>startSeq = 1, endSeq = 1, rawBytes = 1, seg_data = chunk_frame \<lparr>Seq = 1, Data = [49], Timestamp = 0\<rparr>,
         oldestTime = 0, newestTime = 0\<rparr>,
       \<lparr>startSeq = 2, endSeq = 2, rawBytes = 1, seg_data = [7], oldestTime = 0, newestTime = 0\<rparr>],
     coldBytes = 14, coldRawBytes = 2\<rparr>"

lemma corrupt_segment_is_silent_witness:
  "snd (outputFromOffset (\<lambda>z. (z, EOF)) True damaged 2) = None"
proof -
  let ?c = "\<lparr>Seq = 1, Data = [49], Timestamp = 0\<rparr>"
  have ok: "chunk_ok ?c" by (simp add: chunk_ok_def coldChunkFrameLimit_def)
  have 1: "seg_chunks (\<lambda>z. (z, EOF)) (hd (coldSegments damaged)) = [?c]"
    using chunks_loop_Cons [OF ok, of EOF 0 "[]" "[]"]
    by (simp add: seg_chunks_def chunksFrom_def damaged_def untimed_def)
  have 2: "seg_chunks (\<lambda>z. (z, EOF)) (coldSegments damaged ! 1) = []"
    by (simp add: seg_chunks_def chunksFrom_def damaged_def chunks_loop.simps [of EOF] read_full_end_def)
  have r: "retained (\<lambda>z. (z, EOF)) damaged = [?c, \<lparr>Seq = 3, Data = [51], Timestamp = 0\<rparr>]"
    using 1 2 by (simp add: retained_def raw_retained_def damaged_def untimed_def)
  have "buf_inv (\<lambda>z. (z, EOF)) damaged"
    using 1 2 unfolding buf_inv_def log_ok_def r
    by (simp add: counters_ok_def damaged_def ascending_def chunk_ok_def coldChunkFrameLimit_def
        seg_wf_def chunk_frame_def)
  from corrupt_segment_is_silent [OF this, of 1 2 True] show ?thesis
    by (simp add: oldestRetainedSeqLocked_def damaged_def)
qed

end
