(* ===== verification/Term_Trackers.thy ===== *)
theory Term_Trackers
  imports Prelude
begin

unbundle bit_operations_syntax

text \<open>
  The scanners of terminal output (internal/termui): ModeTracker, which remembers the modes a
  full-screen program has set so that they can be replayed to a client that attaches later, and
  AltScreenTracker, which infers whether the alternate screen is shown. Both keep their state over
  chunk boundaries; the locale chunk_scanner states that, and both are interpretations of it. The
  package's CRLF writer and status line manager are here too.
\<close>

section \<open>Scanners\<close>

locale chunk_scanner =
  fixes scan_chunk :: "bytes \<Rightarrow> 't \<Rightarrow> 't"
    and scan_byte :: "byte \<Rightarrow> 't \<Rightarrow> 't"
  assumes scan_fold: "scan_chunk p t = fold scan_byte p t"
begin

lemma scan_append: "scan_chunk (p @ q) t = scan_chunk q (scan_chunk p t)"
  by (simp add: scan_fold)

lemma scan_chunks: "scan_chunk (concat ps) t = fold scan_chunk ps t"
  by (induction ps arbitrary: t) (simp_all add: scan_append, simp add: scan_fold)

lemma scan_rechunk: "concat ps = concat qs \<Longrightarrow> fold scan_chunk ps t = fold scan_chunk qs t"
  by (metis scan_chunks)

end

(* internal/termui/altscreen.go:29-36 altGround *)
datatype scan_state = altGround | altEsc | altCSI | altPrivate | altIgnore

(* internal/termui/altscreen.go:38-39 maxParam *)
definition maxParam :: nat where
  "maxParam = 100000"

abbreviation ESC :: byte where "ESC \<equiv> 27"

definition is_digit :: "byte \<Rightarrow> bool" where
  "is_digit b \<longleftrightarrow> b \<ge> 48 \<and> b \<le> 57"

definition is_intermediate :: "byte \<Rightarrow> bool" where
  "is_intermediate b \<longleftrightarrow> b \<ge> 32 \<and> b \<le> 47"

definition is_final :: "byte \<Rightarrow> bool" where
  "is_final b \<longleftrightarrow> b \<ge> 64 \<and> b \<le> 126"

text \<open>bytes.IndexByte(p, ESC) as the rest of p from the first ESC on.\<close>

definition from_esc :: "bytes \<Rightarrow> bytes" where
  "from_esc p = dropWhile (\<lambda>b. b \<noteq> ESC) p"

lemma from_esc_cases:
  obtains "from_esc p = []" "ESC \<notin> set p"
  | pre rest where "from_esc p = ESC # rest" "p = pre @ ESC # rest" "ESC \<notin> set pre"
proof (cases "ESC \<in> set p")
  case False
  then have "from_esc p = []" by (auto simp: from_esc_def)
  show thesis by (rule that(1)) fact+
next
  case True
  then obtain pre rest where p: "p = pre @ ESC # rest" "ESC \<notin> set pre"
    by (meson split_list_first)
  then have "from_esc p = ESC # rest"
    unfolding from_esc_def by (subst p(1), subst dropWhile_append2) auto
  with p show thesis by (intro that(2))
qed

lemma length_from_esc: "length (from_esc p) \<le> length p"
  by (simp add: from_esc_def length_dropWhile_le)

section \<open>ModeTracker\<close>

(* internal/termui/modes.go:8-26 trackedModes *)
definition trackedModes :: "(nat \<times> bool) list" where
  "trackedModes =
     [(47, False), (1047, False), (1049, False),
      (1000, False), (1002, False), (1003, False),
      (1005, False), (1006, False), (1015, False),
      (1004, False),
      (2004, False),
      (1, False),
      (25, True)]"

(* internal/termui/modes.go:28-29 keypadBit *)
definition keypadBit :: nat where
  "keypadBit = length trackedModes"

(* internal/termui/modes.go:31-32 maxModeParams *)
definition maxModeParams :: nat where
  "maxModeParams = 16"

(* internal/termui/modes.go:34-48 ModeTracker *)
record ModeTracker =
  mt_diff :: "32 word"
  mt_scan :: scan_state
  mt_params :: "nat list"
  mt_nparams :: nat
  mt_invalid :: bool

definition zero_tracker :: ModeTracker where
  "zero_tracker = \<lparr>mt_diff = 0, mt_scan = altGround, mt_params = replicate 16 0, mt_nparams = 0, mt_invalid = False\<rparr>"

text \<open>The bytes of a string, and strconv.Itoa.\<close>

definition str_bytes :: "string \<Rightarrow> bytes" where
  "str_bytes s = map (\<lambda>c. word_of_nat (of_char c)) s"

fun restore_modes :: "32 word \<Rightarrow> nat \<Rightarrow> (nat \<times> bool) list \<Rightarrow> bytes" where
  "restore_modes d i [] = []"
| "restore_modes d i ((num, def) # ms) =
     (if d AND push_bit i 1 = 0 then restore_modes d (Suc i) ms
      else [ESC, 91, 63] @ str_bytes (show_nat num) @ [if def then 108 else 104] @ restore_modes d (Suc i) ms)"

text \<open>nil is the empty list.\<close>

(* internal/termui/modes.go:50-73 ModeTracker.Restore *)
definition Restore :: "ModeTracker \<Rightarrow> bytes" where
  "Restore t =
     (if mt_diff t = 0 then []
      else restore_modes (mt_diff t) 0 trackedModes @
           (if mt_diff t AND push_bit keypadBit 1 \<noteq> 0 then [ESC, 61] else []))"

(* internal/termui/modes.go:84-90 ModeTracker.setBit *)
definition setBit :: "nat \<Rightarrow> bool \<Rightarrow> ModeTracker \<Rightarrow> ModeTracker" where
  "setBit b differs t =
     (if differs then t\<lparr>mt_diff := mt_diff t OR push_bit b 1\<rparr>
      else t\<lparr>mt_diff := mt_diff t AND NOT (push_bit b 1)\<rparr>)"

fun set_mode_from :: "nat \<Rightarrow> (nat \<times> bool) list \<Rightarrow> nat \<Rightarrow> bool \<Rightarrow> ModeTracker \<Rightarrow> ModeTracker" where
  "set_mode_from i [] num on t = t"
| "set_mode_from i ((n, def) # ms) num on t =
     (if n = num then setBit i (on \<noteq> def) t else set_mode_from (Suc i) ms num on t)"

(* internal/termui/modes.go:75-82 ModeTracker.setMode *)
definition setMode :: "nat \<Rightarrow> bool \<Rightarrow> ModeTracker \<Rightarrow> ModeTracker" where
  "setMode num on t = set_mode_from 0 trackedModes num on t"

text \<open>One byte in a state other than altGround.\<close>

(* internal/termui/modes.go:111-171 ModeTracker.Scan *)
definition mode_byte :: "byte \<Rightarrow> ModeTracker \<Rightarrow> ModeTracker" where
  "mode_byte b t =
     (if b = ESC then t\<lparr>mt_scan := altEsc\<rparr>
      else if b = 24 \<or> b = 26 then t\<lparr>mt_scan := altGround\<rparr>
      else (case mt_scan t of
          altEsc \<Rightarrow>
            (let t1 = t\<lparr>mt_scan := altGround\<rparr> in
             if b = 91 then t1\<lparr>mt_scan := altCSI\<rparr>
             else if b = 99 then t1\<lparr>mt_diff := 0\<rparr>
             else if b = 61 then setBit keypadBit True t1
             else if b = 62 then setBit keypadBit False t1
             else t1)
        | altCSI \<Rightarrow>
            (if b = 63
             then t\<lparr>mt_scan := altPrivate, mt_params := (mt_params t)[0 := 0], mt_nparams := 1, mt_invalid := False\<rparr>
             else t\<lparr>mt_scan := altGround\<rparr>)
        | altPrivate \<Rightarrow>
            (let i = mt_nparams t - 1; v = mt_params t ! i in
             if is_digit b then
               (if v < maxParam then t\<lparr>mt_params := (mt_params t)[i := v * 10 + unat (b - 48)]\<rparr> else t)
             else if b = 59 \<or> b = 58 then
               (if mt_nparams t < maxModeParams
                then t\<lparr>mt_params := (mt_params t)[mt_nparams t := 0], mt_nparams := mt_nparams t + 1\<rparr>
                else t\<lparr>mt_params := (mt_params t)[i := 0]\<rparr>)
             else if is_intermediate b then t\<lparr>mt_invalid := True\<rparr>
             else if is_final b then
               (let t1 = (if \<not> mt_invalid t \<and> (b = 104 \<or> b = 108)
                          then fold (\<lambda>n. setMode n (b = 104)) (take (mt_nparams t) (mt_params t)) t
                          else t) in
                t1\<lparr>mt_scan := altGround\<rparr>)
             else t)
        | _ \<Rightarrow> t))"

text \<open>The loop, with its two fast paths in the ground state: skip to the next ESC, and skip
  ESC [ and the byte after it when that byte cannot start a private sequence.\<close>

(* internal/termui/modes.go:92-173 ModeTracker.Scan *)
function mode_scan :: "bytes \<Rightarrow> ModeTracker \<Rightarrow> ModeTracker" where
  "mode_scan p t =
     (case p of
        [] \<Rightarrow> t
      | b # bs \<Rightarrow>
          if mt_scan t = altGround then
            (case from_esc p of
               [] \<Rightarrow> t
             | e # rest \<Rightarrow>
                 if length rest \<ge> 2 \<and> rest ! 0 = 91 \<and> rest ! 1 \<noteq> 63 \<and> rest ! 1 \<noteq> ESC \<and>
                    rest ! 1 \<noteq> 24 \<and> rest ! 1 \<noteq> 26
                 then mode_scan (drop 2 rest) t
                 else mode_scan rest (t\<lparr>mt_scan := altEsc\<rparr>))
          else mode_scan bs (mode_byte b t))"
  by pat_completeness auto
termination
proof (relation "measure (\<lambda>(p, t). length p)", goal_cases)
  case (2 p t b bs e rest)
  then show ?case using length_from_esc [of p] by simp
next
  case (3 p t b bs e rest)
  then show ?case using length_from_esc [of p] by simp
qed auto

declare mode_scan.simps [simp del]

text \<open>The same automaton one byte at a time, without fast paths.\<close>

definition mode_step :: "byte \<Rightarrow> ModeTracker \<Rightarrow> ModeTracker" where
  "mode_step b t =
     (if mt_scan t = altGround then (if b = ESC then t\<lparr>mt_scan := altEsc\<rparr> else t) else mode_byte b t)"

lemma mode_step_busy: "mt_scan t \<noteq> altGround \<Longrightarrow> mode_step b t = mode_byte b t"
  by (simp add: mode_step_def)

lemma mode_step_ground: "mt_scan t = altGround \<Longrightarrow> ESC \<notin> set p \<Longrightarrow> fold mode_step p t = t"
  by (induction p) (auto simp: mode_step_def)

lemma mode_scan_fold: "mode_scan p t = fold mode_step p t"
proof (induction p t rule: mode_scan.induct)
  case (1 p t)
  show ?case
  proof (cases p)
    case Nil
    then show ?thesis by (subst mode_scan.simps) simp
  next
    case (Cons b bs)
    show ?thesis
    proof (cases "mt_scan t = altGround")
      case False
      with 1(3) [OF Cons False] Cons show ?thesis
        by (subst mode_scan.simps) (simp add: mode_step_busy)
    next
      case ground: True
      show ?thesis
      proof (cases rule: from_esc_cases [of p])
        case 1
        with ground have "fold mode_step p t = t" by (simp add: mode_step_ground)
        with ground Cons 1(1) show ?thesis by (subst mode_scan.simps) simp
      next
        case (2 pre rest)
        have unf: "fold mode_step p t = fold mode_step rest (t\<lparr>mt_scan := altEsc\<rparr>)"
          using ground by (simp add: 2 mode_step_ground mode_step_def)
        let ?fast = "length rest \<ge> 2 \<and> rest ! 0 = 91 \<and> rest ! 1 \<noteq> 63 \<and> rest ! 1 \<noteq> ESC \<and>
                    rest ! 1 \<noteq> 24 \<and> rest ! 1 \<noteq> 26"
        show ?thesis
        proof (cases ?fast)
          case False
          with 1(2) [OF Cons ground 2(1) False] ground Cons 2(1) unf show ?thesis
            by (subst mode_scan.simps) auto
        next
          case True
          then obtain c rest' where r: "rest = 91 # c # rest'"
            by (cases rest; cases "tl rest") auto
          have "fold mode_step rest (t\<lparr>mt_scan := altEsc\<rparr>) = fold mode_step rest' (t\<lparr>mt_scan := altGround\<rparr>)"
            using True by (simp add: r mode_step_def mode_byte_def)
          also have "t\<lparr>mt_scan := altGround\<rparr> = t" using ground by (cases t) simp
          finally have "fold mode_step rest (t\<lparr>mt_scan := altEsc\<rparr>) = fold mode_step rest' t" .
          with 1(1) [OF Cons ground 2(1) True] ground Cons 2(1) unf True show ?thesis
            by (subst mode_scan.simps) (simp add: r)
        qed
      qed
    qed
  qed
qed

interpretation modes: chunk_scanner mode_scan mode_step
  by unfold_locales (rule mode_scan_fold)

subsection \<open>Invariant\<close>

text \<open>The parameter array is never indexed out of range, parameters stay bounded, and only the
  bits of tracked modes and the keypad are ever set.\<close>

definition mode_inv :: "ModeTracker \<Rightarrow> bool" where
  "mode_inv t \<longleftrightarrow>
     length (mt_params t) = 16 \<and> mt_nparams t \<le> 16 \<and>
     (mt_scan t = altPrivate \<longrightarrow> 1 \<le> mt_nparams t) \<and>
     (\<forall>v\<in>set (mt_params t). v < 10 * maxParam) \<and>
     (\<forall>j. bit (mt_diff t) j \<longrightarrow> j \<le> keypadBit) \<and> mt_scan t \<noteq> altIgnore"

lemma keypadBit_eq [simp]: "keypadBit = 13"
  by (simp add: keypadBit_def trackedModes_def)

definition set_bit_word :: "nat \<Rightarrow> bool \<Rightarrow> 32 word \<Rightarrow> 32 word" where
  "set_bit_word b differs d = (if differs then d OR push_bit b 1 else d AND NOT (push_bit b 1))"

lemma setBit_diff: "setBit b x t = t\<lparr>mt_diff := set_bit_word b x (mt_diff t)\<rparr>"
  by (simp add: setBit_def set_bit_word_def)

lemma bit_two_power [simp]: "bit (2 ^ b :: 32 word) j \<longleftrightarrow> j = b \<and> j < 32"
  by (auto simp: bit_exp_iff)

lemma bit_set_bit_word:
  "bit (set_bit_word b x d) j \<longleftrightarrow> (if j = b \<and> j < 32 then x else bit d j)"
  by (auto simp: set_bit_word_def bit_or_iff bit_and_iff bit_not_iff dest: bit_imp_le_length)

lemma set_mode_from_diff:
  "\<exists>d. set_mode_from i ms num on t = t\<lparr>mt_diff := d\<rparr> \<and>
       (\<forall>j. bit d j \<longrightarrow> bit (mt_diff t) j \<or> j < i + length ms)"
proof (induction ms arbitrary: i)
  case Nil
  show ?case by (intro exI [of _ "mt_diff t"]) simp
next
  case (Cons m ms)
  obtain n df where m: "m = (n, df)" by (cases m)
  show ?case
  proof (cases "n = num")
    case True
    then show ?thesis
      by (intro exI [of _ "set_bit_word i (on \<noteq> df) (mt_diff t)"])
        (auto simp: m setBit_diff bit_set_bit_word split: if_splits)
  next
    case False
    with Cons [of "Suc i"] show ?thesis by (simp add: m)
  qed
qed

lemma setMode_diff:
  "\<exists>d. setMode num on t = t\<lparr>mt_diff := d\<rparr> \<and> (\<forall>j. bit d j \<longrightarrow> bit (mt_diff t) j \<or> j \<le> 13)"
  using set_mode_from_diff [of 0 trackedModes num on t]
  by (fastforce simp: setMode_def trackedModes_def)

lemma mode_inv_diff:
  "mode_inv t \<Longrightarrow> \<forall>j. bit d j \<longrightarrow> bit (mt_diff t) j \<or> j \<le> 13 \<Longrightarrow> mode_inv (t\<lparr>mt_diff := d\<rparr>)"
  by (auto simp: mode_inv_def)

lemma setMode_inv [inv_intros]: "mode_inv t \<Longrightarrow> mode_inv (setMode num on t)"
  using setMode_diff [of num on t] mode_inv_diff by auto

lemma setModes_inv [inv_intros]: "mode_inv t \<Longrightarrow> mode_inv (fold (\<lambda>n. setMode n on) ns t)"
  by (induction ns arbitrary: t) (simp_all add: inv_intros)

lemma setBit_inv [inv_intros]: "mode_inv t \<Longrightarrow> b \<le> 13 \<Longrightarrow> mode_inv (setBit b x t)"
  by (auto simp: setBit_diff bit_set_bit_word split: if_splits intro!: mode_inv_diff)

lemma mode_inv_scan:
  "mode_inv t \<Longrightarrow> x \<noteq> altPrivate \<Longrightarrow> x \<noteq> altIgnore \<Longrightarrow> mode_inv (t\<lparr>mt_scan := x\<rparr>)"
  by (auto simp: mode_inv_def)

lemma digit_value: "is_digit b \<Longrightarrow> unat (b - 48) \<le> 9"
  by (auto simp: is_digit_def word_le_nat_alt unat_sub)

lemma mode_byte_inv [inv_intros]:
  assumes inv: "mode_inv t" and busy: "mt_scan t \<noteq> altGround"
  shows "mode_inv (mode_byte b t)"
proof -
  consider "b = ESC" | "b = 24 \<or> b = 26" | "mt_scan t = altEsc" | "b \<noteq> ESC" "\<not> (b = 24 \<or> b = 26)" "mt_scan t = altCSI"
    | "b \<noteq> ESC" "\<not> (b = 24 \<or> b = 26)" "mt_scan t = altPrivate"
    using inv busy by (cases "mt_scan t") (auto simp: mode_inv_def)
  then show ?thesis
  proof cases
    case 3
    have "mode_inv (t\<lparr>mt_scan := x, mt_diff := d\<rparr>)"
      if "x \<noteq> altPrivate" "x \<noteq> altIgnore" "\<forall>j. bit d j \<longrightarrow> j \<le> 13" for x d
      using inv that by (auto simp: mode_inv_def)
    then show ?thesis using 3 inv
      by (auto simp: mode_byte_def Let_def inv_intros mode_inv_scan setBit_inv)
  next
    case 4
    with inv show ?thesis
      by (auto simp: mode_byte_def mode_inv_scan)
         (auto simp: mode_inv_def maxParam_def dest!: set_update_subset_insert [THEN subsetD])
  next
    case 5
    let ?i = "mt_nparams t - 1"
    have i: "?i < 16" "length (mt_params t) = 16" using inv 5 by (auto simp: mode_inv_def)
    have upd: "mode_inv (t\<lparr>mt_params := (mt_params t)[k := v]\<rparr>)" if "v < 10 * maxParam" for k v
      using inv that by (auto simp: mode_inv_def dest!: set_update_subset_insert [THEN subsetD])
    have dig: "mt_params t ! ?i * 10 + unat (b - 48) < 10 * maxParam"
      if "is_digit b" "mt_params t ! ?i < maxParam"
      using digit_value [OF that(1)] that(2) by simp
    have fin: "mode_inv ((fold (\<lambda>n. setMode n on) ns t)\<lparr>mt_scan := altGround\<rparr>)" for on ns
      by (intro mode_inv_scan setModes_inv inv) simp_all
    have sep: "mode_inv (t\<lparr>mt_params := (mt_params t)[k := 0], mt_nparams := mt_nparams t + 1\<rparr>)"
      if "mt_nparams t < maxModeParams" for k
      using inv that
      by (auto simp: mode_inv_def maxModeParams_def maxParam_def dest!: set_update_subset_insert [THEN subsetD])
    have "mode_inv (t\<lparr>mt_invalid := True\<rparr>)" using inv by (simp add: mode_inv_def)
    then show ?thesis
      using 5 inv upd [OF dig] upd [of 0] fin [of _ "[]"] fin sep
      by (auto simp: mode_byte_def Let_def maxParam_def)
  qed (use inv in \<open>auto simp: mode_byte_def mode_inv_scan\<close>)
qed

lemma mode_step_inv [inv_intros]: "mode_inv t \<Longrightarrow> mode_inv (mode_step b t)"
  by (simp add: mode_step_def mode_byte_inv mode_inv_scan)

lemma mode_scan_inv [inv_intros]: "mode_inv t \<Longrightarrow> mode_inv (mode_scan p t)"
  unfolding mode_scan_fold by (induction p arbitrary: t) (simp_all add: inv_intros)

lemma zero_tracker_inv: "mode_inv zero_tracker"
  by (simp add: mode_inv_def zero_tracker_def maxParam_def)

subsection \<open>Replaying the modes\<close>

definition mode_seq :: "nat \<times> bool \<Rightarrow> bytes" where
  "mode_seq m = [ESC, 91, 63] @ str_bytes (show_nat (fst m)) @ [if snd m then 108 else 104]"

text \<open>Scanning the sequence of one tracked mode from the ground state sets its bit and ends in
  the ground state.\<close>

definition sets_bit :: "nat \<Rightarrow> bytes \<Rightarrow> bool" where
  "sets_bit i p \<longleftrightarrow>
     (\<forall>t. mt_scan t = altGround \<longrightarrow> length (mt_params t) = 16 \<longrightarrow>
        (let t' = fold mode_step p t in
         mt_scan t' = altGround \<and> length (mt_params t') = 16 \<and> mt_diff t' = mt_diff t OR push_bit i 1))"

lemma take_1_update: "length xs = 16 \<Longrightarrow> take (Suc 0) (xs[0 := v]) = [v]"
  by (cases xs) auto

lemmas seq_eval = take_1_update mode_seq_def str_bytes_def show_nat.simps mode_step_def mode_byte_def is_digit_def
  is_final_def is_intermediate_def maxParam_def setMode_def trackedModes_def setBit_def Let_def

lemma mode_seqs_set_bits: "\<forall>i<13. sets_bit i (mode_seq (trackedModes ! i))"
proof -
  have "sets_bit i (mode_seq (trackedModes ! i))"
    if "i \<in> {0, 1, 2, 3, 4, 5, 6, 7, 8, 9, 10, 11, 12}" for i
    using that unfolding sets_bit_def
    by (elim insertE emptyE) (simp_all add: seq_eval)
  then show ?thesis by (auto simp: eval_nat_numeral less_Suc_eq)
qed

lemma restore_modes_scan:
  assumes "\<forall>j<length ms. sets_bit (i + j) (mode_seq (ms ! j))" "i + length ms \<le> 32"
    "mt_scan t = altGround" "length (mt_params t) = 16"
  shows "let t' = fold mode_step (restore_modes d i ms) t in
    mt_scan t' = altGround \<and> length (mt_params t') = 16 \<and>
    (\<forall>j. bit (mt_diff t') j \<longleftrightarrow> bit (mt_diff t) j \<or> (i \<le> j \<and> j < i + length ms \<and> bit d j))"
  using assms
proof (induction ms arbitrary: i t)
  case (Cons m ms)
  have tail: "\<forall>j<length ms. sets_bit (Suc i + j) (mode_seq (ms ! j))"
    using Cons.prems(1) by (metis Suc_less_eq add_Suc_shift length_Cons nth_Cons_Suc)
  have head: "sets_bit i (mode_seq m)" using Cons.prems(1) by force
  obtain n df where m: "m = (n, df)" by (cases m)
  show ?case
  proof (cases "bit d i")
    case False
    then have "restore_modes d i (m # ms) = restore_modes d (Suc i) ms"
      by (simp add: m and_exp_eq_0_iff_not_bit)
    moreover have "i \<le> j \<and> j < i + length (m # ms) \<and> bit d j \<longleftrightarrow>
        Suc i \<le> j \<and> j < Suc i + length ms \<and> bit d j" for j
      using False by (cases "i = j") auto
    ultimately show ?thesis
      using Cons.IH [OF tail _ Cons.prems(3,4)] Cons.prems(2) unfolding Let_def by simp
  next
    case True
    define t1 where "t1 = fold mode_step (mode_seq m) t"
    have t1: "mt_scan t1 = altGround" "length (mt_params t1) = 16" "mt_diff t1 = mt_diff t OR 2 ^ i"
      using head Cons.prems(3,4) by (auto simp: sets_bit_def t1_def Let_def)
    have "restore_modes d i (m # ms) = mode_seq m @ restore_modes d (Suc i) ms"
      using True by (simp add: m mode_seq_def and_exp_eq_0_iff_not_bit)
    then have "fold mode_step (restore_modes d i (m # ms)) t = fold mode_step (restore_modes d (Suc i) ms) t1"
      by (simp add: t1_def)
    moreover have "i \<le> j \<and> j < i + length (m # ms) \<and> bit d j \<longleftrightarrow>
        j = i \<or> (Suc i \<le> j \<and> j < Suc i + length ms \<and> bit d j)" for j
      using True by auto
    moreover have "bit (mt_diff t1) j \<longleftrightarrow> bit (mt_diff t) j \<or> j = i" for j
      using Cons.prems(2) by (auto simp: t1(3) bit_or_iff)
    ultimately show ?thesis
      using Cons.IH [OF tail _ t1(1,2)] Cons.prems(2) unfolding Let_def by simp
  qed
qed (auto simp: Let_def)

lemma Restore_scan:
  assumes "mode_inv t"
  shows "mt_diff (mode_scan (Restore t) zero_tracker) = mt_diff t \<and>
         mt_scan (mode_scan (Restore t) zero_tracker) = altGround"
proof (cases "mt_diff t = 0")
  case True
  then show ?thesis by (simp add: Restore_def zero_tracker_def mode_scan_fold)
next
  case False
  let ?d = "mt_diff t"
  define t1 where "t1 = fold mode_step (restore_modes ?d 0 trackedModes) zero_tracker"
  have len: "length trackedModes = 13" by (simp add: trackedModes_def)
  have t1: "mt_scan t1 = altGround" "\<forall>j. bit (mt_diff t1) j \<longleftrightarrow> j < 13 \<and> bit ?d j"
    using restore_modes_scan [of trackedModes 0 zero_tracker ?d] mode_seqs_set_bits
    by (auto simp: t1_def Let_def len zero_tracker_def)
  have d: "bit ?d j \<Longrightarrow> j \<le> 13" for j using assms by (simp add: mode_inv_def)
  show ?thesis
  proof (cases "bit ?d 13")
    case True
    then have "mode_scan (Restore t) zero_tracker = fold mode_step [ESC, 61] t1"
      using False by (simp add: Restore_def mode_scan_fold t1_def and_exp_eq_0_iff_not_bit
          del: fold_simps push_bit_eq_mult) (simp add: and_exp_eq_0_iff_not_bit [of _ 13, simplified])
    also have "\<dots> = t1\<lparr>mt_diff := mt_diff t1 OR 2 ^ 13\<rparr>"
      using t1(1) by (simp add: mode_step_def mode_byte_def setBit_def)
    finally have e: "mode_scan (Restore t) zero_tracker = t1\<lparr>mt_diff := mt_diff t1 OR 2 ^ 13\<rparr>" .
    have "bit (mt_diff t1 OR 2 ^ 13) j \<longleftrightarrow> bit ?d j" for j
      unfolding bit_or_iff bit_two_power
      using spec [OF t1(2), of j] True d [of j] by (cases "j = 13") auto
    then have "mt_diff t1 OR 2 ^ 13 = ?d" by (intro bit_word_eqI) simp
    then show ?thesis using t1(1) by (simp add: e)
  next
    case nokey: False
    then have "mode_scan (Restore t) zero_tracker = t1"
      using False by (simp add: Restore_def mode_scan_fold t1_def and_exp_eq_0_iff_not_bit [of _ 13, simplified])
    moreover have "bit (mt_diff t1) j \<longleftrightarrow> bit ?d j" for j
      using spec [OF t1(2), of j] nokey d [of j] by (cases "j = 13") auto
    then have "mt_diff t1 = ?d" by (intro bit_word_eqI) simp
    ultimately show ?thesis using t1(1) by simp
  qed
qed

text \<open>C27. Whatever output a program has written, and however it was split into chunks, the
  sequence sent to a client that attaches later brings a fresh terminal to the tracked modes.\<close>

theorem restore_reproduces_modes:
  "mt_diff (mode_scan (Restore (fold mode_scan ps zero_tracker)) zero_tracker) =
   mt_diff (mode_scan (concat ps) zero_tracker) \<and>
   mt_scan (mode_scan (Restore (fold mode_scan ps zero_tracker)) zero_tracker) = altGround"
  using Restore_scan [OF mode_scan_inv [OF zero_tracker_inv], of "concat ps"]
  by (simp flip: modes.scan_chunks)

section \<open>AltScreenTracker\<close>

(* internal/termui/altscreen.go:5-16 ScreenState *)
datatype ScreenState = ScreenUnknown | ScreenMain | ScreenAlt

(* internal/termui/altscreen.go:18-27 ScreenState.String *)
fun ScreenState_String :: "ScreenState \<Rightarrow> string" where
  "ScreenState_String ScreenMain = ''main''"
| "ScreenState_String ScreenAlt = ''alt''"
| "ScreenState_String ScreenUnknown = ''unknown''"

(* internal/termui/altscreen.go:41-52 AltScreenTracker *)
record AltScreenTracker =
  at_state :: ScreenState
  at_scan :: scan_state
  at_param :: nat
  at_hit :: bool
  at_invalid :: bool

(* internal/termui/altscreen.go:54-57 NewAltScreenTracker *)
definition NewAltScreenTracker :: "ScreenState \<Rightarrow> AltScreenTracker" where
  "NewAltScreenTracker initial =
     \<lparr>at_state = initial, at_scan = altGround, at_param = 0, at_hit = False, at_invalid = False\<rparr>"

(* internal/termui/altscreen.go:62-66 AltScreenTracker.Reset *)
definition alt_Reset :: "AltScreenTracker \<Rightarrow> AltScreenTracker" where
  "alt_Reset t = t\<lparr>at_state := ScreenUnknown, at_scan := altGround\<rparr>"

(* internal/termui/altscreen.go:68-68 isAltParam *)
definition isAltParam :: "nat \<Rightarrow> bool" where
  "isAltParam p \<longleftrightarrow> p = 1049 \<or> p = 1047 \<or> p = 47"

(* internal/termui/altscreen.go:113-142 AltScreenTracker.Scan *)
definition alt_byte :: "byte \<Rightarrow> AltScreenTracker \<Rightarrow> AltScreenTracker" where
  "alt_byte b t =
     (case at_scan t of
        altEsc \<Rightarrow>
          (if b = 91 then t\<lparr>at_scan := altCSI\<rparr>
           else if b = 99 then t\<lparr>at_state := ScreenMain, at_scan := altGround\<rparr>
           else t\<lparr>at_scan := altGround\<rparr>)
      | altPrivate \<Rightarrow>
          (if is_digit b then
             (if at_param t < maxParam then t\<lparr>at_param := at_param t * 10 + unat (b - 48)\<rparr> else t)
           else if b = 59 \<or> b = 58 then
             (if isAltParam (at_param t) then t\<lparr>at_hit := True, at_param := 0\<rparr> else t\<lparr>at_param := 0\<rparr>)
           else if is_intermediate b then t\<lparr>at_invalid := True\<rparr>
           else if is_final b then
             (let t1 = (if \<not> at_invalid t \<and> (at_hit t \<or> isAltParam (at_param t))
                        then (if b = 104 then t\<lparr>at_state := ScreenAlt\<rparr>
                              else if b = 108 then t\<lparr>at_state := ScreenMain\<rparr> else t)
                        else t) in
              t1\<lparr>at_scan := altGround\<rparr>)
           else t)
      | altIgnore \<Rightarrow> if is_final b then t\<lparr>at_scan := altGround\<rparr> else t
      | _ \<Rightarrow> t)"

text \<open>The loop. A byte after ESC [ that does not start a private sequence is read again in the
  state altIgnore, so the round that sees it consumes nothing.\<close>

(* internal/termui/altscreen.go:70-146 AltScreenTracker.Scan *)
function alt_scan :: "bytes \<Rightarrow> AltScreenTracker \<Rightarrow> AltScreenTracker" where
  "alt_scan p t =
     (case p of
        [] \<Rightarrow> t
      | b # bs \<Rightarrow>
          if at_scan t = altGround then
            (case from_esc p of
               [] \<Rightarrow> t
             | e # rest \<Rightarrow> alt_scan rest (t\<lparr>at_scan := altEsc\<rparr>))
          else if b = ESC then alt_scan bs (t\<lparr>at_scan := altEsc\<rparr>)
          else if b = 24 \<or> b = 26 then alt_scan bs (t\<lparr>at_scan := altGround\<rparr>)
          else if at_scan t = altCSI then
            (if b = 63
             then alt_scan bs (t\<lparr>at_scan := altPrivate, at_param := 0, at_hit := False, at_invalid := False\<rparr>)
             else alt_scan (b # bs) (t\<lparr>at_scan := altIgnore\<rparr>))
          else alt_scan bs (alt_byte b t))"
  by pat_completeness auto
termination
proof (relation "measures [\<lambda>(p, t). length p, \<lambda>(p, t). if at_scan t = altCSI then 1 else 0]", goal_cases)
  case (2 p t b bs e rest)
  then show ?case using length_from_esc [of p] by simp
qed auto

declare alt_scan.simps [simp del]

definition alt_step :: "byte \<Rightarrow> AltScreenTracker \<Rightarrow> AltScreenTracker" where
  "alt_step b t =
     (if b = ESC then t\<lparr>at_scan := altEsc\<rparr>
      else if at_scan t = altGround then t
      else if b = 24 \<or> b = 26 then t\<lparr>at_scan := altGround\<rparr>
      else if at_scan t = altCSI then
        (if b = 63 then t\<lparr>at_scan := altPrivate, at_param := 0, at_hit := False, at_invalid := False\<rparr>
         else alt_byte b (t\<lparr>at_scan := altIgnore\<rparr>))
      else alt_byte b t)"

lemma alt_step_ground: "at_scan t = altGround \<Longrightarrow> ESC \<notin> set p \<Longrightarrow> fold alt_step p t = t"
  by (induction p) (auto simp: alt_step_def)

lemma alt_scan_fold: "alt_scan p t = fold alt_step p t"
proof (induction p t rule: alt_scan.induct)
  case (1 p t)
  show ?case
  proof (cases p)
    case Nil
    then show ?thesis by (subst alt_scan.simps) simp
  next
    case (Cons b bs)
    show ?thesis
    proof (cases "at_scan t = altGround")
      case ground: True
      show ?thesis
      proof (cases rule: from_esc_cases [of p])
        case 1
        with ground have "fold alt_step p t = t" by (simp add: alt_step_ground)
        with ground Cons 1(1) show ?thesis by (subst alt_scan.simps) simp
      next
        case (2 pre rest)
        have "fold alt_step p t = fold alt_step rest (t\<lparr>at_scan := altEsc\<rparr>)"
          using ground by (simp add: 2 alt_step_ground alt_step_def)
        with 1(1) [OF Cons ground 2(1)] ground Cons 2(1) show ?thesis
          by (subst alt_scan.simps) simp
      qed
    next
      case busy: False
      have unf: "fold alt_step p t = fold alt_step bs (alt_step b t)" by (simp add: Cons)
      consider "b = ESC" | "b \<noteq> ESC" "b = 24 \<or> b = 26"
        | "b \<noteq> ESC" "\<not> (b = 24 \<or> b = 26)" "at_scan t = altCSI" "b = 63"
        | "b \<noteq> ESC" "\<not> (b = 24 \<or> b = 26)" "at_scan t = altCSI" "b \<noteq> 63"
        | "b \<noteq> ESC" "\<not> (b = 24 \<or> b = 26)" "at_scan t \<noteq> altCSI" by blast
      then show ?thesis
      proof cases
        case 1
        with "1.IH"(2) [OF Cons busy] busy Cons unf show ?thesis
          by (subst alt_scan.simps) (simp add: alt_step_def [of _ t] alt_step_def [of _ "t\<lparr>at_scan := altIgnore\<rparr>"])
      next
        case 2
        with "1.IH"(3) [OF Cons busy] busy Cons unf show ?thesis
          by (subst alt_scan.simps) (auto simp: alt_step_def [of _ t] alt_step_def [of _ "t\<lparr>at_scan := altIgnore\<rparr>"])
      next
        case 3
        with "1.IH"(4) [OF Cons busy] busy Cons unf show ?thesis
          by (subst alt_scan.simps) (simp add: alt_step_def [of _ t] alt_step_def [of _ "t\<lparr>at_scan := altIgnore\<rparr>"])
      next
        case 4
        with "1.IH"(5) [OF Cons busy 4] busy Cons unf show ?thesis
          by (subst alt_scan.simps) (simp add: alt_step_def [of _ t] alt_step_def [of _ "t\<lparr>at_scan := altIgnore\<rparr>"])
      next
        case 5
        with "1.IH"(6) [OF Cons busy] busy Cons unf show ?thesis
          by (subst alt_scan.simps) (simp add: alt_step_def [of _ t] alt_step_def [of _ "t\<lparr>at_scan := altIgnore\<rparr>"])
      qed
    qed
  qed
qed

interpretation alt: chunk_scanner alt_scan alt_step
  by unfold_locales (rule alt_scan_fold)

text \<open>C28. Both trackers agree with automata that look at one byte at a time, so neither the fast
  paths nor the boundaries at which the output was cut into chunks change what they infer.\<close>

theorem trackers_ignore_chunking:
  assumes "concat ps = concat qs"
  shows "fold mode_scan ps m = fold mode_scan qs m \<and> fold alt_scan ps a = fold alt_scan qs a \<and>
     fold mode_scan ps m = fold mode_step (concat qs) m \<and> fold alt_scan ps a = fold alt_step (concat qs) a"
  using modes.scan_rechunk [OF assms, of m] alt.scan_rechunk [OF assms, of a]
    modes.scan_chunks [of qs m] alt.scan_chunks [of qs a]
  by (simp only: mode_scan_fold alt_scan_fold)

lemma trackers_ignore_chunking_witness:
  "fold alt_scan [[27, 91], [63, 49, 48], [52, 57, 104]] (NewAltScreenTracker ScreenMain) =
   fold alt_step (concat [[27, 91, 63, 49, 48, 52, 57, 104]]) (NewAltScreenTracker ScreenMain)"
  by (rule trackers_ignore_chunking [THEN conjunct2, THEN conjunct2, THEN conjunct2]) simp

section \<open>Raw-mode output and the status line\<close>

text \<open>bytes.ReplaceAll of a line feed by CR LF.\<close>

fun replace_newlines :: "bytes \<Rightarrow> bytes" where
  "replace_newlines [] = []"
| "replace_newlines (b # bs) = (if b = 10 then [13, 10] else [b]) @ replace_newlines bs"

text \<open>The underlying Write gives its new state and an error; the count returned is that of the
  original bytes.\<close>

(* internal/termui/termui.go:13-26 CRLFWriter.Write *)
definition CRLFWriter_Write ::
  "(bytes \<Rightarrow> 'w \<Rightarrow> 'w \<times> err option) \<Rightarrow> bytes \<Rightarrow> 'w \<Rightarrow> 'w \<times> nat \<times> err option" where
  "CRLFWriter_Write wr p w =
     (case wr (replace_newlines p) w of
        (w', Some e) \<Rightarrow> (w', 0, Some e)
      | (w', None) \<Rightarrow> (w', length p, None))"

lemma replace_newlines_append: "replace_newlines (xs @ ys) = replace_newlines xs @ replace_newlines ys"
  by (induction xs) simp_all

text \<open>The status line: the time its timer fires, if one is set, and the callbacks made so far.\<close>

datatype status_call = DisplayCall string | ClearCall

(* internal/termui/termui.go:28-44 StatusManager *)
record StatusManager =
  sm_timer :: "int option"
  sm_display :: bool
  sm_clear :: bool
  sm_calls :: "status_call list"

(* internal/termui/termui.go:46-53 StatusManager.Close *)
definition sm_Close :: "StatusManager \<Rightarrow> StatusManager" where
  "sm_Close sm = sm\<lparr>sm_timer := None\<rparr>"

(* internal/termui/termui.go:55-67 StatusManager.Set *)
definition sm_Set :: "int \<Rightarrow> string \<Rightarrow> StatusManager \<Rightarrow> StatusManager" where
  "sm_Set now msg sm =
     (let sm1 = sm\<lparr>sm_timer := None\<rparr>;
          sm2 = (if sm_display sm1 then sm1\<lparr>sm_calls := sm_calls sm1 @ [DisplayCall msg]\<rparr> else sm1) in
      sm2\<lparr>sm_timer := Some (now + 3 * 1000000000)\<rparr>)"

(* internal/termui/termui.go:67-73 StatusManager.Set *)
definition sm_fire :: "int \<Rightarrow> StatusManager \<Rightarrow> StatusManager" where
  "sm_fire now sm =
     (case sm_timer sm of
        None \<Rightarrow> sm
      | Some due \<Rightarrow>
          if now < due then sm
          else (let sm1 = sm\<lparr>sm_timer := None\<rparr> in
                if sm_clear sm1 then sm1\<lparr>sm_calls := sm_calls sm1 @ [ClearCall]\<rparr> else sm1))"

end
