(* ===== verification/Transport_Types.thy ===== *)
theory Transport_Types
  imports Frames "HOL-Library.List_Lexorder" "HOL-Library.Char_ord"
begin

text \<open>
  The data shared by both ends of the transport and the session layer
  (internal/transport/transport.go): client identifiers, connection states and statistics.
\<close>

(* internal/transport/transport.go:21-30 ConnectionState *)
datatype ConnectionState = StateConnecting | StateConnected | StateRecovering | StateClosed

(* internal/transport/transport.go:32-45 ConnectionState.String *)
fun ConnectionState_String :: "ConnectionState \<Rightarrow> string" where
  "ConnectionState_String StateConnecting = ''Connecting''"
| "ConnectionState_String StateConnected = ''Connected''"
| "ConnectionState_String StateRecovering = ''Recovering''"
| "ConnectionState_String StateClosed = ''Closed''"

(* internal/transport/transport.go:59-66 ClientID *)
datatype ClientID = ClientID (cid_Session: string) (cid_Num: client_id)

text \<open>Ordered by session and number, so that sets of clients can be listed.\<close>

instantiation ClientID :: linorder
begin

definition less_eq_ClientID :: "ClientID \<Rightarrow> ClientID \<Rightarrow> bool" where
  "less_eq_ClientID a b \<longleftrightarrow>
     cid_Session a < cid_Session b \<or> (cid_Session a = cid_Session b \<and> cid_Num a \<le> cid_Num b)"

definition less_ClientID :: "ClientID \<Rightarrow> ClientID \<Rightarrow> bool" where
  "less_ClientID a b \<longleftrightarrow>
     cid_Session a < cid_Session b \<or> (cid_Session a = cid_Session b \<and> cid_Num a < cid_Num b)"

instance
  by intro_classes (auto simp: less_eq_ClientID_def less_ClientID_def ClientID.expand)

end

(* internal/transport/transport.go:68-73 Resize *)
record Resize =
  rz_Client :: ClientID
  rz_Rows :: int
  rz_Cols :: int

(* internal/transport/transport.go:75-79 Input *)
record Input =
  in_Client :: ClientID
  in_Data :: bytes

(* internal/transport/transport.go:175-191 ClientSendStat *)
record ClientSendStat =
  css_Client :: ClientID
  css_BytesSent :: nat
  css_LastSendUnix :: int
  css_SlowWrites :: nat
  css_MaxWriteMs :: nat
  css_StallEpisodes :: nat
  css_CurrentStallMs :: nat
  css_QUICRemoteAddr :: string
  css_ForwardsActive :: int
  css_ForwardsOpened :: nat
  css_ForwardBytesToTarget :: nat
  css_ForwardBytesFromTarget :: nat

end
