(* ===== verification/Go_Strings.thy ===== *)
theory Go_Strings
  imports Prelude
begin

text \<open>
  The functions of Go's strings, strconv and net packages on strings that the program uses:
  searching, prefixes, splitting, decimal conversion, and the host:port and IP address notation.
  Strings are lists of 8-bit characters.
\<close>

section \<open>Searching\<close>

text \<open>strings.IndexByte and LastIndexByte; None is -1.\<close>

fun index_byte :: "char \<Rightarrow> string \<Rightarrow> nat option" where
  "index_byte c [] = None"
| "index_byte c (d # s) = (if c = d then Some 0 else map_option Suc (index_byte c s))"

definition last_index_byte :: "char \<Rightarrow> string \<Rightarrow> nat option" where
  "last_index_byte c s = map_option (\<lambda>i. length s - 1 - i) (index_byte c (rev s))"

definition HasPrefix :: "string \<Rightarrow> string \<Rightarrow> bool" where
  "HasPrefix s p \<longleftrightarrow> prefix p s"

definition TrimPrefix :: "string \<Rightarrow> string \<Rightarrow> string" where
  "TrimPrefix s p = (if HasPrefix s p then drop (length p) s else s)"

definition HasSuffix :: "string \<Rightarrow> string \<Rightarrow> bool" where
  "HasSuffix s p \<longleftrightarrow> suffix p s"

definition Contains :: "string \<Rightarrow> string \<Rightarrow> bool" where
  "Contains s t \<longleftrightarrow> sublist t s"

lemma index_byte_None: "index_byte c s = None \<longleftrightarrow> c \<notin> set s"
  by (induction s) auto

lemma index_byte_append: "c \<notin> set s \<Longrightarrow> index_byte c (s @ c # t) = Some (length s)"
  by (induction s) auto

lemma last_index_byte_append: "c \<notin> set t \<Longrightarrow> last_index_byte c (s @ c # t) = Some (length s)"
  by (simp add: last_index_byte_def index_byte_append)

section \<open>Joining and splitting\<close>

fun Join :: "string list \<Rightarrow> string \<Rightarrow> string" where
  "Join [] sep = []"
| "Join [x] sep = x"
| "Join (x # y # xs) sep = x @ sep @ Join (y # xs) sep"

text \<open>strings.Split for a separator of one byte.\<close>

fun Split :: "char \<Rightarrow> string \<Rightarrow> string list" where
  "Split c [] = [[]]"
| "Split c (d # s) =
     (if d = c then [] # Split c s
      else (case Split c s of [] \<Rightarrow> [[d]] | x # xs \<Rightarrow> (d # x) # xs))"

definition is_space :: "char \<Rightarrow> bool" where
  "is_space c \<longleftrightarrow> c \<in> {CHR '' '', CHR 0x09, CHR 0x0A, CHR 0x0B, CHR 0x0C, CHR 0x0D}"

definition TrimSpace :: "string \<Rightarrow> string" where
  "TrimSpace s = rev (dropWhile is_space (rev (dropWhile is_space s)))"

section \<open>Decimal numbers\<close>

definition digit_char :: "char \<Rightarrow> bool" where
  "digit_char c \<longleftrightarrow> c \<in> set ''0123456789''"

definition digit_val :: "char \<Rightarrow> nat" where
  "digit_val c = (of_char c :: nat) - 48"

definition digits_val :: "string \<Rightarrow> nat" where
  "digits_val s = foldl (\<lambda>n c. n * 10 + digit_val c) 0 s"

text \<open>strconv.Atoi: an optional sign and digits, within 64 bits.\<close>

definition Atoi :: "string \<Rightarrow> int option" where
  "Atoi s =
     (let neg = (s \<noteq> [] \<and> hd s = CHR ''-'');
          ds = (if s \<noteq> [] \<and> (hd s = CHR ''-'' \<or> hd s = CHR ''+'') then tl s else s);
          v = int (digits_val ds) in
      if ds = [] \<or> \<not> list_all digit_char ds then None
      else if neg then (if v \<le> 2 ^ 63 then Some (- v) else None)
      else (if v < 2 ^ 63 then Some v else None))"

text \<open>strconv.ParseUint(s, 10, bits): digits only.\<close>

definition ParseUint :: "nat \<Rightarrow> string \<Rightarrow> nat option" where
  "ParseUint bits s =
     (if s = [] \<or> \<not> list_all digit_char s \<or> digits_val s \<ge> 2 ^ bits then None else Some (digits_val s))"

lemma digits_val_snoc [simp]: "digits_val (s @ [c]) = digits_val s * 10 + digit_val c"
  by (simp add: digits_val_def)

lemma digit_char_of [simp]: "n < 10 \<Longrightarrow> digit_char (char_of (48 + n)) \<and> digit_val (char_of (48 + n)) = n"
proof -
  assume "n < 10"
  then have "n \<in> set [0, 1, 2, 3, 4, 5, 6, 7, 8, 9]" by auto
  moreover have "list_all (\<lambda>n. digit_char (char_of (48 + n)) \<and> digit_val (char_of (48 + n)) = n)
      [0, 1, 2, 3, 4, 5, 6, 7, 8, 9 :: nat]"
    by code_simp
  ultimately show ?thesis by (simp only: list_all_iff)
qed

lemma show_nat_digits: "list_all digit_char (show_nat n) \<and> digits_val (show_nat n) = n"
proof (induction n rule: show_nat.induct)
  case (1 n)
  show ?case
  proof (cases "n < 10")
    case True
    then show ?thesis by (simp add: digits_val_def)
  next
    case False
    with 1 show ?thesis by (subst (1 2) show_nat.simps) simp
  qed
qed

lemma ParseUint_show_nat [codec_simps]: "n < 2 ^ bits \<Longrightarrow> ParseUint bits (show_nat n) = Some n"
  using show_nat_digits [of n] by (simp add: ParseUint_def)

lemma show_nat_no: "\<not> digit_char c \<Longrightarrow> c \<notin> set (show_nat n)"
  using show_nat_digits [of n] by (auto simp: list_all_iff)

section \<open>Addresses\<close>

text \<open>net.JoinHostPort and net.SplitHostPort.\<close>

definition JoinHostPort :: "string \<Rightarrow> string \<Rightarrow> string" where
  "JoinHostPort host prt =
     (if CHR '':'' \<in> set host then ''['' @ host @ '']:'' @ prt else host @ '':'' @ prt)"

definition SplitHostPort :: "string \<Rightarrow> err + string \<times> string" where
  "SplitHostPort hp =
     (case last_index_byte CHR '':'' hp of
        None \<Rightarrow> Inl (ErrorString ''missing port in address'')
      | Some i \<Rightarrow>
          let finish = (\<lambda>host j k.
                if CHR ''['' \<in> set (drop j hp) then Inl (ErrorString ''unexpected '[' in address'')
                else if CHR '']'' \<in> set (drop k hp) then Inl (ErrorString ''unexpected ']' in address'')
                else Inr (host, drop (i + 1) hp)) in
          if hd hp = CHR ''['' then
            (case index_byte CHR '']'' hp of
               None \<Rightarrow> Inl (ErrorString ''missing ']' in address'')
             | Some e \<Rightarrow>
                 if e + 1 = length hp then Inl (ErrorString ''missing port in address'')
                 else if e + 1 = i then finish (slice 1 e hp) 1 (e + 1)
                 else if hp ! (e + 1) = CHR '':'' then Inl (ErrorString ''too many colons in address'')
                 else Inl (ErrorString ''missing port in address''))
          else
            (let host = take i hp in
             if CHR '':'' \<in> set host then Inl (ErrorString ''too many colons in address'')
             else finish host 0 0))"

text \<open>The results host, _, _ of a call that ignores the error: an error gives the empty host.\<close>

definition split_host :: "string \<Rightarrow> string" where
  "split_host hp = (case SplitHostPort hp of Inl e \<Rightarrow> [] | Inr (h, p) \<Rightarrow> h)"

definition bracket_free :: "string \<Rightarrow> bool" where
  "bracket_free s \<longleftrightarrow> CHR ''['' \<notin> set s \<and> CHR '']'' \<notin> set s"

lemma SplitHostPort_Join [codec_simps]:
  assumes "bracket_free host" "bracket_free prt" "CHR '':'' \<notin> set prt"
  shows "SplitHostPort (JoinHostPort host prt) = Inr (host, prt)"
proof (cases "CHR '':'' \<in> set host")
  case False
  let ?hp = "host @ CHR '':'' # prt"
  have j: "JoinHostPort host prt = ?hp" using False by (simp add: JoinHostPort_def)
  have l: "last_index_byte CHR '':'' ?hp = Some (length host)"
    using assms(3) by (rule last_index_byte_append)
  have h: "hd ?hp \<noteq> CHR ''[''"
    using assms(1) by (cases host) (auto simp: bracket_free_def)
  show ?thesis
    using assms False h by (simp add: j SplitHostPort_def l bracket_free_def)
next
  case True
  let ?hp = "(CHR ''['' # host @ [CHR '']'']) @ CHR '':'' # prt"
  have j: "JoinHostPort host prt = ?hp" using True by (simp add: JoinHostPort_def)
  have l: "last_index_byte CHR '':'' ?hp = Some (length host + 2)"
    using last_index_byte_append [OF assms(3), of "CHR ''['' # host @ [CHR '']'']"] by simp
  have e: "index_byte CHR '']'' ?hp = Some (length host + 1)"
    using index_byte_append [of "CHR '']''" "CHR ''['' # host" "CHR '':'' # prt"] assms(1)
    by (simp add: bracket_free_def)
  show ?thesis
    unfolding j SplitHostPort_def l option.case Let_def e
    using assms by (simp add: bracket_free_def slice_def)
qed

text \<open>IP.String: dotted decimal for IPv4 (in either form), otherwise hexadecimal groups with the
  first longest run of at least two zero groups written as two colons.\<close>

definition ip_groups :: "bytes \<Rightarrow> nat list" where
  "ip_groups b = map (\<lambda>i. unat (b ! (2 * i)) * 256 + unat (b ! (2 * i + 1))) [0..<8]"

definition zero_run :: "nat list \<Rightarrow> nat \<times> nat" where
  "zero_run g = fold (\<lambda>i (s, e).
     let j = i + length (takeWhile (\<lambda>x. x = 0) (drop i g)) in
     if j - i \<ge> 2 \<and> j - i > e - s then (i, j) else (s, e)) [0..<8] (255, 255)"

fun render_groups :: "nat \<Rightarrow> nat list \<Rightarrow> nat \<Rightarrow> nat \<Rightarrow> nat \<Rightarrow> string" where
  "render_groups 0 g s e i = []"
| "render_groups (Suc n) g s e i =
     (if i \<ge> 8 then []
      else if i = s then
        (if e \<ge> 8 then ''::'' else ''::'' @ show_hex (g ! e) @ render_groups n g s e (e + 1))
      else (if i > 0 then '':'' else []) @ show_hex (g ! i) @ render_groups n g s e (i + 1))"

definition ip4_String :: "bytes \<Rightarrow> string" where
  "ip4_String b = Join (map (\<lambda>x. show_nat (unat x)) b) ''.''"

definition IP_String :: "bytes \<Rightarrow> string" where
  "IP_String b =
     (if b = [] then ''<nil>''
      else if length b = 4 then ip4_String b
      else if length b = 16 then
        (if take 12 b = replicate 10 0 @ [255, 255] then ip4_String (drop 12 b)
         else (let g = ip_groups b; (s, e) = zero_run g in render_groups 8 g s e 0))
      else ''?'' @ concat (map (\<lambda>x. show_hex_pad 2 (unat x)) b))"

end
