(* ===== verification/Session.thy ===== *)
theory Session
  imports Output_Buffer Term_Trackers Transport_Types Go_Strings "HOL-Library.AList"
begin

text \<open>
  A pty session (internal/session/session.go): its clients, the delivery of output over the
  Unix socket and QUIC, input and resizing, the gate that holds back the first output of a new
  session, exit codes and closing. Session extends the output buffer's record; every operation
  returns the new state and, where it acts on a pty, a process or the transport, the calls it
  makes. The pty's results, the transport's list of active clients, msgpack (enc) and the clock are
  arguments. A client's map entry is a pair in attach order; Go visits the map in any order, and
  every operation treats clients independently.
\<close>

section \<open>State\<close>

text \<open>The two messages a session encodes for its clients.\<close>

(* internal/proto/messages.go:166-180 OutputMsg *)
datatype server_msg =
    OutputMsg (om_SessionID: string) (om_Seq: nat) (om_Data: bytes)
  | NoteMsg (nm_Kind: string) (nm_Msg: string) (nm_ExitCode: "int option")

(* internal/session/session.go:170-179 Client *)
record Client =
  cl_ID :: string
  OutCh :: "bytes list"
  cl_Done :: bool
  QUICClientID :: client_id
  cl_Protocol :: string
  cl_RemoteAddr :: string

definition outch_cap :: nat where
  "outch_cap = 1000"

text \<open>Absent times are None (the zero time). st, ptyMaster and proc record whether the pointer
  is set, quicReadyCh and done whether the channel is closed.\<close>

(* internal/session/session.go:71-161 Session *)
record Session = out_buffer +
  ID :: string
  Name :: string
  Cmd :: string
  Rows :: int
  Cols :: int
  CreatedAt :: time
  clients :: "(string \<times> Client) list"
  clientIDSeed :: nat
  st :: bool
  usesSharedTransport :: bool
  quicEnabled :: bool
  quicPort :: int
  quicKey :: bytes
  quicClientIDsOut :: "client_id list"
  agentSockPath :: "string option"
  quicReady :: bool
  quicReadyCh :: bool
  quicUDSInfoReceived :: bool
  quicTransportConnected :: bool
  done_closed :: bool
  closeOnce :: bool
  ptyMaster :: bool
  proc :: bool
  ptyClosed :: bool
  ptyClosedAt :: "time option"
  exitCode :: int
  lastDetachedAt :: "time option"
  lastOutputAt :: "time option"
  lastInputAt :: "time option"
  termModes :: ModeTracker

text \<open>What a session does to the transport, the pty and the process.\<close>

datatype session_act =
    SendOutput nat bytes "ClientID list"
  | SendSessionGone ClientID string int
  | CancelTransport
  | CloseTransport
  | CloseAgent string
  | ClosePty
  | KillProc
  | Setsize "16 word" "16 word"
  | SignalWinch
  | PtyWrite bytes
  | GoFlushColdPending
  | GoDroppedNotice string nat

section \<open>Creation\<close>

text \<open>The transport of a session: the manager's shared one, or a new listener, on the fixed port
  if one is asked for and free. The results are those of rand.Read, qtransport.NewServer (the port
  of its address, None when it has no UDP address) and Start.\<close>

(* internal/session/session.go:422-463 Session.adoptPerSessionTransport *)
definition adoptPerSessionTransport ::
  "err option \<Rightarrow> int \<Rightarrow> bytes \<Rightarrow> Session \<Rightarrow> err + Session" where
  "adoptPerSessionTransport startErr port key s =
     (case startErr of
        Some e \<Rightarrow> Inl (Wrapped ''failed to start QUIC transport'' e)
      | None \<Rightarrow> Inr (s\<lparr>st := True, quicEnabled := True, quicPort := port, quicKey := key\<rparr>))"

(* internal/session/session.go:371-420 Session.startQUICTransport *)
definition startQUICTransport ::
  "(int \<times> bytes) option \<Rightarrow> (err + bytes) \<Rightarrow> (string \<Rightarrow> err + int option) \<Rightarrow> err option \<Rightarrow> int \<Rightarrow>
   Session \<Rightarrow> err + Session" where
  "startQUICTransport shared rnd newServer startErr fixedPort s =
     (case shared of
        Some (port, key) \<Rightarrow>
          Inr (s\<lparr>st := True, usesSharedTransport := True, quicEnabled := True, quicPort := port, quicKey := key\<rparr>)
      | None \<Rightarrow>
          (case rnd of
             Inl e \<Rightarrow> Inl (Wrapped ''failed to generate shared key'' e)
           | Inr sharedKey \<Rightarrow>
               let listenAddr = (if fixedPort > 0 then '':'' @ show_int fixedPort else '':0'');
                   r = newServer listenAddr;
                   r = (case r of
                          Inl _ \<Rightarrow> if fixedPort > 0 then newServer '':0'' else r
                        | Inr _ \<Rightarrow> r) in
               (case r of
                  Inl e \<Rightarrow> Inl (Wrapped ''failed to create QUIC transport'' e)
                | Inr None \<Rightarrow> Inl (ErrorString ''failed to get QUIC listen address'')
                | Inr (Some port) \<Rightarrow> adoptPerSessionTransport startErr port sharedKey s)))"

(* internal/session/session.go:314-336 NewSession *)
definition session0 :: "string \<Rightarrow> string \<Rightarrow> int \<Rightarrow> int \<Rightarrow> string option \<Rightarrow> time \<Rightarrow> Session" where
  "session0 sid cmd rows cols agent now =
     \<lparr>sq = 0, outputChunks = [], outputBufferBytes = 0, coldPending = [], coldPendingBytes = 0,
      coldFlushing = False, coldSegments = [], coldBytes = 0, coldRawBytes = 0,
      ID = sid, Name = '''', Cmd = cmd, Rows = rows, Cols = cols, CreatedAt = now, clients = [], clientIDSeed = 0,
      st = False, usesSharedTransport = False, quicEnabled = False, quicPort = 0, quicKey = [],
      quicClientIDsOut = [], agentSockPath = agent, quicReady = True, quicReadyCh = False,
      quicUDSInfoReceived = False, quicTransportConnected = False, done_closed = False,
      closeOnce = False, ptyMaster = False, proc = False, ptyClosed = False, ptyClosedAt = None,
      exitCode = -1, lastDetachedAt = None, lastOutputAt = None, lastInputAt = None,
      termModes = zero_tracker\<rparr>"

text \<open>The command that cannot be found is reported before anything is started; a transport that
  fails leaves a session without QUIC. agentOK is the daemon's policy, bind the socket's result.\<close>

(* internal/session/session.go:242-349 NewSession *)
definition NewSession ::
  "err option \<Rightarrow> bool \<Rightarrow> (err + string) \<Rightarrow> (Session \<Rightarrow> err + Session) \<Rightarrow>
   string \<Rightarrow> string \<Rightarrow> int \<Rightarrow> int \<Rightarrow> bool \<Rightarrow> time \<Rightarrow> err + Session" where
  "NewSession cmdErr agentOK bind transport sid cmd rows cols agentForward now =
     (case cmdErr of
        Some e \<Rightarrow> Inl e
      | None \<Rightarrow>
          let agent = (if agentForward \<and> agentOK
                       then (case bind of Inl _ \<Rightarrow> None | Inr path \<Rightarrow> Some path) else None);
              s = session0 sid cmd rows cols agent now in
          (case transport s of
             Inl _ \<Rightarrow> Inr (s\<lparr>quicEnabled := False\<rparr>)
           | Inr s' \<Rightarrow> Inr s'))"

(* internal/session/session.go:351-369 Session.StartProcess *)
definition StartProcess :: "err option \<Rightarrow> err option \<Rightarrow> Session \<Rightarrow> err + Session" where
  "StartProcess startErr sizeErr s =
     (case startErr of
        Some e \<Rightarrow> Inl (Wrapped ''failed to start pty'' e)
      | None \<Rightarrow>
          (case sizeErr of
             Some e \<Rightarrow> Inl (Wrapped ''failed to resize pty'' e)
           | None \<Rightarrow> Inr (s\<lparr>ptyMaster := True, proc := True\<rparr>)))"

section \<open>Channels of attached clients\<close>

text \<open>A send that does not block: False when the channel is full.\<close>

definition offer :: "bytes \<Rightarrow> Client \<Rightarrow> Client \<times> bool" where
  "offer b c = (if length (OutCh c) < outch_cap then (c\<lparr>OutCh := OutCh c @ [b]\<rparr>, True) else (c, False))"

text \<open>The writer goroutine of the client's connection takes the oldest message.\<close>

definition take_out :: "string \<Rightarrow> Session \<Rightarrow> Session \<times> bytes option" where
  "take_out k s =
     (case map_of (clients s) k of
        None \<Rightarrow> (s, None)
      | Some c \<Rightarrow>
          (case OutCh c of
             [] \<Rightarrow> (s, None)
           | b # bs \<Rightarrow> (s\<lparr>clients := AList.update k (c\<lparr>OutCh := bs\<rparr>) (clients s)\<rparr>, Some b)))"

section \<open>End of the process\<close>

text \<open>What Wait reports: an exit status, a signal, or neither; None within three seconds leaves
  the code as it was.\<close>

datatype proc_state = Exited int | Signaled nat | OtherState

(* internal/session/session.go:641-690 Session.reapProcess *)
definition reapProcess :: "proc_state option option \<Rightarrow> Session \<Rightarrow> Session" where
  "reapProcess wait s =
     (if \<not> proc s then s
      else (case wait of
              None \<Rightarrow> s
            | Some ps \<Rightarrow>
                s\<lparr>exitCode := (case ps of
                                None \<Rightarrow> -1
                              | Some (Exited c) \<Rightarrow> c
                              | Some (Signaled sig) \<Rightarrow> 128 + int sig
                              | Some OtherState \<Rightarrow> -1)\<rparr>))"

(* internal/session/session.go:831-863 Session.notifySessionClosed *)
definition notifySessionClosed :: "(server_msg \<Rightarrow> err + bytes) \<Rightarrow> Session \<Rightarrow> Session" where
  "notifySessionClosed enc s =
     (let code = exitCode s;
          noteMsg = NoteMsg ''SESSION_CLOSED'' ''PTY session has ended'' (if code \<ge> 0 then Some code else None) in
      (case enc noteMsg of
         Inl _ \<Rightarrow> s
       | Inr b \<Rightarrow> s\<lparr>clients := map (\<lambda>(k, c). (k, fst (offer b c))) (clients s)\<rparr>))"

section \<open>Output\<close>

text \<open>The critical section of handlePTYOutput: number, keep and scan the chunk, then evict. The
  clock is read once for the chunk and once for the eviction. The flag says a background
  compression is to be started.\<close>

(* internal/session/session.go:865-916 Session.handlePTYOutput *)
definition handle_locked :: "time \<Rightarrow> time \<Rightarrow> bytes \<Rightarrow> Session \<Rightarrow> Session \<times> bool" where
  "handle_locked now now' data s =
     (let s1 = append_output now data s;
          s2 = s1\<lparr>termModes := mode_scan data (termModes s1), lastOutputAt := Some now\<rparr> in
      evictOutputChunksLocked now' s2)"

text \<open>The lists copied under the lock: attached clients and the QUIC targets.\<close>

definition out_targets :: "Session \<Rightarrow> string list \<times> ClientID list" where
  "out_targets s = (map fst (clients s), map (ClientID (ID s)) (quicClientIDsOut s))"

text \<open>After the lock: the QUIC fan-out, then the clients on the Unix socket unless output is held
  back or the client has its own active QUIC connection. active is ActiveClients; names are the
  attached clients of the copy, of which those detached meanwhile no longer have a reader.\<close>

definition uds_target :: "ClientID list \<Rightarrow> string list \<Rightarrow> Session \<Rightarrow> string \<times> Client \<Rightarrow> bool" where
  "uds_target active names s kc \<longleftrightarrow>
     fst kc \<in> set names \<and> quicReady s \<and>
     \<not> (QUICClientID (snd kc) \<noteq> 0 \<and>
        (st s \<and> ClientID (ID s) (QUICClientID (snd kc)) \<in> set active))"

(* internal/session/session.go:925-988 Session.handlePTYOutput *)
definition handle_deliver ::
  "(server_msg \<Rightarrow> err + bytes) \<Rightarrow> ClientID list \<Rightarrow> nat \<Rightarrow> bytes \<Rightarrow> string list \<times> ClientID list \<Rightarrow>
   Session \<Rightarrow> Session \<times> session_act list" where
  "handle_deliver enc active seq data targets s =
     (let (names, udp) = targets;
          quic = (if st s \<and> udp \<noteq> [] then [SendOutput seq data udp] else []);
          uds = filter (uds_target active names s) (clients s) in
      if uds = [] then (s, quic)
      else
        (case enc (OutputMsg (ID s) seq data) of
           Inl _ \<Rightarrow> (s, quic)
         | Inr b \<Rightarrow>
             (s\<lparr>clients := map (\<lambda>kc. if uds_target active names s kc then (fst kc, fst (offer b (snd kc))) else kc)
                 (clients s)\<rparr>,
              quic @ map (\<lambda>kc. GoDroppedNotice (fst kc) seq) (filter (\<lambda>kc. \<not> snd (offer b (snd kc))) uds))))"

(* internal/session/session.go:865-988 Session.handlePTYOutput *)
definition handlePTYOutput ::
  "(server_msg \<Rightarrow> err + bytes) \<Rightarrow> ClientID list \<Rightarrow> time \<Rightarrow> time \<Rightarrow> bytes \<Rightarrow> Session \<Rightarrow>
   Session \<times> session_act list" where
  "handlePTYOutput enc active now now' data s =
     (if data = [] then (s, [])
      else
        let (s1, needColdFlush) = handle_locked now now' data s;
            (s2, acts) = handle_deliver enc active (sq s1) data (out_targets s1) s1 in
        (s2, (if needColdFlush then [GoFlushColdPending] else []) @ acts))"

(* internal/session/session.go:990-1019 Session.sendOutputDroppedNotification *)
definition sendOutputDroppedNotification ::
  "(server_msg \<Rightarrow> err + bytes) \<Rightarrow> string \<Rightarrow> nat \<Rightarrow> Session \<Rightarrow> Session" where
  "sendOutputDroppedNotification enc k droppedSeq s =
     (case map_of (clients s) k of
        None \<Rightarrow> s
      | Some c \<Rightarrow>
          (case enc (NoteMsg ''OUTPUT_DROPPED'' (''dropped output at seq='' @ show_nat droppedSeq) None) of
             Inl _ \<Rightarrow> s
           | Inr b \<Rightarrow> s\<lparr>clients := AList.update k (fst (offer b c)) (clients s)\<rparr>))"

section \<open>Attaching and detaching\<close>

(* internal/session/session.go:1031-1056 Session.AttachClient *)
definition AttachClient :: "string \<Rightarrow> string \<Rightarrow> client_id \<Rightarrow> Session \<Rightarrow> Session \<times> string" where
  "AttachClient protocol remoteAddr quicClientID s =
     (let seed = clientIDSeed s + 1;
          clientID = ''client-'' @ show_nat seed;
          client = \<lparr>cl_ID = clientID, OutCh = [], cl_Done = False, QUICClientID = quicClientID,
                    cl_Protocol = protocol, cl_RemoteAddr = remoteAddr\<rparr> in
      (s\<lparr>clientIDSeed := seed, clients := clients s @ [(clientID, client)]\<rparr>, clientID))"

text \<open>sendBufferedOutput copies the chunks under the lock and then sends them one by one, each
  send waiting for room unless the client detaches. replay_send is one of these sends: None while
  it waits.\<close>

(* internal/session/session.go:1059-1071 Session.sendBufferedOutput *)
definition replay_chunks :: "nat \<Rightarrow> 'a out_buffer_scheme \<Rightarrow> OutputChunk list" where
  "replay_chunks fromSeq s = filter (\<lambda>c. Seq c \<ge> fromSeq) (outputChunks s)"

(* internal/session/session.go:1073-1093 Session.sendBufferedOutput *)
definition replay_send ::
  "(server_msg \<Rightarrow> err + bytes) \<Rightarrow> string \<Rightarrow> OutputChunk list \<Rightarrow> Session \<Rightarrow>
   (Session \<times> OutputChunk list) option" where
  "replay_send enc k chunks s =
     (case chunks of
        [] \<Rightarrow> None
      | chunk # rest \<Rightarrow>
          (case enc (OutputMsg (ID s) (Seq chunk) (Data chunk)) of
             Inl _ \<Rightarrow> Some (s, rest)
           | Inr b \<Rightarrow>
               (case map_of (clients s) k of
                  None \<Rightarrow> Some (s, [])
                | Some c \<Rightarrow>
                    if snd (offer b c)
                    then Some (s\<lparr>clients := AList.update k (fst (offer b c)) (clients s)\<rparr>, rest)
                    else None)))"

(* internal/session/session.go:1115-1131 Session.DetachClient *)
definition DetachClient :: "time \<Rightarrow> string \<Rightarrow> Session \<Rightarrow> Session" where
  "DetachClient now k s =
     (case map_of (clients s) k of
        None \<Rightarrow> s
      | Some _ \<Rightarrow>
          let cs = AList.delete k (clients s);
              s1 = s\<lparr>clients := cs\<rparr> in
          if cs = [] then s1\<lparr>lastDetachedAt := Some now\<rparr> else s1)"

section \<open>Input and size\<close>

(* internal/session/session.go:1133-1155 Session.WriteInput *)
definition WriteInput :: "err option \<Rightarrow> time \<Rightarrow> bytes \<Rightarrow> Session \<Rightarrow> Session \<times> session_act list \<times> err option" where
  "WriteInput result now data s =
     (if ptyClosed s \<or> \<not> ptyMaster s then (s, [], Some (ErrorString ''PTY has been closed''))
      else
        (case result of
           Some e \<Rightarrow> (s, [PtyWrite data], Some e)
         | None \<Rightarrow> (s\<lparr>lastInputAt := Some now\<rparr>, [PtyWrite data], None)))"

(* internal/session/session.go:1157-1188 Session.Resize *)
definition Resize :: "err option \<Rightarrow> int \<Rightarrow> int \<Rightarrow> Session \<Rightarrow> Session \<times> session_act list \<times> err option" where
  "Resize result rows cols s =
     (if ptyClosed s \<or> \<not> ptyMaster s then (s, [], None)
      else
        (case result of
           Some e \<Rightarrow> (s, [Setsize (word_of_int rows) (word_of_int cols)], Some e)
         | None \<Rightarrow>
             (s\<lparr>Rows := rows, Cols := cols\<rparr>,
              Setsize (word_of_int rows) (word_of_int cols) # (if proc s then [SignalWinch] else []), None)))"

(* internal/session/session.go:1190-1197 Session.Size *)
definition Size :: "Session \<Rightarrow> int \<times> int" where
  "Size s = (Rows s, Cols s)"

text \<open>RequestRedraw reads the size and then shrinks the terminal and restores it 50 ms later, two
  calls of Resize between which other operations can run.\<close>

(* internal/session/session.go:1095-1113 Session.RequestRedraw *)
definition redraw_begin :: "err option \<Rightarrow> Session \<Rightarrow> (Session \<times> session_act list) \<times> (int \<times> int) option" where
  "redraw_begin result s =
     (let rows = Rows s; cols = Cols s in
      if \<not> ptyClosed s \<and> cols > 1
      then (let (s1, acts, _) = Resize result rows (cols - 1) s in ((s1, acts), Some (rows, cols)))
      else ((s, []), None))"

(* internal/session/session.go:1108-1113 Session.RequestRedraw *)
definition redraw_end :: "err option \<Rightarrow> (int \<times> int) option \<Rightarrow> Session \<Rightarrow> Session \<times> session_act list" where
  "redraw_end result saved s =
     (case saved of
        None \<Rightarrow> (s, [])
      | Some (rows, cols) \<Rightarrow> (let (s1, acts, _) = Resize result rows cols s in (s1, acts)))"

section \<open>The gate of a new session\<close>

(* internal/session/session.go:1501-1509 Session.signalQuicReadyLocked *)
definition signalQuicReadyLocked :: "Session \<Rightarrow> Session" where
  "signalQuicReadyLocked s =
     (let s1 = s\<lparr>quicReady := True\<rparr> in
      if quicReadyCh s1 then s1 else s1\<lparr>quicReadyCh := True\<rparr>)"

(* internal/session/session.go:1457-1484 Session.RegisterQUICClient *)
definition RegisterQUICClient :: "client_id \<Rightarrow> Session \<Rightarrow> err + Session" where
  "RegisterQUICClient clientID s =
     (if \<not> st s then Inl (ErrorString ''transport not enabled'')
      else if clientID \<in> set (quicClientIDsOut s) then Inr s
      else
        let wasEmpty = (quicClientIDsOut s = []);
            s1 = s\<lparr>quicClientIDsOut := quicClientIDsOut s @ [clientID]\<rparr> in
        if wasEmpty then
          let s2 = s1\<lparr>quicUDSInfoReceived := True\<rparr> in
          Inr (if quicTransportConnected s2 then signalQuicReadyLocked s2 else s2)
        else Inr s1)"

(* internal/session/session.go:1486-1499 Session.OnQUICClientConnected *)
definition OnQUICClientConnected :: "Session \<Rightarrow> Session" where
  "OnQUICClientConnected s =
     (if quicTransportConnected s then s
      else
        let s1 = s\<lparr>quicTransportConnected := True\<rparr> in
        if quicUDSInfoReceived s1 then signalQuicReadyLocked s1 else s1)"

(* internal/session/session.go:1511-1517 Session.BeginQuicPendingMode *)
definition BeginQuicPendingMode :: "Session \<Rightarrow> Session" where
  "BeginQuicPendingMode s = s\<lparr>quicReady := False\<rparr>"

section \<open>Closing\<close>

text \<open>Close runs once. Its first part closes done, tells the QUIC clients, and closes a transport
  of its own and the agent socket; the second marks the pty closed under the lock, where Resize
  looks; the third closes the pty and kills the process outside it.\<close>

(* internal/session/session.go:1545-1562 Session.Close *)
definition gone_messages :: "Session \<Rightarrow> session_act list" where
  "gone_messages s =
     (if st s then
        let reason = (if ptyClosed s then ''SESSION_CLOSED: PTY session has ended''
                      else ''NO_SUCH_SESSION: session closed'');
            code = (if ptyClosed s then exitCode s else -1) in
        map (\<lambda>num. SendSessionGone (ClientID (ID s) num) reason code) (quicClientIDsOut s)
      else [])"

(* internal/session/session.go:1541-1574 Session.Close *)
definition close_begin :: "Session \<Rightarrow> Session \<times> session_act list" where
  "close_begin s =
     (s\<lparr>closeOnce := True, done_closed := True\<rparr>,
      gone_messages s
      @ (if st s \<and> \<not> usesSharedTransport s then [CancelTransport, CloseTransport] else [])
      @ (case agentSockPath s of None \<Rightarrow> [] | Some p \<Rightarrow> [CloseAgent p]))"

(* internal/session/session.go:1575-1584 Session.Close *)
definition close_mark :: "time \<Rightarrow> Session \<Rightarrow> Session" where
  "close_mark now s = (if ptyClosed s then s else s\<lparr>ptyClosed := True, ptyClosedAt := Some now\<rparr>)"

(* internal/session/session.go:1585-1591 Session.Close *)
definition close_fd :: "Session \<Rightarrow> session_act list" where
  "close_fd s = (if ptyMaster s then [ClosePty] else []) @ (if proc s then [KillProc] else [])"

(* internal/session/session.go:1541-1593 Session.Close *)
definition Close :: "time \<Rightarrow> Session \<Rightarrow> Session \<times> session_act list" where
  "Close now s =
     (if closeOnce s then (s, [])
      else
        let (s1, acts) = close_begin s;
            s2 = close_mark now s1 in
        (s2, acts @ close_fd s2))"

(* internal/session/session.go:600-613 Session.ptyReader *)
definition pty_mark_closed :: "time \<Rightarrow> Session \<Rightarrow> Session" where
  "pty_mark_closed now s = s\<lparr>ptyClosed := True, ptyClosedAt := Some now\<rparr>"

(* internal/session/session.go:598-639 Session.ptyReader *)
definition pty_end ::
  "(server_msg \<Rightarrow> err + bytes) \<Rightarrow> proc_state option option \<Rightarrow> time \<Rightarrow> time \<Rightarrow> Session \<Rightarrow>
   Session \<times> session_act list" where
  "pty_end enc wait now now' s =
     Close now' (notifySessionClosed enc (reapProcess wait (pty_mark_closed now s)))"

section \<open>Information\<close>

(* internal/session/session.go:1211-1232 Session.GetClientCount *)
definition GetClientCount :: "ClientID list \<Rightarrow> Session \<Rightarrow> nat" where
  "GetClientCount active s =
     (let tcpCount = length (clients s);
          udpCount = (if st s then length (filter (\<lambda>cid. cid_Session cid = ID s) active) else 0) in
      if udpCount > tcpCount then udpCount else tcpCount)"

(* internal/session/session.go:1234-1240 ClientInfo *)
record ClientInfo =
  ci_ID :: string
  ci_Protocol :: string
  ci_RemoteAddr :: string
  ci_QUICClientID :: client_id

(* internal/session/session.go:1242-1288 Session.GetClientInfos *)
definition GetClientInfos :: "ClientID list \<Rightarrow> Session \<Rightarrow> ClientInfo list" where
  "GetClientInfos active s =
     (let seen = filter (\<lambda>n. n \<noteq> 0) (map (\<lambda>kc. QUICClientID (snd kc)) (clients s));
          uds = map (\<lambda>(k, c). \<lparr>ci_ID = cl_ID c, ci_Protocol = cl_Protocol c,
                              ci_RemoteAddr = cl_RemoteAddr c, ci_QUICClientID = QUICClientID c\<rparr>) (clients s);
          quic = (if st s
                  then map (\<lambda>cid. \<lparr>ci_ID = ''quic-'' @ show_nat (unat (cid_Num cid)), ci_Protocol = ''QUIC'',
                                    ci_RemoteAddr = '''', ci_QUICClientID = cid_Num cid\<rparr>)
                         (filter (\<lambda>cid. cid_Session cid = ID s \<and> cid_Num cid \<notin> set seen) active)
                  else []) in
      uds @ quic)"

(* internal/session/session.go:1332-1354 Session.GetBufferedOutput *)
definition GetBufferedOutput :: "'a out_buffer_scheme \<Rightarrow> bytes" where
  "GetBufferedOutput s = concat (map Data (outputChunks s))"

(* internal/session/session.go:1356-1364 OutputBufferStats *)
record OutputBufferStats =
  obs_ChunkCount :: nat
  obs_TotalBytes :: int
  obs_ColdSegments :: nat
  obs_ColdBytes :: int
  obs_ColdRawBytes :: int
  obs_OldestChunkTime :: "time option"

(* internal/session/session.go:1366-1389 Session.GetOutputBufferStats *)
definition GetOutputBufferStats :: "'a out_buffer_scheme \<Rightarrow> OutputBufferStats" where
  "GetOutputBufferStats s =
     \<lparr>obs_ChunkCount = length (outputChunks s),
      obs_TotalBytes = outputBufferBytes s + coldPendingBytes s,
      obs_ColdSegments = length (coldSegments s), obs_ColdBytes = coldBytes s,
      obs_ColdRawBytes = coldRawBytes s,
      obs_OldestChunkTime =
        (case coldSegments s of
           seg # _ \<Rightarrow> Some (oldestTime seg)
         | [] \<Rightarrow>
             (case coldPending s of
                c # _ \<Rightarrow> Some (Timestamp c)
              | [] \<Rightarrow> (case outputChunks s of c # _ \<Rightarrow> Some (Timestamp c) | [] \<Rightarrow> None)))\<rparr>"

(* internal/session/session.go:1391-1408 ClientSendBufferStats *)
record ClientSendBufferStats =
  cb_ClientID :: client_id
  cb_TotalBytes :: int
  cb_LastSeen :: "time option"
  cb_SlowWrites :: nat
  cb_MaxWriteMs :: nat
  cb_StallEpisodes :: nat
  cb_CurrentStallMs :: nat
  cb_QUICRemoteAddr :: string
  cb_ForwardsActive :: int
  cb_ForwardsOpened :: nat
  cb_ForwardBytesToTarget :: nat
  cb_ForwardBytesFromTarget :: nat

(* internal/session/session.go:1410-1441 Session.GetClientSendBufferStats *)
definition GetClientSendBufferStats :: "ClientSendStat list \<Rightarrow> Session \<Rightarrow> ClientSendBufferStats list" where
  "GetClientSendBufferStats stats s =
     (if \<not> st s then []
      else
        map (\<lambda>x. \<lparr>cb_ClientID = cid_Num (css_Client x),
                  cb_TotalBytes = signed_take_bit 63 (int (css_BytesSent x)),
                  cb_LastSeen = (if css_LastSendUnix x \<noteq> 0 then Some (css_LastSendUnix x * second) else None),
                  cb_SlowWrites = css_SlowWrites x, cb_MaxWriteMs = css_MaxWriteMs x,
                  cb_StallEpisodes = css_StallEpisodes x, cb_CurrentStallMs = css_CurrentStallMs x,
                  cb_QUICRemoteAddr = css_QUICRemoteAddr x, cb_ForwardsActive = css_ForwardsActive x,
                  cb_ForwardsOpened = css_ForwardsOpened x,
                  cb_ForwardBytesToTarget = css_ForwardBytesToTarget x,
                  cb_ForwardBytesFromTarget = css_ForwardBytesFromTarget x\<rparr>)
          (filter (\<lambda>x. cid_Session (css_Client x) = ID s) stats))"

end
