(* ===== verification/Session_Props.thy ===== *)
theory Session_Props
  imports Session
begin

text \<open>
  Correctness of a session: events for the critical sections that other goroutines can see, runs of
  them in any order, and what holds after every run. The background compression in flight and the
  progress of Close are part of the configuration, because other events fall in between.
\<close>

section \<open>Frames\<close>

text \<open>The buffer's operations leave every field of the session proper alone.\<close>

lemma session_more:
  assumes "out_buffer.more s = out_buffer.more (s' :: Session)"
  shows "ID s = ID s'" "Name s = Name s'" "Cmd s = Cmd s'" "Rows s = Rows s'" "Cols s = Cols s'" "clients s = clients s'"
    "clientIDSeed s = clientIDSeed s'" "st s = st s'" "usesSharedTransport s = usesSharedTransport s'"
    "quicClientIDsOut s = quicClientIDsOut s'" "agentSockPath s = agentSockPath s'"
    "quicReady s = quicReady s'" "quicReadyCh s = quicReadyCh s'"
    "quicUDSInfoReceived s = quicUDSInfoReceived s'" "quicTransportConnected s = quicTransportConnected s'"
    "done_closed s = done_closed s'" "closeOnce s = closeOnce s'" "ptyMaster s = ptyMaster s'"
    "proc s = proc s'" "ptyClosed s = ptyClosed s'" "ptyClosedAt s = ptyClosedAt s'"
    "exitCode s = exitCode s'" "lastDetachedAt s = lastDetachedAt s'" "lastOutputAt s = lastOutputAt s'"
    "lastInputAt s = lastInputAt s'" "termModes s = termModes s'"
  using assms by (cases s; cases s'; simp)+

lemma evict_more [simp]: "out_buffer.more (fst (evictOutputChunksLocked now s)) = out_buffer.more s"
  by (simp add: evictOutputChunksLocked_def evictColdPendingLocked_def Let_def)

lemma append_more [simp]: "out_buffer.more (append_output now data s) = out_buffer.more s"
  by (cases s) (simp add: append_output_def Let_def)

lemma flush_begin_more [simp]: "out_buffer.more (fst (flush_begin s)) = out_buffer.more s"
  by (cases s) (simp add: flush_begin_def)

lemma flush_finish_more [simp]: "out_buffer.more (flush_finish deflate b s) = out_buffer.more s"
  by (cases s) (simp add: flush_finish_def Let_def split: sum.split)

lemmas evict_session = session_more [OF evict_more]
lemmas append_session = session_more [OF append_more]
lemmas flush_session = session_more [OF flush_begin_more] session_more [OF flush_finish_more]

text \<open>And the buffer's invariant looks at the buffer only.\<close>

lemma buf_inv_cong:
  "out_buffer.truncate s = out_buffer.truncate s' \<Longrightarrow> buf_inv inflate s = buf_inv inflate s'"
  by (cases s; cases s')
    (simp add: out_buffer.truncate_def buf_inv_def counters_ok_def log_ok_def retained_def raw_retained_def)

lemma inflight_cong:
  "out_buffer.truncate s = out_buffer.truncate s' \<Longrightarrow> inflight_ok s b = inflight_ok s' b"
  by (cases s; cases s') (simp add: out_buffer.truncate_def inflight_ok_def split: option.split)

section \<open>Events\<close>

text \<open>The read buffer of ptyReader holds 64 KiB, so no chunk is longer.\<close>

(* internal/session/session.go:615-619 Session.ptyReader *)
definition pty_buf_size :: nat where
  "pty_buf_size = 64 * 1024"

datatype session_event =
    EvOutput time time bytes
  | EvDeliver "ClientID list" nat bytes "string list \<times> ClientID list"
  | EvDropped string nat
  | EvFlushBegin
  | EvFlushFinish
  | EvStale time
  | EvAttach string string client_id
  | EvReplay string "OutputChunk list"
  | EvTake string
  | EvDetach time string
  | EvInput "err option" time bytes
  | EvResize "err option" int int
  | EvRegister client_id
  | EvConnected
  | EvStart "err option" "err option"
  | EvPtyClosed time
  | EvReap "proc_state option option"
  | EvNotify
  | EvCloseBegin
  | EvCloseMark time
  | EvCloseFd

text \<open>A configuration: the session, the batch being compressed, and how far Close has come (0 not
  called, 1 begun, 2 marked, 3 finished). An event that is not possible changes nothing.\<close>

record session_config =
  sess :: Session
  batch :: "OutputChunk list option"
  close_pc :: nat

definition put :: "session_config \<Rightarrow> Session \<Rightarrow> session_config" where
  "put c s = c\<lparr>sess := s\<rparr>"

fun session_do ::
  "(server_msg \<Rightarrow> err + bytes) \<Rightarrow> (bytes \<Rightarrow> err + bytes) \<Rightarrow> session_event \<Rightarrow> session_config \<Rightarrow>
   session_config \<times> session_act list" where
  "session_do enc deflate (EvOutput now now' data) c =
     (if data = [] \<or> length data > pty_buf_size then (c, [])
      else (put c (fst (handle_locked now now' data (sess c))), []))"
| "session_do enc deflate (EvDeliver active seq data targets) c =
     (case handle_deliver enc active seq data targets (sess c) of (s, acts) \<Rightarrow> (put c s, acts))"
| "session_do enc deflate (EvDropped k seq) c = (put c (sendOutputDroppedNotification enc k seq (sess c)), [])"
| "session_do enc deflate EvFlushBegin c =
     (if batch c \<noteq> None then (c, [])
      else (case flush_begin (sess c) of (s, b) \<Rightarrow> (c\<lparr>sess := s, batch := b\<rparr>, [])))"
| "session_do enc deflate EvFlushFinish c =
     (case batch c of
        None \<Rightarrow> (c, [])
      | Some b \<Rightarrow> (c\<lparr>sess := flush_finish deflate b (sess c), batch := None\<rparr>, []))"
| "session_do enc deflate (EvStale now) c = (put c (fst (evict_stale_locked now (sess c))), [])"
| "session_do enc deflate (EvAttach protocol addr q) c = (put c (fst (AttachClient protocol addr q (sess c))), [])"
| "session_do enc deflate (EvReplay k chunks) c =
     (case replay_send enc k chunks (sess c) of None \<Rightarrow> (c, []) | Some (s, _) \<Rightarrow> (put c s, []))"
| "session_do enc deflate (EvTake k) c = (put c (fst (take_out k (sess c))), [])"
| "session_do enc deflate (EvDetach now k) c = (put c (DetachClient now k (sess c)), [])"
| "session_do enc deflate (EvInput r now data) c =
     (case WriteInput r now data (sess c) of (s, acts, _) \<Rightarrow> (put c s, acts))"
| "session_do enc deflate (EvResize r rows cols) c =
     (case Resize r rows cols (sess c) of (s, acts, _) \<Rightarrow> (put c s, acts))"
| "session_do enc deflate (EvRegister n) c =
     (case RegisterQUICClient n (sess c) of Inl _ \<Rightarrow> (c, []) | Inr s \<Rightarrow> (put c s, []))"
| "session_do enc deflate EvConnected c = (put c (OnQUICClientConnected (sess c)), [])"
| "session_do enc deflate (EvStart e1 e2) c =
     (if ptyMaster (sess c) then (c, [])
      else (case StartProcess e1 e2 (sess c) of Inl _ \<Rightarrow> (c, []) | Inr s \<Rightarrow> (put c s, [])))"
| "session_do enc deflate (EvPtyClosed now) c = (put c (pty_mark_closed now (sess c)), [])"
| "session_do enc deflate (EvReap w) c = (put c (reapProcess w (sess c)), [])"
| "session_do enc deflate EvNotify c = (put c (notifySessionClosed enc (sess c)), [])"
| "session_do enc deflate EvCloseBegin c =
     (if closeOnce (sess c) then (c, [])
      else (case close_begin (sess c) of (s, acts) \<Rightarrow> (c\<lparr>sess := s, close_pc := 1\<rparr>, acts)))"
| "session_do enc deflate (EvCloseMark now) c =
     (if close_pc c = 1 then (c\<lparr>sess := close_mark now (sess c), close_pc := 2\<rparr>, []) else (c, []))"
| "session_do enc deflate EvCloseFd c =
     (if close_pc c = 2 then (c\<lparr>close_pc := 3\<rparr>, close_fd (sess c)) else (c, []))"

fun session_run ::
  "(server_msg \<Rightarrow> err + bytes) \<Rightarrow> (bytes \<Rightarrow> err + bytes) \<Rightarrow> session_event list \<Rightarrow> session_config \<Rightarrow>
   session_config \<times> session_act list" where
  "session_run enc deflate [] c = (c, [])"
| "session_run enc deflate (e # es) c =
     (let (c1, acts) = session_do enc deflate e c;
          (c2, acts') = session_run enc deflate es c1 in
      (c2, acts @ acts'))"

definition config0 :: "Session \<Rightarrow> session_config" where
  "config0 s = \<lparr>sess = s, batch = None, close_pc = 0\<rparr>"

lemma session_run_append:
  "session_run enc deflate (es @ fs) c =
     (let (c1, acts) = session_run enc deflate es c;
          (c2, acts') = session_run enc deflate fs c1 in (c2, acts @ acts'))"
  by (induction es arbitrary: c) (simp_all add: Let_def split: prod.splits)

text \<open>An invariant of every event is one of every run.\<close>

lemma session_run_inv:
  assumes "\<And>e c. P c \<Longrightarrow> P (fst (session_do enc deflate e c))" "P c"
  shows "P (fst (session_run enc deflate es c))"
  using assms(2) by (induction es arbitrary: c) (simp_all add: assms(1) Let_def split: prod.splits, metis assms(1) fst_conv)

section \<open>Invariant\<close>

definition client_ok :: "nat \<Rightarrow> string \<times> Client \<Rightarrow> bool" where
  "client_ok seed kc \<longleftrightarrow>
     cl_ID (snd kc) = fst kc \<and> length (OutCh (snd kc)) \<le> outch_cap \<and>
     (\<exists>i\<in>{1..seed}. fst kc = ''client-'' @ show_nat i)"

definition clients_inv :: "Session \<Rightarrow> bool" where
  "clients_inv s \<longleftrightarrow> distinct (map fst (clients s)) \<and> list_all (client_ok (clientIDSeed s)) (clients s)"

definition gate_inv :: "Session \<Rightarrow> bool" where
  "gate_inv s \<longleftrightarrow>
     distinct (quicClientIDsOut s) \<and>
     (quicUDSInfoReceived s \<longleftrightarrow> quicClientIDsOut s \<noteq> []) \<and>
     (quicClientIDsOut s \<noteq> [] \<longrightarrow> st s) \<and>
     (quicReadyCh s \<longleftrightarrow> quicUDSInfoReceived s \<and> quicTransportConnected s) \<and>
     (quicReadyCh s \<longrightarrow> quicReady s)"

definition life_inv :: "session_config \<Rightarrow> bool" where
  "life_inv c \<longleftrightarrow>
     (closeOnce (sess c) \<longleftrightarrow> done_closed (sess c)) \<and>
     (closeOnce (sess c) \<longleftrightarrow> close_pc c \<noteq> 0) \<and> close_pc c \<le> 3 \<and>
     (close_pc c \<ge> 2 \<longrightarrow> ptyClosed (sess c)) \<and>
     (ptyClosed (sess c) \<longleftrightarrow> ptyClosedAt (sess c) \<noteq> None) \<and>
     (ptyMaster (sess c) \<longleftrightarrow> proc (sess c))"

definition session_inv :: "(bytes \<Rightarrow> bytes \<times> err) \<Rightarrow> session_config \<Rightarrow> bool" where
  "session_inv inflate c \<longleftrightarrow>
     buf_inv inflate (sess c) \<and> inflight_ok (sess c) (batch c) \<and>
     clients_inv (sess c) \<and> gate_inv (sess c) \<and> life_inv c"

subsection \<open>Clients\<close>

lemma show_nat_inj: "show_nat i = show_nat j \<longleftrightarrow> i = j"
  using show_nat_digits by metis

lemma update_present:
  "map_of al k = Some c \<Longrightarrow> distinct (map fst al) \<Longrightarrow>
   AList.update k v al = map (\<lambda>p. if fst p = k then (k, v) else p) al"
proof (induction al)
  case (Cons p al)
  have "k = fst p \<Longrightarrow> map (\<lambda>p. if fst p = k then (k, v) else p) al = al"
    using Cons.prems(2) by (intro map_idI) (force simp: image_iff)
  with Cons show ?case by (cases p) (auto split: if_splits)
qed simp

lemma offer_simps [simp]:
  "cl_ID (fst (offer b c)) = cl_ID c" "QUICClientID (fst (offer b c)) = QUICClientID c"
  "length (OutCh c) \<le> outch_cap \<Longrightarrow> length (OutCh (fst (offer b c))) \<le> outch_cap"
  by (auto simp: offer_def)

lemma clients_inv_map:
  assumes "clients_inv s" "clients s' = map f (clients s)" "clientIDSeed s' = clientIDSeed s"
    "\<And>kc. client_ok (clientIDSeed s) kc \<Longrightarrow> fst (f kc) = fst kc \<and> client_ok (clientIDSeed s) (f kc)"
  shows "clients_inv s'"
proof -
  have "map fst (map f (clients s)) = map fst (clients s)"
    using assms(1,4) by (auto simp: clients_inv_def list_all_iff)
  then show ?thesis
    using assms unfolding clients_inv_def by (simp add: list_all_iff del: map_map)
qed

lemma clients_inv_update:
  assumes "clients_inv s" "map_of (clients s) k = Some c" "cl_ID c' = cl_ID c"
    "length (OutCh c') \<le> outch_cap" "clients s' = AList.update k c' (clients s)"
    "clientIDSeed s' = clientIDSeed s"
  shows "clients_inv s'"
proof (rule clients_inv_map [OF assms(1) _ assms(6)])
  show "clients s' = map (\<lambda>p. if fst p = k then (k, c') else p) (clients s)"
    using assms(1,2,5) by (simp add: update_present clients_inv_def)
next
  fix kc :: "string \<times> Client"
  have "client_ok (clientIDSeed s) (k, c)"
    using assms(1,2) by (auto simp: clients_inv_def list_all_iff dest: map_of_SomeD)
  moreover assume "client_ok (clientIDSeed s) kc"
  ultimately show "fst (if fst kc = k then (k, c') else kc) = fst kc \<and>
      client_ok (clientIDSeed s) (if fst kc = k then (k, c') else kc)"
    using assms(3,4) by (simp add: client_ok_def)
qed

lemma client_ok_mono: "client_ok n kc \<Longrightarrow> n \<le> m \<Longrightarrow> client_ok m kc"
  unfolding client_ok_def by (meson atLeastAtMost_iff le_trans)

lemma attach_clients: "clients_inv s \<Longrightarrow> clients_inv (fst (AttachClient p a q s))"
proof -
  assume inv: "clients_inv s"
  have fresh: "''client-'' @ show_nat (clientIDSeed s + 1) \<notin> set (map fst (clients s))"
  proof
    assume "''client-'' @ show_nat (clientIDSeed s + 1) \<in> set (map fst (clients s))"
    then obtain kc where "kc \<in> set (clients s)" "fst kc = ''client-'' @ show_nat (clientIDSeed s + 1)" by auto
    with inv show False by (auto simp: clients_inv_def list_all_iff client_ok_def show_nat_inj)
  qed
  moreover have "list_all (client_ok (clientIDSeed s + 1)) (clients s)"
    using inv client_ok_mono by (fastforce simp: clients_inv_def list_all_iff)
  ultimately show ?thesis
    using inv by (auto simp: AttachClient_def Let_def clients_inv_def client_ok_def show_nat_inj)
qed

lemma detach_clients: "clients_inv s \<Longrightarrow> clients_inv (DetachClient now k s)"
  by (auto simp: DetachClient_def Let_def clients_inv_def AList.delete_eq list_all_iff
      distinct_map_filter split: option.split)

lemma client_cap: "clients_inv s \<Longrightarrow> map_of (clients s) k = Some c \<Longrightarrow> length (OutCh c) \<le> outch_cap"
  by (auto simp: clients_inv_def list_all_iff client_ok_def dest!: map_of_SomeD)

lemma clients_inv_offer:
  "clients_inv s \<Longrightarrow> map_of (clients s) k = Some c \<Longrightarrow>
   clients_inv (s\<lparr>clients := AList.update k (fst (offer b c)) (clients s)\<rparr>)"
  by (rule clients_inv_update) (simp_all add: client_cap)

lemma clients_inv_offers:
  "clients_inv s \<Longrightarrow> clients_inv (s\<lparr>clients := map (\<lambda>kc. if P kc then (fst kc, fst (offer b (snd kc))) else kc) (clients s)\<rparr>)"
  by (erule clients_inv_map [where f = "\<lambda>kc. if P kc then (fst kc, fst (offer b (snd kc))) else kc"])
    (auto simp: client_ok_def)

lemma deliver_clients: "clients_inv s \<Longrightarrow> clients_inv (fst (handle_deliver enc active seq data targets s))"
  by (simp add: handle_deliver_def Let_def clients_inv_offers split: prod.split sum.split)

lemma notify_clients: "clients_inv s \<Longrightarrow> clients_inv (notifySessionClosed enc s)"
  using clients_inv_offers [of s "\<lambda>_. True"]
  by (auto simp: notifySessionClosed_def Let_def case_prod_unfold split: sum.split)

lemma dropped_clients: "clients_inv s \<Longrightarrow> clients_inv (sendOutputDroppedNotification enc k seq s)"
  by (simp add: sendOutputDroppedNotification_def clients_inv_offer split: sum.split option.split)

lemma replay_clients: "clients_inv s \<Longrightarrow> replay_send enc k chunks s = Some (s', r) \<Longrightarrow> clients_inv s'"
  by (auto simp: replay_send_def clients_inv_offer split: list.splits sum.splits option.splits if_splits)

lemma take_clients: "clients_inv s \<Longrightarrow> clients_inv (fst (take_out k s))"
proof (cases "map_of (clients s) k")
  case (Some c)
  assume inv: "clients_inv s"
  show ?thesis
  proof (cases "OutCh c")
    case (Cons b bs)
    with client_cap [OF inv Some] have "length bs \<le> outch_cap" by simp
    with inv Some Cons show ?thesis
      by (simp add: take_out_def clients_inv_update [OF inv Some, of "c\<lparr>OutCh := bs\<rparr>"])
  qed (use inv Some in \<open>simp add: take_out_def\<close>)
qed (simp add: take_out_def)

subsection \<open>The whole invariant\<close>

lemmas session_op_defs =
  handle_locked_def sendOutputDroppedNotification_def AttachClient_def take_out_def DetachClient_def
  WriteInput_def Resize_def RegisterQUICClient_def OnQUICClientConnected_def signalQuicReadyLocked_def
  StartProcess_def pty_mark_closed_def reapProcess_def notifySessionClosed_def close_begin_def
  close_mark_def

text \<open>Operations that leave the buffer alone.\<close>

lemma other_ops_truncate [simp]:
  "out_buffer.truncate (fst (handle_deliver enc active seq data targets s)) = out_buffer.truncate s"
  "out_buffer.truncate (sendOutputDroppedNotification enc k n s) = out_buffer.truncate s"
  "out_buffer.truncate (fst (AttachClient p a q s)) = out_buffer.truncate s"
  "out_buffer.truncate (fst (take_out k s)) = out_buffer.truncate s"
  "out_buffer.truncate (DetachClient now k s) = out_buffer.truncate s"
  "out_buffer.truncate (fst (WriteInput r now data s)) = out_buffer.truncate s"
  "out_buffer.truncate (fst (Resize r rows cols s)) = out_buffer.truncate s"
  "out_buffer.truncate (signalQuicReadyLocked s) = out_buffer.truncate s"
  "out_buffer.truncate (OnQUICClientConnected s) = out_buffer.truncate s"
  "out_buffer.truncate (pty_mark_closed now s) = out_buffer.truncate s"
  "out_buffer.truncate (reapProcess w s) = out_buffer.truncate s"
  "out_buffer.truncate (notifySessionClosed enc s) = out_buffer.truncate s"
  "out_buffer.truncate (fst (close_begin s)) = out_buffer.truncate s"
  "out_buffer.truncate (close_mark now s) = out_buffer.truncate s"
  by (simp_all add: session_op_defs handle_deliver_def out_buffer.truncate_def Let_def
      split: prod.split sum.split option.split list.split)

lemma partial_ops_truncate:
  "RegisterQUICClient n s = Inr s' \<Longrightarrow> out_buffer.truncate s' = out_buffer.truncate s"
  "StartProcess e1 e2 s = Inr s' \<Longrightarrow> out_buffer.truncate s' = out_buffer.truncate s"
  "replay_send enc k chunks s = Some (s', r) \<Longrightarrow> out_buffer.truncate s' = out_buffer.truncate s"
  by (auto simp: session_op_defs replay_send_def out_buffer.truncate_def Let_def
      split: sum.splits option.splits list.splits if_splits)

lemma locked_more:
  "out_buffer.more (fst (handle_locked now now' data s)) =
     out_buffer.more (s\<lparr>termModes := mode_scan data (termModes s), lastOutputAt := Some now\<rparr>)"
  by (cases s) (simp add: handle_locked_def Let_def append_output_def)

lemma locked_fields [simp]:
  "ID (fst (handle_locked now now' data s)) = ID s"
  "clients (fst (handle_locked now now' data s)) = clients s"
  "st (fst (handle_locked now now' data s)) = st s"
  "quicReady (fst (handle_locked now now' data s)) = quicReady s"
  "quicClientIDsOut (fst (handle_locked now now' data s)) = quicClientIDsOut s"
  "clientIDSeed (fst (handle_locked now now' data s)) = clientIDSeed s"
  using session_more [OF locked_more] by simp_all

lemma locked_sq: "sq (fst (handle_locked now now' data s)) = (sq s + 1) mod 2 ^ 64"
  by (simp add: handle_locked_def Let_def evict_frame append_output_def)

lemma locked_buffer:
  assumes "buf_inv inflate s" "inflight_ok s b" "data \<noteq> []" "length data \<le> pty_buf_size" "sq s + 1 < 2 ^ 64"
  shows "buf_inv inflate (fst (handle_locked now now' data s)) \<and> inflight_ok (fst (handle_locked now now' data s)) b"
proof -
  let ?s1 = "append_output now data s"
  let ?s2 = "?s1\<lparr>termModes := mode_scan data (termModes ?s1), lastOutputAt := Some now\<rparr>"
  have t: "out_buffer.truncate ?s2 = out_buffer.truncate ?s1" by (simp add: out_buffer.truncate_def)
  have "length data \<le> coldChunkFrameLimit"
    using assms(4) by (simp add: pty_buf_size_def coldChunkFrameLimit_def)
  with assms have "buf_inv inflate ?s1" "inflight_ok ?s1 b" by (simp_all add: inv_intros)
  then have "buf_inv inflate ?s2" "inflight_ok ?s2 b"
    by (simp_all only: buf_inv_cong [OF t] inflight_cong [OF t])
  then show ?thesis unfolding handle_locked_def Let_def by (simp add: inv_intros)
qed

lemma step_buffer:
  assumes "flate_laws deflate inflate" "buf_inv inflate (sess c) \<and> inflight_ok (sess c) (batch c)"
    "sq (sess c) + 1 < 2 ^ 64"
  shows "buf_inv inflate (sess (fst (session_do enc deflate e c))) \<and>
    inflight_ok (sess (fst (session_do enc deflate e c))) (batch (fst (session_do enc deflate e c)))"
proof -
  have keep: "buf_inv inflate s \<and> inflight_ok s (batch c)"
    if "out_buffer.truncate s = out_buffer.truncate (sess c)" for s :: Session
    using assms(2) by (simp add: buf_inv_cong [OF that] inflight_cong [OF that])
  show ?thesis
  proof (cases e)
    case (EvOutput now now' data)
    with assms locked_buffer [of inflate "sess c" "batch c" data now now'] show ?thesis
      by (simp add: put_def)
  next
    case EvFlushBegin
    show ?thesis
    proof (cases "batch c")
      case None
      with EvFlushBegin assms(2) show ?thesis
        using flush_begin_inv [of inflate "sess c"]
        by (auto simp: case_prod_unfold flush_begin_def inflight_ok_def split: if_splits)
    qed (use EvFlushBegin assms(2) in simp)
  next
    case EvFlushFinish
    with assms show ?thesis
      by (cases "batch c") (simp_all add: flush_finish_inv flush_finish_inflight)
  next
    case (EvStale now)
    with assms(2) show ?thesis by (simp add: put_def fst_evict_stale inv_intros)
  next
    case (EvRegister n)
    then show ?thesis using assms(2)
      by (auto simp: put_def keep partial_ops_truncate(1) split: sum.split)
  next
    case (EvStart e1 e2)
    then show ?thesis using assms(2)
      by (auto simp: put_def keep partial_ops_truncate(2) split: sum.split)
  next
    case (EvReplay k chunks)
    then show ?thesis using assms(2)
      by (auto simp: put_def keep partial_ops_truncate(3) split: option.split)
  qed (use assms(2) in \<open>simp_all add: put_def keep case_prod_unfold\<close>)
qed

lemma step_clients: "clients_inv (sess c) \<Longrightarrow> clients_inv (sess (fst (session_do enc deflate e c)))"
proof -
  assume inv: "clients_inv (sess c)"
  have keep: "clients_inv s" if "clients s = clients (sess c)" "clientIDSeed s = clientIDSeed (sess c)" for s
    using inv that by (simp add: clients_inv_def)
  show ?thesis
  proof (cases e)
    case (EvReplay k chunks)
    with inv show ?thesis by (auto simp: put_def replay_clients split: option.split)
  qed
      (auto simp: put_def inv deliver_clients dropped_clients attach_clients detach_clients
         take_clients notify_clients case_prod_unfold flush_session evict_session fst_evict_stale session_op_defs(6-10)
         session_op_defs(11-13) session_op_defs(15-16) Let_def
         split: option.splits sum.splits if_splits intro!: keep)
qed

definition gate_fields :: "Session \<Rightarrow> client_id list \<times> bool \<times> bool \<times> bool \<times> bool \<times> bool" where
  "gate_fields s = (quicClientIDsOut s, st s, quicReady s, quicReadyCh s, quicUDSInfoReceived s, quicTransportConnected s)"

lemma gate_fields_step:
  "(\<forall>n. e \<noteq> EvRegister n) \<Longrightarrow> e \<noteq> EvConnected \<Longrightarrow>
   gate_fields (sess (fst (session_do enc deflate e c))) = gate_fields (sess c)"
  by (cases e)
    (auto simp: gate_fields_def put_def case_prod_unfold handle_deliver_def flush_session evict_session
       session_more [OF locked_more] fst_evict_stale sendOutputDroppedNotification_def AttachClient_def take_out_def
       DetachClient_def WriteInput_def Resize_def StartProcess_def pty_mark_closed_def reapProcess_def
       notifySessionClosed_def close_begin_def close_mark_def replay_send_def Let_def
       split: option.splits sum.splits list.splits if_splits)

lemma gate_inv_cong: "gate_fields s = gate_fields s' \<Longrightarrow> gate_inv s = gate_inv s'"
  by (simp add: gate_fields_def gate_inv_def)

lemma register_gate: "gate_inv s \<Longrightarrow> RegisterQUICClient n s = Inr s' \<Longrightarrow> gate_inv s'"
  by (auto simp: gate_inv_def RegisterQUICClient_def signalQuicReadyLocked_def Let_def split: if_splits)

lemma connected_gate: "gate_inv s \<Longrightarrow> gate_inv (OnQUICClientConnected s)"
  by (auto simp: gate_inv_def OnQUICClientConnected_def signalQuicReadyLocked_def Let_def split: if_splits)

lemma step_gate: "gate_inv (sess c) \<Longrightarrow> gate_inv (sess (fst (session_do enc deflate e c)))"
  by (cases "(\<exists>n. e = EvRegister n) \<or> e = EvConnected")
    (auto simp: put_def register_gate connected_gate gate_inv_cong [OF gate_fields_step] split: sum.split)

definition life_fields :: "Session \<Rightarrow> bool \<times> bool \<times> bool \<times> time option \<times> bool \<times> bool" where
  "life_fields s = (closeOnce s, done_closed s, ptyClosed s, ptyClosedAt s, ptyMaster s, proc s)"

definition life_event :: "session_event \<Rightarrow> bool" where
  "life_event e \<longleftrightarrow>
     (case e of EvStart _ _ \<Rightarrow> True | EvPtyClosed _ \<Rightarrow> True | EvCloseBegin \<Rightarrow> True
      | EvCloseMark _ \<Rightarrow> True | EvCloseFd \<Rightarrow> True | _ \<Rightarrow> False)"

lemma life_fields_step:
  "\<not> life_event e \<Longrightarrow>
   life_fields (sess (fst (session_do enc deflate e c))) = life_fields (sess c) \<and>
   close_pc (fst (session_do enc deflate e c)) = close_pc c"
  by (cases e)
    (auto simp: life_event_def life_fields_def put_def case_prod_unfold handle_deliver_def flush_session evict_session
       session_more [OF locked_more] fst_evict_stale sendOutputDroppedNotification_def AttachClient_def take_out_def
       DetachClient_def WriteInput_def Resize_def RegisterQUICClient_def OnQUICClientConnected_def
       signalQuicReadyLocked_def reapProcess_def notifySessionClosed_def replay_send_def Let_def
       split: option.splits sum.splits list.splits if_splits)

lemma life_inv_cong:
  "life_fields (sess c) = life_fields (sess c') \<and> close_pc c = close_pc c' \<Longrightarrow> life_inv c = life_inv c'"
  by (simp add: life_fields_def life_inv_def)

lemma step_life: "life_inv c \<Longrightarrow> life_inv (fst (session_do enc deflate e c))"
proof (cases "life_event e")
  case False
  assume "life_inv c"
  with life_inv_cong [OF life_fields_step [OF False]] show ?thesis by blast
next
  case True
  then show "life_inv c \<Longrightarrow> ?thesis"
    by (cases e)
      (auto simp: life_event_def life_inv_def put_def StartProcess_def pty_mark_closed_def close_begin_def
         close_mark_def split: option.splits sum.splits)
qed

lemma step_sq: "sq (sess c) \<le> n \<Longrightarrow> sq (sess (fst (session_do enc deflate e c))) \<le> n + 1"
proof (cases e)
  case (EvOutput now now' data)
  assume "sq (sess c) \<le> n"
  then have "(sq (sess c) + 1) mod 2 ^ 64 \<le> n + 1"
    using mod_less_eq_dividend [of "sq (sess c) + 1" "2 ^ 64"] by linarith
  with \<open>sq (sess c) \<le> n\<close> EvOutput show ?thesis by (simp add: put_def locked_sq)
next
  case EvFlushFinish
  assume "sq (sess c) \<le> n"
  then show ?thesis using EvFlushFinish
    by (simp add: flush_finish_def Let_def split: option.split sum.split)
qed (auto simp: put_def case_prod_unfold handle_deliver_def flush_begin_def evict_frame fst_evict_stale
       session_op_defs replay_send_def Let_def split: option.splits sum.splits list.splits if_splits)

lemma run_inv:
  assumes "flate_laws deflate inflate" "session_inv inflate c" "sq (sess c) + length es < 2 ^ 64"
  shows "session_inv inflate (fst (session_run enc deflate es c))"
  using assms(2,3)
proof (induction es arbitrary: c)
  case (Cons e es)
  let ?c1 = "fst (session_do enc deflate e c)"
  have "sq (sess c) + 1 < 2 ^ 64" using Cons.prems(2) by simp
  with Cons.prems(1) step_buffer [OF assms(1)] step_clients step_gate step_life
  have "session_inv inflate ?c1" unfolding session_inv_def by blast
  moreover have "sq (sess ?c1) + length es < 2 ^ 64"
    using step_sq [of c "sq (sess c)" enc deflate e] Cons.prems(2) by simp
  ultimately show ?case using Cons.IH by (simp add: case_prod_unfold Let_def)
qed simp

definition fresh_session :: "Session \<Rightarrow> bool" where
  "fresh_session s \<longleftrightarrow>
     empty_buffer s \<and> clients s = [] \<and> clientIDSeed s = 0 \<and> quicClientIDsOut s = [] \<and>
     quicReady s \<and> \<not> quicReadyCh s \<and> \<not> quicUDSInfoReceived s \<and> \<not> quicTransportConnected s \<and>
     \<not> done_closed s \<and> \<not> closeOnce s \<and> \<not> ptyMaster s \<and> \<not> proc s \<and> \<not> ptyClosed s \<and> ptyClosedAt s = None"

text \<open>The transport that startQUICTransport installs leaves the rest of a session as it is.\<close>

lemma startQUICTransport_fresh:
  "startQUICTransport shared rnd newServer startErr fixedPort s = Inr s' \<Longrightarrow> fresh_session s \<Longrightarrow> fresh_session s'"
  by (auto simp: startQUICTransport_def adoptPerSessionTransport_def Let_def fresh_session_def empty_buffer_def
      split: option.splits sum.splits)

lemma session0_fresh: "fresh_session (session0 sid cmd rows cols agent now)"
  by (simp add: session0_def fresh_session_def empty_buffer_def)

lemma NewSession_fresh:
  "NewSession cmdErr agentOK bind (startQUICTransport shared rnd newServer startErr fixedPort)
     sid cmd rows cols fwd now = Inr s \<Longrightarrow> fresh_session s"
  using startQUICTransport_fresh session0_fresh
  by (auto simp: NewSession_def Let_def fresh_session_def empty_buffer_def split: option.splits sum.splits if_splits)

lemma fresh_inv: "fresh_session s \<Longrightarrow> session_inv inflate (config0 s)"
  using empty_buffer_inv [of s inflate]
  by (simp add: fresh_session_def session_inv_def config0_def clients_inv_def gate_inv_def life_inv_def)

lemma begin_inv: "fresh_session s \<Longrightarrow> session_inv inflate (config0 (BeginQuicPendingMode s))"
  using fresh_inv [of s inflate] buf_inv_cong [of "BeginQuicPendingMode s" s inflate]
    inflight_cong [of "BeginQuicPendingMode s" s None]
  by (simp add: BeginQuicPendingMode_def out_buffer.truncate_def session_inv_def config0_def clients_inv_def
      gate_inv_def life_inv_def fresh_session_def)

text \<open>C5. Whatever output, attaches, detaches, resizes, registrations, background compression and
  steps of Close happen in whatever order after NewSession: the output buffer keeps its invariant;
  clients have distinct identifiers that were really issued and channels within their capacity; the
  QUIC fan-out lists each number once and only with a transport; the ready channel is closed exactly
  when both gates were passed; and a session closes its done channel and its pty together.\<close>

theorem session_invariant:
  assumes "flate_laws deflate inflate" "length es < 2 ^ 64"
    "NewSession cmdErr agentOK bind (startQUICTransport shared rnd newServer startErr fixedPort)
       sid cmd rows cols fwd now = Inr s"
  shows "session_inv inflate (fst (session_run enc deflate es (config0 s)))"
proof -
  have f: "fresh_session s" using NewSession_fresh [OF assms(3)] .
  then have "sq s = 0" by (simp add: fresh_session_def empty_buffer_def)
  then show ?thesis using run_inv [OF assms(1) fresh_inv [OF f]] assms(2) by (simp add: config0_def)
qed

definition shared_session :: Session where
  "shared_session = (session0 ''s1'' ''sh'' 24 80 None 0)\<lparr>st := True, usesSharedTransport := True,
     quicEnabled := True, quicPort := 4433, quicKey := [7]\<rparr>"

lemma session_invariant_witness:
  "session_inv (\<lambda>z. (z, EOF))
     (fst (session_run (\<lambda>m. Inr [1]) Inr
        [EvAttach ''UDS'' '''' 0, EvRegister 9, EvOutput 5 6 [104, 105], EvConnected, EvFlushBegin,
         EvDetach 9 ''client-1''] (config0 shared_session)))"
proof -
  have "flate_laws Inr (\<lambda>z. (z, EOF))" by (simp add: flate_laws_def)
  moreover have "NewSession None True (Inl EOF)
      (startQUICTransport (Some (4433, [7])) (Inl EOF) (\<lambda>_. Inl EOF) None 0) ''s1'' ''sh'' 24 80 False 0 =
      Inr shared_session"
    by (simp add: NewSession_def startQUICTransport_def shared_session_def Let_def)
  ultimately show ?thesis
    using session_invariant [where es = "[EvAttach ''UDS'' '''' 0, EvRegister 9, EvOutput 5 6 [104, 105],
        EvConnected, EvFlushBegin, EvDetach 9 ''client-1'']"]
    by fastforce
qed

end
