(* ===== verification/Session_Delivery.thy ===== *)
theory Session_Delivery
  imports Session_Props
begin

text \<open>
  What a session promises its clients: when the output of a new session is released, who receives a
  chunk on which path, what the end of the process reports, and how closing, starting and redrawing
  interleave with the other operations.
\<close>

section \<open>The gate\<close>

lemma run_gate:
  assumes "gate_inv (sess c)" "st (sess c)" "quicReady (sess c) \<longleftrightarrow> quicReadyCh (sess c)"
  shows "let s' = sess (fst (session_run enc deflate es c)) in
    gate_inv s' \<and> st s' \<and> (quicReady s' \<longleftrightarrow> quicReadyCh s') \<and>
    (quicUDSInfoReceived s' \<longleftrightarrow> quicUDSInfoReceived (sess c) \<or> (\<exists>n. EvRegister n \<in> set es)) \<and>
    (quicTransportConnected s' \<longleftrightarrow> quicTransportConnected (sess c) \<or> EvConnected \<in> set es)"
  using assms
proof (induction es arbitrary: c)
  case (Cons e es)
  let ?c1 = "fst (session_do enc deflate e c)"
  have step: "st (sess ?c1) \<and> (quicReady (sess ?c1) \<longleftrightarrow> quicReadyCh (sess ?c1)) \<and>
      (quicUDSInfoReceived (sess ?c1) \<longleftrightarrow> quicUDSInfoReceived (sess c) \<or> (\<exists>n. e = EvRegister n)) \<and>
      (quicTransportConnected (sess ?c1) \<longleftrightarrow> quicTransportConnected (sess c) \<or> e = EvConnected)"
  proof (cases "(\<exists>n. e = EvRegister n) \<or> e = EvConnected")
    case False
    with gate_fields_step [of e enc deflate c] Cons.prems show ?thesis by (auto simp: gate_fields_def)
  next
    case True
    with Cons.prems show ?thesis
      by (auto simp: put_def gate_inv_def RegisterQUICClient_def OnQUICClientConnected_def
          signalQuicReadyLocked_def Let_def split: if_splits)
  qed
  have "gate_inv (sess ?c1)" by (rule step_gate [OF Cons.prems(1)])
  from Cons.IH [OF this] step show ?case
    by (auto simp: Let_def case_prod_unfold)
qed simp

lemma run_gate_before:
  assumes "gate_inv (sess c)" "\<forall>n. EvRegister n \<notin> set es"
  shows "gate_inv (sess (fst (session_run enc deflate es c))) \<and>
    st (sess (fst (session_run enc deflate es c))) = st (sess c) \<and>
    quicClientIDsOut (sess (fst (session_run enc deflate es c))) = quicClientIDsOut (sess c) \<and>
    (quicTransportConnected (sess (fst (session_run enc deflate es c))) \<longleftrightarrow>
       quicTransportConnected (sess c) \<or> EvConnected \<in> set es)"
  using assms
proof (induction es arbitrary: c)
  case (Cons e es)
  let ?c1 = "fst (session_do enc deflate e c)"
  have "st (sess ?c1) = st (sess c) \<and> quicClientIDsOut (sess ?c1) = quicClientIDsOut (sess c) \<and>
      (quicTransportConnected (sess ?c1) \<longleftrightarrow> quicTransportConnected (sess c) \<or> e = EvConnected)"
  proof (cases "e = EvConnected")
    case False
    with gate_fields_step [of e enc deflate c] Cons.prems(2) show ?thesis by (auto simp: gate_fields_def)
  next
    case True
    then show ?thesis
      by (auto simp: put_def OnQUICClientConnected_def signalQuicReadyLocked_def Let_def split: if_splits)
  qed
  with Cons.IH [OF step_gate [OF Cons.prems(1)]] Cons.prems(2) show ?case
    by (auto simp: Let_def case_prod_unfold)
qed simp

text \<open>C6. After BeginQuicPendingMode the output of a new session is released, and the channel that
  starts its process closed, exactly when a client number has been registered and a QUIC client has
  connected, in either order, even when the connection came before the pending mode began, and
  whatever else happens in between.\<close>

theorem gate_opens_on_both:
  assumes "fresh_session s" "st s" "\<forall>n. EvRegister n \<notin> set es0"
    "c0 = fst (session_run enc deflate es0 (config0 s))"
    "s' = sess (fst (session_run enc deflate es (c0\<lparr>sess := BeginQuicPendingMode (sess c0)\<rparr>)))"
  shows "(quicReady s' \<longleftrightarrow> (\<exists>n. EvRegister n \<in> set es) \<and> EvConnected \<in> set es0 \<union> set es) \<and>
    (quicReadyCh s' \<longleftrightarrow> (\<exists>n. EvRegister n \<in> set es) \<and> EvConnected \<in> set es0 \<union> set es)"
proof -
  have g: "gate_inv (sess (config0 s))" "quicClientIDsOut s = []" "\<not> quicTransportConnected s"
    using assms(1) by (simp_all add: config0_def fresh_session_def gate_inv_def)
  from run_gate_before [OF g(1) assms(3), of enc deflate] g assms(2,4)
  have c0: "gate_inv (sess c0)" "st (sess c0)" "quicClientIDsOut (sess c0) = []"
    "quicTransportConnected (sess c0) \<longleftrightarrow> EvConnected \<in> set es0"
    by (simp_all add: config0_def)
  let ?c1 = "c0\<lparr>sess := BeginQuicPendingMode (sess c0)\<rparr>"
  have ch: "\<not> quicReadyCh (sess c0)" "\<not> quicUDSInfoReceived (sess c0)"
    using c0(1,3) by (simp_all add: gate_inv_def)
  have "gate_inv (sess ?c1)" "st (sess ?c1)" "quicReady (sess ?c1) \<longleftrightarrow> quicReadyCh (sess ?c1)"
    using c0(1,2) ch by (simp_all add: gate_inv_def BeginQuicPendingMode_def)
  from run_gate [OF this, of enc deflate es] c0(4) ch assms(5) show ?thesis
    by (auto simp: Let_def BeginQuicPendingMode_def gate_inv_def)
qed

lemma gate_opens_on_both_witness:
  "quicReady (sess (fst (session_run (\<lambda>m. Inr [1]) Inr [EvAttach ''UDS'' '''' 0, EvRegister 9]
     ((fst (session_run (\<lambda>m. Inr [1]) Inr [EvConnected] (config0 shared_session)))\<lparr>sess :=
        BeginQuicPendingMode (sess (fst (session_run (\<lambda>m. Inr [1]) Inr [EvConnected] (config0 shared_session))))\<rparr>))))"
proof -
  have "fresh_session shared_session" "st shared_session"
    using session0_fresh [of "''s1''" "''sh''" 24 80 None 0]
    by (simp_all add: shared_session_def fresh_session_def empty_buffer_def)
  from gate_opens_on_both [where ?es0.0 = "[EvConnected]" and es = "[EvAttach ''UDS'' '''' 0, EvRegister 9]"
      and enc = "\<lambda>m. Inr [1]" and deflate = Inr, OF this _ refl refl]
  show ?thesis by (auto simp del: session_run.simps)
qed

section \<open>Who receives a chunk\<close>

lemma map_of_map_values:
  "map_of (map (\<lambda>kc. if P kc then (fst kc, f (snd kc)) else kc) al) k =
   map_option (\<lambda>c. if P (k, c) then f c else c) (map_of al k)"
  by (induction al) auto

definition on_socket :: "ClientID list \<Rightarrow> Session \<Rightarrow> Client \<Rightarrow> bool" where
  "on_socket active s c \<longleftrightarrow>
     quicReady s \<and> \<not> (QUICClientID c \<noteq> 0 \<and> st s \<and> ClientID (ID s) (QUICClientID c) \<in> set active)"

lemma map_of_eq_Some: "distinct (map fst al) \<Longrightarrow> map_of al k = Some c \<longleftrightarrow> (k, c) \<in> set al"
  by (rule map_of_eq_Some_iff)

lemma output_outcome:
  assumes "data \<noteq> []" "clients_inv s" "enc (OutputMsg (ID s) ((sq s + 1) mod 2 ^ 64) data) = Inr b"
    "handlePTYOutput enc active now now' data s = (s', acts)"
  shows "sq s' = (sq s + 1) mod 2 ^ 64"
    "map_of (clients s') k =
       map_option (\<lambda>c. if on_socket active s c then fst (offer b c) else c) (map_of (clients s) k)"
    "SendOutput n d t \<in> set acts \<longleftrightarrow>
       st s \<and> quicClientIDsOut s \<noteq> [] \<and> n = sq s' \<and> d = data \<and> t = map (ClientID (ID s)) (quicClientIDsOut s)"
    "GoDroppedNotice k n \<in> set acts \<longleftrightarrow>
       (\<exists>c. map_of (clients s) k = Some c \<and> on_socket active s c \<and> \<not> snd (offer b c) \<and> n = sq s')"
proof -
  define s1 where "s1 = fst (handle_locked now now' data s)"
  have f: "ID s1 = ID s" "clients s1 = clients s" "st s1 = st s" "quicReady s1 = quicReady s"
    "quicClientIDsOut s1 = quicClientIDsOut s" "sq s1 = (sq s + 1) mod 2 ^ 64"
    by (simp_all only: s1_def locked_fields locked_sq)
  have tgt: "uds_target active (map fst (clients s)) s1 kc \<longleftrightarrow> on_socket active s (snd kc)"
    if "kc \<in> set (clients s)" for kc
    using that by (auto simp: uds_target_def on_socket_def f)
  let ?T = "uds_target active (map fst (clients s)) s1"
  have dist: "distinct (map fst (clients s))" using assms(2) by (simp add: clients_inv_def)
  have e: "enc (OutputMsg (ID s1) (sq s1) data) = Inr b" using assms(3) by (simp only: f)
  obtain s2 acts2 where d2: "handle_deliver enc active (sq s1) data (out_targets s1) s1 = (s2, acts2)" by force
  have res: "s' = s2" "set acts = set acts2 \<union> (if snd (handle_locked now now' data s) then {GoFlushColdPending} else {})"
    using assms(1,4) d2 by (auto simp: handlePTYOutput_def s1_def case_prod_unfold Let_def)
  have m: "map_of (clients s) k = Some c \<Longrightarrow> ?T (k, c) = on_socket active s c" for c
    using tgt [of "(k, c)"] by (auto dest: map_of_SomeD)
  have none: "filter ?T (clients s) = [] \<Longrightarrow> map_of (clients s) k = Some c \<Longrightarrow> \<not> on_socket active s c" for c
    using m by (auto simp: filter_empty_conv dest: map_of_SomeD)
  show "sq s' = (sq s + 1) mod 2 ^ 64"
    using d2 e unfolding res(1) f(6) [symmetric]
    by (auto simp: handle_deliver_def out_targets_def Let_def split: if_splits)
  then have sq: "sq s' = sq s1" by (simp only: f)
  show "map_of (clients s') k =
       map_option (\<lambda>c. if on_socket active s c then fst (offer b c) else c) (map_of (clients s) k)"
  proof (cases "filter ?T (clients s) = []")
    case True
    with d2 have "s' = s1" unfolding res(1) by (simp add: handle_deliver_def out_targets_def f)
    with none [OF True] show ?thesis by (cases "map_of (clients s) k") (simp_all add: f)
  next
    case False
    with d2 e have "clients s' = map (\<lambda>kc. if ?T kc then (fst kc, fst (offer b (snd kc))) else kc) (clients s)"
      unfolding res(1) by (auto simp: handle_deliver_def out_targets_def Let_def f)
    with m map_of_map_values [of ?T "\<lambda>c. fst (offer b c)" "clients s" k] show ?thesis
      by (cases "map_of (clients s) k") simp_all
  qed
  show "SendOutput n d t \<in> set acts \<longleftrightarrow>
       st s \<and> quicClientIDsOut s \<noteq> [] \<and> n = sq s' \<and> d = data \<and> t = map (ClientID (ID s)) (quicClientIDsOut s)"
    using d2 e unfolding res(2) sq
    by (auto simp: handle_deliver_def out_targets_def Let_def f split: if_splits)
  have "GoDroppedNotice k n \<in> set acts \<longleftrightarrow> n = sq s1 \<and> (\<exists>c. (k, c) \<in> set (clients s) \<and> ?T (k, c) \<and> \<not> snd (offer b c))"
    using d2 e unfolding res(2)
    by (force simp: handle_deliver_def out_targets_def Let_def f filter_empty_conv split: if_splits)
  then show "GoDroppedNotice k n \<in> set acts \<longleftrightarrow>
       (\<exists>c. map_of (clients s) k = Some c \<and> on_socket active s c \<and> \<not> snd (offer b c) \<and> n = sq s')"
    using tgt unfolding map_of_eq_Some [OF dist] sq by auto
qed

text \<open>C7. One chunk of output: it gets the next sequence number; over QUIC it goes to exactly the
  registered clients of this session; over the Unix socket every attached client gets the message
  appended to its channel, unless output is held back, its own QUIC client is active, or its channel
  is full, and in the last case, and only then, it is sent a notice about the loss.\<close>

theorem output_delivery:
  assumes "data \<noteq> []" "clients_inv s" "enc (OutputMsg (ID s) ((sq s + 1) mod 2 ^ 64) data) = Inr b"
    "handlePTYOutput enc active now now' data s = (s', acts)"
  shows "sq s' = (sq s + 1) mod 2 ^ 64 \<and>
    map_of (clients s') k =
      map_option (\<lambda>c. if on_socket active s c then fst (offer b c) else c) (map_of (clients s) k) \<and>
    (SendOutput n d t \<in> set acts \<longleftrightarrow>
       st s \<and> quicClientIDsOut s \<noteq> [] \<and> n = sq s' \<and> d = data \<and> t = map (ClientID (ID s)) (quicClientIDsOut s)) \<and>
    (GoDroppedNotice k n \<in> set acts \<longleftrightarrow>
       (\<exists>c. map_of (clients s) k = Some c \<and> on_socket active s c \<and> \<not> snd (offer b c) \<and> n = sq s'))"
  using output_outcome [OF assms] by blast

lemma attach_inv0: "clients_inv (fst (AttachClient ''UDS'' '''' 0 shared_session))"
  by (rule attach_clients) (simp add: shared_session_def session0_def clients_inv_def)

lemma output_delivery_witness:
  "map_of (clients (fst (handlePTYOutput (\<lambda>m. Inr [1]) [] 5 6 [104]
      (fst (AttachClient ''UDS'' '''' 0 shared_session))))) ''client-2'' = None"
proof -
  obtain s' acts where r: "handlePTYOutput (\<lambda>m. Inr [1]) [] 5 6 [104]
      (fst (AttachClient ''UDS'' '''' 0 shared_session)) = (s', acts)" by force
  have "map_of (clients (fst (AttachClient ''UDS'' '''' 0 shared_session))) ''client-2'' = None"
    by (simp add: AttachClient_def Let_def shared_session_def session0_def char_of_def bit_0)
  with output_delivery [OF _ attach_inv0 refl r, of "''client-2''"] r show ?thesis by simp
qed

text \<open>A client whose map entry carries no QUIC number, which is how the daemon attaches the client
  that creates a session and how the shipped client attaches to an existing one, receives every
  chunk twice once its QUIC connection is active: over QUIC and over the Unix socket. The rule that
  was to suppress the second copy compares with that number. The same client is listed twice.\<close>

theorem quic_client_also_gets_socket_output:
  assumes "data \<noteq> []" "clients_inv s" "enc (OutputMsg (ID s) ((sq s + 1) mod 2 ^ 64) data) = Inr b"
    "map_of (clients s) k = Some c" "QUICClientID c = 0" "length (OutCh c) < outch_cap"
    "st s" "quicReady s" "n \<in> set (quicClientIDsOut s)" "ClientID (ID s) n \<in> set active"
    "list_all (\<lambda>kc. QUICClientID (snd kc) = 0) (clients s)"
    "handlePTYOutput enc active now now' data s = (s', acts)"
  shows "SendOutput (sq s') data (map (ClientID (ID s)) (quicClientIDsOut s)) \<in> set acts \<and>
    map_of (clients s') k = Some (c\<lparr>OutCh := OutCh c @ [b]\<rparr>) \<and>
    (\<exists>u\<in>set (GetClientInfos active s). ci_ID u = k) \<and>
    (\<exists>q\<in>set (GetClientInfos active s). ci_ID q = ''quic-'' @ show_nat (unat n))"
proof -
  have kc: "(k, c) \<in> set (clients s)" using assms(4) by (rule map_of_SomeD)
  then have "cl_ID c = k" using assms(2) by (auto simp: clients_inv_def list_all_iff client_ok_def)
  with kc have u: "\<exists>u\<in>set (GetClientInfos active s). ci_ID u = k"
    by (force simp: GetClientInfos_def Let_def)
  have "\<forall>x\<in>set (clients s). QUICClientID (snd x) = 0" using assms(11) by (simp add: list_all_iff)
  then have "filter (\<lambda>n. n \<noteq> 0) (map (\<lambda>kc. QUICClientID (snd kc)) (clients s)) = []"
    by (simp add: filter_empty_conv)
  then have q: "\<exists>q\<in>set (GetClientInfos active s). ci_ID q = ''quic-'' @ show_nat (unat n)"
    using assms(7,10) by (force simp: GetClientInfos_def Let_def)
  have "on_socket active s c" using assms(5,8) by (simp add: on_socket_def)
  with assms(4,6) output_outcome(2) [OF assms(1-3,12), of k]
  have "map_of (clients s') k = Some (c\<lparr>OutCh := OutCh c @ [b]\<rparr>)" by (simp add: offer_def)
  moreover have "quicClientIDsOut s \<noteq> []" using assms(9) by auto
  ultimately show ?thesis using u q output_outcome(3) [OF assms(1-3,12)] assms(7) by blast
qed

text \<open>The session after the client of a new session has attached, announced itself and connected.\<close>

definition both_paths :: Session where
  "both_paths = (fst (AttachClient ''UDS'' '''' 0 shared_session))\<lparr>quicClientIDsOut := [9],
     quicUDSInfoReceived := True, quicTransportConnected := True, quicReadyCh := True\<rparr>"

lemma quic_client_also_gets_socket_output_witness:
  "\<exists>c. map_of (clients (fst (handlePTYOutput (\<lambda>m. Inr [1]) [ClientID ''s1'' 9] 5 6 [104] both_paths)))
      ''client-1'' = Some c \<and> OutCh c = [[1]]"
proof -
  have c: "clients both_paths = [(''client-1'', \<lparr>cl_ID = ''client-1'', OutCh = [], cl_Done = False,
      QUICClientID = 0, cl_Protocol = ''UDS'', cl_RemoteAddr = ''''\<rparr>)]"
    by (simp add: both_paths_def AttachClient_def Let_def shared_session_def session0_def char_of_def bit_0)
  have o: "st both_paths" "quicReady both_paths" "quicClientIDsOut both_paths = [9]" "ID both_paths = ''s1''"
    by (simp_all add: both_paths_def AttachClient_def Let_def shared_session_def session0_def)
  have inv: "clients_inv both_paths"
    using attach_inv0 by (simp add: both_paths_def clients_inv_def)
  obtain s' acts where r: "handlePTYOutput (\<lambda>m. Inr [1]) [ClientID ''s1'' 9] 5 6 [104] both_paths = (s', acts)"
    by force
  from quic_client_also_gets_socket_output [OF _ inv refl _ _ _ o(1,2) _ _ _ r, of "''client-1''" _ 9] r
  show ?thesis by (simp add: c o outch_cap_def)
qed

section \<open>The end of the process\<close>

definition reported_code :: "proc_state option option \<Rightarrow> int" where
  "reported_code wait =
     (case wait of
        Some (Some (Exited n)) \<Rightarrow> n
      | Some (Some (Signaled sig)) \<Rightarrow> 128 + int sig
      | _ \<Rightarrow> -1)"

text \<open>C8. When the pty closes, the process's status, 128 plus the signal number for a killed one, is
  what the session keeps and what every client is told on both paths; when the status is unknown or
  the process outlives the three seconds, the note on the socket carries no status. No second call
  of Close says anything.\<close>

theorem exit_status_reported:
  assumes "proc s" "\<not> closeOnce s" "st s" "exitCode s = -1"
    "pty_end enc wait now now' s = (s', acts)"
    "enc (NoteMsg ''SESSION_CLOSED'' ''PTY session has ended''
       (if reported_code wait \<ge> 0 then Some (reported_code wait) else None)) = Inr b"
  shows "exitCode s' = reported_code wait \<and> ptyClosed s' \<and>
    map_of (clients s') k = map_option (\<lambda>c. fst (offer b c)) (map_of (clients s) k) \<and>
    (SendSessionGone cid reason code \<in> set acts \<longleftrightarrow>
       cid \<in> ClientID (ID s) ` set (quicClientIDsOut s) \<and>
       reason = ''SESSION_CLOSED: PTY session has ended'' \<and> code = reported_code wait) \<and>
    (KillProc \<in> set acts) \<and> Close now' s' = (s', [])"
proof -
  let ?s1 = "reapProcess wait (pty_mark_closed now s)"
  have code: "exitCode ?s1 = reported_code wait"
    using assms(1,4) by (auto simp: reapProcess_def pty_mark_closed_def reported_code_def
        split: option.splits proc_state.splits)
  have keep: "clients ?s1 = clients s" "ID ?s1 = ID s" "st ?s1" "proc ?s1" "\<not> closeOnce ?s1"
    "ptyClosed ?s1" "quicClientIDsOut ?s1 = quicClientIDsOut s"
    using assms(1-3) by (auto simp: reapProcess_def pty_mark_closed_def split: option.split)
  have n: "notifySessionClosed enc ?s1 = ?s1\<lparr>clients := map (\<lambda>(k, c). (k, fst (offer b c))) (clients ?s1)\<rparr>"
    using assms(6) by (simp add: notifySessionClosed_def code)
  have "map_of (map (\<lambda>(k, c). (k, fst (offer b c))) (clients s)) k = map_option (\<lambda>c. fst (offer b c)) (map_of (clients s) k)"
    by (simp add: map_of_map)
  then show ?thesis
    using assms(5) keep code n
    by (auto simp: pty_end_def Close_def close_begin_def close_mark_def close_fd_def gone_messages_def Let_def
        split: option.splits)
qed

lemma exit_status_reported_witness:
  "exitCode (fst (pty_end (\<lambda>m. Inr [2]) (Some (Some (Signaled 9))) 5 6
      (both_paths\<lparr>ptyMaster := True, proc := True\<rparr>))) = 137"
proof -
  let ?s = "both_paths\<lparr>ptyMaster := True, proc := True\<rparr>"
  have h: "proc ?s" "\<not> closeOnce ?s" "st ?s" "exitCode ?s = -1"
    by (simp_all add: both_paths_def AttachClient_def Let_def shared_session_def session0_def)
  obtain s' acts where r: "pty_end (\<lambda>m. Inr [2]) (Some (Some (Signaled 9))) 5 6 ?s = (s', acts)" by force
  have "exitCode s' = reported_code (Some (Some (Signaled 9)))"
    using exit_status_reported [OF h r refl] by blast
  with r show ?thesis by (simp add: reported_code_def)
qed

section \<open>Closing, starting, redrawing\<close>

lemma run_closed_pty:
  assumes "life_inv c" "close_pc c \<ge> 2"
  shows "close_pc (fst (session_do enc deflate e c)) \<ge> 2 \<and> Setsize r n \<notin> set (snd (session_do enc deflate e c)) \<and>
    (close_pc c = 3 \<longrightarrow> close_pc (fst (session_do enc deflate e c)) = 3 \<and> ClosePty \<notin> set (snd (session_do enc deflate e c)))
    \<and> SendSessionGone i t m \<notin> set (snd (session_do enc deflate e c)) \<and>
    (close_pc c = 3 \<longrightarrow> KillProc \<notin> set (snd (session_do enc deflate e c)))"
  using assms
  by (cases e)
    (auto simp: life_inv_def put_def case_prod_unfold handle_deliver_def WriteInput_def Resize_def close_fd_def
       Let_def split: option.splits sum.splits if_splits)

lemma run_closed:
  assumes "life_inv c" "close_pc c = 3"
  shows "Setsize r n \<notin> set (snd (session_run enc deflate es c)) \<and> ClosePty \<notin> set (snd (session_run enc deflate es c))
    \<and> SendSessionGone i t m \<notin> set (snd (session_run enc deflate es c))
    \<and> KillProc \<notin> set (snd (session_run enc deflate es c)) \<and> close_pc (fst (session_run enc deflate es c)) = 3"
  using assms
proof (induction es arbitrary: c)
  case (Cons e es)
  from run_closed_pty [OF Cons.prems(1)] Cons.prems Cons.IH [OF step_life [OF Cons.prems(1)]] show ?case
    by (simp add: Let_def case_prod_unfold)
qed simp

lemma first_close:
  assumes "life_inv c" "snd (session_run enc deflate es c) = pre @ ClosePty # post"
  shows "Setsize r n \<notin> set post \<and> ClosePty \<notin> set post \<and> SendSessionGone i t m \<notin> set post"
  using assms
proof (induction es arbitrary: c pre)
  case (Cons e es)
  obtain c1 a1 where d: "session_do enc deflate e c = (c1, a1)" by force
  obtain c2 a2 where r: "session_run enc deflate es c1 = (c2, a2)" by force
  have inv: "life_inv c1" using step_life [OF Cons.prems(1), of enc deflate e] d by simp
  have split: "a1 @ a2 = pre @ ClosePty # post" using Cons.prems(2) d r by simp
  show ?case
  proof (cases "ClosePty \<in> set a1")
    case True
    then have e: "e = EvCloseFd" "close_pc c = 2" "close_pc c1 = 3" "a1 = close_fd (sess c)"
      using d by (cases e; auto simp: case_prod_unfold handle_deliver_def WriteInput_def Resize_def
          close_begin_def gone_messages_def Let_def split: option.splits sum.splits if_splits)+
    from e(4) True obtain kp where a1: "a1 = ClosePty # kp" "set kp \<subseteq> {KillProc}"
      by (auto simp: close_fd_def split: if_splits)
    from run_closed [OF inv e(3), of _ _ enc deflate es] r
    have "Setsize r n \<notin> set a2" "ClosePty \<notin> set a2" "SendSessionGone i t m \<notin> set a2" for r n i t m
      by (metis snd_conv)+
    moreover have "pre = []"
    proof (cases pre)
      case (Cons x xs)
      then have "kp @ a2 = xs @ ClosePty # post" using a1(1) split by simp
      then have "ClosePty \<in> set (kp @ a2)" by simp
      with a1(2) calculation(2) show ?thesis by auto
    qed simp
    ultimately show ?thesis using a1 split by auto
  next
    case False
    with split obtain pre' where "a2 = pre' @ ClosePty # post"
      by (auto simp: append_eq_append_conv2 Cons_eq_append_conv append_eq_Cons_conv)
    with Cons.IH [OF inv] r show ?thesis by simp
  qed
qed simp

text \<open>C9. In no order of events is the size of the pty set after its descriptor was closed, is the
  descriptor closed twice, or is a client told about the end again: Resize looks at ptyClosed under
  the lock under which Close sets it.\<close>

theorem no_setsize_after_close:
  assumes "fresh_session s" "snd (session_run enc deflate es (config0 s)) = pre @ ClosePty # post"
  shows "Setsize r n \<notin> set post \<and> ClosePty \<notin> set post \<and> SendSessionGone i t m \<notin> set post"
  by (rule first_close [OF _ assms(2)]) (use fresh_inv [OF assms(1)] in \<open>simp add: session_inv_def\<close>)

lemma no_setsize_after_close_witness:
  "Setsize 24 80 \<notin> set [KillProc] \<and> ClosePty \<notin> set [KillProc]"
proof -
  have f: "fresh_session shared_session"
    using session0_fresh [of "''s1''" "''sh''" 24 80 None 0]
    by (simp add: shared_session_def fresh_session_def empty_buffer_def)
  have "snd (session_run (\<lambda>m. Inr [1]) Inr [EvStart None None, EvCloseBegin, EvCloseMark 3, EvCloseFd,
      EvResize None 24 80] (config0 shared_session)) = [] @ ClosePty # [KillProc]"
    by (simp add: config0_def put_def shared_session_def session0_def StartProcess_def close_begin_def
        close_mark_def close_fd_def gone_messages_def Resize_def)
  from no_setsize_after_close [OF f this] show ?thesis by blast
qed

lemma started_after_close:
  assumes "life_inv c" "close_pc c = 3" "\<not> ptyMaster (sess c)"
  shows "proc (sess (fst (session_run enc deflate (EvStart None None # es) c))) \<and>
    ClosePty \<notin> set (snd (session_run enc deflate (EvStart None None # es) c)) \<and>
    KillProc \<notin> set (snd (session_run enc deflate (EvStart None None # es) c))"
proof -
  let ?c1 = "fst (session_do enc deflate (EvStart None None) c)"
  have p: "ptyMaster (sess ?c1)" using assms(3) by (simp add: put_def StartProcess_def)
  have one: "ptyMaster (sess (fst (session_do enc deflate e c)))" if "ptyMaster (sess c)" for e c
  proof (cases "life_event e")
    case False
    with life_fields_step [OF False, of enc deflate c] that show ?thesis by (simp add: life_fields_def)
  next
    case True
    then show ?thesis using that
      by (cases e) (auto simp: life_event_def put_def pty_mark_closed_def close_begin_def close_mark_def)
  qed
  have "ptyMaster (sess (fst (session_run enc deflate es ?c1)))"
    by (rule session_run_inv [where P = "\<lambda>c. ptyMaster (sess c)", OF one p])
  moreover have "life_inv (fst (session_run enc deflate es ?c1))"
    by (rule session_run_inv [where P = life_inv, OF step_life step_life [OF assms(1)]])
  moreover from run_closed_pty [OF assms(1), of enc deflate "EvStart None None"] assms(2)
  have "close_pc ?c1 = 3" by auto
  ultimately show ?thesis
    using run_closed [OF step_life [OF assms(1), of enc deflate "EvStart None None"], of _ _ enc deflate es]
    by (auto simp: Let_def case_prod_unfold life_inv_def put_def split: sum.splits if_splits)
qed

text \<open>StartProcess does not ask whether the session has been closed. The goroutine that starts the
  process of a new session waits for the ready channel and for done at once; when both are ready Go
  picks either. If Close has run first, the process it then starts is never killed and its pty never
  closed, whatever happens afterwards: the end of ptyReader calls Close again, which does nothing.\<close>

theorem process_started_after_close_leaks:
  assumes "fresh_session s" "snd (session_run enc deflate es0 (config0 s)) = acts"
    "fst (session_run enc deflate es0 (config0 s)) = c" "close_pc c = 3" "\<not> ptyMaster (sess c)"
  shows "proc (sess (fst (session_run enc deflate (EvStart None None # es) c))) \<and>
    ClosePty \<notin> set (snd (session_run enc deflate (EvStart None None # es) c)) \<and>
    KillProc \<notin> set (snd (session_run enc deflate (EvStart None None # es) c))"
proof -
  have "life_inv (config0 s)" using fresh_inv [OF assms(1)] by (simp add: session_inv_def)
  then have "life_inv c"
    using session_run_inv [where P = life_inv, OF step_life] assms(3) by blast
  then show ?thesis using assms(4,5) by (rule started_after_close)
qed

lemma process_started_after_close_leaks_witness:
  "KillProc \<notin> set (snd (session_run (\<lambda>m. Inr [1]) Inr
      [EvStart None None, EvPtyClosed 8, EvReap None, EvNotify, EvCloseBegin, EvCloseMark 9, EvCloseFd]
      (fst (session_run (\<lambda>m. Inr [1]) Inr
         [EvRegister 9, EvConnected, EvCloseBegin, EvCloseMark 3, EvCloseFd] (config0 shared_session)))))"
proof -
  have f: "fresh_session shared_session"
    using session0_fresh [of "''s1''" "''sh''" 24 80 None 0]
    by (simp add: shared_session_def fresh_session_def empty_buffer_def)
  have "close_pc (fst (session_run (\<lambda>m. Inr [1]) Inr
        [EvRegister 9, EvConnected, EvCloseBegin, EvCloseMark 3, EvCloseFd] (config0 shared_session))) = 3 \<and>
      \<not> ptyMaster (sess (fst (session_run (\<lambda>m. Inr [1]) Inr
        [EvRegister 9, EvConnected, EvCloseBegin, EvCloseMark 3, EvCloseFd] (config0 shared_session))))"
    by (simp add: config0_def put_def shared_session_def session0_def RegisterQUICClient_def
        OnQUICClientConnected_def signalQuicReadyLocked_def close_begin_def close_mark_def Let_def)
  with process_started_after_close_leaks [OF f refl refl] show ?thesis by blast
qed

text \<open>The redraw that follows every attach restores the size it read 50 ms earlier. A resize that
  arrives in between is undone: the session and its pty end up with the old size.\<close>

theorem redraw_undoes_resize:
  assumes "ptyMaster s" "\<not> ptyClosed s" "Cols s > 1" "Rows s = r" "Cols s = n"
    "redraw_begin None s = ((s1, a1), saved)" "Resize None r' n' s1 = (s2, a2, e2)"
    "redraw_end None saved s2 = (s3, a3)"
  shows "Size s2 = (r', n') \<and> Size s3 = (r, n) \<and> Setsize (word_of_int r) (word_of_int n) \<in> set a3"
  using assms
  by (auto simp: redraw_begin_def redraw_end_def Resize_def Size_def Let_def)

lemma redraw_undoes_resize_witness:
  "Size (fst (redraw_end None (Some (24, 80)) (fst (Resize None 50 120
      (fst (fst (redraw_begin None (shared_session\<lparr>ptyMaster := True\<rparr>)))))))) = (24, 80)"
proof -
  obtain s1 a1 sv where b: "redraw_begin None (shared_session\<lparr>ptyMaster := True\<rparr>) = ((s1, a1), sv)"
    by (metis prod.collapse)
  have sv: "sv = Some (24, 80)" and
    p: "\<not> ptyClosed (shared_session\<lparr>ptyMaster := True\<rparr>)" "Cols (shared_session\<lparr>ptyMaster := True\<rparr>) = 80"
      "Rows (shared_session\<lparr>ptyMaster := True\<rparr>) = 24"
    using b by (auto simp: redraw_begin_def shared_session_def session0_def Let_def case_prod_unfold)
  obtain s2 a2 e2 where r: "Resize None 50 120 s1 = (s2, a2, e2)" by (metis prod.collapse)
  obtain s3 a3 where e: "redraw_end None sv s2 = (s3, a3)" by (metis prod.collapse)
  from redraw_undoes_resize [OF _ p(1) _ p(3,2) b r e] b r e sv show ?thesis by (simp add: p(2))
qed

end
