(* ===== verification/Client_Output.thy ===== *)
theory Client_Output
  imports Session_Delivery
begin

text \<open>
  The output side of the client (cmd/tezzer/output.go, client.go, connect.go): messages from the
  Unix socket and output chunks from QUIC arrive on two goroutines and are rendered once each;
  notices about the end of the session arrive on both paths and set the exit status. The state is
  the part of Client these operations use, together with what was written to the terminal.
\<close>

section \<open>State\<close>

datatype exit_reason = ErrDetached | ErrText string

text \<open>errCh has a buffer of one. ct records whether the QUIC transport is set, stdout what was
  written, status the status messages shown or logged.\<close>

(* cmd/tezzer/client.go:34-118 Client *)
record tclient =
  renderedSeq :: nat
  lastSeq :: nat
  ct :: bool
  outputStopped :: bool
  noPTY :: bool
  altScreen :: "AltScreenTracker option"
  screenState :: ScreenState
  errCh :: "exit_reason option"
  killing :: bool
  sessionClosedNotified :: bool
  sessionExitCode :: int
  c_done :: bool
  stdout :: bytes
  status :: "string list"

definition tclient0 :: tclient where
  "tclient0 = \<lparr>renderedSeq = 0, lastSeq = 0, ct = False, outputStopped = False, noPTY = False,
     altScreen = None, screenState = ScreenUnknown, errCh = None, killing = False,
     sessionClosedNotified = False, sessionExitCode = -1, c_done = False, stdout = [], status = []\<rparr>"

text \<open>A send on errCh that does not block.\<close>

definition send_err :: "exit_reason \<Rightarrow> tclient \<Rightarrow> tclient" where
  "send_err e c = (if errCh c = None then c\<lparr>errCh := Some e\<rparr> else c)"

definition close_done :: "tclient \<Rightarrow> tclient" where
  "close_done c = c\<lparr>c_done := True\<rparr>"

definition setStatusMessage :: "string \<Rightarrow> tclient \<Rightarrow> tclient" where
  "setStatusMessage m c = c\<lparr>status := status c @ [m]\<rparr>"

section \<open>Rendering\<close>

(* cmd/tezzer/client.go:479-499 Client.trackScreen *)
definition trackScreen :: "nat \<Rightarrow> nat \<Rightarrow> bytes \<Rightarrow> tclient \<Rightarrow> tclient" where
  "trackScreen offset frontier data c =
     (case altScreen c of
        None \<Rightarrow> c
      | Some t \<Rightarrow>
          let before = at_state t;
              t1 = (if offset = 1 then NewAltScreenTracker ScreenMain
                    else if offset \<noteq> frontier + 1 then alt_Reset t
                    else t);
              t2 = alt_scan data t1;
              c1 = c\<lparr>altScreen := Some t2\<rparr> in
          if at_state t2 \<noteq> before then c1\<lparr>screenState := at_state t2\<rparr> else c1)"

text \<open>The loop over the chunks: frontier, collected bytes and tracker state.\<close>

(* cmd/tezzer/client.go:458-471 Client.renderOutput *)
fun render_loop ::
  "bool \<Rightarrow> (nat \<times> bytes) list \<Rightarrow> nat \<Rightarrow> bytes \<Rightarrow> tclient \<Rightarrow> nat \<times> bytes \<times> tclient" where
  "render_loop fromQUIC [] frontier buf c = (frontier, buf, c)"
| "render_loop fromQUIC ((offset, data) # chunks) frontier buf c =
     (if offset \<le> frontier then render_loop fromQUIC chunks frontier buf c
      else if offset = frontier + 1 \<or> fromQUIC \<or> \<not> ct c
      then render_loop fromQUIC chunks offset (buf @ data) (trackScreen offset frontier data c)
      else render_loop fromQUIC chunks frontier buf c)"

(* cmd/tezzer/client.go:553-561 Client.writeOutput *)
definition writeOutput :: "bytes \<Rightarrow> tclient \<Rightarrow> tclient" where
  "writeOutput data c = (if noPTY c then c else c\<lparr>stdout := stdout c @ data\<rparr>)"

(* cmd/tezzer/client.go:443-477 Client.renderOutput *)
definition renderOutput :: "(nat \<times> bytes) list \<Rightarrow> bool \<Rightarrow> tclient \<Rightarrow> tclient" where
  "renderOutput chunks fromQUIC c =
     (if outputStopped c then c
      else
        let (frontier, buf, c1) = render_loop fromQUIC chunks (renderedSeq c) [] c in
        if length buf = 0 then c1
        else writeOutput buf (c1\<lparr>renderedSeq := frontier\<rparr>))"

(* cmd/tezzer/client.go:524-533 terminalModeReset *)
definition terminalModeReset :: bytes where
  "terminalModeReset =
     [ESC] @ str_bytes ''[?1049l'' @ [ESC] @ str_bytes ''[?1000l'' @ [ESC] @ str_bytes ''[?1002l'' @
     [ESC] @ str_bytes ''[?1003l'' @ [ESC] @ str_bytes ''[?1005l'' @ [ESC] @ str_bytes ''[?1006l'' @
     [ESC] @ str_bytes ''[?1015l'' @ [ESC] @ str_bytes ''[?1004l'' @ [ESC] @ str_bytes ''[?2004l'' @
     [ESC] @ str_bytes ''[<u'' @ [ESC] @ str_bytes ''[?1l'' @ [ESC] @ str_bytes ''>'' @
     [ESC] @ str_bytes ''[0m'' @ [ESC] @ str_bytes ''[?25h''"

(* cmd/tezzer/client.go:535-551 Client.restoreTerminalModes *)
definition restoreTerminalModes :: "tclient \<Rightarrow> tclient" where
  "restoreTerminalModes c =
     (if outputStopped c then c
      else
        let c1 = c\<lparr>outputStopped := True\<rparr> in
        if noPTY c1 then c1 else c1\<lparr>stdout := stdout c1 @ terminalModeReset\<rparr>)"

text \<open>How handleQUICOutput gathers what is waiting into one call, up to 256 KiB.\<close>

definition maxCoalesce :: nat where
  "maxCoalesce = 256 * 1024"

(* cmd/tezzer/output.go:37-55 Client.handleQUICOutput *)
fun coalesce :: "(nat \<times> bytes) list \<Rightarrow> nat \<Rightarrow> (nat \<times> bytes) list \<Rightarrow> (nat \<times> bytes) list \<times> (nat \<times> bytes) list" where
  "coalesce chunks n [] = (chunks, [])"
| "coalesce chunks n (nxt # waiting) =
     (if n < maxCoalesce then coalesce (chunks @ [nxt]) (n + length (snd nxt)) waiting
      else (chunks, nxt # waiting))"

lemma coalesce_split: "coalesce chunks n ws = (a, b) \<Longrightarrow> a @ b = chunks @ ws \<and> length b \<le> length ws"
  by (induction chunks n ws rule: coalesce.induct) (auto split: if_splits)

(* cmd/tezzer/output.go:26-60 Client.handleQUICOutput *)
function handleQUICOutput :: "(nat \<times> bytes) list \<Rightarrow> tclient \<Rightarrow> tclient" where
  "handleQUICOutput waiting c =
     (if c_done c then c
      else
        (case waiting of
           [] \<Rightarrow> c
         | chunk # rest \<Rightarrow>
             (case coalesce [chunk] (length (snd chunk)) rest of
                (chunks, rest') \<Rightarrow> handleQUICOutput rest' (renderOutput chunks True c))))"
  by pat_completeness auto
termination
  by (relation "measure (\<lambda>(w, _). length w)") (auto dest: coalesce_split [OF sym])

declare handleQUICOutput.simps [simp del]

section \<open>Messages\<close>

(* cmd/tezzer/client.go:156-162 Client.noteSessionExitCode *)
definition noteSessionExitCode :: "int \<Rightarrow> tclient \<Rightarrow> tclient" where
  "noteSessionExitCode code c =
     (if code \<ge> 0 \<and> \<not> killing c then c\<lparr>sessionExitCode := code\<rparr> else c)"

(* cmd/tezzer/client.go:147-154 Client.exitCode *)
definition client_exitCode :: "tclient \<Rightarrow> int" where
  "client_exitCode c = (if sessionExitCode c \<ge> 0 then sessionExitCode c else 0)"

datatype uds_msg =
    UdsOutput nat bytes
  | UdsError string string
  | UdsNote string string "int option"
  | UdsMeta
  | UdsOther

text \<open>One message; the flag says handleServer returns.\<close>

(* cmd/tezzer/output.go:112-184 Client.handleServer *)
fun handle_uds_msg :: "uds_msg \<Rightarrow> tclient \<Rightarrow> tclient \<times> bool" where
  "handle_uds_msg (UdsOutput seq data) c =
     (let c1 = (if \<not> ct c \<and> lastSeq c > 0 \<and> seq > lastSeq c + 1
                then setStatusMessage (''UDS: '' @ show_nat (seq - lastSeq c - 1) @ '' messages lost (continuing)'') c
                else c);
          c2 = c1\<lparr>lastSeq := seq\<rparr> in
      (renderOutput [(seq, data)] False c2, False))"
| "handle_uds_msg (UdsError code message) c =
     (let msg = ''server error: '' @ code @ '': '' @ message;
          msg = (if code = ''QUIC_TIMEOUT''
                 then msg @ CHR 0x0A # ''(check that UDP between this host and the server is not blocked)''
                 else msg) in
      (close_done (send_err (ErrText msg) c), True))"
| "handle_uds_msg (UdsNote kind text code) c =
     (if kind = ''OUTPUT_DROPPED'' then
        (if ct c then (c, False)
         else (setStatusMessage (if text \<noteq> '''' then text else ''Output was dropped (use Ctrl-^ f to redraw)'') c, False))
      else if kind = ''SESSION_CLOSED'' then
        (let c1 = (case code of None \<Rightarrow> c | Some n \<Rightarrow> noteSessionExitCode n c);
             c2 = (if sessionClosedNotified c1 then c1
                   else restoreTerminalModes (c1\<lparr>sessionClosedNotified := True\<rparr>)) in
         (close_done c2, True))
      else (c, False))"
| "handle_uds_msg UdsMeta c = (c, False)"
| "handle_uds_msg UdsOther c = (c, False)"

text \<open>The whole loop over what the socket delivers: messages, then the read error that ends them
  (None while the connection lasts).\<close>

(* cmd/tezzer/output.go:64-185 Client.handleServer *)
fun handleServer :: "uds_msg list \<Rightarrow> err option \<Rightarrow> tclient \<Rightarrow> tclient" where
  "handleServer [] e c =
     (if c_done c then c
      else
        (case e of
           None \<Rightarrow> c
         | Some _ \<Rightarrow>
             if ct c then setStatusMessage ''[Tezzer] UDS control lost (QUIC continuing)'' c
             else close_done (send_err (ErrText ''UDS read error'') c)))"
| "handleServer (m # ms) e c =
     (if c_done c then c
      else (case handle_uds_msg m c of (c1, ret) \<Rightarrow> if ret then c1 else handleServer ms e c1))"

(* cmd/tezzer/connect.go:198-228 Client.startQUICTransport *)
definition on_session_not_found :: "string \<Rightarrow> int \<Rightarrow> tclient \<Rightarrow> tclient" where
  "on_session_not_found reason code c =
     (if killing c then send_err ErrDetached c
      else if HasPrefix reason ''SESSION_CLOSED:'' then
        (let c1 = noteSessionExitCode code c;
             c2 = (if sessionClosedNotified c1 then c1
                   else restoreTerminalModes (c1\<lparr>sessionClosedNotified := True\<rparr>)) in
         send_err ErrDetached c2)
      else send_err (ErrText reason) c)"

text \<open>What the main loop returns once errCh or done is ready.\<close>

(* cmd/tezzer/main.go:660-677 run *)
definition main_result :: "tclient \<Rightarrow> (exit_reason + int) option" where
  "main_result c =
     (case errCh c of
        Some ErrDetached \<Rightarrow> Some (Inr (client_exitCode c))
      | Some (ErrText e) \<Rightarrow> Some (Inl (ErrText e))
      | None \<Rightarrow> if c_done c then Some (Inr (client_exitCode c)) else None)"

section \<open>Rendering once\<close>

lemma trackScreen_frame [simp]:
  "renderedSeq (trackScreen n f d c) = renderedSeq c" "ct (trackScreen n f d c) = ct c"
  "outputStopped (trackScreen n f d c) = outputStopped c" "noPTY (trackScreen n f d c) = noPTY c"
  "stdout (trackScreen n f d c) = stdout c" "c_done (trackScreen n f d c) = c_done c"
  "trackScreen n f d (c\<lparr>renderedSeq := r\<rparr>) = (trackScreen n f d c)\<lparr>renderedSeq := r\<rparr>"
  "trackScreen n f d (c\<lparr>stdout := b\<rparr>) = (trackScreen n f d c)\<lparr>stdout := b\<rparr>"
  by (simp_all add: trackScreen_def Let_def split: option.split)

text \<open>The chunks a call accepts.\<close>

fun accepted :: "bool \<Rightarrow> bool \<Rightarrow> (nat \<times> bytes) list \<Rightarrow> nat \<Rightarrow> (nat \<times> bytes) list" where
  "accepted fromQUIC hasct [] frontier = []"
| "accepted fromQUIC hasct ((offset, data) # chunks) frontier =
     (if offset \<le> frontier then accepted fromQUIC hasct chunks frontier
      else if offset = frontier + 1 \<or> fromQUIC \<or> \<not> hasct
      then (offset, data) # accepted fromQUIC hasct chunks offset
      else accepted fromQUIC hasct chunks frontier)"

lemma render_loop_accepted:
  "fst (render_loop q cs f buf c) = last (f # map fst (accepted q (ct c) cs f))"
  "fst (snd (render_loop q cs f buf c)) = buf @ concat (map snd (accepted q (ct c) cs f))"
  "renderedSeq (snd (snd (render_loop q cs f buf c))) = renderedSeq c"
  "ct (snd (snd (render_loop q cs f buf c))) = ct c"
  "outputStopped (snd (snd (render_loop q cs f buf c))) = outputStopped c"
  "noPTY (snd (snd (render_loop q cs f buf c))) = noPTY c"
  "stdout (snd (snd (render_loop q cs f buf c))) = stdout c"
  "c_done (snd (snd (render_loop q cs f buf c))) = c_done c"
  by (induction q cs f buf c rule: render_loop.induct) auto

lemma accepted_subset: "set (accepted q h cs f) \<subseteq> set cs"
proof (induction q h cs f rule: accepted.induct)
  case (2 q h offset data cs f)
  then show ?case
    by (cases "offset \<le> f"; cases "offset = f + 1 \<or> q \<or> \<not> h") auto
qed simp

lemma accepted_sorted: "sorted_wrt (<) (f # map fst (accepted q h cs f))"
proof (induction q h cs f rule: accepted.induct)
  case (2 q h offset data cs f)
  then show ?case
    by (cases "offset \<le> f"; cases "offset = f + 1 \<or> q \<or> \<not> h") (auto intro: less_trans)
qed simp

lemma sorted_le_last: "sorted_wrt (<) (xs :: nat list) \<Longrightarrow> x \<in> set xs \<Longrightarrow> x \<le> last xs"
  by (induction xs) (auto dest: less_imp_le)

lemma concat_Nil_accepted:
  "list_all (\<lambda>c. snd c \<noteq> []) cs \<Longrightarrow> concat (map snd (accepted q h cs f)) = [] \<longleftrightarrow> accepted q h cs f = []"
  using accepted_subset [of q h cs f] by (cases "accepted q h cs f") (auto simp: list_all_iff)

lemma render_fields:
  assumes "list_all (\<lambda>c. snd c \<noteq> []) cs" "\<not> outputStopped c" "\<not> noPTY c"
  shows "stdout (renderOutput cs q c) = stdout c @ concat (map snd (accepted q (ct c) cs (renderedSeq c)))"
    "renderedSeq (renderOutput cs q c) = last (renderedSeq c # map fst (accepted q (ct c) cs (renderedSeq c)))"
    "ct (renderOutput cs q c) = ct c" "outputStopped (renderOutput cs q c) = outputStopped c"
    "noPTY (renderOutput cs q c) = noPTY c" "c_done (renderOutput cs q c) = c_done c"
  using render_loop_accepted [of q cs "renderedSeq c" "[]" c] concat_Nil_accepted [OF assms(1), of q "ct c" "renderedSeq c"] assms
  by (auto simp: renderOutput_def writeOutput_def case_prod_unfold Let_def)

text \<open>Events at the client's output: a call from either path, or the transport being set.\<close>

datatype render_event = FromUds "(nat \<times> bytes) list" | FromQuic "(nat \<times> bytes) list" | SetTransport

fun on_render :: "render_event \<Rightarrow> tclient \<Rightarrow> tclient" where
  "on_render (FromUds cs) c = renderOutput cs False c"
| "on_render (FromQuic cs) c = renderOutput cs True c"
| "on_render SetTransport c = c\<lparr>ct := True\<rparr>"

fun event_chunks :: "render_event \<Rightarrow> (nat \<times> bytes) list" where
  "event_chunks (FromUds cs) = cs"
| "event_chunks (FromQuic cs) = cs"
| "event_chunks SetTransport = []"

definition nonempty_chunks :: "render_event list \<Rightarrow> bool" where
  "nonempty_chunks es \<longleftrightarrow> list_all (\<lambda>e. list_all (\<lambda>c. snd c \<noteq> []) (event_chunks e)) es"

definition rendering :: "tclient \<Rightarrow> bool" where
  "rendering c \<longleftrightarrow> \<not> outputStopped c \<and> \<not> noPTY c"

lemma render_step:
  assumes "rendering c" "list_all (\<lambda>c. snd c \<noteq> []) (event_chunks e)"
  obtains L where "stdout (on_render e c) = stdout c @ concat (map snd L)"
    "sorted_wrt (<) (renderedSeq c # map fst L)" "set L \<subseteq> set (event_chunks e)"
    "renderedSeq (on_render e c) = last (renderedSeq c # map fst L)" "rendering (on_render e c)"
proof (cases e)
  case (FromUds cs)
  with assms that [of "accepted False (ct c) cs (renderedSeq c)"] render_fields [of cs c False]
    accepted_sorted [of "renderedSeq c" False "ct c" cs] accepted_subset [of False "ct c" cs "renderedSeq c"] show ?thesis
    by (simp add: rendering_def)
next
  case (FromQuic cs)
  with assms that [of "accepted True (ct c) cs (renderedSeq c)"] render_fields [of cs c True]
    accepted_sorted [of "renderedSeq c" True "ct c" cs] accepted_subset [of True "ct c" cs "renderedSeq c"] show ?thesis
    by (simp add: rendering_def)
next
  case SetTransport
  with assms that [of "[]"] show ?thesis by (simp add: rendering_def)
qed

lemma render_run:
  assumes "rendering c" "nonempty_chunks es"
  shows "\<exists>L. stdout (fold on_render es c) = stdout c @ concat (map snd L) \<and>
    sorted_wrt (<) (renderedSeq c # map fst L) \<and> set L \<subseteq> (\<Union>e\<in>set es. set (event_chunks e)) \<and>
    renderedSeq (fold on_render es c) = last (renderedSeq c # map fst L)"
  using assms
proof (induction es arbitrary: c)
  case (Cons e es)
  from Cons.prems(2) have e: "list_all (\<lambda>c. snd c \<noteq> []) (event_chunks e)" and es: "nonempty_chunks es"
    by (simp_all add: nonempty_chunks_def)
  from render_step [OF Cons.prems(1) e] obtain L where
    L: "stdout (on_render e c) = stdout c @ concat (map snd L)"
    "sorted_wrt (<) (renderedSeq c # map fst L)" "set L \<subseteq> set (event_chunks e)"
    "renderedSeq (on_render e c) = last (renderedSeq c # map fst L)" "rendering (on_render e c)" .
  from Cons.IH [OF L(5) es] obtain M where
    M: "stdout (fold on_render es (on_render e c)) = stdout (on_render e c) @ concat (map snd M)"
    "sorted_wrt (<) (renderedSeq (on_render e c) # map fst M)" "set M \<subseteq> (\<Union>e\<in>set es. set (event_chunks e))"
    "renderedSeq (fold on_render es (on_render e c)) = last (renderedSeq (on_render e c) # map fst M)"
    by blast
  have le: "x \<le> last (renderedSeq c # map fst L)" if "x \<in> set (renderedSeq c # map fst L)" for x
    using that L(2) by (blast intro: sorted_le_last)
  have "sorted_wrt (<) (renderedSeq c # map fst (L @ M))"
  proof -
    have "x < y" if "x \<in> set (renderedSeq c # map fst L)" "y \<in> set (map fst M)" for x y
      using M(2) that(2) le [OF that(1)] unfolding L(4) by (auto intro: le_less_trans)
    then have "sorted_wrt (<) ((renderedSeq c # map fst L) @ map fst M)"
      using L(2) M(2) unfolding sorted_wrt_append by (simp only: sorted_wrt.simps(2)) blast
    then show ?thesis by simp
  qed
  then show ?case
    using L M by (intro exI [of _ "L @ M"]) auto
qed (auto intro: exI [of _ "[]"])

text \<open>Whatever the socket and QUIC deliver and in whatever order their goroutines render it, the
  terminal receives each position of the session's output at most once, in ascending order, and
  nothing else, even when the transport is set in between.\<close>

theorem rendered_once:
  assumes "rendering c" "nonempty_chunks es"
  shows "\<exists>L. stdout (fold on_render es c) = stdout c @ concat (map snd L) \<and>
    sorted_wrt (<) (renderedSeq c # map fst L) \<and> set L \<subseteq> (\<Union>e\<in>set es. set (event_chunks e)) \<and>
    renderedSeq (fold on_render es c) = last (renderedSeq c # map fst L)"
  by (rule render_run [OF assms])

lemma rendered_once_witness:
  "\<exists>L :: (nat \<times> bytes) list. stdout (fold on_render [FromUds [(1, [65])], SetTransport, FromQuic [(1, [65]), (2, [66])], FromUds [(2, [66])]] tclient0) =
     concat (map snd L) \<and> sorted_wrt (<) (map fst L)"
proof -
  let ?es = "[FromUds [(1, [65])], SetTransport, FromQuic [(1, [65]), (2, [66])], FromUds [(2, [66])]]"
  have "rendering tclient0" "nonempty_chunks ?es" "stdout tclient0 = []"
    by (simp_all add: rendering_def tclient0_def nonempty_chunks_def)
  with rendered_once [of tclient0 ?es] obtain L where
    L: "stdout (fold on_render ?es tclient0) = concat (map snd L)" "sorted_wrt (<) (renderedSeq tclient0 # map fst L)"
    by auto
  from L(2) have "sorted_wrt (<) (map fst L)" by simp
  with L(1) show ?thesis by blast
qed

subsection \<open>Completeness with QUIC\<close>

definition stream_chunks :: "(nat \<Rightarrow> bytes) \<Rightarrow> nat \<Rightarrow> nat \<Rightarrow> (nat \<times> bytes) list" where
  "stream_chunks D a b = map (\<lambda>n. (n, D n)) [a..<b]"

fun quic_chunks :: "render_event list \<Rightarrow> (nat \<times> bytes) list" where
  "quic_chunks [] = []"
| "quic_chunks (FromQuic cs # es) = cs @ quic_chunks es"
| "quic_chunks (e # es) = quic_chunks es"

lemma accepted_uds:
  "list_all (\<lambda>c. snd c = D (fst c)) cs \<Longrightarrow>
   accepted False True cs f = stream_chunks D (f + 1) (last (f # map fst (accepted False True cs f)) + 1)"
proof (induction cs arbitrary: f)
  case (Cons p cs)
  obtain n d where p: "p = (n, d)" by force
  show ?case
  proof (cases "n = f + 1")
    case True
    let ?A = "accepted False True cs n"
    have ih: "?A = stream_chunks D (n + 1) (last (n # map fst ?A) + 1)" using Cons by simp
    have "n \<le> last (n # map fst ?A)"
      by (rule sorted_le_last [OF accepted_sorted]) simp
    then have "stream_chunks D n (last (n # map fst ?A) + 1) = (n, D n) # stream_chunks D (n + 1) (last (n # map fst ?A) + 1)"
      unfolding stream_chunks_def by (subst upt_conv_Cons) auto
    with ih Cons.prems p True show ?thesis by simp
  next
    case False
    then have "accepted False True (p # cs) f = accepted False True cs f" using p by simp
    with Cons.IH [of f] Cons.prems show ?thesis by (simp only: list.pred_inject)
  qed
qed (simp add: stream_chunks_def)

lemma accepted_quic:
  "a \<le> f + 1 \<Longrightarrow> accepted True h (stream_chunks D a b) f = stream_chunks D (f + 1) b"
proof (induction "b - a" arbitrary: a f)
  case 0
  then show ?case by (simp add: stream_chunks_def)
next
  case (Suc k)
  then have ab: "a < b" by simp
  then have s: "stream_chunks D a b = (a, D a) # stream_chunks D (a + 1) b"
    unfolding stream_chunks_def by (subst upt_conv_Cons) auto
  show ?case
  proof (cases "a \<le> f")
    case True
    with Suc.hyps(1) [of "a + 1" f] Suc.hyps(2) s show ?thesis by simp
  next
    case False
    with Suc.prems have "a = f + 1" by simp
    with Suc.hyps(1) [of "a + 1" a] Suc.hyps(2) s show ?thesis by simp
  qed
qed

lemma last_stream: "last (f # map fst (stream_chunks D (f + 1) b)) = max f (b - 1)"
  by (cases "f + 1 < b") (auto simp: stream_chunks_def comp_def)

lemma stream_append: "a \<le> b \<Longrightarrow> b \<le> c \<Longrightarrow> stream_chunks D a b @ stream_chunks D b c = stream_chunks D a c"
  using upt_add_eq_append [of a b "c - b"] by (simp add: stream_chunks_def)

lemma split_stream:
  "cs @ rest = stream_chunks D a b \<Longrightarrow> cs = stream_chunks D a (min b (a + length cs)) \<and> rest = stream_chunks D (a + length cs) b"
  unfolding stream_chunks_def append_eq_conv_conj
  by (auto simp: take_map drop_map min_def)

lemma render_complete:
  assumes "rendering c" "ct c" "\<forall>n. D n \<noteq> []" "SetTransport \<notin> set es"
    "\<forall>e\<in>set es. list_all (\<lambda>x. snd x = D (fst x)) (event_chunks e)"
    "quic_chunks es = stream_chunks D (q + 1) (n + 1)" "q \<le> renderedSeq c"
  shows "\<exists>m\<ge>renderedSeq c. n \<le> m + (q - n) \<and> (q < n \<longrightarrow> n \<le> m) \<and> renderedSeq (fold on_render es c) = m \<and>
    stdout (fold on_render es c) = stdout c @ concat (map snd (stream_chunks D (renderedSeq c + 1) (m + 1)))"
  using assms
proof (induction es arbitrary: c q)
  case Nil
  then have "n \<le> q" by (auto simp: stream_chunks_def split: if_splits)
  with Nil show ?case by (auto simp: stream_chunks_def)
next
  case (Cons e es)
  have ne: "list_all (\<lambda>c. snd c \<noteq> []) (event_chunks e)"
    using Cons.prems(3,5) by (auto simp: list_all_iff)
  have r: "\<not> outputStopped c" "\<not> noPTY c" using Cons.prems(1) by (simp_all add: rendering_def)
  show ?case
  proof (cases e)
    case (FromUds cs)
    let ?c = "on_render e c" and ?m = "last (renderedSeq c # map fst (accepted False True cs (renderedSeq c)))"
    note f = render_fields [OF ne r, of False, unfolded FromUds event_chunks.simps]
    have acc: "accepted False True cs (renderedSeq c) = stream_chunks D (renderedSeq c + 1) (?m + 1)"
      using Cons.prems(5) FromUds by (intro accepted_uds) simp
    have c: "renderedSeq ?c = ?m" "stdout ?c = stdout c @ concat (map snd (stream_chunks D (renderedSeq c + 1) (?m + 1)))"
      "ct ?c" "rendering ?c"
      using f Cons.prems(1,2) acc FromUds by (simp_all add: rendering_def)
    have le: "renderedSeq c \<le> ?m" by (rule sorted_le_last [OF accepted_sorted]) simp
    have "\<exists>m\<ge>renderedSeq ?c. n \<le> m + (q - n) \<and> (q < n \<longrightarrow> n \<le> m) \<and> renderedSeq (fold on_render es ?c) = m \<and>
        stdout (fold on_render es ?c) = stdout ?c @ concat (map snd (stream_chunks D (renderedSeq ?c + 1) (m + 1)))"
      using Cons.prems FromUds c le by (intro Cons.IH) auto
    then obtain m where m: "?m \<le> m" "n \<le> m + (q - n)" "q < n \<longrightarrow> n \<le> m" "renderedSeq (fold on_render es ?c) = m"
      "stdout (fold on_render es ?c) = stdout ?c @ concat (map snd (stream_chunks D (?m + 1) (m + 1)))"
      unfolding c(1) by blast
    have "stream_chunks D (renderedSeq c + 1) (?m + 1) @ stream_chunks D (?m + 1) (m + 1) =
        stream_chunks D (renderedSeq c + 1) (m + 1)"
      using le m(1) by (intro stream_append) simp_all
    then have "concat (map snd (stream_chunks D (renderedSeq c + 1) (?m + 1))) @
        concat (map snd (stream_chunks D (?m + 1) (m + 1))) = concat (map snd (stream_chunks D (renderedSeq c + 1) (m + 1)))"
      by (metis concat_append map_append)
    with m c(2) le show ?thesis by (intro exI [of _ m]) simp
  next
    case (FromQuic cs)
    let ?c = "on_render e c" and ?k = "length cs"
    have split: "cs = stream_chunks D (q + 1) (min (n + 1) (q + 1 + ?k))" "quic_chunks es = stream_chunks D (q + 1 + ?k) (n + 1)"
      using split_stream [of cs "quic_chunks es" D "q + 1" "n + 1"] Cons.prems(6) FromQuic by simp_all
    let ?b = "min (n + 1) (q + 1 + ?k)"
    note f = render_fields [OF ne r, of True, unfolded FromQuic event_chunks.simps]
    have acc: "accepted True True cs (renderedSeq c) = stream_chunks D (renderedSeq c + 1) ?b"
      using accepted_quic [of "q + 1" "renderedSeq c" True D ?b] split(1) Cons.prems(7) by simp
    let ?m = "max (renderedSeq c) (?b - 1)"
    have str: "stream_chunks D (renderedSeq c + 1) ?b = stream_chunks D (renderedSeq c + 1) (?m + 1)"
      by (cases "renderedSeq c + 1 < ?b") (auto simp: stream_chunks_def max_def simp del: upt_Suc)
    have c: "renderedSeq ?c = ?m" "stdout ?c = stdout c @ concat (map snd (stream_chunks D (renderedSeq c + 1) (?m + 1)))"
      "ct ?c" "rendering ?c"
      using f Cons.prems(1,2) acc FromQuic last_stream [of "renderedSeq c" D ?b] str by (simp_all add: rendering_def)
    have len: "?k = ?b - (q + 1)" using arg_cong [OF split(1), of length] by (simp add: stream_chunks_def del: upt_Suc)
    have "\<exists>m\<ge>renderedSeq ?c. n \<le> m + (q + ?k - n) \<and> (q + ?k < n \<longrightarrow> n \<le> m) \<and> renderedSeq (fold on_render es ?c) = m \<and>
        stdout (fold on_render es ?c) = stdout ?c @ concat (map snd (stream_chunks D (renderedSeq ?c + 1) (m + 1)))"
      using Cons.prems FromQuic c split(2) len by (intro Cons.IH) auto
    then obtain m where m: "?m \<le> m" "q + ?k < n \<longrightarrow> n \<le> m" "renderedSeq (fold on_render es ?c) = m"
      "stdout (fold on_render es ?c) = stdout ?c @ concat (map snd (stream_chunks D (?m + 1) (m + 1)))"
      unfolding c(1) by blast
    have "stream_chunks D (renderedSeq c + 1) (?m + 1) @ stream_chunks D (?m + 1) (m + 1) =
        stream_chunks D (renderedSeq c + 1) (m + 1)"
      using m(1) by (intro stream_append) simp_all
    then have "concat (map snd (stream_chunks D (renderedSeq c + 1) (?m + 1))) @
        concat (map snd (stream_chunks D (?m + 1) (m + 1))) = concat (map snd (stream_chunks D (renderedSeq c + 1) (m + 1)))"
      by (metis concat_append map_append)
    moreover have "q < n \<longrightarrow> n \<le> m" "n \<le> m + (q - n)"
      using m(1,2) len Cons.prems(7) by auto
    ultimately show ?thesis using m c(2) by (intro exI [of _ m]) simp
  qed (use Cons.prems in simp)
qed

text \<open>While the transport is set, QUIC delivers the consecutive positions up to n, and the socket
  delivers any of the session's chunks at any time: the terminal receives exactly the session's
  output from where it was, without a gap, a repetition or a reordering, at least up to n.\<close>

theorem quic_fills_every_gap:
  assumes "rendering c" "ct c" "\<forall>n. D n \<noteq> []" "SetTransport \<notin> set es"
    "\<forall>e\<in>set es. list_all (\<lambda>x. snd x = D (fst x)) (event_chunks e)"
    "quic_chunks es = stream_chunks D (renderedSeq c + 1) (n + 1)" "renderedSeq c < n"
  shows "\<exists>m\<ge>n. renderedSeq (fold on_render es c) = m \<and>
    stdout (fold on_render es c) = stdout c @ concat (map D [renderedSeq c + 1..<m + 1])"
  using render_complete [OF assms(1-6) order_refl] assms(7)
  by (auto simp: stream_chunks_def comp_def)

lemma quic_fills_every_gap_witness:
  "\<exists>m\<ge>2. stdout (fold on_render [FromUds [(1, [1])], FromQuic [(1, [1])], FromUds [(3, [1])], FromQuic [(2, [1])]]
      (tclient0\<lparr>ct := True\<rparr>)) = concat (map (\<lambda>n. [1]) [1..<m + 1])"
proof -
  let ?es = "[FromUds [(1, [1])], FromQuic [(1, [1])], FromUds [(3, [1])], FromQuic [(2, [1])]]"
  let ?c = "tclient0\<lparr>ct := True\<rparr>"
  have c: "rendering ?c" "ct ?c" "renderedSeq ?c = 0" "stdout ?c = []"
    by (simp_all add: rendering_def tclient0_def)
  have "quic_chunks ?es = stream_chunks (\<lambda>n. [1]) (renderedSeq ?c + 1) (2 + 1)"
    by (simp add: stream_chunks_def c numeral_2_eq_2)
  from quic_fills_every_gap [OF c(1,2) _ _ _ this] c(3,4) show ?thesis
    by (auto simp del: fold.simps)
qed

text \<open>How QUIC's chunks are grouped into calls makes no difference.\<close>

lemma accepted_append:
  "accepted q h (xs @ ys) f = accepted q h xs f @ accepted q h ys (last (f # map fst (accepted q h xs f)))"
  by (induction q h xs f rule: accepted.induct) auto

section \<open>The end of the session\<close>

lemma end_fields:
  assumes "sessionClosedNotified c" "outputStopped c" "sessionExitCode c = code" "code \<ge> 0" "\<not> killing c"
    "errCh c \<in> {None, Some ErrDetached}" "c_done c \<or> errCh c \<noteq> None"
  shows "main_result c = Some (Inr code)" "renderOutput cs q c = c" "restoreTerminalModes c = c"
  using assms by (auto simp: main_result_def client_exitCode_def renderOutput_def restoreTerminalModes_def)

text \<open>C29. The end of the session is announced on both paths. Whichever notice arrives, alone or both in
  either order, the client returns the status of the process, the terminal modes are reset exactly
  once, before anything that might follow, and later output is not written.\<close>

theorem end_of_session:
  assumes "rendering c" "errCh c = None" "\<not> killing c" "\<not> sessionClosedNotified c" "code \<ge> 0"
    "HasPrefix reason ''SESSION_CLOSED:''"
    "uds = fst \<circ> handle_uds_msg (UdsNote ''SESSION_CLOSED'' note_msg (Some code))"
    "quic = on_session_not_found reason code"
    "c' \<in> {uds c, quic c, quic (uds c), uds (quic c)}"
  shows "main_result c' = Some (Inr code) \<and> stdout c' = stdout c @ terminalModeReset \<and>
    renderOutput cs q c' = c'"
proof -
  have "sessionClosedNotified c' \<and> outputStopped c' \<and> sessionExitCode c' = code \<and> \<not> killing c' \<and>
      errCh c' \<in> {None, Some ErrDetached} \<and> (c_done c' \<or> errCh c' \<noteq> None) \<and>
      stdout c' = stdout c @ terminalModeReset"
    using assms
    by (auto simp: rendering_def noteSessionExitCode_def restoreTerminalModes_def close_done_def send_err_def
        on_session_not_found_def Let_def)
  with end_fields [of c' code] assms(5) show ?thesis by blast
qed

lemma end_of_session_witness:
  "main_result (on_session_not_found ''SESSION_CLOSED: PTY session has ended'' 3
     (fst (handle_uds_msg (UdsNote ''SESSION_CLOSED'' ''x'' (Some 3)) tclient0))) = Some (Inr 3)"
  using end_of_session [where c = tclient0 and code = 3 and reason = "''SESSION_CLOSED: PTY session has ended''"
      and note_msg = "''x''" and c' = "on_session_not_found ''SESSION_CLOSED: PTY session has ended'' 3
     (fst (handle_uds_msg (UdsNote ''SESSION_CLOSED'' ''x'' (Some 3)) tclient0))", OF _ _ _ _ _ _ refl refl]
  by (simp add: rendering_def tclient0_def HasPrefix_def del: handle_uds_msg.simps)

section \<open>Attaching while the session writes\<close>

text \<open>All the sends of sendBufferedOutput, with nothing in between and room for them.\<close>

(* internal/session/session.go:1073-1090 Session.sendBufferedOutput *)
fun replay_all :: "(server_msg \<Rightarrow> err + bytes) \<Rightarrow> string \<Rightarrow> OutputChunk list \<Rightarrow> Session \<Rightarrow> Session" where
  "replay_all enc k [] s = s"
| "replay_all enc k (c # cs) s =
     (case replay_send enc k (c # cs) s of
        None \<Rightarrow> s
      | Some (s', rest) \<Rightarrow> if rest = [] then s' else replay_all enc k cs s')"

lemma replay_all_out:
  assumes "map_of (clients s) k = Some c" "length (OutCh c) + length chunks \<le> outch_cap"
  shows "map_of (clients (replay_all (\<lambda>m. Inr (e m)) k chunks s)) k =
    Some (c\<lparr>OutCh := OutCh c @ map (\<lambda>ch. e (OutputMsg (ID s) (Seq ch) (Data ch))) chunks\<rparr>)"
  using assms
proof (induction chunks arbitrary: s c)
  case (Cons ch chunks)
  let ?b = "e (OutputMsg (ID s) (Seq ch) (Data ch))" and ?c = "c\<lparr>OutCh := OutCh c @ [e (OutputMsg (ID s) (Seq ch) (Data ch))]\<rparr>"
  let ?s = "s\<lparr>clients := AList.update k ?c (clients s)\<rparr>"
  have send: "replay_send (\<lambda>m. Inr (e m)) k (ch # chunks) s = Some (?s, chunks)"
    using Cons.prems by (simp add: replay_send_def offer_def)
  have m: "map_of (clients ?s) k = Some ?c" by (simp add: AList.update_conv')
  show ?case
  proof (cases chunks)
    case Nil
    with send m show ?thesis by simp
  next
    case (Cons x xs)
    with send Cons.IH [OF m] Cons.prems(2) show ?thesis by simp
  qed
qed simp

lemma replay_bound:
  assumes "buf_inv inflate s" "ch \<in> set (replay_chunks n (fst (handle_locked now now' data s)))" "sq s + 1 < 2 ^ 64"
  shows "Seq ch \<le> sq s + 1"
proof -
  let ?s1 = "append_output now data s"
  let ?s2 = "?s1\<lparr>termModes := mode_scan data (termModes ?s1), lastOutputAt := Some now\<rparr>"
  have "fst (handle_locked now now' data s) = fst (evictOutputChunksLocked now' ?s2)"
    by (simp add: handle_locked_def Let_def)
  with assms(2) have "ch \<in> set (coldPending ?s2 @ outputChunks ?s2)"
    using subseq_subset [OF evict_raw [of now' ?s2]] by (auto simp: replay_chunks_def)
  then consider "ch \<in> set (coldPending s @ outputChunks s)" | "Seq ch = (sq s + 1) mod 2 ^ 64"
    by (auto simp: append_output_def Let_def)
  then show ?thesis
  proof cases
    case 1
    then have "untimed ch \<in> set (retained inflate s)"
      by (auto simp: retained_def raw_retained_def)
    moreover have "\<forall>x\<in>set (retained inflate s). Seq x \<le> sq s"
      using assms(1) by (simp add: buf_inv_def log_ok_def)
    ultimately have "Seq (untimed ch) \<le> sq s" by (rule bspec [rotated])
    then show ?thesis by simp
  next
    case 2
    then show ?thesis using assms(3) by simp
  qed
qed

text \<open>The client that reads everything from its channel.\<close>

definition read_all_out :: "(bytes \<Rightarrow> uds_msg) \<Rightarrow> bytes list \<Rightarrow> tclient \<Rightarrow> tclient" where
  "read_all_out dec bs c = fold (\<lambda>b c. fst (handle_uds_msg (dec b) c)) bs c"

lemma already_rendered:
  assumes "\<forall>b\<in>set bs. \<exists>n d. dec b = UdsOutput n d \<and> n \<le> renderedSeq c"
  shows "stdout (read_all_out dec bs c) = stdout c \<and> renderedSeq (read_all_out dec bs c) = renderedSeq c"
  using assms
proof (induction bs arbitrary: c)
  case (Cons b bs)
  then obtain n d where b: "dec b = UdsOutput n d" "n \<le> renderedSeq c" by auto
  let ?c = "fst (handle_uds_msg (dec b) c)"
  have "stdout ?c = stdout c" "renderedSeq ?c = renderedSeq c"
    using b by (simp_all add: renderOutput_def setStatusMessage_def Let_def)
  with Cons show ?case by (simp add: read_all_out_def)
qed (simp add: read_all_out_def)

lemma overtaken:
  assumes "buf_inv inflate s" "clients_inv s" "quicReady s" "sq s + 1 < 2 ^ 64" "data \<noteq> []"
    "\<And>i n d. dec (e (OutputMsg i n d)) = UdsOutput n d"
    "AttachClient protocol addr 0 s = (s1, k)"
    "handlePTYOutput (\<lambda>m. Inr (e m)) active now now' data s1 = (s2, acts)"
    "length (replay_chunks 0 s2) < outch_cap"
  shows "\<exists>c. map_of (clients (replay_all (\<lambda>m. Inr (e m)) k (replay_chunks 0 s2) s2)) k = Some c \<and>
    OutCh c = e (OutputMsg (ID s) (sq s + 1) data)
      # map (\<lambda>ch. e (OutputMsg (ID s) (Seq ch) (Data ch))) (replay_chunks 0 s2) \<and>
    stdout (read_all_out dec (OutCh c) tclient0) = data \<and>
    renderedSeq (read_all_out dec (OutCh c) tclient0) = sq s + 1"
proof -
  have a: "clients_inv s1" "ID s1 = ID s" "sq s1 = sq s" "quicReady s1" "buf_inv inflate s1"
    using assms(1-3,7) attach_clients [of s protocol addr 0]
      buf_inv_cong [OF other_ops_truncate(3) [of protocol addr 0 s]]
    by (auto simp: AttachClient_def Let_def)
  obtain c0 where c0: "map_of (clients s1) k = Some c0" "OutCh c0 = []" "QUICClientID c0 = 0"
  proof -
    have "(k, \<lparr>cl_ID = k, OutCh = [], cl_Done = False, QUICClientID = 0, cl_Protocol = protocol,
        cl_RemoteAddr = addr\<rparr>) \<in> set (clients s1)"
      using assms(7) by (auto simp: AttachClient_def Let_def)
    then show ?thesis using that a(1) by (simp add: clients_inv_def map_of_eq_Some)
  qed
  let ?b = "e (OutputMsg (ID s) (sq s + 1) data)"
  have sqm: "(sq s1 + 1) mod 2 ^ 64 = sq s + 1" using assms(4) a(3) by simp
  have "on_socket active s1 c0" using a(4) c0(3) by (simp add: on_socket_def)
  with output_outcome(2) [OF assms(5) a(1) refl assms(8), of k] c0 a(2) sqm
  have c1: "map_of (clients s2) k = Some (c0\<lparr>OutCh := [?b]\<rparr>)"
    by (simp add: offer_def outch_cap_def)
  have s2: "replay_chunks 0 s2 = replay_chunks 0 (fst (handle_locked now now' data s1))" "ID s2 = ID s"
    using assms(5,8) a(2) locked_fields(1) [of now now' data s1]
    by (auto simp: handlePTYOutput_def handle_deliver_def replay_chunks_def Let_def case_prod_unfold
        split: if_splits)
  have "length (OutCh (c0\<lparr>OutCh := [?b]\<rparr>)) + length (replay_chunks 0 s2) \<le> outch_cap"
    using assms(9) by simp
  from replay_all_out [OF c1 this, of e] s2(2)
  obtain c where c: "map_of (clients (replay_all (\<lambda>m. Inr (e m)) k (replay_chunks 0 s2) s2)) k = Some c"
    and out: "OutCh c = ?b # map (\<lambda>ch. e (OutputMsg (ID s) (Seq ch) (Data ch))) (replay_chunks 0 s2)" by simp
  let ?c = "fst (handle_uds_msg (UdsOutput (sq s + 1) data) tclient0)"
  have first: "stdout ?c = data" "renderedSeq ?c = sq s + 1"
    using assms(5) by (simp_all add: tclient0_def renderOutput_def writeOutput_def trackScreen_def Let_def)
  have "\<forall>b\<in>set (map (\<lambda>ch. e (OutputMsg (ID s) (Seq ch) (Data ch))) (replay_chunks 0 s2)).
      \<exists>n d. dec b = UdsOutput n d \<and> n \<le> renderedSeq ?c"
    using replay_bound [OF a(5), of _ 0 now now' data] a(3) assms(4,6) first(2) s2(1) by auto
  from already_rendered [OF this] first out assms(6) c show ?thesis by (simp add: read_all_out_def)
qed

text \<open>A client attaches to a running session without QUIC, and one chunk of output is handled
  after AttachClient has entered it in the client map and before the goroutine that replays the
  retained output has copied it. The new chunk is then first in the client's channel, and the client
  renders that chunk alone: everything replayed lies below what it has rendered and is dropped. The
  position it would ask QUIC to continue from is past the dropped output as well.\<close>

theorem live_output_overtakes_replay:
  assumes "buf_inv inflate s" "clients_inv s" "quicReady s" "sq s + 1 < 2 ^ 64" "data \<noteq> []"
    "\<And>i n d. dec (e (OutputMsg i n d)) = UdsOutput n d"
    "AttachClient protocol addr 0 s = (s1, k)"
    "handlePTYOutput (\<lambda>m. Inr (e m)) active now now' data s1 = (s2, acts)"
    "length (replay_chunks 0 s2) < outch_cap"
  shows "\<exists>c. map_of (clients (replay_all (\<lambda>m. Inr (e m)) k (replay_chunks 0 s2) s2)) k = Some c \<and>
    OutCh c = e (OutputMsg (ID s) (sq s + 1) data)
      # map (\<lambda>ch. e (OutputMsg (ID s) (Seq ch) (Data ch))) (replay_chunks 0 s2) \<and>
    stdout (read_all_out dec (OutCh c) tclient0) = data \<and>
    renderedSeq (read_all_out dec (OutCh c) tclient0) = sq s + 1"
  by (rule overtaken [OF assms])

text \<open>A session that has printed one chunk, and an encoding with its decoder.\<close>

definition one_chunk :: Session where
  "one_chunk = shared_session\<lparr>sq := 1, outputChunks := [\<lparr>Seq = 1, Data = [7], Timestamp = 0\<rparr>],
     outputBufferBytes := 1\<rparr>"

fun unary_enc :: "server_msg \<Rightarrow> bytes" where
  "unary_enc (OutputMsg i n d) = replicate n 0 @ 1 # d"
| "unary_enc (NoteMsg k m x) = [2]"

definition unary_dec :: "bytes \<Rightarrow> uds_msg" where
  "unary_dec bs = UdsOutput (length (takeWhile (\<lambda>b. b = 0) bs)) (drop 1 (dropWhile (\<lambda>b. b = 0) bs))"

lemma unary_dec_enc: "unary_dec (unary_enc (OutputMsg i n d)) = UdsOutput n d"
  by (simp add: unary_dec_def takeWhile_append dropWhile_append)

lemma evict_small:
  assumes "\<not> over_limit s" "\<forall>c\<in>set (outputChunks s). \<not> too_old now c" "coldPending s = []" "coldSegments s = []"
  shows "fst (evictOutputChunksLocked now s) = s"
proof -
  have "evictHotLocked now s = s"
    using assms(1,2) by (cases "outputChunks s") (auto intro: evictHot_Nil evictHot_stop)
  moreover have "evict_pending_loop now s = s" using assms(3) by (subst evict_pending_loop.simps) simp
  moreover have "evictColdLocked now s = s" using assms(4) by (subst evictColdLocked.simps) simp
  ultimately show ?thesis by (simp add: evictOutputChunksLocked_def evictColdPendingLocked_def Let_def)
qed

lemma live_output_overtakes_replay_witness:
  "\<exists>k s2 c. stdout (read_all_out unary_dec (OutCh c) tclient0) = [8] \<and>
     map_of (clients (replay_all (\<lambda>m. Inr (unary_enc m)) k (replay_chunks 0 s2) s2)) k = Some c"
proof -
  have inv: "buf_inv (\<lambda>z. (z, EOF)) one_chunk" "clients_inv one_chunk" "quicReady one_chunk"
    "sq one_chunk + 1 < 2 ^ 64"
    by (simp_all add: one_chunk_def shared_session_def session0_def buf_inv_def counters_ok_def log_ok_def
        retained_def raw_retained_def ascending_def clients_inv_def chunk_ok_def coldChunkFrameLimit_def untimed_def)
  obtain s1 k where a: "AttachClient ''UDS'' '''' 0 one_chunk = (s1, k)" by force
  obtain s2 acts where h: "handlePTYOutput (\<lambda>m. Inr (unary_enc m)) [] 5 6 [8] s1 = (s2, acts)" by force
  have f: "outputChunks s1 = [\<lparr>Seq = 1, Data = [7], Timestamp = 0\<rparr>]" "outputBufferBytes s1 = 1"
    "coldPending s1 = []" "coldSegments s1 = []" "sq s1 = 1"
    using a by (auto simp: AttachClient_def Let_def one_chunk_def shared_session_def session0_def)
  let ?s = "(append_output 5 [8] s1)\<lparr>termModes := mode_scan [8] (termModes s1), lastOutputAt := Some 5\<rparr>"
  have "fst (evictOutputChunksLocked 6 ?s) = ?s"
    by (rule evict_small)
      (auto simp: f append_output_def Let_def over_limit_def too_old_def maxHotOutputChunks_def
        maxHotOutputBytes_def maxOutputBufferAge_def second_def)
  then have "outputChunks (fst (handle_locked 5 6 [8] s1)) = outputChunks (append_output 5 [8] s1)"
    by (simp add: handle_locked_def Let_def append_output_def)
  then have "length (outputChunks s2) = 2"
    using h f by (auto simp: handlePTYOutput_def handle_deliver_def Let_def case_prod_unfold append_output_def
        split: if_splits)
  then have "length (replay_chunks 0 s2) < outch_cap" by (simp add: replay_chunks_def outch_cap_def)
  from live_output_overtakes_replay [OF inv _ unary_dec_enc a h this] show ?thesis by auto
qed

end
