(* ===== verification/End_To_End.thy ===== *)
theory End_To_End
  imports Resync Client_Output
begin

text \<open>
  The way of output from a session to the terminal of a client as one system: the session's buffer
  with its evictions and background compression, the goroutine that reads the pty, any number of
  successive QUIC connections with their resynchronisation loops (internal/qtransport/server.go), the
  readers of their streams (internal/qtransport/client.go), the channel between the transport and the
  client, the Unix socket, and rendering (cmd/tezzer). Each goroutine's steps between two accesses to
  shared state are events, taken in any order; a connection can end at any byte of its stream.
\<close>

section \<open>State\<close>

text \<open>The serving end of a connection: its hello is on the way, handleConn resynchronises it, or does
  so no longer. The reading end: between two frames; a frame was read and compared with lastOffset;
  lastOffset was stored and the chunk not yet sent on the channel; the loop has returned.\<close>

datatype serve_state = Dialled | Resyncing | Serving

datatype pump_state = Reading | Newer nat bytes | Stored nat bytes | Ended

record link =
  ln_bytes :: bytes
  ln_open :: bool
  ln_next :: nat
  ln_batch :: "(nat \<times> bytes) list"
  ln_serve :: serve_state
  ln_pump :: pump_state

text \<open>Connections are numbered by their dials; sy_cur is the registered one. sy_log, everything the
  session has written, is not part of the program. sy_live is the chunk handlePTYOutput has kept and
  not yet handed to SendOutput.\<close>

record system =
  sy_buf :: out_buffer
  sy_flight :: "OutputChunk list option"
  sy_log :: "(nat \<times> bytes) list"
  sy_live :: "(nat \<times> bytes) option"
  sy_links :: "nat \<Rightarrow> link"
  sy_dialled :: nat
  sy_cur :: "nat option"
  sy_last :: nat
  sy_out :: "(nat \<times> bytes) list"
  sy_client :: tclient

definition no_link :: link where
  "no_link = \<lparr>ln_bytes = [], ln_open = False, ln_next = 0, ln_batch = [], ln_serve = Serving, ln_pump = Ended\<rparr>"

definition on_link :: "nat \<Rightarrow> (link \<Rightarrow> link) \<Rightarrow> system \<Rightarrow> system" where
  "on_link i f s = s\<lparr>sy_links := (sy_links s)(i := f (sy_links s i))\<rparr>"

section \<open>The session\<close>

text \<open>Output of the pty: at most 64 KiB a read, far below the limit of a frame. The reader does not
  read again before the chunk has been handed on. Positions below 2 ^ 64 only.\<close>

definition sys_print :: "time \<Rightarrow> time \<Rightarrow> bytes \<Rightarrow> system \<Rightarrow> system" where
  "sys_print now now' data s =
     (if sy_live s \<noteq> None \<or> data = [] \<or> length data > 64 * 1024 \<or> sq (sy_buf s) + 2 \<ge> 2 ^ 64 then s
      else
        let b = append_output now data (sy_buf s) in
        s\<lparr>sy_buf := fst (evictOutputChunksLocked now' b), sy_log := sy_log s @ [(sq b, data)],
          sy_live := Some (sq b, data)\<rparr>)"

text \<open>A write to an open stream reaches it, one to a closed stream fails.\<close>

definition link_write :: "nat \<times> bytes \<Rightarrow> link \<Rightarrow> link \<times> bool" where
  "link_write ch l =
     (if ln_open l then (l\<lparr>ln_bytes := ln_bytes l @ writeOutputFrame (fst ch) (snd ch)\<rparr>, True) else (l, False))"

definition sys_hand_over :: "system \<Rightarrow> system" where
  "sys_hand_over s =
     (case sy_live s of
        None \<Rightarrow> s
      | Some ch \<Rightarrow>
          (case sy_cur s of
             None \<Rightarrow> s\<lparr>sy_live := None\<rparr>
           | Some i \<Rightarrow> on_link i (\<lambda>l. fst (link_write ch l)) (s\<lparr>sy_live := None\<rparr>)))"

text \<open>The periodic eviction and the two halves of a background compression.\<close>

definition sys_evict :: "time \<Rightarrow> system \<Rightarrow> system" where
  "sys_evict now s = s\<lparr>sy_buf := fst (evict_stale_locked now (sy_buf s))\<rparr>"

definition sys_flush :: "(bytes \<Rightarrow> err + bytes) \<Rightarrow> system \<Rightarrow> system" where
  "sys_flush deflate s =
     (case sy_flight s of
        None \<Rightarrow> (case flush_begin (sy_buf s) of (b, f) \<Rightarrow> s\<lparr>sy_buf := b, sy_flight := f\<rparr>)
      | Some chs \<Rightarrow> s\<lparr>sy_buf := flush_finish deflate chs (sy_buf s), sy_flight := None\<rparr>)"

section \<open>The connections\<close>

text \<open>A dial whose hello carries lastOffset as it is then; registration at the server.\<close>

definition sys_dial :: "system \<Rightarrow> system" where
  "sys_dial s =
     s\<lparr>sy_links := (sy_links s)(sy_dialled s :=
         \<lparr>ln_bytes = [], ln_open = True, ln_next = (sy_last s + 1) mod 2 ^ 64, ln_batch = [],
          ln_serve = Dialled, ln_pump = Reading\<rparr>),
       sy_dialled := sy_dialled s + 1\<rparr>"

definition sys_register :: "nat \<Rightarrow> system \<Rightarrow> system" where
  "sys_register i s =
     (if ln_serve (sy_links s i) = Dialled
      then on_link i (\<lambda>l. l\<lparr>ln_serve := Resyncing\<rparr>) (s\<lparr>sy_cur := Some i\<rparr>)
      else s)"

text \<open>One round of the loop: ask for a batch; later one write of it at a time. The flag says that
  the session could not be asked.\<close>

(* internal/qtransport/server.go:272-279 quicServer.handleConn *)
definition sys_fetch :: "(bytes \<Rightarrow> bytes \<times> err) \<Rightarrow> bool \<Rightarrow> nat \<Rightarrow> system \<Rightarrow> system" where
  "sys_fetch inflate failed i s =
     (let l = sy_links s i; chunks = fst (outputFromOffset inflate True (sy_buf s) (ln_next l)) in
      if ln_serve l = Resyncing \<and> ln_batch l = [] then
        on_link i (\<lambda>l. if failed \<or> length chunks = 0 then l\<lparr>ln_serve := Serving\<rparr> else l\<lparr>ln_batch := chunks\<rparr>) s
      else s)"

(* internal/qtransport/server.go:280-288 quicServer.handleConn *)
definition link_resync :: "link \<Rightarrow> link" where
  "link_resync l =
     (if ln_serve l = Resyncing then
        (case ln_batch l of
           [] \<Rightarrow> l
         | ch # rest \<Rightarrow>
             (case link_write ch l of
                (l1, ok) \<Rightarrow>
                  if ok then l1\<lparr>ln_batch := rest, ln_next := (fst ch + 1) mod 2 ^ 64\<rparr>
                  else l1\<lparr>ln_batch := [], ln_serve := Serving\<rparr>))
      else l)"

text \<open>The connection ends: of what is under way, k bytes still arrive. Its handler then removes it
  unless a newer one is registered.\<close>

definition sys_cut :: "nat \<Rightarrow> nat \<Rightarrow> system \<Rightarrow> system" where
  "sys_cut i k = on_link i (\<lambda>l. l\<lparr>ln_bytes := take k (ln_bytes l), ln_open := False\<rparr>)"

definition sys_unregister :: "nat \<Rightarrow> system \<Rightarrow> system" where
  "sys_unregister i s =
     (if sy_cur s = Some i \<and> \<not> ln_open (sy_links s i) \<and> ln_serve (sy_links s i) = Serving
      then s\<lparr>sy_cur := None\<rparr> else s)"

section \<open>The client\<close>

text \<open>The reader of one stream, in its three steps. On an open stream an incomplete frame is waited for.\<close>

(* internal/qtransport/client.go:631-638 quicClient.pumpOutput *)
definition link_read :: "nat \<Rightarrow> link \<Rightarrow> link" where
  "link_read lastOffset l =
     (if ln_pump l = Reading then
        (case readOutputFrame (ln_bytes l) of
           Inl e \<Rightarrow> if ln_open l then l else l\<lparr>ln_pump := Ended\<rparr>
         | Inr ((offset, data), rest) \<Rightarrow>
             l\<lparr>ln_bytes := rest, ln_pump := (if offset \<le> lastOffset then Reading else Newer offset data)\<rparr>)
      else l)"

(* internal/qtransport/client.go:639-639 quicClient.pumpOutput *)
definition sys_store :: "nat \<Rightarrow> system \<Rightarrow> system" where
  "sys_store i s =
     (case ln_pump (sy_links s i) of
        Newer offset data \<Rightarrow> on_link i (\<lambda>l. l\<lparr>ln_pump := Stored offset data\<rparr>) (s\<lparr>sy_last := offset\<rparr>)
      | _ \<Rightarrow> s)"

text \<open>The channel has room for 256 chunks.\<close>

(* internal/qtransport/client.go:640-644 quicClient.pumpOutput *)
definition sys_send :: "nat \<Rightarrow> system \<Rightarrow> system" where
  "sys_send i s =
     (case ln_pump (sy_links s i) of
        Stored offset data \<Rightarrow>
          if length (sy_out s) < 256
          then on_link i (\<lambda>l. l\<lparr>ln_pump := Reading\<rparr>) (s\<lparr>sy_out := sy_out s @ [(offset, data)]\<rparr>)
          else s
      | _ \<Rightarrow> s)"

text \<open>One round of handleQUICOutput, which runs once the transport is set.\<close>

definition sys_render :: "system \<Rightarrow> system" where
  "sys_render s =
     (case sy_out s of
        [] \<Rightarrow> s
      | chunk # waiting \<Rightarrow>
          if ct (sy_client s) then
            (case coalesce [chunk] (length (snd chunk)) waiting of
               (chunks, rest) \<Rightarrow> s\<lparr>sy_out := rest, sy_client := renderOutput chunks True (sy_client s)\<rparr>)
          else s)"

text \<open>The Unix socket may deliver any of the session's chunks at any time.\<close>

definition sys_uds :: "nat \<Rightarrow> system \<Rightarrow> system" where
  "sys_uds n s =
     (case map_of (sy_log s) n of
        None \<Rightarrow> s
      | Some data \<Rightarrow> s\<lparr>sy_client := fst (handle_uds_msg (UdsOutput n data) (sy_client s))\<rparr>)"

text \<open>The set-up of the transport: its offset is seeded with what is rendered before the first dial,
  and the client uses it when Start has returned.\<close>

definition sys_seed :: "system \<Rightarrow> system" where
  "sys_seed s = (if sy_dialled s = 0 then s\<lparr>sy_last := renderedSeq (sy_client s)\<rparr> else s)"

definition sys_transport :: "system \<Rightarrow> system" where
  "sys_transport s = (if sy_dialled s = 0 then s else s\<lparr>sy_client := (sy_client s)\<lparr>ct := True\<rparr>\<rparr>)"

section \<open>Runs\<close>

datatype sys_event =
    Print time time bytes
  | Hand_over
  | Evict time
  | Flush
  | Dial
  | Register nat
  | Fetch bool nat
  | Resync_write nat
  | Cut nat nat
  | Unregister nat
  | Read nat
  | Store nat
  | Send nat
  | Render
  | Uds nat
  | Seed
  | Set_transport

fun sys_on :: "(bytes \<Rightarrow> err + bytes) \<Rightarrow> (bytes \<Rightarrow> bytes \<times> err) \<Rightarrow> sys_event \<Rightarrow> system \<Rightarrow> system" where
  "sys_on deflate inflate (Print now now' data) s = sys_print now now' data s"
| "sys_on deflate inflate Hand_over s = sys_hand_over s"
| "sys_on deflate inflate (Evict now) s = sys_evict now s"
| "sys_on deflate inflate Flush s = sys_flush deflate s"
| "sys_on deflate inflate Dial s = sys_dial s"
| "sys_on deflate inflate (Register i) s = sys_register i s"
| "sys_on deflate inflate (Fetch failed i) s = sys_fetch inflate failed i s"
| "sys_on deflate inflate (Resync_write i) s = on_link i link_resync s"
| "sys_on deflate inflate (Cut i k) s = sys_cut i k s"
| "sys_on deflate inflate (Unregister i) s = sys_unregister i s"
| "sys_on deflate inflate (Read i) s = on_link i (link_read (sy_last s)) s"
| "sys_on deflate inflate (Store i) s = sys_store i s"
| "sys_on deflate inflate (Send i) s = sys_send i s"
| "sys_on deflate inflate Render s = sys_render s"
| "sys_on deflate inflate (Uds n) s = sys_uds n s"
| "sys_on deflate inflate Seed s = sys_seed s"
| "sys_on deflate inflate Set_transport s = sys_transport s"

text \<open>A new session and a client that has rendered nothing.\<close>

definition sys_start :: "system \<Rightarrow> bool" where
  "sys_start s \<longleftrightarrow> empty_buffer (sy_buf s) \<and> sy_flight s = None \<and> sy_log s = [] \<and> sy_live s = None \<and>
     (\<forall>i. sy_links s i = no_link) \<and> sy_dialled s = 0 \<and> sy_cur s = None \<and> sy_last s = 0 \<and> sy_out s = [] \<and>
     rendering (sy_client s) \<and> renderedSeq (sy_client s) = 0 \<and> stdout (sy_client s) = []"

section \<open>What a stream carries\<close>

context frame_codec
begin

lemma rd_take:
  assumes "\<forall>x\<in>set xs. ok x" "rd (take k (concat (map enc xs))) = Inr (x, rest)"
  shows "\<exists>ys. xs = x # ys \<and> length (enc x) \<le> k \<and> rest = take (k - length (enc x)) (concat (map enc ys))"
proof (cases xs)
  case Nil
  with assms(2) show ?thesis by (simp add: rd_Nil)
next
  case (Cons y ys)
  with assms(1) have y: "ok y" by simp
  show ?thesis
  proof (cases "k < length (enc y)")
    case True
    with rd_cut [OF y True] assms(2) Cons show ?thesis by auto
  next
    case False
    then have "rd (enc y @ take (k - length (enc y)) (concat (map enc ys))) = Inr (x, rest)"
      using assms(2) by (simp add: Cons)
    then have "y = x" "take (k - length (enc y)) (concat (map enc ys)) = rest"
      by (auto simp: rd_enc [OF y])
    with False Cons show ?thesis by auto
  qed
qed

end

text \<open>The frames whose encoding an open stream delivers, or a closed one delivers the beginning of.\<close>

definition out_stream :: "(nat \<times> bytes) list \<Rightarrow> bytes" where
  "out_stream fs = concat (map (\<lambda>(off, d). writeOutputFrame off d) fs)"

definition carries :: "bool \<Rightarrow> bytes \<Rightarrow> (nat \<times> bytes) list \<Rightarrow> bool" where
  "carries op bs fs \<longleftrightarrow> (\<exists>k. bs = take k (out_stream fs)) \<and> (op \<longrightarrow> bs = out_stream fs)"

lemma carries_Nil [simp]: "carries op [] []"
  by (simp add: carries_def out_stream_def)

lemma carries_write: "carries True bs fs \<Longrightarrow> carries True (bs @ writeOutputFrame off d) (fs @ [(off, d)])"
  unfolding carries_def
  by (intro conjI exI [of _ "length (out_stream (fs @ [(off, d)]))"]) (simp_all add: out_stream_def)

lemma carries_cut: "carries op bs fs \<Longrightarrow> carries False (take k bs) fs"
  unfolding carries_def by (metis take_take)

lemma carries_read:
  assumes "carries op bs fs" "\<forall>p\<in>set fs. output_ok p" "readOutputFrame bs = Inr (p, rest)"
  obtains gs where "fs = p # gs" "carries op rest gs"
proof -
  obtain k where k: "bs = take k (out_stream fs)" using assms(1) by (auto simp: carries_def)
  from outf.rd_take [of fs k p rest] assms(2,3) k obtain gs where
    g: "fs = p # gs" "rest = take (k - length (case p of (off, d) \<Rightarrow> writeOutputFrame off d)) (out_stream gs)"
    by (auto simp: out_stream_def)
  have "rest = out_stream gs" if op
  proof -
    have b: "bs = (case p of (off, d) \<Rightarrow> writeOutputFrame off d) @ out_stream gs"
      using assms(1) that g(1) by (simp add: carries_def out_stream_def)
    have "output_ok p" using assms(2) g(1) by simp
    from outf.rd_enc [OF this, of "out_stream gs"] b assms(3) show ?thesis by simp
  qed
  with g that show ?thesis by (auto simp: carries_def)
qed

lemma carries_open_Nil: "carries True [] fs \<Longrightarrow> fs = []"
  using outf.enc_nonempty by (cases fs) (auto simp: carries_def out_stream_def)

section \<open>Every run is safe\<close>

text \<open>The session's output is its chunks numbered from 1.\<close>

definition log_wf :: "(nat \<times> bytes) list \<Rightarrow> nat \<Rightarrow> bool" where
  "log_wf log n \<longleftrightarrow> map fst log = [1..<n + 1] \<and> (\<forall>p\<in>set log. snd p \<noteq> [] \<and> output_ok p)"

fun held :: "pump_state \<Rightarrow> (nat \<times> bytes) list" where
  "held (Newer n d) = [(n, d)]"
| "held (Stored n d) = [(n, d)]"
| "held _ = []"

definition link_safe :: "(nat \<times> bytes) list \<Rightarrow> link \<Rightarrow> bool" where
  "link_safe log l \<longleftrightarrow> (\<exists>fs. carries (ln_open l) (ln_bytes l) fs \<and> set fs \<subseteq> set log) \<and>
     set (ln_batch l) \<subseteq> set log \<and> set (held (ln_pump l)) \<subseteq> set log"

definition client_safe :: "(nat \<times> bytes) list \<Rightarrow> tclient \<Rightarrow> bool" where
  "client_safe log c \<longleftrightarrow> rendering c \<and>
     (\<exists>L. stdout c = concat (map snd L) \<and> sorted_wrt (<) (0 # map fst L) \<and> set L \<subseteq> set log \<and>
          renderedSeq c = last (0 # map fst L))"

definition sys_safe :: "(bytes \<Rightarrow> bytes \<times> err) \<Rightarrow> system \<Rightarrow> bool" where
  "sys_safe inflate s \<longleftrightarrow>
     buf_inv inflate (sy_buf s) \<and> inflight_ok (sy_buf s) (sy_flight s) \<and> sq (sy_buf s) + 1 < 2 ^ 64 \<and>
     log_wf (sy_log s) (sq (sy_buf s)) \<and> chunk_pair ` set (retained inflate (sy_buf s)) \<subseteq> set (sy_log s) \<and>
     (\<forall>p. sy_live s = Some p \<longrightarrow> p \<in> set (sy_log s)) \<and> (\<forall>i. link_safe (sy_log s) (sy_links s i)) \<and>
     set (sy_out s) \<subseteq> set (sy_log s) \<and> client_safe (sy_log s) (sy_client s)"

lemma log_mem_ok: "log_wf log n \<Longrightarrow> set fs \<subseteq> set log \<Longrightarrow> \<forall>p\<in>set fs. output_ok p"
  by (auto simp: log_wf_def)

lemma link_safe_mono: "link_safe log l \<Longrightarrow> link_safe (log @ ys) l"
  by (fastforce simp: link_safe_def)

lemma client_safe_mono: "client_safe log c \<Longrightarrow> client_safe (log @ ys) c"
  by (fastforce simp: client_safe_def)

lemma sorted_chain:
  assumes "sorted_wrt (<) (a # xs :: nat list)" "sorted_wrt (<) (last (a # xs) # ys)"
  shows "sorted_wrt (<) (a # xs @ ys)"
proof -
  have "x < y" if "x \<in> set (a # xs)" "y \<in> set ys" for x y
    using sorted_le_last [OF assms(1) that(1)] assms(2) that(2) by auto
  with assms show ?thesis by (auto simp: sorted_wrt_append)
qed

lemma client_safe_render:
  assumes "client_safe log c" "set cs \<subseteq> set log" "\<forall>p\<in>set log. snd p \<noteq> []"
  shows "client_safe log (renderOutput cs q c)"
proof -
  obtain L where L: "stdout c = concat (map snd L)" "sorted_wrt (<) (0 # map fst L)" "set L \<subseteq> set log"
    "renderedSeq c = last (0 # map fst L)" and r: "rendering c"
    using assms(1) by (auto simp: client_safe_def)
  have ne: "list_all (\<lambda>c. snd c \<noteq> []) (event_chunks (if q then FromQuic cs else FromUds cs))"
    using assms(2,3) by (auto simp: list_all_iff)
  obtain M where M: "stdout (renderOutput cs q c) = stdout c @ concat (map snd M)"
    "sorted_wrt (<) (renderedSeq c # map fst M)" "set M \<subseteq> set cs"
    "renderedSeq (renderOutput cs q c) = last (renderedSeq c # map fst M)" "rendering (renderOutput cs q c)"
    by (rule render_step [OF r ne]) (use that in \<open>cases q; simp\<close>)
  have "sorted_wrt (<) (0 # map fst (L @ M))"
    using sorted_chain [of 0 "map fst L" "map fst M"] L(2) M(2) by (simp only: L(4) map_append)
  moreover have "last (renderedSeq c # map fst M) = last (0 # map fst (L @ M))"
    using L(4) by simp
  ultimately show ?thesis
    using L M assms(2) unfolding client_safe_def by (intro conjI exI [of _ "L @ M"]) auto
qed

lemma client_safe_cong:
  "client_safe log c \<Longrightarrow> rendering c' = rendering c \<Longrightarrow> stdout c' = stdout c \<Longrightarrow> renderedSeq c' = renderedSeq c \<Longrightarrow>
   client_safe log c'"
  by (simp add: client_safe_def)

lemma uds_renders:
  obtains c2 where "fst (handle_uds_msg (UdsOutput n d) c) = renderOutput [(n, d)] False c2"
    "rendering c2 = rendering c" "stdout c2 = stdout c" "renderedSeq c2 = renderedSeq c" "ct c2 = ct c"
  by (rule that [of "(if \<not> ct c \<and> lastSeq c > 0 \<and> n > lastSeq c + 1
        then setStatusMessage (''UDS: '' @ show_nat (n - lastSeq c - 1) @ '' messages lost (continuing)'') c
        else c)\<lparr>lastSeq := n\<rparr>"])
    (simp_all add: Let_def setStatusMessage_def rendering_def)

lemma safe_on_link:
  "sys_safe inflate s \<Longrightarrow> link_safe (sy_log s) (f (sy_links s i)) \<Longrightarrow> sys_safe inflate (on_link i f s)"
  by (simp add: sys_safe_def on_link_def)

lemma safe_buf:
  "sys_safe inflate s \<Longrightarrow> buf_inv inflate b \<Longrightarrow> inflight_ok b f \<Longrightarrow> sq b = sq (sy_buf s) \<Longrightarrow>
   set (retained inflate b) \<subseteq> set (retained inflate (sy_buf s)) \<Longrightarrow>
   sys_safe inflate (s\<lparr>sy_buf := b, sy_flight := f\<rparr>)"
  by (auto simp: sys_safe_def)

lemma link_write_safe:
  assumes "link_safe log l" "ch \<in> set log"
  shows "link_safe log (fst (link_write ch l))"
proof -
  obtain fs where "carries (ln_open l) (ln_bytes l) fs" "set fs \<subseteq> set log"
    using assms(1) by (auto simp: link_safe_def)
  then have "\<exists>gs. carries True (ln_bytes l @ writeOutputFrame (fst ch) (snd ch)) gs \<and> set gs \<subseteq> set log" if "ln_open l"
    using carries_write [of "ln_bytes l" fs "fst ch" "snd ch"] that assms(2)
    by (intro exI [of _ "fs @ [ch]"]) auto
  with assms show ?thesis by (cases "ln_open l") (simp_all add: link_safe_def link_write_def)
qed

lemma link_resync_safe: "link_safe log l \<Longrightarrow> link_safe log (link_resync l)"
proof (cases "ln_batch l")
  case (Cons ch rest)
  assume safe: "link_safe log l"
  then have "link_safe log (fst (link_write ch l))"
    using Cons by (intro link_write_safe) (simp_all add: link_safe_def)
  then show ?thesis using Cons safe
    by (auto simp: link_resync_def link_write_def link_safe_def)
qed (simp add: link_resync_def)

lemma link_cut_safe: "link_safe log l \<Longrightarrow> link_safe log (l\<lparr>ln_bytes := take k (ln_bytes l), ln_open := False\<rparr>)"
  using carries_cut by (fastforce simp: link_safe_def)

lemma link_read_safe:
  assumes "link_safe log l" "\<forall>p\<in>set log. output_ok p"
  shows "link_safe log (link_read lo l)"
proof -
  obtain fs where fs: "carries (ln_open l) (ln_bytes l) fs" "set fs \<subseteq> set log"
    using assms(1) by (auto simp: link_safe_def)
  show ?thesis
  proof (cases "readOutputFrame (ln_bytes l)")
    case (Inr r)
    obtain off d rest where r: "r = ((off, d), rest)" by (metis prod.collapse)
    have ok: "\<forall>p\<in>set fs. output_ok p" using fs(2) assms(2) by blast
    obtain gs where "fs = (off, d) # gs" "carries (ln_open l) rest gs"
      by (rule carries_read [OF fs(1) ok, of "(off, d)" rest]) (use Inr r in auto)
    with assms fs Inr r show ?thesis by (auto simp: link_read_def link_safe_def)
  qed (use assms fs in \<open>auto simp: link_read_def link_safe_def\<close>)
qed

lemma log_wf_append:
  "log_wf log n \<Longrightarrow> data \<noteq> [] \<Longrightarrow> length data \<le> 64 * 1024 \<Longrightarrow> n + 1 < 2 ^ 64 \<Longrightarrow> log_wf (log @ [(n + 1, data)]) (n + 1)"
  by (auto simp: log_wf_def output_ok_def maxOutputFrame_def)

lemma print_safe:
  assumes "sys_safe inflate s"
  shows "sys_safe inflate (sys_print now now' data s)"
proof (cases "sy_live s \<noteq> None \<or> data = [] \<or> length data > 64 * 1024 \<or> sq (sy_buf s) + 2 \<ge> 2 ^ 64")
  case True
  with assms show ?thesis unfolding sys_print_def by (simp only: if_True)
next
  case False
  let ?n = "sq (sy_buf s)" and ?b = "append_output now data (sy_buf s)"
  let ?e = "fst (evictOutputChunksLocked now' ?b)" and ?log = "sy_log s @ [(sq (sy_buf s) + 1, data)]"
  from False have g: "data \<noteq> []" "length data \<le> 64 * 1024" "?n + 2 < 2 ^ 64" by auto
  have sqb: "sq ?b = ?n + 1" "sq ?e = ?n + 1"
    using g(3) by (simp_all add: append_output_def Let_def evict_frame)
  have "buf_inv inflate ?e" "inflight_ok ?e (sy_flight s)"
    using assms g by (simp_all add: sys_safe_def inv_intros coldChunkFrameLimit_def)
  moreover have "set (retained inflate ?e) \<subseteq> insert \<lparr>Seq = ?n + 1, Data = data, Timestamp = 0\<rparr> (set (retained inflate (sy_buf s)))"
    using subseq_subset [OF evict_retained [of inflate now' ?b]] append_retained [of "sy_buf s" inflate now data] g(3)
    by simp
  then have "chunk_pair ` set (retained inflate ?e) \<subseteq> insert (?n + 1, data) (chunk_pair ` set (retained inflate (sy_buf s)))"
    by (rule order_trans [OF image_mono]) (simp add: chunk_pair_def)
  then have "chunk_pair ` set (retained inflate ?e) \<subseteq> set ?log" using assms by (auto simp: sys_safe_def)
  moreover have "log_wf ?log (?n + 1)" using assms g by (intro log_wf_append) (auto simp: sys_safe_def)
  ultimately show ?thesis
    using assms False g(3) link_safe_mono client_safe_mono
    by (auto simp: sys_print_def Let_def sqb sys_safe_def)
qed

lemma flush_safe:
  assumes "sys_safe inflate s" "flate_laws deflate inflate"
  shows "sys_safe inflate (sys_flush deflate s)"
proof (cases "sy_flight s")
  case None
  obtain b f where fb: "flush_begin (sy_buf s) = (b, f)" by force
  have "buf_inv inflate b" "sq b = sq (sy_buf s)" "retained inflate b = retained inflate (sy_buf s)" "inflight_ok b f"
    using assms(1) flush_begin_inv [of inflate "sy_buf s"] flush_begin_inflight [of "sy_buf s" b] fb None
    by (auto simp: sys_safe_def flush_begin_def retained_def raw_retained_def split: if_splits)
  with safe_buf [OF assms(1), of b f] show ?thesis by (simp add: sys_flush_def None fb)
next
  case (Some chs)
  have i: "buf_inv inflate (sy_buf s)" "inflight_ok (sy_buf s) (Some chs)"
    using assms(1) Some by (simp_all add: sys_safe_def)
  let ?b = "flush_finish deflate chs (sy_buf s)"
  have "set (retained inflate ?b) \<subseteq> set (retained inflate (sy_buf s))"
    using flush_finish_retained [OF assms(2) i] set_drop_subset [of "length chs" "coldPending (sy_buf s)"]
    by (auto simp: retained_def raw_retained_def split: sum.splits)
  moreover have "sq ?b = sq (sy_buf s)" by (simp add: flush_finish_def Let_def split: sum.splits)
  ultimately show ?thesis
    using safe_buf [OF assms(1), of ?b None] flush_finish_inv [OF assms(2) i] by (simp add: sys_flush_def Some flush_finish_inflight)
qed

lemma evict_safe:
  assumes "sys_safe inflate s"
  shows "sys_safe inflate (sys_evict now s)"
proof -
  let ?b = "fst (evict_stale_locked now (sy_buf s))"
  have "sys_safe inflate (s\<lparr>sy_buf := ?b, sy_flight := sy_flight s\<rparr>)"
    using assms subseq_subset [OF evict_retained [of inflate now "sy_buf s"]]
    by (intro safe_buf) (auto simp: fst_evict_stale sys_safe_def inv_intros evict_frame)
  then show ?thesis by (simp add: sys_evict_def)
qed

lemma fetch_safe:
  assumes "sys_safe inflate s"
  shows "sys_safe inflate (sys_fetch inflate failed i s)"
proof -
  let ?n = "ln_next (sy_links s i)"
  have "set (fst (outputFromOffset inflate True (sy_buf s) ?n)) \<subseteq> set (held_from inflate (sy_buf s) ?n)"
    using outputFromOffset_prefix [of inflate "sy_buf s" True ?n] assms set_take_subset by (fastforce simp: sys_safe_def)
  then have "set (fst (outputFromOffset inflate True (sy_buf s) ?n)) \<subseteq> set (sy_log s)"
    using held_fromD [of _ inflate "sy_buf s" ?n] assms by (fastforce simp: sys_safe_def)
  moreover have "link_safe (sy_log s) (sy_links s i)" using assms by (simp add: sys_safe_def)
  ultimately show ?thesis
    using assms by (auto simp: sys_fetch_def Let_def link_safe_def intro!: safe_on_link)
qed

lemma render_safe:
  assumes "sys_safe inflate s"
  shows "sys_safe inflate (sys_render s)"
proof (cases "sy_out s")
  case (Cons chunk waiting)
  obtain chunks rest where c: "coalesce [chunk] (length (snd chunk)) waiting = (chunks, rest)" by force
  then have "set chunks \<subseteq> set (sy_log s)" "set rest \<subseteq> set (sy_log s)"
    using arg_cong [OF conjunct1 [OF coalesce_split [OF c]], of set] assms Cons by (auto simp: sys_safe_def)
  then show ?thesis
    using assms client_safe_render [of "sy_log s" "sy_client s" chunks True]
    by (simp add: sys_render_def Cons c sys_safe_def log_wf_def)
qed (use assms in \<open>simp add: sys_render_def\<close>)

lemma uds_safe:
  assumes "sys_safe inflate s"
  shows "sys_safe inflate (sys_uds n s)"
proof (cases "map_of (sy_log s) n")
  case (Some d)
  obtain c2 where c2: "fst (handle_uds_msg (UdsOutput n d) (sy_client s)) = renderOutput [(n, d)] False c2"
    "rendering c2 = rendering (sy_client s)" "stdout c2 = stdout (sy_client s)"
    "renderedSeq c2 = renderedSeq (sy_client s)"
    using uds_renders by metis
  have "client_safe (sy_log s) c2" using assms c2 by (auto simp: sys_safe_def intro: client_safe_cong)
  with client_safe_render [of "sy_log s" c2 "[(n, d)]" False] map_of_SomeD [OF Some] assms c2(1)
  show ?thesis by (simp add: sys_uds_def Some sys_safe_def log_wf_def del: handle_uds_msg.simps)
qed (use assms in \<open>simp add: sys_uds_def\<close>)

lemma no_link_safe [simp]: "link_safe log no_link"
  by (auto simp: link_safe_def no_link_def intro: exI [of _ "[]"])

lemma link_of_safe: "sys_safe inflate s \<Longrightarrow> link_safe (sy_log s) (sy_links s i)"
  by (simp add: sys_safe_def)

lemma sys_on_safe:
  assumes s: "sys_safe inflate s" and laws: "flate_laws deflate inflate"
  shows "sys_safe inflate (sys_on deflate inflate ev s)"
proof (cases ev)
  case Hand_over
  have "sys_safe inflate (s\<lparr>sy_live := None\<rparr>)" using s by (simp add: sys_safe_def)
  moreover have "link_safe (sy_log s) (fst (link_write ch (sy_links s i)))" if "sy_live s = Some ch" for ch i
    using s that by (intro link_write_safe link_of_safe) (auto simp: sys_safe_def)
  ultimately show ?thesis
    using s Hand_over by (auto simp: sys_hand_over_def intro!: safe_on_link split: option.splits)
next
  case Dial
  have "link_safe (sy_log s) (if i = j then \<lparr>ln_bytes = [], ln_open = True, ln_next = n, ln_batch = [],
      ln_serve = Dialled, ln_pump = Reading\<rparr> else sy_links s i)" for i j n
    using link_of_safe [OF s, of i] by (auto simp: link_safe_def intro: exI [of _ "[]"])
  with s Dial show ?thesis by (simp add: sys_dial_def sys_safe_def)
next
  case (Register i)
  have "sys_safe inflate (s\<lparr>sy_cur := Some i\<rparr>)" using s by (simp add: sys_safe_def)
  with s Register link_of_safe [OF s, of i] show ?thesis
    by (auto simp: sys_register_def link_safe_def intro!: safe_on_link)
next
  case (Store i)
  have "sys_safe inflate (s\<lparr>sy_last := n\<rparr>)" for n using s by (simp add: sys_safe_def)
  with s Store link_of_safe [OF s, of i] show ?thesis
    by (auto simp: sys_store_def link_safe_def intro!: safe_on_link split: pump_state.splits)
next
  case (Send i)
  have "sys_safe inflate (s\<lparr>sy_out := sy_out s @ [(n, d)]\<rparr>)" if "ln_pump (sy_links s i) = Stored n d" for n d
    using s link_of_safe [OF s, of i] that by (simp add: sys_safe_def link_safe_def)
  with s Send link_of_safe [OF s, of i] show ?thesis
    by (auto simp: sys_send_def link_safe_def intro!: safe_on_link split: pump_state.splits)
next
  case (Read i)
  have "\<forall>p\<in>set (sy_log s). output_ok p" using s by (simp add: sys_safe_def log_wf_def)
  with s Read show ?thesis by (simp add: safe_on_link link_read_safe link_of_safe)
next
  case Set_transport
  have "client_safe (sy_log s) ((sy_client s)\<lparr>ct := True\<rparr>)"
    using s by (auto simp: sys_safe_def rendering_def intro: client_safe_cong)
  with s Set_transport show ?thesis by (simp add: sys_transport_def sys_safe_def)
next
  case (Cut i k)
  with s show ?thesis by (simp add: sys_cut_def safe_on_link link_cut_safe link_of_safe)
qed (use s laws in \<open>simp_all add: print_safe evict_safe flush_safe fetch_safe render_safe uds_safe safe_on_link
  link_resync_safe link_of_safe sys_unregister_def sys_seed_def\<close>, simp_all add: sys_safe_def)

lemma start_safe: "sys_start s \<Longrightarrow> sys_safe inflate s"
  using empty_buffer_inv [of "sy_buf s" inflate]
  by (auto simp: sys_start_def sys_safe_def log_wf_def client_safe_def empty_buffer_def retained_def raw_retained_def)

definition sys_run :: "(bytes \<Rightarrow> err + bytes) \<Rightarrow> (bytes \<Rightarrow> bytes \<times> err) \<Rightarrow> sys_event list \<Rightarrow> system \<Rightarrow> system" where
  "sys_run deflate inflate es s = fold (sys_on deflate inflate) es s"

lemma run_safe:
  assumes "flate_laws deflate inflate" "sys_safe inflate s"
  shows "sys_safe inflate (sys_run deflate inflate es s)"
  using assms(2)
proof (induction es arbitrary: s)
  case (Cons e es)
  from Cons.IH [OF sys_on_safe [OF Cons.prems assms(1), of e]] show ?case by (simp add: sys_run_def)
qed (simp add: sys_run_def)

text \<open>Two ascending lists of which one contains the other.\<close>

lemma sorted_subseq:
  "sorted_wrt (<) (map fst (xs :: (nat \<times> 'b) list)) \<Longrightarrow> sorted_wrt (<) (map fst ys) \<Longrightarrow> set xs \<subseteq> set ys \<Longrightarrow> subseq xs ys"
proof (induction ys arbitrary: xs)
  case (Cons y ys)
  show ?case
  proof (cases "xs \<noteq> [] \<and> hd xs = y")
    case True
    then obtain zs where xs: "xs = y # zs" by (cases xs) auto
    have "y \<notin> set zs" using Cons.prems(1) xs by auto
    then have "set zs \<subseteq> set ys" using Cons.prems(3) xs by auto
    with Cons xs show ?thesis by simp
  next
    case False
    have "y \<notin> set xs"
    proof
      assume y: "y \<in> set xs"
      then obtain x zs where xs: "xs = x # zs" "x \<noteq> y" using False by (cases xs) auto
      then have "fst x < fst y" "x \<in> set ys" using Cons.prems y by auto
      then show False using Cons.prems(2) by fastforce
    qed
    then have "set xs \<subseteq> set ys" using Cons.prems(3) by auto
    with Cons have "subseq xs ys" by simp
    then show ?thesis by (rule list_emb_Cons)
  qed
qed simp

text \<open>C2. Whatever the interleaving of the session, its evictions and compressions, any number of dials,
  registrations, resynchronisations, cuts at any byte, the readers of old and new connections and the
  Unix socket: what the terminal has received is the session's output with chunks left out at most. No
  chunk is repeated, reordered, altered or invented, and the client's position is that of the last one.\<close>

theorem terminal_shows_the_session:
  assumes "flate_laws deflate inflate" "sys_start s0" "s = sys_run deflate inflate es s0"
  shows "\<exists>L. subseq L (sy_log s) \<and> stdout (sy_client s) = concat (map snd L) \<and>
    renderedSeq (sy_client s) = last (0 # map fst L)"
proof -
  have "sys_safe inflate s" unfolding assms(3) by (rule run_safe [OF assms(1) start_safe [OF assms(2)]])
  then obtain L where L: "stdout (sy_client s) = concat (map snd L)" "sorted_wrt (<) (map fst L)"
    "set L \<subseteq> set (sy_log s)" "renderedSeq (sy_client s) = last (0 # map fst L)"
    and "log_wf (sy_log s) (sq (sy_buf s))"
    by (auto simp: sys_safe_def client_safe_def)
  then have "subseq L (sy_log s)" by (intro sorted_subseq) (simp_all add: log_wf_def del: upt_Suc)
  with L show ?thesis by blast
qed

section \<open>Undisturbed runs lose nothing\<close>

text \<open>What a run must not do for the client to miss nothing: hand live output to a connection that is
  still being resynchronised (see live_output_overtakes_resync), ask for output that is no longer held,
  fail to ask on a live connection, read on one connection while the reader of another holds a chunk
  it has not sent, and let the Unix socket skip output before the transport is set.\<close>

fun calm :: "(bytes \<Rightarrow> bytes \<times> err) \<Rightarrow> sys_event \<Rightarrow> system \<Rightarrow> bool" where
  "calm inflate Hand_over s =
     (case sy_cur s of None \<Rightarrow> True | Some i \<Rightarrow> ln_open (sy_links s i) \<longrightarrow> ln_serve (sy_links s i) \<noteq> Resyncing)"
| "calm inflate (Fetch failed i) s =
     (let n = ln_next (sy_links s i) in
      (failed \<longrightarrow> \<not> ln_open (sy_links s i)) \<and>
      held_from inflate (sy_buf s) n = filter (\<lambda>p. n \<le> fst p) (sy_log s))"
| "calm inflate (Read i) s = (\<forall>j < sy_dialled s. j \<noteq> i \<longrightarrow> held (ln_pump (sy_links s j)) = [])"
| "calm inflate (Uds n) s = (ct (sy_client s) \<or> n \<le> renderedSeq (sy_client s) + 1)"
| "calm inflate _ s = True"

fun calm_run ::
  "(bytes \<Rightarrow> err + bytes) \<Rightarrow> (bytes \<Rightarrow> bytes \<times> err) \<Rightarrow> sys_event list \<Rightarrow> system \<Rightarrow> bool" where
  "calm_run deflate inflate [] s = True"
| "calm_run deflate inflate (e # es) s =
     (calm inflate e s \<and> calm_run deflate inflate es (sys_on deflate inflate e s))"

text \<open>Positions that follow on without a gap from l, repetitions allowed, and the furthest of them.\<close>

fun nogap :: "nat \<Rightarrow> (nat \<times> bytes) list \<Rightarrow> bool" where
  "nogap l [] = True"
| "nogap l ((n, d) # ps) = (n \<le> l + 1 \<and> nogap (max l n) ps)"

definition furthest :: "nat \<Rightarrow> (nat \<times> bytes) list \<Rightarrow> nat" where
  "furthest l ps = fold (\<lambda>p m. max m (fst p)) ps l"

lemma furthest_simps [simp]:
  "furthest l [] = l" "furthest l (p # ps) = furthest (max l (fst p)) ps"
  "furthest l (ps @ qs) = furthest (furthest l ps) qs"
  by (simp_all add: furthest_def)

lemma furthest_ge: "l \<le> furthest l ps"
  by (induction ps arbitrary: l) (auto intro: order_trans [OF max.cobounded1])

lemma furthest_max: "furthest (max l m) ps = max m (furthest l ps)"
proof (induction ps arbitrary: l)
  case (Cons p ps)
  have "max (max l m) (fst p) = max (max l (fst p)) m" by (simp add: max.assoc max.commute)
  with Cons show ?case by (simp only: furthest_simps)
qed (simp add: max.commute)

lemma furthest_mono: "l \<le> m \<Longrightarrow> furthest l ps \<le> furthest m ps"
  by (metis furthest_max max.absorb2 max.cobounded2)

lemma nogap_mono: "nogap l ps \<Longrightarrow> l \<le> m \<Longrightarrow> nogap m ps"
proof (induction l ps arbitrary: m rule: nogap.induct)
  case (2 l n d ps)
  then show ?case using max.mono [OF 2(3) order_refl [of n]] by auto
qed simp

lemma nogap_append: "nogap l (ps @ qs) \<longleftrightarrow> nogap l ps \<and> nogap (furthest l ps) qs"
  by (induction l ps rule: nogap.induct) auto

lemma nogap_log:
  assumes "log_wf log m" "n \<le> l + 1"
  shows "nogap l (filter (\<lambda>p. n \<le> fst p) log)"
proof -
  have "nogap l ps" if "map fst ps = [a..<b]" "a \<le> l + 1" for l a b and ps :: "(nat \<times> bytes) list"
    using that
  proof (induction ps arbitrary: l a)
    case (Cons p ps)
    obtain k d where p: "p = (k, d)" by force
    have "a < b" using Cons.prems(1) by (cases "a < b") simp_all
    then have "k = a" "map fst ps = [Suc a..<b]" using Cons.prems(1) by (simp_all add: p upt_conv_Cons)
    with Cons.IH [of "Suc a" "max l k"] Cons.prems(2) show ?case by (simp add: p)
  qed simp
  moreover have "map fst (filter (\<lambda>p. n \<le> fst p) log) = filter (\<lambda>k. n \<le> k) (map fst log)"
    by (simp add: filter_map comp_def)
  then have "map fst (filter (\<lambda>p. n \<le> fst p) log) = filter (\<lambda>k. n \<le> k) [1..<m + 1]"
    using assms(1) by (simp only: log_wf_def)
  moreover have "filter (\<lambda>k. n \<le> k) [a..<b] = [max n a..<b]" for a b
    by (induction b) (auto simp: max_def)
  ultimately show ?thesis using assms(2) by (metis max.bounded_iff le_add2)
qed

lemma log_length: "log_wf log m \<Longrightarrow> length log = m"
proof -
  assume "log_wf log m"
  then have "length (map fst log) = length [1..<m + 1]" by (simp only: log_wf_def)
  then show ?thesis by (simp del: upt_Suc)
qed

lemma log_nth:
  assumes "log_wf log m" "(n, d) \<in> set log"
  shows "1 \<le> n \<and> n \<le> length log \<and> log ! (n - 1) = (n, d)"
proof -
  obtain i where i: "i < length log" "log ! i = (n, d)" using assms(2) by (auto simp: in_set_conv_nth)
  have "length log = m" by (rule log_length [OF assms(1)])
  moreover have "map fst log ! i = [1..<m + 1] ! i" using assms(1) by (simp add: log_wf_def)
  ultimately have "n = i + 1" using i by (simp del: upt_Suc)
  with i show ?thesis by simp
qed

lemma furthest_log: "log_wf log m \<Longrightarrow> r \<le> m \<Longrightarrow> set cs \<subseteq> set log \<Longrightarrow> furthest r cs \<le> m"
proof (induction cs arbitrary: r)
  case (Cons p cs)
  have "fst p \<le> m" using log_nth [of log m "fst p" "snd p"] log_length [of log m] Cons.prems(1,3) by simp
  with Cons show ?case by simp
qed simp

text \<open>What such a list makes the client render is the next piece of the session's output.\<close>

lemma accepted_nogap:
  "log_wf log m \<Longrightarrow> nogap r cs \<Longrightarrow> set cs \<subseteq> set log \<Longrightarrow> accepted q h cs r = drop r (take (furthest r cs) log)"
proof (induction cs arbitrary: r)
  case (Cons p cs)
  obtain n d where p: "p = (n, d)" by force
  have n: "1 \<le> n" "n \<le> length log" "log ! (n - 1) = (n, d)"
    using log_nth [OF Cons.prems(1), of n d] Cons.prems(3) p by simp_all
  show ?case
  proof (cases "n \<le> r")
    case True
    then have "max r n = r" by simp
    with Cons p True show ?thesis by simp
  next
    case False
    then have "n = r + 1" using Cons.prems(2) p by simp
    then have r: "r = n - 1" "max r n = n" by simp_all
    have "n \<le> furthest n cs" by (rule furthest_ge)
    then have l: "r < length (take (furthest n cs) log)"
      unfolding length_take min_less_iff_conj using n(1,2) r(1) by presburger
    have "drop r (take (furthest n cs) log) = (n, d) # drop n (take (furthest n cs) log)"
      using Cons_nth_drop_Suc [OF l] n r l by simp
    with Cons.IH [of n] Cons.prems p r False n(1) show ?thesis by simp
  qed
qed simp

section \<open>The invariant of undisturbed runs\<close>

fun newer :: "pump_state \<Rightarrow> (nat \<times> bytes) list" where
  "newer (Newer n d) = [(n, d)]"
| "newer _ = []"

text \<open>One connection: what its reader still gets follows on from lastOffset; the loop of its handler
  goes on from what was written; and once that has ended, everything up to m was written.\<close>

definition link_exact :: "(nat \<times> bytes) list \<Rightarrow> nat \<Rightarrow> nat \<Rightarrow> link \<Rightarrow> bool" where
  "link_exact log lo m l \<longleftrightarrow>
     (\<exists>fs. carries (ln_open l) (ln_bytes l) fs \<and> set fs \<subseteq> set log \<and> nogap lo (newer (ln_pump l) @ fs) \<and>
        (ln_open l \<and> ln_serve l \<noteq> Serving \<longrightarrow>
           ln_next l \<le> furthest lo (newer (ln_pump l) @ fs) + 1 \<and>
           nogap (furthest lo (newer (ln_pump l) @ fs)) (ln_batch l)) \<and>
        (ln_open l \<and> ln_serve l = Serving \<longrightarrow> m \<le> furthest lo (newer (ln_pump l) @ fs)))"

definition due :: "system \<Rightarrow> nat \<Rightarrow> nat" where
  "due s i = (if sy_cur s = Some i then (if sy_live s = None then sq (sy_buf s) else sq (sy_buf s) - 1) else 0)"

definition links_exact :: "system \<Rightarrow> bool" where
  "links_exact s \<longleftrightarrow> (\<forall>i. link_exact (sy_log s) (sy_last s) (due s i) (sy_links s i)) \<and>
     (\<forall>i\<ge>sy_dialled s. sy_links s i = no_link) \<and>
     (\<forall>i. sy_cur s = Some i \<longrightarrow> i < sy_dialled s \<and> ln_serve (sy_links s i) \<noteq> Dialled) \<and>
     (\<forall>p. sy_live s = Some p \<longrightarrow> fst p = sq (sy_buf s))"

text \<open>The chunks between the readers and the terminal.\<close>

definition channel_exact :: "system \<Rightarrow> bool" where
  "channel_exact s \<longleftrightarrow>
     (let r = renderedSeq (sy_client s) in
      nogap r (sy_out s) \<and>
      ((\<forall>i n d. ln_pump (sy_links s i) \<noteq> Stored n d) \<longrightarrow> sy_last s \<le> furthest r (sy_out s)) \<and>
      (\<forall>i n d. ln_pump (sy_links s i) = Stored n d \<longrightarrow> n = sy_last s \<and> n \<le> furthest r (sy_out s) + 1) \<and>
      (\<forall>i n d. ln_pump (sy_links s i) = Newer n d \<longrightarrow> n = sy_last s + 1) \<and>
      (\<forall>i j. held (ln_pump (sy_links s i)) \<noteq> [] \<longrightarrow> held (ln_pump (sy_links s j)) \<noteq> [] \<longrightarrow> i = j))"

definition client_exact :: "(nat \<times> bytes) list \<Rightarrow> tclient \<Rightarrow> bool" where
  "client_exact log c \<longleftrightarrow> renderedSeq c \<le> length log \<and> stdout c = concat (map snd (take (renderedSeq c) log))"

definition sys_exact :: "system \<Rightarrow> bool" where
  "sys_exact s \<longleftrightarrow> links_exact s \<and> channel_exact s \<and> client_exact (sy_log s) (sy_client s)"

lemma link_exact_mono:
  assumes "link_exact log lo m l" "lo \<le> lo'" "m' \<le> m" "set log \<subseteq> set log'"
  shows "link_exact log' lo' m' l"
proof -
  obtain fs where fs: "carries (ln_open l) (ln_bytes l) fs" "set fs \<subseteq> set log" "nogap lo (newer (ln_pump l) @ fs)"
    "ln_open l \<and> ln_serve l \<noteq> Serving \<longrightarrow> ln_next l \<le> furthest lo (newer (ln_pump l) @ fs) + 1 \<and>
       nogap (furthest lo (newer (ln_pump l) @ fs)) (ln_batch l)"
    "ln_open l \<and> ln_serve l = Serving \<longrightarrow> m \<le> furthest lo (newer (ln_pump l) @ fs)"
    using assms(1) by (auto simp: link_exact_def)
  let ?H = "furthest lo (newer (ln_pump l) @ fs)" and ?H' = "furthest lo' (newer (ln_pump l) @ fs)"
  have "?H \<le> ?H'" by (rule furthest_mono [OF assms(2)])
  then have "ln_open l \<and> ln_serve l \<noteq> Serving \<longrightarrow> ln_next l \<le> ?H' + 1 \<and> nogap ?H' (ln_batch l)"
    "ln_open l \<and> ln_serve l = Serving \<longrightarrow> m' \<le> ?H'"
    using fs(4,5) assms(3) nogap_mono [of ?H "ln_batch l" ?H'] by auto
  moreover have "nogap lo' (newer (ln_pump l) @ fs)" by (rule nogap_mono [OF fs(3) assms(2)])
  ultimately show ?thesis using fs(1,2) assms(4) unfolding link_exact_def by blast
qed

lemma no_link_exact: "link_exact log lo m no_link"
  by (auto simp: link_exact_def no_link_def intro: exI [of _ "[]"])

lemma live_write_exact:
  assumes "link_exact log lo (n - 1) l" "(n, d) \<in> set log" "ln_open l \<longrightarrow> ln_serve l = Serving"
  shows "link_exact log lo n (fst (link_write (n, d) l))"
proof (cases "ln_open l")
  case True
  let ?w = "newer (ln_pump l)"
  obtain fs where fs: "carries True (ln_bytes l) fs" "set fs \<subseteq> set log" "nogap lo (?w @ fs)" "n - 1 \<le> furthest lo (?w @ fs)"
    using assms(1,3) True by (auto simp: link_exact_def)
  have "nogap lo (?w @ fs @ [(n, d)])" using fs(3,4) nogap_append [of lo "?w @ fs" "[(n, d)]"] by simp
  moreover have "n \<le> furthest lo (?w @ fs @ [(n, d)])" by (simp add: max_def)
  ultimately show ?thesis
    using True assms(2,3) fs(1,2) carries_write [OF fs(1)]
    by (auto simp: link_exact_def link_write_def intro!: exI [of _ "fs @ [(n, d)]"])
next
  case False
  with assms(1) show ?thesis by (auto simp: link_exact_def link_write_def)
qed

lemma resync_exact:
  assumes "link_exact log lo m l" "set (ln_batch l) \<subseteq> set log"
  shows "link_exact log lo m (link_resync l)"
proof (cases "ln_serve l = Resyncing \<and> ln_batch l \<noteq> []")
  case True
  then obtain n d rest where b: "ln_batch l = (n, d) # rest" "ln_serve l = Resyncing" by (cases "ln_batch l") auto
  show ?thesis
  proof (cases "ln_open l")
    case True
    let ?w = "newer (ln_pump l)"
    obtain fs where fs: "carries True (ln_bytes l) fs" "set fs \<subseteq> set log" "nogap lo (?w @ fs)"
      "nogap (furthest lo (?w @ fs)) ((n, d) # rest)"
      using assms(1) True b by (auto simp: link_exact_def)
    have "nogap lo (?w @ fs @ [(n, d)])" using fs(3,4) nogap_append [of lo "?w @ fs" "[(n, d)]"] by simp
    moreover have "nogap (furthest lo (?w @ fs @ [(n, d)])) rest" using fs(4) by simp
    moreover have "(n + 1) mod 2 ^ 64 \<le> furthest lo (?w @ fs @ [(n, d)]) + 1"
      by (rule order_trans [OF mod_less_eq_dividend]) (simp add: max_def)
    ultimately show ?thesis
      using True assms(2) b fs(1,2) carries_write [OF fs(1)]
      by (auto simp: link_exact_def link_resync_def link_write_def simp del: furthest_simps intro!: exI [of _ "fs @ [(n, d)]"])
  next
    case False
    with assms(1) b show ?thesis by (auto simp: link_exact_def link_resync_def link_write_def)
  qed
next
  case False
  then have "link_resync l = l" by (auto simp: link_resync_def split: list.split)
  with assms(1) show ?thesis by simp
qed

lemma cut_exact:
  "link_exact log lo m l \<Longrightarrow> link_exact log lo m (l\<lparr>ln_bytes := take k (ln_bytes l), ln_open := False\<rparr>)"
  using carries_cut unfolding link_exact_def by fastforce

lemma read_exact:
  assumes "link_exact log lo m l" "\<forall>p\<in>set log. output_ok p"
  shows "link_exact log lo m (link_read lo l) \<and>
    (\<forall>n d. ln_pump (link_read lo l) = Newer n d \<longrightarrow> n = lo + 1 \<or> ln_pump l = Newer n d)"
proof (cases "ln_pump l = Reading \<and> (\<exists>r. readOutputFrame (ln_bytes l) = Inr r)")
  case True
  then obtain n d rest where r: "readOutputFrame (ln_bytes l) = Inr ((n, d), rest)" "ln_pump l = Reading" by auto
  obtain fs where fs: "carries (ln_open l) (ln_bytes l) fs" "set fs \<subseteq> set log" "nogap lo fs"
    "ln_open l \<and> ln_serve l \<noteq> Serving \<longrightarrow> ln_next l \<le> furthest lo fs + 1 \<and> nogap (furthest lo fs) (ln_batch l)"
    "ln_open l \<and> ln_serve l = Serving \<longrightarrow> m \<le> furthest lo fs"
    using assms(1) r(2) by (auto simp: link_exact_def)
  have ok: "\<forall>p\<in>set fs. output_ok p" using fs(2) assms(2) by blast
  obtain gs where gs: "fs = (n, d) # gs" "carries (ln_open l) rest gs"
    by (rule carries_read [OF fs(1) ok r(1)])
  let ?w = "newer (ln_pump (link_read lo l))"
  have "furthest lo (?w @ gs) = furthest lo fs" "nogap lo (?w @ gs)"
    using fs(3) r by (auto simp: link_read_def gs(1) max_def)
  moreover have "ln_open (link_read lo l) = ln_open l" "ln_serve (link_read lo l) = ln_serve l"
    "ln_next (link_read lo l) = ln_next l" "ln_batch (link_read lo l) = ln_batch l" "ln_bytes (link_read lo l) = rest"
    using r by (simp_all add: link_read_def)
  ultimately have "link_exact log lo m (link_read lo l)"
    using fs(2,4,5) gs unfolding link_exact_def by (intro exI [of _ gs]) (simp del: furthest_simps)
  moreover have "n = lo + 1" if "\<not> n \<le> lo" using fs(3) gs(1) that by simp
  ultimately show ?thesis using r by (auto simp: link_read_def split: if_splits)
next
  case False
  then have "link_read lo l = l \<or> \<not> ln_open l \<and> ln_pump l = Reading \<and> link_read lo l = l\<lparr>ln_pump := Ended\<rparr>"
    by (cases "readOutputFrame (ln_bytes l)") (auto simp: link_read_def)
  with assms(1) show ?thesis by (auto simp: link_exact_def)
qed

lemma store_exact:
  assumes "link_exact log lo m l" "ln_pump l = Newer n d" "n = lo + 1"
  shows "link_exact log n m (l\<lparr>ln_pump := Stored n d\<rparr>)"
  using assms by (simp add: link_exact_def)

lemma fetch_exact:
  assumes "link_exact log lo m l" "log_wf log m" "ln_serve l = Resyncing" "failed \<longrightarrow> \<not> ln_open l"
    "chunks = take k (filter (\<lambda>p. ln_next l \<le> fst p) log)"
    "chunks = [] \<longrightarrow> filter (\<lambda>p. ln_next l \<le> fst p) log = []"
  shows "link_exact log lo m (if failed \<or> length chunks = 0 then l\<lparr>ln_serve := Serving\<rparr> else l\<lparr>ln_batch := chunks\<rparr>)"
proof -
  obtain fs where fs: "carries (ln_open l) (ln_bytes l) fs" "set fs \<subseteq> set log" "nogap lo (newer (ln_pump l) @ fs)"
    "ln_open l \<longrightarrow> ln_next l \<le> furthest lo (newer (ln_pump l) @ fs) + 1"
    using assms(1,3) by (auto simp: link_exact_def)
  let ?H = "furthest lo (newer (ln_pump l) @ fs)" and ?F = "filter (\<lambda>p. ln_next l \<le> fst p) log"
  have F: "nogap ?H ?F" if "ln_open l" by (rule nogap_log [OF assms(2)]) (use fs(4) that in simp)
  have "nogap ?H chunks" if "ln_open l"
    using F [OF that] nogap_append [of ?H chunks "drop k ?F"] unfolding assms(5) append_take_drop_id by blast
  moreover have "m \<le> ?H" if "ln_open l" "?F = []"
  proof (rule ccontr)
    assume "\<not> m \<le> ?H"
    then have m: "ln_next l \<le> m" "1 \<le> m" using fs(4) that(1) by simp_all
    have "m \<in> set (map fst log)" using assms(2) m(2) by (simp add: log_wf_def)
    with that(2) m(1) show False by (auto simp: filter_empty_conv)
  qed
  ultimately show ?thesis using fs assms(3,4,6) unfolding link_exact_def by (auto intro!: exI [of _ fs] simp del: furthest_simps)
qed

lemma exact_link: "sys_exact s \<Longrightarrow> link_exact (sy_log s) (sy_last s) (due s i) (sy_links s i)"
  by (simp add: sys_exact_def links_exact_def)

definition idle :: "pump_state \<Rightarrow> bool" where
  "idle p \<longleftrightarrow> p = Reading \<or> p = Ended"

lemma channel_cong:
  assumes "\<And>j. ln_pump (sy_links s' j) = ln_pump (sy_links s j) \<or>
      idle (ln_pump (sy_links s' j)) \<and> idle (ln_pump (sy_links s j))"
    "sy_out s' = sy_out s" "sy_last s' = sy_last s" "renderedSeq (sy_client s') = renderedSeq (sy_client s)"
  shows "channel_exact s' = channel_exact s"
proof -
  have "ln_pump (sy_links s' j) = Stored n d \<longleftrightarrow> ln_pump (sy_links s j) = Stored n d"
    "ln_pump (sy_links s' j) = Newer n d \<longleftrightarrow> ln_pump (sy_links s j) = Newer n d"
    "held (ln_pump (sy_links s' j)) = held (ln_pump (sy_links s j))" for j n d
    using assms(1) [of j] by (auto simp: idle_def)
  then show ?thesis by (simp add: channel_exact_def assms(2-4))
qed

lemma links_cong:
  assumes "sy_links s' = sy_links s" "sy_dialled s' = sy_dialled s" "sy_last s' = sy_last s" "sy_log s' = sy_log s"
    "sy_cur s' = sy_cur s" "sy_live s' = sy_live s" "sy_buf s' = sy_buf s"
  shows "links_exact s' = links_exact s"
proof -
  have "due s' = due s" by (intro ext) (simp only: due_def assms)
  then show ?thesis by (simp only: links_exact_def assms)
qed

lemma on_link_fields [simp]:
  "sy_links (on_link i f s) = (sy_links s)(i := f (sy_links s i))" "sy_buf (on_link i f s) = sy_buf s"
  "sy_log (on_link i f s) = sy_log s" "sy_live (on_link i f s) = sy_live s" "sy_dialled (on_link i f s) = sy_dialled s"
  "sy_cur (on_link i f s) = sy_cur s" "sy_last (on_link i f s) = sy_last s" "sy_out (on_link i f s) = sy_out s"
  "sy_client (on_link i f s) = sy_client s" "due (on_link i f s) = due s"
  by (auto simp: on_link_def due_def fun_eq_iff)

lemma exact_on_link:
  assumes "sys_exact s" "link_exact (sy_log s) (sy_last s) (due s i) (f (sy_links s i))"
    "ln_pump (f (sy_links s i)) = ln_pump (sy_links s i)" "ln_serve (f (sy_links s i)) = Dialled \<Longrightarrow> ln_serve (sy_links s i) = Dialled"
    "sy_links s i = no_link \<Longrightarrow> f no_link = no_link"
  shows "sys_exact (on_link i f s)"
proof -
  have "channel_exact (on_link i f s) = channel_exact s" by (rule channel_cong) (simp_all add: assms(3))
  moreover have "link_exact (sy_log s) (sy_last s) (due s j) (((sy_links s)(i := f (sy_links s i))) j)" for j
    using assms(2) exact_link [OF assms(1), of j] by simp
  then have "links_exact (on_link i f s)"
    using assms(1,4,5) unfolding sys_exact_def links_exact_def on_link_fields by auto
  ultimately show ?thesis using assms(1) by (simp add: sys_exact_def)
qed

lemma exact_globals:
  assumes "sys_exact s" "sy_links s' = sy_links s" "sy_dialled s' = sy_dialled s" "sy_last s' = sy_last s"
    "sy_out s' = sy_out s" "set (sy_log s) \<subseteq> set (sy_log s')" "\<And>i. due s' i \<le> due s i"
    "\<And>i. sy_cur s' = Some i \<Longrightarrow> sy_cur s = Some i" "\<And>p. sy_live s' = Some p \<Longrightarrow> fst p = sq (sy_buf s')"
    "renderedSeq (sy_client s') = renderedSeq (sy_client s)" "client_exact (sy_log s') (sy_client s')"
  shows "sys_exact s'"
proof -
  have "link_exact (sy_log s') (sy_last s') (due s' i) (sy_links s' i)" for i
    unfolding assms(2,4) by (rule link_exact_mono [OF exact_link [OF assms(1)] order_refl assms(7,6)])
  moreover have "channel_exact s' = channel_exact s" by (simp add: channel_exact_def assms(2,4,5,10))
  ultimately show ?thesis
    using assms(1-3,8,9,11) unfolding sys_exact_def links_exact_def by auto
qed

lemma exact_live: "sys_exact s \<Longrightarrow> sy_live s = Some p \<Longrightarrow> fst p = sq (sy_buf s)"
  by (simp add: sys_exact_def links_exact_def)

lemma exact_client: "sys_exact s \<Longrightarrow> client_exact (sy_log s) (sy_client s)"
  by (simp add: sys_exact_def)

lemma print_exact:
  assumes "sys_exact s"
  shows "sys_exact (sys_print now now' data s)"
proof (cases "sy_live s \<noteq> None \<or> data = [] \<or> length data > 64 * 1024 \<or> sq (sy_buf s) + 2 \<ge> 2 ^ 64")
  case True
  with assms show ?thesis unfolding sys_print_def by (simp only: if_True)
next
  case False
  then have "sq (fst (evictOutputChunksLocked now' (append_output now data (sy_buf s)))) = sq (sy_buf s) + 1"
    "sq (append_output now data (sy_buf s)) = sq (sy_buf s) + 1"
    by (simp_all add: append_output_def Let_def evict_frame)
  moreover have "sy_live s = None" using False by blast
  ultimately show ?thesis using False assms
    by (intro exact_globals [OF assms]) (auto simp: sys_print_def Let_def due_def sys_exact_def client_exact_def)
qed

lemma hand_over_exact:
  assumes "sys_safe inflate s" "sys_exact s" "calm inflate Hand_over s"
  shows "sys_exact (sys_hand_over s)"
proof (cases "sy_live s")
  case (Some p)
  let ?n = "sq (sy_buf s)"
  obtain d where p: "p = (?n, d)" "(?n, d) \<in> set (sy_log s)"
    using assms(1,2) Some by (cases p) (auto simp: sys_safe_def sys_exact_def links_exact_def)
  show ?thesis
  proof (cases "sy_cur s")
    case None
    then show ?thesis using Some assms(2)
      by (intro exact_globals [OF assms(2)]) (auto simp: sys_hand_over_def due_def sys_exact_def)
  next
    case cur: (Some i)
    let ?f = "\<lambda>l. fst (link_write (?n, d) l)" and ?s = "s\<lparr>sy_live := None\<rparr>"
    have l: "link_exact (sy_log s) (sy_last s) (?n - 1) (sy_links s i)"
      using exact_link [OF assms(2), of i] by (simp add: due_def Some cur)
    have sv: "ln_open (sy_links s i) \<longrightarrow> ln_serve (sy_links s i) = Serving"
      using assms(2,3) cur by (cases "ln_serve (sy_links s i)") (auto simp: sys_exact_def links_exact_def)
    have w: "link_exact (sy_log s) (sy_last s) ?n (?f (sy_links s i))" by (rule live_write_exact [OF l p(2) sv])
    have "link_exact (sy_log s) (sy_last s) (due ?s j) (((sy_links s)(i := ?f (sy_links s i))) j)" for j
      using w exact_link [OF assms(2), of j] by (cases "i = j") (simp_all add: due_def cur)
    moreover have f: "ln_pump (?f l) = ln_pump l" "ln_serve (?f l) = ln_serve l" "?f no_link = no_link" for l
      by (simp_all add: link_write_def no_link_def)
    ultimately have "links_exact (on_link i ?f ?s)"
      using assms(2) unfolding sys_exact_def links_exact_def on_link_fields by auto
    moreover have "channel_exact (on_link i ?f ?s) = channel_exact s" by (rule channel_cong) (simp_all add: f(1))
    ultimately have "sys_exact (on_link i ?f ?s)" using assms(2) by (simp add: sys_exact_def)
    then show ?thesis by (simp add: sys_hand_over_def Some cur p)
  qed
qed (use assms in \<open>simp add: sys_hand_over_def\<close>)

lemma dial_exact:
  assumes "sys_exact s"
  shows "sys_exact (sys_dial s)"
proof -
  let ?n = "sy_dialled s"
  let ?l = "\<lparr>ln_bytes = [], ln_open = True, ln_next = (sy_last s + 1) mod 2 ^ 64, ln_batch = [],
      ln_serve = Dialled, ln_pump = Reading\<rparr>"
  have z: "sy_links s ?n = no_link" using assms by (simp add: sys_exact_def links_exact_def)
  have "link_exact (sy_log s) (sy_last s) 0 ?l"
    unfolding link_exact_def by (intro exI [of _ "[]"]) simp
  moreover have "due s ?n = 0" using assms by (auto simp: due_def sys_exact_def links_exact_def)
  ultimately have "link_exact (sy_log s) (sy_last s) (due s i) (((sy_links s)(?n := ?l)) i)" for i
    using exact_link [OF assms, of i] by simp
  moreover have "due (sys_dial s) = due s" by (auto simp: fun_eq_iff due_def sys_dial_def)
  ultimately have "links_exact (sys_dial s)"
    using assms unfolding sys_exact_def links_exact_def by (auto simp: sys_dial_def)
  moreover have "channel_exact (sys_dial s) = channel_exact s"
    by (rule channel_cong) (simp_all add: sys_dial_def z no_link_def idle_def)
  ultimately show ?thesis using assms by (simp add: sys_exact_def) (simp add: sys_dial_def)
qed

lemma register_exact:
  assumes "sys_exact s"
  shows "sys_exact (sys_register i s)"
proof (cases "ln_serve (sy_links s i) = Dialled")
  case True
  let ?f = "\<lambda>l. l\<lparr>ln_serve := Resyncing\<rparr>" and ?s = "s\<lparr>sy_cur := Some i\<rparr>"
  have "sy_links s i \<noteq> no_link" using True by (auto simp: no_link_def)
  then have n: "i < sy_dialled s" using assms by (meson sys_exact_def links_exact_def not_less)
  have "link_exact (sy_log s) (sy_last s) (due ?s j) (((sy_links s)(i := ?f (sy_links s i))) j)" for j
  proof (cases "j = i")
    case False
    then have "due ?s j \<le> due s j" by (simp add: due_def)
    with False link_exact_mono [OF exact_link [OF assms, of j]] show ?thesis by simp
  qed (use exact_link [OF assms, of i] True in \<open>auto simp: link_exact_def\<close>)
  then have "links_exact (on_link i ?f ?s)"
    using assms n unfolding sys_exact_def links_exact_def on_link_fields by auto
  moreover have "channel_exact (on_link i ?f ?s) = channel_exact s" by (rule channel_cong) simp_all
  ultimately show ?thesis using assms True by (simp add: sys_exact_def sys_register_def)
qed (use assms in \<open>simp add: sys_register_def\<close>)

lemma sys_fetch_exact:
  assumes "sys_safe inflate s" "sys_exact s" "calm inflate (Fetch failed i) s"
  shows "sys_exact (sys_fetch inflate failed i s)"
proof (cases "ln_serve (sy_links s i) = Resyncing \<and> ln_batch (sy_links s i) = []")
  case True
  let ?l = "sy_links s i"
  let ?c = "fst (outputFromOffset inflate True (sy_buf s) (ln_next ?l))" and ?F = "filter (\<lambda>p. ln_next ?l \<le> fst p) (sy_log s)"
  have h: "held_from inflate (sy_buf s) (ln_next ?l) = ?F" "failed \<longrightarrow> \<not> ln_open ?l"
    using assms(3) by (simp_all add: Let_def)
  have "buf_inv inflate (sy_buf s)" "log_wf (sy_log s) (sq (sy_buf s))" using assms(1) by (simp_all add: sys_safe_def)
  with outputFromOffset_prefix [of inflate "sy_buf s" True "ln_next ?l"] h(1) obtain k
    where k: "?c = take k ?F" "?c = [] \<longrightarrow> ?F = []" by auto
  have le: "due s i \<le> sq (sy_buf s)" by (simp add: due_def)
  let ?f = "\<lambda>l. if failed \<or> length ?c = 0 then l\<lparr>ln_serve := Serving\<rparr> else l\<lparr>ln_batch := ?c\<rparr>"
  have l: "link_exact (sy_log s) (sy_last s) (sq (sy_buf s)) ?l"
    using exact_link [OF assms(2), of i] True by (auto simp: link_exact_def)
  have "link_exact (sy_log s) (sy_last s) (sq (sy_buf s)) (?f ?l)"
    using True h(2) k \<open>log_wf (sy_log s) (sq (sy_buf s))\<close> by (intro fetch_exact [OF l]) auto
  then have "link_exact (sy_log s) (sy_last s) (due s i) (?f ?l)" using link_exact_mono le by blast
  then have "sys_exact (on_link i ?f s)"
    using True by (intro exact_on_link [OF assms(2)]) (auto simp: no_link_def split: if_splits)
  then show ?thesis using True by (simp add: sys_fetch_def Let_def)
qed (use assms(2) in \<open>auto simp: sys_fetch_def Let_def\<close>)

lemma resync_write_exact:
  assumes "sys_safe inflate s" "sys_exact s"
  shows "sys_exact (on_link i link_resync s)"
proof (rule exact_on_link [OF assms(2)])
  show "link_exact (sy_log s) (sy_last s) (due s i) (link_resync (sy_links s i))"
    using resync_exact [OF exact_link [OF assms(2)]] link_of_safe [OF assms(1), of i] by (simp add: link_safe_def)
qed (auto simp: link_resync_def link_write_def no_link_def split: list.splits if_splits)

lemma sys_cut_exact: "sys_exact s \<Longrightarrow> sys_exact (sys_cut i k s)"
  unfolding sys_cut_def by (intro exact_on_link cut_exact exact_link) (auto simp: no_link_def)

lemma unregister_exact: "sys_exact s \<Longrightarrow> sys_exact (sys_unregister i s)"
  by (rule exact_globals [of s]) (auto simp: sys_unregister_def due_def dest: exact_live exact_client split: if_splits)

lemma buffer_exact:
  assumes "sys_exact s" "sq b = sq (sy_buf s)"
  shows "sys_exact (s\<lparr>sy_buf := b, sy_flight := f\<rparr>)"
  by (rule exact_globals [OF assms(1)]) (auto simp: due_def assms exact_client dest: exact_live [OF assms(1)])

lemma held_idle: "held p = [] \<longleftrightarrow> idle p"
  by (cases p) (auto simp: idle_def)

lemma sys_read_exact:
  assumes "sys_safe inflate s" "sys_exact s" "calm inflate (Read i) s"
  shows "sys_exact (on_link i (link_read (sy_last s)) s)"
proof -
  let ?l = "sy_links s i" and ?f = "link_read (sy_last s)"
  have ok: "\<forall>p\<in>set (sy_log s). output_ok p" using assms(1) by (simp add: sys_safe_def log_wf_def)
  note r = read_exact [OF exact_link [OF assms(2), of i] ok]
  have "link_exact (sy_log s) (sy_last s) (due s j) (((sy_links s)(i := ?f ?l)) j)" for j
    using r exact_link [OF assms(2), of j] by simp
  moreover have "ln_serve (?f l) = ln_serve l" "?f no_link = no_link" for l
    by (auto simp: link_read_def no_link_def split: sum.split)
  ultimately have "links_exact (on_link i ?f s)"
    using assms(2) unfolding sys_exact_def links_exact_def on_link_fields by auto
  moreover have "channel_exact (on_link i ?f s)"
  proof (cases "ln_pump (?f ?l) = ln_pump ?l \<or> idle (ln_pump (?f ?l)) \<and> idle (ln_pump ?l)")
    case True
    have "channel_exact (on_link i ?f s) = channel_exact s" by (rule channel_cong) (use True in auto)
    with assms(2) show ?thesis by (simp add: sys_exact_def)
  next
    case False
    then obtain d where n: "ln_pump (?f ?l) = Newer (sy_last s + 1) d" "ln_pump ?l = Reading"
      using r by (auto simp: link_read_def idle_def split: if_splits sum.splits)
    have o: "idle (ln_pump (sy_links s j))" if "j \<noteq> i" for j
      using assms(2,3) that by (cases "j < sy_dialled s")
        (auto simp: sys_exact_def links_exact_def held_idle no_link_def idle_def not_less)
    then have "ln_pump (sy_links s j) \<noteq> Stored m e" for j m e
      using n(2) by (cases "j = i") (force simp: idle_def)+
    with assms(2) n o show ?thesis
      by (auto simp: sys_exact_def channel_exact_def Let_def held_idle idle_def)
  qed
  ultimately show ?thesis using assms(2) by (simp add: sys_exact_def)
qed

lemma holder_unique:
  assumes "sys_exact s" "\<not> idle (ln_pump (sy_links s i))" "j \<noteq> i"
  shows "idle (ln_pump (sy_links s j))"
  using assms unfolding sys_exact_def channel_exact_def Let_def held_idle by blast

lemma sys_store_exact:
  assumes "sys_exact s"
  shows "sys_exact (sys_store i s)"
proof (cases "\<exists>n d. ln_pump (sy_links s i) = Newer n d")
  case True
  then obtain n d where p: "ln_pump (sy_links s i) = Newer n d" by blast
  let ?f = "\<lambda>l. l\<lparr>ln_pump := Stored n d\<rparr>" and ?s = "s\<lparr>sy_last := n\<rparr>"
  have n: "n = sy_last s + 1" using assms p unfolding sys_exact_def channel_exact_def Let_def by blast
  have o: "idle (ln_pump (sy_links s j))" if "j \<noteq> i" for j
    by (rule holder_unique [OF assms _ that]) (simp add: p idle_def)
  have "link_exact (sy_log s) n (due s j) (((sy_links s)(i := ?f (sy_links s i))) j)" for j
    using store_exact [OF exact_link [OF assms] p n] link_exact_mono [OF exact_link [OF assms, of j], of n] n by simp
  moreover have "due ?s = due s" by (auto simp: due_def fun_eq_iff)
  ultimately have "links_exact (on_link i ?f ?s)"
    using assms p unfolding sys_exact_def links_exact_def on_link_fields by (auto simp: no_link_def)
  moreover have "ln_pump (sy_links s j) \<noteq> Stored m e" "j \<noteq> i \<Longrightarrow> ln_pump (sy_links s j) \<noteq> Newer m e" for j m e
    using p o [of j] by (cases "j = i"; auto simp: idle_def)+
  then have "channel_exact (on_link i ?f ?s)"
    using assms n o by (auto simp: sys_exact_def channel_exact_def Let_def held_idle idle_def)
  ultimately show ?thesis using assms by (simp add: sys_exact_def sys_store_def p)
next
  case False
  with assms show ?thesis by (auto simp: sys_store_def split: pump_state.split)
qed

lemma sys_send_exact:
  assumes "sys_exact s"
  shows "sys_exact (sys_send i s)"
proof (cases "\<exists>n d. ln_pump (sy_links s i) = Stored n d \<and> length (sy_out s) < 256")
  case True
  then obtain n d where p: "ln_pump (sy_links s i) = Stored n d" "length (sy_out s) < 256" by blast
  let ?f = "\<lambda>l. l\<lparr>ln_pump := Reading\<rparr>" and ?s = "s\<lparr>sy_out := sy_out s @ [(n, d)]\<rparr>"
  have n: "n = sy_last s" "n \<le> furthest (renderedSeq (sy_client s)) (sy_out s) + 1"
    using assms p(1) by (auto simp: sys_exact_def channel_exact_def Let_def)
  have o: "idle (ln_pump (sy_links s j))" if "j \<noteq> i" for j
    by (rule holder_unique [OF assms _ that]) (simp add: p idle_def)
  have "link_exact (sy_log s) (sy_last s) (due s j) (((sy_links s)(i := ?f (sy_links s i))) j)" for j
    using exact_link [OF assms, of j] p by (auto simp: link_exact_def)
  moreover have "due ?s = due s" by (auto simp: due_def fun_eq_iff)
  ultimately have "links_exact (on_link i ?f ?s)"
    using assms p unfolding sys_exact_def links_exact_def on_link_fields by (auto simp: no_link_def)
  moreover have "channel_exact (on_link i ?f ?s)"
    using assms n o by (auto simp: sys_exact_def channel_exact_def Let_def held_idle idle_def nogap_append)
  ultimately show ?thesis using assms p(2) by (simp add: sys_exact_def sys_send_def p(1))
next
  case False
  with assms show ?thesis by (auto simp: sys_send_def split: pump_state.split)
qed

text \<open>Rendering chunks that follow on from the position.\<close>

lemma render_exact:
  assumes "log_wf log m" "rendering c" "client_exact log c" "set cs \<subseteq> set log"
    "nogap (renderedSeq c) cs \<or> \<not> q \<and> ct c \<and> (\<exists>p. cs = [p] \<and> fst p > renderedSeq c + 1)"
  shows "client_exact log (renderOutput cs q c) \<and> ct (renderOutput cs q c) = ct c \<and>
    renderedSeq c \<le> renderedSeq (renderOutput cs q c) \<and>
    (nogap (renderedSeq c) cs \<longrightarrow> renderedSeq (renderOutput cs q c) = furthest (renderedSeq c) cs)"
proof -
  let ?r = "renderedSeq c" and ?A = "accepted q (ct c) cs (renderedSeq c)"
  have len: "length log = m" by (rule log_length [OF assms(1)])
  have "list_all (\<lambda>c. snd c \<noteq> []) cs" using assms(1,4) by (auto simp: list_all_iff log_wf_def)
  note f = render_fields [OF this, of c q] 
  have rd: "\<not> outputStopped c" "\<not> noPTY c" using assms(2) by (simp_all add: rendering_def)
  show ?thesis
  proof (cases "nogap ?r cs")
    case True
    let ?F = "furthest ?r cs"
    have a: "?A = drop ?r (take ?F log)" by (rule accepted_nogap [OF assms(1) True assms(4)])
    have F: "?r \<le> ?F" "?F \<le> length log"
      using furthest_ge furthest_log [OF assms(1) _ assms(4), of ?r] assms(3) len by (auto simp: client_exact_def)
    have l: "last (?r # map fst ?A) = ?F"
    proof (cases "?r < ?F")
      case True
      have "map fst ?A = drop ?r (take ?F [1..<m + 1])"
        using assms(1) unfolding a drop_map [symmetric] take_map [symmetric] by (simp only: log_wf_def)
      then have "map fst ?A = [1 + ?r..<?F + 1]" using F(2) len True by (simp add: take_upt drop_upt del: upt_Suc)
      with True show ?thesis by simp
    qed (use F a in simp)
    have "take ?r log @ drop ?r (take ?F log) = take ?F log"
      using F by (metis append_take_drop_id min.absorb1 take_take)
    then have "stdout (renderOutput cs q c) = concat (map snd (take ?F log))"
      using f(1) [OF rd] assms(3) unfolding client_exact_def a by (metis concat_append map_append)
    with f(2,3) [OF rd] l F show ?thesis by (simp add: client_exact_def)
  next
    case False
    then have "?A = []" using assms(5) by auto
    with f [OF rd] assms(3) False show ?thesis by (simp add: client_exact_def)
  qed
qed

lemma sys_render_exact:
  assumes "sys_safe inflate s" "sys_exact s"
  shows "sys_exact (sys_render s)"
proof (cases "sy_out s = [] \<or> \<not> ct (sy_client s)")
  case False
  then obtain chunk waiting where w: "sy_out s = chunk # waiting" by (cases "sy_out s") auto
  obtain chunks rest where c: "coalesce [chunk] (length (snd chunk)) waiting = (chunks, rest)" by force
  then have o: "sy_out s = chunks @ rest" using coalesce_split [OF c] w by simp
  let ?r = "renderedSeq (sy_client s)"
  have "nogap ?r chunks" "nogap (furthest ?r chunks) rest"
    using assms(2) o by (simp_all add: sys_exact_def channel_exact_def Let_def nogap_append)
  moreover have "log_wf (sy_log s) (sq (sy_buf s))" "rendering (sy_client s)" "set chunks \<subseteq> set (sy_log s)"
    using assms(1) o by (auto simp: sys_safe_def client_safe_def)
  ultimately have r: "client_exact (sy_log s) (renderOutput chunks True (sy_client s))"
    "renderedSeq (renderOutput chunks True (sy_client s)) = furthest ?r chunks" "nogap (furthest ?r chunks) rest"
    using render_exact [of "sy_log s" "sq (sy_buf s)" "sy_client s" chunks True] exact_client [OF assms(2)] by auto
  have e: "sys_render s = s\<lparr>sy_out := rest, sy_client := renderOutput chunks True (sy_client s)\<rparr>"
    using False by (simp add: sys_render_def w c)
  have "furthest ?r (sy_out s) = furthest (furthest ?r chunks) rest" by (simp add: o)
  then have "channel_exact (sys_render s)"
    using assms(2) r(2,3) unfolding e sys_exact_def channel_exact_def Let_def by simp
  moreover have "links_exact (sys_render s) = links_exact s" by (rule links_cong) (simp_all add: e)
  ultimately show ?thesis using assms(2) r(1) by (simp add: sys_exact_def) (simp add: e)
qed (use assms in \<open>auto simp: sys_render_def split: list.split\<close>)

lemma advance_exact:
  assumes "sys_exact s" "client_exact (sy_log s) c" "renderedSeq (sy_client s) \<le> renderedSeq c"
  shows "sys_exact (s\<lparr>sy_client := c\<rparr>)"
proof -
  let ?r = "renderedSeq (sy_client s)" and ?r' = "renderedSeq c"
  have "furthest ?r (sy_out s) \<le> furthest ?r' (sy_out s)" by (rule furthest_mono [OF assms(3)])
  moreover have "nogap ?r (sy_out s) \<longrightarrow> nogap ?r' (sy_out s)" using nogap_mono [OF _ assms(3)] by blast
  ultimately have "channel_exact (s\<lparr>sy_client := c\<rparr>)"
    using assms(1) unfolding sys_exact_def channel_exact_def Let_def by (auto intro: order_trans le_SucI)
  moreover have "links_exact (s\<lparr>sy_client := c\<rparr>) = links_exact s" by (rule links_cong) simp_all
  ultimately show ?thesis using assms(1,2) by (simp add: sys_exact_def)
qed

lemma sys_uds_exact:
  assumes "sys_safe inflate s" "sys_exact s" "calm inflate (Uds n) s"
  shows "sys_exact (sys_uds n s)"
proof (cases "map_of (sy_log s) n")
  case (Some d)
  obtain c2 where c2: "fst (handle_uds_msg (UdsOutput n d) (sy_client s)) = renderOutput [(n, d)] False c2"
    "rendering c2 = rendering (sy_client s)" "stdout c2 = stdout (sy_client s)"
    "renderedSeq c2 = renderedSeq (sy_client s)" "ct c2 = ct (sy_client s)"
    using uds_renders by metis
  have c: "log_wf (sy_log s) (sq (sy_buf s))" "rendering c2" "client_exact (sy_log s) c2"
    using assms(1) exact_client [OF assms(2)] c2 by (auto simp: sys_safe_def client_safe_def client_exact_def)
  have "nogap (renderedSeq c2) [(n, d)] \<or> \<not> False \<and> ct c2 \<and> (\<exists>p. [(n, d)] = [p] \<and> fst p > renderedSeq c2 + 1)"
    using assms(3) c2(4,5) by (cases "n \<le> renderedSeq c2 + 1") auto
  from render_exact [OF c _ this] map_of_SomeD [OF Some]
  have "client_exact (sy_log s) (renderOutput [(n, d)] False c2) \<and>
      renderedSeq c2 \<le> renderedSeq (renderOutput [(n, d)] False c2)" by simp
  with advance_exact [OF assms(2), of "renderOutput [(n, d)] False c2"] c2 show ?thesis
    by (simp add: sys_uds_def Some del: handle_uds_msg.simps)
qed (use assms in \<open>simp add: sys_uds_def\<close>)

lemma sys_on_exact:
  assumes "sys_safe inflate s" "sys_exact s" "calm inflate e s"
  shows "sys_exact (sys_on deflate inflate e s)"
proof (cases e)
  case Flush
  obtain b f where fb: "flush_begin (sy_buf s) = (b, f)" by force
  then have "sq b = sq (sy_buf s)" by (auto simp: flush_begin_def split: if_splits)
  moreover have "sq (flush_finish deflate chs (sy_buf s)) = sq (sy_buf s)" for chs
    by (simp add: flush_finish_def Let_def split: sum.splits)
  ultimately show ?thesis
    using Flush buffer_exact [OF assms(2)] by (simp add: sys_flush_def fb split: option.split)
next
  case (Evict now)
  with buffer_exact [OF assms(2), of "fst (evict_stale_locked now (sy_buf s))" "sy_flight s"] show ?thesis
    by (simp add: sys_evict_def fst_evict_stale evict_frame)
next
  case Seed
  have "sys_exact (s\<lparr>sy_last := renderedSeq (sy_client s)\<rparr>)" if "sy_dialled s = 0"
  proof -
    have n: "sy_links s i = no_link" for i using assms(2) that by (simp add: sys_exact_def links_exact_def)
    with assms(2) show ?thesis
      by (simp add: sys_exact_def links_exact_def channel_exact_def Let_def no_link_exact)
        (simp add: no_link_def furthest_ge)
  qed
  with Seed assms(2) show ?thesis by (simp add: sys_seed_def)
next
  case Set_transport
  have "client_exact (sy_log s) ((sy_client s)\<lparr>ct := True\<rparr>)"
    using exact_client [OF assms(2)] by (simp add: client_exact_def)
  with Set_transport assms(2) advance_exact [OF assms(2)] show ?thesis by (simp add: sys_transport_def)
next
  case (Cut i k)
  with assms(2) show ?thesis by (simp add: sys_cut_exact)
qed (use assms in \<open>simp_all add: print_exact hand_over_exact dial_exact register_exact sys_fetch_exact
  resync_write_exact unregister_exact sys_read_exact sys_store_exact sys_send_exact sys_render_exact
  sys_uds_exact del: calm.simps\<close>)

lemma start_exact: "sys_start s \<Longrightarrow> sys_exact s"
  unfolding sys_start_def sys_exact_def links_exact_def channel_exact_def client_exact_def
  by (simp add: Let_def no_link_exact) (simp add: no_link_def)

lemma calm_run_exact:
  assumes "flate_laws deflate inflate" "sys_safe inflate s" "sys_exact s" "calm_run deflate inflate es s"
  shows "sys_exact (sys_run deflate inflate es s)"
  using assms(2-4)
proof (induction es arbitrary: s)
  case (Cons e es)
  then have "sys_exact (sys_on deflate inflate e s)" by (intro sys_on_exact) simp_all
  with Cons.IH [OF sys_on_safe [OF Cons.prems(1) assms(1), of e]] Cons.prems(3) show ?case by (simp add: sys_run_def)
qed (simp add: sys_run_def)

text \<open>Nothing is under way: the chunk printed last was handed on, the registered connection is open
  and resynchronised, and everything written to it was read and rendered.\<close>

definition caught_up :: "system \<Rightarrow> bool" where
  "caught_up s \<longleftrightarrow> sy_live s = None \<and> sy_out s = [] \<and>
     (\<exists>i < sy_dialled s. sy_cur s = Some i \<and> ln_open (sy_links s i) \<and> ln_serve (sy_links s i) = Serving \<and>
        ln_bytes (sy_links s i) = []) \<and>
     (\<forall>i < sy_dialled s. held (ln_pump (sy_links s i)) = [])"

text \<open>C1. The terminal shows exactly the beginning of the session's output, however often the connection was
  lost and wherever its stream was cut, and all of it once the client has caught up, in calm runs: no live
  output is handed to a connection that is still being resynchronised; a resynchronisation finds what it
  asks for still held, and fails to fetch it only when its connection is gone; a reader does not begin a
  frame while the reader of another connection holds a chunk it has not passed on; and the Unix socket
  skips nothing before the transport is set. Without the third and without the first output can be lost:
  see overlapping_readers_lose_output and live_output_overtakes_resync.\<close>

theorem undisturbed_output_is_complete:
  assumes "flate_laws deflate inflate" "sys_start s0" "calm_run deflate inflate es s0"
    "s = sys_run deflate inflate es s0"
  shows "stdout (sy_client s) = concat (map snd (take (renderedSeq (sy_client s)) (sy_log s))) \<and>
    (caught_up s \<longrightarrow> stdout (sy_client s) = concat (map snd (sy_log s)))"
proof -
  have safe: "sys_safe inflate s" unfolding assms(4) by (rule run_safe [OF assms(1) start_safe [OF assms(2)]])
  have ex: "sys_exact s"
    unfolding assms(4) by (rule calm_run_exact [OF assms(1) start_safe [OF assms(2)] start_exact [OF assms(2)] assms(3)])
  let ?r = "renderedSeq (sy_client s)"
  have out: "stdout (sy_client s) = concat (map snd (take ?r (sy_log s)))"
    using exact_client [OF ex] by (simp add: client_exact_def)
  have "length (sy_log s) \<le> ?r" if cu: "caught_up s"
  proof -
    obtain i where i: "sy_cur s = Some i" "ln_open (sy_links s i)" "ln_serve (sy_links s i) = Serving"
      "ln_bytes (sy_links s i) = []" "i < sy_dialled s"
      using cu by (auto simp: caught_up_def)
    have h: "held (ln_pump (sy_links s j)) = []" for j
      using cu ex by (cases "j < sy_dialled s")
        (auto simp: caught_up_def sys_exact_def links_exact_def no_link_def not_less)
    obtain fs where fs: "carries True [] fs" "sq (sy_buf s) \<le> furthest (sy_last s) (newer (ln_pump (sy_links s i)) @ fs)"
      using exact_link [OF ex, of i] i cu by (auto simp: link_exact_def due_def caught_up_def)
    have "newer (ln_pump (sy_links s i)) = []" using h [of i] by (cases "ln_pump (sy_links s i)") simp_all
    then have "sq (sy_buf s) \<le> sy_last s" using fs(2) carries_open_Nil [OF fs(1)] by simp
    moreover have "ln_pump (sy_links s j) \<noteq> Stored n d" for j n d using h [of j] by (cases "ln_pump (sy_links s j)") simp_all
    then have "sy_last s \<le> ?r"
      using ex cu by (simp add: sys_exact_def channel_exact_def Let_def caught_up_def)
    ultimately show ?thesis using safe log_length [of "sy_log s" "sq (sy_buf s)"] by (simp add: sys_safe_def)
  qed
  with out show ?thesis by simp
qed

section \<open>A run with a lost connection\<close>

definition system0 :: system where
  "system0 = \<lparr>sy_buf = buffer0, sy_flight = None, sy_log = [], sy_live = None, sy_links = (\<lambda>i. no_link),
     sy_dialled = 0, sy_cur = None, sy_last = 0, sy_out = [], sy_client = tclient0\<rparr>"

text \<open>The second chunk is lost with five bytes of its frame delivered, and comes with the
  resynchronisation of the second connection.\<close>

definition lost_and_found :: "sys_event list" where
  "lost_and_found =
     [Seed, Dial, Register 0, Set_transport, Fetch False 0, Print 5 6 [104], Hand_over, Read 0, Store 0, Send 0, Render,
      Print 7 8 [105], Hand_over, Cut 0 5, Dial, Unregister 0, Register 1, Fetch False 1, Resync_write 1,
      Fetch False 1, Read 0, Read 1, Store 1, Send 1, Render]"

lemma start0: "sys_start system0"
  by (simp add: sys_start_def system0_def empty_buffer_def buffer0_def rendering_def tclient0_def)

lemma evict_nothing [simp]:
  "coldPending s = [] \<Longrightarrow> coldSegments s = [] \<Longrightarrow> \<not> over_limit s \<Longrightarrow> \<forall>c\<in>set (outputChunks s). \<not> too_old now c \<Longrightarrow>
   fst (evictOutputChunksLocked now s) = s"
  by (rule evict_small) auto

lemma read_short:
  "length bs < 12 \<Longrightarrow> readOutputFrame bs = Inl (if bs = [] then EOF else UnexpectedEOF)"
  by (simp add: readOutputFrame_def read_full_short)

lemma fetch_recent:
  "coldPending s = [] \<Longrightarrow> coldSegments s = [] \<Longrightarrow>
   fst (outputFromOffset inflate has_st s n) = map chunk_pair (raw_batch (raw_from n (outputChunks s)) [] 0)"
  by (simp add: outputFromOffset_def Let_def raw_from_def chunk_pair_def [abs_def])

lemmas run_simps = sys_run_def sys_print_def sys_hand_over_def sys_dial_def sys_register_def sys_fetch_def link_resync_def
  link_write_def sys_cut_def sys_unregister_def link_read_def sys_store_def sys_send_def sys_render_def sys_seed_def
  sys_transport_def on_link_def

lemma run_Cons:
  "sys_on deflate inflate e s = s1 \<Longrightarrow> P (sys_run deflate inflate es s1) \<Longrightarrow> P (sys_run deflate inflate (e # es) s)"
  by (simp add: sys_run_def)

lemma calm_run_Cons:
  "sys_on deflate inflate e s = s1 \<Longrightarrow> calm inflate e s \<Longrightarrow>
   calm_run deflate inflate es s1 \<and> P (sys_run deflate inflate es s1) \<Longrightarrow>
   calm_run deflate inflate (e # es) s \<and> P (sys_run deflate inflate (e # es) s)"
  by (simp add: sys_run_def)

lemmas eval_simps = run_simps buffer0_def append_output_def Let_def over_limit_def
   too_old_def maxHotOutputChunks_def maxHotOutputBytes_def maxOutputBufferAge_def second_def
   fetch_recent raw_from_def maxResyncBatchRawBytes_def held_from_def retained_def raw_retained_def chunk_pair_def
   untimed_def tclient0_def no_link_def readOutputFrame_write readOutputFrame_write [where s = "[]", simplified]
   output_ok_def maxOutputFrame_def maxCoalesce_def read_short All_less_Suc renderOutput_def writeOutput_def trackScreen_def

definition found :: "system \<Rightarrow> bool" where
  "found s \<longleftrightarrow> sy_log s = [(1, [104]), (2, [105])] \<and> caught_up s"

lemma lost_and_found_run:
  "calm_run Inr (\<lambda>z. (z, EOF)) lost_and_found system0 \<and> found (sys_run Inr (\<lambda>z. (z, EOF)) lost_and_found system0)"
  unfolding lost_and_found_def system0_def
  apply (rule calm_run_Cons [where P = found], (simp add: eval_simps; fail), (simp add: eval_simps; fail))+
  apply (simp add: sys_run_def found_def caught_up_def All_less_Suc)
  done

lemma no_compression: "flate_laws Inr (\<lambda>z. (z, EOF))"
  by (simp add: flate_laws_def)

lemma terminal_shows_the_session_witness:
  "\<exists>L. subseq L [(1 :: nat, [104]), (2, [105])] \<and>
     stdout (sy_client (sys_run Inr (\<lambda>z. (z, EOF)) lost_and_found system0)) = concat (map snd L)"
  using terminal_shows_the_session [OF no_compression start0 refl, of lost_and_found] lost_and_found_run
  by (auto simp: found_def)

lemma undisturbed_output_is_complete_witness:
  "stdout (sy_client (sys_run Inr (\<lambda>z. (z, EOF)) lost_and_found system0)) = [104, 105]"
proof -
  note undisturbed_output_is_complete [OF no_compression start0 conjunct1 [OF lost_and_found_run] refl, THEN conjunct2]
  with lost_and_found_run show ?thesis by (simp add: found_def)
qed

text \<open>Why the readers must not overlap: the reader of the first connection has stored the position of
  its chunk and not yet sent the chunk when the reader of the second sends the next one. The client
  then renders the second chunk alone, and its position, which the next hello carries, is past both.\<close>

definition readers_overlap :: "sys_event list" where
  "readers_overlap =
     [Seed, Dial, Register 0, Set_transport, Fetch False 0, Print 5 6 [104], Hand_over, Read 0, Store 0,
      Dial, Register 1, Fetch False 1, Print 7 8 [105], Hand_over, Read 1, Store 1, Send 1, Send 0, Render]"

definition first_chunk_lost :: "system \<Rightarrow> bool" where
  "first_chunk_lost s \<longleftrightarrow> sy_log s = [(1, [104]), (2, [105])] \<and> stdout (sy_client s) = [105] \<and> sy_last s = 2 \<and>
     sy_out s = [] \<and> (\<forall>i < sy_dialled s. ln_pump (sy_links s i) = Reading)"

theorem overlapping_readers_lose_output:
  "first_chunk_lost (sys_run Inr (\<lambda>z. (z, EOF)) readers_overlap system0)"
  unfolding readers_overlap_def system0_def
  apply (rule run_Cons [where P = first_chunk_lost], (simp add: eval_simps; fail))+
  apply (simp add: sys_run_def first_chunk_lost_def All_less_Suc)
  done

end
