(* ===== verification/Input_Dedup.thy ===== *)
theory Input_Dedup
  imports Prelude
begin

text \<open>
  The input deduplicator of one connection (internal/qtransport/input_dedup.go): keystrokes
  travel both on a reliable stream and, speculatively, in datagrams that may be lost, repeated
  or reordered. inputDeduper decides which bytes are new. The uint64 counters are naturals with
  the wrap-around written out.
\<close>

(* internal/qtransport/input_dedup.go:13-16 inputDeduper *)
record inputDeduper =
  streamPos :: nat
  applied :: nat

definition new_deduper :: inputDeduper where
  "new_deduper = \<lparr>streamPos = 0, applied = 0\<rparr>"

text \<open>Both operations return the new state and the bytes to forward; nil is the empty list.\<close>

(* internal/qtransport/input_dedup.go:18-36 inputDeduper.fromStream *)
definition fromStream :: "bytes \<Rightarrow> inputDeduper \<Rightarrow> inputDeduper \<times> bytes" where
  "fromStream data d =
     (let start = streamPos d;
          d1 = d\<lparr>streamPos := (streamPos d + length data) mod 2 ^ 64\<rparr> in
      if start \<ge> applied d1 then (d1\<lparr>applied := streamPos d1\<rparr>, data)
      else if streamPos d1 \<le> applied d1 then (d1, [])
      else let skip = applied d1 - start in
           (d1\<lparr>applied := streamPos d1\<rparr>, drop skip data))"

(* internal/qtransport/input_dedup.go:38-46 inputDeduper.fromDatagram *)
definition fromDatagram :: "nat \<Rightarrow> bytes \<Rightarrow> inputDeduper \<Rightarrow> inputDeduper \<times> bytes" where
  "fromDatagram offset data d =
     (if offset \<noteq> applied d \<or> length data = 0 then (d, [])
      else (d\<lparr>applied := (applied d + length data) mod 2 ^ 64\<rparr>, data))"

text \<open>What reaches the pty over an arbitrary interleaving of stream reads and datagrams.\<close>

datatype input_event = Stream bytes | Datagram nat bytes

fun dedup_event :: "input_event \<Rightarrow> inputDeduper \<Rightarrow> inputDeduper \<times> bytes" where
  "dedup_event (Stream b) d = fromStream b d"
| "dedup_event (Datagram off b) d = fromDatagram off b d"

fun dedup_run :: "input_event list \<Rightarrow> inputDeduper \<Rightarrow> inputDeduper \<times> bytes" where
  "dedup_run [] d = (d, [])"
| "dedup_run (e # es) d =
     (let (d1, out) = dedup_event e d; (d2, outs) = dedup_run es d1 in (d2, out @ outs))"

fun stream_bytes :: "input_event list \<Rightarrow> bytes" where
  "stream_bytes [] = []"
| "stream_bytes (Stream b # es) = b @ stream_bytes es"
| "stream_bytes (Datagram off b # es) = stream_bytes es"

text \<open>A datagram carries bytes the client put on the stream, with the position they have there.\<close>

definition datagram_of :: "bytes \<Rightarrow> nat \<Rightarrow> bytes \<Rightarrow> bool" where
  "datagram_of sent off b \<longleftrightarrow> b = take (length b) (drop off sent)"

fun event_of :: "bytes \<Rightarrow> input_event \<Rightarrow> bool" where
  "event_of sent (Stream b) \<longleftrightarrow> True"
| "event_of sent (Datagram off b) \<longleftrightarrow> datagram_of sent off b"

definition dedup_inv :: "bytes \<Rightarrow> bytes \<Rightarrow> bytes \<Rightarrow> inputDeduper \<Rightarrow> bool" where
  "dedup_inv sent seen out d \<longleftrightarrow>
     prefix seen sent \<and> streamPos d = length seen \<and> streamPos d \<le> applied d \<and>
     applied d \<le> length sent \<and> out = take (applied d) sent"

lemma take_add_eq: "take n xs @ take m (drop n xs) = take (n + m) xs"
  by (simp add: take_add)

lemma fromStream_inv [inv_intros]:
  assumes inv: "dedup_inv sent seen out d" and nxt: "prefix (seen @ b) sent"
    and len: "length sent < 2 ^ 64"
  shows "dedup_inv sent (seen @ b) (out @ snd (fromStream b d)) (fst (fromStream b d))"
proof -
  from nxt have l: "length seen + length b \<le> length sent"
    using prefix_length_le by fastforce
  then have m: "(length seen + length b) mod 2 ^ 64 = length seen + length b"
    using len by simp
  from nxt have b: "b = take (length b) (drop (length seen) sent)"
    by (auto simp: prefix_def)
  have skip: "take (applied d) sent @ drop (applied d - length seen) b =
      take (length seen + length b) sent"
    if "length seen \<le> applied d" "applied d \<le> length seen + length b"
  proof -
    have "drop (applied d - length seen) b =
        take (length seen + length b - applied d) (drop (applied d) sent)"
      by (subst b) (use that in \<open>simp add: drop_take add.commute\<close>)
    then show ?thesis using that by (simp add: take_add_eq)
  qed
  show ?thesis
    using inv l m nxt skip skip [of] len
    by (auto simp: dedup_inv_def fromStream_def Let_def)
qed

lemma fromDatagram_inv [inv_intros]:
  assumes inv: "dedup_inv sent seen out d" and dg: "datagram_of sent off b"
    and len: "length sent < 2 ^ 64"
  shows "dedup_inv sent seen (out @ snd (fromDatagram off b d)) (fst (fromDatagram off b d))"
proof (cases "off = applied d \<and> b \<noteq> []")
  case True
  have "length b \<le> length sent - off"
    using dg by (metis datagram_of_def length_drop length_take min.cobounded1 min.commute)
  moreover have "applied d \<le> length sent" using inv by (simp add: dedup_inv_def)
  ultimately have l: "applied d + length b \<le> length sent" using True by linarith
  then have m: "(applied d + length b) mod 2 ^ 64 = applied d + length b" using len by simp
  have "take (applied d) sent @ b = take (applied d + length b) sent"
    using dg True by (metis datagram_of_def take_add_eq)
  then show ?thesis using inv l m True by (auto simp: dedup_inv_def fromDatagram_def)
qed (use inv in \<open>auto simp: fromDatagram_def\<close>)

lemma dedup_run_inv:
  assumes "dedup_inv sent seen out d" "prefix (seen @ stream_bytes es) sent"
    "\<forall>e\<in>set es. event_of sent e" "length sent < 2 ^ 64"
  shows "dedup_inv sent (seen @ stream_bytes es) (out @ snd (dedup_run es d)) (fst (dedup_run es d))"
  using assms
proof (induction es arbitrary: d seen out)
  case (Cons e es)
  show ?case
  proof (cases e)
    case (Stream b)
    have "prefix (seen @ b) sent"
      using Cons.prems(2) Stream by (auto simp: prefix_def)
    from fromStream_inv [OF Cons.prems(1) this Cons.prems(4)]
    show ?thesis
      using Cons.IH [of "seen @ b" "out @ snd (fromStream b d)" "fst (fromStream b d)"] Cons.prems Stream
      by (simp add: Let_def case_prod_beta)
  next
    case (Datagram off b)
    from fromDatagram_inv [OF Cons.prems(1) _ Cons.prems(4), of off b]
    show ?thesis
      using Cons.IH [of seen "out @ snd (fromDatagram off b d)" "fst (fromDatagram off b d)"] Cons.prems Datagram
      by (simp add: Let_def case_prod_beta)
  qed
qed simp

lemma dedup_inv_init: "dedup_inv sent [] [] new_deduper"
  by (simp add: dedup_inv_def new_deduper_def)

text \<open>Whatever part of the client's input has been read from the stream, and whatever
  datagrams (lost, repeated, early or late) arrived in between, the pty has received a prefix of
  the client's bytes, each byte once and in order, and at least everything the stream delivered.\<close>

theorem dedup_exactly_once:
  assumes "prefix (stream_bytes es) sent" "\<forall>e\<in>set es. event_of sent e" "length sent < 2 ^ 64"
  shows "snd (dedup_run es new_deduper) = take (applied (fst (dedup_run es new_deduper))) sent \<and>
         prefix (stream_bytes es) (snd (dedup_run es new_deduper)) \<and>
         (stream_bytes es = sent \<longrightarrow> snd (dedup_run es new_deduper) = sent)"
proof -
  let ?d = "fst (dedup_run es new_deduper)" and ?o = "snd (dedup_run es new_deduper)"
  have "dedup_inv sent (stream_bytes es) ?o ?d"
    using dedup_run_inv [OF dedup_inv_init, of es sent] assms by simp
  then have inv: "streamPos ?d = length (stream_bytes es)" "streamPos ?d \<le> applied ?d"
    "applied ?d \<le> length sent" "?o = take (applied ?d) sent"
    by (auto simp: dedup_inv_def)
  have "stream_bytes es = take (length (stream_bytes es)) sent"
    using assms(1) by (auto simp: prefix_def)
  then have "prefix (stream_bytes es) ?o"
    using inv by (metis min.absorb1 take_is_prefix take_take)
  then show ?thesis using inv by auto
qed

lemma dedup_exactly_once_witness:
  "snd (dedup_run [Datagram 0 [104], Datagram 1 [105], Datagram 1 [105], Stream [104, 105, 10]]
      new_deduper) = [104, 105, 10]"
  by (rule dedup_exactly_once
      [of "[Datagram 0 [104], Datagram 1 [105], Datagram 1 [105], Stream [104, 105, 10]]" "[104, 105, 10]",
        THEN conjunct2, THEN conjunct2, THEN mp])
    (simp_all add: datagram_of_def)

end
