(* ===== verification/QServer.thy ===== *)
theory QServer
  imports Frames Input_Dedup Transport_Types "HOL-Library.AList"
begin

text \<open>
  The server end of the QUIC transport (internal/qtransport/server.go with the server parts of
  agent.go, forward.go and rforward.go). A connection has a number of its own, since a client that
  reconnects keeps its identifier: s.clients[cid] == sc compares connections. quic-go is reduced to
  what arrives (a first frame, control frames, stream bytes, datagrams, the end of a connection) and
  what is done (acts); a write of output has a beginning and an end, between which the watchdog can
  see it.
\<close>

unbundle bit_operations_syntax

section \<open>State\<close>

(* internal/qtransport/server.go:30-71 serverClient *)
record serverClient =
  sv_id :: ClientID
  sv_inDedup :: inputDeduper
  sv_bytesSent :: nat
  sv_lastSendNano :: int
  sv_lastRecvNano :: int
  sv_slowWrites :: nat
  sv_maxWriteMs :: nat
  sv_writeStartNano :: int
  sv_stallEpisodes :: nat
  sv_stallWarned :: bool
  sv_lastStallWarnNano :: int
  sv_fwdActive :: int
  sv_fwdOpened :: nat
  sv_fwdBytesToTarget :: nat
  sv_fwdBytesFromTarget :: nat
  sv_agentForward :: bool
  sv_remoteForward :: bool
  sv_addr :: string

text \<open>Every connection that has said hello is in qs_conns until it ends; qs_clients has the current
  connection of each client.\<close>

(* internal/qtransport/server.go:73-104 quicServer *)
record quicServer =
  qs_conns :: "(nat \<times> serverClient) list"
  qs_clients :: "(ClientID \<times> nat) list"
  qs_meta :: "string \<times> string \<times> bytes"
  qs_fwdDisabled :: bool
  qs_agentFwdDisabled :: bool
  qs_agentProviders :: "(string \<times> ClientID) list"
  qs_rfwd :: bool

(* internal/qtransport/server.go:139-147 NewServerFromPacketConn *)
definition new_server :: quicServer where
  "new_server = \<lparr>qs_conns = [], qs_clients = [], qs_meta = ('''', '''', []), qs_fwdDisabled = False,
     qs_agentFwdDisabled = False, qs_agentProviders = [], qs_rfwd = False\<rparr>"

datatype server_act =
    OnConnect ClientID
  | OnDisconnect ClientID
  | OnResync ClientID nat
  | RfwdHello ClientID string "port list"
  | RfwdGone ClientID bool
  | SendCtrl nat ctrlMsg
  | EmitInput Input
  | EmitResize Resize
  | CloseConn nat nat string

definition conn_of :: "ClientID \<Rightarrow> quicServer \<Rightarrow> (nat \<times> serverClient) option" where
  "conn_of cid s =
     (case map_of (qs_clients s) cid of
        None \<Rightarrow> None
      | Some c \<Rightarrow> map_option (Pair c) (map_of (qs_conns s) c))"

definition on_conn :: "nat \<Rightarrow> (serverClient \<Rightarrow> serverClient) \<Rightarrow> quicServer \<Rightarrow> quicServer" where
  "on_conn c f s =
     s\<lparr>qs_conns := map (\<lambda>(d, sc). if d = c then (d, f sc) else (d, sc)) (qs_conns s)\<rparr>"

section \<open>Policy and features\<close>

(* internal/qtransport/forward.go:90-94 quicServer.SetTCPForwarding *)
definition srv_SetTCPForwarding :: "bool \<Rightarrow> quicServer \<Rightarrow> quicServer" where
  "srv_SetTCPForwarding enabled s = s\<lparr>qs_fwdDisabled := \<not> enabled\<rparr>"

(* internal/qtransport/agent.go:32-37 quicServer.SetAgentForwarding *)
definition srv_SetAgentForwarding :: "bool \<Rightarrow> quicServer \<Rightarrow> quicServer" where
  "srv_SetAgentForwarding enabled s = s\<lparr>qs_agentFwdDisabled := \<not> enabled\<rparr>"

(* internal/qtransport/rforward.go:30-38 quicServer.OnRemoteForward *)
definition srv_OnRemoteForward :: "quicServer \<Rightarrow> quicServer" where
  "srv_OnRemoteForward s = s\<lparr>qs_rfwd := True\<rparr>"

(* internal/qtransport/server.go:644-650 quicServer.SetServerMeta *)
definition srv_SetServerMeta :: "string \<Rightarrow> string \<Rightarrow> bytes \<Rightarrow> quicServer \<Rightarrow> quicServer" where
  "srv_SetServerMeta build built inst s = s\<lparr>qs_meta := (build, built, inst)\<rparr>"

(* internal/qtransport/rforward.go:40-46 quicServer.remoteForwardEnabled *)
definition remoteForwardEnabled :: "quicServer \<Rightarrow> bool" where
  "remoteForwardEnabled s \<longleftrightarrow> qs_rfwd s \<and> \<not> qs_fwdDisabled s"

(* internal/qtransport/agent.go:39-52 quicServer.features *)
definition features :: "quicServer \<Rightarrow> 64 word" where
  "features s =
     (let f = FeatureLiveness;
          f = (if \<not> qs_fwdDisabled s then f OR FeatureTCPForward else f);
          f = (if remoteForwardEnabled s then f OR FeatureRemoteForward else f) in
      if \<not> qs_agentFwdDisabled s then f OR FeatureAgentForward else f)"

(* internal/qtransport/rforward.go:48-50 maxDeviceIDLen *)
definition maxDeviceIDLen :: nat where
  "maxDeviceIDLen = 64"

(* internal/qtransport/rforward.go:52-64 quicServer.rfwdHelloFor *)
definition rfwdHelloFor :: "ctrlMsg \<Rightarrow> quicServer \<Rightarrow> bool" where
  "rfwdHelloFor m s =
     (if cm_RemoteForwards m = [] \<or> cm_DeviceID m = '''' \<or> qs_fwdDisabled s then False
      else if length (cm_DeviceID m) > maxDeviceIDLen then False
      else qs_rfwd s)"

section \<open>Connecting and disconnecting\<close>

definition new_client :: "ctrlMsg \<Rightarrow> bool \<Rightarrow> string \<Rightarrow> serverClient" where
  "new_client m rfwd addr =
     \<lparr>sv_id = ClientID (cm_SessionID m) (cm_ClientID m), sv_inDedup = new_deduper, sv_bytesSent = 0,
      sv_lastSendNano = 0, sv_lastRecvNano = 0, sv_slowWrites = 0, sv_maxWriteMs = 0, sv_writeStartNano = 0,
      sv_stallEpisodes = 0, sv_stallWarned = False, sv_lastStallWarnNano = 0, sv_fwdActive = 0, sv_fwdOpened = 0,
      sv_fwdBytesToTarget = 0, sv_fwdBytesFromTarget = 0, sv_agentForward = cm_AgentForward m,
      sv_remoteForward = rfwd, sv_addr = addr\<rparr>"

text \<open>The beginning of a connection: its control stream may not come, the first frame on it be unreadable,
  and the output stream for the client not be opened (the error).\<close>

datatype first_frame = NoControlStream | UnreadableFrame | FirstFrame ctrlMsg "err option"

text \<open>The first frame of a connection, up to the beginning of the resynchronisation loop. A server that
  has no callback for an event only lacks the act.\<close>

(* internal/qtransport/server.go:209-266 quicServer.handleConn *)
definition handle_hello :: "nat \<Rightarrow> string \<Rightarrow> first_frame \<Rightarrow> quicServer \<Rightarrow> quicServer \<times> server_act list" where
  "handle_hello c addr frame s =
     (case frame of
        NoControlStream \<Rightarrow> (s, [])
      | UnreadableFrame \<Rightarrow> (s, [CloseConn c 1 ''expected hello''])
      | FirstFrame m out \<Rightarrow>
          if cm_Type m \<noteq> ctrlHello then (s, [CloseConn c 1 ''expected hello''])
          else if out \<noteq> None then (s, [])
          else
            let cid = ClientID (cm_SessionID m) (cm_ClientID m);
                rfwd = rfwdHelloFor m s;
                (build, built, inst) = qs_meta s;
                s1 = s\<lparr>qs_conns := AList.update c (new_client m rfwd addr) (qs_conns s),
                       qs_clients := AList.update cid c (qs_clients s),
                       qs_agentProviders := (if cm_AgentForward m
                         then AList.update (cm_SessionID m) cid (qs_agentProviders s) else qs_agentProviders s)\<rparr> in
            (s1, [OnConnect cid,
                  SendCtrl c ((ctrl_msg ctrlServerMeta)\<lparr>cm_BuildID := build, cm_BuildTime := built,
                    cm_InstanceID := inst, cm_Features := features s1\<rparr>)]
                 @ (if rfwd then [RfwdHello cid (cm_DeviceID m) (cm_RemoteForwards m)] else [])
                 @ [OnResync cid ((cm_LastOffset m + 1) mod 2 ^ 64)]))"

text \<open>The end of a connection; clientExit is closedByClientExit. Another client of the session with
  agent forwarding takes over, whichever the map gives first.\<close>

(* internal/qtransport/server.go:308-313 quicServer.handleConn *)
definition successor :: "string \<Rightarrow> quicServer \<Rightarrow> ClientID option" where
  "successor sid s =
     map_option fst
       (find (\<lambda>(other, c). cid_Session other = sid \<and>
                 (case map_of (qs_conns s) c of None \<Rightarrow> False | Some osc \<Rightarrow> sv_agentForward osc))
          (qs_clients s))"

(* internal/qtransport/server.go:299-315 quicServer.handleConn *)
definition drop_client :: "ClientID \<Rightarrow> serverClient \<Rightarrow> quicServer \<Rightarrow> quicServer" where
  "drop_client cid sc s =
     (let s1 = s\<lparr>qs_clients := AList.delete cid (qs_clients s)\<rparr>; sid = cid_Session cid in
      if sv_agentForward sc \<and> map_of (qs_agentProviders s1) sid = Some cid then
        (let rest = AList.delete sid (qs_agentProviders s1) in
         s1\<lparr>qs_agentProviders := (case successor sid s1 of None \<Rightarrow> rest | Some other \<Rightarrow> (sid, other) # rest)\<rparr>)
      else s1)"

(* internal/qtransport/server.go:297-332 quicServer.handleConn *)
definition conn_ended :: "nat \<Rightarrow> bool \<Rightarrow> quicServer \<Rightarrow> quicServer \<times> server_act list" where
  "conn_ended c clientExit s =
     (case map_of (qs_conns s) c of
        None \<Rightarrow> (s, [])
      | Some sc \<Rightarrow>
          let cid = sv_id sc; stillMine = (map_of (qs_clients s) cid = Some c);
              s1 = (if stillMine then drop_client cid sc s else s);
              s2 = s1\<lparr>qs_conns := AList.delete c (qs_conns s1)\<rparr> in
          (s2, (if stillMine \<and> sv_remoteForward sc then [RfwdGone cid clientExit] else [])
               @ (if stillMine then [OnDisconnect cid] else [])))"

section \<open>What a client sends\<close>

(* internal/qtransport/server.go:334-353 quicServer.readControl *)
definition readControl :: "int \<Rightarrow> nat \<Rightarrow> ctrlMsg \<Rightarrow> quicServer \<Rightarrow> quicServer \<times> server_act list" where
  "readControl now c m s =
     (case map_of (qs_conns s) c of
        None \<Rightarrow> (s, [])
      | Some sc \<Rightarrow>
          (on_conn c (\<lambda>sc. sc\<lparr>sv_lastRecvNano := now\<rparr>) s,
           if cm_Type m = ctrlResize
           then [EmitResize \<lparr>rz_Client = sv_id sc, rz_Rows = cm_Rows m, rz_Cols = cm_Cols m\<rparr>]
           else if cm_Type m = ctrlPing then [SendCtrl c (ctrl_msg ctrlPong)] else []))"

definition emit_input :: "serverClient \<Rightarrow> bytes \<Rightarrow> server_act list" where
  "emit_input sc out = (if out \<noteq> [] then [EmitInput \<lparr>in_Client = sv_id sc, in_Data = out\<rparr>] else [])"

(* internal/qtransport/server.go:355-385 quicServer.readInput *)
definition readInput :: "int \<Rightarrow> nat \<Rightarrow> bytes \<Rightarrow> quicServer \<Rightarrow> quicServer \<times> server_act list" where
  "readInput now c data s =
     (case map_of (qs_conns s) c of
        None \<Rightarrow> (s, [])
      | Some sc \<Rightarrow>
          if data = [] then (s, [])
          else
            (case fromStream data (sv_inDedup sc) of
               (d, out) \<Rightarrow> (on_conn c (\<lambda>sc. sc\<lparr>sv_lastRecvNano := now, sv_inDedup := d\<rparr>) s, emit_input sc out)))"

(* internal/qtransport/server.go:387-416 quicServer.readInputDatagrams *)
definition readInputDatagrams :: "int \<Rightarrow> nat \<Rightarrow> bytes \<Rightarrow> quicServer \<Rightarrow> quicServer \<times> server_act list" where
  "readInputDatagrams now c b s =
     (case map_of (qs_conns s) c of
        None \<Rightarrow> (s, [])
      | Some sc \<Rightarrow>
          (case decodeInputDatagram b of
             None \<Rightarrow> (s, [])
           | Some (offset, data) \<Rightarrow>
               (case fromDatagram offset data (sv_inDedup sc) of
                  (d, out) \<Rightarrow>
                    (on_conn c (\<lambda>sc. sc\<lparr>sv_lastRecvNano := now, sv_inDedup := d\<rparr>) s, emit_input sc out))))"

section \<open>Output and its health\<close>

(* internal/qtransport/server.go:418-420 slowWriteThreshold *)
definition slowWriteThreshold :: int where
  "slowWriteThreshold = 100 * 1000000"

(* internal/qtransport/server.go:435-440 stallWarnThreshold *)
definition stallWarnThreshold :: int where
  "stallWarnThreshold = 2 * 1000000000"

definition stallWarnRepeat :: int where
  "stallWarnRepeat = 30 * 1000000000"

definition stallCriticalThreshold :: int where
  "stallCriticalThreshold = 30 * 1000000000"

text \<open>writeOutput holds outMu from before the first store to after the second.\<close>

(* internal/qtransport/server.go:467-471 serverClient.writeOutput *)
definition write_begin :: "int \<Rightarrow> nat \<Rightarrow> quicServer \<Rightarrow> quicServer" where
  "write_begin now c s = on_conn c (\<lambda>sc. sc\<lparr>sv_writeStartNano := now\<rparr>) s"

(* internal/qtransport/server.go:472-481 serverClient.writeOutput *)
definition write_end :: "nat \<Rightarrow> quicServer \<Rightarrow> quicServer" where
  "write_end c s =
     on_conn c (\<lambda>sc. let sc1 = sc\<lparr>sv_writeStartNano := 0\<rparr> in
       if sv_stallWarned sc1 then sc1\<lparr>sv_stallWarned := False, sv_lastStallWarnNano := 0\<rparr> else sc1) s"

text \<open>What SendOutput does of one target: find the connection, later account for a write that took dur.\<close>

(* internal/qtransport/server.go:484-490 quicServer.SendOutput *)
definition send_target :: "ClientID \<Rightarrow> quicServer \<Rightarrow> nat option" where
  "send_target cid s = map_option fst (conn_of cid s)"

(* internal/qtransport/server.go:491-505 quicServer.SendOutput *)
definition send_account :: "int \<Rightarrow> int \<Rightarrow> err option \<Rightarrow> bytes \<Rightarrow> serverClient \<Rightarrow> serverClient" where
  "send_account now dur result data sc =
     (if result \<noteq> None then sc
      else
        let sc1 = sc\<lparr>sv_bytesSent := (sv_bytesSent sc + length data) mod 2 ^ 64, sv_lastSendNano := now\<rparr>;
            ms = nat (dur div 1000000);
            sc2 = (if ms > sv_maxWriteMs sc1 then sc1\<lparr>sv_maxWriteMs := ms\<rparr> else sc1) in
        if dur \<ge> slowWriteThreshold then sc2\<lparr>sv_slowWrites := (sv_slowWrites sc2 + 1) mod 2 ^ 64\<rparr> else sc2)"

definition stall_msg :: "int \<Rightarrow> serverClient \<Rightarrow> string" where
  "stall_msg stalled sc =
     ''output stalled '' @ show_int (stalled div 1000000000) @ ''s by client ''
     @ show_nat (unat (cid_Num (sv_id sc))) @ '' ('' @ sv_addr sc @ '') not reading''"

text \<open>One client of the snapshot. The clients whose write is in flight are seen as the loop reaches
  them; nothing else changes them meanwhile.\<close>

(* internal/qtransport/server.go:533-584 quicServer.stallWatchdog *)
definition watch_one ::
  "int \<Rightarrow> (nat \<times> serverClient) list \<Rightarrow> nat \<times> serverClient \<Rightarrow> serverClient \<times> server_act list" where
  "watch_one now snap csc =
     (let (c, sc) = csc; stalled = now - sv_writeStartNano sc in
      if sv_writeStartNano sc = 0 \<or> stalled < stallWarnThreshold then (sc, [])
      else if stalled \<ge> stallCriticalThreshold
      then (sc, [CloseConn c 2 ''output stalled: disconnecting slow client''])
      else if sv_stallWarned sc \<and> now - sv_lastStallWarnNano sc < stallWarnRepeat then (sc, [])
      else
        ((if sv_stallWarned sc then sc
          else sc\<lparr>sv_stallWarned := True, sv_stallEpisodes := (sv_stallEpisodes sc + 1) mod 2 ^ 64\<rparr>)
           \<lparr>sv_lastStallWarnNano := now\<rparr>,
         map (\<lambda>(d, _). SendCtrl d ((ctrl_msg ctrlStatus)\<lparr>cm_Msg := stall_msg stalled sc\<rparr>))
           (filter (\<lambda>(d, osc). d \<noteq> c \<and> cid_Session (sv_id osc) = cid_Session (sv_id sc) \<and>
                               sv_writeStartNano osc = 0) snap)))"

definition registered :: "quicServer \<Rightarrow> (nat \<times> serverClient) list" where
  "registered s = List.map_filter (\<lambda>(cid, c). map_option (Pair c) (map_of (qs_conns s) c)) (qs_clients s)"

(* internal/qtransport/server.go:509-586 quicServer.stallWatchdog *)
definition stallWatchdog :: "int \<Rightarrow> quicServer \<Rightarrow> quicServer \<times> server_act list" where
  "stallWatchdog now s =
     (let snap = registered s in
      (fold (\<lambda>csc. on_conn (fst csc) (\<lambda>_. fst (watch_one now snap csc))) snap s,
       concat (map (\<lambda>csc. snd (watch_one now snap csc)) snap)))"

(* internal/qtransport/server.go:588-632 quicServer.ClientSendStats *)
definition ClientSendStats :: "int \<Rightarrow> quicServer \<Rightarrow> ClientSendStat list" where
  "ClientSendStats now s =
     map (\<lambda>(c, sc).
       let lastUnix = sv_lastSendNano sc div 1000000000;
           recv = sv_lastRecvNano sc div 1000000000;
           d = now - sv_writeStartNano sc in
       \<lparr>css_Client = sv_id sc, css_BytesSent = sv_bytesSent sc,
        css_LastSendUnix = (if sv_lastRecvNano sc \<noteq> 0 \<and> recv > lastUnix then recv else lastUnix),
        css_SlowWrites = sv_slowWrites sc, css_MaxWriteMs = sv_maxWriteMs sc, css_StallEpisodes = sv_stallEpisodes sc,
        css_CurrentStallMs = (if sv_writeStartNano sc \<noteq> 0 \<and> d \<ge> stallWarnThreshold then nat (d div 1000000) else 0),
        css_QUICRemoteAddr = sv_addr sc, css_ForwardsActive = sv_fwdActive sc, css_ForwardsOpened = sv_fwdOpened sc,
        css_ForwardBytesToTarget = sv_fwdBytesToTarget sc, css_ForwardBytesFromTarget = sv_fwdBytesFromTarget sc\<rparr>)
       (registered s)"

section \<open>Messages to clients\<close>

(* internal/qtransport/server.go:652-665 quicServer.SendSessionGone *)
definition srv_SendSessionGone :: "ClientID \<Rightarrow> string \<Rightarrow> int \<Rightarrow> quicServer \<Rightarrow> server_act list" where
  "srv_SendSessionGone cid reason code s =
     (case conn_of cid s of
        None \<Rightarrow> []
      | Some (c, _) \<Rightarrow>
          [SendCtrl c ((ctrl_msg ctrlSessionGone)
             \<lparr>cm_Msg := reason,
              cm_ExitCode := (if code \<ge> 0 then Some (signed_take_bit 31 code) else None)\<rparr>)])"

(* internal/qtransport/server.go:667-675 quicServer.SendStatus *)
definition srv_SendStatus :: "ClientID \<Rightarrow> string \<Rightarrow> quicServer \<Rightarrow> server_act list" where
  "srv_SendStatus cid msg s =
     (case conn_of cid s of
        None \<Rightarrow> []
      | Some (c, _) \<Rightarrow> [SendCtrl c ((ctrl_msg ctrlStatus)\<lparr>cm_Msg := msg\<rparr>)])"

(* internal/qtransport/server.go:696-704 quicServer.ActiveClients *)
definition ActiveClients :: "quicServer \<Rightarrow> ClientID list" where
  "ActiveClients s = map fst (qs_clients s)"

(* internal/qtransport/server.go:150-165 quicServer.DisconnectAllClients *)
definition DisconnectAllClients :: "string \<Rightarrow> quicServer \<Rightarrow> server_act list" where
  "DisconnectAllClients reason s = map (\<lambda>(c, _). CloseConn c 0 reason) (registered s)"

section \<open>Forwarding\<close>

text \<open>The opening handshake on a new stream: the request, then the peer's answer. stream is what opening
  gives, wr the result of writing, answer what is read.\<close>

datatype open_err = OpenErr err | Rejected_by string

(* internal/qtransport/forward.go:51-86 openBidiStream *)
definition openBidiStream ::
  "err option \<Rightarrow> err option \<Rightarrow> (err + ctrlMsg) \<Rightarrow> ctrlType \<Rightarrow> ctrlType \<Rightarrow> open_err + unit" where
  "openBidiStream stream wr answer okType errType =
     (case stream of
        Some e \<Rightarrow> Inl (OpenErr e)
      | None \<Rightarrow>
          (case wr of
             Some e \<Rightarrow> Inl (OpenErr e)
           | None \<Rightarrow>
               (case answer of
                  Inl e \<Rightarrow> Inl (OpenErr e)
                | Inr m \<Rightarrow>
                    if cm_Type m \<noteq> okType then
                      (if cm_Type m = errType then Inl (Rejected_by (cm_Msg m))
                       else Inl (OpenErr (ErrorString ''open: unexpected response type'')))
                    else Inr ())))"

text \<open>Which connection an agent request goes to.\<close>

(* internal/qtransport/agent.go:58-71 quicServer.OpenAgentStream *)
definition agent_target :: "string \<Rightarrow> quicServer \<Rightarrow> err + nat" where
  "agent_target sid s =
     (if qs_agentFwdDisabled s then Inl (ErrorString ''agent forwarding disabled by server'')
      else
        (case map_of (qs_agentProviders s) sid of
           None \<Rightarrow> Inl (ErrorString ''no agent forwarding provider attached'')
         | Some provider \<Rightarrow>
             (case conn_of provider s of
                None \<Rightarrow> Inl (ErrorString ''no agent forwarding provider attached'')
              | Some (c, _) \<Rightarrow> Inr c)))"

(* internal/qtransport/rforward.go:74-83 quicServer.OpenRemoteForward *)
definition remote_target :: "ClientID \<Rightarrow> quicServer \<Rightarrow> err + nat" where
  "remote_target cid s =
     (if qs_fwdDisabled s then Inl (ErrorString ''TCP forwarding disabled by server'')
      else
        (case conn_of cid s of
           None \<Rightarrow> Inl (ErrorString (''client '' @ show_nat (unat (cid_Num cid)) @ '' (session '' @ cid_Session cid
                     @ '') not connected''))
         | Some (c, _) \<Rightarrow> Inr c))"

(* internal/qtransport/forward.go:26-34 maxForwardsPerClient *)
definition maxForwardsPerClient :: int where
  "maxForwardsPerClient = 64"

text \<open>A stream the client opens: refused at once (None is a stream reset without an answer), or counted
  and dialled; then the dial's result and, when the answer is out, the relay to its end.\<close>

(* internal/qtransport/forward.go:108-136 quicServer.handleForwardStream *)
definition forward_begin ::
  "nat \<Rightarrow> (err + ctrlMsg) \<Rightarrow> quicServer \<Rightarrow> quicServer \<times> ctrlMsg option option" where
  "forward_begin c frame s =
     (case frame of
        Inl _ \<Rightarrow> (s, Some None)
      | Inr m \<Rightarrow>
          if cm_Type m \<noteq> ctrlFwdOpen then (s, Some None)
          else if qs_fwdDisabled s
          then (s, Some (Some ((ctrl_msg ctrlFwdOpenErr)\<lparr>cm_Msg := ''TCP forwarding disabled by server''\<rparr>)))
          else
            (case map_of (qs_conns s) c of
               None \<Rightarrow> (s, Some None)
             | Some sc \<Rightarrow>
                 if sv_fwdActive sc + 1 > maxForwardsPerClient
                 then (s, Some (Some ((ctrl_msg ctrlFwdOpenErr)
                         \<lparr>cm_Msg := ''too many forwarded connections (max '' @ show_int maxForwardsPerClient @ '')''\<rparr>)))
                 else (on_conn c (\<lambda>sc. sc\<lparr>sv_fwdActive := sv_fwdActive sc + 1\<rparr>) s, None)))"

(* internal/qtransport/forward.go:141-156 quicServer.handleForwardStream *)
definition forward_dialled ::
  "nat \<Rightarrow> (err + unit) \<Rightarrow> (err \<Rightarrow> string) \<Rightarrow> err option \<Rightarrow> quicServer \<Rightarrow> quicServer \<times> ctrlMsg \<times> bool" where
  "forward_dialled c dial text wr s =
     (let ended = on_conn c (\<lambda>sc. sc\<lparr>sv_fwdActive := sv_fwdActive sc - 1\<rparr>) s in
      case dial of
        Inl e \<Rightarrow> (ended, (ctrl_msg ctrlFwdOpenErr)\<lparr>cm_Msg := text e\<rparr>, False)
      | Inr _ \<Rightarrow>
          if wr \<noteq> None then (ended, ctrl_msg ctrlFwdOpenOK, False)
          else (on_conn c (\<lambda>sc. sc\<lparr>sv_fwdOpened := (sv_fwdOpened sc + 1) mod 2 ^ 64\<rparr>) s,
                ctrl_msg ctrlFwdOpenOK, True))"

(* internal/qtransport/forward.go:169-199 forwardPipe *)
definition forward_end :: "nat \<Rightarrow> nat \<Rightarrow> nat \<Rightarrow> quicServer \<Rightarrow> quicServer" where
  "forward_end c toTarget fromTarget s =
     on_conn c (\<lambda>sc. sc\<lparr>sv_fwdActive := sv_fwdActive sc - 1,
       sv_fwdBytesToTarget := (sv_fwdBytesToTarget sc + toTarget) mod 2 ^ 64,
       sv_fwdBytesFromTarget := (sv_fwdBytesFromTarget sc + fromTarget) mod 2 ^ 64\<rparr>) s"

section \<open>Histories\<close>

datatype srv_event =
    EvHello nat string first_frame
  | EvEnd nat bool
  | EvControl int nat ctrlMsg
  | EvInput int nat bytes
  | EvDatagram int nat bytes
  | EvWriteBegin int nat
  | EvWriteEnd nat
  | EvAccount int int "err option" bytes nat
  | EvTick int
  | EvForward nat "err + ctrlMsg"
  | EvDialled nat "err + unit" "err option"
  | EvForwardEnd nat nat nat

fun srv_do :: "srv_event \<Rightarrow> quicServer \<Rightarrow> quicServer \<times> server_act list" where
  "srv_do (EvHello c addr f) s = handle_hello c addr f s"
| "srv_do (EvEnd c x) s = conn_ended c x s"
| "srv_do (EvControl now c m) s = readControl now c m s"
| "srv_do (EvInput now c b) s = readInput now c b s"
| "srv_do (EvDatagram now c b) s = readInputDatagrams now c b s"
| "srv_do (EvWriteBegin now c) s = (write_begin now c s, [])"
| "srv_do (EvWriteEnd c) s = (write_end c s, [])"
| "srv_do (EvAccount now dur r b c) s = (on_conn c (send_account now dur r b) s, [])"
| "srv_do (EvTick now) s = stallWatchdog now s"
| "srv_do (EvForward c f) s = (fst (forward_begin c f s), [])"
| "srv_do (EvDialled c d w) s = (fst (forward_dialled c d (\<lambda>_. '''') w s), [])"
| "srv_do (EvForwardEnd c a b) s = (forward_end c a b s, [])"

fun srv_run :: "srv_event list \<Rightarrow> quicServer \<Rightarrow> quicServer" where
  "srv_run [] s = s"
| "srv_run (e # es) s = srv_run es (fst (srv_do e s))"

text \<open>A hello that is accepted, the connections that say one, and the connection a client should be on:
  the one of its latest hello, until that one ends.\<close>

fun hello_of :: "srv_event \<Rightarrow> (nat \<times> ClientID \<times> bool) option" where
  "hello_of (EvHello c addr (FirstFrame m out)) =
     (if cm_Type m = ctrlHello \<and> out = None then Some (c, ClientID (cm_SessionID m) (cm_ClientID m), cm_AgentForward m) else None)"
| "hello_of _ = None"

definition hellos :: "srv_event list \<Rightarrow> (nat \<times> ClientID \<times> bool) list" where
  "hellos es = List.map_filter hello_of es"

fun latest :: "ClientID \<Rightarrow> srv_event list \<Rightarrow> nat option \<Rightarrow> nat option" where
  "latest cid [] cur = cur"
| "latest cid (EvEnd c x # es) cur = latest cid es (if cur = Some c then None else cur)"
| "latest cid (e # es) cur =
     latest cid es (case hello_of e of
       Some (c, i, _) \<Rightarrow> if i = cid then Some c else cur
     | None \<Rightarrow> cur)"

text \<open>What most events leave alone: which connections there are, whose they are and the maps.\<close>

definition who :: "serverClient \<Rightarrow> ClientID \<times> bool" where
  "who sc = (sv_id sc, sv_agentForward sc)"

definition view :: "quicServer \<Rightarrow> (nat \<rightharpoonup> ClientID \<times> bool) \<times> (ClientID \<times> nat) list \<times> (string \<times> ClientID) list \<times> bool" where
  "view s = (\<lambda>c. map_option who (map_of (qs_conns s) c), qs_clients s, qs_agentProviders s, qs_agentFwdDisabled s)"

lemma map_of_on_conn: "map_of (qs_conns (on_conn c f s)) d =
    (if d = c then map_option f (map_of (qs_conns s) c) else map_of (qs_conns s) d)"
proof -
  have "map_of (map (\<lambda>(d, sc). if d = c then (d, f sc) else (d, sc)) al) d =
      (if d = c then map_option f (map_of al c) else map_of al d)" for al
    by (induction al) auto
  then show ?thesis by (simp add: on_conn_def)
qed

lemma on_conn_view: "(\<And>sc. map_of (qs_conns s) c = Some sc \<Longrightarrow> who (f sc) = who sc) \<Longrightarrow> view (on_conn c f s) = view s"
  by (cases "map_of (qs_conns s) c")
    (auto simp: view_def map_of_on_conn fun_eq_iff, simp_all add: on_conn_def)

lemma watch_one_who: "who (fst (watch_one now snap csc)) = who (snd csc)"
  by (cases csc) (simp add: watch_one_def who_def Let_def)

lemma fold_on_conn_view:
  "\<forall>csc\<in>set snap. map_option who (map_of (qs_conns s) (fst csc)) = Some (who (snd csc)) \<Longrightarrow>
   view (fold (\<lambda>csc. on_conn (fst csc) (\<lambda>_. fst (watch_one now all csc))) snap s) = view s"
proof (induction snap arbitrary: s)
  case (Cons csc snap)
  let ?s1 = "on_conn (fst csc) (\<lambda>_. fst (watch_one now all csc)) s"
  have v: "view ?s1 = view s"
    using Cons.prems by (intro on_conn_view) (auto simp: watch_one_who)
  then have "(\<lambda>c. map_option who (map_of (qs_conns ?s1) c)) = (\<lambda>c. map_option who (map_of (qs_conns s) c))"
    by (simp add: view_def)
  then have "map_option who (map_of (qs_conns ?s1) c) = map_option who (map_of (qs_conns s) c)" for c
    by (rule fun_cong)
  with Cons.IH [of ?s1] Cons.prems v show ?case by simp
qed simp

lemma registered_in: "(c, sc) \<in> set (registered s) \<longleftrightarrow> (\<exists>cid. (cid, c) \<in> set (qs_clients s)) \<and> map_of (qs_conns s) c = Some sc"
  by (force simp: registered_def List.map_filter_def)

lemma other_view:
  assumes "hello_of e = None" "\<forall>c x. e \<noteq> EvEnd c x"
  shows "view (fst (srv_do e s)) = view s"
proof (cases e)
  case (EvHello c addr f)
  with assms(1) show ?thesis by (cases f) (auto simp: handle_hello_def split: if_splits)
next
  case (EvTick now)
  then show ?thesis
    by (auto simp: stallWatchdog_def Let_def registered_in intro!: fold_on_conn_view)
qed (use assms in \<open>auto simp: readControl_def readInput_def readInputDatagrams_def write_begin_def write_end_def
  send_account_def forward_begin_def forward_dialled_def forward_end_def who_def Let_def
  intro!: on_conn_view split: option.splits prod.splits sum.splits\<close>)

section \<open>The current connection of a client\<close>

definition known :: "quicServer \<Rightarrow> nat \<Rightarrow> (ClientID \<times> bool) option" where
  "known s c = map_option who (map_of (qs_conns s) c)"

text \<open>A registered connection is alive and its client's. fl is whether a client forwards its agent, which
  does not change while it lives; a session's provider is registered and forwards, and there is one
  whenever some registered client of the session forwards.\<close>

definition srv_inv :: "quicServer \<Rightarrow> bool" where
  "srv_inv s \<longleftrightarrow> distinct (map fst (qs_clients s)) \<and>
     (\<forall>cid c. map_of (qs_clients s) cid = Some c \<longrightarrow> (\<exists>a. known s c = Some (cid, a)))"

definition agent_inv :: "(ClientID \<Rightarrow> bool) \<Rightarrow> quicServer \<Rightarrow> bool" where
  "agent_inv fl s \<longleftrightarrow>
     (\<forall>c cid a. known s c = Some (cid, a) \<longrightarrow> a = fl cid) \<and>
     (\<forall>sid p. map_of (qs_agentProviders s) sid = Some p \<longrightarrow>
        cid_Session p = sid \<and> map_of (qs_clients s) p \<noteq> None \<and> fl p) \<and>
     (\<forall>cid. map_of (qs_clients s) cid \<noteq> None \<longrightarrow> fl cid \<longrightarrow>
        map_of (qs_agentProviders s) (cid_Session cid) \<noteq> None)"

lemma view_inv:
  assumes "view s' = view s"
  shows "known s' = known s" "qs_clients s' = qs_clients s" "qs_agentProviders s' = qs_agentProviders s"
    "srv_inv s' = srv_inv s" "agent_inv fl s' = agent_inv fl s"
proof -
  show k: "known s' = known s" using assms by (auto simp: view_def known_def fun_eq_iff)
  show "qs_clients s' = qs_clients s" "qs_agentProviders s' = qs_agentProviders s"
    using assms by (auto simp: view_def)
  with k show "srv_inv s' = srv_inv s" "agent_inv fl s' = agent_inv fl s"
    by (simp_all add: srv_inv_def agent_inv_def)
qed

lemma hello_step:
  assumes "hello_of e = Some (c, cid, a)"
  shows "known (fst (srv_do e s)) = (known s)(c \<mapsto> (cid, a)) \<and>
    qs_clients (fst (srv_do e s)) = AList.update cid c (qs_clients s) \<and>
    qs_agentProviders (fst (srv_do e s)) =
      (if a then AList.update (cid_Session cid) cid (qs_agentProviders s) else qs_agentProviders s)"
proof -
  from assms obtain addr m where e: "e = EvHello c addr (FirstFrame m None)" "cm_Type m = ctrlHello"
    "cid = ClientID (cm_SessionID m) (cm_ClientID m)" "a = cm_AgentForward m"
    by (cases e rule: hello_of.cases) (auto split: if_splits)
  then show ?thesis
    by (auto simp: handle_hello_def Let_def known_def fun_eq_iff AList.update_conv' new_client_def who_def
        split: prod.splits)
qed

lemma end_known: "known (fst (srv_do (EvEnd c x) s)) = (known s)(c := None)"
  by (auto simp: conn_ended_def known_def fun_eq_iff Let_def drop_client_def AList.delete_conv' split: option.split)

lemma end_clients:
  assumes "srv_inv s"
  shows "map_of (qs_clients (fst (srv_do (EvEnd c x) s))) cid =
    (if map_of (qs_clients s) cid = Some c then None else map_of (qs_clients s) cid)"
proof (cases "map_of (qs_conns s) c")
  case None
  then have "map_of (qs_clients s) cid \<noteq> Some c" using assms unfolding srv_inv_def known_def by fastforce
  with None show ?thesis by (simp add: conn_ended_def)
next
  case (Some sc)
  have cl: "qs_clients (fst (srv_do (EvEnd c x) s)) =
      (if map_of (qs_clients s) (sv_id sc) = Some c then AList.delete (sv_id sc) (qs_clients s) else qs_clients s)"
    using Some by (simp add: conn_ended_def Let_def drop_client_def)
  show ?thesis
  proof (cases "map_of (qs_clients s) cid = Some c")
    case True
    then have "\<exists>a. known s c = Some (cid, a)" using assms unfolding srv_inv_def by blast
    then have "sv_id sc = cid" using Some by (auto simp: known_def who_def)
    with True show ?thesis unfolding cl by (simp add: AList.delete_conv')
  next
    case False
    then show ?thesis unfolding cl by (auto simp: AList.delete_conv' simp del: map_of_eq_Some_iff)
  qed
qed

lemma end_distinct:
  "distinct (map fst (qs_clients s)) \<Longrightarrow> distinct (map fst (qs_clients (fst (srv_do (EvEnd c x) s))))"
  by (auto simp: conn_ended_def Let_def drop_client_def distinct_delete split: option.split)

lemma srv_inv_do:
  assumes "srv_inv s" "\<forall>c p. hello_of e = Some (c, p) \<longrightarrow> known s c = None"
  shows "srv_inv (fst (srv_do e s))"
proof (cases "hello_of e")
  case (Some h)
  obtain c cid a where h: "h = (c, cid, a)" by (cases h)
  from hello_step [of e c cid a s] Some h have st: "known (fst (srv_do e s)) = (known s)(c \<mapsto> (cid, a))"
    "qs_clients (fst (srv_do e s)) = AList.update cid c (qs_clients s)" by auto
  have "known s c = None" using assms(2) Some h by blast
  with assms(1) st show ?thesis
    by (fastforce simp: srv_inv_def distinct_update AList.update_conv')
next
  case None
  show ?thesis
  proof (cases "\<exists>c x. e = EvEnd c x")
    case True
    then obtain c x where e: "e = EvEnd c x" by blast
    show ?thesis unfolding e srv_inv_def end_known end_clients [OF assms(1)]
      using assms(1) end_distinct by (auto simp: srv_inv_def split: if_splits)
  next
    case False
    with other_view [OF None] view_inv(4) assms(1) show ?thesis by blast
  qed
qed

lemma latest_other: "hello_of e = None \<Longrightarrow> \<forall>c x. e \<noteq> EvEnd c x \<Longrightarrow> latest cid (e # es) cur = latest cid es cur"
  by (cases e) auto

lemma latest_hello: "hello_of e = Some (c, i, a) \<Longrightarrow> latest cid (e # es) cur = latest cid es (if i = cid then Some c else cur)"
  by (cases e) auto

lemma hellos_Cons: "hellos (e # es) = (case hello_of e of None \<Rightarrow> [] | Some h \<Rightarrow> [h]) @ hellos es"
  by (simp add: hellos_def map_filter_simps split: option.split)

lemma run_latest:
  assumes "srv_inv s" "distinct (map fst (hellos es))" "\<forall>c\<in>set (map fst (hellos es)). known s c = None"
  shows "srv_inv (srv_run es s) \<and>
    map_of (qs_clients (srv_run es s)) cid = latest cid es (map_of (qs_clients s) cid)"
  using assms
proof (induction es arbitrary: s)
  case (Cons e es)
  let ?s = "fst (srv_do e s)"
  have inv: "srv_inv ?s"
    using Cons.prems(1,3) by (intro srv_inv_do) (auto simp: hellos_Cons)
  have rest: "distinct (map fst (hellos es))" using Cons.prems(2) by (simp add: hellos_Cons)
  show ?case
  proof (cases "hello_of e")
    case (Some h)
    obtain c i a where h: "h = (c, i, a)" by (cases h)
    note st = hello_step [of e c i a s]
    have "\<forall>c\<in>set (map fst (hellos es)). known ?s c = None"
      using Cons.prems(2,3) Some h st by (auto simp: hellos_Cons)
    from Cons.IH [OF inv rest this] Some h st show ?thesis
      by (simp add: latest_hello AList.update_conv')
  next
    case None
    show ?thesis
    proof (cases "\<exists>c x. e = EvEnd c x")
      case True
      then obtain c x where e: "e = EvEnd c x" by blast
      have "\<forall>c\<in>set (map fst (hellos es)). known ?s c = None"
        using Cons.prems(3) unfolding e end_known by (auto simp: hellos_Cons)
      from Cons.IH [OF inv rest this] show ?thesis
        using end_clients [OF Cons.prems(1), of c x cid] by (simp add: e del: srv_do.simps)
    next
      case False
      have v: "view ?s = view s" using other_view [OF None] False by blast
      have "\<forall>c\<in>set (map fst (hellos es)). known ?s c = None"
        using Cons.prems(3) by (auto simp: hellos_Cons None view_inv(1) [OF v])
      from Cons.IH [OF inv rest this] show ?thesis
        using latest_other [OF None] False by (simp add: view_inv(2) [OF v])
    qed
  qed
qed simp

text \<open>A server that has not been connected to yet.\<close>

definition unconnected :: "quicServer \<Rightarrow> bool" where
  "unconnected s \<longleftrightarrow> qs_conns s = [] \<and> qs_clients s = [] \<and> qs_agentProviders s = []"

lemma unconnected_inv: "unconnected s \<Longrightarrow> srv_inv s \<and> known s c = None \<and> agent_inv fl s"
  by (simp add: unconnected_def srv_inv_def agent_inv_def known_def)

lemma ended_notice:
  assumes "srv_inv s"
  shows "OnDisconnect cid \<in> set (snd (conn_ended c x s)) \<longleftrightarrow> map_of (qs_clients s) cid = Some c"
proof
  assume "OnDisconnect cid \<in> set (snd (conn_ended c x s))"
  then show "map_of (qs_clients s) cid = Some c"
    by (auto simp: conn_ended_def Let_def split: option.splits if_splits)
next
  assume m: "map_of (qs_clients s) cid = Some c"
  then have "\<exists>a. known s c = Some (cid, a)" using assms unfolding srv_inv_def by blast
  then obtain sc where "map_of (qs_conns s) c = Some sc" "sv_id sc = cid" by (auto simp: known_def who_def)
  with m show "OnDisconnect cid \<in> set (snd (conn_ended c x s))" by (simp add: conn_ended_def Let_def)
qed

text \<open>C14. In every history a client is registered on the connection of its latest accepted hello (one for
  which the server could open the output stream), until that one ends, and on none otherwise: the end of a connection it has replaced neither takes the client away
  nor reports it gone, however late it comes.\<close>

theorem newest_connection_wins:
  assumes "unconnected s0" "distinct (map fst (hellos es))" "s = srv_run es s0"
  shows "map_of (qs_clients s) cid = latest cid es None \<and>
    send_target cid s = latest cid es None \<and>
    (OnDisconnect cid \<in> set (snd (conn_ended c x s)) \<longleftrightarrow> latest cid es None = Some c)"
proof -
  have n: "map_of (qs_clients s0) cid = None" using assms(1) by (simp add: unconnected_def)
  from run_latest [OF _ assms(2), of s0 cid] unconnected_inv [OF assms(1)] assms(3) n
  have r: "srv_inv s" "map_of (qs_clients s) cid = latest cid es None" by auto
  have "send_target cid s = map_of (qs_clients s) cid"
  proof (cases "map_of (qs_clients s) cid")
    case (Some d)
    then have "\<exists>a. known s d = Some (cid, a)" using r(1) unfolding srv_inv_def by blast
    with Some show ?thesis by (auto simp: send_target_def conn_of_def known_def)
  qed (simp add: send_target_def conn_of_def)
  with r ended_notice [OF r(1), of cid c x] show ?thesis by simp
qed

section \<open>The agent's provider\<close>

lemma successor_spec:
  assumes "srv_inv s" "\<forall>c cid a. known s c = Some (cid, a) \<longrightarrow> a = fl cid"
  shows "case successor sid s of
      None \<Rightarrow> \<forall>j. map_of (qs_clients s) j \<noteq> None \<longrightarrow> fl j \<longrightarrow> cid_Session j \<noteq> sid
    | Some p \<Rightarrow> cid_Session p = sid \<and> map_of (qs_clients s) p \<noteq> None \<and> fl p"
proof -
  let ?P = "\<lambda>(other, c). cid_Session other = sid \<and>
      (case map_of (qs_conns s) c of None \<Rightarrow> False | Some osc \<Rightarrow> sv_agentForward osc)"
  have P: "?P (j, c) \<longleftrightarrow> cid_Session j = sid \<and> fl j" if "(j, c) \<in> set (qs_clients s)" for j c
  proof -
    have "map_of (qs_clients s) j = Some c" using that assms(1) by (simp add: srv_inv_def)
    then have "\<exists>a. known s c = Some (j, a)" using assms(1) unfolding srv_inv_def by blast
    then have "known s c = Some (j, fl j)" using assms(2) by blast
    then show ?thesis by (auto simp: known_def who_def)
  qed
  show ?thesis
  proof (cases "find ?P (qs_clients s)")
    case None
    then have "cid_Session j \<noteq> sid" if "map_of (qs_clients s) j \<noteq> None" "fl j" for j
      using that P unfolding find_None_iff by (metis map_of_SomeD not_None_eq)
    with None show ?thesis by (simp add: successor_def)
  next
    case (Some jc)
    then have "jc \<in> set (qs_clients s)" "?P jc" unfolding find_Some_iff by (metis nth_mem)+
    moreover obtain j c where "jc = (j, c)" by (cases jc)
    ultimately have "cid_Session j = sid \<and> fl j \<and> map_of (qs_clients s) j \<noteq> None" "jc = (j, c)"
      using P [of j c] by (auto simp: map_of_eq_None_iff intro: rev_image_eqI)
    with Some show ?thesis by (simp add: successor_def)
  qed
qed

lemma agent_end:
  assumes "srv_inv s" "agent_inv fl s"
  shows "agent_inv fl (fst (srv_do (EvEnd c x) s))"
proof (cases "\<exists>sc. map_of (qs_conns s) c = Some sc \<and> map_of (qs_clients s) (sv_id sc) = Some c")
  case False
  then have "qs_clients (fst (srv_do (EvEnd c x) s)) = qs_clients s"
    "qs_agentProviders (fst (srv_do (EvEnd c x) s)) = qs_agentProviders s"
    by (auto simp: conn_ended_def Let_def split: option.splits)
  with assms(2) show ?thesis unfolding agent_inv_def end_known by auto
next
  case True
  then obtain sc where sc: "map_of (qs_conns s) c = Some sc" "map_of (qs_clients s) (sv_id sc) = Some c" by blast
  let ?cid = "sv_id sc" and ?s' = "fst (srv_do (EvEnd c x) s)"
  let ?s1 = "s\<lparr>qs_clients := AList.delete ?cid (qs_clients s)\<rparr>" and ?sid = "cid_Session ?cid"
  note old = assms(2) [unfolded agent_inv_def]
  have fl: "sv_agentForward sc = fl ?cid" using old sc(1) unfolding known_def who_def by auto
  have cl: "map_of (qs_clients ?s1) j = (if j = ?cid then None else map_of (qs_clients s) j)" for j
    by (simp add: AList.delete_conv')
  have "srv_inv ?s1" using assms(1) unfolding srv_inv_def cl by (auto simp: distinct_delete known_def)
  moreover have "\<forall>c cid a. known ?s1 c = Some (cid, a) \<longrightarrow> a = fl cid" using old by (simp add: known_def)
  ultimately have suc: "case successor ?sid ?s1 of
      None \<Rightarrow> \<forall>j. map_of (qs_clients ?s1) j \<noteq> None \<longrightarrow> fl j \<longrightarrow> cid_Session j \<noteq> ?sid
    | Some p \<Rightarrow> cid_Session p = ?sid \<and> map_of (qs_clients ?s1) p \<noteq> None \<and> fl p"
    by (rule successor_spec)
  have st: "qs_clients ?s' = qs_clients ?s1" "map_of (qs_agentProviders ?s') sid =
      (if fl ?cid \<and> map_of (qs_agentProviders s) ?sid = Some ?cid \<and> sid = ?sid then successor ?sid ?s1
       else map_of (qs_agentProviders s) sid)" for sid
    using sc fl by (simp_all add: conn_ended_def Let_def drop_client_def AList.delete_conv' split: option.split)
  have "cid_Session p = sid \<and> map_of (qs_clients ?s') p \<noteq> None \<and> fl p"
    if "map_of (qs_agentProviders ?s') sid = Some p" for sid p
  proof (cases "fl ?cid \<and> map_of (qs_agentProviders s) ?sid = Some ?cid \<and> sid = ?sid")
    case True
    with that suc show ?thesis unfolding st by (auto split: option.splits)
  next
    case False
    with that have p: "map_of (qs_agentProviders s) sid = Some p" unfolding st by auto
    then have o: "cid_Session p = sid" "map_of (qs_clients s) p \<noteq> None" "fl p" using old by blast+
    with False p have "p \<noteq> ?cid" by metis
    with o show ?thesis unfolding st cl by simp
  qed
  moreover have "map_of (qs_agentProviders ?s') (cid_Session j) \<noteq> None"
    if "map_of (qs_clients ?s') j \<noteq> None" "fl j" for j
  proof -
    have "map_of (qs_clients s) j \<noteq> None" using that(1) unfolding st cl by (auto split: if_splits)
    then have "map_of (qs_agentProviders s) (cid_Session j) \<noteq> None" using old that(2) by blast
    moreover have "cid_Session j \<noteq> ?sid \<or> successor ?sid ?s1 \<noteq> None"
      using suc that unfolding st by (cases "successor ?sid ?s1") simp_all
    ultimately show ?thesis unfolding st by (metis (full_types))
  qed
  moreover have "\<forall>d cid a. known ?s' d = Some (cid, a) \<longrightarrow> a = fl cid"
    using old unfolding end_known by auto
  ultimately show ?thesis unfolding agent_inv_def by blast
qed

lemma agent_hello:
  assumes "agent_inv fl s" "hello_of e = Some (c, cid, a)" "a = fl cid"
  shows "agent_inv fl (fst (srv_do e s))"
proof -
  note st = hello_step [OF assms(2), of s]
  note old = assms(1) [unfolded agent_inv_def]
  let ?s' = "fst (srv_do e s)"
  have cl: "map_of (qs_clients ?s') j = (if j = cid then Some c else map_of (qs_clients s) j)" for j
    using st by (simp add: AList.update_conv')
  have pr: "map_of (qs_agentProviders ?s') sid =
      (if fl cid \<and> sid = cid_Session cid then Some cid else map_of (qs_agentProviders s) sid)" for sid
    using st assms(3) by (simp add: AList.update_conv')
  have "\<forall>d j b. known ?s' d = Some (j, b) \<longrightarrow> b = fl j"
    using old st assms(3) by simp
  moreover have "cid_Session p = sid \<and> map_of (qs_clients ?s') p \<noteq> None \<and> fl p"
    if "map_of (qs_agentProviders ?s') sid = Some p" for sid p
  proof (cases "fl cid \<and> sid = cid_Session cid")
    case True
    then show ?thesis using that unfolding cl pr by auto
  next
    case False
    then have "map_of (qs_agentProviders s) sid = Some p" using that unfolding pr by auto
    then have "cid_Session p = sid" "map_of (qs_clients s) p \<noteq> None" "fl p" using old by blast+
    then show ?thesis unfolding cl by simp
  qed
  moreover have "map_of (qs_agentProviders ?s') (cid_Session j) \<noteq> None"
    if "map_of (qs_clients ?s') j \<noteq> None" "fl j" for j
    using that old unfolding cl pr by (simp split: if_splits)
  ultimately show ?thesis unfolding agent_inv_def by blast
qed

lemma run_agent:
  assumes "srv_inv s" "agent_inv fl s" "distinct (map fst (hellos es))"
    "\<forall>c\<in>set (map fst (hellos es)). known s c = None" "\<forall>h\<in>set (hellos es). snd (snd h) = fl (fst (snd h))"
  shows "agent_inv fl (srv_run es s)"
  using assms
proof (induction es arbitrary: s)
  case (Cons e es)
  let ?s = "fst (srv_do e s)"
  have inv: "srv_inv ?s" using Cons.prems(1,4) by (intro srv_inv_do) (auto simp: hellos_Cons)
  have rest: "distinct (map fst (hellos es))" "\<forall>h\<in>set (hellos es). snd (snd h) = fl (fst (snd h))"
    using Cons.prems(3,5) by (auto simp: hellos_Cons)
  have "agent_inv fl ?s \<and> (\<forall>c\<in>set (map fst (hellos es)). known ?s c = None)"
  proof (cases "hello_of e")
    case (Some h)
    obtain c i a where h: "h = (c, i, a)" by (cases h)
    then show ?thesis
      using agent_hello [OF Cons.prems(2), of e c i a] Cons.prems(3,4,5) Some hello_step [of e c i a s]
      by (auto simp: hellos_Cons)
  next
    case None
    show ?thesis
    proof (cases "\<exists>c x. e = EvEnd c x")
      case True
      then obtain c x where e: "e = EvEnd c x" by blast
      show ?thesis using agent_end [OF Cons.prems(1,2)] Cons.prems(4)
        unfolding e end_known by (force simp: hellos_Cons simp del: srv_do.simps)
    next
      case False
      with other_view [OF None, of s] have v: "view ?s = view s" by blast
      show ?thesis using Cons.prems(2,4) by (simp add: view_inv [OF v] hellos_Cons None)
    qed
  qed
  then show ?case using Cons.IH [OF inv _ rest(1) _ rest(2)] by simp
qed simp

text \<open>A request for the agent of a session goes to the current connection of a client of that
  session that forwards its agent, and is refused only when no such client is connected: when the
  provider leaves, another one takes over.\<close>

theorem agent_requests_find_a_client:
  assumes "unconnected s0" "distinct (map fst (hellos es))"
    "\<forall>h\<in>set (hellos es). snd (snd h) = fl (fst (snd h))" "s = srv_run es s0" "\<not> qs_agentFwdDisabled s"
  shows "case agent_target sid s of
      Inr c \<Rightarrow> \<exists>cid. cid_Session cid = sid \<and> fl cid \<and> latest cid es None = Some c
    | Inl e \<Rightarrow> \<forall>cid. cid_Session cid = sid \<longrightarrow> fl cid \<longrightarrow> latest cid es None = None"
proof -
  note u = unconnected_inv [OF assms(1)]
  have n: "map_of (qs_clients s0) cid = None" for cid using assms(1) by (simp add: unconnected_def)
  have r: "srv_inv s" "map_of (qs_clients s) cid = latest cid es None" for cid
    using run_latest [OF _ assms(2), of s0 cid] u n assms(4) by auto
  have a: "agent_inv fl s"
    using run_agent [OF _ _ assms(2) _ assms(3), of s0] u assms(4) by blast
  show ?thesis
  proof (cases "map_of (qs_agentProviders s) sid")
    case None
    then have "map_of (qs_clients s) cid = None" if "cid_Session cid = sid" "fl cid" for cid
      using a that unfolding agent_inv_def by blast
    with None r(2) show ?thesis using assms(5) by (simp add: agent_target_def)
  next
    case (Some p)
    with a obtain c where p: "cid_Session p = sid" "map_of (qs_clients s) p = Some c" "fl p"
      unfolding agent_inv_def by blast
    then have "\<exists>b. known s c = Some (p, b)" using r(1) unfolding srv_inv_def by blast
    then obtain sc where "conn_of p s = Some (c, sc)" using p(2) by (auto simp: conn_of_def known_def)
    then have "agent_target sid s = Inr c" using Some assms(5) by (simp add: agent_target_def)
    with p r(2) [of p] show ?thesis by auto
  qed
qed

section \<open>The watchdog\<close>

text \<open>A tick of the watchdog disconnects exactly the connections that are the current one of their
  client and whose write of output has been under way for thirty seconds or more. A connection its
  client has replaced is not looked at, although a write to it can still be holding up the session.\<close>

theorem watchdog_disconnects:
  assumes "unconnected s0" "distinct (map fst (hellos es))" "s = srv_run es s0"
  shows "CloseConn c code reason \<in> set (snd (stallWatchdog now s)) \<longleftrightarrow>
    code = 2 \<and> reason = ''output stalled: disconnecting slow client'' \<and>
    (\<exists>sc. map_of (qs_conns s) c = Some sc \<and> latest (sv_id sc) es None = Some c \<and>
       sv_writeStartNano sc \<noteq> 0 \<and> now - sv_writeStartNano sc \<ge> 30 * 1000000000)"
proof -
  have n: "map_of (qs_clients s0) cid = None" for cid using assms(1) by (simp add: unconnected_def)
  have r: "srv_inv s" "map_of (qs_clients s) cid = latest cid es None" for cid
    using run_latest [OF _ assms(2), of s0 cid] unconnected_inv [OF assms(1)] n assms(3) by auto
  have reg: "(d, sc) \<in> set (registered s) \<longleftrightarrow> map_of (qs_conns s) d = Some sc \<and> latest (sv_id sc) es None = Some d" for d sc
  proof -
    have "(cid, d) \<in> set (qs_clients s) \<longleftrightarrow> cid = sv_id sc \<and> map_of (qs_clients s) (sv_id sc) = Some d"
      if "map_of (qs_conns s) d = Some sc" for cid
    proof -
      have "(cid, d) \<in> set (qs_clients s) \<longleftrightarrow> map_of (qs_clients s) cid = Some d"
        using r(1) by (simp add: srv_inv_def)
      moreover have "cid = sv_id sc" if "map_of (qs_clients s) cid = Some d"
      proof -
        have "\<exists>b. known s d = Some (cid, b)" using that r(1) unfolding srv_inv_def by blast
        then show ?thesis using \<open>map_of (qs_conns s) d = Some sc\<close> by (auto simp: known_def who_def)
      qed
      ultimately show ?thesis by metis
    qed
    then show ?thesis unfolding registered_in r(2) by blast
  qed
  have one: "CloseConn c code reason \<in> set (snd (watch_one now snap (d, sc))) \<longleftrightarrow>
      d = c \<and> code = 2 \<and> reason = ''output stalled: disconnecting slow client'' \<and>
      sv_writeStartNano sc \<noteq> 0 \<and> now - sv_writeStartNano sc \<ge> 30 * 1000000000" for snap d sc
    by (auto simp: watch_one_def Let_def stallWarnThreshold_def stallCriticalThreshold_def)
  have "CloseConn c code reason \<in> set (snd (stallWatchdog now s)) \<longleftrightarrow>
      (\<exists>d sc. (d, sc) \<in> set (registered s) \<and>
         CloseConn c code reason \<in> set (snd (watch_one now (registered s) (d, sc))))"
    by (auto simp: stallWatchdog_def Let_def)
  then show ?thesis unfolding reg one by blast
qed

text \<open>Two connections of one client: the first stalls, the second replaces it.\<close>

definition hello_msg :: "bool \<Rightarrow> ctrlMsg" where
  "hello_msg a = (ctrl_msg ctrlHello)\<lparr>cm_SessionID := ''s1'', cm_ClientID := 7, cm_AgentForward := a\<rparr>"

definition two_conns :: "srv_event list" where
  "two_conns = [EvHello 1 ''a'' (FirstFrame (hello_msg True) None), EvWriteBegin 5 1, EvHello 2 ''b'' (FirstFrame (hello_msg True) None)]"

lemma two_conns_hellos:
  "hellos two_conns = [(1, ClientID ''s1'' 7, True), (2, ClientID ''s1'' 7, True)]"
  "latest (ClientID ''s1'' 7) two_conns None = Some 2"
  by (simp_all add: two_conns_def hellos_def map_filter_simps hello_msg_def ctrl_msg_def)

lemma new_server_unconnected: "unconnected new_server"
  by (simp add: unconnected_def new_server_def)

lemma newest_connection_wins_witness:
  "send_target (ClientID ''s1'' 7) (srv_run two_conns new_server) = Some 2 \<and>
   OnDisconnect (ClientID ''s1'' 7) \<notin> set (snd (conn_ended 1 False (srv_run two_conns new_server)))"
  using newest_connection_wins [OF new_server_unconnected _ refl, of two_conns "ClientID ''s1'' 7" 1 False]
  by (simp add: two_conns_hellos)

lemma agent_requests_find_a_client_witness:
  "\<exists>c. agent_target ''s1'' (srv_run two_conns new_server) = Inr c"
proof -
  have "\<not> qs_agentFwdDisabled (srv_run two_conns new_server)"
    by (simp add: two_conns_def hello_msg_def ctrl_msg_def handle_hello_def write_begin_def on_conn_def
        new_server_def Let_def)
  from agent_requests_find_a_client [OF new_server_unconnected _ _ refl this, of "\<lambda>cid. True" "''s1''"]
  have t: "case agent_target ''s1'' (srv_run two_conns new_server) of
      Inr c \<Rightarrow> \<exists>cid. cid_Session cid = ''s1'' \<and> True \<and> latest cid two_conns None = Some c
    | Inl e \<Rightarrow> \<forall>cid. cid_Session cid = ''s1'' \<longrightarrow> True \<longrightarrow> latest cid two_conns None = None"
    by (simp add: two_conns_hellos)
  show ?thesis
  proof (cases "agent_target ''s1'' (srv_run two_conns new_server)")
    case (Inl e)
    with t have "latest (ClientID ''s1'' 7) two_conns None = None" by simp
    then show ?thesis by (simp add: two_conns_hellos)
  qed simp
qed

lemma watchdog_disconnects_witness:
  "CloseConn 1 2 ''output stalled: disconnecting slow client''
     \<notin> set (snd (stallWatchdog 40000000000 (srv_run two_conns new_server))) \<and>
   CloseConn 1 2 ''output stalled: disconnecting slow client''
     \<in> set (snd (stallWatchdog 40000000000 (srv_run (take 2 two_conns) new_server)))"
proof -
  have c: "\<exists>sc. map_of (qs_conns (srv_run two_conns new_server)) 1 = Some sc \<and> sv_id sc = ClientID ''s1'' 7"
    "\<exists>sc. map_of (qs_conns (srv_run (take 2 two_conns) new_server)) 1 = Some sc \<and> sv_id sc = ClientID ''s1'' 7 \<and>
      sv_writeStartNano sc = 5"
    by (simp_all add: two_conns_def hello_msg_def ctrl_msg_def handle_hello_def write_begin_def on_conn_def
        new_server_def new_client_def Let_def)
  have l: "latest (ClientID ''s1'' 7) (take 2 two_conns) None = Some 1" "distinct (map fst (hellos (take 2 two_conns)))"
    by (simp_all add: two_conns_def hellos_def map_filter_simps hello_msg_def ctrl_msg_def)
  show ?thesis
    using watchdog_disconnects [OF new_server_unconnected _ refl, of two_conns 1 2 "''output stalled: disconnecting slow client''" 40000000000]
      watchdog_disconnects [OF new_server_unconnected l(2) refl, of 1 2 "''output stalled: disconnecting slow client''" 40000000000]
      c l(1) by (auto simp: two_conns_hellos)
qed

end
