(* ===== verification/QClient.thy ===== *)
theory QClient
  imports Frames Transport_Types Go_Strings
begin

text \<open>
  The client end of the QUIC transport (internal/qtransport/client.go and liveness.go, with the client
  parts of agent.go, forward.go and rforward.go): the recovery of a lost or moved connection by
  migration and reconnection, its backoff, the watchdog's decisions, the early switch to the other
  address family, input, and the control messages. Connections and local sockets are numbers; an
  attempt record holds what quic-go answers during one recovery. Recoveries exclude each other (the
  recovering flag), so one is a single step; a tick that meets a running one does nothing.
\<close>

section \<open>State\<close>

(* internal/qtransport/client.go:71-140 quicClient *)
record quicClient =
  qc_serverAddr :: string
  qc_candidates :: "string list"
  qc_clientID :: client_id
  qc_sessionID :: string
  qc_pathTransports :: "nat list"
  qc_tr :: "nat option"
  qc_conn :: "nat option"
  qc_connAddr :: string
  qc_inOffset :: nat
  qc_inDatagramsOK :: bool
  qc_backoffFails :: nat
  qc_backoffUntil :: "int option"
  qc_lastInputBackoffReset :: "int option"
  qc_state :: ConnectionState
  qc_lastOffset :: nat
  qc_lastRecoveryMs :: nat
  qc_recoveryCount :: nat
  qc_serverFeatures :: "64 word"
  qc_lastPongNano :: int
  qc_agentSockPath :: string
  qc_deviceID :: string
  qc_rfwdTargets :: "(port \<times> string) list"

datatype client_act =
    StateChange ConnectionState ConnectionState string
  | OpenTransport nat
  | CloseTransportA nat
  | RetireTransport nat
  | CloseConnA nat nat
  | SendHello nat ctrlMsg
  | LogMessage string

(* internal/qtransport/client.go:142-155 NewClient *)
definition NewClient :: "string \<Rightarrow> client_id \<Rightarrow> string \<Rightarrow> quicClient" where
  "NewClient serverAddr clientID sessionID =
     \<lparr>qc_serverAddr = serverAddr, qc_candidates = [], qc_clientID = clientID, qc_sessionID = sessionID,
      qc_pathTransports = [], qc_tr = None, qc_conn = None, qc_connAddr = '''', qc_inOffset = 0,
      qc_inDatagramsOK = False, qc_backoffFails = 0, qc_backoffUntil = None, qc_lastInputBackoffReset = None,
      qc_state = StateConnecting, qc_lastOffset = 0, qc_lastRecoveryMs = 0, qc_recoveryCount = 0,
      qc_serverFeatures = 0, qc_lastPongNano = 0, qc_agentSockPath = '''', qc_deviceID = '''', qc_rfwdTargets = []\<rparr>"

(* internal/qtransport/client.go:701-712 quicClient.setState *)
definition setState :: "ConnectionState \<Rightarrow> string \<Rightarrow> quicClient \<Rightarrow> quicClient \<times> client_act list" where
  "setState new msg c =
     (c\<lparr>qc_state := new\<rparr>, if qc_state c = new then [] else [StateChange (qc_state c) new msg])"

(* internal/qtransport/client.go:688-695 quicClient.SeedResyncOffset *)
definition SeedResyncOffset :: "nat \<Rightarrow> quicClient \<Rightarrow> quicClient" where
  "SeedResyncOffset offset c = c\<lparr>qc_lastOffset := offset\<rparr>"

(* internal/qtransport/rforward.go:104-108 quicClient.SetRemoteForwards *)
definition SetRemoteForwards :: "string \<Rightarrow> (port \<times> string) list \<Rightarrow> quicClient \<Rightarrow> quicClient" where
  "SetRemoteForwards deviceID targets c = c\<lparr>qc_deviceID := deviceID, qc_rfwdTargets := targets\<rparr>"

(* internal/qtransport/agent.go:100-105 quicClient.SetAgentSockPath *)
definition SetAgentSockPath :: "string \<Rightarrow> quicClient \<Rightarrow> quicClient" where
  "SetAgentSockPath path c = c\<lparr>qc_agentSockPath := path\<rparr>"

(* internal/qtransport/rforward.go:115-126 quicClient.remoteForwardPorts *)
definition remoteForwardPorts :: "quicClient \<Rightarrow> port list" where
  "remoteForwardPorts c = sort (map fst (qc_rfwdTargets c))"

(* internal/qtransport/rforward.go:128-136 quicClient.helloMsg *)
definition helloMsg :: "quicClient \<Rightarrow> ctrlMsg" where
  "helloMsg c =
     (let m = (ctrl_msg ctrlHello)\<lparr>cm_ClientID := qc_clientID c, cm_SessionID := qc_sessionID c,
                cm_LastOffset := qc_lastOffset c, cm_AgentForward := (qc_agentSockPath c \<noteq> '''')\<rparr>;
          ports = remoteForwardPorts c in
      if length ports > 0 then m\<lparr>cm_DeviceID := qc_deviceID c, cm_RemoteForwards := ports\<rparr> else m)"

(* internal/qtransport/forward.go:203-206 quicClient.ForwardingSupported *)
definition ForwardingSupported :: "quicClient \<Rightarrow> bool" where
  "ForwardingSupported c \<longleftrightarrow> and (qc_serverFeatures c) FeatureTCPForward \<noteq> 0"

(* internal/qtransport/agent.go:94-98 quicClient.AgentForwardingSupported *)
definition AgentForwardingSupported :: "quicClient \<Rightarrow> bool" where
  "AgentForwardingSupported c \<longleftrightarrow> and (qc_serverFeatures c) FeatureAgentForward \<noteq> 0"

(* internal/qtransport/rforward.go:99-102 quicClient.RemoteForwardingSupported *)
definition RemoteForwardingSupported :: "quicClient \<Rightarrow> bool" where
  "RemoteForwardingSupported c \<longleftrightarrow> and (qc_serverFeatures c) FeatureRemoteForward \<noteq> 0"

section \<open>Backoff\<close>

(* internal/qtransport/client.go:299-303 reconnectBackoffBase *)
definition reconnectBackoffBase :: int where
  "reconnectBackoffBase = 1000000000"

(* internal/qtransport/client.go:304-304 reconnectBackoffMax *)
definition reconnectBackoffMax :: int where
  "reconnectBackoffMax = 60 * 1000000000"

(* internal/qtransport/client.go:305-309 inputBackoffResetInterval *)
definition inputBackoffResetInterval :: int where
  "inputBackoffResetInterval = 5 * 1000000000"

(* internal/qtransport/client.go:311-316 quicClient.inBackoff *)
definition inBackoff :: "int \<Rightarrow> quicClient \<Rightarrow> bool" where
  "inBackoff now c = (case qc_backoffUntil c of None \<Rightarrow> False | Some t \<Rightarrow> now < t)"

text \<open>The shift is Go's on a 64-bit Duration.\<close>

(* internal/qtransport/client.go:318-331 quicClient.bumpBackoff *)
definition bumpBackoff :: "int \<Rightarrow> quicClient \<Rightarrow> quicClient \<times> int" where
  "bumpBackoff now c =
     (let d = sint (push_bit (qc_backoffFails c) (word_of_int reconnectBackoffBase :: 64 word));
          d = (if d \<le> 0 \<or> d > reconnectBackoffMax then reconnectBackoffMax else d) in
      (c\<lparr>qc_backoffFails := (if qc_backoffFails c < 30 then qc_backoffFails c + 1 else qc_backoffFails c),
         qc_backoffUntil := Some (now + d)\<rparr>, d))"

(* internal/qtransport/client.go:333-340 quicClient.resetBackoff *)
definition resetBackoff :: "quicClient \<Rightarrow> quicClient" where
  "resetBackoff c = c\<lparr>qc_backoffFails := 0, qc_backoffUntil := None\<rparr>"

(* internal/qtransport/client.go:342-355 quicClient.resetBackoffByInput *)
definition resetBackoffByInput :: "int \<Rightarrow> quicClient \<Rightarrow> quicClient" where
  "resetBackoffByInput now c =
     (if (case qc_lastInputBackoffReset c of None \<Rightarrow> False | Some t \<Rightarrow> now - t < inputBackoffResetInterval)
      then c
      else (resetBackoff c)\<lparr>qc_lastInputBackoffReset := Some now\<rparr>)"

section \<open>Dialling\<close>

text \<open>A candidate's outcome: the reason it failed, or its connection and socket.\<close>

(* internal/qtransport/client.go:41-47 dialResult *)
datatype dialResult = DialFailed string string | Dialled string nat nat

text \<open>What the goroutine of one candidate meets: the local socket, the resolution of the address, and
  the handshake; errors are given as their texts.\<close>

record dialTry =
  dt_addr :: string
  dt_socket :: "string + nat"
  dt_resolve :: "string option"
  dt_conn :: "string + nat"

(* internal/qtransport/client.go:778-798 dialParallel *)
definition dialCandidate :: "dialTry \<Rightarrow> client_act list \<times> dialResult" where
  "dialCandidate d =
     (case dt_socket d of
        Inl e \<Rightarrow> ([], DialFailed (dt_addr d) e)
      | Inr tr \<Rightarrow>
          (case dt_resolve d of
             Some e \<Rightarrow> ([OpenTransport tr, CloseTransportA tr], DialFailed (dt_addr d) e)
           | None \<Rightarrow>
               (case dt_conn d of
                  Inl e \<Rightarrow> ([OpenTransport tr, CloseTransportA tr], DialFailed (dt_addr d) e)
                | Inr conn \<Rightarrow> ([OpenTransport tr], Dialled (dt_addr d) conn tr))))"

text \<open>The outcomes in the order they arrive, one per candidate: the first connection wins, every other
  is closed with its socket.\<close>

(* internal/qtransport/client.go:806-822 dialParallel *)
fun dial_loop ::
  "dialResult list \<Rightarrow> (string \<times> nat \<times> nat) option \<Rightarrow> (string \<times> nat \<times> nat) option \<times> string list \<times> client_act list"
where
  "dial_loop [] winner = (winner, [], [])"
| "dial_loop (DialFailed addr e # rs) winner =
     (case dial_loop rs winner of (w, fails, acts) \<Rightarrow> (w, (addr @ '': '' @ e) # fails, acts))"
| "dial_loop (Dialled addr conn tr # rs) winner =
     (case winner of
        None \<Rightarrow> dial_loop rs (Some (addr, conn, tr))
      | Some _ \<Rightarrow>
          (case dial_loop rs winner of
             (w, fails, acts) \<Rightarrow> (w, fails, [CloseConnA conn 0, CloseTransportA tr] @ acts)))"

text \<open>dial gives what each candidate meets, in the order the outcomes arrive.\<close>

(* internal/qtransport/client.go:765-823 dialParallel *)
definition dialParallel ::
  "(string list \<Rightarrow> dialTry list) \<Rightarrow> string list \<Rightarrow> (string \<times> nat \<times> nat) option \<times> string list \<times> client_act list"
where
  "dialParallel dial candidates =
     (let outcomes = map dialCandidate (dial candidates);
          (winner, fails, acts) = dial_loop (map snd outcomes) None in
      (winner, fails, concat (map fst outcomes) @ acts))"

(* internal/qtransport/client.go:825-836 candidatesEqual *)
fun candidatesEqual :: "string list \<Rightarrow> string list \<Rightarrow> bool" where
  "candidatesEqual [] [] = True"
| "candidatesEqual (a # as) (b # bs) = (a = b \<and> candidatesEqual as bs)"
| "candidatesEqual _ _ = False"

section \<open>Recovery\<close>

text \<open>What one attempt meets: whether the connection is dead, the local socket, path and probe of a
  migration, the TLS configuration, what dialling gives, the refresher if one is set, and the setup of
  the streams (control stream, hello, input stream). at_now is when it begins, at_end when it ends.\<close>

record attempt =
  at_now :: int
  at_end :: int
  at_dead :: bool
  at_socket :: "err + nat"
  at_path :: "err option"
  at_probe :: "err option"
  at_switch :: "err option"
  at_tls :: "err option"
  at_dial :: "string list \<Rightarrow> dialTry list"
  at_refresher :: "string list option"
  at_control :: "err option"
  at_hello :: "err option"
  at_input :: "err option"
  at_datagrams :: bool

(* internal/qtransport/client.go:613-620 quicClient.recordRecovery *)
definition recordRecovery :: "attempt \<Rightarrow> quicClient \<Rightarrow> quicClient" where
  "recordRecovery a c =
     c\<lparr>qc_lastRecoveryMs := nat ((at_end a - at_now a) div 1000000), qc_recoveryCount := qc_recoveryCount c + 1\<rparr>"

(* internal/qtransport/client.go:584-590 maxPathTransports *)
definition maxPathTransports :: nat where
  "maxPathTransports = 2"

(* internal/qtransport/client.go:517-565 quicClient.migrate *)
definition migrate :: "attempt \<Rightarrow> string \<Rightarrow> quicClient \<Rightarrow> quicClient \<times> client_act list \<times> err option" where
  "migrate a reason c =
     (if length (qc_pathTransports c) \<ge> maxPathTransports
      then (c, [], Some (ErrorString (''migrate: '' @ show_nat (length (qc_pathTransports c))
             @ '' paths held on this connection; reconnecting instead'')))
      else
        let (c1, acts) = setState StateRecovering (''roaming: '' @ reason) c in
        (case at_socket a of
           Inl e \<Rightarrow> (c1, acts, Some e)
         | Inr tr \<Rightarrow>
             let acts = acts @ [OpenTransport tr]; failed = c1\<lparr>qc_pathTransports := qc_pathTransports c1 @ [tr]\<rparr> in
             (case at_path a of
                Some e \<Rightarrow> (c1, acts @ [CloseTransportA tr], Some e)
              | None \<Rightarrow>
                  (case at_probe a of
                     Some e \<Rightarrow> (failed, acts, Some e)
                   | None \<Rightarrow>
                       (case at_switch a of
                          Some e \<Rightarrow> (failed, acts, Some e)
                        | None \<Rightarrow>
                            let c2 = recordRecovery a (c1\<lparr>qc_tr := Some tr, qc_pathTransports :=
                                       qc_pathTransports c1 @ (case qc_tr c1 of None \<Rightarrow> [] | Some old \<Rightarrow> [old])\<rparr>);
                                (c3, acts') = setState StateConnected (''roaming: migrated (recovery ''
                                  @ show_nat (qc_lastRecoveryMs c2) @ ''ms)'') c2 in
                            (c3, acts @ acts', None))))))"

text \<open>The new connection takes the place of the old only when its streams stand and the hello is out;
  otherwise it is closed and the old one stays.\<close>

(* internal/qtransport/client.go:461-515 quicClient.adoptConn *)
definition adoptConn :: "attempt \<Rightarrow> string \<times> nat \<times> nat \<Rightarrow> quicClient \<Rightarrow> quicClient \<times> client_act list \<times> err option" where
  "adoptConn a winner c =
     (let (addr, conn, tr) = winner; discard = [CloseConnA conn 0, CloseTransportA tr] in
      case at_control a of
        Some e \<Rightarrow> (c, discard, Some e)
      | None \<Rightarrow>
          (case at_hello a of
             Some e \<Rightarrow> (c, discard, Some e)
           | None \<Rightarrow>
               let hello = [SendHello conn (helloMsg c)] in
               (case at_input a of
                  Some e \<Rightarrow> (c, hello @ discard, Some e)
                | None \<Rightarrow>
                    (c\<lparr>qc_conn := Some conn, qc_connAddr := addr, qc_tr := Some tr, qc_pathTransports := [],
                       qc_inDatagramsOK := at_datagrams a, qc_inOffset := 0\<rparr>,
                     hello @ (case qc_conn c of None \<Rightarrow> [] | Some old \<Rightarrow> [CloseConnA old 0])
                     @ map RetireTransport ((case qc_tr c of None \<Rightarrow> [] | Some old \<Rightarrow> [old]) @ qc_pathTransports c),
                     None))))"

definition dial_candidates :: "quicClient \<Rightarrow> string list" where
  "dial_candidates c = (if qc_candidates c = [] then [qc_serverAddr c] else qc_candidates c)"

text \<open>The first round, and a second with fresh candidates if there are any that differ. The second
  setState changes nothing.\<close>

(* internal/qtransport/client.go:418-447 quicClient.reconnect *)
definition reconnect_dial ::
  "attempt \<Rightarrow> quicClient \<Rightarrow> quicClient \<times> (string \<times> nat \<times> nat) option \<times> string list \<times> client_act list" where
  "reconnect_dial a c =
     (let candidates = dial_candidates c; (winner, fails, acts) = dialParallel (at_dial a) candidates in
      if winner \<noteq> None then (c, winner, fails, acts)
      else
        (case at_refresher a of
           None \<Rightarrow> (c, winner, fails, acts)
         | Some fresh \<Rightarrow>
             if length fresh > 0 \<and> \<not> candidatesEqual fresh candidates then
               let (c1, acts1) = setState StateRecovering ''reconnecting: refreshed candidates'' c;
                   (winner, fails, acts2) = dialParallel (at_dial a) fresh in
               (if winner \<noteq> None then c1\<lparr>qc_candidates := fresh\<rparr> else c1, winner, fails, acts @ acts1 @ acts2)
             else (c, winner, fails, acts)))"

(* internal/qtransport/client.go:403-459 quicClient.reconnect *)
definition reconnect :: "attempt \<Rightarrow> string \<Rightarrow> quicClient \<Rightarrow> quicClient \<times> client_act list \<times> err option" where
  "reconnect a reason c =
     (let (c1, acts1) = setState StateRecovering (''reconnecting: '' @ reason) c in
      case at_tls a of
        Some e \<Rightarrow> (c1, acts1, Some e)
      | None \<Rightarrow>
          let (c2, winner, fails, acts2) = reconnect_dial a c1 in
          (case winner of
             None \<Rightarrow> (c2, acts1 @ acts2,
                      Some (ErrorString (''reconnect: all '' @ show_nat (length (dial_candidates c1))
                        @ '' candidate(s) failed: '' @ Join fails ''; '')))
           | Some w \<Rightarrow>
               (case adoptConn a w c2 of
                  (c3, acts3, Some e) \<Rightarrow> (c3, acts1 @ acts2 @ acts3, Some e)
                | (c3, acts3, None) \<Rightarrow>
                    let c4 = recordRecovery a c3;
                        (c5, acts5) = setState StateConnected (''reconnected via '' @ fst w @ '' (recovery ''
                          @ show_nat (qc_lastRecoveryMs c4) @ ''ms)'') c4 in
                    (c5, acts1 @ acts2 @ acts3 @ acts5, None))))"

(* internal/qtransport/client.go:371-401 quicClient.recoverWith *)
definition recoverWith :: "attempt \<Rightarrow> string \<Rightarrow> bool \<Rightarrow> quicClient \<Rightarrow> quicClient \<times> client_act list" where
  "recoverWith a reason tryMigrate c =
     (if inBackoff (at_now a) c then (c, [])
      else
        let (c1, acts1, done) =
              (if tryMigrate \<and> \<not> at_dead a
               then (case migrate a reason c of (c1, acts, e) \<Rightarrow> (c1, acts, e = None)) else (c, [], False)) in
        if done then (resetBackoff c1, acts1)
        else
          (case reconnect a reason c1 of
             (c2, acts2, None) \<Rightarrow> (resetBackoff c2, acts1 @ acts2)
           | (c2, acts2, Some e) \<Rightarrow>
               (case bumpBackoff (at_end a) c2 of
                  (c3, delay) \<Rightarrow>
                    (c3, acts1 @ acts2 @ [LogMessage (''reconnect failed; next retry in '' @ show_int delay)]))))"

(* internal/qtransport/client.go:367-369 quicClient.recover *)
definition recover_conn :: "attempt \<Rightarrow> string \<Rightarrow> quicClient \<Rightarrow> quicClient \<times> client_act list" where
  "recover_conn a reason c = recoverWith a reason True c"

section \<open>Starting and closing\<close>

text \<open>Start dials like reconnect; what fails after that leaves the connection open.\<close>

(* internal/qtransport/client.go:157-212 quicClient.Start *)
definition Start :: "attempt \<Rightarrow> quicClient \<Rightarrow> quicClient \<times> client_act list \<times> err option" where
  "Start a c =
     (case at_tls a of
        Some e \<Rightarrow> (c, [], Some e)
      | None \<Rightarrow>
          (case dialParallel (at_dial a) (dial_candidates c) of
             (None, fails, acts) \<Rightarrow>
               (c, acts, Some (ErrorString (''all '' @ show_nat (length (dial_candidates c)) @ '' candidate(s) failed: ''
                  @ Join fails ''; '')))
           | (Some (addr, conn, tr), _, acts) \<Rightarrow>
               let c1 = c\<lparr>qc_tr := Some tr, qc_conn := Some conn, qc_connAddr := addr\<rparr> in
               (case at_control a of
                  Some e \<Rightarrow> (c1, acts, Some e)
                | None \<Rightarrow>
                    (case at_hello a of
                       Some e \<Rightarrow> (c1, acts, Some e)
                     | None \<Rightarrow>
                         (case at_input a of
                            Some e \<Rightarrow> (c1, acts @ [SendHello conn (helloMsg c1)], Some e)
                          | None \<Rightarrow>
                              (case setState StateConnected (''connected via '' @ addr)
                                      (c1\<lparr>qc_inDatagramsOK := at_datagrams a\<rparr>) of
                                 (c2, acts2) \<Rightarrow> (c2, acts @ [SendHello conn (helloMsg c1)] @ acts2, None)))))))"

(* internal/qtransport/client.go:900-921 quicClient.Close *)
definition qc_Close :: "quicClient \<Rightarrow> quicClient \<times> client_act list" where
  "qc_Close c =
     (case setState StateClosed ''closed'' c of
        (c1, acts) \<Rightarrow>
          (c1\<lparr>qc_pathTransports := []\<rparr>,
           acts @ (case qc_conn c of None \<Rightarrow> [] | Some conn \<Rightarrow> [CloseConnA conn 3])
           @ map CloseTransportA ((case qc_tr c of None \<Rightarrow> [] | Some tr \<Rightarrow> [tr]) @ qc_pathTransports c)))"

section \<open>Watchdog\<close>

(* internal/qtransport/client.go:357-365 serverLikelyTimedOut *)
definition serverLikelyTimedOut :: "int \<Rightarrow> bool" where
  "serverLikelyTimedOut slept \<longleftrightarrow> slept \<ge> (60 - 15) * 1000000000"

definition sleepThreshold :: int where
  "sleepThreshold = 15 * 1000000000"

definition jumpRecoveryCooldown :: int where
  "jumpRecoveryCooldown = 15 * 1000000000"

text \<open>One tick: slept is the wall-clock time since the last tick, lastJump when a jump last started a
  recovery. The answer is the recovery to start, with its reason and whether it may migrate.\<close>

(* internal/qtransport/client.go:264-286 quicClient.watchdog *)
definition watchdog_tick ::
  "int \<Rightarrow> int \<Rightarrow> bool \<Rightarrow> int option \<Rightarrow> quicClient \<Rightarrow> quicClient \<times> int option \<times> (string \<times> bool) option" where
  "watchdog_tick now slept dead lastJump c =
     (if qc_state c = StateRecovering then (c, lastJump, Some (''retry recovery'', True))
      else if slept > sleepThreshold then
        (if (case lastJump of None \<Rightarrow> False | Some t \<Rightarrow> now - t < jumpRecoveryCooldown) then (c, lastJump, None)
         else (resetBackoff c, Some now, Some (''sleep wake detected'', \<not> serverLikelyTimedOut slept)))
      else if dead then (c, lastJump, Some (''connection lost'', True))
      else (c, lastJump, None))"

section \<open>Input\<close>

text \<open>A write to the stream and, for small input, the same bytes in a datagram with their offset; a
  failed write asks for a recovery.\<close>

(* internal/qtransport/client.go:648-678 quicClient.SendInput *)
definition SendInput :: "int \<Rightarrow> err option \<Rightarrow> bytes \<Rightarrow> quicClient \<Rightarrow> quicClient \<times> bytes option \<times> string option" where
  "SendInput now result data c =
     (case result of
        Some e \<Rightarrow> (resetBackoffByInput now c, None, Some ''input send failed'')
      | None \<Rightarrow>
          (c\<lparr>qc_inOffset := (qc_inOffset c + length data) mod 2 ^ 64\<rparr>,
           if length data \<le> maxDupInputSize \<and> qc_conn c \<noteq> None \<and> qc_inDatagramsOK c
           then Some (encodeInputDatagram (qc_inOffset c) data) else None, None))"

section \<open>Messages from the server\<close>

datatype ctrl_event =
    ServerMetaEv string string bytes
  | SessionGoneEv string int
  | StatusEv string
  | LogEv string

(* internal/qtransport/client.go:838-878 quicClient.readCtrl *)
definition readCtrl :: "int \<Rightarrow> ctrlMsg \<Rightarrow> quicClient \<Rightarrow> quicClient \<times> ctrl_event list" where
  "readCtrl now m c =
     (case cm_Type m of
        ctrlServerMeta \<Rightarrow>
          (c\<lparr>qc_serverFeatures := cm_Features m\<rparr>, [ServerMetaEv (cm_BuildID m) (cm_BuildTime m) (cm_InstanceID m)])
      | ctrlSessionGone \<Rightarrow>
          (c, [SessionGoneEv (cm_Msg m) (case cm_ExitCode m of None \<Rightarrow> -1 | Some x \<Rightarrow> x)])
      | ctrlStatus \<Rightarrow> (c, [StatusEv (cm_Msg m)])
      | ctrlLog \<Rightarrow> (c, [LogEv (cm_Msg m)])
      | ctrlPong \<Rightarrow> (c\<lparr>qc_lastPongNano := now\<rparr>, [])
      | _ \<Rightarrow> (c, []))"

text \<open>A request the server opens: the answer, and what is dialled when it is accepted.\<close>

(* internal/qtransport/rforward.go:138-162 quicClient.handleRFwdStream *)
definition handleRFwdStream :: "(string \<Rightarrow> string option) \<Rightarrow> ctrlMsg \<Rightarrow> quicClient \<Rightarrow> ctrlMsg \<times> string option" where
  "handleRFwdStream dial m c =
     (case map_of (qc_rfwdTargets c) (cm_Port m) of
        None \<Rightarrow>
          ((ctrl_msg ctrlRFwdOpenErr)\<lparr>cm_Msg := ''no -R defined for port '' @ show_nat (unat (cm_Port m))
             @ '' on this client''\<rparr>, None)
      | Some target \<Rightarrow>
          (case dial target of
             Some e \<Rightarrow> ((ctrl_msg ctrlRFwdOpenErr)\<lparr>cm_Msg := e\<rparr>, None)
           | None \<Rightarrow> (ctrl_msg ctrlRFwdOpenOK, Some target)))"

(* internal/qtransport/agent.go:139-163 quicClient.handleAgentStream *)
definition handleAgentStream :: "(string \<Rightarrow> string option) \<Rightarrow> quicClient \<Rightarrow> ctrlMsg \<times> string option" where
  "handleAgentStream dial c =
     (if qc_agentSockPath c = ''''
      then ((ctrl_msg ctrlAgentOpenErr)\<lparr>cm_Msg := ''agent forwarding not enabled on this client''\<rparr>, None)
      else
        (case dial (qc_agentSockPath c) of
           Some e \<Rightarrow> ((ctrl_msg ctrlAgentOpenErr)\<lparr>cm_Msg := e\<rparr>, None)
         | None \<Rightarrow> (ctrl_msg ctrlAgentOpenOK, Some (qc_agentSockPath c))))"

(* internal/qtransport/agent.go:119-137 quicClient.handleServerStream *)
definition handleServerStream ::
  "(string \<Rightarrow> string option) \<Rightarrow> (string \<Rightarrow> string option) \<Rightarrow> (err + ctrlMsg) \<Rightarrow> quicClient \<Rightarrow>
   (ctrlMsg \<times> string option) option" where
  "handleServerStream dialUnix dialTCP frame c =
     (case frame of
        Inl _ \<Rightarrow> None
      | Inr m \<Rightarrow>
          if cm_Type m = ctrlAgentOpen then Some (handleAgentStream dialUnix c)
          else if cm_Type m = ctrlRFwdOpen then Some (handleRFwdStream dialTCP m c)
          else None)"

section \<open>Address families\<close>

text \<open>net.ParseIP, as eight 16-bit groups; an IPv4 address is in its mapped form.\<close>

definition v4_field :: "string \<Rightarrow> nat option" where
  "v4_field f =
     (if f = '''' \<or> \<not> list_all digit_char f \<or> (length f > 1 \<and> hd f = CHR ''0'') \<or> digits_val f > 255 then None
      else Some (digits_val f))"

definition ParseIPv4 :: "string \<Rightarrow> nat list option" where
  "ParseIPv4 s =
     (case map v4_field (Split CHR ''.'' s) of
        [Some a, Some b, Some c, Some d] \<Rightarrow> Some [a * 256 + b, c * 256 + d]
      | _ \<Rightarrow> None)"

definition hex_val :: "char \<Rightarrow> nat option" where
  "hex_val c =
     (if digit_char c then Some (digit_val c)
      else if c \<in> set ''abcdef'' then Some (of_char c - 87)
      else if c \<in> set ''ABCDEF'' then Some (of_char c - 55)
      else None)"

definition v6_group :: "string \<Rightarrow> nat option" where
  "v6_group g =
     (if g = '''' \<or> length g > 4 \<or> list_ex (\<lambda>c. hex_val c = None) g then None
      else Some (foldl (\<lambda>n c. n * 16 + the (hex_val c)) 0 g))"

fun v6_groups :: "string list \<Rightarrow> nat list option" where
  "v6_groups [] = Some []"
| "v6_groups [g] = (if CHR ''.'' \<in> set g then ParseIPv4 g else map_option (\<lambda>n. [n]) (v6_group g))"
| "v6_groups (g # gs) =
     (case v6_group g of
        None \<Rightarrow> None
      | Some n \<Rightarrow> map_option (\<lambda>ns. n # ns) (v6_groups gs))"

definition v6_side :: "string \<Rightarrow> nat list option" where
  "v6_side s = (if s = '''' then Some [] else v6_groups (Split CHR '':'' s))"

fun split_ellipsis :: "string \<Rightarrow> (string \<times> string) option" where
  "split_ellipsis (a # b # s) =
     (if a = CHR '':'' \<and> b = CHR '':'' then Some ([], s)
      else map_option (\<lambda>(l, r). (a # l, r)) (split_ellipsis (b # s)))"
| "split_ellipsis _ = None"

definition ParseIPv6 :: "string \<Rightarrow> nat list option" where
  "ParseIPv6 s =
     (case split_ellipsis s of
        None \<Rightarrow> (case v6_side s of None \<Rightarrow> None | Some gs \<Rightarrow> if length gs = 8 then Some gs else None)
      | Some (l, r) \<Rightarrow>
          if CHR ''.'' \<in> set l then None
          else
            (case (v6_side l, v6_side r) of
               (Some ls, Some rs) \<Rightarrow>
                 if length ls + length rs \<le> 7 then Some (ls @ replicate (8 - length ls - length rs) 0 @ rs) else None
             | _ \<Rightarrow> None))"

definition ParseIP :: "string \<Rightarrow> nat list option" where
  "ParseIP s =
     (if CHR '':'' \<in> set s then ParseIPv6 s
      else map_option (\<lambda>v. [0, 0, 0, 0, 0, 65535] @ v) (ParseIPv4 s))"

definition is_v4 :: "nat list \<Rightarrow> bool" where
  "is_v4 g \<longleftrightarrow> take 6 g = [0, 0, 0, 0, 0, 65535]"

(* internal/qtransport/liveness.go:156-171 addrFamily *)
definition addrFamily :: "string \<Rightarrow> string" where
  "addrFamily addr =
     (case SplitHostPort addr of
        Inl _ \<Rightarrow> ''''
      | Inr (host, _) \<Rightarrow>
          (case ParseIP host of None \<Rightarrow> '''' | Some g \<Rightarrow> if is_v4 g then ''4'' else ''6''))"

(* internal/qtransport/liveness.go:140-154 otherFamilyCandidates *)
definition otherFamilyCandidates :: "string list \<Rightarrow> string \<Rightarrow> string list" where
  "otherFamilyCandidates candidates current =
     (let cur = addrFamily current in
      if cur = '''' then [] else filter (\<lambda>a. addrFamily a \<noteq> '''' \<and> addrFamily a \<noteq> cur) candidates)"

section \<open>Liveness\<close>

(* internal/qtransport/liveness.go:33-36 livenessTimeout *)
definition livenessTimeout :: int where
  "livenessTimeout = 10 * 1000000000"

(* internal/qtransport/liveness.go:72-86 quicClient.livenessTarget *)
definition livenessTarget :: "quicClient \<Rightarrow> (nat \<times> string \<times> string list) option" where
  "livenessTarget c =
     (if qc_state c \<noteq> StateConnected \<or> and (qc_serverFeatures c) FeatureLiveness = 0 then None
      else
        let alts = otherFamilyCandidates (qc_candidates c) (qc_connAddr c) in
        (case qc_conn c of
           None \<Rightarrow> None
         | Some conn \<Rightarrow> if length alts = 0 then None else Some (conn, qc_connAddr c, alts)))"

text \<open>One tick of the loop: the connection watched and since when; whether a ping goes out, and the
  switch to try: from which address, after how long a silence, to which candidates.\<close>

(* internal/qtransport/liveness.go:50-68 quicClient.livenessLoop *)
definition liveness_tick ::
  "int \<Rightarrow> (nat \<times> int) option \<Rightarrow> quicClient \<Rightarrow> (nat \<times> int) option \<times> bool \<times> (string \<times> int \<times> string list) option" where
  "liveness_tick now watched c =
     (case livenessTarget c of
        None \<Rightarrow> (None, False, None)
      | Some (conn, addr, alts) \<Rightarrow>
          let since = (case watched of Some (w, t) \<Rightarrow> if w = conn then t else now | None \<Rightarrow> now);
              silentSince = (if qc_lastPongNano c > since then qc_lastPongNano c else since);
              silent = now - silentSince in
          if silent \<ge> livenessTimeout then (Some (conn, now), True, Some (addr, silent, alts))
          else (Some (conn, since), True, None))"

text \<open>The dial runs outside the lock: c is the client when it comes back.\<close>

(* internal/qtransport/liveness.go:100-138 quicClient.failover *)
definition failover :: "attempt \<Rightarrow> string \<Rightarrow> int \<Rightarrow> string list \<Rightarrow> quicClient \<Rightarrow> quicClient \<times> client_act list" where
  "failover a addr silent alts c =
     (if at_tls a \<noteq> None then (c, [])
      else
        (case dialParallel (at_dial a) alts of
           (None, fails, acts) \<Rightarrow> (c, acts @ [LogMessage (''liveness: failover to other family failed: '' @ Join fails ''; '')])
         | (Some (waddr, conn, tr), _, acts) \<Rightarrow>
             if qc_state c \<noteq> StateConnected \<or> qc_connAddr c \<noteq> addr
             then (c, acts @ [CloseConnA conn 0, CloseTransportA tr])
             else
               (case adoptConn a (waddr, conn, tr) c of
                  (c1, acts1, Some e) \<Rightarrow> (c1, acts @ acts1 @ [LogMessage (''liveness: failover to '' @ waddr @ '' failed'')])
                | (c1, acts1, None) \<Rightarrow>
                    let c2 = recordRecovery a c1;
                        (c3, acts3) = setState StateRecovering (''failover: no response via '' @ addr @ '' for ''
                          @ show_int (silent div 1000000000) @ ''s'') c2;
                        (c4, acts4) = setState StateConnected (''reconnected via '' @ waddr @ '' (recovery ''
                          @ show_nat (qc_lastRecoveryMs c3) @ ''ms)'') c3 in
                    (c4, acts @ acts1 @ acts3 @ acts4))))"

section \<open>The schedule of retries\<close>

lemma shifted_base:
  assumes "n \<le> 30"
  shows "sint (push_bit n (word_of_int reconnectBackoffBase :: 64 word)) = 1000000000 * 2 ^ n"
proof -
  have "n \<in> set [0..<31]" using assms by simp
  moreover have "list_all (\<lambda>n. sint (push_bit n (1000000000 :: 64 word)) = 1000000000 * 2 ^ n) [0..<31]"
    by code_simp
  ultimately show ?thesis by (simp only: list_all_iff reconnectBackoffBase_def) simp
qed

lemma bump_delay:
  assumes "qc_backoffFails c \<le> 30"
  shows "snd (bumpBackoff now c) = min 60 (2 ^ qc_backoffFails c) * 1000000000"
proof -
  have "(0 :: int) < 2 ^ qc_backoffFails c" by simp
  then show ?thesis
    by (simp add: bumpBackoff_def Let_def shifted_base [OF assms] reconnectBackoffMax_def min_def)
qed

lemma bump_fails:
  "qc_backoffFails (fst (bumpBackoff now c)) = (if qc_backoffFails c < 30 then qc_backoffFails c + 1 else qc_backoffFails c)"
  by (simp add: bumpBackoff_def Let_def)

lemma bumps_fails:
  "qc_backoffFails c = min 30 k \<Longrightarrow>
   qc_backoffFails (fold (\<lambda>t c. fst (bumpBackoff t c)) ts c) = min 30 (k + length ts)"
proof (induction ts arbitrary: c k)
  case (Cons t ts)
  then have "qc_backoffFails (fst (bumpBackoff t c)) = min 30 (k + 1)"
    unfolding bump_fails by (simp add: min_def)
  from Cons.IH [OF this] show ?case by simp
qed simp

text \<open>After a reset the delays between attempts that fail one after the other are 1, 2, 4, ... seconds,
  never more than a minute, however many there are, and the next attempt is due just then.\<close>

theorem backoff_schedule:
  assumes "c = fold (\<lambda>t c. fst (bumpBackoff t c)) ts (resetBackoff c0)"
  shows "snd (bumpBackoff now c) = min 60 (2 ^ length ts) * 1000000000 \<and>
    (inBackoff later (fst (bumpBackoff now c)) \<longleftrightarrow> later < now + min 60 (2 ^ length ts) * 1000000000)"
proof -
  have f: "qc_backoffFails c = min 30 (length ts)"
    using bumps_fails [of "resetBackoff c0" 0 ts] assms by (simp add: resetBackoff_def)
  have "min 60 (2 ^ min 30 (length ts)) = (min 60 (2 ^ length ts) :: int)"
  proof (cases "length ts \<le> 30")
    case False
    then have "(2 :: int) ^ 30 \<le> 2 ^ length ts" by (intro power_increasing) auto
    with False show ?thesis by (simp add: min_def)
  qed simp
  with bump_delay [of c now] f have d: "snd (bumpBackoff now c) = min 60 (2 ^ length ts) * 1000000000" by simp
  moreover have "qc_backoffUntil (fst (bumpBackoff now c)) = Some (now + snd (bumpBackoff now c))"
    by (simp add: bumpBackoff_def Let_def)
  ultimately show ?thesis by (simp add: inBackoff_def)
qed

lemma backoff_schedule_witness:
  "snd (bumpBackoff 500 (fold (\<lambda>t c. fst (bumpBackoff t c)) [10, 20, 30]
     (resetBackoff (NewClient ''h:1'' 7 ''s1'')))) = 8000000000"
  using backoff_schedule [OF refl, of 500 "[10, 20, 30]" "NewClient ''h:1'' 7 ''s1''" 0]
  by (simp del: fold_simps)

section \<open>The client comes back\<close>

text \<open>An attempt that meets a server that can be reached: dialling any candidates gives a connection and
  the streams can be set up.\<close>

definition reachable :: "attempt \<Rightarrow> bool" where
  "reachable a \<longleftrightarrow> at_tls a = None \<and> (\<forall>cs. fst (dialParallel (at_dial a) cs) \<noteq> None) \<and>
     at_control a = None \<and> at_hello a = None \<and> at_input a = None"

text \<open>What starts recoveries: a tick of the watchdog, slept after the one before; input that cannot be
  sent; and the switch of the address family. Each has its attempt.\<close>

datatype recovery_ev = Tick attempt int | Typed_in_vain attempt | Failover attempt string int "string list"

fun ev_attempt :: "recovery_ev \<Rightarrow> attempt" where
  "ev_attempt (Tick a slept) = a"
| "ev_attempt (Typed_in_vain a) = a"
| "ev_attempt (Failover a addr silent alts) = a"

fun recovery_on :: "recovery_ev \<Rightarrow> int option \<times> quicClient \<Rightarrow> int option \<times> quicClient" where
  "recovery_on (Tick a slept) (lastJump, c) =
     (case watchdog_tick (at_now a) slept (at_dead a) lastJump c of
        (c1, lastJump1, None) \<Rightarrow> (lastJump1, c1)
      | (c1, lastJump1, Some (reason, tryMigrate)) \<Rightarrow> (lastJump1, fst (recoverWith a reason tryMigrate c1)))"
| "recovery_on (Typed_in_vain a) (lastJump, c) =
     (lastJump, fst (recover_conn a ''input send failed'' (resetBackoffByInput (at_now a) c)))"
| "recovery_on (Failover a addr silent alts) (lastJump, c) = (lastJump, fst (failover a addr silent alts c))"

lemma reconnect_reachable:
  assumes "reachable a" "reconnect a reason c = (c', acts, e)"
  shows "e = None \<and> qc_state c' = StateConnected"
proof -
  have w: "fst (snd (reconnect_dial a c1)) \<noteq> None" for c1
    using assms(1) by (auto simp: reconnect_dial_def Let_def reachable_def case_prod_unfold)
  obtain c1 acts1 where s: "setState StateRecovering (''reconnecting: '' @ reason) c = (c1, acts1)" by force
  obtain c2 wn fails acts2 where d: "reconnect_dial a c1 = (c2, Some wn, fails, acts2)"
    using w [of c1] by (cases "reconnect_dial a c1") auto
  show ?thesis
    using assms s d by (auto simp: reconnect_def reachable_def adoptConn_def setState_def Let_def case_prod_unfold)
qed

lemma migrate_connected: "migrate a reason c = (c1, acts, None) \<Longrightarrow> qc_state c1 = StateConnected"
  by (auto simp: migrate_def setState_def Let_def split: if_splits sum.splits option.splits)

lemma recover_reachable:
  assumes "reachable a"
  shows "if inBackoff (at_now a) c then recoverWith a reason tm c = (c, [])
    else qc_state (fst (recoverWith a reason tm c)) = StateConnected"
proof -
  have r: "\<exists>c2 acts. reconnect a reason c1 = (c2, acts, None) \<and> qc_state c2 = StateConnected" for c1
    using reconnect_reachable [OF assms] by (metis prod_cases3)
  show ?thesis
  proof (cases "tm \<and> \<not> at_dead a")
    case True
    obtain c1 acts e where g: "migrate a reason c = (c1, acts, e)" by (metis prod_cases3)
    obtain c2 acts2 where "reconnect a reason c1 = (c2, acts2, None)" "qc_state c2 = StateConnected" using r by blast
    with g migrate_connected True show ?thesis
      by (cases e) (auto simp: recoverWith_def resetBackoff_def)
  next
    case False
    obtain c2 acts2 where "reconnect a reason c = (c2, acts2, None)" "qc_state c2 = StateConnected" using r by blast
    with False show ?thesis by (auto simp: recoverWith_def resetBackoff_def)
  qed
qed

text \<open>A connected client has no backoff; otherwise it is over by the time b.\<close>

definition waits_until :: "int \<Rightarrow> quicClient \<Rightarrow> bool" where
  "waits_until b c \<longleftrightarrow>
     (qc_state c = StateConnected \<and> qc_backoffUntil c = None \<or>
      qc_state c = StateRecovering \<and> (case qc_backoffUntil c of None \<Rightarrow> True | Some u \<Rightarrow> u \<le> b))"

lemma dial_frame:
  "reconnect_dial a c = (c', w, fails, acts) \<Longrightarrow> qc_recoveryCount c' = qc_recoveryCount c \<and>
   (qc_state c = StateRecovering \<longrightarrow> qc_state c' = StateRecovering)"
  by (auto simp: reconnect_dial_def Let_def setState_def split: if_splits option.splits prod.splits)

lemma adopt_frame:
  "adoptConn a w c = (c', acts, e) \<Longrightarrow> qc_recoveryCount c' = qc_recoveryCount c \<and> qc_state c' = qc_state c \<and>
   qc_backoffUntil c' = qc_backoffUntil c"
  by (auto simp: adoptConn_def Let_def split: prod.splits option.splits)

lemma reconnect_state:
  assumes "reconnect a reason c = (c', acts, e)"
  shows "if e = None then qc_state c' = StateConnected \<and> qc_recoveryCount c' = qc_recoveryCount c + 1
    else qc_state c' = StateRecovering"
  using assms
  by (auto simp: reconnect_def Let_def setState_def recordRecovery_def split: prod.splits option.splits
      dest!: dial_frame adopt_frame)

lemma bump_until: "\<exists>u. qc_backoffUntil (fst (bumpBackoff now c)) = Some u \<and> u \<le> now + 60 * 1000000000"
  by (simp add: bumpBackoff_def Let_def reconnectBackoffMax_def)

lemma recover_waits:
  assumes "waits_until b c" "\<not> reachable a \<longrightarrow> at_end a + 60 * 1000000000 \<le> b"
  shows "waits_until b (fst (recoverWith a reason tm c))"
proof (cases "inBackoff (at_now a) c")
  case True
  with assms(1) show ?thesis by (simp add: recoverWith_def)
next
  case False
  obtain c1 acts1 fin where g: "(if tm \<and> \<not> at_dead a
      then (case migrate a reason c of (c1, acts, e) \<Rightarrow> (c1, acts, e = None)) else (c, [], False)) = (c1, acts1, fin)"
    by (metis prod_cases3)
  obtain c2 acts2 e where r: "reconnect a reason c1 = (c2, acts2, e)" by (metis prod_cases3)
  note st = reconnect_state [OF r]
  show ?thesis
  proof (cases fin)
    case True
    then have "qc_state c1 = StateConnected" using g migrate_connected by (auto split: if_splits prod.splits)
    with False g True show ?thesis by (simp add: recoverWith_def waits_until_def resetBackoff_def)
  next
    case nf: False
    show ?thesis
    proof (cases e)
      case None
      with False g nf r st show ?thesis by (simp add: recoverWith_def waits_until_def resetBackoff_def)
    next
      case (Some x)
      then have "\<not> reachable a" using reconnect_reachable r by (metis option.distinct(1))
      with assms(2) have b: "at_end a + 60 * 1000000000 \<le> b" by simp
      have "fst (recoverWith a reason tm c) = fst (bumpBackoff (at_end a) c2)"
        using False g nf r Some by (simp add: recoverWith_def split: prod.split)
      moreover have "qc_state (fst (bumpBackoff (at_end a) c2)) = StateRecovering"
        using st Some by (simp add: bumpBackoff_def Let_def)
      ultimately show ?thesis using bump_until [of "at_end a" c2] b by (auto simp: waits_until_def)
    qed
  qed
qed

lemma failover_waits: "waits_until b c \<Longrightarrow> waits_until b (fst (failover a addr silent alts c))"
proof -
  assume w: "waits_until b c"
  obtain win fails acts where d: "dialParallel (at_dial a) alts = (win, fails, acts)" by (metis prod_cases3)
  show ?thesis
  proof (cases "at_tls a = None \<and> qc_state c = StateConnected \<and> qc_connAddr c = addr")
    case True
    from True w d show ?thesis
      by (auto simp: failover_def Let_def setState_def recordRecovery_def waits_until_def
          split: option.split prod.split dest!: adopt_frame)
  qed (use w d in \<open>auto simp: failover_def split: option.split prod.split\<close>)
qed

lemma recovery_on_waits:
  assumes "waits_until b (snd s)" "\<not> reachable (ev_attempt ev) \<longrightarrow> at_end (ev_attempt ev) + 60 * 1000000000 \<le> b"
  shows "waits_until b (snd (recovery_on ev s))"
proof -
  obtain lastJump c where s: "s = (lastJump, c)" by force
  have r: "waits_until b (resetBackoff c)" "waits_until b (resetBackoffByInput now c)" for now
    using assms(1) by (auto simp: s waits_until_def resetBackoff_def resetBackoffByInput_def)
  show ?thesis
    using assms r
    by (cases ev) (auto simp: s watchdog_tick_def recover_conn_def recover_waits failover_waits split: prod.split)
qed

text \<open>A tick at which a client must act, after its backoff.\<close>

lemma late_tick:
  assumes "waits_until b c" "b \<le> at_now a" "reachable a" "slept \<le> sleepThreshold"
  shows "qc_state (snd (recovery_on (Tick a slept) (lastJump, c))) = StateConnected \<and>
    (at_dead a \<longrightarrow> qc_recoveryCount (snd (recovery_on (Tick a slept) (lastJump, c))) = qc_recoveryCount c + 1)"
proof -
  have nb: "\<not> inBackoff (at_now a) c" using assms(1,2) by (auto simp: waits_until_def inBackoff_def split: option.splits)
  have st: "qc_state (fst (recoverWith a reason tm c)) = StateConnected" for reason tm
    using recover_reachable [OF assms(3), of c reason tm] nb by simp
  have dead: "qc_recoveryCount (fst (recoverWith a reason tm c)) = qc_recoveryCount c + 1" if "at_dead a" for reason tm
  proof -
    obtain c2 acts where "reconnect a reason c = (c2, acts, None)"
      using reconnect_reachable [OF assms(3)] by (metis prod_cases3)
    with that nb reconnect_state [OF this] show ?thesis by (simp add: recoverWith_def resetBackoff_def)
  qed
  show ?thesis
    using assms(1,4) st dead by (auto simp: watchdog_tick_def waits_until_def split: prod.split)
qed

text \<open>C17. However long the server was out of reach and whatever failed meanwhile (reconnections, input
  that could not be sent, a switch of the address family, ticks after a sleep), a client that was once
  connected is so again at the first regular tick a minute after the server can be reached and the
  attempts begun before that have ended: no backoff outlasts it. When its connection was dead at that
  tick, it has a new one.\<close>

theorem client_comes_back:
  assumes "Start a0 (NewClient server cid sid) = (c0, acts, None)"
    "\<forall>ev\<in>set es. if at_now (ev_attempt ev) < t then at_end (ev_attempt ev) \<le> ended else reachable (ev_attempt ev)"
    "(lastJump, c) = fold recovery_on es (None, c0)"
    "reachable a" "ended + 60 * 1000000000 \<le> at_now a" "slept \<le> 15 * 1000000000"
  shows "qc_state (snd (recovery_on (Tick a slept) (lastJump, c))) = StateConnected \<and>
    (at_dead a \<longrightarrow> qc_recoveryCount (snd (recovery_on (Tick a slept) (lastJump, c))) = qc_recoveryCount c + 1)"
proof -
  let ?b = "ended + 60 * 1000000000"
  have "waits_until ?b c0"
    using assms(1) by (auto simp: Start_def NewClient_def setState_def Let_def waits_until_def split: option.splits prod.splits)
  moreover have "waits_until ?b (snd s) \<Longrightarrow> waits_until ?b (snd (fold recovery_on es s))" for s
    using assms(2)
  proof (induction es arbitrary: s)
    case (Cons ev es)
    have "\<not> reachable (ev_attempt ev) \<longrightarrow> at_end (ev_attempt ev) + 60 * 1000000000 \<le> ?b"
      using Cons.prems(2) by (auto split: if_splits)
    with Cons show ?case by (simp add: recovery_on_waits)
  qed simp
  ultimately have "waits_until ?b c" using assms(3) by (metis snd_conv)
  then show ?thesis using late_tick assms(4-6) by (simp add: sleepThreshold_def)
qed

definition good_attempt :: "int \<Rightarrow> attempt" where
  "good_attempt t = \<lparr>at_now = t, at_end = t, at_dead = True, at_socket = Inl EOF, at_path = None, at_probe = None,
     at_switch = None, at_tls = None, at_dial = (\<lambda>cs. [\<lparr>dt_addr = ''a:1'', dt_socket = Inr 10, dt_resolve = None, dt_conn = Inl ''timeout''\<rparr>,
       \<lparr>dt_addr = ''b:1'', dt_socket = Inr 9, dt_resolve = None, dt_conn = Inr 2\<rparr>]),
     at_refresher = None, at_control = None, at_hello = None, at_input = None, at_datagrams = True\<rparr>"

lemma good_reachable: "reachable (good_attempt t)"
  by (simp add: reachable_def good_attempt_def dialParallel_def dialCandidate_def)

definition lost_client :: quicClient where
  "lost_client = (NewClient ''a:1'' 7 ''s1'')\<lparr>qc_conn := Some 1, qc_tr := Some 8, qc_state := StateRecovering,
     qc_backoffFails := 9, qc_backoffUntil := Some 60000000000\<rparr>"

text \<open>Two attempts fail, the second begun just before the server comes back at second 5.\<close>

definition failed_attempt :: "int \<Rightarrow> attempt" where
  "failed_attempt t = (good_attempt t)\<lparr>at_end := t + 4000000000, at_dial := (\<lambda>cs. [])\<rparr>"

lemma client_comes_back_witness:
  "qc_recoveryCount (snd (recovery_on (Tick (good_attempt 70000000000) 1000000000)
     (fold recovery_on [Tick (failed_attempt 0) 1000000000, Typed_in_vain (failed_attempt 4500000000)]
       (None, fst (Start (good_attempt 0) (NewClient ''h:1'' 7 ''s1'')))))) = 1"
proof -
  let ?c0 = "fst (Start (good_attempt 0) (NewClient ''h:1'' 7 ''s1''))"
  let ?es = "[Tick (failed_attempt 0) 1000000000, Typed_in_vain (failed_attempt 4500000000)]"
  have s: "Start (good_attempt 0) (NewClient ''h:1'' 7 ''s1'') = (?c0, fst (snd (Start (good_attempt 0) (NewClient ''h:1'' 7 ''s1''))), None)"
    by (simp add: Start_def good_attempt_def dialParallel_def dialCandidate_def NewClient_def setState_def Let_def)
  obtain lj c where c: "fold recovery_on ?es (None, ?c0) = (lj, c)" by force
  have "qc_recoveryCount (snd (recovery_on (Tick (good_attempt 70000000000) 1000000000) (lj, c))) = qc_recoveryCount c + 1"
    using client_comes_back [OF s, of ?es 5000000000 9000000000 lj c "good_attempt 70000000000" 1000000000] c
    by (simp add: good_reachable, simp add: good_attempt_def failed_attempt_def)
  moreover have "qc_recoveryCount c = 0"
  proof -
    have n: "qc_recoveryCount (fst (recoverWith (failed_attempt t) reason tm c)) = qc_recoveryCount c" for t reason tm c
      by (simp add: recoverWith_def failed_attempt_def good_attempt_def reconnect_def reconnect_dial_def dialParallel_def
          bumpBackoff_def setState_def Let_def)
    have z: "qc_recoveryCount (resetBackoff c) = qc_recoveryCount c"
      "qc_recoveryCount (resetBackoffByInput now c) = qc_recoveryCount c" for c now
      by (simp_all add: resetBackoff_def resetBackoffByInput_def)
    have "qc_recoveryCount ?c0 = 0"
      by (simp add: Start_def good_attempt_def dialParallel_def dialCandidate_def NewClient_def setState_def Let_def)
    with n z have "qc_recoveryCount (snd (fold recovery_on ?es (None, ?c0))) = 0"
      by (simp add: watchdog_tick_def recover_conn_def split: prod.split)
    with c show ?thesis by simp
  qed
  ultimately show ?thesis using c by simp
qed

section \<open>No socket is lost\<close>

definition held :: "quicClient \<Rightarrow> nat set" where
  "held c = set_option (qc_tr c) \<union> set (qc_pathTransports c)"

text \<open>The sockets an operation opens or is given are afterwards held, closed or on their way to be closed;
  and none is retired while the connection they belong to stays in use.\<close>

definition accounted :: "quicClient \<Rightarrow> quicClient \<Rightarrow> client_act list \<Rightarrow> bool" where
  "accounted c c' acts \<longleftrightarrow>
     (\<forall>tr. OpenTransport tr \<in> set acts \<or> tr \<in> held c \<longrightarrow>
        tr \<in> held c' \<or> CloseTransportA tr \<in> set acts \<or> RetireTransport tr \<in> set acts) \<and>
     (\<forall>tr. qc_conn c' = qc_conn c \<longrightarrow> RetireTransport tr \<notin> set acts \<and> held c \<subseteq> held c')"

lemma accounted_trans:
  assumes "accounted c1 c2 as" "accounted c2 c3 bs" "qc_conn c2 = qc_conn c1"
  shows "accounted c1 c3 (as @ bs)"
  using assms unfolding accounted_def by auto

lemma setState_simps [simp]:
  "held (fst (setState st msg c)) = held c" "qc_conn (fst (setState st msg c)) = qc_conn c"
  "qc_tr (fst (setState st msg c)) = qc_tr c" "qc_pathTransports (fst (setState st msg c)) = qc_pathTransports c"
  "OpenTransport tr \<notin> set (snd (setState st msg c))" "RetireTransport tr \<notin> set (snd (setState st msg c))"
  "CloseTransportA tr \<notin> set (snd (setState st msg c))"
  by (auto simp: setState_def held_def)

lemma record_simps [simp]:
  "held (recordRecovery a c) = held c" "qc_conn (recordRecovery a c) = qc_conn c"
  "qc_tr (recordRecovery a c) = qc_tr c" "qc_pathTransports (recordRecovery a c) = qc_pathTransports c"
  by (simp_all add: recordRecovery_def held_def)

lemma held_cong: "qc_tr c = qc_tr c' \<Longrightarrow> qc_pathTransports c = qc_pathTransports c' \<Longrightarrow> held c = held c'"
  by (simp add: held_def)

text \<open>Dialling: the winner's socket is the only one left open.\<close>

lemma dial_loop_opens:
  "dial_loop rs w = (w', fails, acts) \<Longrightarrow>
   (\<forall>addr conn tr. Dialled addr conn tr \<in> set rs \<longrightarrow> CloseTransportA tr \<in> set acts \<or> w' = Some (addr, conn, tr)) \<and>
   (\<forall>tr. RetireTransport tr \<notin> set acts \<and> OpenTransport tr \<notin> set acts) \<and> (w \<noteq> None \<longrightarrow> w' = w)"
proof (induction rs w arbitrary: w' fails acts rule: dial_loop.induct)
  case (3 addr conn tr rs winner)
  show ?case
  proof (cases winner)
    case None
    with 3(1)[OF None] 3(3) show ?thesis by (auto split: prod.splits)
  next
    case (Some x)
    obtain acts' where l: "dial_loop rs winner = (w', fails, acts')" "acts = [CloseConnA conn 0, CloseTransportA tr] @ acts'"
      using 3(3) Some by (auto split: prod.splits)
    note ih = 3(2)[OF Some l(1)]
    then show ?thesis unfolding l(2) by auto
  qed
qed (auto split: prod.splits)

lemma dialCandidate_opens:
  "OpenTransport tr \<in> set (fst (dialCandidate d)) \<Longrightarrow>
     CloseTransportA tr \<in> set (fst (dialCandidate d)) \<or> (\<exists>addr conn. snd (dialCandidate d) = Dialled addr conn tr)"
  "RetireTransport tr \<notin> set (fst (dialCandidate d))"
  by (auto simp: dialCandidate_def split: sum.splits option.splits)

lemma dial_opens:
  assumes "dialParallel dial cs = (w, fails, acts)"
  shows "OpenTransport tr \<in> set acts \<Longrightarrow> CloseTransportA tr \<in> set acts \<or> (\<exists>addr conn. w = Some (addr, conn, tr))"
    "RetireTransport tr \<notin> set acts"
proof -
  obtain acts' where l: "dial_loop (map snd (map dialCandidate (dial cs))) None = (w, fails, acts')"
    and acts: "acts = concat (map fst (map dialCandidate (dial cs))) @ acts'"
    using assms by (auto simp: dialParallel_def Let_def split: prod.splits)
  note o = dial_loop_opens [OF l]
  show "RetireTransport tr \<notin> set acts" using o dialCandidate_opens(2) by (auto simp: acts)
  show "CloseTransportA tr \<in> set acts \<or> (\<exists>addr conn. w = Some (addr, conn, tr))" if op: "OpenTransport tr \<in> set acts"
  proof -
    obtain d where d: "d \<in> set (dial cs)" "OpenTransport tr \<in> set (fst (dialCandidate d))"
      using op o by (auto simp: acts)
    from dialCandidate_opens(1) [OF d(2)] show ?thesis
    proof
      assume "\<exists>addr conn. snd (dialCandidate d) = Dialled addr conn tr"
      then obtain addr conn where "Dialled addr conn tr \<in> set (map snd (map dialCandidate (dial cs)))"
        using d(1) by force
      then have "CloseTransportA tr \<in> set acts' \<or> w = Some (addr, conn, tr)" using o by blast
      then show ?thesis by (auto simp: acts)
    qed (use d(1) in \<open>auto simp: acts\<close>)
  qed
qed

lemma reconnect_dial_opens:
  assumes "reconnect_dial a c = (c', w, fails, acts)"
  shows "(\<forall>tr. OpenTransport tr \<in> set acts \<longrightarrow> CloseTransportA tr \<in> set acts \<or> (\<exists>addr conn. w = Some (addr, conn, tr))) \<and>
    (\<forall>tr. RetireTransport tr \<notin> set acts) \<and> qc_conn c' = qc_conn c \<and> qc_tr c' = qc_tr c \<and>
    qc_pathTransports c' = qc_pathTransports c"
proof -
  obtain w1 f1 a1 where d1: "dialParallel (at_dial a) (dial_candidates c) = (w1, f1, a1)" by (metis prod_cases3)
  note o1 = dial_opens [OF d1]
  show ?thesis
  proof (cases "at_refresher a")
    case None
    with assms d1 o1 show ?thesis by (auto simp: reconnect_dial_def split: if_splits)
  next
    case (Some fresh)
    obtain w2 f2 a2 where d2: "dialParallel (at_dial a) fresh = (w2, f2, a2)" by (metis prod_cases3)
    show ?thesis
    proof (cases "w1 \<noteq> None \<or> fresh = [] \<or> candidatesEqual fresh (dial_candidates c)")
      case True
      with assms d1 Some have "c' = c" "w = w1" "acts = a1" by (auto simp: reconnect_dial_def split: if_splits)
      with o1 show ?thesis by blast
    next
      case False
      then have n: "w1 = None" by blast
      with False assms d1 d2 Some obtain a3 where "w = w2" "acts = a1 @ a3 @ a2"
          "qc_conn c' = qc_conn c" "qc_tr c' = qc_tr c" "qc_pathTransports c' = qc_pathTransports c"
          "\<forall>tr. OpenTransport tr \<notin> set a3 \<and> RetireTransport tr \<notin> set a3"
        by (auto simp: reconnect_dial_def setState_def Let_def split: if_splits)
      with n o1 dial_opens [OF d2] show ?thesis by auto
    qed
  qed
qed

lemma dial_winner: "dial_loop rs w = (Some (addr, conn, tr), fails, acts) \<Longrightarrow>
   w = Some (addr, conn, tr) \<or> Dialled addr conn tr \<in> set rs"
proof (induction rs w arbitrary: fails acts rule: dial_loop.induct)
  case (3 a c t rs winner)
  show ?case
  proof (cases winner)
    case None
    with 3(1)[OF None] 3(3) show ?thesis by (auto split: prod.splits)
  next
    case (Some x)
    with 3(2)[OF Some] 3(3) show ?thesis by (auto split: prod.splits)
  qed
qed (auto split: prod.splits)

lemma dialled_conn:
  assumes "dialParallel (at_dial a) cs = (Some (addr, conn, tr), fails, acts)"
  shows "\<exists>d\<in>set (at_dial a cs). dt_conn d = Inr conn"
proof -
  obtain acts' where "dial_loop (map snd (map dialCandidate (at_dial a cs))) None = (Some (addr, conn, tr), fails, acts')"
    using assms by (auto simp: dialParallel_def Let_def split: prod.splits)
  from dial_winner [OF this] obtain d where "d \<in> set (at_dial a cs)" "snd (dialCandidate d) = Dialled addr conn tr"
    by auto
  then show ?thesis by (auto simp: dialCandidate_def split: sum.splits option.splits)
qed

lemma winner_dialled:
  assumes "reconnect_dial a c = (c', Some (addr, conn, tr), fails, acts)"
  shows "\<exists>cs. \<exists>d\<in>set (at_dial a cs). dt_conn d = Inr conn"
  using assms by (auto simp: reconnect_dial_def Let_def split: prod.splits option.splits if_splits)
    (blast dest: dialled_conn)+

lemma migrate_accounted:
  assumes "migrate a reason c = (c', acts, e)" "length (qc_pathTransports c) \<le> 2"
  shows "accounted c c' acts \<and> qc_conn c' = qc_conn c \<and> length (qc_pathTransports c') \<le> 2"
proof (cases "length (qc_pathTransports c) \<ge> maxPathTransports")
  case True
  with assms show ?thesis by (auto simp: migrate_def accounted_def)
next
  case False
  obtain c1 a1 where s: "setState StateRecovering (''roaming: '' @ reason) c = (c1, a1)" by force
  have c1: "qc_tr c1 = qc_tr c" "qc_pathTransports c1 = qc_pathTransports c" "qc_conn c1 = qc_conn c"
    "\<forall>tr. OpenTransport tr \<notin> set a1 \<and> RetireTransport tr \<notin> set a1 \<and> CloseTransportA tr \<notin> set a1"
    using s by (auto simp: setState_def split: if_splits)
  show ?thesis
    using assms False s c1
    by (auto simp: migrate_def Let_def accounted_def held_def maxPathTransports_def recordRecovery_def setState_def
        split: sum.splits option.splits if_splits)
qed

lemma adopt_accounted:
  assumes "adoptConn a (addr, conn, tr) c = (c', acts, e)" "qc_conn c \<noteq> Some conn"
  shows "(\<forall>x. OpenTransport x \<notin> set acts) \<and>
    (if e = None then qc_conn c' = Some conn \<and> held c' = {tr} \<and> qc_pathTransports c' = [] \<and>
       (\<forall>x\<in>held c. RetireTransport x \<in> set acts)
     else c' = c \<and> CloseTransportA tr \<in> set acts \<and> (\<forall>x. RetireTransport x \<notin> set acts))"
  using assms
  by (cases "at_control a"; cases "at_hello a"; cases "at_input a")
    (auto simp: adoptConn_def Let_def held_def split: option.splits)

lemma reconnect_accounted:
  assumes "reconnect a reason c = (c', acts, e)" "length (qc_pathTransports c) \<le> 2"
    "\<forall>cs. \<forall>d\<in>set (at_dial a cs). \<forall>conn. dt_conn d = Inr conn \<longrightarrow> qc_conn c \<noteq> Some conn"
  shows "accounted c c' acts \<and> length (qc_pathTransports c') \<le> 2"
proof -
  obtain c1 a1 where s: "setState StateRecovering (''reconnecting: '' @ reason) c = (c1, a1)" by force
  have c1: "qc_tr c1 = qc_tr c" "qc_pathTransports c1 = qc_pathTransports c" "qc_conn c1 = qc_conn c"
    "\<forall>tr. OpenTransport tr \<notin> set a1 \<and> RetireTransport tr \<notin> set a1 \<and> CloseTransportA tr \<notin> set a1"
    using s by (auto simp: setState_def split: if_splits)
  show ?thesis
  proof (cases "at_tls a")
    case (Some x)
    with assms(1,2) s c1 show ?thesis by (auto simp: reconnect_def accounted_def held_def)
  next
    case None
    obtain c2 w fails a2 where d: "reconnect_dial a c1 = (c2, w, fails, a2)" by (metis prod_cases4)
    note o = reconnect_dial_opens [OF d]
    have h2: "held c2 = held c" using o c1 by (simp add: held_def)
    show ?thesis
    proof (cases w)
      case None
      with assms(1,2) s c1 d o h2 \<open>at_tls a = None\<close> show ?thesis
        by (auto simp: reconnect_def accounted_def)
    next
      case (Some wn)
      obtain addr conn tr where wn: "wn = (addr, conn, tr)" by (metis prod_cases3)
      have "qc_conn c2 \<noteq> Some conn" using winner_dialled [OF d [unfolded Some wn]] assms(3) o c1 by metis
      obtain c3 a3 e3 where ad: "adoptConn a (addr, conn, tr) c2 = (c3, a3, e3)" by (metis prod_cases3)
      note acc = adopt_accounted [OF ad \<open>qc_conn c2 \<noteq> Some conn\<close>]
      show ?thesis
      proof (cases e3)
        case None
        with assms(1) s d Some wn ad \<open>at_tls a = None\<close>
        obtain msg where m: "c' = fst (setState StateConnected msg (recordRecovery a c3))"
          "acts = a1 @ a2 @ a3 @ snd (setState StateConnected msg (recordRecovery a c3))"
          by (auto simp: reconnect_def Let_def case_prod_unfold)
        obtain a5 where a5: "acts = a1 @ a2 @ a3 @ a5"
          "\<forall>x. OpenTransport x \<notin> set a5 \<and> RetireTransport x \<notin> set a5" using m(2) by auto
        have c': "held c' = held c3" "qc_conn c' = qc_conn c3" "qc_pathTransports c' = qc_pathTransports c3"
          using m(1) by simp_all
        show ?thesis
          using a5 acc None c' h2 o c1 Some wn \<open>qc_conn c2 \<noteq> Some conn\<close> unfolding accounted_def by auto
      next
        case (Some x)
        with assms(1) s d \<open>w = Some wn\<close> wn ad \<open>at_tls a = None\<close> have c': "c' = c3" "acts = a1 @ a2 @ a3"
          by (auto simp: reconnect_def Let_def case_prod_unfold)
        show ?thesis
          using acc Some c' h2 o c1 assms(2) \<open>w = Some wn\<close> wn unfolding accounted_def by auto
      qed
    qed
  qed
qed

lemma backoff_simps [simp]:
  "held (resetBackoff c) = held c" "qc_conn (resetBackoff c) = qc_conn c"
  "qc_pathTransports (resetBackoff c) = qc_pathTransports c"
  "held (fst (bumpBackoff now c)) = held c" "qc_conn (fst (bumpBackoff now c)) = qc_conn c"
  "qc_pathTransports (fst (bumpBackoff now c)) = qc_pathTransports c"
  by (simp_all add: resetBackoff_def bumpBackoff_def held_def Let_def)

lemma accounted_same: "held c' = held c1 \<Longrightarrow> qc_conn c' = qc_conn c1 \<Longrightarrow> accounted c c1 acts \<Longrightarrow> accounted c c' acts"
  by (simp add: accounted_def)

lemma accounted_log: "accounted c c' acts \<Longrightarrow> accounted c c' (acts @ [LogMessage t])"
  by (auto simp: accounted_def)

lemma recover_accounted:
  assumes "recoverWith a reason tryMigrate c = (c', acts)" "length (qc_pathTransports c) \<le> 2"
    "\<forall>cs. \<forall>d\<in>set (at_dial a cs). \<forall>conn. dt_conn d = Inr conn \<longrightarrow> qc_conn c \<noteq> Some conn"
  shows "accounted c c' acts \<and> length (qc_pathTransports c') \<le> 2"
proof (cases "inBackoff (at_now a) c")
  case True
  with assms(1,2) show ?thesis by (auto simp: recoverWith_def accounted_def)
next
  case False
  obtain c1 acts1 fin where g: "(if tryMigrate \<and> \<not> at_dead a
      then (case migrate a reason c of (c1, acts, e) \<Rightarrow> (c1, acts, e = None)) else (c, [], False)) = (c1, acts1, fin)"
    by (metis prod_cases3)
  have m: "accounted c c1 acts1 \<and> qc_conn c1 = qc_conn c \<and> length (qc_pathTransports c1) \<le> 2"
  proof (cases "tryMigrate \<and> \<not> at_dead a")
    case True
    obtain c2 acts2 e2 where "migrate a reason c = (c2, acts2, e2)" by (metis prod_cases3)
    with migrate_accounted [OF this assms(2)] g True show ?thesis by auto
  next
    case False
    with g assms(2) show ?thesis by (auto simp: accounted_def)
  qed
  show ?thesis
  proof (cases fin)
    case True
    then have "c' = resetBackoff c1" "acts = acts1" using assms(1) False g by (auto simp: recoverWith_def)
    with m show ?thesis by (auto intro: accounted_same)
  next
    case nd: False
    obtain c2 acts2 e2 where r: "reconnect a reason c1 = (c2, acts2, e2)" by (metis prod_cases3)
    have "accounted c1 c2 acts2 \<and> length (qc_pathTransports c2) \<le> 2"
      using reconnect_accounted [OF r] m assms(3) by metis
    then have both: "accounted c c2 (acts1 @ acts2)" "length (qc_pathTransports c2) \<le> 2"
      using accounted_trans m by blast+
    show ?thesis
    proof (cases e2)
      case None
      then have "c' = resetBackoff c2" "acts = acts1 @ acts2"
        using assms(1) False g nd r by (auto simp: recoverWith_def)
      with both show ?thesis by (auto intro: accounted_same)
    next
      case (Some e)
      then obtain t where "c' = fst (bumpBackoff (at_end a) c2)" "acts = (acts1 @ acts2) @ [LogMessage t]"
        using assms(1) False g nd r by (auto simp: recoverWith_def split: prod.splits)
      with accounted_same [OF _ _ accounted_log [OF both(1)]] both(2) show ?thesis by (simp del: append_assoc)
    qed
  qed
qed

lemma failover_accounted:
  assumes "failover a addr silent alts c = (c', acts)" "length (qc_pathTransports c) \<le> 2"
    "\<forall>cs. \<forall>d\<in>set (at_dial a cs). \<forall>conn. dt_conn d = Inr conn \<longrightarrow> qc_conn c \<noteq> Some conn"
  shows "accounted c c' acts \<and> length (qc_pathTransports c') \<le> 2"
proof -
  obtain w fails a1 where d: "dialParallel (at_dial a) alts = (w, fails, a1)" by (metis prod_cases3)
  have o: "\<forall>tr. (OpenTransport tr \<in> set a1 \<longrightarrow> CloseTransportA tr \<in> set a1 \<or> (\<exists>addr conn. w = Some (addr, conn, tr))) \<and>
      RetireTransport tr \<notin> set a1"
    using dial_opens [OF d] by blast
  show ?thesis
  proof (cases "at_tls a = None \<and> w \<noteq> None \<and> qc_state c = StateConnected \<and> qc_connAddr c = addr")
    case False
    with assms(1,2) d o show ?thesis by (auto 0 3 simp: failover_def accounted_def split: if_splits option.splits)
  next
    case True
    then obtain waddr conn tr where w: "w = Some (waddr, conn, tr)" by (cases w) auto
    have new: "qc_conn c \<noteq> Some conn" using dialled_conn [OF d [unfolded w]] assms(3) by blast
    obtain c1 a2 e where ad: "adoptConn a (waddr, conn, tr) c = (c1, a2, e)" by (metis prod_cases3)
    note acc = adopt_accounted [OF ad new]
    show ?thesis
    proof (cases e)
      case None
      with assms(1) True d w ad obtain m1 m2 where
        c': "c' = fst (setState StateConnected m2 (fst (setState StateRecovering m1 (recordRecovery a c1))))"
        and acts: "\<exists>a3. acts = a1 @ a2 @ a3 \<and> (\<forall>x. OpenTransport x \<notin> set a3 \<and> RetireTransport x \<notin> set a3)"
        by (auto simp: failover_def Let_def setState_def)
      from c' acc None have "held c' = {tr}" "qc_conn c' = Some conn" "qc_pathTransports c' = []" by simp_all
      with acts acc None o w new show ?thesis unfolding accounted_def by auto
    next
      case (Some x)
      with assms(1) True d w ad have "c' = c1" "\<exists>t. acts = a1 @ a2 @ [LogMessage t]" by (auto simp: failover_def)
      with acc Some o w assms(2) show ?thesis unfolding accounted_def by auto
    qed
  qed
qed



end
