(* ===== verification/Input_Path.thy ===== *)
theory Input_Path
  imports QServer QClient Session
begin

text \<open>
  The way of input from the client to the pty as one system: SendInput with its speculative datagrams
  (internal/qtransport/client.go), the streams of successive connections, the two readers of the server
  with their deduplication (server.go), the channel to the session, and the goroutine that writes to the
  pty (internal/session/session.go). Datagrams may be lost, repeated and reordered, a connection may end
  at any byte, and the readers of an old connection may outlive the beginning of a new one.
\<close>

section \<open>State\<close>

text \<open>Connections are numbered by their dials. ip_sent and ip_typed, what was written to the stream of a
  connection and to all of them, and ip_moved, what went into the channel, are histories. A reader
  that has deduplicated what it read holds inMu until the channel has taken it (ip_hold). After a failed
  write the stream takes nothing more (ip_broken); of a connection that is cut, what is written later is
  taken and does not arrive (ip_lost).\<close>

record ipath =
  ip_client :: quicClient
  ip_server :: quicServer
  ip_next :: nat
  ip_greeted :: "nat \<Rightarrow> bool"
  ip_sent :: "nat \<Rightarrow> bytes"
  ip_typed :: bytes
  ip_stream :: "nat \<Rightarrow> bytes"
  ip_broken :: "nat \<Rightarrow> bool"
  ip_lost :: "nat \<Rightarrow> bool"
  ip_grams :: "(nat \<times> bytes) list"
  ip_hold :: "nat \<Rightarrow> Input list"
  ip_chan :: "(nat \<times> Input) list"
  ip_moved :: "(nat \<times> bytes) list"
  ip_session :: Session
  ip_pty :: "(nat \<times> bytes) list"

section \<open>Steps\<close>

text \<open>The client sends; when the write fails, k bytes have gone out all the same.\<close>

definition ip_type :: "int \<Rightarrow> err option \<Rightarrow> nat \<Rightarrow> bytes \<Rightarrow> ipath \<Rightarrow> ipath" where
  "ip_type now result k data s =
     (case qc_conn (ip_client s) of
        None \<Rightarrow> s
      | Some i \<Rightarrow>
          if length (ip_sent s i) + length data \<ge> 2 ^ 64 \<or> (result = None \<and> ip_broken s i) then s
          else
            (case SendInput now result data (ip_client s) of
               (c, gram, _) \<Rightarrow>
                 let out = (if result = None then data else if ip_broken s i then [] else take k data) in
                 s\<lparr>ip_client := c, ip_sent := (ip_sent s)(i := ip_sent s i @ out), ip_typed := ip_typed s @ out,
                   ip_stream := (ip_stream s)(i := ip_stream s i @ (if ip_lost s i then [] else out)),
                   ip_broken := (ip_broken s)(i := (ip_broken s i \<or> result \<noteq> None)),
                   ip_grams := ip_grams s @ (case gram of None \<Rightarrow> [] | Some b \<Rightarrow> [(i, b)])\<rparr>))"

text \<open>A dial that won, with what happens while its streams are set up.\<close>

definition ip_adopt :: "attempt \<Rightarrow> string \<Rightarrow> nat \<Rightarrow> ipath \<Rightarrow> ipath" where
  "ip_adopt a addr tr s =
     s\<lparr>ip_client := fst (adoptConn a (addr, ip_next s, tr) (ip_client s)), ip_next := ip_next s + 1\<rparr>"

text \<open>The server takes a connection on with its hello, which is its first frame, and drops it at its
  end. The stream of a connection that is cut delivers k more bytes.\<close>

definition ip_hello :: "nat \<Rightarrow> string \<Rightarrow> first_frame \<Rightarrow> ipath \<Rightarrow> ipath" where
  "ip_hello i addr m s =
     (if i < ip_next s \<and> \<not> ip_greeted s i
      then s\<lparr>ip_server := fst (handle_hello i addr m (ip_server s)), ip_greeted := (ip_greeted s)(i := True)\<rparr>
      else s)"

definition ip_gone :: "nat \<Rightarrow> bool \<Rightarrow> ipath \<Rightarrow> ipath" where
  "ip_gone i x s = s\<lparr>ip_server := fst (conn_ended i x (ip_server s))\<rparr>"

definition ip_cut :: "nat \<Rightarrow> nat \<Rightarrow> ipath \<Rightarrow> ipath" where
  "ip_cut i k s =
     s\<lparr>ip_stream := (ip_stream s)(i := take k (ip_stream s i)), ip_lost := (ip_lost s)(i := True)\<rparr>"

definition inputs :: "server_act list \<Rightarrow> Input list" where
  "inputs acts = concat (map (\<lambda>a. case a of EmitInput inp \<Rightarrow> [inp] | _ \<Rightarrow> []) acts)"

text \<open>One read of at most 4096 bytes, one datagram of those under way (which stays, as it may come
  again): both need inMu, which is free unless something is held.\<close>

definition ip_read :: "int \<Rightarrow> nat \<Rightarrow> nat \<Rightarrow> ipath \<Rightarrow> ipath" where
  "ip_read now i n s =
     (if ip_hold s i \<noteq> [] \<or> map_of (qs_conns (ip_server s)) i = None then s
      else
        let m = min n 4096 in
        (case readInput now i (take m (ip_stream s i)) (ip_server s) of
           (sv, acts) \<Rightarrow> s\<lparr>ip_server := sv, ip_hold := (ip_hold s)(i := inputs acts),
                            ip_stream := (ip_stream s)(i := drop m (ip_stream s i))\<rparr>))"

definition ip_gram :: "int \<Rightarrow> nat \<Rightarrow> ipath \<Rightarrow> ipath" where
  "ip_gram now j s =
     (if j \<ge> length (ip_grams s) then s
      else
        (case ip_grams s ! j of
           (i, b) \<Rightarrow>
             if ip_hold s i \<noteq> [] then s
             else
               (case readInputDatagrams now i b (ip_server s) of
                  (sv, acts) \<Rightarrow> s\<lparr>ip_server := sv, ip_hold := (ip_hold s)(i := inputs acts)\<rparr>)))"

text \<open>The channel has room for 256.\<close>

definition ip_emit :: "nat \<Rightarrow> ipath \<Rightarrow> ipath" where
  "ip_emit i s =
     (case ip_hold s i of
        [] \<Rightarrow> s
      | inp # rest \<Rightarrow>
          if length (ip_chan s) < 256
          then s\<lparr>ip_hold := (ip_hold s)(i := rest), ip_chan := ip_chan s @ [(i, inp)],
                 ip_moved := ip_moved s @ [(i, in_Data inp)]\<rparr>
          else s)"

text \<open>One round of the loop: a write that fails has written k bytes.\<close>

(* internal/session/session.go:559-573 Session.handleTransportInput *)
definition handleTransportInput :: "err option \<Rightarrow> time \<Rightarrow> Input \<Rightarrow> Session \<Rightarrow> Session \<times> session_act list" where
  "handleTransportInput result now inp s = (case WriteInput result now (in_Data inp) s of (s', acts, _) \<Rightarrow> (s', acts))"

(* internal/session/session.go:584-594 Session.handleTransportResize *)
definition handleTransportResize :: "err option \<Rightarrow> Transport_Types.Resize \<Rightarrow> Session \<Rightarrow> Session \<times> session_act list" where
  "handleTransportResize result rz s =
     (case Session.Resize result (rz_Rows rz) (rz_Cols rz) s of (s', acts, _) \<Rightarrow> (s', acts))"

definition ip_deliver :: "err option \<Rightarrow> time \<Rightarrow> nat \<Rightarrow> ipath \<Rightarrow> ipath" where
  "ip_deliver result now k s =
     (case ip_chan s of
        [] \<Rightarrow> s
      | (i, inp) # rest \<Rightarrow>
          (case handleTransportInput result now inp (ip_session s) of
             (se, acts) \<Rightarrow>
               let out = (if acts = [] then [] else if result = None then in_Data inp else take k (in_Data inp)) in
               s\<lparr>ip_session := se, ip_chan := rest, ip_pty := ip_pty s @ [(i, out)]\<rparr>))"

datatype ip_event =
    Typed int "err option" nat bytes
  | Adopted attempt string nat
  | Greeted nat string first_frame
  | Gone nat bool
  | Cut_stream nat nat
  | Read_stream int nat nat
  | Read_gram int nat
  | Emit nat
  | Deliver "err option" time nat
  | Session_closed time

fun ip_on :: "ip_event \<Rightarrow> ipath \<Rightarrow> ipath" where
  "ip_on (Typed now result k data) s = ip_type now result k data s"
| "ip_on (Adopted a addr tr) s = ip_adopt a addr tr s"
| "ip_on (Greeted i addr m) s = ip_hello i addr m s"
| "ip_on (Gone i x) s = ip_gone i x s"
| "ip_on (Cut_stream i k) s = ip_cut i k s"
| "ip_on (Read_stream now i n) s = ip_read now i n s"
| "ip_on (Read_gram now j) s = ip_gram now j s"
| "ip_on (Emit i) s = ip_emit i s"
| "ip_on (Deliver result now k) s = ip_deliver result now k s"
| "ip_on (Session_closed now) s = s\<lparr>ip_session := close_mark now (ip_session s)\<rparr>"

definition ip_run :: "ip_event list \<Rightarrow> ipath \<Rightarrow> ipath" where
  "ip_run es s = fold ip_on es s"

definition ip_start :: "ipath \<Rightarrow> bool" where
  "ip_start s \<longleftrightarrow> qc_conn (ip_client s) = None \<and> qs_conns (ip_server s) = [] \<and> ip_next s = 0 \<and>
     (\<forall>i. \<not> ip_greeted s i \<and> ip_sent s i = [] \<and> ip_stream s i = [] \<and> \<not> ip_broken s i \<and> \<not> ip_lost s i \<and> ip_hold s i = []) \<and>
     ip_typed s = [] \<and> ip_grams s = [] \<and> ip_chan s = [] \<and> ip_moved s = [] \<and> ip_pty s = []"

section \<open>The invariant\<close>

definition bytes_of :: "nat \<Rightarrow> (nat \<times> bytes) list \<Rightarrow> bytes" where
  "bytes_of i ms = concat (map snd (filter (\<lambda>m. fst m = i) ms))"

lemma bytes_of_simps [simp]:
  "bytes_of i [] = []" "bytes_of i (ms @ ns) = bytes_of i ms @ bytes_of i ns"
  "bytes_of i [(j, b)] = (if i = j then b else [])"
  by (simp_all add: bytes_of_def)

definition held_bytes :: "Input list \<Rightarrow> bytes" where
  "held_bytes inps = concat (map in_Data inps)"

text \<open>A connection the server reads: its deduplicator is in step with what was read and handed on.
  One that has not said hello has been read of nothing; of one that is gone, only what was handed on
  matters.\<close>

definition link_inv :: "ipath \<Rightarrow> nat \<Rightarrow> bool" where
  "link_inv s i \<longleftrightarrow>
     (let out = bytes_of i (ip_moved s) @ held_bytes (ip_hold s i); sent = ip_sent s i; left = ip_stream s i in
      prefix out sent \<and> length sent < 2 ^ 64 \<and>
      (\<not> ip_greeted s i \<longrightarrow> map_of (qs_conns (ip_server s)) i = None \<and> out = [] \<and> prefix left sent \<and>
         (\<not> ip_lost s i \<longrightarrow> left = sent)) \<and>
      (\<forall>sc. map_of (qs_conns (ip_server s)) i = Some sc \<longrightarrow>
         (\<exists>seen. dedup_inv sent seen out (sv_inDedup sc) \<and> prefix (seen @ left) sent \<and>
            (\<not> ip_lost s i \<longrightarrow> seen @ left = sent))))"

definition gram_ok :: "ipath \<Rightarrow> nat \<times> bytes \<Rightarrow> bool" where
  "gram_ok s = (\<lambda>(i, b). \<exists>off d. b = encodeInputDatagram off d \<and> off < 2 ^ 64 \<and>
     off + length d \<le> length (ip_sent s i) \<and> datagram_of (ip_sent s i) off d)"

definition pty_ok :: "(nat \<times> bytes) list \<Rightarrow> (nat \<times> Input) list \<Rightarrow> (nat \<times> bytes) list \<Rightarrow> bool" where
  "pty_ok moved chan pty \<longleftrightarrow>
     (\<exists>done. moved = done @ map (\<lambda>(i, inp). (i, in_Data inp)) chan \<and> (\<forall>i. subseq (bytes_of i pty) (bytes_of i done)))"

definition cur_ok :: "ipath \<Rightarrow> nat \<Rightarrow> bool" where
  "cur_ok s i \<longleftrightarrow> i < ip_next s \<and> (\<forall>j>i. ip_sent s j = []) \<and>
     (\<not> ip_broken s i \<longrightarrow> qc_inOffset (ip_client s) = length (ip_sent s i))"

definition ip_inv :: "ipath \<Rightarrow> bool" where
  "ip_inv s \<longleftrightarrow> (\<forall>i. link_inv s i) \<and> (\<forall>g\<in>set (ip_grams s). gram_ok s g) \<and>
     (\<forall>i\<ge>ip_next s. ip_sent s i = [] \<and> \<not> ip_greeted s i) \<and>
     (\<forall>i. qc_conn (ip_client s) = Some i \<longrightarrow> cur_ok s i) \<and>
     ip_typed s = concat (map (ip_sent s) [0..<ip_next s]) \<and> pty_ok (ip_moved s) (ip_chan s) (ip_pty s)"

lemma ip_invI:
  assumes "\<And>i. link_inv s i" "\<And>g. g \<in> set (ip_grams s) \<Longrightarrow> gram_ok s g"
    "\<And>i. ip_next s \<le> i \<Longrightarrow> ip_sent s i = []" "\<And>i. ip_next s \<le> i \<Longrightarrow> \<not> ip_greeted s i"
    "\<And>i. qc_conn (ip_client s) = Some i \<Longrightarrow> cur_ok s i" "ip_typed s = concat (map (ip_sent s) [0..<ip_next s])"
    "pty_ok (ip_moved s) (ip_chan s) (ip_pty s)"
  shows "ip_inv s"
  unfolding ip_inv_def using assms by blast

lemma ip_invD:
  assumes "ip_inv s"
  shows "link_inv s i" "g \<in> set (ip_grams s) \<Longrightarrow> gram_ok s g" "ip_next s \<le> i \<Longrightarrow> ip_sent s i = []"
    "ip_next s \<le> i \<Longrightarrow> \<not> ip_greeted s i" "qc_conn (ip_client s) = Some i \<Longrightarrow> cur_ok s i"
    "ip_typed s = concat (map (ip_sent s) [0..<ip_next s])" "pty_ok (ip_moved s) (ip_chan s) (ip_pty s)"
  using assms unfolding ip_inv_def by blast+

lemma ip_start_inv: "ip_start s \<Longrightarrow> ip_inv s"
  by (rule ip_invI) (auto simp: ip_start_def link_inv_def held_bytes_def Let_def pty_ok_def)

lemma inputs_emit: "inputs (emit_input sc out) = (if out = [] then [] else [\<lparr>in_Client = sv_id sc, in_Data = out\<rparr>])"
  by (simp add: inputs_def emit_input_def)

lemma held_emit [simp]: "held_bytes (inputs (emit_input sc out)) = out"
  by (simp add: inputs_emit held_bytes_def)

lemma held_Nil [simp]: "held_bytes [] = []"
  by (simp add: held_bytes_def)

lemma dedup_inv_grow: "dedup_inv sent seen out d \<Longrightarrow> dedup_inv (sent @ ext) seen out d"
  by (auto simp: dedup_inv_def)

lemma gram_ok_grow:
  assumes "gram_ok s g" "ip_sent s' = (ip_sent s)(i := ip_sent s i @ ext)"
  shows "gram_ok s' g"
proof -
  obtain j b where g: "g = (j, b)" by force
  then obtain off d where o: "b = encodeInputDatagram off d" "off < 2 ^ 64" "off + length d \<le> length (ip_sent s j)"
    "datagram_of (ip_sent s j) off d"
    using assms(1) by (auto simp: gram_ok_def)
  have "datagram_of (ip_sent s j @ ext) off d"
    if "datagram_of (ip_sent s j) off d" "off + length d \<le> length (ip_sent s j)" for off d
    using that by (simp add: datagram_of_def)
  with o have "datagram_of (ip_sent s' j) off d" "off + length d \<le> length (ip_sent s' j)"
    by (auto simp: assms(2))
  with g o(1,2) show ?thesis unfolding gram_ok_def by blast
qed

text \<open>What changes nothing but one connection.\<close>

lemma concat_map_upd:
  assumes "i < n" "\<forall>j>i. f j = []"
  shows "concat (map (f(i := f i @ ext)) [0..<n]) = concat (map f [0..<n]) @ ext"
proof -
  have s: "[0..<n] = [0..<i] @ i # [Suc i..<n]"
    using assms(1) upt_add_eq_append [of 0 i "n - i"] by (simp add: upt_conv_Cons)
  have m: "map (f(i := f i @ ext)) [0..<i] = map f [0..<i]" by simp
  have z: "concat (map f [Suc i..<n]) = []" "concat (map (f(i := f i @ ext)) [Suc i..<n]) = []"
    using assms(2) by (auto simp: concat_eq_Nil_conv)
  show ?thesis by (simp add: s m z del: fun_upd_apply upt_Suc) simp
qed

lemma link_inv_cong:
  assumes "link_inv s i" "bytes_of i (ip_moved s') = bytes_of i (ip_moved s)" "ip_hold s' i = ip_hold s i"
    "ip_sent s' i = ip_sent s i" "ip_stream s' i = ip_stream s i" "ip_greeted s' i = ip_greeted s i"
    "ip_lost s' i = ip_lost s i" "map_of (qs_conns (ip_server s')) i = map_of (qs_conns (ip_server s)) i"
  shows "link_inv s' i"
  using assms unfolding link_inv_def Let_def by simp

lemma SendInput_fields:
  assumes "SendInput now result data c = (c', gram, r)"
  shows "qc_conn c' = qc_conn c"
    "qc_inOffset c' = (if result = None then (qc_inOffset c + length data) mod 2 ^ 64 else qc_inOffset c)"
    "gram = Some b \<Longrightarrow> result = None \<and> b = encodeInputDatagram (qc_inOffset c) data"
  using assms by (auto simp: SendInput_def resetBackoffByInput_def resetBackoff_def split: option.splits if_splits)

lemma link_inv_send:
  assumes "link_inv s i" "ip_sent s' i = ip_sent s i @ out" "length (ip_sent s i @ out) < 2 ^ 64"
    "ip_stream s' i = ip_stream s i @ (if ip_lost s i then [] else out)" "ip_moved s' = ip_moved s" "ip_hold s' i = ip_hold s i"
    "ip_greeted s' i = ip_greeted s i" "ip_lost s' i = ip_lost s i" "ip_server s' = ip_server s"
  shows "link_inv s' i"
proof -
  have app: "prefix (xs @ ys) (ip_sent s i @ out)" if "prefix xs (ip_sent s i)" "ys = [] \<or> xs = ip_sent s i \<and> ys = out" for xs ys
    using that by auto
  show ?thesis
    unfolding link_inv_def Let_def assms(2,4-9)
  proof (intro conjI allI impI)
    fix sc assume sc: "map_of (qs_conns (ip_server s)) i = Some sc"
    then obtain seen where "dedup_inv (ip_sent s i) seen (bytes_of i (ip_moved s) @ held_bytes (ip_hold s i)) (sv_inDedup sc)"
      "prefix (seen @ ip_stream s i) (ip_sent s i)" "\<not> ip_lost s i \<longrightarrow> seen @ ip_stream s i = ip_sent s i"
      using assms(1) by (auto simp: link_inv_def Let_def)
    then show "\<exists>seen. dedup_inv (ip_sent s i @ out) seen (bytes_of i (ip_moved s) @ held_bytes (ip_hold s i)) (sv_inDedup sc) \<and>
        prefix (seen @ ip_stream s i @ (if ip_lost s i then [] else out)) (ip_sent s i @ out) \<and>
        (\<not> ip_lost s i \<longrightarrow> seen @ ip_stream s i @ (if ip_lost s i then [] else out) = ip_sent s i @ out)"
      using dedup_inv_grow by (intro exI [of _ seen]) (auto simp flip: append_assoc)
  qed (use assms(1,3) in \<open>auto simp: link_inv_def Let_def\<close>)
qed

lemma ip_type_inv:
  assumes "ip_inv s"
  shows "ip_inv (ip_type now result k data s)"
proof (cases "qc_conn (ip_client s)")
  case (Some i)
  show ?thesis
  proof (cases "length (ip_sent s i) + length data \<ge> 2 ^ 64 \<or> (result = None \<and> ip_broken s i)")
    case False
    obtain c gram r where si: "SendInput now result data (ip_client s) = (c, gram, r)" by (metis prod_cases3)
    note f = SendInput_fields [OF si]
    let ?out = "if result = None then data else if ip_broken s i then [] else take k data"
    define s1 where "s1 = ip_type now result k data s"
    have s': "s1 = s\<lparr>ip_client := c, ip_sent := (ip_sent s)(i := ip_sent s i @ ?out), ip_typed := ip_typed s @ ?out,
        ip_stream := (ip_stream s)(i := ip_stream s i @ (if ip_lost s i then [] else ?out)),
        ip_broken := (ip_broken s)(i := (ip_broken s i \<or> result \<noteq> None)),
        ip_grams := ip_grams s @ (case gram of None \<Rightarrow> [] | Some b \<Rightarrow> [(i, b)])\<rparr>"
      by (simp only: s1_def ip_type_def Some option.case False if_False si prod.case Let_def)
    have i: "i < ip_next s" "\<forall>j>i. ip_sent s j = []" "\<not> ip_broken s i \<longrightarrow> qc_inOffset (ip_client s) = length (ip_sent s i)"
      using ip_invD(5) [OF assms Some] by (auto simp: cur_ok_def)
    have len: "length (ip_sent s i @ ?out) < 2 ^ 64" using False by auto
    note L = ip_invD(1) [OF assms]
    have links: "link_inv s1 j" for j
    proof (cases "j = i")
      case True
      show ?thesis unfolding True
        by (rule link_inv_send [OF L _ len]) (simp_all add: s')
    next
      case False
      then show ?thesis by (intro link_inv_cong [OF L]) (simp_all add: s')
    qed
    have "gram_ok s1 g" if "g \<in> set (ip_grams s1)" for g
    proof (cases "g \<in> set (ip_grams s)")
      case True
      then have "gram_ok s g" by (rule ip_invD(2) [OF assms])
      then show ?thesis by (rule gram_ok_grow) (simp add: s')
    next
      case False
      then have "gram = Some (snd g)" "fst g = i" using that by (auto simp: s' split: option.splits)
      with f(3) have g: "result = None" "g = (i, encodeInputDatagram (qc_inOffset (ip_client s)) data)" by (auto simp: prod_eq_iff)
      have "ip_sent s1 i = ip_sent s i @ data" by (simp add: s' g(1))
      moreover have "qc_inOffset (ip_client s) = length (ip_sent s i)" "length (ip_sent s i) < 2 ^ 64"
        using len i(3) \<open>\<not> (length (ip_sent s i) + length data \<ge> 2 ^ 64 \<or> (result = None \<and> ip_broken s i))\<close> g(1) by auto
      ultimately show ?thesis using g unfolding gram_ok_def datagram_of_def
        by (auto intro!: exI [of _ "length (ip_sent s i)"] exI [of _ data])
    qed
    moreover have "concat (map (ip_sent s1) [0..<ip_next s1]) = ip_typed s1"
      using concat_map_upd [OF i(1,2), of ?out] ip_invD(6) [OF assms] by (simp add: s')
    moreover have "\<not> ip_broken s1 i \<longrightarrow> qc_inOffset (ip_client s1) = length (ip_sent s1 i)"
      using i(3) f(2) False by (auto simp: s')
    moreover have "cur_ok s1 j" if "qc_conn (ip_client s1) = Some j" for j
      using that f(1) Some i(1,2) calculation(3) by (simp add: cur_ok_def s')
    ultimately have "ip_inv s1"
    proof (intro ip_invI)
      show "ip_sent s1 j = []" "\<not> ip_greeted s1 j" if "ip_next s1 \<le> j" for j
        using that ip_invD(3,4) [OF assms, of j] i(1) by (simp_all add: s')
      show "pty_ok (ip_moved s1) (ip_chan s1) (ip_pty s1)" using ip_invD(7) [OF assms] by (simp add: s')
    qed (use links in auto)
    then show ?thesis by (simp only: s1_def)
  next
    case True
    with assms Some show ?thesis unfolding ip_type_def by (simp only: option.case if_True)
  qed
qed (use assms in \<open>simp add: ip_type_def\<close>)

lemma ip_adopt_inv:
  assumes "ip_inv s"
  shows "ip_inv (ip_adopt a addr tr s)"
proof -
  let ?s = "ip_adopt a addr tr s"
  have c: "qc_conn (ip_client ?s) = qc_conn (ip_client s) \<and> qc_inOffset (ip_client ?s) = qc_inOffset (ip_client s) \<or>
      qc_conn (ip_client ?s) = Some (ip_next s) \<and> qc_inOffset (ip_client ?s) = 0"
    by (simp add: ip_adopt_def adoptConn_def Let_def split: option.splits)
  have r: "ip_next ?s = ip_next s + 1" "ip_sent ?s = ip_sent s" "ip_typed ?s = ip_typed s" "ip_grams ?s = ip_grams s"
    "ip_greeted ?s = ip_greeted s" "ip_broken ?s = ip_broken s" "ip_moved ?s = ip_moved s" "ip_chan ?s = ip_chan s"
    "ip_pty ?s = ip_pty s"
    by (simp_all add: ip_adopt_def)
  show ?thesis
  proof (rule ip_invI)
    show "link_inv ?s i" for i
      by (rule link_inv_cong [OF ip_invD(1) [OF assms]]) (simp_all add: ip_adopt_def)
    have "gram_ok ?s = gram_ok s" by (simp add: gram_ok_def r)
    then show "gram_ok ?s g" if "g \<in> set (ip_grams ?s)" for g using that ip_invD(2) [OF assms] by (simp add: r)
    show "ip_sent ?s i = []" "\<not> ip_greeted ?s i" if "ip_next ?s \<le> i" for i
      using that ip_invD(3,4) [OF assms, of i] by (simp_all add: r)
    show "cur_ok ?s i" if "qc_conn (ip_client ?s) = Some i" for i
      using c
    proof (elim disjE conjE)
      assume "qc_conn (ip_client ?s) = qc_conn (ip_client s)" "qc_inOffset (ip_client ?s) = qc_inOffset (ip_client s)"
      then show ?thesis using ip_invD(5) [OF assms, of i] that by (auto simp: cur_ok_def r)
    next
      assume "qc_conn (ip_client ?s) = Some (ip_next s)" "qc_inOffset (ip_client ?s) = 0"
      then show ?thesis using ip_invD(3) [OF assms] that by (auto simp: cur_ok_def r)
    qed
    show "ip_typed ?s = concat (map (ip_sent ?s) [0..<ip_next ?s])"
      using ip_invD(3) [OF assms, of "ip_next s"] ip_invD(6) [OF assms] by (simp add: r)
    show "pty_ok (ip_moved ?s) (ip_chan ?s) (ip_pty ?s)" using ip_invD(7) [OF assms] by (simp add: r)
  qed
qed

text \<open>What a reader does to its connection.\<close>

lemma ip_inv_reader:
  assumes "ip_inv s" "link_inv s' i" "\<And>j. j \<noteq> i \<Longrightarrow> map_of (qs_conns (ip_server s')) j = map_of (qs_conns (ip_server s)) j"
    "\<And>j. j \<noteq> i \<Longrightarrow> ip_hold s' j = ip_hold s j" "\<And>j. j \<noteq> i \<Longrightarrow> ip_stream s' j = ip_stream s j"
    "\<And>j. j \<noteq> i \<Longrightarrow> ip_lost s' j = ip_lost s j" "\<And>j. j \<noteq> i \<Longrightarrow> ip_greeted s' j = ip_greeted s j"
    "ip_greeted s' i \<longrightarrow> i < ip_next s \<or> ip_greeted s i"
    "ip_client s' = ip_client s" "ip_next s' = ip_next s" "ip_sent s' = ip_sent s" "ip_typed s' = ip_typed s"
    "ip_broken s' = ip_broken s" "ip_grams s' = ip_grams s" "ip_chan s' = ip_chan s" "ip_moved s' = ip_moved s"
    "ip_pty s' = ip_pty s"
  shows "ip_inv s'"
proof -
  show ?thesis
  proof (rule ip_invI)
    show "link_inv s' j" for j
      using assms(2) by (cases "j = i") (auto simp: assms(3-17) intro: link_inv_cong [OF ip_invD(1) [OF assms(1)]])
    have "gram_ok s' = gram_ok s" by (simp add: gram_ok_def assms(11))
    then show "gram_ok s' g" if "g \<in> set (ip_grams s')" for g using that ip_invD(2) [OF assms(1)] by (simp add: assms(14))
    show "ip_sent s' j = []" "\<not> ip_greeted s' j" if "ip_next s' \<le> j" for j
      using assms(7,8) that ip_invD(3,4) [OF assms(1), of j] unfolding assms(10,11) by (cases "j = i"; auto)+
    show "cur_ok s' j" if "qc_conn (ip_client s') = Some j" for j
      using that ip_invD(5) [OF assms(1)] by (simp add: cur_ok_def assms(9-13))
    show "ip_typed s' = concat (map (ip_sent s') [0..<ip_next s'])" "pty_ok (ip_moved s') (ip_chan s') (ip_pty s')"
      using ip_invD(6,7) [OF assms(1)] by (simp_all add: assms(10-12,15-17))
  qed
qed

lemma ip_read_inv:
  assumes "ip_inv s"
  shows "ip_inv (ip_read now i n s)"
proof (cases "ip_hold s i \<noteq> [] \<or> map_of (qs_conns (ip_server s)) i = None")
  case True
  then show ?thesis using assms unfolding ip_read_def by (simp only: if_True)
next
  case False
  then obtain sc where sc: "map_of (qs_conns (ip_server s)) i = Some sc" and h: "ip_hold s i = []" by auto
  let ?b = "take (min n 4096) (ip_stream s i)"
  let ?f = "\<lambda>x. x\<lparr>sv_lastRecvNano := now, sv_inDedup := fst (fromStream ?b (sv_inDedup sc))\<rparr>"
  note L = ip_invD(1) [OF assms, of i]
  then obtain seen where seen: "dedup_inv (ip_sent s i) seen (bytes_of i (ip_moved s)) (sv_inDedup sc)"
    "prefix (seen @ ip_stream s i) (ip_sent s i)" "\<not> ip_lost s i \<longrightarrow> seen @ ip_stream s i = ip_sent s i"
    and len: "length (ip_sent s i) < 2 ^ 64" and g: "ip_greeted s i"
    using sc h by (auto simp: link_inv_def Let_def)
  show ?thesis
  proof (cases "?b = []")
    case True
    have "ip_read now i n s = s\<lparr>ip_stream := (ip_stream s)(i := drop (min n 4096) (ip_stream s i))\<rparr>"
      using False sc True h by (simp add: ip_read_def readInput_def inputs_def Let_def fun_upd_idem)
    moreover have "drop (min n 4096) (ip_stream s i) = ip_stream s i" using True by auto
    ultimately show ?thesis using assms by (simp add: fun_upd_idem)
  next
    case False
    define s1 where "s1 = ip_read now i n s"
    have s': "s1 = s\<lparr>ip_server := on_conn i ?f (ip_server s),
        ip_hold := (ip_hold s)(i := inputs (emit_input sc (snd (fromStream ?b (sv_inDedup sc))))),
        ip_stream := (ip_stream s)(i := drop (min n 4096) (ip_stream s i))\<rparr>"
      using False sc h
      by (simp add: s1_def ip_read_def readInput_def Let_def case_prod_beta del: take_eq_Nil take_eq_Nil2)
    have sk: "?b @ drop (min n 4096) (ip_stream s i) = ip_stream s i" by (rule append_take_drop_id)
    have p: "prefix (seen @ ?b) (ip_sent s i)"
      using seen(2) sk by (metis append.assoc append_prefixD)
    note d = fromStream_inv [OF seen(1) p len]
    have "link_inv s1 i"
      using d seen(2,3) sk g len unfolding link_inv_def Let_def
      by (auto simp: s' map_of_on_conn sc h intro!: exI [of _ "seen @ ?b"]) (auto simp: dedup_inv_def take_is_prefix)
    then have "ip_inv s1"
      by (intro ip_inv_reader [OF assms]) (auto simp: s' map_of_on_conn g)
    then show ?thesis by (simp only: s1_def)
  qed
qed

lemma ip_gram_inv:
  assumes "ip_inv s"
  shows "ip_inv (ip_gram now j s)"
proof (cases "j \<ge> length (ip_grams s)")
  case False
  obtain i b where g: "ip_grams s ! j = (i, b)" by force
  then have "gram_ok s (i, b)" using ip_invD(2) [OF assms, of "(i, b)"] False by (metis not_le nth_mem)
  then obtain off d where b: "b = encodeInputDatagram off d" "off < 2 ^ 64" "datagram_of (ip_sent s i) off d"
    by (auto simp: gram_ok_def)
  show ?thesis
  proof (cases "ip_hold s i \<noteq> []")
    case True
    then show ?thesis using assms False g by (simp add: ip_gram_def)
  next
    case h: False
    show ?thesis
    proof (cases "map_of (qs_conns (ip_server s)) i")
      case None
      then show ?thesis using assms False g h by (simp add: ip_gram_def readInputDatagrams_def inputs_def fun_upd_idem)
    next
      case (Some sc)
      let ?f = "\<lambda>x. x\<lparr>sv_lastRecvNano := now, sv_inDedup := fst (fromDatagram off d (sv_inDedup sc))\<rparr>"
      define s1 where "s1 = ip_gram now j s"
      have s': "s1 = s\<lparr>ip_server := on_conn i ?f (ip_server s),
          ip_hold := (ip_hold s)(i := inputs (emit_input sc (snd (fromDatagram off d (sv_inDedup sc)))))\<rparr>"
        using False h by (simp add: s1_def ip_gram_def g Some readInputDatagrams_def b(1) decode_encode_datagram [OF b(2)] case_prod_beta)
      obtain seen where seen: "dedup_inv (ip_sent s i) seen (bytes_of i (ip_moved s)) (sv_inDedup sc)"
        "prefix (seen @ ip_stream s i) (ip_sent s i)" "\<not> ip_lost s i \<longrightarrow> seen @ ip_stream s i = ip_sent s i"
        and len: "length (ip_sent s i) < 2 ^ 64" and gr: "ip_greeted s i"
        using ip_invD(1) [OF assms, of i] Some h by (auto simp: link_inv_def Let_def)
      note dd = fromDatagram_inv [OF seen(1) b(3) len]
      have "link_inv s1 i"
        using dd seen(2,3) gr len unfolding link_inv_def Let_def
        by (auto simp: s' map_of_on_conn Some intro!: exI [of _ seen]) (auto simp: dedup_inv_def take_is_prefix)
      then have "ip_inv s1"
        by (intro ip_inv_reader [OF assms]) (auto simp: s' map_of_on_conn gr)
      then show ?thesis by (simp only: s1_def)
    qed
  qed
qed (use assms in \<open>simp add: ip_gram_def\<close>)

lemma drop_client_conns [simp]: "qs_conns (drop_client cid sc s) = qs_conns s"
  by (simp add: drop_client_def Let_def)

lemma ip_hello_inv:
  assumes "ip_inv s"
  shows "ip_inv (ip_hello i addr m s)"
proof (cases "i < ip_next s \<and> \<not> ip_greeted s i")
  case True
  define s1 where "s1 = ip_hello i addr m s"
  have s': "s1 = s\<lparr>ip_server := fst (handle_hello i addr m (ip_server s)), ip_greeted := (ip_greeted s)(i := True)\<rparr>"
    using True by (simp add: s1_def ip_hello_def)
  have L: "map_of (qs_conns (ip_server s)) i = None" "bytes_of i (ip_moved s) @ held_bytes (ip_hold s i) = []"
    "prefix (ip_stream s i) (ip_sent s i)" "\<not> ip_lost s i \<longrightarrow> ip_stream s i = ip_sent s i" "length (ip_sent s i) < 2 ^ 64"
    using ip_invD(1) [OF assms, of i] True by (auto simp: link_inv_def Let_def)
  have c: "map_of (qs_conns (ip_server s1)) j = map_of (qs_conns (ip_server s)) j" if "j \<noteq> i" for j
    using that by (simp add: s' handle_hello_def Let_def update_conv' split: first_frame.splits prod.splits)
  have n: "sv_inDedup sc = new_deduper" if "map_of (qs_conns (ip_server s1)) i = Some sc" for sc
    using that L(1) by (auto simp: s' handle_hello_def Let_def update_conv' new_client_def split: first_frame.splits prod.splits if_splits)
  have "\<exists>seen. dedup_inv (ip_sent s i) seen [] (sv_inDedup sc) \<and> prefix (seen @ ip_stream s i) (ip_sent s i) \<and>
      (\<not> ip_lost s i \<longrightarrow> seen @ ip_stream s i = ip_sent s i)" if "map_of (qs_conns (ip_server s1)) i = Some sc" for sc
    using L n [OF that] dedup_inv_init by (intro exI [of _ "[]"]) auto
  then have "link_inv s1 i"
    using L(2,5) unfolding link_inv_def Let_def by (simp add: s')
  then have "ip_inv s1"
    by (intro ip_inv_reader [OF assms]) (use c True in \<open>auto simp: s'\<close>)
  then show ?thesis by (simp only: s1_def)
qed (use assms in \<open>auto simp: ip_hello_def\<close>)

lemma ip_gone_inv:
  assumes "ip_inv s"
  shows "ip_inv (ip_gone i x s)"
proof -
  define s1 where "s1 = ip_gone i x s"
  have s': "s1 = s\<lparr>ip_server := fst (conn_ended i x (ip_server s))\<rparr>" by (simp add: s1_def ip_gone_def)
  have c: "map_of (qs_conns (ip_server s1)) j = (if j = i then None else map_of (qs_conns (ip_server s)) j)" for j
    by (auto simp: s' conn_ended_def Let_def delete_conv' split: option.splits)
  have "link_inv s1 i"
    using ip_invD(1) [OF assms, of i] c [of i] unfolding link_inv_def Let_def by (simp add: s')
  then have "ip_inv s1" by (intro ip_inv_reader [OF assms]) (use c in \<open>auto simp: s'\<close>)
  then show ?thesis by (simp only: s1_def)
qed

lemma ip_cut_inv:
  assumes "ip_inv s"
  shows "ip_inv (ip_cut i k s)"
proof -
  define s1 where "s1 = ip_cut i k s"
  have s': "s1 = s\<lparr>ip_stream := (ip_stream s)(i := take k (ip_stream s i)), ip_lost := (ip_lost s)(i := True)\<rparr>"
    by (simp add: s1_def ip_cut_def)
  have p: "prefix (xs @ take k (ip_stream s i)) (ip_sent s i)" if "prefix (xs @ ip_stream s i) (ip_sent s i)" for xs
    using that by (metis append_prefixD append_take_drop_id append.assoc)
  have "link_inv s1 i"
    using ip_invD(1) [OF assms, of i] p p [of "[]"] unfolding link_inv_def Let_def by (simp add: s') blast
  then have "ip_inv s1" by (intro ip_inv_reader [OF assms]) (auto simp: s')
  then show ?thesis by (simp only: s1_def)
qed

lemma ip_emit_inv:
  assumes "ip_inv s"
  shows "ip_inv (ip_emit i s)"
proof (cases "ip_hold s i = [] \<or> length (ip_chan s) \<ge> 256")
  case False
  then obtain inp rest where h: "ip_hold s i = inp # rest" by (cases "ip_hold s i") auto
  define s1 where "s1 = ip_emit i s"
  have s': "s1 = s\<lparr>ip_hold := (ip_hold s)(i := rest), ip_chan := ip_chan s @ [(i, inp)], ip_moved := ip_moved s @ [(i, in_Data inp)]\<rparr>"
    using False by (simp add: s1_def ip_emit_def h)
  have "ip_inv s1"
  proof (rule ip_invI)
    show "link_inv s1 j" for j
    proof (cases "j = i")
      case True
      then show ?thesis using ip_invD(1) [OF assms, of i] unfolding link_inv_def Let_def by (simp add: s' h held_bytes_def)
    next
      case False
      then show ?thesis by (intro link_inv_cong [OF ip_invD(1) [OF assms]]) (simp_all add: s')
    qed
    have "gram_ok s1 = gram_ok s" by (simp add: gram_ok_def s')
    then show "gram_ok s1 g" if "g \<in> set (ip_grams s1)" for g using that ip_invD(2) [OF assms] by (simp add: s')
    show "cur_ok s1 j" if "qc_conn (ip_client s1) = Some j" for j
      using that ip_invD(5) [OF assms] by (simp add: cur_ok_def s')
    obtain dn where "ip_moved s = dn @ map (\<lambda>(i, inp). (i, in_Data inp)) (ip_chan s)"
      "\<forall>i. subseq (bytes_of i (ip_pty s)) (bytes_of i dn)"
      using ip_invD(7) [OF assms] by (auto simp: pty_ok_def)
    then show "pty_ok (ip_moved s1) (ip_chan s1) (ip_pty s1)"
      unfolding pty_ok_def by (intro exI [of _ dn]) (simp add: s')
  qed (use ip_invD(3,4,6) [OF assms] in \<open>simp_all add: s'\<close>)
  then show ?thesis by (simp only: s1_def)
next
  case True
  then show ?thesis using assms by (auto simp: ip_emit_def split: list.splits)
qed

lemma ip_deliver_inv:
  assumes "ip_inv s"
  shows "ip_inv (ip_deliver result now k s)"
proof (cases "ip_chan s")
  case (Cons x rest)
  obtain i inp where x: "x = (i, inp)" by force
  obtain se acts where w: "handleTransportInput result now inp (ip_session s) = (se, acts)" by force
  define out where "out = (if acts = [] then [] else if result = None then in_Data inp else take k (in_Data inp))"
  define s1 where "s1 = ip_deliver result now k s"
  have s': "s1 = s\<lparr>ip_session := se, ip_chan := rest, ip_pty := ip_pty s @ [(i, out)]\<rparr>"
    by (simp add: s1_def ip_deliver_def Cons x w out_def Let_def)
  have sub: "subseq out (in_Data inp)"
    by (simp add: out_def prefix_imp_subseq take_is_prefix)
  have "ip_inv s1"
  proof (rule ip_invI)
    show "link_inv s1 j" for j
      by (rule link_inv_cong [OF ip_invD(1) [OF assms]]) (simp_all add: s')
    have "gram_ok s1 = gram_ok s" by (simp add: gram_ok_def s')
    then show "gram_ok s1 g" if "g \<in> set (ip_grams s1)" for g using that ip_invD(2) [OF assms] by (simp add: s')
    show "cur_ok s1 j" if "qc_conn (ip_client s1) = Some j" for j
      using that ip_invD(5) [OF assms] by (simp add: cur_ok_def s')
    obtain dn where dn: "ip_moved s = dn @ map (\<lambda>(i, inp). (i, in_Data inp)) (ip_chan s)"
      "subseq (bytes_of j (ip_pty s)) (bytes_of j dn)" for j
      using ip_invD(7) [OF assms] by (auto simp: pty_ok_def)
    have "subseq (bytes_of j (ip_pty s @ [(i, out)])) (bytes_of j (dn @ [(i, in_Data inp)]))" for j
      using sub dn(2) [of j] by (simp add: list_emb_append_mono)
    with dn(1) show "pty_ok (ip_moved s1) (ip_chan s1) (ip_pty s1)"
      unfolding pty_ok_def by (intro exI [of _ "dn @ [(i, in_Data inp)]"]) (simp add: s' Cons x)
  qed (use ip_invD(3,4,6) [OF assms] in \<open>simp_all add: s'\<close>)
  then show ?thesis by (simp only: s1_def)
qed (use assms in \<open>simp add: ip_deliver_def\<close>)

lemma ip_session_inv:
  assumes "ip_inv s"
  shows "ip_inv (s\<lparr>ip_session := se\<rparr>)"
proof -
  define s1 where "s1 = s\<lparr>ip_session := se\<rparr>"
  have "ip_inv s1"
  proof (rule ip_invI)
    show "link_inv s1 j" for j by (rule link_inv_cong [OF ip_invD(1) [OF assms]]) (simp_all add: s1_def)
    have "gram_ok s1 = gram_ok s" by (simp add: gram_ok_def s1_def)
    then show "gram_ok s1 g" if "g \<in> set (ip_grams s1)" for g using that ip_invD(2) [OF assms] by (simp add: s1_def)
    show "cur_ok s1 j" if "qc_conn (ip_client s1) = Some j" for j
      using that ip_invD(5) [OF assms] by (simp add: cur_ok_def s1_def)
  qed (use ip_invD(3,4,6,7) [OF assms] in \<open>simp_all add: s1_def\<close>)
  then show ?thesis by (simp only: s1_def)
qed

lemma ip_on_inv: "ip_inv s \<Longrightarrow> ip_inv (ip_on e s)"
  by (cases e) (simp_all add: ip_type_inv ip_adopt_inv ip_hello_inv ip_gone_inv ip_cut_inv ip_read_inv ip_gram_inv
      ip_emit_inv ip_deliver_inv ip_session_inv)

lemma ip_run_inv: "ip_inv s \<Longrightarrow> ip_inv (ip_run es s)"
  unfolding ip_run_def by (induction es arbitrary: s) (auto intro: ip_on_inv)

section \<open>Calm runs\<close>

text \<open>A run is calm when no reader of an older connection hands on what it holds after one of a newer
  connection has done so, every write to the pty succeeds, and the session is not closed.\<close>

fun calm_step :: "ip_event \<Rightarrow> ipath \<Rightarrow> bool" where
  "calm_step (Emit i) s \<longleftrightarrow> (\<forall>m\<in>set (ip_moved s). fst m \<le> i)"
| "calm_step (Deliver result now k) s \<longleftrightarrow> result = None"
| "calm_step (Session_closed now) s \<longleftrightarrow> False"
| "calm_step e s \<longleftrightarrow> True"

fun ip_calm :: "ipath \<Rightarrow> ip_event list \<Rightarrow> bool" where
  "ip_calm s [] \<longleftrightarrow> True"
| "ip_calm s (e # es) \<longleftrightarrow> calm_step e s \<and> ip_calm (ip_on e s) es"

definition pty_open :: "ipath \<Rightarrow> bool" where
  "pty_open s \<longleftrightarrow> \<not> ptyClosed (ip_session s) \<and> ptyMaster (ip_session s)"

definition chan_bytes :: "(nat \<times> Input) list \<Rightarrow> (nat \<times> bytes) list" where
  "chan_bytes ch = map (\<lambda>(i, inp). (i, in_Data inp)) ch"

lemma chan_bytes_simps [simp]: "chan_bytes [] = []" "chan_bytes ((i, inp) # ch) = (i, in_Data inp) # chan_bytes ch"
  "chan_bytes (ch @ ch') = chan_bytes ch @ chan_bytes ch'"
  by (simp_all add: chan_bytes_def)

definition calm_inv :: "ipath \<Rightarrow> bool" where
  "calm_inv s \<longleftrightarrow> pty_open s \<and> sorted (map fst (ip_moved s)) \<and>
     ip_pty s @ chan_bytes (ip_chan s) = ip_moved s"

lemma calm_inv_cong:
  "\<lbrakk>calm_inv s; ip_session s' = ip_session s; ip_moved s' = ip_moved s; ip_pty s' = ip_pty s; ip_chan s' = ip_chan s\<rbrakk>
     \<Longrightarrow> calm_inv s'"
  by (simp add: calm_inv_def pty_open_def)

lemma calm_other:
  assumes "\<And>i. e \<noteq> Emit i" "\<And>r now k. e \<noteq> Deliver r now k" "\<And>now. e \<noteq> Session_closed now"
  shows "ip_session (ip_on e s) = ip_session s \<and> ip_moved (ip_on e s) = ip_moved s \<and>
    ip_pty (ip_on e s) = ip_pty s \<and> ip_chan (ip_on e s) = ip_chan s"
  by (cases e; (use assms in blast | simp add: ip_type_def ip_adopt_def ip_hello_def ip_gone_def ip_cut_def ip_read_def
      ip_gram_def Let_def split: option.splits prod.splits if_splits)?)

lemma calm_emit: "\<lbrakk>calm_inv s; calm_step (Emit i) s\<rbrakk> \<Longrightarrow> calm_inv (ip_on (Emit i) s)"
  by (cases "ip_hold s i") (simp_all add: calm_inv_def pty_open_def ip_emit_def sorted_append flip: append_assoc)

lemma calm_deliver: "calm_inv s \<Longrightarrow> calm_inv (ip_on (Deliver None now k) s)"
  by (cases "ip_chan s")
    (auto simp: calm_inv_def pty_open_def ip_deliver_def handleTransportInput_def WriteInput_def Let_def)

lemma calm_step_inv: "\<lbrakk>calm_inv s; calm_step e s\<rbrakk> \<Longrightarrow> calm_inv (ip_on e s)"
  by (cases e) (auto intro: calm_emit calm_deliver calm_inv_cong simp del: ip_on.simps simp: calm_other)

lemma calm_run_inv: "\<lbrakk>calm_inv s; ip_calm s es\<rbrakk> \<Longrightarrow> calm_inv (ip_run es s)"
  unfolding ip_run_def by (induction es arbitrary: s) (auto intro: calm_step_inv)

lemma sorted_bytes:
  assumes "sorted (map fst ms)" "\<forall>m\<in>set ms. fst m < n \<or> snd m = []"
  shows "concat (map snd ms) = concat (map (\<lambda>i. bytes_of i ms) [0..<n])"
  using assms
proof (induction ms rule: rev_induct)
  case (snoc m ms)
  obtain i b where m: "m = (i, b)" by force
  have IH: "concat (map snd ms) = concat (map (\<lambda>i. bytes_of i ms) [0..<n])"
    using snoc by (simp add: sorted_append)
  have upd: "(\<lambda>j. bytes_of j (ms @ [m])) = (\<lambda>j. bytes_of j ms)(i := bytes_of i ms @ b)"
    by (auto simp: m fun_eq_iff)
  have later: "bytes_of j ms = []" if "j > i" for j
    using snoc.prems(1) that by (force simp: m bytes_of_def sorted_append concat_eq_Nil_conv)
  show ?case
  proof (cases "i < n")
    case True
    have "concat (map (\<lambda>j. bytes_of j (ms @ [m])) [0..<n]) = concat (map (\<lambda>j. bytes_of j ms) [0..<n]) @ b"
      unfolding upd by (rule concat_map_upd [OF True]) (use later in blast)
    then show ?thesis by (simp add: IH m)
  next
    case False
    then have "b = []" using snoc.prems(2) by (auto simp: m)
    then show ?thesis by (simp add: IH m)
  qed
qed (simp add: concat_eq_Nil_conv)

section \<open>Properties\<close>

lemma moved_prefix:
  assumes "ip_inv s"
  shows "prefix (bytes_of i (ip_moved s)) (ip_sent s i)"
  using ip_invD(1) [OF assms, of i] unfolding link_inv_def Let_def by (metis append_prefixD)

text \<open>C3. What is typed reaches the pty in order, whatever becomes of the datagrams and the connections:
  of each connection, what has gone into the channel to the session is a prefix of what SendInput wrote
  to its stream, and what was written to the pty is a subsequence of that, so that no keystroke is
  repeated, invented or moved before an earlier one of its connection. What the connections carried is,
  in the order of their dials, all that was typed.\<close>

theorem input_reaches_pty_in_order:
  assumes "ip_start s"
  shows "prefix (bytes_of i (ip_moved (ip_run es s))) (ip_sent (ip_run es s) i) \<and>
    subseq (bytes_of i (ip_pty (ip_run es s))) (ip_sent (ip_run es s) i) \<and>
    ip_typed (ip_run es s) = concat (map (ip_sent (ip_run es s)) [0..<ip_next (ip_run es s)])"
proof -
  let ?t = "ip_run es s"
  have inv: "ip_inv ?t" by (rule ip_run_inv [OF ip_start_inv [OF assms]])
  obtain dn where d: "ip_moved ?t = dn @ map (\<lambda>(i, inp). (i, in_Data inp)) (ip_chan ?t)"
    "subseq (bytes_of i (ip_pty ?t)) (bytes_of i dn)"
    using ip_invD(7) [OF inv] unfolding pty_ok_def by blast
  have "prefix (bytes_of i dn) (ip_sent ?t i)" using moved_prefix [OF inv, of i] d(1) by (metis append_prefixD bytes_of_simps(2))
  then have "subseq (bytes_of i (ip_pty ?t)) (ip_sent ?t i)"
    using d(2) prefix_imp_subseq subseq_order.trans by blast
  then show ?thesis using moved_prefix [OF inv] ip_invD(6) [OF inv] by blast
qed

text \<open>C4. In a calm run the pty, with what the channel still holds for it, has received what was typed
  less nothing but tails: of each connection a first part, and the parts in the order of the dials. A
  connection that was not cut, whose stream has been read to its end, and of which no reader holds
  anything, has delivered everything.\<close>

theorem calm_input_is_typed_text:
  assumes "ip_start s" "pty_open s" "ip_calm s es"
  shows "\<exists>k. concat (map snd (ip_pty (ip_run es s) @ chan_bytes (ip_chan (ip_run es s)))) =
      concat (map (\<lambda>i. take (k i) (ip_sent (ip_run es s) i)) [0..<ip_next (ip_run es s)]) \<and>
    ip_typed (ip_run es s) = concat (map (ip_sent (ip_run es s)) [0..<ip_next (ip_run es s)]) \<and>
    (\<forall>i. map_of (qs_conns (ip_server (ip_run es s))) i \<noteq> None \<and> \<not> ip_lost (ip_run es s) i \<and>
       ip_stream (ip_run es s) i = [] \<and> ip_hold (ip_run es s) i = [] \<longrightarrow> k i = length (ip_sent (ip_run es s) i))"
proof (intro exI conjI allI impI)
  let ?t = "ip_run es s"
  let ?k = "\<lambda>i. length (bytes_of i (ip_moved ?t))"
  have inv: "ip_inv ?t" by (rule ip_run_inv [OF ip_start_inv [OF assms(1)]])
  have "calm_inv s" using assms(1,2) by (simp add: calm_inv_def ip_start_def)
  then have calm: "calm_inv ?t" using assms(3) by (rule calm_run_inv)
  have pre: "bytes_of i (ip_moved ?t) = take (?k i) (ip_sent ?t i)" for i
    using moved_prefix [OF inv, of i] by (auto simp: prefix_def)
  have "fst m < ip_next ?t \<or> snd m = []" if "m \<in> set (ip_moved ?t)" for m
  proof (rule disjCI)
    assume "snd m \<noteq> []"
    then have "bytes_of (fst m) (ip_moved ?t) \<noteq> []" using that unfolding bytes_of_def concat_eq_Nil_conv
      by (force intro!: bexI [of _ m])
    then have "ip_sent ?t (fst m) \<noteq> []" using moved_prefix [OF inv, of "fst m"] by auto
    then show "fst m < ip_next ?t" using ip_invD(3) [OF inv, of "fst m"] by (meson not_le)
  qed
  then have "concat (map snd (ip_moved ?t)) = concat (map (\<lambda>i. bytes_of i (ip_moved ?t)) [0..<ip_next ?t])"
    using calm by (intro sorted_bytes) (auto simp: calm_inv_def)
  moreover have "ip_pty ?t @ chan_bytes (ip_chan ?t) = ip_moved ?t" using calm by (simp only: calm_inv_def)
  moreover have "(\<lambda>i. take (?k i) (ip_sent ?t i)) = (\<lambda>i. bytes_of i (ip_moved ?t))"
    by (rule ext) (rule pre [symmetric])
  ultimately show "concat (map snd (ip_pty ?t @ chan_bytes (ip_chan ?t))) = concat (map (\<lambda>i. take (?k i) (ip_sent ?t i)) [0..<ip_next ?t])"
    by (simp only:)
  show "ip_typed ?t = concat (map (ip_sent ?t) [0..<ip_next ?t])" by (rule ip_invD(6) [OF inv])
  fix i
  assume a: "map_of (qs_conns (ip_server ?t)) i \<noteq> None \<and> \<not> ip_lost ?t i \<and> ip_stream ?t i = [] \<and> ip_hold ?t i = []"
  then obtain sc where sc: "map_of (qs_conns (ip_server ?t)) i = Some sc" by blast
  have "dedup_inv (ip_sent ?t i) (ip_sent ?t i) (bytes_of i (ip_moved ?t)) (sv_inDedup sc)"
    using ip_invD(1) [OF inv, of i] sc a unfolding link_inv_def Let_def by auto
  then show "?k i = length (ip_sent ?t i)" by (auto simp: dedup_inv_def)
qed

section \<open>Two connections\<close>

definition ipath0 :: ipath where
  "ipath0 = \<lparr>ip_client = NewClient ''a:1'' 7 ''s1'', ip_server = new_server, ip_next = 0,
     ip_greeted = (\<lambda>i. False), ip_sent = (\<lambda>i. []), ip_typed = [], ip_stream = (\<lambda>i. []), ip_broken = (\<lambda>i. False),
     ip_lost = (\<lambda>i. False), ip_grams = [], ip_hold = (\<lambda>i. []), ip_chan = [], ip_moved = [],
     ip_session = (session0 ''s1'' ''sh'' 24 80 None 0)\<lparr>ptyMaster := True\<rparr>, ip_pty = []\<rparr>"

definition said_hello :: "nat \<Rightarrow> ip_event list" where
  "said_hello i = [Adopted (good_attempt 0) ''b:1'' 9, Greeted i ''c:5'' (FirstFrame ((ctrl_msg ctrlHello)\<lparr>cm_ClientID := 7, cm_SessionID := ''s1''\<rparr>) None)]"

text \<open>Three keystrokes: the first arrives by its datagram and again by the stream, the second is lost
  with its connection, the third comes over the next one.\<close>

definition reconnected :: "ip_event list" where
  "reconnected =
     said_hello 0 @
     [Typed 1 None 0 [104], Read_gram 2 0, Emit 0, Read_stream 3 0 100, Cut_stream 0 0, Typed 4 None 0 [105]] @
     said_hello 1 @
     [Typed 5 None 0 [106], Read_stream 6 1 100, Read_gram 7 2, Emit 1, Deliver None 8 0, Deliver None 9 0]"

lemma ipath0_start: "ip_start ipath0"
  by (simp add: ip_start_def ipath0_def NewClient_def new_server_def)

lemma ipath0_open: "pty_open ipath0"
  by (simp add: pty_open_def ipath0_def session0_def)

lemma ip_run_Cons: "ip_on e s = s1 \<Longrightarrow> P (ip_run es s1) \<Longrightarrow> P (ip_run (e # es) s)"
  by (simp add: ip_run_def)

lemma ip_calm_Cons:
  "ip_on e s = s1 \<Longrightarrow> calm_step e s \<Longrightarrow> ip_calm s1 es \<and> P (ip_run es s1) \<Longrightarrow> ip_calm s (e # es) \<and> P (ip_run (e # es) s)"
  by (simp add: ip_run_def)

lemmas path_evals = ip_type_def ip_adopt_def ip_hello_def ip_cut_def ip_read_def ip_gram_def ip_emit_def ip_deliver_def
  Let_def SendInput_def adoptConn_def good_attempt_def handle_hello_def ctrl_msg_def NewClient_def new_server_def
  rfwdHelloFor_def readInput_def readInputDatagrams_def fromStream_def fromDatagram_def decode_encode_datagram
  inputs_emit new_client_def new_deduper_def on_conn_def maxDupInputSize_def handleTransportInput_def WriteInput_def session0_def

definition second_lost :: "ipath \<Rightarrow> bool" where
  "second_lost s \<longleftrightarrow> ip_typed s = [104, 105, 106] \<and> concat (map snd (ip_pty s)) = [104, 106]"

lemma reconnected_run: "ip_calm ipath0 reconnected \<and> second_lost (ip_run reconnected ipath0)"
  unfolding reconnected_def said_hello_def append.simps ipath0_def
  apply (rule ip_calm_Cons [where P = second_lost], (simp add: path_evals; fail), (simp add: path_evals; fail))+
  apply (simp add: ip_run_def second_lost_def)
  done

lemma input_reaches_pty_in_order_witness:
  "prefix (bytes_of 0 (ip_moved (ip_run reconnected ipath0))) (ip_sent (ip_run reconnected ipath0) 0) \<and>
   length (concat (map snd (ip_pty (ip_run reconnected ipath0)))) = 2"
  using input_reaches_pty_in_order [OF ipath0_start, of 0 reconnected] reconnected_run by (simp add: second_lost_def)

lemma calm_input_is_typed_text_witness:
  "\<exists>k. concat (map snd (ip_pty (ip_run reconnected ipath0) @ chan_bytes (ip_chan (ip_run reconnected ipath0)))) =
      concat (map (\<lambda>i. take (k i) (ip_sent (ip_run reconnected ipath0) i)) [0..<ip_next (ip_run reconnected ipath0)]) \<and>
    concat (map (ip_sent (ip_run reconnected ipath0)) [0..<ip_next (ip_run reconnected ipath0)]) = [104, 105, 106]"
proof -
  obtain k where "concat (map snd (ip_pty (ip_run reconnected ipath0) @ chan_bytes (ip_chan (ip_run reconnected ipath0)))) =
      concat (map (\<lambda>i. take (k i) (ip_sent (ip_run reconnected ipath0) i)) [0..<ip_next (ip_run reconnected ipath0)])"
    "ip_typed (ip_run reconnected ipath0) = concat (map (ip_sent (ip_run reconnected ipath0)) [0..<ip_next (ip_run reconnected ipath0)])"
    using calm_input_is_typed_text [OF ipath0_start ipath0_open conjunct1 [OF reconnected_run]] by blast
  then show ?thesis using reconnected_run by (intro exI [of _ k]) (simp add: second_lost_def)
qed

text \<open>Why a run has to be calm: nothing orders the readers of two connections. Here the reader of the
  first has deduplicated its keystroke and not yet sent it when the second connection has come up and its
  reader sends the next one; the pty receives them in the opposite order.\<close>

definition overtaken :: "ip_event list" where
  "overtaken =
     said_hello 0 @ [Typed 1 None 0 [104], Read_stream 2 0 100] @ said_hello 1 @
     [Typed 3 None 0 [105], Read_stream 4 1 100, Emit 1, Emit 0, Deliver None 5 0, Deliver None 6 0]"

definition swapped :: "ipath \<Rightarrow> bool" where
  "swapped s \<longleftrightarrow> ip_typed s = [104, 105] \<and> concat (map snd (ip_pty s)) = [105, 104]"

theorem readers_of_two_connections_race: "swapped (ip_run overtaken ipath0)"
  unfolding overtaken_def said_hello_def append.simps ipath0_def
  apply (rule ip_run_Cons [where P = swapped], (simp add: path_evals; fail))+
  apply (simp add: ip_run_def swapped_def)
  done

end
