(* ===== verification/Frame_Writers.thy ===== *)
theory Frame_Writers
  imports Session Frames
begin

text \<open>
  Several goroutines writing frames to one connection: the Unix socket of an attached client, to which
  the writer of its output and the loop that answers its requests both write (udsConn of
  cmd/tezzerd/main.go, connMu of cmd/tezzer), and the control stream of a QUIC connection (ctrlMu of
  internal/qtransport). A frame may take several calls of Write, between which others run.
\<close>

section \<open>A connection with its lock\<close>

text \<open>The connection is a writer as in Frames; a goroutine that is writing has the frame and the parts
  of it not yet accepted; lc_begun and lc_done, the frames whose writing has begun and has succeeded,
  are histories.\<close>

(* cmd/tezzerd/main.go:223-226 udsConn *)
record ('f, 'w) locked_conn =
  lc_conn :: 'w
  lc_writeMu :: "nat option"
  lc_writing :: "nat \<Rightarrow> ('f \<times> bytes list) option"
  lc_begun :: "(nat \<times> 'f) list"
  lc_done :: "(nat \<times> 'f) list"

definition locked_conn0 :: "'w \<Rightarrow> ('f, 'w) locked_conn" where
  "locked_conn0 w = \<lparr>lc_conn = w, lc_writeMu = None, lc_writing = (\<lambda>g. None), lc_begun = [], lc_done = []\<rparr>"

text \<open>Begin: lock, if locking is on (a goroutine that does not get the lock waits, and is scheduled
  again). Go_on: one call of Write, or, when nothing is left or the last call failed, unlock and
  return.\<close>

datatype 'f write_event = Begin nat 'f | Go_on nat

definition write_begin_frame ::
  "('f \<Rightarrow> bytes list) \<Rightarrow> bool \<Rightarrow> nat \<Rightarrow> 'f \<Rightarrow> ('f, 'w) locked_conn \<Rightarrow> ('f, 'w) locked_conn"
where
  "write_begin_frame parts locking g x s =
     (if lc_writing s g \<noteq> None \<or> (locking \<and> lc_writeMu s \<noteq> None) then s
      else s\<lparr>lc_writeMu := Some g, lc_writing := (lc_writing s)(g \<mapsto> (x, parts x)), lc_begun := lc_begun s @ [(g, x)]\<rparr>)"

definition write_go_on ::
  "('w \<Rightarrow> bytes \<Rightarrow> 'w \<times> nat \<times> err option) \<Rightarrow> nat \<Rightarrow> ('f, 'w) locked_conn \<Rightarrow> ('f, 'w) locked_conn"
where
  "write_go_on wr g s =
     (case lc_writing s g of
        None \<Rightarrow> s
      | Some (x, []) \<Rightarrow>
          s\<lparr>lc_writeMu := None, lc_writing := (lc_writing s)(g := None), lc_done := lc_done s @ [(g, x)]\<rparr>
      | Some (x, p # ps) \<Rightarrow>
          (case wr (lc_conn s) p of
             (w, n, Some e) \<Rightarrow> s\<lparr>lc_conn := w, lc_writeMu := None, lc_writing := (lc_writing s)(g := None)\<rparr>
           | (w, n, None) \<Rightarrow>
               s\<lparr>lc_conn := w,
                 lc_writing := (lc_writing s)(g \<mapsto> (x, if n < length p then drop n p # ps else ps))\<rparr>))"

text \<open>The frame is written by the steps of write_go_on; the lock is held from the first to the last.\<close>

(* cmd/tezzerd/main.go:228-232 udsConn.WriteFrame *)
fun locked_step ::
  "('f \<Rightarrow> bytes list) \<Rightarrow> bool \<Rightarrow> ('w \<Rightarrow> bytes \<Rightarrow> 'w \<times> nat \<times> err option) \<Rightarrow> 'f write_event \<Rightarrow>
   ('f, 'w) locked_conn \<Rightarrow> ('f, 'w) locked_conn"
where
  "locked_step parts locking wr (Begin g x) s = write_begin_frame parts locking g x s"
| "locked_step parts locking wr (Go_on g) s = write_go_on wr g s"

definition locked_run where
  "locked_run parts locking wr es s = fold (locked_step parts locking wr) es s"

text \<open>netx.WriteFrame writes the length and the payload separately, writeFrame of qtransport writes
  both at once.\<close>

definition netx_parts :: "bytes \<Rightarrow> bytes list" where
  "netx_parts p = (if p = [] then [be_bytes 4 0] else [be_bytes 4 (length p mod 2 ^ 32), p])"

definition ctrl_parts :: "(ctrlMsg \<Rightarrow> err + bytes) \<Rightarrow> ctrlMsg \<Rightarrow> bytes list" where
  "ctrl_parts marshal m = (case writeFrame marshal m of Inl e \<Rightarrow> [] | Inr b \<Rightarrow> [b])"

section \<open>Who writes\<close>

text \<open>The writer of an attached client: it returns when the client is detached, else takes the next
  frame from OutCh; when both are possible Go may choose either (first). None: it waits. OutCh is
  never closed.\<close>

datatype writer_next = Writer_returns | Writer_writes bytes

(* cmd/tezzerd/main.go:529-547 handleConnection *)
definition uds_writer :: "bool \<Rightarrow> err option \<Rightarrow> Client \<Rightarrow> (Client \<times> writer_next) option" where
  "uds_writer first failed c =
     (if failed \<noteq> None then Some (c, Writer_returns)
      else if cl_Done c \<and> (first \<or> OutCh c = []) then Some (c, Writer_returns)
      else (case OutCh c of [] \<Rightarrow> None | b # bs \<Rightarrow> Some (c\<lparr>OutCh := bs\<rparr>, Writer_writes b)))"

lemma uds_writer_oldest: "uds_writer first None c = Some (c', Writer_writes b) \<Longrightarrow> OutCh c = b # OutCh c'"
  by (auto simp: uds_writer_def split: if_splits list.splits)

text \<open>The messages to a control stream; a server that has not accepted it yet writes nothing.\<close>

(* internal/qtransport/server.go:634-642 quicServer.writeCtrl *)
definition writeCtrl :: "bool \<Rightarrow> nat \<Rightarrow> ctrlMsg \<Rightarrow> ctrlMsg write_event list" where
  "writeCtrl ctrl g m = (if \<not> ctrl then [] else [Begin g m])"

(* internal/qtransport/client.go:680-684 quicClient.SendResize *)
definition cl_SendResize :: "nat \<Rightarrow> int \<Rightarrow> int \<Rightarrow> ctrlMsg write_event list" where
  "cl_SendResize g cols rows = [Begin g ((ctrl_msg ctrlResize)\<lparr>cm_Cols := cols, cm_Rows := rows\<rparr>)]"

section \<open>Frames stay whole\<close>

text \<open>What is relied on of a connection: Write reports how many bytes it took, and an error when it
  took none; after an error the connection takes nothing more.\<close>

definition errors_stay :: "('w \<Rightarrow> bytes \<Rightarrow> 'w \<times> nat \<times> err option) \<Rightarrow> ('w \<Rightarrow> bool) \<Rightarrow> bool" where
  "errors_stay wr broken \<longleftrightarrow>
     (\<forall>w d. case wr w d of (w', n, e) \<Rightarrow>
        (broken w \<longrightarrow> n = 0 \<and> e \<noteq> None) \<and> (broken w' \<longleftrightarrow> broken w \<or> e \<noteq> None))"

lemma errors_stayD:
  "\<lbrakk>errors_stay wr broken; wr w d = (w', n, e)\<rbrakk> \<Longrightarrow>
   (broken w \<longrightarrow> n = 0 \<and> e \<noteq> None) \<and> (broken w' \<longleftrightarrow> broken w \<or> e \<noteq> None)"
  unfolding errors_stay_def by (drule spec [of _ w], drule spec [of _ d]) simp

locale locked_writer = frame_codec enc rd ok
  for enc :: "'f \<Rightarrow> bytes" and rd :: "bytes \<Rightarrow> err + 'f \<times> bytes" and ok :: "'f \<Rightarrow> bool" +
  fixes parts :: "'f \<Rightarrow> bytes list"
  assumes parts_enc: "ok x \<Longrightarrow> concat (parts x) = enc x"
    and parts_nonempty: "[] \<notin> set (parts x)"
begin

text \<open>The stream holds what was written completely and a part of one more frame: of the one being
  written, or of the one whose writing failed.\<close>

definition tail_ok ::
  "('w \<Rightarrow> bytes) \<Rightarrow> ('w \<Rightarrow> bool) \<Rightarrow> ('f, 'w) locked_conn \<Rightarrow> bytes \<Rightarrow> (nat \<times> 'f) list \<Rightarrow> bool"
where
  "tail_ok out broken s part rest \<longleftrightarrow>
     lc_begun s = lc_done s @ rest \<and> out (lc_conn s) = concat (map enc (map snd (lc_done s))) @ part \<and>
     (case lc_writeMu s of
        None \<Rightarrow> if broken (lc_conn s) then rest \<noteq> [] \<and> prefix part (enc (snd (hd rest))) else rest = [] \<and> part = []
      | Some g \<Rightarrow> \<exists>x ps. lc_writing s g = Some (x, ps) \<and> [] \<notin> set ps \<and>
          (if broken (lc_conn s) then rest \<noteq> [] \<and> ps \<noteq> [] \<and> prefix part (enc (snd (hd rest)))
           else rest = [(g, x)] \<and> part @ concat ps = enc x))"

definition whole :: "('w \<Rightarrow> bytes) \<Rightarrow> ('w \<Rightarrow> bool) \<Rightarrow> ('f, 'w) locked_conn \<Rightarrow> bool" where
  "whole out broken s \<longleftrightarrow>
     (\<forall>m\<in>set (lc_begun s). ok (snd m)) \<and> (\<forall>g. lc_writing s g \<noteq> None \<longrightarrow> lc_writeMu s = Some g) \<and>
     (\<exists>part rest. tail_ok out broken s part rest)"

lemma wholeI:
  assumes "\<And>m. m \<in> set (lc_begun s) \<Longrightarrow> ok (snd m)" "\<And>g. lc_writing s g \<noteq> None \<Longrightarrow> lc_writeMu s = Some g"
    "tail_ok out broken s part rest"
  shows "whole out broken s"
  unfolding whole_def using assms by blast

lemma wholeE:
  assumes "whole out broken s"
  obtains part rest where "\<And>m. m \<in> set (lc_begun s) \<Longrightarrow> ok (snd m)" "\<And>g. lc_writing s g \<noteq> None \<Longrightarrow> lc_writeMu s = Some g"
    "tail_ok out broken s part rest"
  using assms unfolding whole_def by blast

lemma tail_okD:
  assumes "tail_ok out broken s part rest"
  shows "lc_begun s = lc_done s @ rest" "out (lc_conn s) = concat (map enc (map snd (lc_done s))) @ part"
    "rest = [] \<and> part = [] \<or> rest \<noteq> [] \<and> prefix part (enc (snd (hd rest)))"
proof -
  show "lc_begun s = lc_done s @ rest" "out (lc_conn s) = concat (map enc (map snd (lc_done s))) @ part"
    using assms unfolding tail_ok_def by blast+
  show "rest = [] \<and> part = [] \<or> rest \<noteq> [] \<and> prefix part (enc (snd (hd rest)))"
  proof (cases "lc_writeMu s")
    case None
    then show ?thesis using assms unfolding tail_ok_def by (simp split: if_splits)
  next
    case (Some g)
    then obtain x ps where "if broken (lc_conn s) then rest \<noteq> [] \<and> ps \<noteq> [] \<and> prefix part (enc (snd (hd rest)))
        else rest = [(g, x)] \<and> part @ concat ps = enc x"
      using assms unfolding tail_ok_def by auto
    then show ?thesis by (auto split: if_splits intro: prefixI [OF sym])
  qed
qed

lemma ok_parts: "ok x \<Longrightarrow> parts x \<noteq> []"
  using parts_enc [of x] enc_nonempty [of x] by auto

lemma begin_whole:
  assumes "whole out broken s" "ok x"
  shows "whole out broken (write_begin_frame parts True g x s)"
proof (cases "lc_writing s g \<noteq> None \<or> lc_writeMu s \<noteq> None")
  case False
  then have mu: "lc_writeMu s = None" by simp
  obtain part rest where r: "\<And>m. m \<in> set (lc_begun s) \<Longrightarrow> ok (snd m)" "\<And>g. lc_writing s g \<noteq> None \<Longrightarrow> lc_writeMu s = Some g"
    "tail_ok out broken s part rest"
    using assms(1) by (elim wholeE) (rule that)
  have idle: "lc_writing s h = None" for h using r(2) [of h] mu by (cases "lc_writing s h") simp_all
  let ?s = "write_begin_frame parts True g x s"
  have s': "?s = s\<lparr>lc_writeMu := Some g, lc_writing := (lc_writing s)(g \<mapsto> (x, parts x)), lc_begun := lc_begun s @ [(g, x)]\<rparr>"
    using False by (simp add: write_begin_frame_def)
  have "tail_ok out broken ?s part (rest @ [(g, x)])"
    using r(3) parts_enc [OF assms(2)] ok_parts [OF assms(2)] parts_nonempty [of x]
    unfolding tail_ok_def s' mu by (simp split: if_splits)
  then show ?thesis
    by (rule wholeI [rotated 2]) (use r(1) assms(2) idle in \<open>auto simp: s' split: if_splits\<close>)
qed (use assms in \<open>simp add: write_begin_frame_def\<close>)

lemma go_on_whole:
  assumes laws: "writer_laws wr out" "errors_stay wr broken" and inv: "whole out broken s"
  shows "whole out broken (write_go_on wr g s)"
proof (cases "lc_writing s g")
  case (Some xps)
  obtain x ps where xps: "lc_writing s g = Some (x, ps)" using Some by (cases xps) auto
  obtain part rest where r: "\<And>m. m \<in> set (lc_begun s) \<Longrightarrow> ok (snd m)" "\<And>g. lc_writing s g \<noteq> None \<Longrightarrow> lc_writeMu s = Some g"
    "tail_ok out broken s part rest"
    using inv by (elim wholeE) (rule that)
  have mu: "lc_writeMu s = Some g" using r(2) xps by simp
  have others: "h = g" if "lc_writing s h \<noteq> None" for h using r(2) [OF that] mu by simp
  have t: "lc_begun s = lc_done s @ rest" "out (lc_conn s) = concat (map enc (map snd (lc_done s))) @ part" "[] \<notin> set ps"
    "if broken (lc_conn s) then rest \<noteq> [] \<and> ps \<noteq> [] \<and> prefix part (enc (snd (hd rest)))
     else rest = [(g, x)] \<and> part @ concat ps = enc x"
    using r(3) unfolding tail_ok_def mu option.case xps by auto
  let ?s = "write_go_on wr g s"
  show ?thesis
  proof (cases ps)
    case Nil
    then have n: "\<not> broken (lc_conn s)" "rest = [(g, x)]" "part = enc x" using t(4) by (auto split: if_splits)
    have s': "?s = s\<lparr>lc_writeMu := None, lc_writing := (lc_writing s)(g := None), lc_done := lc_done s @ [(g, x)]\<rparr>"
      by (simp add: write_go_on_def xps Nil)
    have "tail_ok out broken ?s [] []" unfolding tail_ok_def s' using t(1,2) n by simp
    then show ?thesis by (rule wholeI [rotated 2]) (use r(1) others in \<open>auto simp: s' split: if_splits\<close>)
  next
    case (Cons p qs)
    obtain w n e where w: "wr (lc_conn s) p = (w, n, e)" by (metis prod_cases3)
    have law: "n \<le> length p" "out w = out (lc_conn s) @ take n p" using writer_lawsD [OF laws(1) w] by auto
    have stay: "broken (lc_conn s) \<Longrightarrow> n = 0 \<and> e \<noteq> None" "broken w \<longleftrightarrow> broken (lc_conn s) \<or> e \<noteq> None"
      using errors_stayD [OF laws(2) w] by blast+
    show ?thesis
    proof (cases e)
      case None
      then have nb: "\<not> broken (lc_conn s)" "\<not> broken w" using stay by auto
      define rs where "rs = (if n < length p then drop n p # qs else qs)"
      have s': "?s = s\<lparr>lc_conn := w, lc_writing := (lc_writing s)(g \<mapsto> (x, rs))\<rparr>"
        by (simp add: write_go_on_def xps Cons w None rs_def)
      have "take n p @ concat rs = concat ps" using law(1) by (simp add: Cons rs_def)
      then have "(part @ take n p) @ concat rs = enc x" "rest = [(g, x)]" using t(4) nb by simp_all
      moreover have "[] \<notin> set rs" using t(3) Cons by (auto simp: rs_def)
      ultimately have "tail_ok out broken ?s (part @ take n p) rest"
        unfolding tail_ok_def s' using t(1,2) law(2) nb mu by simp
      then show ?thesis by (rule wholeI [rotated 2]) (use r(1) others mu in \<open>auto simp: s' split: if_splits\<close>)
    next
      case (Some err)
      then have b: "broken w" using stay by simp
      have s': "?s = s\<lparr>lc_conn := w, lc_writeMu := None, lc_writing := (lc_writing s)(g := None)\<rparr>"
        by (simp add: write_go_on_def xps Cons w Some)
      have "rest \<noteq> [] \<and> prefix (part @ take n p) (enc (snd (hd rest)))"
      proof (cases "broken (lc_conn s)")
        case True
        then show ?thesis using t(4) stay(1) by simp
      next
        case False
        then have "enc x = part @ p @ concat qs" "rest = [(g, x)]" using t(4) Cons by auto
        moreover have "p = take n p @ drop n p" by simp
        ultimately have "enc x = (part @ take n p) @ drop n p @ concat qs" "rest = [(g, x)]" by (metis append.assoc)+
        then show ?thesis by (auto simp del: append_assoc)
      qed
      then have "tail_ok out broken ?s (part @ take n p) rest"
        unfolding tail_ok_def s' using t(1,2) law(2) b by simp
      then show ?thesis by (rule wholeI [rotated 2]) (use r(1) others in \<open>auto simp: s' split: if_splits\<close>)
    qed
  qed
qed (use inv in \<open>simp add: write_go_on_def\<close>)

lemma run_whole:
  assumes "writer_laws wr out" "errors_stay wr broken" "whole out broken s" "\<forall>g x. Begin g x \<in> set es \<longrightarrow> ok x"
  shows "whole out broken (locked_run parts True wr es s)"
  using assms(3,4) unfolding locked_run_def
proof (induction es arbitrary: s)
  case (Cons e es)
  have "whole out broken (locked_step parts True wr e s)"
  proof (cases e)
    case (Begin g x)
    then have "ok x" using Cons.prems(2) by auto
    then show ?thesis using begin_whole [OF Cons.prems(1)] Begin by simp
  next
    case (Go_on g)
    then show ?thesis using go_on_whole [OF assms(1,2) Cons.prems(1)] by simp
  qed
  then show ?case using Cons by auto
qed simp

lemma whole_reads:
  assumes "whole out broken s"
  shows "prefix (fst (read_all rd (take k (out (lc_conn s))))) (map snd (lc_begun s)) \<and>
    prefix (map snd (lc_done s)) (fst (read_all rd (out (lc_conn s))))"
proof -
  obtain part rest where oks: "\<And>m. m \<in> set (lc_begun s) \<Longrightarrow> ok (snd m)" and t: "tail_ok out broken s part rest"
    using assms by (elim wholeE) (rule that)
  have r: "lc_begun s = lc_done s @ rest" "out (lc_conn s) = concat (map enc (map snd (lc_done s))) @ part"
    "rest = [] \<and> part = [] \<or> rest \<noteq> [] \<and> prefix part (enc (snd (hd rest)))"
    using tail_okD [OF t] by auto
  let ?fs = "map snd (lc_begun s)"
  have ok: "\<forall>x\<in>set ?fs. ok x" using oks by auto
  have pre: "prefix (out (lc_conn s)) (concat (map enc ?fs))"
    using r by (cases rest) (auto intro: prefix_prefix)
  have cut: "take j (out (lc_conn s)) = take (min j (length (out (lc_conn s)))) (concat (map enc ?fs))" for j
    using pre by (auto simp: prefix_def min_def)
  have "prefix (fst (read_all rd (take k (out (lc_conn s))))) ?fs"
    unfolding cut using read_all_cut [OF ok] by (metis take_is_prefix)
  moreover have "prefix (map snd (lc_done s)) (fst (read_all rd (out (lc_conn s))))"
  proof -
    have "fst (read_all rd (concat (map enc xs) @ t)) = xs @ fst (read_all rd t)" if "\<forall>x\<in>set xs. ok x" for xs t
      using that by (induction xs) (simp_all add: read_all_Cons)
    from this [of "map snd (lc_done s)" part] show ?thesis using ok r(1,2) by (simp add: comp_def)
  qed
  ultimately show ?thesis by simp
qed

lemma start_whole: "out w = [] \<Longrightarrow> \<not> broken w \<Longrightarrow> whole out broken (locked_conn0 w)"
  by (rule wholeI [where part = "[]" and rest = "[]"]) (simp_all add: tail_ok_def locked_conn0_def)

lemma frames_whole:
  assumes "writer_laws wr out" "errors_stay wr broken" "out w = []" "\<not> broken w" "\<forall>g x. Begin g x \<in> set es \<longrightarrow> ok x"
    "s = locked_run parts True wr es (locked_conn0 w)"
  shows "prefix (fst (read_all rd (take k (out (lc_conn s))))) (map snd (lc_begun s)) \<and>
    prefix (map snd (lc_done s)) (fst (read_all rd (out (lc_conn s))))"
  unfolding assms(6) by (rule whole_reads [OF run_whole [OF assms(1,2) start_whole [where out = out and broken = broken, OF assms(3,4)] assms(5)]])

end

text \<open>Both formats.\<close>

interpretation uds: locked_writer frame_bytes ReadFrame "\<lambda>p. length p \<le> maxFrameSize" netx_parts
proof
  fix x :: bytes
  show "concat (netx_parts x) = frame_bytes x" if "length x \<le> maxFrameSize"
    using that by (simp add: netx_parts_def frame_bytes_def maxFrameSize_def)
  have "be_bytes 4 n \<noteq> []" for n by (simp flip: length_greater_0_conv)
  then show "[] \<notin> set (netx_parts x)" by (metis empty_iff empty_set netx_parts_def set_ConsD)
qed

lemma ctrl_locked_writer:
  assumes "msgpack_laws marshal unmarshal"
  shows "locked_writer (ctrl_bytes marshal) (readFrame unmarshal) (ctrl_fits marshal) (ctrl_parts marshal)"
proof (intro locked_writer.intro ctrl_codec [OF assms] locked_writer_axioms.intro)
  show "concat (ctrl_parts marshal x) = ctrl_bytes marshal x" if "ctrl_fits marshal x" for x
    using that by (auto simp: ctrl_parts_def ctrl_bytes_def ctrl_fits_def writeFrame_def split: sum.splits)
  show "[] \<notin> set (ctrl_parts marshal x)" for x
    by (auto simp: ctrl_parts_def writeFrame_def split: sum.splits simp flip: length_greater_0_conv)
qed

section \<open>Uninterrupted, the steps are netx.WriteFrame\<close>

lemma go_on_writeAll:
  assumes "writer_laws wr out" "lc_writing s g = Some (x, drop off d # ps)" "off < length d"
    "writeAll wr d off (lc_conn s) = Some (w, e)"
  shows "\<exists>n. (write_go_on wr g ^^ n) s =
    (if e = None then s\<lparr>lc_conn := w, lc_writing := (lc_writing s)(g \<mapsto> (x, ps))\<rparr>
     else s\<lparr>lc_conn := w, lc_writeMu := None, lc_writing := (lc_writing s)(g := None)\<rparr>)"
  using assms(2-)
proof (induction "length d - off" arbitrary: off s rule: less_induct)
  case less
  obtain w1 n e1 where w1: "wr (lc_conn s) (drop off d) = (w1, n, e1)" by (metis prod_cases3)
  note law = writer_lawsD [OF assms(1) w1]
  show ?case
  proof (cases e1)
    case (Some err)
    then have "w = w1 \<and> e = Some err" using less.prems w1 by (subst (asm) writeAll.simps) simp
    then have "write_go_on wr g s = s\<lparr>lc_conn := w, lc_writeMu := None, lc_writing := (lc_writing s)(g := None)\<rparr>"
      by (simp add: write_go_on_def less.prems(1) w1 Some)
    then show ?thesis using \<open>w = w1 \<and> e = Some err\<close> by (intro exI [of _ 1]) simp
  next
    case None
    then have wa: "writeAll wr d (off + n) w1 = Some (w, e)" using less.prems w1 by (subst (asm) writeAll.simps) simp
    let ?s = "write_go_on wr g s"
    show ?thesis
    proof (cases "n < length (drop off d)")
      case True
      then have s1: "?s = s\<lparr>lc_conn := w1, lc_writing := (lc_writing s)(g \<mapsto> (x, drop (off + n) d # ps))\<rparr>"
        by (simp add: write_go_on_def less.prems(1) w1 None add.commute)
      have "\<exists>k. (write_go_on wr g ^^ k) ?s =
          (if e = None then ?s\<lparr>lc_conn := w, lc_writing := (lc_writing ?s)(g \<mapsto> (x, ps))\<rparr>
           else ?s\<lparr>lc_conn := w, lc_writeMu := None, lc_writing := (lc_writing ?s)(g := None)\<rparr>)"
        by (rule less.hyps [of "off + n"]) (use True law None less.prems(2) wa s1 in auto)
      then obtain k where "(write_go_on wr g ^^ Suc k) s =
          (if e = None then ?s\<lparr>lc_conn := w, lc_writing := (lc_writing ?s)(g \<mapsto> (x, ps))\<rparr>
           else ?s\<lparr>lc_conn := w, lc_writeMu := None, lc_writing := (lc_writing ?s)(g := None)\<rparr>)"
        unfolding funpow_Suc_right comp_def by blast
      then show ?thesis by (intro exI [of _ "Suc k"]) (simp add: s1)
    next
      case False
      then have "off + n \<ge> length d" by simp
      then have "w = w1" "e = None" using wa by (subst (asm) writeAll.simps, simp)+
      moreover have "?s = s\<lparr>lc_conn := w1, lc_writing := (lc_writing s)(g \<mapsto> (x, ps))\<rparr>"
        using False by (simp add: write_go_on_def less.prems(1) w1 None)
      ultimately show ?thesis by (intro exI [of _ 1]) simp
    qed
  qed
qed

lemma funpow_trans: "(f ^^ n) s = t \<Longrightarrow> (f ^^ m) t = u \<Longrightarrow> \<exists>k. (f ^^ k) s = u"
  by (metis comp_apply funpow_add add.commute)

text \<open>A goroutine that is left alone between its lock and its unlock does what netx.WriteFrame does.\<close>

theorem locked_steps_are_WriteFrame:
  assumes "writer_laws wr out" "length x < 2 ^ 32" "lc_writeMu s = None" "lc_writing s g = None"
    "WriteFrame wr x (lc_conn s) = Some (w, e)"
  shows "\<exists>n. (write_go_on wr g ^^ n) (write_begin_frame netx_parts True g x s) =
    s\<lparr>lc_conn := w, lc_begun := lc_begun s @ [(g, x)], lc_done := lc_done s @ (if e = None then [(g, x)] else [])\<rparr>"
proof -
  let ?hdr = "be_bytes 4 (length x)"
  let ?s = "write_begin_frame netx_parts True g x s"
  have m: "length x mod 2 ^ 32 = length x" using assms(2) by simp
  let ?qs = "if x = [] then [] else [x]"
  have s0: "?s = s\<lparr>lc_writeMu := Some g, lc_writing := (lc_writing s)(g \<mapsto> (x, drop 0 ?hdr # ?qs)), lc_begun := lc_begun s @ [(g, x)]\<rparr>"
    using assms(3,4) m by (simp add: write_begin_frame_def netx_parts_def)
  obtain w1 e1 where h: "writeAll wr ?hdr 0 (lc_conn s) = Some (w1, e1)"
    using writeAll_returns [OF assms(1), of ?hdr 0 "lc_conn s"] by blast
  obtain n1 where n1: "(write_go_on wr g ^^ n1) ?s =
      (if e1 = None then ?s\<lparr>lc_conn := w1, lc_writing := (lc_writing ?s)(g \<mapsto> (x, ?qs))\<rparr>
       else ?s\<lparr>lc_conn := w1, lc_writeMu := None, lc_writing := (lc_writing ?s)(g := None)\<rparr>)"
    using go_on_writeAll [OF assms(1), of ?s g x 0 ?hdr ?qs w1 e1] h by (auto simp: s0)
  have idle: "(lc_writing s)(g := None) = lc_writing s" using assms(4) by (simp add: fun_upd_idem)
  show ?thesis
  proof (cases e1)
    case (Some err)
    then have "w = w1 \<and> e = Some err" using assms(5) h m by (simp add: WriteFrame_def)
    then show ?thesis using n1 assms(3) idle Some by (intro exI [of _ n1]) (simp add: s0)
  next
    case None
    let ?t = "?s\<lparr>lc_conn := w1, lc_writing := (lc_writing ?s)(g \<mapsto> (x, ?qs))\<rparr>"
    have n1': "(write_go_on wr g ^^ n1) ?s = ?t" using n1 None by simp
    have fin: "write_go_on wr g (?t\<lparr>lc_conn := w, lc_writing := (lc_writing ?t)(g \<mapsto> (x, []))\<rparr>) =
        s\<lparr>lc_conn := w, lc_begun := lc_begun s @ [(g, x)], lc_done := lc_done s @ [(g, x)]\<rparr>"
      using assms(3) idle by (simp add: write_go_on_def s0)
    show ?thesis
    proof (cases "x = []")
      case True
      then have "w = w1 \<and> e = None" using assms(5) h m None by (simp add: WriteFrame_def)
      with fin True have "(write_go_on wr g ^^ 1) ?t =
          s\<lparr>lc_conn := w, lc_begun := lc_begun s @ [(g, x)], lc_done := lc_done s @ [(g, x)]\<rparr>" by simp
      from funpow_trans [OF n1' this] show ?thesis using \<open>w = w1 \<and> e = None\<close> by simp
    next
      case False
      have p: "writeAll wr x 0 w1 = Some (w, e)" using assms(5) h m None False by (simp add: WriteFrame_def)
      obtain n2 where n2: "(write_go_on wr g ^^ n2) ?t =
          (if e = None then ?t\<lparr>lc_conn := w, lc_writing := (lc_writing ?t)(g \<mapsto> (x, []))\<rparr>
           else ?t\<lparr>lc_conn := w, lc_writeMu := None, lc_writing := (lc_writing ?t)(g := None)\<rparr>)"
        using go_on_writeAll [OF assms(1), of ?t g x 0 x "[]" w e] p False by auto
      show ?thesis
      proof (cases e)
        case None
        with n2 have "(write_go_on wr g ^^ Suc n2) ?t = write_go_on wr g (?t\<lparr>lc_conn := w, lc_writing := (lc_writing ?t)(g \<mapsto> (x, []))\<rparr>)"
          by simp
        from funpow_trans [OF n1' this] show ?thesis by (simp only: fin) (simp add: None)
      next
        case (Some err)
        with n2 have "(write_go_on wr g ^^ n2) ?t = s\<lparr>lc_conn := w, lc_begun := lc_begun s @ [(g, x)], lc_done := lc_done s @ []\<rparr>"
          using assms(3) idle by (simp add: s0)
        from funpow_trans [OF n1' this] show ?thesis by (simp add: Some)
      qed
    qed
  qed
qed

section \<open>The properties\<close>

text \<open>However goroutines that share a connection are scheduled, and however the calls of Write split
  their frames, the peer reads whole frames in the order in which they got the lock, also of a stream
  that is cut anywhere; and every frame whose WriteFrame returned without an error reaches it, as long
  as the stream does.\<close>

theorem frames_stay_whole:
  assumes "writer_laws wr out" "errors_stay wr broken" "out w = []" "\<not> broken w"
    "\<forall>g x. Begin g x \<in> set es \<longrightarrow> length x \<le> maxFrameSize" "s = locked_run netx_parts True wr es (locked_conn0 w)"
  shows "prefix (fst (read_all ReadFrame (take k (out (lc_conn s))))) (map snd (lc_begun s)) \<and>
    prefix (map snd (lc_done s)) (fst (read_all ReadFrame (out (lc_conn s))))"
  by (rule uds.frames_whole [OF assms])

text \<open>The same for control streams.\<close>

theorem control_frames_stay_whole:
  assumes "msgpack_laws marshal unmarshal" "writer_laws wr out" "errors_stay wr broken" "out w = []" "\<not> broken w"
    "\<forall>g m. Begin g m \<in> set es \<longrightarrow> ctrl_fits marshal m"
    "s = locked_run (ctrl_parts marshal) True wr es (locked_conn0 w)"
  shows "prefix (fst (read_all (readFrame unmarshal) (take k (out (lc_conn s))))) (map snd (lc_begun s)) \<and>
    prefix (map snd (lc_done s)) (fst (read_all (readFrame unmarshal) (out (lc_conn s))))"
  by (rule locked_writer.frames_whole [OF ctrl_locked_writer [OF assms(1)] assms(2-)])

text \<open>A connection that takes two bytes at a time. The writer of the output (0) is interrupted in the
  middle of its frame by an answer (1), which waits for the lock.\<close>

lemma four_bytes: "be_bytes 4 x = [word_of_nat (x div 256 div 256 div 256), word_of_nat (x div 256 div 256), word_of_nat (x div 256), word_of_nat x]"
proof -
  have four: "(4 :: nat) = Suc (Suc (Suc (Suc 0)))" by simp
  show ?thesis unfolding four by simp
qed

definition two_bytes :: "bytes \<Rightarrow> bytes \<Rightarrow> bytes \<times> nat \<times> err option" where
  "two_bytes w d = (w @ take 2 d, min 2 (length d), None)"

definition interrupted :: "bytes write_event list" where
  "interrupted = [Begin 0 [7, 8, 9], Go_on 0, Begin 1 [5]]  @
     [Go_on 0, Go_on 0, Go_on 0, Go_on 0, Begin 1 [5], Go_on 1, Go_on 1, Go_on 1, Go_on 1]"

lemma two_bytes_laws: "writer_laws two_bytes id" "errors_stay two_bytes (\<lambda>w. False)"
  by (auto simp: writer_laws_def errors_stay_def two_bytes_def min_def)

lemma interrupted_run:
  "map snd (lc_done (locked_run netx_parts True two_bytes interrupted (locked_conn0 []))) = [[7, 8, 9], [5]]"
  by (simp add: locked_run_def interrupted_def locked_conn0_def write_begin_frame_def write_go_on_def two_bytes_def netx_parts_def
      four_bytes)

lemma frames_stay_whole_witness:
  "prefix [[7, 8, 9], [5]]
     (fst (read_all ReadFrame (lc_conn (locked_run netx_parts True two_bytes interrupted (locked_conn0 [])))))"
proof -
  have "\<forall>g x. Begin g x \<in> set interrupted \<longrightarrow> length x \<le> maxFrameSize"
    by (auto simp: interrupted_def maxFrameSize_def)
  from frames_stay_whole [OF two_bytes_laws _ _ this refl, of "[]"] show ?thesis
    using interrupted_run by simp
qed

text \<open>Without the lock, as netx.WriteFrame alone would do, the answer lands between the length and the
  payload of the other frame: the peer reads a frame nobody wrote.\<close>

definition mixed :: bytes where
  "mixed = lc_conn (locked_run netx_parts False two_bytes
     [Begin 0 [7, 8, 9], Begin 1 [5], Go_on 0, Go_on 0, Go_on 1, Go_on 1, Go_on 1, Go_on 0, Go_on 0] (locked_conn0 []))"

theorem unlocked_frames_mix: "fst (read_all ReadFrame mixed) = [[0, 0, 0]]"
proof -
  have m: "mixed = frame_bytes [0, 0, 0] @ [1, 5, 7, 8, 9]"
    by (simp add: mixed_def locked_run_def locked_conn0_def write_begin_frame_def write_go_on_def two_bytes_def
        netx_parts_def frame_bytes_def four_bytes)
  have "\<exists>e. ReadFrame [1, 5, 7, 8, 9] = Inl e"
    by (simp add: ReadFrame_def read_full_def be_val_def maxFrameSize_def)
  then have "fst (read_all ReadFrame [1, 5, 7, 8, 9]) = []" by (subst read_all.simps) auto
  then show ?thesis unfolding m by (subst netx.read_all_Cons) (simp_all add: maxFrameSize_def)
qed

section \<open>The output of an attached client\<close>

text \<open>The connection with its writer (goroutine 0): what it has taken and waits to write, whether it has
  returned or its last write failed; ul_offered, what the session has put into the channel, is a history.
  Other goroutines write answers.\<close>

record 'w uds_link =
  ul_client :: Client
  ul_conn :: "(bytes, 'w) locked_conn"
  ul_hold :: "bytes option"
  ul_failed :: "err option"
  ul_returned :: bool
  ul_offered :: "bytes list"

datatype uds_event = Offered bytes | Detached | Writer_select bool | Writer_locks | Answer nat bytes | Written nat

fun uds_on :: "('w \<Rightarrow> bytes \<Rightarrow> 'w \<times> nat \<times> err option) \<Rightarrow> uds_event \<Rightarrow> 'w uds_link \<Rightarrow> 'w uds_link" where
  "uds_on wr (Offered b) s =
     (case offer b (ul_client s) of
        (c, sent) \<Rightarrow> s\<lparr>ul_client := c, ul_offered := (if sent then ul_offered s @ [b] else ul_offered s)\<rparr>)"
| "uds_on wr Detached s = s\<lparr>ul_client := (ul_client s)\<lparr>cl_Done := True\<rparr>\<rparr>"
| "uds_on wr (Writer_select first) s =
     (if ul_returned s \<or> ul_hold s \<noteq> None \<or> lc_writing (ul_conn s) 0 \<noteq> None then s
      else
        (case uds_writer first (ul_failed s) (ul_client s) of
           None \<Rightarrow> s
         | Some (c, Writer_returns) \<Rightarrow> s\<lparr>ul_client := c, ul_returned := True\<rparr>
         | Some (c, Writer_writes b) \<Rightarrow> s\<lparr>ul_client := c, ul_hold := Some b\<rparr>))"
| "uds_on wr Writer_locks s =
     (case ul_hold s of
        None \<Rightarrow> s
      | Some b \<Rightarrow>
          if lc_writing (ul_conn s) 0 \<noteq> None \<or> lc_writeMu (ul_conn s) \<noteq> None then s
          else s\<lparr>ul_hold := None, ul_conn := locked_step netx_parts True wr (Begin 0 b) (ul_conn s)\<rparr>)"
| "uds_on wr (Answer g b) s =
     (if g = 0 then s else s\<lparr>ul_conn := locked_step netx_parts True wr (Begin g b) (ul_conn s)\<rparr>)"
| "uds_on wr (Written g) s =
     (let lc = locked_step netx_parts True wr (Go_on g) (ul_conn s) in
      s\<lparr>ul_conn := lc,
        ul_failed := (if g = 0 \<and> lc_writing (ul_conn s) 0 \<noteq> None \<and> lc_writing lc 0 = None \<and> lc_done lc = lc_done (ul_conn s)
                      then Some UnexpectedEOF else ul_failed s)\<rparr>)"

definition uds_run where
  "uds_run wr es s = fold (uds_on wr) es s"

definition uds_link0 :: "Client \<Rightarrow> 'w \<Rightarrow> 'w uds_link" where
  "uds_link0 c w = \<lparr>ul_client = c, ul_conn = locked_conn0 w, ul_hold = None, ul_failed = None, ul_returned = False, ul_offered = []\<rparr>"

fun small :: "uds_event \<Rightarrow> bool" where
  "small (Offered b) \<longleftrightarrow> length b \<le> maxFrameSize"
| "small (Answer g b) \<longleftrightarrow> length b \<le> maxFrameSize"
| "small e \<longleftrightarrow> True"

text \<open>Of what was offered, the writer has written the beginning, holds the next and has the rest before it.\<close>

definition by_writer :: "(nat \<times> bytes) list \<Rightarrow> bytes list" where
  "by_writer ms = map snd (filter (\<lambda>m. fst m = 0) ms)"

definition uds_inv :: "('w \<Rightarrow> bytes) \<Rightarrow> ('w \<Rightarrow> bool) \<Rightarrow> 'w uds_link \<Rightarrow> bool" where
  "uds_inv out broken s \<longleftrightarrow> uds.whole out broken (ul_conn s) \<and>
     by_writer (lc_begun (ul_conn s)) @ (case ul_hold s of None \<Rightarrow> [] | Some b \<Rightarrow> [b]) @ OutCh (ul_client s) = ul_offered s \<and>
     (\<forall>b\<in>set (ul_offered s). length b \<le> maxFrameSize)"

lemma go_on_begun [simp]: "lc_begun (write_go_on wr g s) = lc_begun s"
  by (auto simp: write_go_on_def split: option.split list.split prod.split)

lemma begin_begun:
  "lc_begun (write_begin_frame parts True g x s) =
     lc_begun s @ (if lc_writing s g \<noteq> None \<or> lc_writeMu s \<noteq> None then [] else [(g, x)])"
  by (simp add: write_begin_frame_def)

lemma uds_writer_cases:
  assumes "uds_writer first f c = Some (c', r)"
  shows "r = Writer_returns \<and> c' = c \<or> (\<exists>b. r = Writer_writes b \<and> OutCh c = b # OutCh c')"
  using assms by (auto simp: uds_writer_def split: if_splits list.splits)

lemma uds_on_inv:
  assumes "writer_laws wr out" "errors_stay wr broken" "uds_inv out broken s" "small e"
  shows "uds_inv out broken (uds_on wr e s)"
proof -
  have w: "uds.whole out broken (ul_conn s)"
    and o: "by_writer (lc_begun (ul_conn s)) @ (case ul_hold s of None \<Rightarrow> [] | Some b \<Rightarrow> [b]) @ OutCh (ul_client s) = ul_offered s"
    and l: "\<forall>b\<in>set (ul_offered s). length b \<le> maxFrameSize"
    using assms(3) by (auto simp: uds_inv_def)
  show ?thesis
  proof (cases e)
    case (Offered b)
    have "by_writer (lc_begun (ul_conn s)) @ (case ul_hold s of None \<Rightarrow> [] | Some b \<Rightarrow> [b]) @ (OutCh (ul_client s) @ [b]) = ul_offered s @ [b]"
      by (simp only: o [symmetric] append_assoc)
    with Offered w o l assms(4) show ?thesis by (cases "length (OutCh (ul_client s)) < outch_cap") (simp_all add: uds_inv_def offer_def)
  next
    case Detached
    then show ?thesis using w o l by (simp add: uds_inv_def)
  next
    case (Writer_select first)
    show ?thesis
    proof (cases "ul_returned s \<or> ul_hold s \<noteq> None \<or> lc_writing (ul_conn s) 0 \<noteq> None")
      case False
      show ?thesis
      proof (cases "uds_writer first (ul_failed s) (ul_client s)")
        case None
        then show ?thesis using Writer_select assms(3) by simp
      next
        case (Some cr)
        obtain c r where cr: "cr = (c, r)" by force
        from uds_writer_cases [OF Some [unfolded cr]] show ?thesis
        proof (elim disjE conjE exE)
          assume "r = Writer_returns" "c = ul_client s"
          then show ?thesis using Writer_select False w o l Some cr by (simp add: uds_inv_def)
        next
          fix b assume "r = Writer_writes b" "OutCh (ul_client s) = b # OutCh c"
          then show ?thesis using Writer_select False w o l Some cr by (simp add: uds_inv_def)
        qed
      qed
    qed (use Writer_select assms(3) in simp)
  next
    case Writer_locks
    show ?thesis
    proof (cases "ul_hold s")
      case (Some b)
      then have "b \<in> set (ul_offered s)" by (simp flip: o)
      then have "length b \<le> maxFrameSize" using l by blast
      then show ?thesis using Writer_locks Some w o l uds.begin_whole [OF w, of b 0]
        by (auto simp: uds_inv_def begin_begun by_writer_def)
    qed (use Writer_locks assms(3) in simp)
  next
    case (Answer g b)
    then show ?thesis using w o l assms(4) uds.begin_whole [OF w, of b g]
      by (auto simp: uds_inv_def begin_begun by_writer_def)
  next
    case (Written g)
    then show ?thesis using w o l uds.go_on_whole [OF assms(1,2) w, of g] by (simp add: uds_inv_def Let_def)
  qed
qed

lemma uds_run_inv:
  assumes "writer_laws wr out" "errors_stay wr broken" "uds_inv out broken s" "\<forall>e\<in>set es. small e"
  shows "uds_inv out broken (uds_run wr es s)"
  using assms(3,4) unfolding uds_run_def
  by (induction es arbitrary: s) (simp_all add: uds_on_inv [OF assms(1,2)] del: uds_on.simps)

text \<open>C30. Output and answers share the Unix socket of an attached client. However the goroutines are
  scheduled, Write splits what they write, and the stream is cut, the peer reads whole frames: those
  of the answers, and of the output a first part of what the session put into the channel, in order.
  Every frame whose write succeeded is among them.\<close>

theorem socket_output_in_order:
  assumes "writer_laws wr out" "errors_stay wr broken" "out w = []" "\<not> broken w" "OutCh c = []" "\<forall>e\<in>set es. small e"
    "s = uds_run wr es (uds_link0 c w)"
  shows "\<exists>n. fst (read_all ReadFrame (take k (out (lc_conn (ul_conn s))))) = map snd (take n (lc_begun (ul_conn s))) \<and>
    prefix (by_writer (take n (lc_begun (ul_conn s)))) (ul_offered s) \<and>
    prefix (map snd (lc_done (ul_conn s))) (fst (read_all ReadFrame (out (lc_conn (ul_conn s)))))"
proof -
  have "uds.whole out broken (locked_conn0 w)" by (rule uds.start_whole [where out = out and broken = broken, OF assms(3,4)])
  then have "uds_inv out broken (uds_link0 c w)"
    using assms(5) by (simp add: uds_inv_def uds_link0_def locked_conn0_def by_writer_def)
  then have inv: "uds_inv out broken s" unfolding assms(7) using assms(6) by (rule uds_run_inv [OF assms(1,2)])
  then have r: "prefix (fst (read_all ReadFrame (take k (out (lc_conn (ul_conn s)))))) (map snd (lc_begun (ul_conn s)))"
    "prefix (map snd (lc_done (ul_conn s))) (fst (read_all ReadFrame (out (lc_conn (ul_conn s)))))"
    using uds.whole_reads by (auto simp: uds_inv_def)
  obtain n where "fst (read_all ReadFrame (take k (out (lc_conn (ul_conn s))))) = take n (map snd (lc_begun (ul_conn s)))"
    using r(1) by (metis append_eq_conv_conj prefixE)
  moreover have "prefix (by_writer (take n ms)) (by_writer ms)" for ms
    by (metis append_take_drop_id by_writer_def filter_append map_append prefixI)
  then have "prefix (by_writer (take n (lc_begun (ul_conn s)))) (ul_offered s)"
    using inv unfolding uds_inv_def by (metis append.assoc prefix_order.trans prefixI)
  ultimately show ?thesis using r(2) by (metis take_map)
qed

definition answered_between :: "uds_event list" where
  "answered_between =
     [Offered [7, 8, 9], Offered [6], Writer_select False, Writer_locks, Written 0, Answer 1 [5], Written 0, Written 0, Written 0,
      Written 0, Answer 1 [5], Writer_select True, Writer_locks, Written 1, Written 1, Written 1, Written 1, Detached,
      Writer_locks, Written 0, Written 0, Written 0, Written 0, Writer_select True]"

definition idle_client :: Client where
  "idle_client = \<lparr>cl_ID = ''client-1'', OutCh = [], cl_Done = False, QUICClientID = 0, cl_Protocol = ''UDS'', cl_RemoteAddr = ''''\<rparr>"

lemma answered_between_run:
  "map snd (lc_done (ul_conn (uds_run two_bytes answered_between (uds_link0 idle_client [])))) = [[7, 8, 9], [5], [6]] \<and>
   ul_offered (uds_run two_bytes answered_between (uds_link0 idle_client [])) = [[7, 8, 9], [6]]"
  by (simp add: uds_run_def answered_between_def uds_link0_def idle_client_def locked_conn0_def write_begin_frame_def
      write_go_on_def two_bytes_def netx_parts_def four_bytes offer_def outch_cap_def uds_writer_def Let_def)

lemma socket_output_in_order_witness:
  "prefix [[7, 8, 9], [5], [6]] (fst (read_all ReadFrame (lc_conn (ul_conn (uds_run two_bytes answered_between (uds_link0 idle_client []))))))"
proof -
  have "\<forall>e\<in>set answered_between. small e" by (simp add: answered_between_def maxFrameSize_def)
  from socket_output_in_order [OF two_bytes_laws _ _ _ this refl, of "[]" idle_client]
  show ?thesis using answered_between_run by (auto simp: idle_client_def)
qed

end
