(* ===== verification/Auth.thy ===== *)
theory Auth
  imports Prelude
begin

text \<open>
  Authentication of the QUIC connections (internal/qtransport/auth.go): both ends derive Ed25519
  identities from the shared key and pin each other's. HKDF, Ed25519 and X.509 are parameters; what
  TLS does with the two configurations is that each side sees the certificate of the other, whose
  private key the other holds, and runs the verification it configured.
\<close>

section \<open>Identities\<close>

(* internal/qtransport/auth.go:26-27 ALPN *)
definition ALPN :: string where
  "ALPN = ''tezzer/1''"

(* internal/qtransport/auth.go:29-32 labelServerIdentity *)
definition labelServerIdentity :: string where
  "labelServerIdentity = ''tezzer server identity''"

(* internal/qtransport/auth.go:29-32 labelClientIdentity *)
definition labelClientIdentity :: string where
  "labelClientIdentity = ''tezzer client identity''"

datatype public_key = Ed25519Key bytes | OtherKey

text \<open>hkdf reads a seed for a key and a label, public gives a seed's public key, create and parse are
  x509.CreateCertificate and ParseCertificate.\<close>

record crypto =
  hkdf :: "bytes \<Rightarrow> string \<Rightarrow> err + bytes"
  public :: "bytes \<Rightarrow> bytes"
  create :: "bytes \<Rightarrow> bytes \<Rightarrow> err + bytes"
  parse :: "bytes \<Rightarrow> err + public_key"

(* internal/qtransport/auth.go:34-44 deriveIdentity *)
definition deriveIdentity :: "crypto \<Rightarrow> bytes \<Rightarrow> string \<Rightarrow> err + bytes \<times> bytes" where
  "deriveIdentity cr k label =
     (case hkdf cr k label of Inl e \<Rightarrow> Inl e | Inr seed \<Rightarrow> Inr (public cr seed, seed))"

(* internal/qtransport/auth.go:46-66 selfSignedCert *)
definition selfSignedCert :: "crypto \<Rightarrow> bytes \<Rightarrow> bytes \<Rightarrow> err + bytes list" where
  "selfSignedCert cr pub priv =
     (case create cr pub priv of Inl e \<Rightarrow> Inl e | Inr der \<Rightarrow> Inr [der])"

(* internal/qtransport/auth.go:68-88 pinVerify *)
definition pinVerify :: "crypto \<Rightarrow> bytes \<Rightarrow> bytes list \<Rightarrow> err option" where
  "pinVerify cr expected rawCerts =
     (case rawCerts of
        [] \<Rightarrow> Some (ErrorString ''no peer certificate'')
      | der # _ \<Rightarrow>
          (case parse cr der of
             Inl e \<Rightarrow> Some e
           | Inr OtherKey \<Rightarrow> Some (ErrorString ''peer key is not ed25519'')
           | Inr (Ed25519Key got) \<Rightarrow>
               if got \<noteq> expected
               then Some (ErrorString ''peer public key does not match shared-key-derived identity'')
               else None))"

section \<open>Configurations\<close>

text \<open>The fields of tls.Config that are set; the expected key stands for VerifyPeerCertificate.\<close>

record tls_Config =
  Certificates :: "bytes list"
  VerifyPeer :: bytes
  NextProtos :: "string list"
  MinVersion :: "16 word"
  RequireAnyClientCert :: bool
  InsecureSkipVerify :: bool

text \<open>The constant of crypto/tls.\<close>

definition VersionTLS13 :: "16 word" where
  "VersionTLS13 = 0x0304"

(* internal/qtransport/auth.go:90-120 tlsConfig *)
definition tlsConfig :: "crypto \<Rightarrow> bool \<Rightarrow> bytes \<Rightarrow> bytes \<Rightarrow> err + tls_Config" where
  "tlsConfig cr isServer ownK expectPeerK =
     (let (ownLabel, peerLabel) =
            (if isServer then (labelServerIdentity, labelClientIdentity)
             else (labelClientIdentity, labelServerIdentity)) in
      case deriveIdentity cr ownK ownLabel of
        Inl e \<Rightarrow> Inl e
      | Inr (ownPub, ownPriv) \<Rightarrow>
          (case selfSignedCert cr ownPub ownPriv of
             Inl e \<Rightarrow> Inl e
           | Inr cert \<Rightarrow>
               (case deriveIdentity cr expectPeerK peerLabel of
                  Inl e \<Rightarrow> Inl e
                | Inr (peerPub, _) \<Rightarrow>
                    Inr \<lparr>Certificates = cert, VerifyPeer = peerPub, NextProtos = [ALPN], MinVersion = VersionTLS13,
                      RequireAnyClientCert = isServer, InsecureSkipVerify = \<not> isServer\<rparr>)))"

(* internal/qtransport/auth.go:122-123 ServerTLS *)
definition ServerTLS :: "crypto \<Rightarrow> bytes \<Rightarrow> err + tls_Config" where
  "ServerTLS cr k = tlsConfig cr True k k"

(* internal/qtransport/auth.go:125-126 ClientTLS *)
definition ClientTLS :: "crypto \<Rightarrow> bytes \<Rightarrow> err + tls_Config" where
  "ClientTLS cr k = tlsConfig cr False k k"

section \<open>Mutual authentication\<close>

text \<open>One side accepts the other when the verification it configured accepts the certificates the
  other presents. A server that does not ask for a certificate would see none; a client that does
  not skip the verification of the chain refuses a self-signed certificate.\<close>

definition accepts :: "crypto \<Rightarrow> tls_Config \<Rightarrow> tls_Config \<Rightarrow> bool" where
  "accepts cr own peer \<longleftrightarrow> pinVerify cr (VerifyPeer own) (Certificates peer) = None"

definition handshake :: "crypto \<Rightarrow> tls_Config \<Rightarrow> tls_Config \<Rightarrow> bool" where
  "handshake cr server client \<longleftrightarrow>
     RequireAnyClientCert server \<and> InsecureSkipVerify client \<and>
     accepts cr server client \<and> accepts cr client server \<and> NextProtos server = NextProtos client"

text \<open>What is relied on: a certificate carries the key it was made for; and among the keys ks that are in
  play, no two pairs of a key and one of the two labels happen to give the same public key. The second
  is no law of HKDF and Ed25519, whose outputs are finitely many, but only fails for keys that collide.\<close>

definition crypto_laws :: "crypto \<Rightarrow> bytes set \<Rightarrow> bool" where
  "crypto_laws cr ks \<longleftrightarrow>
     (\<forall>pub priv der. create cr pub priv = Inr der \<longrightarrow> parse cr der = Inr (Ed25519Key pub)) \<and>
     (\<forall>k\<in>ks. \<forall>k'\<in>ks. \<forall>l l' s s'. l \<in> {labelServerIdentity, labelClientIdentity} \<longrightarrow>
        l' \<in> {labelServerIdentity, labelClientIdentity} \<longrightarrow> hkdf cr k l = Inr s \<longrightarrow> hkdf cr k' l' = Inr s' \<longrightarrow>
        public cr s = public cr s' \<longrightarrow> k = k' \<and> l = l')"

lemma labels_differ: "labelServerIdentity \<noteq> labelClientIdentity"
  by (simp add: labelServerIdentity_def labelClientIdentity_def)

lemma identity_inj:
  assumes "crypto_laws cr ks" "k \<in> ks" "k' \<in> ks" "l \<in> {labelServerIdentity, labelClientIdentity}"
    "l' \<in> {labelServerIdentity, labelClientIdentity}" "hkdf cr k l = Inr s" "hkdf cr k' l' = Inr s'"
    "public cr s = public cr s'"
  shows "k = k' \<and> l = l'"
  using assms unfolding crypto_laws_def by blast

text \<open>A configuration presents the identity of its role and expects the other role's.\<close>

lemma tlsConfig_keys:
  assumes "crypto_laws cr ks" "tlsConfig cr srv own peer = Inr cfg"
  shows "\<exists>s s' der. hkdf cr own (if srv then labelServerIdentity else labelClientIdentity) = Inr s \<and>
     hkdf cr peer (if srv then labelClientIdentity else labelServerIdentity) = Inr s' \<and>
     Certificates cfg = [der] \<and> parse cr der = Inr (Ed25519Key (public cr s)) \<and> VerifyPeer cfg = public cr s' \<and>
     NextProtos cfg = [ALPN] \<and> RequireAnyClientCert cfg = srv \<and> InsecureSkipVerify cfg = (\<not> srv)"
  using assms
  by (cases srv) (auto simp: tlsConfig_def deriveIdentity_def selfSignedCert_def crypto_laws_def split: sum.splits)

lemma accepts_iff:
  assumes "crypto_laws cr ks" "tlsConfig cr srv own peer = Inr a" "tlsConfig cr srv' own' peer' = Inr b"
    "peer \<in> ks" "own' \<in> ks"
  shows "accepts cr a b \<longleftrightarrow> srv' = (\<not> srv) \<and> own' = peer"
proof -
  obtain s' where a: "hkdf cr peer (if srv then labelClientIdentity else labelServerIdentity) = Inr s'"
    "VerifyPeer a = public cr s'"
    using tlsConfig_keys [OF assms(1,2)] by blast
  obtain s der where b: "hkdf cr own' (if srv' then labelServerIdentity else labelClientIdentity) = Inr s"
    "Certificates b = [der]" "parse cr der = Inr (Ed25519Key (public cr s))"
    using tlsConfig_keys [OF assms(1,3)] by blast
  have "accepts cr a b \<longleftrightarrow> public cr s = public cr s'"
    by (simp add: accepts_def pinVerify_def a(2) b(2,3))
  also have "\<dots> \<longleftrightarrow> srv' = (\<not> srv) \<and> own' = peer"
  proof
    let ?l = "if srv' then labelServerIdentity else labelClientIdentity"
      and ?m = "if srv then labelClientIdentity else labelServerIdentity"
    assume "public cr s = public cr s'"
    then have "own' = peer \<and> ?l = ?m"
      using identity_inj [OF assms(1,5,4) _ _ b(1) a(1)] by simp
    then show "srv' = (\<not> srv) \<and> own' = peer"
      using labels_differ by (cases srv; cases srv') auto
  qed (use a(1) b(1) in auto)
  finally show ?thesis .
qed

text \<open>C37. The two ends of a QUIC connection authenticate each other exactly when they hold the same
  shared key (two keys whose derived identities do not collide); a server never accepts the certificate of a server, nor a client that of a client, so an
  identity cannot be reflected to its owner.\<close>

theorem same_key_authenticates:
  assumes "crypto_laws cr {k, k'}" "ServerTLS cr k = Inr server" "ClientTLS cr k' = Inr client"
  shows "(handshake cr server client \<longleftrightarrow> k = k') \<and> \<not> accepts cr server server \<and> \<not> accepts cr client client"
proof -
  note s = assms(2) [unfolded ServerTLS_def] and c = assms(3) [unfolded ClientTLS_def]
  have "NextProtos server = NextProtos client" "RequireAnyClientCert server" "InsecureSkipVerify client"
    using tlsConfig_keys [OF assms(1) s] tlsConfig_keys [OF assms(1) c] by auto
  then show ?thesis
    using accepts_iff [OF assms(1) s c] accepts_iff [OF assms(1) c s]
      accepts_iff [OF assms(1) s s] accepts_iff [OF assms(1) c c]
    by (auto simp: handshake_def)
qed

definition plain_crypto :: crypto where
  "plain_crypto =
     \<lparr>hkdf = (\<lambda>k l. Inr ((if l = labelServerIdentity then 1 else 0) # k)), public = (\<lambda>s. s),
      create = (\<lambda>pub priv. Inr pub), parse = (\<lambda>der. Inr (Ed25519Key der))\<rparr>"

theorem same_key_authenticates_witness:
  "\<exists>server client. ServerTLS plain_crypto [7] = Inr server \<and> ClientTLS plain_crypto [8] = Inr client \<and>
     \<not> handshake plain_crypto server client"
proof -
  have laws: "crypto_laws plain_crypto {[7], [8]}"
    using labels_differ by (auto simp: crypto_laws_def plain_crypto_def split: if_splits)
  obtain server where s: "ServerTLS plain_crypto [7] = Inr server"
    by (simp add: ServerTLS_def tlsConfig_def deriveIdentity_def selfSignedCert_def plain_crypto_def)
  obtain client where c: "ClientTLS plain_crypto [8] = Inr client"
    by (simp add: ClientTLS_def tlsConfig_def deriveIdentity_def selfSignedCert_def plain_crypto_def)
  show ?thesis using same_key_authenticates [OF laws s c] s c by simp
qed

end
