(* ===== verification/Remote_Forward.thy ===== *)
theory Remote_Forward
  imports Transport_Types Go_Strings
begin

text \<open>
  The registry of remote port forwards, -R (internal/session/rforward.go). A listen port is a
  resource of the host: clients of one device that register the same port are its providers, a
  client of another device waits until the port is released. A provider that ends on purpose is
  removed; one that loses its connection stays dormant for a day and keeps the listener. Go maps are
  lists with distinct keys, whose order is the (arbitrary) order of iteration. The clock, net.Listen
  and the transports are parameters; a critical section reads the clock once.
\<close>

section \<open>State\<close>

(* internal/session/rforward.go:37-38 rfwdDormantTTL *)
definition rfwdDormantTTL :: int where
  "rfwdDormantTTL = 24 * 3600 * 1000000000"

(* internal/session/rforward.go:44-45 maxRFwdConnsPerPort *)
definition maxRFwdConnsPerPort :: nat where
  "maxRFwdConnsPerPort = 64"

(* internal/session/rforward.go:46-47 maxRFwdPortsPerClient *)
definition maxRFwdPortsPerClient :: nat where
  "maxRFwdPortsPerClient = 16"

text \<open>A transport is referred to by a number.\<close>

(* internal/session/rforward.go:50-59 rfwdProv *)
record rfwdProv =
  rp_st :: nat
  rp_id :: ClientID
  rp_device :: string
  rp_live :: bool
  rp_helloAt :: int
  rp_lostAt :: int
  rp_notice :: string

(* internal/session/rforward.go:61-74 rfwdPort *)
record rfwdPort =
  pt_port :: port
  pt_owner :: string
  pt_lns :: "nat list"
  pt_bindErr :: string
  pt_provs :: "rfwdProv list"
  pt_active :: nat
  pt_opened :: nat
  pt_bytesIn :: nat
  pt_bytesOut :: nat
  pt_ownerFrom :: int

(* internal/session/rforward.go:76-81 rfwdNotice *)
record rfwdNotice =
  rn_st :: nat
  rn_id :: ClientID
  rn_msg :: string

text \<open>The registry's map from ports, as the list of its values.\<close>

(* internal/session/rforward.go:83-99 rfwdRegistry *)
type_synonym rfwdRegistry = "rfwdPort list"

definition new_port :: "port \<Rightarrow> rfwdPort" where
  "new_port p = \<lparr>pt_port = p, pt_owner = [], pt_lns = [], pt_bindErr = [], pt_provs = [], pt_active = 0,
     pt_opened = 0, pt_bytesIn = 0, pt_bytesOut = 0, pt_ownerFrom = 0\<rparr>"

definition find_prov :: "ClientID \<Rightarrow> rfwdPort \<Rightarrow> rfwdProv option" where
  "find_prov i p = find (\<lambda>pr. rp_id pr = i) (pt_provs p)"

definition del_prov :: "ClientID \<Rightarrow> rfwdPort \<Rightarrow> rfwdPort" where
  "del_prov i p = p\<lparr>pt_provs := filter (\<lambda>pr. rp_id pr \<noteq> i) (pt_provs p)\<rparr>"

section \<open>One port\<close>

(* internal/session/rforward.go:302-309 hasDevice *)
definition hasDevice :: "rfwdPort \<Rightarrow> string \<Rightarrow> bool" where
  "hasDevice p device \<longleftrightarrow> list_ex (\<lambda>pr. rp_device pr = device) (pt_provs p)"

(* internal/session/rforward.go:311-324 latestLive *)
definition latestLive :: "rfwdPort \<Rightarrow> string \<Rightarrow> rfwdProv option" where
  "latestLive p device =
     fold (\<lambda>pr best.
        if \<not> rp_live pr \<or> (device \<noteq> [] \<and> rp_device pr \<noteq> device) then best
        else (case best of
                None \<Rightarrow> Some pr
              | Some b \<Rightarrow> if rp_helloAt pr > rp_helloAt b then Some pr else best)) (pt_provs p) None"

text \<open>listen network addr is net.Listen: the text of its error or a listener.\<close>

(* internal/session/rforward.go:326-339 bind *)
definition rfwd_bind :: "(string \<Rightarrow> string \<Rightarrow> string + nat) \<Rightarrow> port \<Rightarrow> string + nat list" where
  "rfwd_bind listen p =
     (let ps = show_nat (unat p) in
      case listen ''tcp4'' (JoinHostPort ''127.0.0.1'' ps) of
        Inl e \<Rightarrow> Inl e
      | Inr ln4 \<Rightarrow>
          (case listen ''tcp6'' (JoinHostPort ''::1'' ps) of
             Inl e \<Rightarrow> Inr [ln4]
           | Inr ln6 \<Rightarrow> Inr [ln4, ln6]))"

(* internal/session/rforward.go:222-228 closeListeners *)
definition closeListeners :: "rfwdPort \<Rightarrow> rfwdPort" where
  "closeListeners p = p\<lparr>pt_lns := [], pt_owner := []\<rparr>"

(* internal/session/rforward.go:288-300 stateFor *)
definition stateFor :: "rfwdPort \<Rightarrow> rfwdProv \<Rightarrow> string \<times> string" where
  "stateFor p pr =
     (let n = show_nat (unat (pt_port p)) in
      if pt_owner p = rp_device pr then
        (''active'', ''-R '' @ n @ '': listening on server localhost:'' @ n)
      else if pt_owner p \<noteq> [] then
        (''busy'', ''-R '' @ n @ '': port in use by another device; waiting until it is released'')
      else if pt_bindErr p \<noteq> [] then
        (''bindfail:'' @ pt_bindErr p,
         ''-R '' @ n @ '': cannot listen on server ('' @ pt_bindErr p @ ''); retrying every 30s'')
      else ([], []))"

(* internal/session/rforward.go:234-238 reconcileLocked *)
definition expire_provs :: "int \<Rightarrow> rfwdPort \<Rightarrow> rfwdPort" where
  "expire_provs now p =
     p\<lparr>pt_provs := filter (\<lambda>pr. \<not> (\<not> rp_live pr \<and> now - rp_lostAt pr > rfwdDormantTTL)) (pt_provs p)\<rparr>"

(* internal/session/rforward.go:240-244 reconcileLocked *)
definition release_port :: "rfwdPort \<Rightarrow> rfwdPort" where
  "release_port p =
     (if pt_owner p \<noteq> [] \<and> \<not> hasDevice p (pt_owner p) then closeListeners p else p)"

(* internal/session/rforward.go:246-266 reconcileLocked *)
definition take_port :: "(string \<Rightarrow> string \<Rightarrow> string + nat) \<Rightarrow> int \<Rightarrow> rfwdPort \<Rightarrow> rfwdPort" where
  "take_port listen now p =
     (if pt_owner p = [] then
        (case latestLive p [] of
           None \<Rightarrow> p
         | Some cand \<Rightarrow>
             (case rfwd_bind listen (pt_port p) of
                Inl e \<Rightarrow> p\<lparr>pt_bindErr := e\<rparr>
              | Inr lns \<Rightarrow> p\<lparr>pt_owner := rp_device cand, pt_lns := lns, pt_bindErr := [], pt_ownerFrom := now\<rparr>))
      else p)"

(* internal/session/rforward.go:268-279 reconcileLocked *)
fun notify_provs :: "rfwdPort \<Rightarrow> rfwdProv list \<Rightarrow> rfwdProv list \<times> rfwdNotice list" where
  "notify_provs p [] = ([], [])"
| "notify_provs p (pr # prs) =
     (let (prs', ns) = notify_provs p prs; (state, msg) = stateFor p pr in
      if \<not> rp_live pr \<or> state = rp_notice pr then (pr # prs', ns)
      else (pr\<lparr>rp_notice := state\<rparr> # prs', \<lparr>rn_st = rp_st pr, rn_id = rp_id pr, rn_msg = msg\<rparr> # ns))"

text \<open>The port after reconciliation, None when it is removed from the registry.\<close>

(* internal/session/rforward.go:230-286 reconcileLocked *)
definition reconcileLocked ::
  "(string \<Rightarrow> string \<Rightarrow> string + nat) \<Rightarrow> int \<Rightarrow> rfwdPort \<Rightarrow> rfwdPort option \<times> rfwdNotice list" where
  "reconcileLocked listen now p =
     (let p1 = take_port listen now (release_port (expire_provs now p));
          (prs, ns) = notify_provs p1 (pt_provs p1);
          p2 = p1\<lparr>pt_provs := prs\<rparr> in
      if length (pt_provs p2) = 0 then (None, ns) else (Some p2, ns))"

section \<open>Registry operations\<close>

text \<open>for every port: leave it, or change and reconcile it. Notices are gathered in order.\<close>

fun each_port ::
  "(string \<Rightarrow> string \<Rightarrow> string + nat) \<Rightarrow> int \<Rightarrow> (rfwdPort \<Rightarrow> rfwdPort option) \<Rightarrow> rfwdRegistry \<Rightarrow>
   rfwdRegistry \<times> rfwdNotice list" where
  "each_port listen now f [] = ([], [])"
| "each_port listen now f (p # ps) =
     (let (ps', ns') = each_port listen now f ps in
      case f p of
        None \<Rightarrow> (p # ps', ns')
      | Some q \<Rightarrow>
          (case reconcileLocked listen now q of
             (None, ns) \<Rightarrow> (ps', ns @ ns')
           | (Some r, ns) \<Rightarrow> (r # ps', ns @ ns')))"

(* internal/session/rforward.go:141-151 hello *)
definition hello_prov :: "nat \<Rightarrow> ClientID \<Rightarrow> string \<Rightarrow> int \<Rightarrow> rfwdPort \<Rightarrow> rfwdPort" where
  "hello_prov st i device now p =
     (let fresh = \<lparr>rp_st = 0, rp_id = i, rp_device = device, rp_live = False, rp_helloAt = 0, rp_lostAt = 0, rp_notice = []\<rparr>;
          upd = (\<lambda>pr. pr\<lparr>rp_st := st, rp_live := True, rp_helloAt := now, rp_lostAt := 0, rp_notice := []\<rparr>) in
      case find_prov i p of
        None \<Rightarrow> p\<lparr>pt_provs := pt_provs p @ [upd fresh]\<rparr>
      | Some pr \<Rightarrow>
          p\<lparr>pt_provs := map (\<lambda>q. if rp_id q = i then upd (if rp_device q \<noteq> device then fresh else q) else q) (pt_provs p)\<rparr>)"

definition find_port :: "port \<Rightarrow> rfwdRegistry \<Rightarrow> rfwdPort option" where
  "find_port n r = find (\<lambda>p. pt_port p = n) r"

text \<open>One wanted port.\<close>

(* internal/session/rforward.go:135-153 hello *)
definition hello_port ::
  "(string \<Rightarrow> string \<Rightarrow> string + nat) \<Rightarrow> int \<Rightarrow> nat \<Rightarrow> ClientID \<Rightarrow> string \<Rightarrow> port \<Rightarrow> rfwdRegistry \<Rightarrow>
   rfwdRegistry \<times> rfwdNotice list" where
  "hello_port listen now st i device n r =
     (let r1 = (if find_port n r = None then r @ [new_port n] else r) in
      each_port listen now (\<lambda>p. if pt_port p = n then Some (hello_prov st i device now p) else None) r1)"

fun hello_ports ::
  "(string \<Rightarrow> string \<Rightarrow> string + nat) \<Rightarrow> int \<Rightarrow> nat \<Rightarrow> ClientID \<Rightarrow> string \<Rightarrow> port list \<Rightarrow> rfwdRegistry \<Rightarrow>
   rfwdRegistry \<times> rfwdNotice list" where
  "hello_ports listen now st i device [] r = (r, [])"
| "hello_ports listen now st i device (n # ns) r =
     (let (r1, o1) = hello_port listen now st i device n r;
          (r2, o2) = hello_ports listen now st i device ns r1 in (r2, o1 @ o2))"

definition wanted_ports :: "port list \<Rightarrow> port list" where
  "wanted_ports ports = remdups (filter (\<lambda>p. p \<noteq> 0) (take maxRFwdPortsPerClient ports))"

(* internal/session/rforward.go:113-156 hello *)
definition rfwd_hello ::
  "(string \<Rightarrow> string \<Rightarrow> string + nat) \<Rightarrow> int \<Rightarrow> nat \<Rightarrow> ClientID \<Rightarrow> string \<Rightarrow> port list \<Rightarrow> rfwdRegistry \<Rightarrow>
   rfwdRegistry \<times> rfwdNotice list" where
  "rfwd_hello listen now st i device ports r =
     (let want = wanted_ports ports;
          (r1, o1) = each_port listen now
            (\<lambda>p. if find_prov i p \<noteq> None \<and> pt_port p \<notin> set want then Some (del_prov i p) else None) r;
          (r2, o2) = hello_ports listen now st i device want r1 in
      (r2, o1 @ o2))"

(* internal/session/rforward.go:158-179 gone *)
definition rfwd_gone ::
  "(string \<Rightarrow> string \<Rightarrow> string + nat) \<Rightarrow> int \<Rightarrow> ClientID \<Rightarrow> bool \<Rightarrow> rfwdRegistry \<Rightarrow> rfwdRegistry \<times> rfwdNotice list" where
  "rfwd_gone listen now i explicit r =
     each_port listen now
       (\<lambda>p. case find_prov i p of
              None \<Rightarrow> None
            | Some pr \<Rightarrow>
                if explicit \<or> rp_device pr \<noteq> pt_owner p then Some (del_prov i p)
                else Some (p\<lparr>pt_provs := map (\<lambda>q. if rp_id q = i then q\<lparr>rp_live := False, rp_lostAt := now\<rparr> else q)
                                            (pt_provs p)\<rparr>)) r"

(* internal/session/rforward.go:181-199 dropSession *)
definition rfwd_dropSession ::
  "(string \<Rightarrow> string \<Rightarrow> string + nat) \<Rightarrow> int \<Rightarrow> string \<Rightarrow> rfwdRegistry \<Rightarrow> rfwdRegistry \<times> rfwdNotice list" where
  "rfwd_dropSession listen now sessionID r =
     each_port listen now
       (\<lambda>p. if list_ex (\<lambda>pr. cid_Session (rp_id pr) = sessionID) (pt_provs p)
            then Some (p\<lparr>pt_provs := filter (\<lambda>pr. cid_Session (rp_id pr) \<noteq> sessionID) (pt_provs p)\<rparr>)
            else None) r"

(* internal/session/rforward.go:201-210 tick *)
definition rfwd_tick ::
  "(string \<Rightarrow> string \<Rightarrow> string + nat) \<Rightarrow> int \<Rightarrow> rfwdRegistry \<Rightarrow> rfwdRegistry \<times> rfwdNotice list" where
  "rfwd_tick listen now r = each_port listen now Some r"

text \<open>The listeners closed and the empty registry.\<close>

(* internal/session/rforward.go:212-220 closeAll *)
definition rfwd_closeAll :: "rfwdRegistry \<Rightarrow> nat list \<times> rfwdRegistry" where
  "rfwd_closeAll r = (concat (map pt_lns r), [])"

section \<open>Relaying\<close>

(* internal/session/rforward.go:353-371 targets *)
definition rfwd_targets :: "rfwdPort \<Rightarrow> (nat \<times> ClientID) list" where
  "rfwd_targets p =
     map (\<lambda>pr. (rp_st pr, rp_id pr))
       (sort_key (\<lambda>pr. - rp_helloAt pr) (filter (\<lambda>pr. rp_live pr \<and> rp_device pr = pt_owner p) (pt_provs p)))"

datatype open_result = Opened | Rejected | OpenFailed

text \<open>The targets tried, and the one that took the connection. open gives the outcome of
  OpenRemoteForward; a rejection ends the search.\<close>

(* internal/session/rforward.go:402-419 handleConn *)
fun try_targets :: "(nat \<times> ClientID \<Rightarrow> open_result) \<Rightarrow> (nat \<times> ClientID) list \<Rightarrow>
    (nat \<times> ClientID) list \<times> (nat \<times> ClientID) option" where
  "try_targets open_fwd [] = ([], None)"
| "try_targets open_fwd (t # ts) =
     (case open_fwd t of
        Opened \<Rightarrow> ([t], Some t)
      | Rejected \<Rightarrow> ([t], None)
      | OpenFailed \<Rightarrow> (case try_targets open_fwd ts of (tried, got) \<Rightarrow> (t # tried, got)))"

text \<open>The port while the connection is relayed (None when it is not), and after it.\<close>

(* internal/session/rforward.go:383-423 handleConn *)
definition rfwd_handleConn ::
  "(nat \<times> ClientID \<Rightarrow> open_result) \<Rightarrow> rfwdPort \<Rightarrow> (nat \<times> ClientID) list \<times> (nat \<times> ClientID) option \<times> rfwdPort" where
  "rfwd_handleConn open_fwd p =
     (if pt_active p + 1 > maxRFwdConnsPerPort then ([], None, p)
      else
        let ts = rfwd_targets p in
        if length ts = 0 then ([], None, p)
        else
          (case try_targets open_fwd (if length ts > 2 then take 2 ts else ts) of
             (tried, None) \<Rightarrow> (tried, None, p)
           | (tried, Some t) \<Rightarrow>
               (tried, Some t, p\<lparr>pt_active := pt_active p + 1, pt_opened := pt_opened p + 1\<rparr>)))"

text \<open>The end of a relay: the bytes copied each way are counted and the slot is free again.\<close>

(* internal/session/rforward.go:431-462 pipeForward *)
definition rfwd_pipe_done :: "nat \<Rightarrow> nat \<Rightarrow> rfwdPort \<Rightarrow> rfwdPort" where
  "rfwd_pipe_done to_peer from_peer p =
     p\<lparr>pt_bytesIn := pt_bytesIn p + to_peer, pt_bytesOut := pt_bytesOut p + from_peer, pt_active := pt_active p - 1\<rparr>"

section \<open>Reporting\<close>

(* internal/session/rforward.go:464-470 shortDevice *)
definition shortDevice :: "string \<Rightarrow> string" where
  "shortDevice d = (if length d > 8 then take 8 d else d)"

(* internal/proto/messages.go:246-260 RemoteForwardInfo *)
record RemoteForwardInfo =
  rfi_Port :: port
  rfi_Device :: string
  rfi_BindError :: string
  rfi_Live :: nat
  rfi_Dormant :: nat
  rfi_Waiting :: nat
  rfi_Active :: nat
  rfi_Opened :: nat
  rfi_BytesIn :: nat
  rfi_BytesOut :: nat
  rfi_ListenFrom :: int

definition count_provs :: "(rfwdProv \<Rightarrow> bool) \<Rightarrow> rfwdPort \<Rightarrow> nat" where
  "count_provs P p = length (filter P (pt_provs p))"

(* internal/session/rforward.go:472-504 snapshot *)
definition rfwd_snapshot :: "rfwdRegistry \<Rightarrow> RemoteForwardInfo list" where
  "rfwd_snapshot r =
     sort_key rfi_Port
       (map (\<lambda>p.
          let waiting = (\<lambda>pr. pt_owner p = [] \<or> rp_device pr \<noteq> pt_owner p) in
          \<lparr>rfi_Port = pt_port p, rfi_Device = shortDevice (pt_owner p),
           rfi_BindError = (if pt_owner p = [] then pt_bindErr p else []),
           rfi_Live = count_provs (\<lambda>pr. \<not> waiting pr \<and> rp_live pr) p,
           rfi_Dormant = count_provs (\<lambda>pr. \<not> waiting pr \<and> \<not> rp_live pr) p,
           rfi_Waiting = count_provs waiting p,
           rfi_Active = pt_active p, rfi_Opened = pt_opened p,
           rfi_BytesIn = pt_bytesIn p, rfi_BytesOut = pt_bytesOut p,
           rfi_ListenFrom = (if pt_owner p = [] then 0 else pt_ownerFrom p div 1000000000)\<rparr>) r)"

section \<open>Invariant\<close>

text \<open>What holds of a port before reconciliation: providers are distinct clients with a device, a
  listener is open exactly when a device owns the port, and only the owner's providers lie
  dormant. Reconciliation adds that the port has providers and its owner is one of their devices.\<close>

definition port_pre :: "rfwdPort \<Rightarrow> bool" where
  "port_pre p \<longleftrightarrow>
     distinct (map rp_id (pt_provs p)) \<and> (\<forall>pr\<in>set (pt_provs p). rp_device pr \<noteq> []) \<and>
     (pt_owner p = [] \<longleftrightarrow> pt_lns p = []) \<and>
     (\<forall>pr\<in>set (pt_provs p). \<not> rp_live pr \<longrightarrow> rp_device pr = pt_owner p)"

definition port_inv :: "rfwdPort \<Rightarrow> bool" where
  "port_inv p \<longleftrightarrow>
     port_pre p \<and> pt_provs p \<noteq> [] \<and> (pt_owner p \<noteq> [] \<longrightarrow> hasDevice p (pt_owner p))"

definition reg_inv :: "rfwdRegistry \<Rightarrow> bool" where
  "reg_inv r \<longleftrightarrow> distinct (map pt_port r) \<and> (\<forall>p\<in>set r. port_inv p \<and> pt_port p \<noteq> 0)"

lemma hasDevice_iff: "hasDevice p d \<longleftrightarrow> (\<exists>pr\<in>set (pt_provs p). rp_device pr = d)"
  by (simp add: hasDevice_def list_ex_iff)

lemma latestLive_fold:
  fixes d :: string
  defines "sel \<equiv> \<lambda>pr. rp_live pr \<and> (d \<noteq> [] \<longrightarrow> rp_device pr = d)"
  shows "fold (\<lambda>pr best. if \<not> rp_live pr \<or> (d \<noteq> [] \<and> rp_device pr \<noteq> d) then best
        else (case best of None \<Rightarrow> Some pr | Some b \<Rightarrow> if rp_helloAt pr > rp_helloAt b then Some pr else best)) prs best = res
    \<Longrightarrow> (case res of
          None \<Rightarrow> best = None \<and> (\<forall>pr\<in>set prs. \<not> sel pr)
        | Some b \<Rightarrow> (best = Some b \<or> (b \<in> set prs \<and> sel b)) \<and>
            (\<forall>pr\<in>set prs. sel pr \<longrightarrow> rp_helloAt pr \<le> rp_helloAt b) \<and>
            (\<forall>c. best = Some c \<longrightarrow> rp_helloAt c \<le> rp_helloAt b))"
proof (induction prs arbitrary: best)
  case Nil
  then show ?case by (auto split: option.split)
next
  case (Cons pr prs)
  define best' where "best' = (if \<not> rp_live pr \<or> (d \<noteq> [] \<and> rp_device pr \<noteq> d) then best
        else (case best of None \<Rightarrow> Some pr | Some b \<Rightarrow> if rp_helloAt pr > rp_helloAt b then Some pr else best))"
  have "fold (\<lambda>pr best. if \<not> rp_live pr \<or> (d \<noteq> [] \<and> rp_device pr \<noteq> d) then best
        else (case best of None \<Rightarrow> Some pr | Some b \<Rightarrow> if rp_helloAt pr > rp_helloAt b then Some pr else best)) prs best' = res"
    using Cons.prems by (simp add: best'_def)
  note ih = Cons.IH [OF this]
  show ?case
    using ih by (cases best; cases res; fastforce simp: best'_def sel_def split: if_splits)
qed

lemma latestLive_Some:
  "latestLive p d = Some b \<Longrightarrow>
   b \<in> set (pt_provs p) \<and> rp_live b \<and> (d \<noteq> [] \<longrightarrow> rp_device b = d) \<and>
   (\<forall>pr\<in>set (pt_provs p). rp_live pr \<and> (d \<noteq> [] \<longrightarrow> rp_device pr = d) \<longrightarrow> rp_helloAt pr \<le> rp_helloAt b)"
  using latestLive_fold [of d "pt_provs p" None "Some b"] by (simp add: latestLive_def)

lemma latestLive_None:
  "latestLive p d = None \<Longrightarrow> \<forall>pr\<in>set (pt_provs p). \<not> (rp_live pr \<and> (d \<noteq> [] \<longrightarrow> rp_device pr = d))"
  using latestLive_fold [of d "pt_provs p" None None] by (simp add: latestLive_def)

lemma bind_nonempty: "rfwd_bind listen p = Inr lns \<Longrightarrow> lns \<noteq> []"
  by (auto simp: rfwd_bind_def Let_def split: sum.splits)

lemma distinct_map_filter_id: "distinct (map f xs) \<Longrightarrow> distinct (map f (filter P xs))"
  by (induction xs) auto

lemma expire_pre: "port_pre p \<Longrightarrow> port_pre (expire_provs now p)"
  by (auto simp: port_pre_def expire_provs_def distinct_map_filter_id)

lemma release_pre:
  "port_pre p \<Longrightarrow> port_pre (release_port p) \<and>
   (pt_owner (release_port p) \<noteq> [] \<longrightarrow> hasDevice (release_port p) (pt_owner (release_port p)))"
  by (auto simp: release_port_def closeListeners_def port_pre_def hasDevice_iff)

lemma take_port_inv:
  assumes "port_pre p" "pt_owner p \<noteq> [] \<longrightarrow> hasDevice p (pt_owner p)"
  shows "port_pre (take_port listen now p) \<and>
    (pt_owner (take_port listen now p) \<noteq> [] \<longrightarrow> hasDevice (take_port listen now p) (pt_owner (take_port listen now p)))"
proof (cases "pt_owner p = []")
  case False
  with assms show ?thesis by (simp add: take_port_def)
next
  case True
  then have live: "\<forall>pr\<in>set (pt_provs p). rp_live pr" using assms(1) by (auto simp: port_pre_def)
  show ?thesis
    using assms True live
    by (auto simp: take_port_def port_pre_def hasDevice_iff split: option.splits sum.splits
        dest!: latestLive_Some bind_nonempty)
qed

lemma notify_provs_fst:
  "map (\<lambda>pr. pr\<lparr>rp_notice := []\<rparr>) (fst (notify_provs p prs)) = map (\<lambda>pr. pr\<lparr>rp_notice := []\<rparr>) prs"
  by (induction prs) (auto simp: Let_def split: prod.splits)

lemma notify_provs_keys:
  "map rp_id (fst (notify_provs p prs)) = map rp_id prs \<and>
   map rp_device (fst (notify_provs p prs)) = map rp_device prs \<and>
   map rp_live (fst (notify_provs p prs)) = map rp_live prs \<and>
   map rp_helloAt (fst (notify_provs p prs)) = map rp_helloAt prs"
  by (induction prs) (auto simp: Let_def split: prod.splits)

lemma notify_provs_in:
  "pr \<in> set (fst (notify_provs p prs)) \<Longrightarrow>
   \<exists>q\<in>set prs. rp_id q = rp_id pr \<and> rp_device q = rp_device pr \<and> rp_live q = rp_live pr \<and>
     rp_helloAt q = rp_helloAt pr"
  by (induction prs) (auto simp: Let_def split: prod.splits if_splits)

lemma notify_provs_has:
  "q \<in> set prs \<Longrightarrow>
   \<exists>pr\<in>set (fst (notify_provs p prs)). rp_id q = rp_id pr \<and> rp_device q = rp_device pr \<and> rp_live q = rp_live pr \<and>
     rp_helloAt q = rp_helloAt pr"
  by (induction prs) (auto simp: Let_def split: prod.splits)

lemma reconcile_fst:
  "p2 = take_port listen now (release_port (expire_provs now p)) \<Longrightarrow>
   fst (reconcileLocked listen now p) =
     (if fst (notify_provs p2 (pt_provs p2)) = [] then None
      else Some (p2\<lparr>pt_provs := fst (notify_provs p2 (pt_provs p2))\<rparr>))"
  by (simp add: reconcileLocked_def Let_def case_prod_beta)

lemma reconcile_frame:
  "fst (reconcileLocked listen now p) = Some q \<Longrightarrow> pt_port q = pt_port p"
  by (auto simp: reconcileLocked_def Let_def take_port_def release_port_def closeListeners_def expire_provs_def
      split: prod.splits option.splits sum.splits if_splits)

lemma reconcile_inv:
  assumes "port_pre p" "fst (reconcileLocked listen now p) = Some q"
  shows "port_inv q"
proof -
  define p1 where "p1 = take_port listen now (release_port (expire_provs now p))"
  have p1: "port_pre p1" "pt_owner p1 \<noteq> [] \<longrightarrow> hasDevice p1 (pt_owner p1)"
    using take_port_inv release_pre [OF expire_pre [OF assms(1)]] by (auto simp: p1_def)
  have q: "q = p1\<lparr>pt_provs := fst (notify_provs p1 (pt_provs p1))\<rparr>" "fst (notify_provs p1 (pt_provs p1)) \<noteq> []"
    using assms(2) by (auto simp: reconcileLocked_def p1_def [symmetric] Let_def split: prod.splits if_splits)
  have "hasDevice q d" if "hasDevice p1 d" for d
    using that notify_provs_has by (fastforce simp: q(1) hasDevice_iff)
  moreover have "port_pre q"
    using p1(1) notify_provs_keys [of p1 "pt_provs p1"]
    by (auto simp: q(1) port_pre_def dest!: notify_provs_in)
  ultimately show ?thesis using p1 q by (simp add: port_inv_def)
qed

lemma each_port_inv:
  assumes "distinct (map pt_port r)" "\<forall>p\<in>set r. pt_port p \<noteq> 0"
    "\<forall>p\<in>set r. case f p of None \<Rightarrow> port_inv p | Some q \<Rightarrow> port_pre q \<and> pt_port q = pt_port p"
  shows "reg_inv (fst (each_port listen now f r)) \<and>
         set (map pt_port (fst (each_port listen now f r))) \<subseteq> set (map pt_port r)"
  using assms
proof (induction r)
  case (Cons p ps)
  obtain ps' ns' where e: "each_port listen now f ps = (ps', ns')" by fastforce
  with Cons have ih: "reg_inv ps'" "set (map pt_port ps') \<subseteq> set (map pt_port ps)" by auto
  then have np: "pt_port p \<notin> set (map pt_port ps')" using Cons.prems(1) by auto
  show ?case
  proof (cases "f p")
    case None
    with Cons.prems ih np e show ?thesis by (auto simp: reg_inv_def)
  next
    case (Some q)
    then have q: "port_pre q" "pt_port q = pt_port p" using Cons.prems(3) by auto
    show ?thesis
    proof (cases "reconcileLocked listen now q")
      case (Pair a ns)
      show ?thesis
      proof (cases a)
        case None
        with Some Pair ih e show ?thesis by auto
      next
        case (Some b)
        then have "port_inv b" "pt_port b = pt_port p"
          using reconcile_inv [OF q(1), of listen now b] reconcile_frame [of listen now q b] Pair q(2) by simp_all
        with Some \<open>f p = Some q\<close> Pair ih np e Cons.prems(2) show ?thesis by (auto simp: reg_inv_def)
      qed
    qed
  qed
qed (simp add: reg_inv_def)

lemma find_provD: "find_prov i p = Some pr \<Longrightarrow> pr \<in> set (pt_provs p) \<and> rp_id pr = i"
  by (auto simp: find_prov_def find_Some_iff)

lemma del_prov_pre: "port_pre p \<Longrightarrow> port_pre (del_prov i p)"
  by (auto simp: port_pre_def del_prov_def distinct_map_filter_id)

lemma port_pre_map:
  assumes "port_pre p"
    "\<And>q. q \<in> set (pt_provs p) \<Longrightarrow> rp_id (g q) = rp_id q \<and> rp_device (g q) \<noteq> [] \<and>
      (\<not> rp_live (g q) \<longrightarrow> rp_device (g q) = pt_owner p)"
  shows "port_pre (p\<lparr>pt_provs := map g (pt_provs p)\<rparr>)"
proof -
  have "map rp_id (map g (pt_provs p)) = map rp_id (pt_provs p)" using assms(2) by simp
  then have "distinct (map rp_id (map g (pt_provs p)))" using assms(1) by (simp only: port_pre_def)
  with assms show ?thesis by (auto simp: port_pre_def simp del: map_map)
qed

lemma hello_prov_pre:
  assumes "port_pre p" "device \<noteq> []"
  shows "port_pre (hello_prov st i device now p)"
proof (cases "find_prov i p")
  case None
  then have "i \<notin> rp_id ` set (pt_provs p)" by (auto simp: find_prov_def find_None_iff)
  with assms None show ?thesis by (auto simp: hello_prov_def port_pre_def Let_def)
next
  case (Some pr)
  with assms show ?thesis
    by (simp add: hello_prov_def Let_def) (rule port_pre_map, auto simp: port_pre_def)
qed

lemma port_inv_pre: "port_inv p \<Longrightarrow> port_pre p"
  by (simp add: port_inv_def)

lemma new_port_pre: "port_pre (new_port n)"
  by (simp add: port_pre_def new_port_def)

lemma hello_port_inv:
  assumes "reg_inv r" "device \<noteq> []" "n \<noteq> 0"
  shows "reg_inv (fst (hello_port listen now st i device n r))"
proof -
  define r1 where "r1 = (if find_port n r = None then r @ [new_port n] else r)"
  have "n \<notin> pt_port ` set r" if "find_port n r = None"
    using that by (auto simp: find_port_def find_None_iff)
  then have d: "distinct (map pt_port r1)" "\<forall>p\<in>set r1. pt_port p \<noteq> 0"
    using assms by (auto simp: r1_def reg_inv_def new_port_def)
  have pre: "port_pre p \<and> (pt_port p = n \<or> port_inv p)" if "p \<in> set r1" for p
    using that assms new_port_pre by (auto simp: r1_def reg_inv_def port_inv_pre new_port_def split: if_splits)
  have "pt_port (hello_prov st i device now p) = pt_port p" for p
    by (simp add: hello_prov_def Let_def split: option.split)
  with pre have "\<forall>p\<in>set r1. case (if pt_port p = n then Some (hello_prov st i device now p) else None) of
      None \<Rightarrow> port_inv p | Some q \<Rightarrow> port_pre q \<and> pt_port q = pt_port p"
    using assms(2) by (auto simp: hello_prov_pre)
  from each_port_inv [OF d this] show ?thesis by (simp add: hello_port_def Let_def r1_def)
qed

lemma hello_ports_inv:
  "reg_inv r \<Longrightarrow> device \<noteq> [] \<Longrightarrow> 0 \<notin> set ns \<Longrightarrow> reg_inv (fst (hello_ports listen now st i device ns r))"
proof (induction ns arbitrary: r)
  case (Cons n ns)
  from hello_port_inv [OF Cons.prems(1,2), of n] Cons.prems(3)
  have "reg_inv (fst (hello_port listen now st i device n r))" by auto
  from Cons.IH [OF this Cons.prems(2)] Cons.prems(3) show ?case
    by (auto simp: Let_def case_prod_beta)
qed simp

lemma hello_inv [inv_intros]:
  assumes "reg_inv r" "device \<noteq> []"
  shows "reg_inv (fst (rfwd_hello listen now st i device ports r))"
proof -
  let ?f = "\<lambda>p. if find_prov i p \<noteq> None \<and> pt_port p \<notin> set (wanted_ports ports) then Some (del_prov i p) else None"
  have "\<forall>p\<in>set r. case ?f p of None \<Rightarrow> port_inv p | Some q \<Rightarrow> port_pre q \<and> pt_port q = pt_port p"
    using assms(1) by (auto simp: reg_inv_def port_inv_pre del_prov_pre, simp add: del_prov_def)
  then have "reg_inv (fst (each_port listen now ?f r))"
    using assms(1) by (intro each_port_inv [THEN conjunct1]) (auto simp: reg_inv_def)
  then have "reg_inv (fst (hello_ports listen now st i device (wanted_ports ports) (fst (each_port listen now ?f r))))"
    by (rule hello_ports_inv) (use assms(2) in \<open>auto simp: wanted_ports_def\<close>)
  then show ?thesis by (simp add: rfwd_hello_def Let_def case_prod_beta)
qed

lemma gone_inv [inv_intros]:
  assumes "reg_inv r"
  shows "reg_inv (fst (rfwd_gone listen now i explicit r))"
proof -
  have *: "port_pre (p\<lparr>pt_provs := map (\<lambda>q. if rp_id q = i then q\<lparr>rp_live := False, rp_lostAt := now\<rparr> else q) (pt_provs p)\<rparr>)"
    if "port_pre p" "find_prov i p = Some pr" "rp_device pr = pt_owner p" for p pr
  proof -
    have "rp_device q = pt_owner p" if "q \<in> set (pt_provs p)" "rp_id q = i" for q
      using that \<open>port_pre p\<close> find_provD [OF \<open>find_prov i p = Some pr\<close>] \<open>rp_device pr = pt_owner p\<close>
      by (auto simp: port_pre_def distinct_map inj_on_def)
    then show ?thesis using that(1) by (intro port_pre_map) (auto simp: port_pre_def)
  qed
  show ?thesis
    unfolding rfwd_gone_def
    by (rule each_port_inv [THEN conjunct1])
      (use assms in \<open>auto simp: reg_inv_def port_inv_pre del_prov_pre * split: option.split, simp_all add: del_prov_def\<close>)
qed

lemma dropSession_inv [inv_intros]:
  assumes "reg_inv r"
  shows "reg_inv (fst (rfwd_dropSession listen now sess r))"
  unfolding rfwd_dropSession_def
  by (rule each_port_inv [THEN conjunct1])
    (use assms in \<open>auto simp: reg_inv_def port_inv_def port_pre_def distinct_map_filter_id\<close>)

lemma tick_inv [inv_intros]:
  assumes "reg_inv r"
  shows "reg_inv (fst (rfwd_tick listen now r))"
  unfolding rfwd_tick_def
  by (rule each_port_inv [THEN conjunct1]) (use assms in \<open>auto simp: reg_inv_def port_inv_def\<close>)

section \<open>Properties\<close>

text \<open>Any sequence of registrations, departures, session deletions and ticks, at any times and
  whatever net.Listen answers each time. The transport only registers clients that name a device
  (rfwdHelloFor).\<close>

inductive rfwd_step :: "rfwdRegistry \<Rightarrow> rfwdRegistry \<Rightarrow> bool" where
  step_hello: "device \<noteq> [] \<Longrightarrow> rfwd_step r (fst (rfwd_hello listen now st i device ports r))"
| step_gone: "rfwd_step r (fst (rfwd_gone listen now i explicit r))"
| step_drop: "rfwd_step r (fst (rfwd_dropSession listen now sess r))"
| step_tick: "rfwd_step r (fst (rfwd_tick listen now r))"
| step_close: "rfwd_step r (snd (rfwd_closeAll r))"

inductive_cases rfwd_stepE: "rfwd_step r r'"

lemma rfwd_step_inv: "rfwd_step r r' \<Longrightarrow> reg_inv r \<Longrightarrow> reg_inv r'"
  by (erule rfwd_stepE) (simp_all add: inv_intros, simp add: rfwd_closeAll_def reg_inv_def)

text \<open>C26. In every reachable registry each port is listed once and has providers; it has listeners
  exactly when a device owns it, the owner is the device of one of its providers, its providers
  are distinct clients, and only the owner's clients lie dormant.\<close>

theorem registry_invariant:
  assumes "rtranclp rfwd_step [] r"
  shows "reg_inv r"
  using assms
proof (induction rule: rtranclp_induct)
  case base
  show ?case by (simp add: reg_inv_def)
qed (rule rfwd_step_inv)

lemma registry_invariant_witness:
  "reg_inv (fst (rfwd_hello (\<lambda>n a. Inr 7) 5 1 (ClientID ''s'' 3) ''dev'' [8080, 0, 8080] []))"
  by (rule registry_invariant [OF r_into_rtranclp]) (simp add: step_hello)

lemma each_port_in:
  "p \<in> set r \<Longrightarrow> f p = Some q \<Longrightarrow> fst (reconcileLocked listen now q) = Some q' \<Longrightarrow>
   q' \<in> set (fst (each_port listen now f r))"
  by (induction r) (auto simp: Let_def split: prod.splits option.splits)

lemma reconcile_keep:
  assumes "pt_owner p \<noteq> []" "pr \<in> set (pt_provs p)" "rp_device pr = pt_owner p"
    "rp_live pr \<or> now - rp_lostAt pr \<le> rfwdDormantTTL"
  shows "\<exists>q. fst (reconcileLocked listen now p) = Some q \<and> pt_owner q = pt_owner p \<and> pt_lns q = pt_lns p"
proof -
  let ?e = "expire_provs now p"
  have pr: "pr \<in> set (pt_provs ?e)" using assms(2,4) by (auto simp: expire_provs_def)
  have "pt_owner ?e = pt_owner p" "pt_lns ?e = pt_lns p" by (simp_all add: expire_provs_def)
  moreover have "hasDevice ?e (pt_owner p)" using pr assms(3) by (auto simp: hasDevice_iff)
  ultimately have "take_port listen now (release_port ?e) = ?e"
    using assms(1) by (simp add: release_port_def take_port_def)
  moreover have "fst (notify_provs ?e (pt_provs ?e)) \<noteq> []"
    using notify_provs_has [OF pr, of ?e] by (metis empty_iff list.set(1))
  ultimately show ?thesis
    by (auto simp: reconcileLocked_def Let_def expire_provs_def split: prod.splits)
qed

text \<open>When a client of the device that owns a port loses its connection, the port keeps its
  owner and its listeners, and a tick within the following 24 hours keeps them too.\<close>

theorem lost_connection_keeps_listener:
  assumes "reg_inv r" "p \<in> set r" "find_prov i p = Some pr" "rp_device pr = pt_owner p"
    "now' - now \<le> rfwdDormantTTL"
  shows "\<exists>q\<in>set (fst (rfwd_gone listen now i False r)).
           pt_port q = pt_port p \<and> pt_owner q = pt_owner p \<and> pt_lns q = pt_lns p \<and>
           (\<exists>q'. fst (reconcileLocked listen now' q) = Some q' \<and> pt_owner q' = pt_owner p \<and> pt_lns q' = pt_lns p)"
proof -
  define p1 where "p1 = p\<lparr>pt_provs := map (\<lambda>q. if rp_id q = i then q\<lparr>rp_live := False, rp_lostAt := now\<rparr> else q) (pt_provs p)\<rparr>"
  define pr1 where "pr1 = pr\<lparr>rp_live := False, rp_lostAt := now\<rparr>"
  have pr: "pr \<in> set (pt_provs p)" "rp_id pr = i" using find_provD [OF assms(3)] by auto
  have own: "pt_owner p \<noteq> []"
    using assms(1,2,4) pr(1) by (fastforce simp: reg_inv_def port_inv_def port_pre_def)
  have p1: "pt_owner p1 = pt_owner p" "pt_lns p1 = pt_lns p" "pr1 \<in> set (pt_provs p1)" "pt_port p1 = pt_port p"
    using pr by (auto simp: p1_def pr1_def)
  have ttl: "now - rp_lostAt pr1 \<le> rfwdDormantTTL" "rp_device pr1 = pt_owner p1"
    using assms(4) by (simp_all add: pr1_def rfwdDormantTTL_def p1_def)
  from reconcile_keep [of p1 pr1 now listen] p1 ttl own
  obtain q where q: "fst (reconcileLocked listen now p1) = Some q" "pt_owner q = pt_owner p" "pt_lns q = pt_lns p"
    by auto
  have "\<exists>pr2\<in>set (pt_provs q). rp_id pr2 = i \<and> rp_device pr2 = pt_owner p \<and>
      \<not> rp_live pr2 \<and> rp_lostAt pr2 = now"
  proof -
    have e: "pr1 \<in> set (pt_provs (expire_provs now p1))"
      using p1(3) ttl by (auto simp: expire_provs_def)
    have "take_port listen now (release_port (expire_provs now p1)) = expire_provs now p1"
      using e own p1 ttl(2) by (auto simp: release_port_def take_port_def hasDevice_iff expire_provs_def)
    then have "pt_provs q = fst (notify_provs (expire_provs now p1) (pt_provs (expire_provs now p1)))"
      using q(1) by (auto simp: reconcileLocked_def Let_def split: prod.splits if_splits)
    moreover have "pr1 \<in> set (fst (notify_provs x prs))" if "pr1 \<in> set prs" for x prs
      using that by (induction prs) (auto simp: Let_def pr1_def split: prod.splits)
    ultimately have "pr1 \<in> set (pt_provs q)" using e by simp
    with pr(2) assms(4) show ?thesis by (intro bexI [of _ pr1]) (auto simp: pr1_def)
  qed
  then obtain pr2 where pr2: "pr2 \<in> set (pt_provs q)" "rp_device pr2 = pt_owner p" "rp_lostAt pr2 = now"
    by blast
  from reconcile_keep [of q pr2 now' listen] pr2 q own assms(5)
  have "\<exists>q'. fst (reconcileLocked listen now' q) = Some q' \<and> pt_owner q' = pt_owner p \<and> pt_lns q' = pt_lns p"
    by auto
  moreover have "q \<in> set (fst (rfwd_gone listen now i False r))"
    unfolding rfwd_gone_def
    by (rule each_port_in [OF assms(2) _ q(1)]) (simp add: assms(3,4) p1_def)
  moreover have "pt_port q = pt_port p" using reconcile_frame [OF q(1)] p1(4) by simp
  ultimately show ?thesis using q by blast
qed

definition one_owner :: rfwdPort where
  "one_owner = (new_port 8080)\<lparr>pt_owner := ''dev'', pt_lns := [7],
     pt_provs := [\<lparr>rp_st = 1, rp_id = ClientID ''s'' 3, rp_device = ''dev'', rp_live = True, rp_helloAt = 5,
       rp_lostAt = 0, rp_notice = ''active''\<rparr>,
       \<lparr>rp_st = 1, rp_id = ClientID ''t'' 4, rp_device = ''other'', rp_live = True, rp_helloAt = 9,
       rp_lostAt = 0, rp_notice = ''busy''\<rparr>]\<rparr>"

lemma one_owner_inv: "reg_inv [one_owner]"
  by (simp add: reg_inv_def port_inv_def port_pre_def hasDevice_iff one_owner_def new_port_def)

lemma lost_connection_keeps_listener_witness:
  "\<exists>q\<in>set (fst (rfwd_gone (\<lambda>n a. Inl ''in use'') 10 (ClientID ''s'' 3) False [one_owner])). pt_lns q = [7]"
  using lost_connection_keeps_listener [OF one_owner_inv, of one_owner "ClientID ''s'' 3" _ 10 10 "\<lambda>n a. Inl ''in use''"]
  by (fastforce simp: one_owner_def find_prov_def rfwdDormantTTL_def)

text \<open>When the last client of the owning device leaves on purpose and another device waits, the
  listeners are closed and reopened for the waiting client that registered last, provided the
  port can be bound; if it cannot, the port stays registered, unowned, with the reason.\<close>

theorem handover_to_waiting:
  assumes "reg_inv r" "p \<in> set r" "find_prov i p = Some pr" "rp_device pr = pt_owner p"
    "\<forall>q\<in>set (pt_provs p). rp_device q = pt_owner p \<longrightarrow> rp_id q = i"
    "w \<in> set (pt_provs p)" "rp_device w \<noteq> pt_owner p" "rp_live w"
  shows "\<exists>q\<in>set (fst (rfwd_gone listen now i True r)). pt_port q = pt_port p \<and>
    (case rfwd_bind listen (pt_port p) of
       Inl e \<Rightarrow> pt_owner q = [] \<and> pt_lns q = [] \<and> pt_bindErr q = e
     | Inr lns \<Rightarrow> pt_lns q = lns \<and>
         (\<exists>c\<in>set (pt_provs p). rp_id c \<noteq> i \<and> rp_live c \<and> rp_device c = pt_owner q \<and>
            (\<forall>d\<in>set (pt_provs p). rp_id d \<noteq> i \<and> rp_live d \<longrightarrow> rp_helloAt d \<le> rp_helloAt c)))"
proof -
  define p1 where "p1 = expire_provs now (del_prov i p)"
  have inv: "port_pre p" "pt_owner p = [] \<longleftrightarrow> pt_lns p = []"
    using assms(1,2) by (auto simp: reg_inv_def port_inv_def port_pre_def)
  have pr: "pr \<in> set (pt_provs p)" using find_provD [OF assms(3)] by simp
  have own: "pt_owner p \<noteq> []" using inv(1) pr assms(4) by (fastforce simp: port_pre_def)
  have wi: "rp_id w \<noteq> i"
    using assms(3,4,6,7) inv(1) find_provD [OF assms(3)] by (auto simp: port_pre_def distinct_map inj_on_def)
  have live: "\<forall>q\<in>set (pt_provs p). rp_id q \<noteq> i \<longrightarrow> rp_live q"
    using inv(1) assms(5) by (auto simp: port_pre_def)
  then have provs: "pt_provs p1 = filter (\<lambda>q. rp_id q \<noteq> i) (pt_provs p)"
    by (auto simp: p1_def expire_provs_def del_prov_def intro!: filter_cong)
  have p1: "pt_owner p1 = pt_owner p" "pt_port p1 = pt_port p"
    by (simp_all add: p1_def expire_provs_def del_prov_def)
  have "\<not> hasDevice p1 (pt_owner p1)" using assms(5) by (auto simp: hasDevice_iff provs p1)
  then have rel: "release_port p1 = p1\<lparr>pt_lns := [], pt_owner := []\<rparr>"
    using own p1 by (simp add: release_port_def closeListeners_def)
  obtain c where c: "latestLive (release_port p1) [] = Some c"
  proof (cases "latestLive (release_port p1) []")
    case None
    from latestLive_None [OF this] show ?thesis using assms(6,8) wi by (auto simp: rel provs)
  qed
  have cp: "c \<in> set (pt_provs p)" "rp_id c \<noteq> i" "rp_live c"
    "\<forall>d\<in>set (pt_provs p). rp_id d \<noteq> i \<and> rp_live d \<longrightarrow> rp_helloAt d \<le> rp_helloAt c"
    using latestLive_Some [OF c] by (auto simp: rel provs)
  define p2 where "p2 = take_port listen now (release_port p1)"
  have p2: "pt_provs p2 = pt_provs p1" "pt_port p2 = pt_port p"
    by (auto simp: p2_def take_port_def rel p1 split: option.split sum.split)
  have ne: "fst (notify_provs p2 (pt_provs p2)) \<noteq> []"
    using notify_provs_has [of w "pt_provs p2" p2] assms(6) wi by (auto simp: p2 provs)
  define q where "q = p2\<lparr>pt_provs := fst (notify_provs p2 (pt_provs p2))\<rparr>"
  have q: "fst (reconcileLocked listen now (del_prov i p)) = Some q" "q = p2\<lparr>pt_provs := fst (notify_provs p2 (pt_provs p2))\<rparr>"
    using ne reconcile_fst [of p2 listen now "del_prov i p"] by (simp_all add: p2_def p1_def q_def)
  have "q \<in> set (fst (rfwd_gone listen now i True r))"
    unfolding rfwd_gone_def by (rule each_port_in [OF assms(2) _ q(1)]) (simp add: assms(3))
  moreover have "case rfwd_bind listen (pt_port p) of
       Inl e \<Rightarrow> pt_owner q = [] \<and> pt_lns q = [] \<and> pt_bindErr q = e
     | Inr lns \<Rightarrow> pt_lns q = lns \<and> pt_owner q = rp_device c"
    using c by (auto simp: q(2) p2_def take_port_def rel p1 split: sum.split)
  ultimately show ?thesis using cp p2(2)
    by (intro bexI [of _ q]) (auto simp: q(2) split: sum.splits)
qed

lemma handover_to_waiting_witness:
  "\<exists>q\<in>set (fst (rfwd_gone (\<lambda>n a. Inr 8) 10 (ClientID ''s'' 3) True [one_owner])). pt_lns q = [8, 8]"
  using handover_to_waiting [OF one_owner_inv, of one_owner "ClientID ''s'' 3" _
      "pt_provs one_owner ! 1" "\<lambda>n a. Inr 8" 10]
  by (fastforce simp: one_owner_def find_prov_def rfwd_bind_def Let_def)

text \<open>An incoming connection is offered to at most two clients, both connected clients of the
  device that owns the port; the one tried second registered no later than the first, and is tried
  only if the first did not reject. At the connection limit none is tried.\<close>

theorem relay_targets:
  "case rfwd_handleConn open_fwd p of (tried, got, p') \<Rightarrow>
     length tried \<le> 2 \<and>
     (\<forall>t\<in>set tried. \<exists>pr\<in>set (pt_provs p). t = (rp_st pr, rp_id pr) \<and> rp_live pr \<and> rp_device pr = pt_owner p) \<and>
     (\<forall>t\<in>set (butlast tried). open_fwd t = OpenFailed) \<and>
     (if got = None then p' = p
      else open_fwd (last tried) = Opened \<and> pt_active p' \<le> maxRFwdConnsPerPort)"
proof -
  have t: "\<exists>n. tried = take n ts \<and> (\<forall>t\<in>set (butlast tried). open_fwd t = OpenFailed) \<and>
      (got \<noteq> None \<longrightarrow> tried \<noteq> [] \<and> open_fwd (last tried) = Opened)"
    if "try_targets open_fwd ts = (tried, got)" for ts tried got
    using that
  proof (induction ts arbitrary: tried got)
    case (Cons t ts)
    show ?case
    proof (cases "open_fwd t")
      case OpenFailed
      obtain tr where tr: "try_targets open_fwd ts = (tr, got)" "tried = t # tr"
        using Cons.prems OpenFailed by (auto split: prod.splits)
      from Cons.IH [OF tr(1)] obtain n where "tr = take n ts" "\<forall>t\<in>set (butlast tr). open_fwd t = OpenFailed"
        "got \<noteq> None \<longrightarrow> tr \<noteq> [] \<and> open_fwd (last tr) = Opened" by blast
      with tr OpenFailed show ?thesis by (intro exI [of _ "Suc n"]) auto
    qed (use Cons.prems in \<open>auto intro: exI [of _ 1]\<close>)
  qed simp
  let ?ts = "rfwd_targets p"
  have in_ts: "\<exists>pr\<in>set (pt_provs p). t = (rp_st pr, rp_id pr) \<and> rp_live pr \<and> rp_device pr = pt_owner p"
    if "t \<in> set ?ts" for t
    using that by (auto simp: rfwd_targets_def)
  obtain tried got where tg: "try_targets open_fwd (take 2 ?ts) = (tried, got)" by fastforce
  have two: "(if length ?ts > 2 then take 2 ?ts else ?ts) = take 2 ?ts" by simp
  from t [OF tg] obtain n where n: "tried = take n (take 2 ?ts)" "\<forall>t\<in>set (butlast tried). open_fwd t = OpenFailed"
    "got \<noteq> None \<longrightarrow> tried \<noteq> [] \<and> open_fwd (last tried) = Opened" by blast
  have "set tried \<subseteq> set ?ts" using n(1) by (metis set_take_subset subset_trans)
  with n in_ts show ?thesis
    by (cases got) (auto simp: rfwd_handleConn_def two tg Let_def maxRFwdConnsPerPort_def)
qed

lemma relay_targets_witness:
  "case rfwd_handleConn (\<lambda>t. Opened) one_owner of (tried, got, p') \<Rightarrow>
     (\<forall>t\<in>set tried. t = (1, ClientID ''s'' 3)) \<and> got = Some (1, ClientID ''s'' 3)"
  using relay_targets [where open_fwd = "\<lambda>t. Opened" and p = one_owner]
  by (auto simp: rfwd_handleConn_def rfwd_targets_def one_owner_def new_port_def maxRFwdConnsPerPort_def Let_def)

end
