(* ===== verification/Manager.thy ===== *)
theory Manager
  imports Session_Delivery Remote_Forward
begin

text \<open>
  The session manager (internal/session/manager.go): the map of sessions with its rules for names
  and the session limit, the shared QUIC transport that routes by session, the periodic cleanup and
  the removal of sessions. Creating a session checks twice, before and after the session is built;
  the two checks are separate operations here, because other connections run in between. The
  transport's results, the random bytes and the clock are arguments.
\<close>

section \<open>State\<close>

text \<open>sharedTransport is its port and key.\<close>

(* internal/session/manager.go:23-52 Manager *)
record Manager =
  sessions :: "(string \<times> Session) list"
  serverInstanceID :: bytes
  sharedTransport :: "(int \<times> bytes) option"
  tcpFwdDisabled :: bool
  agentFwdDisabled :: bool
  rfwd :: rfwdRegistry
  maxSessions :: int
  mgr_done :: bool

datatype mgr_act =
    SessAct string session_act
  | GoneOnShared ClientID string int
  | RfwdNotice rfwdNotice
  | CloseListener nat
  | CancelShared
  | CloseShared

(* internal/session/manager.go:315-321 ErrDuplicateName *)
datatype mgr_err =
    ErrDuplicateName string
  | ErrTooManySessions int
  | ErrSessionNotFound string
  | ErrNewSession err

section \<open>Startup and policy\<close>

text \<open>random is the result of rand.Read, now the clock read when it fails.\<close>

(* internal/session/manager.go:228-243 NewManager *)
definition NewManager :: "bytes option \<Rightarrow> int \<Rightarrow> Manager" where
  "NewManager random now =
     \<lparr>sessions = [],
      serverInstanceID = (case random of Some b \<Rightarrow> b | None \<Rightarrow> be_bytes 8 (nat (now mod 2 ^ 64))),
      sharedTransport = None, tcpFwdDisabled = False, agentFwdDisabled = False, rfwd = [],
      maxSessions = 0, mgr_done = False\<rparr>"

(* internal/session/manager.go:54-58 Manager.SetTCPForwarding *)
definition SetTCPForwarding :: "bool \<Rightarrow> Manager \<Rightarrow> Manager" where
  "SetTCPForwarding enabled m = m\<lparr>tcpFwdDisabled := \<not> enabled\<rparr>"

(* internal/session/manager.go:65-69 Manager.SetAgentForwarding *)
definition SetAgentForwarding :: "bool \<Rightarrow> Manager \<Rightarrow> Manager" where
  "SetAgentForwarding enabled m = m\<lparr>agentFwdDisabled := \<not> enabled\<rparr>"

(* internal/session/manager.go:71-76 Manager.AgentForwardingEnabled *)
definition AgentForwardingEnabled :: "Manager \<Rightarrow> bool" where
  "AgentForwardingEnabled m = (\<not> agentFwdDisabled m)"

(* internal/session/manager.go:323-329 Manager.SetMaxSessions *)
definition SetMaxSessions :: "int \<Rightarrow> Manager \<Rightarrow> Manager" where
  "SetMaxSessions n m = m\<lparr>maxSessions := n\<rparr>"

text \<open>What a new transport is told: whether TCP and agent forwarding are allowed, and whether the
  remote forward registry is wired to it.\<close>

(* internal/session/manager.go:78-89 Manager.applyTransportPolicy *)
definition applyTransportPolicy :: "Manager \<Rightarrow> bool \<times> bool \<times> bool" where
  "applyTransportPolicy m = (\<not> tcpFwdDisabled m, AgentForwardingEnabled m, \<not> tcpFwdDisabled m)"

(* internal/session/manager.go:125-149 Manager.adoptSharedTransport *)
definition adoptSharedTransport :: "err option \<Rightarrow> int \<Rightarrow> bytes \<Rightarrow> Manager \<Rightarrow> err + Manager" where
  "adoptSharedTransport startErr port key m =
     (case startErr of
        Some e \<Rightarrow> Inl (Wrapped ''failed to start shared QUIC transport'' e)
      | None \<Rightarrow> Inr (m\<lparr>sharedTransport := Some (port, key)\<rparr>))"

(* internal/session/manager.go:96-123 Manager.InitSharedTransport *)
definition InitSharedTransport ::
  "(err + bytes) \<Rightarrow> (string \<Rightarrow> err + int option) \<Rightarrow> err option \<Rightarrow> int \<Rightarrow> Manager \<Rightarrow> err + Manager" where
  "InitSharedTransport rnd newServer startErr fixedPort m =
     (if fixedPort \<le> 0 then Inr m
      else
        (case rnd of
           Inl e \<Rightarrow> Inl (Wrapped ''failed to generate shared key'' e)
         | Inr key \<Rightarrow>
             (case newServer ('':'' @ show_int fixedPort) of
                Inl e \<Rightarrow> Inl (Wrapped ''failed to create shared QUIC transport'' e)
              | Inr None \<Rightarrow> Inl (ErrorString ''failed to get shared QUIC listen address'')
              | Inr (Some port) \<Rightarrow> adoptSharedTransport startErr port key m)))"

section \<open>Lookup\<close>

(* internal/session/manager.go:159-165 Manager.sessionByID *)
definition sessionByID :: "string \<Rightarrow> Manager \<Rightarrow> Session option" where
  "sessionByID k m = map_of (sessions m) k"

(* internal/session/manager.go:407-418 Manager.GetSession *)
definition GetSession :: "string \<Rightarrow> Manager \<Rightarrow> mgr_err + Session" where
  "GetSession k m = (case map_of (sessions m) k of None \<Rightarrow> Inl (ErrSessionNotFound k) | Some s \<Rightarrow> Inr s)"

(* internal/session/manager.go:331-341 Manager.activeSessionCountLocked *)
definition activeSessionCountLocked :: "Manager \<Rightarrow> nat" where
  "activeSessionCountLocked m = length (filter (\<lambda>ks. \<not> ptyClosed (snd ks)) (sessions m))"

(* internal/session/manager.go:343-355 Manager.FindByName *)
definition FindByName :: "string \<Rightarrow> Manager \<Rightarrow> Session option" where
  "FindByName name m =
     map_option snd (find (\<lambda>ks. Name (snd ks) = name \<and> \<not> ptyClosed (snd ks)) (sessions m))"

(* internal/session/manager.go:450-466 Manager.GetAllSessions *)
definition GetAllSessions :: "Manager \<Rightarrow> Session list" where
  "GetAllSessions m = sort_key CreatedAt (map snd (sessions m))"

section \<open>Creation and removal\<close>

text \<open>base64.RawURLEncoding.\<close>

definition b64_alphabet :: string where
  "b64_alphabet = ''ABCDEFGHIJKLMNOPQRSTUVWXYZabcdefghijklmnopqrstuvwxyz0123456789-_''"

fun b64_encode :: "bytes \<Rightarrow> string" where
  "b64_encode [] = []"
| "b64_encode [a] =
     (let n = unat a * 16 in [b64_alphabet ! (n div 64), b64_alphabet ! (n mod 64)])"
| "b64_encode [a, b] =
     (let n = (unat a * 256 + unat b) * 4 in
      [b64_alphabet ! (n div 4096), b64_alphabet ! (n div 64 mod 64), b64_alphabet ! (n mod 64)])"
| "b64_encode (a # b # c # rest) =
     (let n = (unat a * 256 + unat b) * 256 + unat c in
      [b64_alphabet ! (n div 262144), b64_alphabet ! (n div 4096 mod 64),
       b64_alphabet ! (n div 64 mod 64), b64_alphabet ! (n mod 64)] @ b64_encode rest)"

(* internal/session/manager.go:490-500 generateSessionID *)
definition generateSessionID :: "bytes \<Rightarrow> string" where
  "generateSessionID b = b64_encode b"

text \<open>The checks before anything is started.\<close>

(* internal/session/manager.go:361-372 Manager.CreateSession *)
definition create_precheck :: "string \<Rightarrow> Manager \<Rightarrow> mgr_err option" where
  "create_precheck name m =
     (if name \<noteq> '''' \<and> FindByName name m \<noteq> None then Some (ErrDuplicateName name)
      else if maxSessions m > 0 \<and> int (activeSessionCountLocked m) \<ge> maxSessions m
      then Some (ErrTooManySessions (maxSessions m))
      else None)"

text \<open>The critical section that enters the built session, or closes it when a concurrent creation has
  taken the name or the last place.\<close>

(* internal/session/manager.go:382-404 Manager.CreateSession *)
definition create_register ::
  "string \<Rightarrow> string \<Rightarrow> Session \<Rightarrow> time \<Rightarrow> Manager \<Rightarrow> Manager \<times> session_act list \<times> (mgr_err + Session)" where
  "create_register name k s0 now m =
     (let s = s0\<lparr>Name := name\<rparr> in
      if name \<noteq> '''' \<and> list_ex (\<lambda>ks. Name (snd ks) = name \<and> \<not> ptyClosed (snd ks)) (sessions m)
      then (m, snd (Close now s), Inl (ErrDuplicateName name))
      else if maxSessions m > 0 \<and> int (activeSessionCountLocked m) \<ge> maxSessions m
      then (m, snd (Close now s), Inl (ErrTooManySessions (maxSessions m)))
      else (m\<lparr>sessions := AList.update k s (sessions m)\<rparr>, [], Inr s))"

text \<open>With nothing in between; new is NewSession with the manager's transport and policy.\<close>

(* internal/session/manager.go:357-405 Manager.CreateSession *)
definition CreateSession ::
  "bytes \<Rightarrow> (string \<Rightarrow> err + Session) \<Rightarrow> time \<Rightarrow> string \<Rightarrow> Manager \<Rightarrow>
   Manager \<times> session_act list \<times> (mgr_err + Session)" where
  "CreateSession random new now name m =
     (case create_precheck name m of
        Some e \<Rightarrow> (m, [], Inl e)
      | None \<Rightarrow>
          let k = generateSessionID random in
          (case new k of
             Inl e \<Rightarrow> (m, [], Inl (ErrNewSession e))
           | Inr s \<Rightarrow> create_register name k s now m))"

(* internal/session/manager.go:420-435 Manager.DeleteSession *)
definition DeleteSession ::
  "(string \<Rightarrow> string \<Rightarrow> string + nat) \<Rightarrow> time \<Rightarrow> string \<Rightarrow> Manager \<Rightarrow>
   Manager \<times> mgr_act list \<times> mgr_err option" where
  "DeleteSession listen now k m =
     (case map_of (sessions m) k of
        None \<Rightarrow> (m, [], Some (ErrSessionNotFound k))
      | Some s \<Rightarrow>
          let (r, notices) = rfwd_dropSession listen now k (rfwd m) in
          (m\<lparr>sessions := AList.delete k (sessions m), rfwd := r\<rparr>,
           map (SessAct k) (snd (Close now s)) @ map RfwdNotice notices, None))"

section \<open>The shared transport\<close>

(* internal/session/manager.go:167-174 Manager.sharedResync *)
definition sharedResync ::
  "(bytes \<Rightarrow> bytes \<times> err) \<Rightarrow> ClientID \<Rightarrow> nat \<Rightarrow> Manager \<Rightarrow> (nat \<times> bytes) list \<times> string option" where
  "sharedResync inflate client fromOffset m =
     (case sessionByID (cid_Session client) m of
        None \<Rightarrow> ([], None)
      | Some s \<Rightarrow> outputFromOffset inflate (st s) s fromOffset)"

definition with_session :: "string \<Rightarrow> (Session \<Rightarrow> Session \<times> session_act list) \<Rightarrow> Manager \<Rightarrow> Manager \<times> mgr_act list" where
  "with_session k f m =
     (case map_of (sessions m) k of
        None \<Rightarrow> (m, [])
      | Some s \<Rightarrow>
          (case f s of (s', acts) \<Rightarrow> (m\<lparr>sessions := AList.update k s' (sessions m)\<rparr>, map (SessAct k) acts)))"

(* internal/session/manager.go:176-188 Manager.sharedOnConnect *)
definition sharedOnConnect :: "ClientID \<Rightarrow> Manager \<Rightarrow> Manager \<times> mgr_act list" where
  "sharedOnConnect client m =
     (case sessionByID (cid_Session client) m of
        None \<Rightarrow>
          (m, if sharedTransport m \<noteq> None
              then [GoneOnShared client ''NO_SUCH_SESSION: session not found'' (-1)] else [])
      | Some s \<Rightarrow> with_session (cid_Session client) (\<lambda>s. (OnQUICClientConnected s, [])) m)"

(* internal/session/manager.go:190-209 Manager.routeSharedInput *)
definition routeSharedInput :: "err option \<Rightarrow> time \<Rightarrow> Input \<Rightarrow> Manager \<Rightarrow> Manager \<times> mgr_act list" where
  "routeSharedInput result now inp m =
     with_session (cid_Session (in_Client inp))
       (\<lambda>s. case WriteInput result now (in_Data inp) s of (s', acts, _) \<Rightarrow> (s', acts)) m"

(* internal/session/manager.go:211-226 Manager.routeSharedResize *)
definition routeSharedResize :: "err option \<Rightarrow> Resize \<Rightarrow> Manager \<Rightarrow> Manager \<times> mgr_act list" where
  "routeSharedResize result rz m =
     with_session (cid_Session (rz_Client rz))
       (\<lambda>s. case Session.Resize result (rz_Rows rz) (rz_Cols rz) s of (s', acts, _) \<Rightarrow> (s', acts)) m"

section \<open>Periodic work\<close>

(* internal/session/manager.go:274-286 Manager.evictStaleOutputBuffers *)
definition evictStaleOutputBuffers :: "(bytes \<Rightarrow> err + bytes) \<Rightarrow> time \<Rightarrow> Manager \<Rightarrow> Manager" where
  "evictStaleOutputBuffers deflate now m =
     m\<lparr>sessions := map (\<lambda>(k, s). (k, EvictStaleOutput deflate now s)) (sessions m)\<rparr>"

definition graceperiod :: int where
  "graceperiod = 30 * second"

text \<open>The sessions to delete; active gives each transport's clients. A pty that is not closed has
  the zero time, which is long past.\<close>

(* internal/session/manager.go:288-301 Manager.cleanupClosedSessions *)
definition to_delete :: "(string \<Rightarrow> ClientID list) \<Rightarrow> time \<Rightarrow> string \<times> Session \<Rightarrow> bool" where
  "to_delete active now ks \<longleftrightarrow>
     ptyClosed (snd ks) \<and> GetClientCount (active (fst ks)) (snd ks) = 0 \<and>
     (case ptyClosedAt (snd ks) of None \<Rightarrow> True | Some t \<Rightarrow> now - t > graceperiod)"

fun delete_each ::
  "(string \<Rightarrow> string \<Rightarrow> string + nat) \<Rightarrow> time \<Rightarrow> string list \<Rightarrow> Manager \<Rightarrow> Manager \<times> mgr_act list" where
  "delete_each listen now [] m = (m, [])"
| "delete_each listen now (k # ks) m =
     (let (m1, acts, _) = DeleteSession listen now k m;
          (m2, acts') = delete_each listen now ks m1 in (m2, acts @ acts'))"

(* internal/session/manager.go:288-308 Manager.cleanupClosedSessions *)
definition cleanupClosedSessions ::
  "(string \<Rightarrow> string \<Rightarrow> string + nat) \<Rightarrow> (string \<Rightarrow> ClientID list) \<Rightarrow> time \<Rightarrow> Manager \<Rightarrow>
   Manager \<times> mgr_act list" where
  "cleanupClosedSessions listen active now m =
     delete_each listen now (map fst (filter (to_delete active now) (sessions m))) m"

(* internal/session/manager.go:245-257 Manager.runRemoteForwardTicker *)
definition remote_forward_tick ::
  "(string \<Rightarrow> string \<Rightarrow> string + nat) \<Rightarrow> time \<Rightarrow> Manager \<Rightarrow> Manager \<times> mgr_act list" where
  "remote_forward_tick listen now m =
     (let (r, notices) = rfwd_tick listen now (rfwd m) in (m\<lparr>rfwd := r\<rparr>, map RfwdNotice notices))"

(* internal/session/manager.go:478-488 Manager.Close *)
definition mgr_Close :: "Manager \<Rightarrow> Manager \<times> mgr_act list" where
  "mgr_Close m =
     (let (lns, r) = rfwd_closeAll (rfwd m) in
      (m\<lparr>mgr_done := True, rfwd := r\<rparr>,
       map CloseListener lns @ (if sharedTransport m \<noteq> None then [CancelShared, CloseShared] else [])))"

section \<open>The store of sessions\<close>

text \<open>What the manager relies on of its map: a lookup after an insertion or a removal. A Go map is
  an association list here, and so provides it.\<close>

locale keyed_store =
  fixes lookup :: "'m \<Rightarrow> 'k \<Rightarrow> 'v option"
    and put :: "'k \<Rightarrow> 'v \<Rightarrow> 'm \<Rightarrow> 'm"
    and del :: "'k \<Rightarrow> 'm \<Rightarrow> 'm"
  assumes lookup_put: "lookup (put k v m) j = (if j = k then Some v else lookup m j)"
    and lookup_del: "lookup (del k m) j = (if j = k then None else lookup m j)"
begin

lemma lookup_del_all: "lookup (fold del ks m) j = (if j \<in> set ks then None else lookup m j)"
  by (induction ks arbitrary: m) (simp_all add: lookup_del)

lemma put_other: "j \<noteq> k \<Longrightarrow> lookup (put k v m) j = lookup m j"
  by (simp add: lookup_put)

end

interpretation alist: keyed_store map_of AList.update AList.delete
  by unfold_locales (simp_all add: AList.update_conv' AList.delete_conv')

section \<open>Invariant\<close>

text \<open>Sessions are found under their own identifier, an active session's name is its own, and no more
  are active than the limit allows.\<close>

definition active_named :: "Manager \<Rightarrow> string \<Rightarrow> Session \<Rightarrow> bool" where
  "active_named m k s \<longleftrightarrow> map_of (sessions m) k = Some s \<and> \<not> ptyClosed s \<and> Name s \<noteq> ''''"

definition mgr_inv :: "Manager \<Rightarrow> bool" where
  "mgr_inv m \<longleftrightarrow>
     distinct (map fst (sessions m)) \<and>
     (\<forall>k s. map_of (sessions m) k = Some s \<longrightarrow> ID s = k) \<and>
     (\<forall>k k' s s'. active_named m k s \<longrightarrow> active_named m k' s' \<longrightarrow> Name s = Name s' \<longrightarrow> k = k') \<and>
     (maxSessions m > 0 \<longrightarrow> int (activeSessionCountLocked m) \<le> maxSessions m)"

text \<open>What a session can become while it is in the map.\<close>

definition session_evolves :: "Session \<Rightarrow> Session \<Rightarrow> bool" where
  "session_evolves s s' \<longleftrightarrow> ID s' = ID s \<and> Name s' = Name s \<and> (ptyClosed s \<longrightarrow> ptyClosed s')"

lemma session_do_evolves: "session_evolves (sess c) (sess (fst (session_do enc deflate e c)))"
  by (cases e)
    (auto simp: session_evolves_def put_def case_prod_unfold handle_deliver_def flush_session evict_session
       session_more [OF locked_more] fst_evict_stale session_op_defs(2-) replay_send_def Let_def
       split: option.splits sum.splits list.splits)

lemma count_update:
  "length (filter P (AList.update k v al)) \<le> length (filter P al) + 1"
  by (induction al) auto

lemma count_update_le:
  "map_of al k = Some w \<Longrightarrow> (P (k, v) \<Longrightarrow> P (k, w)) \<Longrightarrow>
   length (filter P (AList.update k v al)) \<le> length (filter P al)"
  by (induction al) auto

lemma count_delete: "length (filter P (AList.delete k al)) \<le> length (filter P al)"
  by (induction al) auto

lemma list_ex_active:
  "distinct (map fst (sessions m)) \<Longrightarrow>
   list_ex (\<lambda>ks. Name (snd ks) = name \<and> \<not> ptyClosed (snd ks)) (sessions m) \<longleftrightarrow>
   (\<exists>k s. map_of (sessions m) k = Some s \<and> Name s = name \<and> \<not> ptyClosed s)"
  by (force simp: list_ex_iff map_of_eq_Some)

lemma evolve_inv:
  assumes "mgr_inv m" "map_of (sessions m) k = Some s" "session_evolves s s'"
  shows "mgr_inv (m\<lparr>sessions := AList.update k s' (sessions m)\<rparr>)"
proof -
  let ?m = "m\<lparr>sessions := AList.update k s' (sessions m)\<rparr>"
  have n: "active_named ?m j x \<Longrightarrow> \<exists>y. active_named m j y \<and> Name y = Name x" for j x
    using assms(2,3) by (auto simp: active_named_def alist.lookup_put session_evolves_def split: if_splits)
  have "length (filter (\<lambda>ks. \<not> ptyClosed (snd ks)) (AList.update k s' (sessions m)))
      \<le> length (filter (\<lambda>ks. \<not> ptyClosed (snd ks)) (sessions m))"
    using assms(3) by (intro count_update_le [OF assms(2)]) (auto simp: session_evolves_def)
  moreover have "distinct (map fst (AList.update k s' (sessions m)))"
    using assms(1) by (simp add: mgr_inv_def AList.distinct_update)
  moreover have "\<forall>j x. map_of (AList.update k s' (sessions m)) j = Some x \<longrightarrow> ID x = j"
    using assms by (auto simp: alist.lookup_put mgr_inv_def session_evolves_def)
  moreover have "active_named ?m j x \<longrightarrow> active_named ?m j' x' \<longrightarrow> Name x = Name x' \<longrightarrow> j = j'" for j j' x x'
    using n assms(1) unfolding mgr_inv_def by metis
  ultimately show ?thesis
    using assms(1) unfolding mgr_inv_def activeSessionCountLocked_def by fastforce
qed

lemma with_session_inv:
  assumes "mgr_inv m" "\<And>s. session_evolves s (fst (f s))"
  shows "mgr_inv (fst (with_session k f m))"
  using assms evolve_inv [OF assms(1)]
  by (auto simp: with_session_def case_prod_unfold split: option.split)

lemma fewer_inv:
  assumes "mgr_inv m" "distinct (map fst (sessions m'))" "maxSessions m' = maxSessions m"
    "\<And>k s. map_of (sessions m') k = Some s \<Longrightarrow> map_of (sessions m) k = Some s"
    "activeSessionCountLocked m' \<le> activeSessionCountLocked m"
  shows "mgr_inv m'"
proof -
  have "active_named m' k s \<Longrightarrow> active_named m k s" for k s
    using assms(4) by (simp add: active_named_def)
  moreover have "int (activeSessionCountLocked m') \<le> maxSessions m" if "maxSessions m > 0"
    using assms(1,5) that unfolding mgr_inv_def by linarith
  ultimately show ?thesis
    using assms(1-4) unfolding mgr_inv_def by metis
qed

lemma delete_inv:
  assumes "mgr_inv m"
  shows "mgr_inv (fst (DeleteSession listen now k m))"
proof (cases "map_of (sessions m) k")
  case (Some s)
  let ?m = "m\<lparr>sessions := AList.delete k (sessions m), rfwd := fst (rfwd_dropSession listen now k (rfwd m))\<rparr>"
  have "distinct (map fst (sessions m))" using assms by (simp add: mgr_inv_def)
  then have "distinct (map fst (AList.delete k (sessions m)))" by (rule AList.distinct_delete)
  then have "mgr_inv ?m"
    by (intro fewer_inv [OF assms])
      (simp_all add: activeSessionCountLocked_def count_delete alist.lookup_del split: if_splits)
  with Some show ?thesis by (simp add: DeleteSession_def case_prod_unfold Let_def)
qed (use assms in \<open>simp add: DeleteSession_def\<close>)

lemma register_inv:
  assumes "mgr_inv m" "ID s0 = k"
  shows "mgr_inv (fst (create_register name k s0 now m))"
proof -
  let ?s = "s0\<lparr>Name := name\<rparr>" and ?m = "m\<lparr>sessions := AList.update k (s0\<lparr>Name := name\<rparr>) (sessions m)\<rparr>"
  have d: "distinct (map fst (sessions m))" using assms(1) by (simp add: mgr_inv_def)
  have "mgr_inv ?m"
    if free: "name = '''' \<or> \<not> (\<exists>k s. map_of (sessions m) k = Some s \<and> Name s = name \<and> \<not> ptyClosed s)"
      and room: "maxSessions m > 0 \<Longrightarrow> int (activeSessionCountLocked m) < maxSessions m"
  proof -
    have a: "active_named ?m j x \<Longrightarrow> (j = k \<and> Name x = name \<and> name \<noteq> '''') \<or> (j \<noteq> k \<and> active_named m j x)" for j x
      by (auto simp: active_named_def alist.lookup_put split: if_splits)
    have "active_named ?m j x \<longrightarrow> active_named ?m j' x' \<longrightarrow> Name x = Name x' \<longrightarrow> j = j'" for j j' x x'
      using a [of j x] a [of j' x'] free assms(1) unfolding mgr_inv_def active_named_def by metis
    moreover have "maxSessions m > 0 \<Longrightarrow> int (activeSessionCountLocked ?m) \<le> maxSessions m"
      using room count_update [of "\<lambda>ks. \<not> ptyClosed (snd ks)" k ?s "sessions m"]
      by (simp add: activeSessionCountLocked_def)
    moreover have "\<forall>j x. map_of (sessions ?m) j = Some x \<longrightarrow> ID x = j"
      using assms by (auto simp: alist.lookup_put mgr_inv_def)
    ultimately show ?thesis
      using d unfolding mgr_inv_def by (simp add: AList.distinct_update)
  qed
  then show ?thesis
    using assms(1) list_ex_active [OF d, of name]
    by (auto simp: create_register_def Let_def not_le)
qed

lemma evict_stale_more [simp]: "out_buffer.more (EvictStaleOutput deflate now s) = out_buffer.more s"
proof -
  have "out_buffer.more (flushColdPending deflate s) = out_buffer.more s" for s :: "'a out_buffer_scheme"
    using flush_begin_more [of s]
    by (simp add: flushColdPending_def case_prod_unfold del: flush_begin_more split: option.split)
  moreover have "out_buffer.more (fst (evict_stale_locked now s)) = out_buffer.more s"
    by (simp add: fst_evict_stale)
  ultimately show ?thesis by (simp add: EvictStaleOutput_def case_prod_unfold)
qed

lemma evict_inv_mgr:
  assumes "mgr_inv m"
  shows "mgr_inv (evictStaleOutputBuffers deflate now m)"
proof -
  let ?f = "EvictStaleOutput deflate now" and ?m = "evictStaleOutputBuffers deflate now m"
  have f: "ID (?f s) = ID s" "Name (?f s) = Name s" "ptyClosed (?f s) = ptyClosed s" for s :: Session
    using session_more [OF evict_stale_more [of deflate now s]] by simp_all
  have look: "map_of (sessions ?m) k = map_option ?f (map_of (sessions m) k)" for k
    by (simp add: evictStaleOutputBuffers_def map_of_map)
  have keys: "map fst (sessions ?m) = map fst (sessions m)"
    by (simp add: evictStaleOutputBuffers_def case_prod_unfold comp_def)
  have count: "activeSessionCountLocked ?m = activeSessionCountLocked m"
    by (simp add: activeSessionCountLocked_def evictStaleOutputBuffers_def filter_map case_prod_unfold comp_def f)
  have "active_named ?m k s \<Longrightarrow> \<exists>s'. active_named m k s' \<and> Name s' = Name s" for k s
    by (auto simp: active_named_def look f)
  then have "active_named ?m k s \<longrightarrow> active_named ?m k' s' \<longrightarrow> Name s = Name s' \<longrightarrow> k = k'" for k k' s s'
    using assms unfolding mgr_inv_def by metis
  moreover have "\<forall>k s. map_of (sessions ?m) k = Some s \<longrightarrow> ID s = k"
    using assms by (auto simp: look f mgr_inv_def)
  moreover have "maxSessions ?m = maxSessions m" by (simp add: evictStaleOutputBuffers_def)
  ultimately show ?thesis
    using assms unfolding mgr_inv_def keys count by (simp only: simp_thms) blast
qed

lemma delete_each_inv: "mgr_inv m \<Longrightarrow> mgr_inv (fst (delete_each listen now ks m))"
proof (induction ks arbitrary: m)
  case (Cons k ks)
  from Cons.IH [OF delete_inv [OF Cons.prems]] show ?case
    by (simp add: case_prod_unfold Let_def)
qed simp

lemma DeleteSession_sessions:
  "sessions (fst (DeleteSession listen now k m)) = AList.delete k (sessions m)"
  by (simp add: DeleteSession_def case_prod_unfold Let_def AList.delete_notin_dom map_of_eq_None_iff split: option.split)

lemma delete_each_sessions:
  "sessions (fst (delete_each listen now ks m)) = fold AList.delete ks (sessions m)"
  by (induction ks arbitrary: m) (simp_all add: case_prod_unfold Let_def DeleteSession_sessions)

section \<open>Runs\<close>

datatype mgr_event =
    MCreate string Session time
  | MDelete string time
  | MCleanup "string \<Rightarrow> ClientID list" time
  | MEvict time
  | MTick time
  | MConnect ClientID
  | MInput "err option" time Input
  | MResize "err option" Resize
  | MSession string Session

fun mgr_do ::
  "(string \<Rightarrow> string \<Rightarrow> string + nat) \<Rightarrow> (bytes \<Rightarrow> err + bytes) \<Rightarrow> mgr_event \<Rightarrow> Manager \<Rightarrow> Manager" where
  "mgr_do listen deflate (MCreate name s now) m = fst (create_register name (ID s) s now m)"
| "mgr_do listen deflate (MDelete k now) m = fst (DeleteSession listen now k m)"
| "mgr_do listen deflate (MCleanup active now) m = fst (cleanupClosedSessions listen active now m)"
| "mgr_do listen deflate (MEvict now) m = evictStaleOutputBuffers deflate now m"
| "mgr_do listen deflate (MTick now) m = fst (remote_forward_tick listen now m)"
| "mgr_do listen deflate (MConnect client) m = fst (sharedOnConnect client m)"
| "mgr_do listen deflate (MInput r now inp) m = fst (routeSharedInput r now inp m)"
| "mgr_do listen deflate (MResize r rz) m = fst (routeSharedResize r rz m)"
| "mgr_do listen deflate (MSession k s') m =
     (case map_of (sessions m) k of
        None \<Rightarrow> m
      | Some s \<Rightarrow> if session_evolves s s' then m\<lparr>sessions := AList.update k s' (sessions m)\<rparr> else m)"

lemma same_sessions_inv:
  "mgr_inv m \<Longrightarrow> sessions m' = sessions m \<Longrightarrow> maxSessions m' = maxSessions m \<Longrightarrow> mgr_inv m'"
  by (simp add: mgr_inv_def active_named_def activeSessionCountLocked_def)

lemma mgr_do_inv:
  assumes "mgr_inv m"
  shows "mgr_inv (mgr_do listen deflate e m)"
proof (cases e)
  case (MTick now)
  with assms show ?thesis
    by (auto intro: same_sessions_inv simp: remote_forward_tick_def case_prod_unfold Let_def)
next
  case (MConnect client)
  with assms show ?thesis
    by (auto simp: sharedOnConnect_def session_evolves_def OnQUICClientConnected_def signalQuicReadyLocked_def
        Let_def intro!: with_session_inv split: option.split)
next
  case (MInput r now inp)
  with assms show ?thesis
    by (auto simp: routeSharedInput_def case_prod_unfold session_evolves_def WriteInput_def
        intro!: with_session_inv split: option.split)
next
  case (MResize r rz)
  with assms show ?thesis
    by (auto simp: routeSharedResize_def case_prod_unfold session_evolves_def Session.Resize_def
        intro!: with_session_inv split: option.split)
qed (use assms in \<open>simp_all add: register_inv delete_inv cleanupClosedSessions_def delete_each_inv evict_inv_mgr
      evolve_inv split: option.split\<close>)

lemma mgr_do_max: "maxSessions (mgr_do listen deflate e m) = maxSessions m"
proof -
  have d: "maxSessions (fst (DeleteSession listen now k m)) = maxSessions m" for now k m
    by (simp add: DeleteSession_def case_prod_unfold Let_def split: option.split)
  have "maxSessions (fst (delete_each listen now ks m)) = maxSessions m" for now ks m
    by (induction ks arbitrary: m) (simp_all add: case_prod_unfold Let_def d)
  then show ?thesis
    by (cases e)
      (simp_all add: d create_register_def cleanupClosedSessions_def evictStaleOutputBuffers_def
        remote_forward_tick_def sharedOnConnect_def routeSharedInput_def routeSharedResize_def with_session_def
        case_prod_unfold Let_def split: option.split)
qed

lemma mgr_run:
  assumes "mgr_inv m" "maxSessions m = n"
  shows "mgr_inv (fold (mgr_do listen deflate) es m) \<and> maxSessions (fold (mgr_do listen deflate) es m) = n"
  using assms by (induction es arbitrary: m) (simp_all add: mgr_do_inv mgr_do_max)

lemma new_manager_inv: "mgr_inv (SetMaxSessions n (NewManager random now))"
  by (simp add: mgr_inv_def SetMaxSessions_def NewManager_def active_named_def activeSessionCountLocked_def)

text \<open>C12. However creations by several connections, removals, the periodic work, the shared transport's
  calls and whatever the sessions do themselves interleave: a session is found under its own
  identifier, no two active sessions have the same name, and never more than the limit are active.\<close>

theorem manager_invariant:
  assumes "m = fold (mgr_do listen deflate) es (SetMaxSessions n (NewManager random now))"
  shows "(\<forall>k s. map_of (sessions m) k = Some s \<longrightarrow> ID s = k) \<and>
    (\<forall>k k' s s'. active_named m k s \<longrightarrow> active_named m k' s' \<longrightarrow> Name s = Name s' \<longrightarrow> k = k') \<and>
    (n > 0 \<longrightarrow> int (activeSessionCountLocked m) \<le> n)"
proof -
  have "maxSessions (SetMaxSessions n (NewManager random now)) = n" by (simp add: SetMaxSessions_def)
  from mgr_run [OF new_manager_inv this, of listen deflate es] have "mgr_inv m" "maxSessions m = n"
    unfolding assms by blast+
  then show ?thesis unfolding mgr_inv_def by blast
qed

definition idle_session :: "string \<Rightarrow> Session" where
  "idle_session k = session0 k ''sh'' 24 80 None 0"

lemma manager_invariant_witness:
  "int (activeSessionCountLocked (fold (mgr_do (\<lambda>_ _. Inl ''busy'') Inr)
     [MCreate ''a'' (idle_session ''s1'') 0, MCreate ''a'' (idle_session ''s2'') 1, MCreate ''b'' (idle_session ''s3'') 2]
     (SetMaxSessions 1 (NewManager None 0)))) \<le> 1"
  using manager_invariant [OF refl, where n = 1 and listen = "\<lambda>_ _. Inl ''busy''" and deflate = Inr
      and es = "[MCreate ''a'' (idle_session ''s1'') 0, MCreate ''a'' (idle_session ''s2'') 1, MCreate ''b'' (idle_session ''s3'') 2]"
      and random = None and now = 0]
  by (simp del: fold.simps mgr_do.simps)

lemma cleanup_lookup:
  assumes "distinct (map fst (sessions m))"
  shows "map_of (sessions (fst (cleanupClosedSessions listen active now m))) k =
    (case map_of (sessions m) k of
       None \<Rightarrow> None
     | Some s \<Rightarrow>
         if ptyClosed s \<and> clients s = [] \<and> \<not> (st s \<and> ID s \<in> cid_Session ` set (active k)) \<and>
            (case ptyClosedAt s of None \<Rightarrow> True | Some t \<Rightarrow> now - t > 30 * second)
         then None else Some s)"
proof -
  have look: "map_of (sessions (fst (cleanupClosedSessions listen active now m))) k =
      (if k \<in> set (map fst (filter (to_delete active now) (sessions m))) then None else map_of (sessions m) k)"
    by (simp only: cleanupClosedSessions_def delete_each_sessions alist.lookup_del_all)
  have "GetClientCount (active k) s = 0 \<longleftrightarrow> clients s = [] \<and> \<not> (st s \<and> ID s \<in> cid_Session ` set (active k))" for s
    by (force simp: GetClientCount_def Let_def filter_empty_conv image_iff)
  then have "to_delete active now (k, s) \<longleftrightarrow>
      ptyClosed s \<and> clients s = [] \<and> \<not> (st s \<and> ID s \<in> cid_Session ` set (active k)) \<and>
      (case ptyClosedAt s of None \<Rightarrow> True | Some t \<Rightarrow> now - t > 30 * second)" for s
    unfolding to_delete_def graceperiod_def by simp
  moreover have "k \<in> set (map fst (filter (to_delete active now) (sessions m))) \<longleftrightarrow>
      (\<exists>s. map_of (sessions m) k = Some s \<and> to_delete active now (k, s))"
    by (force simp: map_of_eq_Some [OF assms])
  ultimately show ?thesis unfolding look by (auto split: option.split)
qed

text \<open>The periodic cleanup removes exactly the sessions whose pty was closed more than thirty
  seconds ago and that no client uses on either path; every other session stays as it is.\<close>

theorem cleanup_removes_exactly:
  assumes "distinct (map fst (sessions m))"
  shows "map_of (sessions (fst (cleanupClosedSessions listen active now m))) k =
    (case map_of (sessions m) k of
       None \<Rightarrow> None
     | Some s \<Rightarrow>
         if ptyClosed s \<and> clients s = [] \<and> \<not> (st s \<and> ID s \<in> cid_Session ` set (active k)) \<and>
            (case ptyClosedAt s of None \<Rightarrow> True | Some t \<Rightarrow> now - t > 30 * second)
         then None else Some s)"
  by (rule cleanup_lookup [OF assms])

lemma cleanup_removes_exactly_witness:
  "map_of (sessions (fst (cleanupClosedSessions (\<lambda>_ _. Inl ''busy'') (\<lambda>_. []) (31 * second)
     ((NewManager None 0)\<lparr>sessions := [(''s1'', (idle_session ''s1'')\<lparr>ptyClosed := True, ptyClosedAt := Some 0\<rparr>)]\<rparr>)))) ''s1'' = None"
  using cleanup_removes_exactly [of "(NewManager None 0)\<lparr>sessions := [(''s1'', (idle_session ''s1'')\<lparr>ptyClosed := True, ptyClosedAt := Some 0\<rparr>)]\<rparr>"
      "\<lambda>_ _. Inl ''busy''" "\<lambda>_. []" "31 * second" "''s1''"]
  by (simp add: idle_session_def session0_def second_def)

end
