(* ===== verification/Handover.thy ===== *)
theory Handover
  imports Manager
begin

text \<open>
  The restart without interruption (internal/session/handover.go): the state a manager writes for its
  successor while it holds every session's lock, and what the successor restores. File descriptors
  are numbers; duplicating them, finding a process, opening sockets and msgpack are parameters. The
  process id and the arguments of a session, which the model of a session does not keep, are
  functions of its identifier.
\<close>

section \<open>The state that is handed over\<close>

(* internal/session/handover.go:30-33 HandoverVersion *)
definition HandoverVersion :: int where
  "HandoverVersion = 1"

(* internal/session/handover.go:39-43 handoverChunk *)
record handoverChunk =
  hc_Seq :: nat
  hc_TS :: int
  hc_Data :: bytes

(* internal/session/handover.go:45-52 handoverColdSegment *)
record handoverColdSegment =
  hg_StartSeq :: nat
  hg_EndSeq :: nat
  hg_RawBytes :: nat
  hg_Data :: bytes
  hg_OldestNS :: int
  hg_NewestNS :: int

(* internal/session/handover.go:54-83 handoverSession *)
record handoverSession =
  hs_ID :: string
  hs_Name :: string
  hs_Cmd :: string
  hs_Args :: "string list"
  hs_Rows :: int
  hs_Cols :: int
  hs_CreatedAtNS :: int
  hs_Seq :: nat
  hs_ChildPID :: int
  hs_PtyFd :: int
  hs_AgentForward :: bool
  hs_QUICClientIDsOut :: "client_id list"
  hs_LastDetachedNS :: int
  hs_LastOutputNS :: int
  hs_LastInputNS :: int
  hs_TermModes :: bytes
  hs_Port :: int
  hs_Key :: bytes
  hs_QuicFd :: int
  hs_Hot :: "handoverChunk list"
  hs_ColdPending :: "handoverChunk list"
  hs_Cold :: "handoverColdSegment list"

(* internal/session/handover.go:85-93 handoverState *)
record handoverState =
  hst_Version :: int
  hst_InstanceID :: bytes
  hst_SharedKey :: bytes
  hst_SharedPort :: int
  hst_SharedQuicFd :: int
  hst_Sessions :: "handoverSession list"

(* internal/session/handover.go:112-118 chunksToHandover *)
definition chunksToHandover :: "OutputChunk list \<Rightarrow> handoverChunk list" where
  "chunksToHandover chunks =
     map (\<lambda>ch. \<lparr>hc_Seq = Seq ch, hc_TS = Timestamp ch, hc_Data = Data ch\<rparr>) chunks"

(* internal/session/handover.go:120-128 chunksFromHandover *)
definition chunksFromHandover :: "handoverChunk list \<Rightarrow> OutputChunk list \<times> int" where
  "chunksFromHandover hcs =
     (map (\<lambda>hc. \<lparr>Seq = hc_Seq hc, Data = hc_Data hc, Timestamp = hc_TS hc\<rparr>) hcs,
      int (sum_list (map (\<lambda>hc. length (hc_Data hc)) hcs)))"

section \<open>Writing\<close>

text \<open>The system's part: duplicating a session's pty and socket and the shared socket, its child and
  arguments, and the encoder.\<close>

record handover_sys =
  hy_dupPty :: "string \<Rightarrow> err + int"
  hy_dupUDP :: "string \<Rightarrow> err + int"
  hy_dupShared :: "err + int"
  hy_pid :: "string \<Rightarrow> int"
  hy_args :: "string \<Rightarrow> string list"
  hy_enc :: "handoverState \<Rightarrow> err + bytes"

definition time_ns :: "time option \<Rightarrow> int" where
  "time_ns t = (case t of None \<Rightarrow> 0 | Some x \<Rightarrow> x)"

text \<open>What is left for the cleanup, or not started, is not handed over.\<close>

(* internal/session/handover.go:176-178 Manager.WriteHandover *)
definition handed_over :: "Session \<Rightarrow> bool" where
  "handed_over s \<longleftrightarrow> \<not> (ptyClosed s \<or> \<not> ptyMaster s \<or> \<not> proc s)"

(* internal/session/handover.go:185-221 Manager.WriteHandover *)
definition session_to_handover :: "handover_sys \<Rightarrow> int \<Rightarrow> Session \<Rightarrow> handoverSession" where
  "session_to_handover sys ptyFd s =
     \<lparr>hs_ID = ID s, hs_Name = Name s, hs_Cmd = Cmd s, hs_Args = hy_args sys (ID s), hs_Rows = Rows s,
      hs_Cols = Cols s, hs_CreatedAtNS = CreatedAt s, hs_Seq = sq s, hs_ChildPID = hy_pid sys (ID s),
      hs_PtyFd = ptyFd, hs_AgentForward = (agentSockPath s \<noteq> None), hs_QUICClientIDsOut = quicClientIDsOut s,
      hs_LastDetachedNS = time_ns (lastDetachedAt s), hs_LastOutputNS = time_ns (lastOutputAt s),
      hs_LastInputNS = time_ns (lastInputAt s), hs_TermModes = Restore (termModes s),
      hs_Port = 0, hs_Key = [], hs_QuicFd = -1,
      hs_Hot = chunksToHandover (outputChunks s), hs_ColdPending = chunksToHandover (coldPending s),
      hs_Cold = map (\<lambda>seg. \<lparr>hg_StartSeq = startSeq seg, hg_EndSeq = endSeq seg, hg_RawBytes = rawBytes seg,
                     hg_Data = seg_data seg, hg_OldestNS = oldestTime seg, hg_NewestNS = newestTime seg\<rparr>)
                  (coldSegments s)\<rparr>"

text \<open>One turn of the loop: the descriptors duplicated so far grow even when it fails.\<close>

(* internal/session/handover.go:176-236 Manager.WriteHandover *)
definition write_session ::
  "handover_sys \<Rightarrow> Session \<Rightarrow> int list \<Rightarrow> int list \<times> (err + handoverSession option)" where
  "write_session sys s fds =
     (if \<not> handed_over s then (fds, Inr None)
      else
        (case hy_dupPty sys (ID s) of
           Inl e \<Rightarrow> (fds, Inl (Wrapped (''session '' @ ID s @ '': dup pty fd'') e))
         | Inr ptyFd \<Rightarrow>
             let fds1 = fds @ [ptyFd]; hs = session_to_handover sys ptyFd s in
             if st s \<and> \<not> usesSharedTransport s then
               (case hy_dupUDP sys (ID s) of
                  Inl e \<Rightarrow> (fds1, Inl (Wrapped (''session '' @ ID s @ '': dup udp socket'') e))
                | Inr fd \<Rightarrow>
                    (fds1 @ [fd], Inr (Some (hs\<lparr>hs_QuicFd := fd, hs_Port := quicPort s, hs_Key := quicKey s\<rparr>))))
             else (fds1, Inr (Some hs))))"

(* internal/session/handover.go:173-237 Manager.WriteHandover *)
fun write_sessions ::
  "handover_sys \<Rightarrow> (string \<times> Session) list \<Rightarrow> int list \<Rightarrow> int list \<times> (err + handoverSession list)" where
  "write_sessions sys [] fds = (fds, Inr [])"
| "write_sessions sys ((k, s) # rest) fds =
     (case write_session sys s fds of
        (fds1, Inl e) \<Rightarrow> (fds1, Inl e)
      | (fds1, Inr r) \<Rightarrow>
          (case write_sessions sys rest fds1 of
             (fds2, Inl e) \<Rightarrow> (fds2, Inl e)
           | (fds2, Inr hss) \<Rightarrow> (fds2, Inr ((case r of None \<Rightarrow> [] | Some hs \<Rightarrow> [hs]) @ hss))))"

text \<open>Failing closes the duplicated descriptors; success keeps them with every lock, and tells the
  clients of each transport to reconnect.\<close>

datatype handover_result =
    HandoverFailed err "int list"
  | HandoverReady bytes "int list" "string option list"

(* internal/session/handover.go:243-259 Manager.WriteHandover *)
definition disconnected :: "Manager \<Rightarrow> string option list" where
  "disconnected m =
     (if sharedTransport m \<noteq> None then [None] else [])
     @ map (\<lambda>ks. Some (fst ks)) (filter (\<lambda>ks. st (snd ks) \<and> \<not> usesSharedTransport (snd ks)) (sessions m))"

definition state_of :: "Manager \<Rightarrow> int \<Rightarrow> handoverSession list \<Rightarrow> handoverState" where
  "state_of m fd hss =
     \<lparr>hst_Version = HandoverVersion, hst_InstanceID = serverInstanceID m,
      hst_SharedKey = (case sharedTransport m of None \<Rightarrow> [] | Some (_, key) \<Rightarrow> key),
      hst_SharedPort = (case sharedTransport m of None \<Rightarrow> 0 | Some (port, _) \<Rightarrow> port),
      hst_SharedQuicFd = fd, hst_Sessions = hss\<rparr>"

(* internal/session/handover.go:130-262 Manager.WriteHandover *)
definition WriteHandover :: "handover_sys \<Rightarrow> Manager \<Rightarrow> handover_result" where
  "WriteHandover sys m =
     (case (if sharedTransport m = None then Inr None else (case hy_dupShared sys of Inl e \<Rightarrow> Inl e | Inr x \<Rightarrow> Inr (Some x))) of
        Inl e \<Rightarrow> HandoverFailed (Wrapped ''dup shared udp socket'' e) []
      | Inr fd \<Rightarrow>
          let fds0 = (case fd of None \<Rightarrow> [] | Some x \<Rightarrow> [x]); sfd = (case fd of None \<Rightarrow> -1 | Some x \<Rightarrow> x) in
          (case write_sessions sys (sessions m) fds0 of
             (fds, Inl e) \<Rightarrow> HandoverFailed e fds
           | (fds, Inr hss) \<Rightarrow>
               (case hy_enc sys (state_of m sfd hss) of
                  Inl e \<Rightarrow> HandoverFailed (Wrapped ''encode handover state'' e) fds
                | Inr b \<Rightarrow> HandoverReady b fds (disconnected m))))"

section \<open>Restoring\<close>

text \<open>The system's part of the successor: decoding, the child, the agent socket, and a descriptor's
  socket, the server on it and its start.\<close>

record restore_sys =
  ry_dec :: "bytes \<Rightarrow> err + handoverState"
  ry_find :: "int \<Rightarrow> err option"
  ry_agent :: "string \<Rightarrow> err + string"
  ry_conn :: "int \<Rightarrow> err option"
  ry_server :: "bytes \<Rightarrow> err option"
  ry_start :: "int \<Rightarrow> err option"

definition ns_time :: "int \<Rightarrow> time option" where
  "ns_time n = (if n \<noteq> 0 then Some n else None)"

(* internal/session/handover.go:330-379 Manager.restoreSession *)
definition session_from_handover :: "handoverSession \<Rightarrow> Session" where
  "session_from_handover hs =
     (let (hot, hotBytes) = chunksFromHandover (hs_Hot hs);
          (pending, pendingBytes) = chunksFromHandover (hs_ColdPending hs) in
      (session0 (hs_ID hs) (hs_Cmd hs) (hs_Rows hs) (hs_Cols hs) None (hs_CreatedAtNS hs))
        \<lparr>Name := hs_Name hs, ptyMaster := True, proc := True, sq := hs_Seq hs, outputChunks := hot,
         outputBufferBytes := hotBytes, coldPending := pending, coldPendingBytes := pendingBytes,
         quicClientIDsOut := hs_QUICClientIDsOut hs, termModes := mode_scan (hs_TermModes hs) zero_tracker,
         lastDetachedAt := ns_time (hs_LastDetachedNS hs), lastOutputAt := ns_time (hs_LastOutputNS hs),
         lastInputAt := ns_time (hs_LastInputNS hs),
         coldSegments := map (\<lambda>g. \<lparr>startSeq = hg_StartSeq g, endSeq = hg_EndSeq g, rawBytes = hg_RawBytes g,
                                   seg_data = hg_Data g, oldestTime = hg_OldestNS g, newestTime = hg_NewestNS g\<rparr>)
                          (hs_Cold hs),
         coldBytes := int (sum_list (map (\<lambda>g. length (hg_Data g)) (hs_Cold hs))),
         coldRawBytes := int (sum_list (map hg_RawBytes (hs_Cold hs)))\<rparr>)"

(* internal/session/handover.go:393-419 Manager.restoreSession *)
definition restore_transport ::
  "restore_sys \<Rightarrow> (int \<times> bytes) option \<Rightarrow> handoverSession \<Rightarrow> Session \<Rightarrow> err + Session" where
  "restore_transport sys shared hs s =
     (case shared of
        Some (port, key) \<Rightarrow>
          Inr (s\<lparr>st := True, usesSharedTransport := True, quicEnabled := True, quicPort := port, quicKey := key\<rparr>)
      | None \<Rightarrow>
          if hs_QuicFd hs \<ge> 0 then
            (case ry_conn sys (hs_QuicFd hs) of
               Some e \<Rightarrow> Inl (Wrapped ''restore udp socket'' e)
             | None \<Rightarrow>
                 (case ry_server sys (hs_Key hs) of
                    Some e \<Rightarrow> Inl (Wrapped ''restore transport'' e)
                  | None \<Rightarrow>
                      (case adoptPerSessionTransport (ry_start sys (hs_QuicFd hs)) (hs_Port hs) (hs_Key hs) s of
                         Inl e \<Rightarrow> Inl (Wrapped ''adopt transport'' e)
                       | Inr s' \<Rightarrow> Inr s')))
          else Inr s)"

text \<open>A session that cannot be restored closes its pty, and its child then ends.\<close>

(* internal/session/handover.go:314-428 Manager.restoreSession *)
definition restoreSession :: "restore_sys \<Rightarrow> handoverSession \<Rightarrow> Manager \<Rightarrow> Manager \<times> int list \<times> err option" where
  "restoreSession sys hs m =
     (case ry_find sys (hs_ChildPID hs) of
        Some e \<Rightarrow>
          (m, hs_PtyFd hs # (if hs_QuicFd hs \<ge> 0 then [hs_QuicFd hs] else []),
           Some (Wrapped (''find child process '' @ show_int (hs_ChildPID hs)) e))
      | None \<Rightarrow>
          let s = session_from_handover hs;
              s1 = (if hs_AgentForward hs
                    then (case ry_agent sys (hs_ID hs) of Inl _ \<Rightarrow> s | Inr path \<Rightarrow> s\<lparr>agentSockPath := Some path\<rparr>)
                    else s) in
          (case restore_transport sys (sharedTransport m) hs s1 of
             Inl e \<Rightarrow> (m, [hs_PtyFd hs], Some e)
           | Inr s2 \<Rightarrow> (m\<lparr>sessions := AList.update (hs_ID hs) s2 (sessions m)\<rparr>, [], None)))"

fun restore_each :: "restore_sys \<Rightarrow> handoverSession list \<Rightarrow> Manager \<Rightarrow> Manager \<times> nat" where
  "restore_each sys [] m = (m, 0)"
| "restore_each sys (hs # rest) m =
     (case restoreSession sys hs m of
        (m1, _, r) \<Rightarrow>
          (case restore_each sys rest m1 of (m2, n) \<Rightarrow> (m2, if r = None then n + 1 else n)))"

(* internal/session/handover.go:274-312 Manager.RestoreHandover *)
definition RestoreHandover :: "restore_sys \<Rightarrow> bytes \<Rightarrow> Manager \<Rightarrow> Manager \<times> nat \<times> err option" where
  "RestoreHandover sys b m =
     (case ry_dec sys b of
        Inl e \<Rightarrow> (m, 0, Some (Wrapped ''decode handover state'' e))
      | Inr h \<Rightarrow>
          if hst_Version h \<noteq> HandoverVersion then (m, 0, Some (ErrorString ''handover state version mismatch''))
          else
            let m1 = m\<lparr>serverInstanceID := hst_InstanceID h\<rparr>;
                r = (if hst_SharedQuicFd h \<ge> 0 then
                       (case ry_conn sys (hst_SharedQuicFd h) of
                          Some e \<Rightarrow> Inl (Wrapped ''restore shared udp socket'' e)
                        | None \<Rightarrow>
                            (case ry_server sys (hst_SharedKey h) of
                               Some e \<Rightarrow> Inl (Wrapped ''restore shared transport'' e)
                             | None \<Rightarrow>
                                 map_sum (Wrapped ''adopt shared transport'') id
                                   (adoptSharedTransport (ry_start sys (hst_SharedQuicFd h)) (hst_SharedPort h)
                                      (hst_SharedKey h) m1)))
                     else Inr m1) in
            (case r of
               Inl e \<Rightarrow> (m1, 0, Some e)
             | Inr m2 \<Rightarrow> (case restore_each sys (hst_Sessions h) m2 of (m3, n) \<Rightarrow> (m3, n, None))))"

section \<open>Nothing is lost\<close>

text \<open>Every system call of the successor succeeds on what the predecessor handed over, and msgpack
  decodes what it encoded. A session's transport is the manager's if it has one.\<close>

definition restores :: "handover_sys \<Rightarrow> restore_sys \<Rightarrow> bool" where
  "restores w r \<longleftrightarrow>
     (\<forall>h b. hy_enc w h = Inr b \<longrightarrow> ry_dec r b = Inr h) \<and>
     (\<forall>pid. ry_find r pid = None) \<and> (\<forall>fd. ry_conn r fd = None) \<and> (\<forall>key. ry_server r key = None) \<and>
     (\<forall>fd. ry_start r fd = None) \<and> (\<forall>k fd. hy_dupUDP w k = Inr fd \<longrightarrow> fd \<ge> 0) \<and>
     (\<forall>fd. hy_dupShared w = Inr fd \<longrightarrow> fd \<ge> 0)"

definition transport_of :: "(int \<times> bytes) option \<Rightarrow> Session \<Rightarrow> bool" where
  "transport_of shared s \<longleftrightarrow>
     (case shared of
        None \<Rightarrow> \<not> usesSharedTransport s
      | Some (port, key) \<Rightarrow> st s \<and> usesSharedTransport s \<and> quicPort s = port \<and> quicKey s = key)"

text \<open>What a session is after the restart: what it was, without its clients on the socket, with its gate
  open and no compression running. A moment is never the zero of the clock.\<close>

definition carried :: "Session \<Rightarrow> Session \<Rightarrow> bool" where
  "carried s s' \<longleftrightarrow>
     ID s' = ID s \<and> Name s' = Name s \<and> Cmd s' = Cmd s \<and> Size s' = Size s \<and> CreatedAt s' = CreatedAt s \<and>
     sq s' = sq s \<and> outputChunks s' = outputChunks s \<and> coldPending s' = coldPending s \<and>
     coldSegments s' = coldSegments s \<and> counters_ok s' \<and> \<not> coldFlushing s' \<and>
     quicClientIDsOut s' = quicClientIDsOut s \<and> mt_diff (termModes s') = mt_diff (termModes s) \<and>
     st s' = st s \<and> (st s \<longrightarrow> quicPort s' = quicPort s \<and> quicKey s' = quicKey s) \<and>
     (lastDetachedAt s \<noteq> Some 0 \<longrightarrow> lastDetachedAt s' = lastDetachedAt s) \<and>
     (lastOutputAt s \<noteq> Some 0 \<longrightarrow> lastOutputAt s' = lastOutputAt s) \<and>
     (lastInputAt s \<noteq> Some 0 \<longrightarrow> lastInputAt s' = lastInputAt s) \<and>
     clients s' = [] \<and> quicReady s' \<and> handed_over s'"

lemma chunks_handover [simp]: "chunksFromHandover (chunksToHandover cs) = (cs, int (raw_size cs))"
  by (induction cs) (auto simp: chunksFromHandover_def chunksToHandover_def comp_def raw_size_def)

lemma ns_time_ns: "t \<noteq> Some 0 \<Longrightarrow> ns_time (time_ns t) = t"
  by (auto simp: ns_time_def time_ns_def split: option.splits)

lemma segments_handover [simp]:
  "map (\<lambda>seg. \<lparr>startSeq = startSeq seg, endSeq = endSeq seg, rawBytes = rawBytes seg,
          seg_data = seg_data seg, oldestTime = oldestTime seg, newestTime = newestTime seg\<rparr>) segs = segs"
  by (induction segs) simp_all

lemma carried_base:
  assumes "mode_inv (termModes s)" "handed_over s"
    and "hs = (session_to_handover sys fd s)\<lparr>hs_QuicFd := q, hs_Port := p, hs_Key := key\<rparr>"
    and "s' = (session_from_handover hs)\<lparr>agentSockPath := a, st := st s, usesSharedTransport := u, quicEnabled := e,
      quicPort := pp, quicKey := kk\<rparr>" "st s \<longrightarrow> pp = quicPort s \<and> kk = quicKey s"
  shows "carried s s'"
  using Restore_scan [OF assms(1)] assms(2,5) unfolding assms(4,3)
  by (simp add: carried_def session_from_handover_def session_to_handover_def session0_def handed_over_def
      Size_def counters_ok_def ns_time_ns comp_def)

lemma restore_one:
  assumes "write_session w s fds = (fds', Inr (Some hs))" "restores w r" "transport_of (sharedTransport m) s"
    "mode_inv (termModes s)"
  shows "\<exists>s'. restoreSession r hs m = (m\<lparr>sessions := AList.update (ID s) s' (sessions m)\<rparr>, [], None) \<and> carried s s'"
proof -
  from assms(1) obtain fd q p key where hs: "handed_over s"
      "hs = (session_to_handover w fd s)\<lparr>hs_QuicFd := q, hs_Port := p, hs_Key := key\<rparr>"
      "if st s \<and> \<not> usesSharedTransport s then hy_dupUDP w (ID s) = Inr q \<and> p = quicPort s \<and> key = quicKey s
       else q = -1"
    by (force simp: write_session_def Let_def session_to_handover_def split: if_splits sum.splits)
  obtain a where a: "(if hs_AgentForward hs
      then (case ry_agent r (hs_ID hs) of Inl _ \<Rightarrow> session_from_handover hs
            | Inr path \<Rightarrow> (session_from_handover hs)\<lparr>agentSockPath := Some path\<rparr>)
      else session_from_handover hs) = (session_from_handover hs)\<lparr>agentSockPath := a\<rparr>"
    by (fastforce simp: session_from_handover_def session0_def chunksFromHandover_def split: sum.split)
  have id: "hs_ID hs = ID s" "hs_QuicFd hs = q" "hs_Port hs = p" "hs_Key hs = key"
    by (simp_all add: hs(2) session_to_handover_def)
  obtain u e pp kk where t: "restore_transport r (sharedTransport m) hs
        ((session_from_handover hs)\<lparr>agentSockPath := a\<rparr>) =
      Inr ((session_from_handover hs)\<lparr>agentSockPath := a, st := st s, usesSharedTransport := u, quicEnabled := e,
        quicPort := pp, quicKey := kk\<rparr>)" "st s \<longrightarrow> pp = quicPort s \<and> kk = quicKey s"
  proof (cases "sharedTransport m")
    case (Some pk)
    then show ?thesis using assms(3) that
      by (cases pk) (auto simp: restore_transport_def transport_of_def)
  next
    case None
    then have u: "\<not> usesSharedTransport s" using assms(3) by (simp add: transport_of_def)
    show ?thesis
    proof (cases "st s")
      case True
      then show ?thesis using that hs(3) u None assms(2)
        by (auto simp: restore_transport_def id restores_def adoptPerSessionTransport_def
            session_from_handover_def session0_def chunksFromHandover_def)
    next
      case False
      then show ?thesis using that [of "[]" 0 False False] hs(3) None
        by (simp add: restore_transport_def id session_from_handover_def session0_def chunksFromHandover_def)
    qed
  qed
  have "restoreSession r hs m = (m\<lparr>sessions := AList.update (ID s) ((session_from_handover hs)\<lparr>agentSockPath := a,
      st := st s, usesSharedTransport := u, quicEnabled := e, quicPort := pp, quicKey := kk\<rparr>) (sessions m)\<rparr>, [], None)"
    using assms(2) unfolding restoreSession_def by (simp add: a t(1) id restores_def)
  with carried_base [OF assms(4) hs(1,2) refl t(2)] show ?thesis by blast
qed

text \<open>The sessions written, restored one after the other.\<close>

lemma restore_all:
  assumes "write_sessions w al fds = (fds', Inr hss)" "restores w r" "distinct (map fst al)"
    "\<forall>ks\<in>set al. ID (snd ks) = fst ks \<and> transport_of shared (snd ks) \<and> mode_inv (termModes (snd ks))"
    "sharedTransport m = shared" "restore_each r hss m = (m', n)"
  shows "n = length (filter (\<lambda>ks. handed_over (snd ks)) al) \<and> sharedTransport m' = shared \<and>
    serverInstanceID m' = serverInstanceID m \<and>
    (\<forall>k. case map_of (filter (\<lambda>ks. handed_over (snd ks)) al) k of
       None \<Rightarrow> map_of (sessions m') k = map_of (sessions m) k
     | Some s \<Rightarrow> \<exists>s'. map_of (sessions m') k = Some s' \<and> carried s s')"
  using assms
proof (induction al arbitrary: fds hss m n)
  case (Cons ks al)
  obtain k s where ks: "ks = (k, s)" by (cases ks)
  from Cons.prems(1) ks obtain fds1 res hss1 where w: "write_session w s fds = (fds1, Inr res)"
      "write_sessions w al fds1 = (fds', Inr hss1)" "hss = (case res of None \<Rightarrow> [] | Some hs \<Rightarrow> [hs]) @ hss1"
    by (auto split: prod.splits sum.splits)
  have k: "ID s = k" "transport_of shared s" "mode_inv (termModes s)" "k \<notin> fst ` set al"
    using Cons.prems(3,4) ks by auto
  show ?case
  proof (cases res)
    case None
    then have "\<not> handed_over s" using w(1) by (auto simp: write_session_def Let_def split: if_splits sum.splits)
    with Cons.IH [OF w(2)] Cons.prems w None ks show ?thesis by auto
  next
    case (Some hs)
    then have h: "handed_over s" using w(1) by (auto simp: write_session_def split: if_splits)
    obtain s' where s': "restoreSession r hs m = (m\<lparr>sessions := AList.update k s' (sessions m)\<rparr>, [], None)" "carried s s'"
      using restore_one [of w s fds fds1 hs r m] w(1) Some Cons.prems(2,5) k by auto
    let ?m1 = "m\<lparr>sessions := AList.update k s' (sessions m)\<rparr>"
    obtain n1 where r1: "restore_each r hss1 ?m1 = (m', n1)" "n = n1 + 1"
      using Cons.prems(6) w(3) Some s'(1) by (auto split: prod.splits)
    have rest: "distinct (map fst al)" "sharedTransport ?m1 = shared"
      "\<forall>ks\<in>set al. ID (snd ks) = fst ks \<and> transport_of shared (snd ks) \<and> mode_inv (termModes (snd ks))"
      using Cons.prems(3-5) by auto
    note all = Cons.IH [OF w(2) Cons.prems(2) rest(1,3,2) r1(1)]
    then have step: "case map_of (filter (\<lambda>ks. handed_over (snd ks)) al) j of
         None \<Rightarrow> map_of (sessions m') j = map_of (sessions ?m1) j
       | Some s \<Rightarrow> \<exists>s'. map_of (sessions m') j = Some s' \<and> carried s s'" for j
      by blast
    have IH: "n1 = length (filter (\<lambda>ks. handed_over (snd ks)) al) \<and> sharedTransport m' = shared \<and>
      serverInstanceID m' = serverInstanceID m"
      using all by simp
    have IH2: "case map_of (filter (\<lambda>ks. handed_over (snd ks)) al) j of
         None \<Rightarrow> map_of (sessions m') j = (if j = k then Some s' else map_of (sessions m) j)
       | Some s \<Rightarrow> \<exists>s'. map_of (sessions m') j = Some s' \<and> carried s s'" for j
      using step [of j]
      by (cases "map_of (filter (\<lambda>ks. handed_over (snd ks)) al) j") (simp_all add: alist.lookup_put)
    have none: "map_of (filter (\<lambda>ks. handed_over (snd ks)) al) k = None"
      using k(4) by (force simp: map_of_eq_None_iff)
    show ?thesis
    proof (intro conjI allI)
      fix j
      show "case map_of (filter (\<lambda>ks. handed_over (snd ks)) (ks # al)) j of
         None \<Rightarrow> map_of (sessions m') j = map_of (sessions m) j
       | Some s \<Rightarrow> \<exists>s'. map_of (sessions m') j = Some s' \<and> carried s s'"
        using IH2 [of j] h s'(2) none ks by (cases "j = k") (auto split: option.splits)
    qed (use IH r1(2) h ks in auto)
  qed
qed simp

lemma map_of_filter_snd:
  assumes "distinct (map fst al)"
  shows "map_of (filter (\<lambda>ks. P (snd ks)) al) k =
    (case map_of al k of None \<Rightarrow> None | Some v \<Rightarrow> if P v then Some v else None)"
  using assms
proof (induction al)
  case (Cons a al)
  then have "map_of al (fst a) = None" by (simp add: map_of_eq_None_iff)
  with Cons show ?case by (cases a) auto
qed simp

lemma carried_resync: "carried s s' \<Longrightarrow> outputFromOffset inflate (st s') s' fromOffset = outputFromOffset inflate (st s) s fromOffset"
  by (simp add: carried_def outputFromOffset_def oldestRetainedSeqLocked_def)

text \<open>C13. A restart that hands over loses nothing of a running session: the successor has exactly the
  sessions whose process runs and whose pty is open, each with its names, size, number, buffered
  output, terminal modes, QUIC clients and transport, and answers every resynchronisation request as
  its predecessor would have. It also answers as the same server instance, on the same shared port.\<close>

theorem handover_roundtrip:
  assumes "WriteHandover w m = HandoverReady b fds ds" "restores w r" "distinct (map fst (sessions m))"
    "\<forall>k s. map_of (sessions m) k = Some s \<longrightarrow>
       ID s = k \<and> transport_of (sharedTransport m) s \<and> mode_inv (termModes s)"
    "sessions m0 = []" "sharedTransport m0 = None" "RestoreHandover r b m0 = (m', n, e)"
  shows "e = None \<and> n = length (filter (\<lambda>ks. handed_over (snd ks)) (sessions m)) \<and>
    serverInstanceID m' = serverInstanceID m \<and> sharedTransport m' = sharedTransport m \<and>
    (case map_of (sessions m) k of
       None \<Rightarrow> map_of (sessions m') k = None
     | Some s \<Rightarrow>
         if handed_over s
         then \<exists>s'. map_of (sessions m') k = Some s' \<and> carried s s' \<and>
           outputFromOffset inflate (st s') s' fromOffset = outputFromOffset inflate (st s) s fromOffset
         else map_of (sessions m') k = None)"
proof -
  from assms(1) obtain sfd fds0 hss where w: "write_sessions w (sessions m) fds0 = (fds, Inr hss)"
      "hy_enc w (state_of m sfd hss) = Inr b"
      "if sharedTransport m = None then sfd = -1 else hy_dupShared w = Inr sfd"
    by (auto simp: WriteHandover_def Let_def split: sum.splits prod.splits option.splits if_splits)
  have dec: "ry_dec r b = Inr (state_of m sfd hss)" using w(2) assms(2) by (simp add: restores_def)
  let ?m2 = "m0\<lparr>serverInstanceID := serverInstanceID m, sharedTransport := sharedTransport m\<rparr>"
  have each: "restore_each r hss ?m2 = (m', n) \<and> e = None"
  proof (cases "sharedTransport m")
    case None
    with w(3) have "\<not> hst_SharedQuicFd (state_of m sfd hss) \<ge> 0" by (simp add: state_of_def)
    moreover have "?m2 = m0\<lparr>serverInstanceID := serverInstanceID m\<rparr>"
      using None assms(6) by (cases m0) simp
    ultimately show ?thesis using assms(7) dec
      by (simp add: RestoreHandover_def state_of_def split: prod.splits)
  next
    case (Some pk)
    with w(3) have "sfd \<ge> 0" using assms(2) by (auto simp: restores_def)
    then show ?thesis using assms(2,7) dec Some
      by (auto simp: RestoreHandover_def state_of_def restores_def adoptSharedTransport_def split: prod.splits)
  qed
  have "\<forall>ks\<in>set (sessions m). ID (snd ks) = fst ks \<and> transport_of (sharedTransport m) (snd ks) \<and>
      mode_inv (termModes (snd ks))"
    using assms(3,4) by (force simp: map_of_is_SomeI)
  note ra = restore_all [OF w(1) assms(2,3) this _ conjunct1 [OF each]]
  have all: "n = length (filter (\<lambda>ks. handed_over (snd ks)) (sessions m)) \<and>
      sharedTransport m' = sharedTransport m \<and> serverInstanceID m' = serverInstanceID m"
    using ra by simp
  have "case map_of (filter (\<lambda>ks. handed_over (snd ks)) (sessions m)) k of
       None \<Rightarrow> map_of (sessions m') k = map_of (sessions ?m2) k
     | Some s \<Rightarrow> \<exists>s'. map_of (sessions m') k = Some s' \<and> carried s s'"
    using ra by simp
  then have all2: "case map_of (filter (\<lambda>ks. handed_over (snd ks)) (sessions m)) k of
       None \<Rightarrow> map_of (sessions m') k = None
     | Some s \<Rightarrow> \<exists>s'. map_of (sessions m') k = Some s' \<and> carried s s'"
    using assms(5) by (cases "map_of (filter (\<lambda>ks. handed_over (snd ks)) (sessions m)) k") simp_all
  with all each map_of_filter_snd [OF assms(3), of handed_over k] show ?thesis by (auto intro: carried_resync split: option.splits if_splits)
qed

text \<open>A manager with one running session and one that still waits for its client.\<close>

definition running_session :: Session where
  "running_session = (idle_session ''s1'')\<lparr>ptyMaster := True, proc := True, sq := 1,
     outputChunks := [\<lparr>Seq = 1, Data = [104], Timestamp = 5\<rparr>], outputBufferBytes := 1\<rparr>"

definition two_sessions :: Manager where
  "two_sessions = (NewManager (Some [1, 2, 3, 4, 5, 6, 7, 8]) 0)
     \<lparr>sessions := [(''s1'', running_session), (''s2'', idle_session ''s2'')]\<rparr>"

definition writing :: "handoverState \<Rightarrow> handover_sys" where
  "writing h = \<lparr>hy_dupPty = (\<lambda>k. Inr 7), hy_dupUDP = (\<lambda>k. Inl EOF), hy_dupShared = Inl EOF, hy_pid = (\<lambda>k. 42),
     hy_args = (\<lambda>k. []), hy_enc = (\<lambda>x. if x = h then Inr [1] else Inl EOF)\<rparr>"

definition restoring :: "handoverState \<Rightarrow> restore_sys" where
  "restoring h = \<lparr>ry_dec = (\<lambda>b. Inr h), ry_find = (\<lambda>k. None), ry_agent = (\<lambda>k. Inl EOF), ry_conn = (\<lambda>k. None),
     ry_server = (\<lambda>k. None), ry_start = (\<lambda>k. None)\<rparr>"

lemma handover_roundtrip_witness:
  "\<exists>h m' n s'. WriteHandover (writing h) two_sessions = HandoverReady [1] [7] [] \<and>
     RestoreHandover (restoring h) [1] (NewManager None 3) = (m', n, None) \<and> n = 1 \<and>
     serverInstanceID m' = [1, 2, 3, 4, 5, 6, 7, 8] \<and>
     map_of (sessions m') ''s1'' = Some s' \<and> sq s' = 1 \<and> map_of (sessions m') ''s2'' = None"
proof -
  let ?h = "state_of two_sessions (-1) [session_to_handover (writing undefined) 7 running_session]"
  let ?hs = "session_to_handover (writing undefined) 7 running_session"
  have hs: "session_to_handover (writing x) 7 running_session = ?hs" for x
    by (simp add: session_to_handover_def writing_def)
  have handed: "handed_over running_session" "\<not> handed_over (idle_session ''s2'')" "\<not> st running_session"
    by (simp_all add: handed_over_def running_session_def idle_session_def session0_def)
  have w: "WriteHandover (writing ?h) two_sessions = HandoverReady [1] [7] []"
  proof -
    have "write_sessions (writing ?h) (sessions two_sessions) [] = ([7], Inr [?hs])"
      using handed hs by (simp add: two_sessions_def write_session_def writing_def)
    then show ?thesis using handed
      by (simp add: WriteHandover_def disconnected_def writing_def)
        (simp add: two_sessions_def NewManager_def idle_session_def session0_def)
  qed
  have r: "restores (writing ?h) (restoring ?h)"
    by (auto simp: restores_def writing_def restoring_def split: if_splits)
  have m: "distinct (map fst (sessions two_sessions))"
    "\<forall>k s. map_of (sessions two_sessions) k = Some s \<longrightarrow>
       ID s = k \<and> transport_of (sharedTransport two_sessions) s \<and> mode_inv (termModes s)"
    using zero_tracker_inv
    by (auto simp: two_sessions_def NewManager_def transport_of_def running_session_def idle_session_def
        session0_def split: if_splits)
  have z: "sessions (NewManager None 3) = []" "sharedTransport (NewManager None 3) = None"
    by (simp_all add: NewManager_def)
  obtain m' n e where res: "RestoreHandover (restoring ?h) [1] (NewManager None 3) = (m', n, e)"
    by (metis prod_cases3)
  note rt = handover_roundtrip [OF w r m z res]
  from rt [of "''s1''" "\<lambda>b. (b, EOF)" 0] handed
  obtain s' where "map_of (sessions m') ''s1'' = Some s'" "carried running_session s'" "e = None" "n = 1"
      "serverInstanceID m' = serverInstanceID two_sessions"
    by (auto simp: two_sessions_def)
  moreover from rt [of "''s2''" "\<lambda>b. (b, EOF)" 0] handed have "map_of (sessions m') ''s2'' = None"
    by (simp add: two_sessions_def)
  ultimately show ?thesis using w res
    by (fastforce simp: carried_def running_session_def two_sessions_def NewManager_def)
qed

end
