(* ===== verification/Proto.thy ===== *)
theory Proto
  imports Session Remote_Forward
begin

text \<open>
  The messages on the Unix socket (internal/proto/messages.go): their types, decoding by the type
  field, error codes and the form of session names. msgpack is a parameter: the type field of a
  frame, and the message of a given type in it.
\<close>

section \<open>Messages\<close>

(* internal/proto/messages.go:26-44 CreateSessionMsg *)
record CreateSessionMsg =
  cs_Name :: string
  cs_Cmd :: string
  cs_Args :: "string list"
  cs_Env :: "(string \<times> string) list"
  cs_Cwd :: string
  cs_Cols :: int
  cs_Rows :: int
  cs_AgentForward :: bool
  cs_LoginShell :: bool

(* internal/proto/messages.go:46-53 AttachSessionMsg *)
record AttachSessionMsg =
  as_SessionID :: string
  as_FromSeq :: nat
  as_Cols :: int
  as_Rows :: int
  as_ClientID :: client_id

(* internal/proto/messages.go:118-152 SessionCreatedMsg *)
record SessionCreatedMsg =
  sc_SessionID :: string
  sc_Name :: string
  sc_UDPEnabled :: bool
  sc_UDPPort :: int
  sc_UDPKey :: bytes
  sc_PTYClosed :: bool
  sc_InitialOutput :: bytes
  sc_TermModes :: bytes
  sc_STUNAddrs :: "string list"
  sc_LocalAddrs :: "string list"
  sc_STUNServer :: string

(* internal/proto/messages.go:182-206 ClientInfo *)
record proto_ClientInfo =
  pc_ID :: string
  pc_Protocol :: string
  pc_RemoteAddr :: string
  pc_QUICRemoteAddr :: string
  pc_UDPClientID :: client_id
  pc_SendBufferBytes :: int
  pc_LastSeen :: int
  pc_SlowOutputWrites :: nat
  pc_MaxOutputWriteMs :: nat
  pc_OutputStallEpisodes :: nat
  pc_OutputStallMs :: nat
  pc_ForwardsActive :: int
  pc_ForwardsOpened :: nat
  pc_ForwardBytesToTarget :: nat
  pc_ForwardBytesFromTarget :: nat

(* internal/proto/messages.go:208-236 SessionInfo *)
record SessionInfo =
  si_SessionID :: string
  si_Name :: string
  si_Cmd :: string
  si_Rows :: int
  si_Cols :: int
  si_CreatedAt :: int
  si_ClientCount :: nat
  si_Clients :: "proto_ClientInfo list"
  si_UDPEnabled :: bool
  si_UDPPort :: int
  si_PTYClosed :: bool
  si_LastDetachedAt :: int
  si_LastOutputAt :: int
  si_LastInputAt :: int
  si_OutputChunks :: nat
  si_OutputBufferBytes :: int
  si_OldestChunkTime :: int
  si_OutputColdSegments :: nat
  si_OutputColdBytes :: int
  si_OutputColdRawBytes :: int

(* internal/proto/messages.go:272-282 ServerMetaMsg *)
record ServerMetaMsg =
  sm_ServerBuildID :: string
  sm_ServerBuildTime :: string
  sm_ServerInstanceID :: bytes
  sm_ServerVersion :: string

text \<open>Every message, requests first, then answers and notices.\<close>

(* internal/proto/messages.go:16-117 HelloMsg *)
datatype proto_msg =
    Hello string int int
  | CreateSessionM CreateSessionMsg
  | AttachSessionM AttachSessionMsg
  | InputM string bytes
  | ResizeM string int int
  | PingM nat
  | ListSessionsM
  | GetSessionInfoM string
  | KillSessionM string
  | WaitSessionM string
  | UDPClientInfoM string client_id
  | GetServerMetaM string
  | WelcomeM string string
  | SessionCreatedM SessionCreatedMsg
  | ErrorM string string
  | PongM nat
  | OutputM string nat bytes
  | NoteM string string "int option"
  | SessionsListM "SessionInfo list" "RemoteForwardInfo list"
  | SessionInfoM SessionInfo
  | SessionKilledM string
  | ServerMetaM ServerMetaMsg

(* internal/proto/messages.go:9-14 BaseMsg *)
fun msg_type :: "proto_msg \<Rightarrow> string" where
  "msg_type (Hello _ _ _) = ''HELLO''"
| "msg_type (CreateSessionM _) = ''CREATE_SESSION''"
| "msg_type (AttachSessionM _) = ''ATTACH_SESSION''"
| "msg_type (InputM _ _) = ''INPUT''"
| "msg_type (ResizeM _ _ _) = ''RESIZE''"
| "msg_type (PingM _) = ''PING''"
| "msg_type ListSessionsM = ''LIST_SESSIONS''"
| "msg_type (GetSessionInfoM _) = ''GET_SESSION_INFO''"
| "msg_type (KillSessionM _) = ''KILL_SESSION''"
| "msg_type (WaitSessionM _) = ''WAIT_SESSION''"
| "msg_type (UDPClientInfoM _ _) = ''UDP_CLIENT_INFO''"
| "msg_type (GetServerMetaM _) = ''GET_SERVER_META''"
| "msg_type (WelcomeM _ _) = ''WELCOME''"
| "msg_type (SessionCreatedM _) = ''SESSION_CREATED''"
| "msg_type (ErrorM _ _) = ''ERROR''"
| "msg_type (PongM _) = ''PONG''"
| "msg_type (OutputM _ _ _) = ''OUTPUT''"
| "msg_type (NoteM _ _ _) = ''NOTE''"
| "msg_type (SessionsListM _ _) = ''SESSIONS_LIST''"
| "msg_type (SessionInfoM _) = ''SESSION_INFO''"
| "msg_type (SessionKilledM _) = ''SESSION_KILLED''"
| "msg_type (ServerMetaM _) = ''SERVER_META''"

section \<open>Decoding\<close>

definition known_types :: "string list" where
  "known_types =
     [''HELLO'', ''CREATE_SESSION'', ''ATTACH_SESSION'', ''INPUT'', ''RESIZE'', ''PING'', ''LIST_SESSIONS'',
      ''GET_SESSION_INFO'', ''KILL_SESSION'', ''WAIT_SESSION'', ''UDP_CLIENT_INFO'', ''GET_SERVER_META'',
      ''WELCOME'', ''SESSION_CREATED'', ''ERROR'', ''PONG'', ''NOTE'', ''SESSIONS_LIST'', ''SESSION_INFO'',
      ''SESSION_KILLED'', ''SERVER_META'', ''OUTPUT'']"

text \<open>base reads the type field of a frame, body the fields of a message of that type.\<close>

(* internal/proto/messages.go:289-434 Decode *)
definition Decode ::
  "(bytes \<Rightarrow> err + string) \<Rightarrow> (string \<Rightarrow> bytes \<Rightarrow> err + proto_msg) \<Rightarrow> bytes \<Rightarrow> err + proto_msg" where
  "Decode base body data =
     (case base data of
        Inl e \<Rightarrow> Inl e
      | Inr t \<Rightarrow>
          if t \<in> set known_types then body t data
          else Inl (ErrorString (''unknown message type: '' @ t)))"

text \<open>What msgpack promises of a message it has encoded.\<close>

definition msgpack_laws ::
  "(proto_msg \<Rightarrow> err + bytes) \<Rightarrow> (bytes \<Rightarrow> err + string) \<Rightarrow> (string \<Rightarrow> bytes \<Rightarrow> err + proto_msg) \<Rightarrow> bool" where
  "msgpack_laws marshal base body \<longleftrightarrow>
     (\<forall>m b. marshal m = Inr b \<longrightarrow> base b = Inr (msg_type m) \<and> body (msg_type m) b = Inr m)"

lemma msg_type_known: "msg_type m \<in> set known_types"
  by (cases m) (simp_all add: known_types_def)

lemma Decode_marshal: "msgpack_laws marshal base body \<Longrightarrow> marshal m = Inr b \<Longrightarrow> Decode base body b = Inr m"
  by (simp add: msgpack_laws_def Decode_def msg_type_known)

section \<open>Session names\<close>

definition name_char :: "char \<Rightarrow> bool" where
  "name_char c \<longleftrightarrow>
     c \<in> set ''abcdefghijklmnopqrstuvwxyz'' \<or> c \<in> set ''ABCDEFGHIJKLMNOPQRSTUVWXYZ'' \<or>
     c \<in> set ''0123456789'' \<or> c = CHR ''.'' \<or> c = CHR ''_'' \<or> c = CHR ''-''"

(* internal/proto/messages.go:447-468 ValidateSessionName *)
definition ValidateSessionName :: "string \<Rightarrow> err option" where
  "ValidateSessionName name =
     (if name = '''' then Some (ErrorString ''session name cannot be empty'')
      else if length name > 63 then Some (ErrorString ''session name too long (max 63 chars)'')
      else if \<not> list_all name_char name then Some (ErrorString ''invalid session name'')
      else None)"

section \<open>Error codes\<close>

(* internal/proto/messages.go:436-445 ErrBadRequest *)
definition proto_errors :: "string list" where
  "proto_errors = [''BAD_REQUEST'', ''NO_SUCH_SESSION'', ''INTERNAL'', ''BUSY'', ''UNAUTHORIZED'',
     ''DUPLICATE_NAME'', ''TOO_MANY_SESSIONS'']"

end
