(* ===== verification/Session_Env.thy ===== *)
theory Session_Env
  imports Go_Strings
begin

text \<open>
  The command of a session (internal/session/session.go): which shell runs when the client names
  none, and the environment NewSession gives the process. The lines of /etc/passwd (None when
  it cannot be opened), the environment of the daemon and the current user are parameters; the
  client's env map is a list of pairs with distinct keys, in the order Go happens to visit it.
\<close>

section \<open>Login shell\<close>

(* internal/session/session.go:189-200 lookupLoginShell *)
fun lookup_lines :: "string \<Rightarrow> string list \<Rightarrow> string" where
  "lookup_lines username [] = ''''"
| "lookup_lines username (line # rest) =
     (if HasPrefix line ''#'' then lookup_lines username rest
      else let fields = Split (CHR '':'') line in
           if length fields \<ge> 7 \<and> fields ! 0 = username then fields ! 6
           else lookup_lines username rest)"

(* internal/session/session.go:181-201 lookupLoginShell *)
definition lookupLoginShell :: "string list option \<Rightarrow> string \<Rightarrow> string" where
  "lookupLoginShell passwd username =
     (case passwd of None \<Rightarrow> '''' | Some ls \<Rightarrow> lookup_lines username ls)"

(* internal/session/session.go:203-217 LoginShell *)
definition LoginShell :: "string list option \<Rightarrow> string option \<Rightarrow> string \<Rightarrow> string" where
  "LoginShell passwd user shellenv =
     (let shell = (case user of None \<Rightarrow> '''' | Some u \<Rightarrow> lookupLoginShell passwd u) in
      if shell \<noteq> '''' then shell
      else if shellenv \<noteq> '''' then shellenv
      else ''/bin/sh'')"

text \<open>filepath.Base.\<close>

definition path_Base :: "string \<Rightarrow> string" where
  "path_Base p =
     (if p = '''' then ''.''
      else let q = rev (dropWhile (\<lambda>c. c = CHR ''/'') (rev p)) in
           if q = '''' then ''/''
           else rev (takeWhile (\<lambda>c. c \<noteq> CHR ''/'') (rev q)))"

text \<open>The parts of exec.Cmd the session sets.\<close>

record exec_Cmd =
  cmd_Path :: string
  cmd_Args :: "string list"
  cmd_Dir :: string
  cmd_Env :: "string list"

(* internal/session/session.go:219-230 Session.UseLoginShell *)
definition UseLoginShell :: "string option \<Rightarrow> exec_Cmd \<Rightarrow> exec_Cmd" where
  "UseLoginShell home c =
     (let c1 = c\<lparr>cmd_Args := (cmd_Args c)[0 := ''-'' @ path_Base (cmd_Path c)]\<rparr> in
      if cmd_Dir c1 = '''' then (case home of None \<Rightarrow> c1 | Some h \<Rightarrow> c1\<lparr>cmd_Dir := h\<rparr>)
      else c1)"

lemma lookup_lines_first:
  assumes "length (Split (CHR '':'') l) \<ge> 7" "Split (CHR '':'') l ! 0 = u" "\<not> HasPrefix l ''#''"
    and "\<forall>k\<in>set pre. HasPrefix k ''#'' \<or> Split (CHR '':'') k ! 0 \<noteq> u"
  shows "lookup_lines u (pre @ l # post) = Split (CHR '':'') l ! 6"
  using assms(4)
proof (induction pre)
  case Nil
  then show ?case using assms by (simp add: Let_def)
next
  case (Cons k pre)
  then show ?case by (auto simp: Let_def)
qed

section \<open>Environment\<close>

(* internal/session/session.go:232-240 systemdEnvKeys *)
definition systemdEnvKeys :: "string list" where
  "systemdEnvKeys =
     [''INVOCATION_ID'', ''JOURNAL_STREAM'', ''SYSTEMD_EXEC_PID'', ''MEMORY_PRESSURE_WATCH'',
      ''MEMORY_PRESSURE_WRITE'', ''MANAGERPID'']"

text \<open>The loop that looks for the equals sign of an entry; None when there is none.\<close>

definition entry_key :: "string \<Rightarrow> string option" where
  "entry_key e =
     (if CHR ''='' \<in> set e then Some (takeWhile (\<lambda>c. c \<noteq> CHR ''='') e) else None)"

definition entry :: "string \<Rightarrow> string \<Rightarrow> string" where
  "entry k v = k @ ''='' @ v"

(* internal/session/session.go:257-280 NewSession *)
definition inherited_env :: "string list \<Rightarrow> (string \<times> string) list \<Rightarrow> string list" where
  "inherited_env environ env =
     filter (\<lambda>e. case entry_key e of
                    None \<Rightarrow> False
                  | Some key \<Rightarrow> key \<notin> set (map fst env) \<and> key \<notin> set systemdEnvKeys)
       environ"

(* internal/session/session.go:285-292 NewSession *)
definition shell_entry :: "(string \<times> string) list \<Rightarrow> string list option \<Rightarrow> string option \<Rightarrow> string list" where
  "shell_entry env passwd user =
     (if ''SHELL'' \<notin> set (map fst env)
      then (case user of
              None \<Rightarrow> []
            | Some u \<Rightarrow> let shell = lookupLoginShell passwd u in
                       if shell \<noteq> '''' then [entry ''SHELL'' shell] else [])
      else [])"

text \<open>The whole environment; agent is the path of the socket when agent forwarding is on and
  the socket could be bound.\<close>

(* internal/session/session.go:281-312 NewSession *)
definition session_env ::
  "string list \<Rightarrow> (string \<times> string) list \<Rightarrow> string list option \<Rightarrow> string option \<Rightarrow> string \<Rightarrow>
   string option \<Rightarrow> string list" where
  "session_env environ env passwd user sid agent =
     inherited_env environ env
     @ map (\<lambda>(k, v). entry k v) env
     @ shell_entry env passwd user
     @ [entry ''TEZZER_SESSION'' sid]
     @ (case agent of None \<Rightarrow> [] | Some path \<Rightarrow> [entry ''SSH_AUTH_SOCK'' path])"

text \<open>What the process sees: os/exec keeps the last of several entries with one key.\<close>

fun env_lookup :: "string \<Rightarrow> string list \<Rightarrow> string option" where
  "env_lookup k [] = None"
| "env_lookup k (e # es) =
     (case env_lookup k es of
        Some v \<Rightarrow> Some v
      | None \<Rightarrow> if entry_key e = Some k then Some (drop (length k + 1) e) else None)"

lemma entry_key_entry [simp]: "CHR ''='' \<notin> set k \<Longrightarrow> entry_key (entry k v) = Some k"
  by (auto simp: entry_key_def entry_def takeWhile_append)

lemma drop_entry [simp]: "drop (Suc (length k)) (entry k v) = v"
  by (simp add: entry_def)

lemma env_lookup_entry:
  "CHR ''='' \<notin> set a \<Longrightarrow> env_lookup k [entry a v] = (if k = a then Some v else None)"
  by simp

lemma env_lookup_single:
  "env_lookup k [entry ''SSH_AUTH_SOCK'' v] = (if k = ''SSH_AUTH_SOCK'' then Some v else None)"
  "env_lookup k [entry ''TEZZER_SESSION'' v] = (if k = ''TEZZER_SESSION'' then Some v else None)"
  "env_lookup k [entry ''SHELL'' v] = (if k = ''SHELL'' then Some v else None)"
  "env_lookup k [] = None"
  by ((rule env_lookup_entry, simp)+) (rule env_lookup.simps)

lemma env_lookup_shell:
  "env_lookup k (shell_entry env passwd user) =
     (if k = ''SHELL'' \<and> k \<notin> set (map fst env) \<and>
         (\<exists>u. user = Some u \<and> lookupLoginShell passwd u \<noteq> '''')
      then Some (lookupLoginShell passwd (the user)) else None)"
proof (cases user)
  case None
  then show ?thesis by (simp add: shell_entry_def)
next
  case (Some u)
  then show ?thesis
    by (cases "k = ''SHELL''"; cases "''SHELL'' \<in> set (map fst env)"; cases "lookupLoginShell passwd u = ''''")
       (simp_all only: shell_entry_def Let_def option.case env_lookup_single simp_thms if_True if_False
          option.sel option.inject ex_simps)
qed

lemma env_lookup_append:
  "env_lookup k (xs @ ys) = (case env_lookup k ys of Some v \<Rightarrow> Some v | None \<Rightarrow> env_lookup k xs)"
  by (induction xs) (auto split: option.splits)

lemma env_lookup_map:
  assumes "distinct (map fst env)" "\<forall>k\<in>set (map fst env). CHR ''='' \<notin> set k"
  shows "env_lookup k (map (\<lambda>(k, v). entry k v) env) = map_of env k"
  using assms
proof (induction env)
  case (Cons p env)
  obtain a b where p: "p = (a, b)" by force
  have "map_of env a = None" using Cons.prems p by (simp add: map_of_eq_None_iff)
  then show ?case using Cons p by (auto split: option.splits)
qed simp

lemma env_lookup_inherited:
  "env_lookup k (inherited_env environ env) =
     (if k \<in> set (map fst env) \<or> k \<in> set systemdEnvKeys then None else env_lookup k environ)"
  by (induction environ) (auto simp: inherited_env_def split: option.splits)

text \<open>The value of every variable in the environment of a session's process: the agent socket
  and the session identifier always win, then the login shell unless the client set SHELL, then the
  client's variables, then those of the daemon except the ones systemd put there.\<close>

theorem session_environment:
  assumes "distinct (map fst env)" "\<forall>k\<in>set (map fst env). CHR ''='' \<notin> set k"
  shows "env_lookup k (session_env environ env passwd user sid agent) =
    (if k = ''SSH_AUTH_SOCK'' \<and> agent \<noteq> None then agent
     else if k = ''TEZZER_SESSION'' then Some sid
     else if k = ''SHELL'' \<and> k \<notin> set (map fst env) \<and>
             (\<exists>u. user = Some u \<and> lookupLoginShell passwd u \<noteq> '''')
       then Some (lookupLoginShell passwd (the user))
     else case map_of env k of
            Some v \<Rightarrow> Some v
          | None \<Rightarrow> if k \<in> set systemdEnvKeys then None else env_lookup k environ)"
proof -
  have neq: "''SSH_AUTH_SOCK'' \<noteq> ''TEZZER_SESSION''" "''SSH_AUTH_SOCK'' \<noteq> ''SHELL''"
      "''TEZZER_SESSION'' \<noteq> ''SHELL''"
    by simp_all
  have agent: "env_lookup k (case agent of None \<Rightarrow> [] | Some p \<Rightarrow> [entry ''SSH_AUTH_SOCK'' p]) =
      (if k = ''SSH_AUTH_SOCK'' then agent else None)"
    by (cases agent) (simp_all only: option.case env_lookup_single if_cancel)
  have keys: "map_of env k = None \<longleftrightarrow> k \<notin> set (map fst env)"
    by (simp only: map_of_eq_None_iff set_map)
  show ?thesis
    unfolding session_env_def env_lookup_append agent env_lookup_shell env_lookup_single
      env_lookup_map [OF assms] env_lookup_inherited
    using neq keys
    by (cases "k = ''SSH_AUTH_SOCK''"; cases "k = ''TEZZER_SESSION''"; cases "k = ''SHELL''"; cases agent;
        cases "map_of env k"; cases "\<exists>u. user = Some u \<and> lookupLoginShell passwd u \<noteq> ''''"; simp only: option.case simp_thms if_True if_False option.inject option.distinct not_False_eq_True)
qed

lemma session_environment_witness:
  "env_lookup ''SSH_AUTH_SOCK''
     (session_env [''SSH_AUTH_SOCK=/old'', ''MANAGERPID=1''] [(''SSH_AUTH_SOCK'', ''/mine''), (''LANG'', ''C'')]
        None None ''s1'' (Some ''/tmp/a'')) = Some ''/tmp/a''
   \<and> env_lookup ''MANAGERPID''
     (session_env [''SSH_AUTH_SOCK=/old'', ''MANAGERPID=1''] [(''SSH_AUTH_SOCK'', ''/mine''), (''LANG'', ''C'')]
        None None ''s1'' (Some ''/tmp/a'')) = None"
  using session_environment [of "[(''SSH_AUTH_SOCK'', ''/mine''), (''LANG'', ''C'')]" "''SSH_AUTH_SOCK''"
      "[''SSH_AUTH_SOCK=/old'', ''MANAGERPID=1'']" None None "''s1''" "Some ''/tmp/a''"]
    session_environment [of "[(''SSH_AUTH_SOCK'', ''/mine''), (''LANG'', ''C'')]" "''MANAGERPID''"
      "[''SSH_AUTH_SOCK=/old'', ''MANAGERPID=1'']" None None "''s1''" "Some ''/tmp/a''"]
  by (simp add: systemdEnvKeys_def)

end
