(* ===== verification/Stun.thy ===== *)
theory Stun
  imports Prelude
begin

unbundle bit_operations_syntax

text \<open>
  The STUN client (internal/stun/stun.go): building a binding request, parsing a binding response
  with its XOR-MAPPED-ADDRESS, the query loops and the NAT diagnosis. Sockets, the random source
  and the resolver are parameters: the results of the calls the code makes.
\<close>

section \<open>Constants and addresses\<close>

(* internal/stun/stun.go:16-16 BindingRequest *)
definition BindingRequest :: nat where
  "BindingRequest = 1"

(* internal/stun/stun.go:17-17 BindingResponse *)
definition BindingResponse :: nat where
  "BindingResponse = 257"

(* internal/stun/stun.go:22-22 AttrXorMappedAddress *)
definition AttrXorMappedAddress :: nat where
  "AttrXorMappedAddress = 32"

(* internal/stun/stun.go:24-25 MagicCookie *)
definition MagicCookie :: nat where
  "MagicCookie = 554869826"

(* internal/stun/stun.go:27-28 HeaderSize *)
definition HeaderSize :: nat where
  "HeaderSize = 20"

(* internal/stun/stun.go:31-35 ErrInvalidResponse *)
definition ErrInvalidResponse :: err where
  "ErrInvalidResponse = ErrorString ''invalid STUN response''"

(* internal/stun/stun.go:33-33 ErrTimeout *)
definition ErrTimeout :: err where
  "ErrTimeout = ErrorString ''STUN request timeout''"

(* internal/stun/stun.go:34-34 ErrNoXorMapped *)
definition ErrNoXorMapped :: err where
  "ErrNoXorMapped = ErrorString ''no XOR-MAPPED-ADDRESS in response''"

text \<open>net.IP is its bytes; net.IPv4 gives the 16-byte form.\<close>

record UDPAddr =
  ua_ip :: bytes
  ua_port :: nat

definition v4prefix :: bytes where
  "v4prefix = replicate 10 0 @ [255, 255]"

definition net_IPv4 :: "bytes \<Rightarrow> bytes" where
  "net_IPv4 b = v4prefix @ b"

text \<open>IP.Equal: an IPv4 address and its 16-byte form are the same address.\<close>

definition ip_Equal :: "bytes \<Rightarrow> bytes \<Rightarrow> bool" where
  "ip_Equal a b =
     (if length a = length b then a = b
      else if length a = 4 \<and> length b = 16 then take 12 b = v4prefix \<and> a = drop 12 b
      else if length a = 16 \<and> length b = 4 then take 12 a = v4prefix \<and> drop 12 a = b
      else False)"

section \<open>Messages\<close>

text \<open>copy(msg[8:20], txID) copies at most 12 bytes into a zeroed buffer.\<close>

(* internal/stun/stun.go:196-213 makeBindingRequest *)
definition makeBindingRequest :: "bytes \<Rightarrow> bytes" where
  "makeBindingRequest txID =
     be_bytes 2 BindingRequest @ be_bytes 2 0 @ be_bytes 4 MagicCookie @
     (let t = take 12 txID in t @ replicate (12 - length t) 0)"

(* internal/stun/stun.go:284-346 parseXorMappedAddress *)
definition parseXorMappedAddress :: "bytes \<Rightarrow> bytes \<Rightarrow> err + UDPAddr" where
  "parseXorMappedAddress d txID =
     (if length d < 8 then Inl (ErrorString ''XOR-MAPPED-ADDRESS too short'')
      else
        let family = d ! 1;
            xport = (word_of_nat (be_val (slice 2 4 d)) :: 16 word);
            prt = unat (xport XOR word_of_nat (MagicCookie div 2 ^ 16)) in
        if family = 1 then
          (if length d < 8 then Inl (ErrorString ''XOR-MAPPED-ADDRESS IPv4 too short'')
           else
             let xaddr = (word_of_nat (be_val (slice 4 8 d)) :: 32 word);
                 addr = xaddr XOR word_of_nat MagicCookie in
             Inr \<lparr>ua_ip = net_IPv4 (be_bytes 4 (unat addr)), ua_port = prt\<rparr>)
        else if family = 2 then
          (if length d < 20 then Inl (ErrorString ''XOR-MAPPED-ADDRESS IPv6 too short'')
           else
             let xaddr = slice 4 20 d;
                 cookieBytes = be_bytes 4 MagicCookie in
             Inr \<lparr>ua_ip = map2 (XOR) (take 4 xaddr) cookieBytes @ map2 (XOR) (drop 4 xaddr) (take 12 txID),
                  ua_port = prt\<rparr>)
        else Inl (ErrorString (''unsupported address family: 0x'' @ show_hex_pad 2 (unat family))))"

text \<open>The attribute loop from an offset; stop is the end the header announces.\<close>

(* internal/stun/stun.go:248-281 parseBindingResponse *)
function parse_attrs :: "bytes \<Rightarrow> bytes \<Rightarrow> nat \<Rightarrow> nat \<Rightarrow> err + UDPAddr" where
  "parse_attrs d txID stop off =
     (if off < stop then
        (if off + 4 > length d then Inl ErrNoXorMapped
         else
           let attrType = be_val (slice off (off + 2) d);
               attrLen = be_val (slice (off + 2) (off + 4) d);
               off1 = off + 4 in
           if off1 + attrLen > length d then Inl ErrNoXorMapped
           else if attrType = AttrXorMappedAddress
           then parseXorMappedAddress (slice off1 (off1 + attrLen) d) txID
           else parse_attrs d txID stop
                  (off1 + attrLen + (if attrLen mod 4 \<noteq> 0 then 4 - attrLen mod 4 else 0)))
      else Inl ErrNoXorMapped)"
  by pat_completeness auto
termination
  by (relation "measure (\<lambda>(d, txID, stop, off). stop - off)") auto

declare parse_attrs.simps [simp del]

text \<open>The transaction ID loop compares 12 bytes; expectedTxID always has 12.\<close>

(* internal/stun/stun.go:215-282 parseBindingResponse *)
definition parseBindingResponse :: "bytes \<Rightarrow> bytes \<Rightarrow> err + UDPAddr" where
  "parseBindingResponse d expectedTxID =
     (if length d < HeaderSize then Inl ErrInvalidResponse
      else
        let msgType = be_val (slice 0 2 d) in
        if msgType \<noteq> BindingResponse
        then Inl (ErrorString (''unexpected message type: 0x'' @ show_hex_pad 4 msgType))
        else
          let msgLen = be_val (slice 2 4 d) in
          if length d < HeaderSize + msgLen then Inl ErrInvalidResponse
          else
            let cookie = be_val (slice 4 8 d) in
            if cookie \<noteq> MagicCookie
            then Inl (ErrorString (''invalid magic cookie: 0x'' @ show_hex_pad 8 cookie))
            else
              let txID = slice 8 20 d in
              if list_ex (\<lambda>i. txID ! i \<noteq> expectedTxID ! i) [0..<12]
              then Inl (ErrorString ''transaction ID mismatch'')
              else parse_attrs d txID (HeaderSize + msgLen) HeaderSize)"

section \<open>Queries\<close>

text \<open>What a read gives: a packet, a timeout, or another error. A deadline is set before the reads,
  so a sequence of them that delivers nothing more ends with a timeout.\<close>

datatype read_result = Packet bytes | ReadTimeout | ReadError err

(* internal/stun/stun.go:179-194 queryMappedFrom *)
fun query_reads :: "bytes \<Rightarrow> read_result list \<Rightarrow> err + UDPAddr" where
  "query_reads txID [] = Inl ErrTimeout"
| "query_reads txID (ReadTimeout # rs) = Inl ErrTimeout"
| "query_reads txID (ReadError e # rs) = Inl (Wrapped ''failed to read STUN response: '' e)"
| "query_reads txID (Packet p # rs) =
     (case parseBindingResponse (take 1500 p) txID of
        Inl e \<Rightarrow> query_reads txID rs
      | Inr addr \<Rightarrow> Inr addr)"

text \<open>The calls of one query: the results of resolving, of the random source and of the socket.\<close>

record stun_io =
  io_dial :: "err option"
  io_rand :: "err + bytes"
  io_setWriteDeadline :: "err option"
  io_write :: "err option"
  io_setReadDeadline :: "err option"
  io_reads :: "read_result list"

(* internal/stun/stun.go:155-194 queryMappedFrom *)
definition queryMappedFrom :: "stun_io \<Rightarrow> err + UDPAddr" where
  "queryMappedFrom io =
     (case io_dial io of Some e \<Rightarrow> Inl (Wrapped ''failed to resolve STUN server: '' e)
      | None \<Rightarrow>
     (case io_rand io of Inl e \<Rightarrow> Inl (Wrapped ''failed to generate transaction ID: '' e)
      | Inr txID \<Rightarrow>
     (case io_setWriteDeadline io of Some e \<Rightarrow> Inl e
      | None \<Rightarrow>
     (case io_write io of Some e \<Rightarrow> Inl (Wrapped ''failed to send STUN request: '' e)
      | None \<Rightarrow>
     (case io_setReadDeadline io of Some e \<Rightarrow> Inl e
      | None \<Rightarrow> query_reads txID (io_reads io))))))"

(* internal/stun/stun.go:37-51 Client *)
record stun_Client =
  ServerAddr :: string
  Timeout :: int
  IPv4Only :: bool
  Network :: string

(* internal/stun/stun.go:45-51 NewClient *)
definition stun_NewClient :: "string \<Rightarrow> stun_Client" where
  "stun_NewClient serverAddr = \<lparr>ServerAddr = serverAddr, Timeout = 5 * 1000000000, IPv4Only = False, Network = []\<rparr>"

(* internal/stun/stun.go:56-62 GetMappedAddr *)
definition stun_network :: "stun_Client \<Rightarrow> string" where
  "stun_network c =
     (if Network c \<noteq> [] then Network c else if IPv4Only c then ''udp4'' else ''udp'')"

text \<open>io gives the results of the calls for the network and server dialled. One packet is read.\<close>

(* internal/stun/stun.go:53-100 GetMappedAddr *)
definition GetMappedAddr :: "(string \<Rightarrow> string \<Rightarrow> stun_io) \<Rightarrow> stun_Client \<Rightarrow> err + UDPAddr" where
  "GetMappedAddr calls c =
     (let io = calls (stun_network c) (ServerAddr c) in
      case io_dial io of Some e \<Rightarrow> Inl (Wrapped ''failed to connect to STUN server: '' e)
      | None \<Rightarrow>
     (case io_rand io of Inl e \<Rightarrow> Inl (Wrapped ''failed to generate transaction ID: '' e)
      | Inr txID \<Rightarrow>
     (case io_setWriteDeadline io of Some e \<Rightarrow> Inl e
      | None \<Rightarrow>
     (case io_write io of Some e \<Rightarrow> Inl (Wrapped ''failed to send STUN request: '' e)
      | None \<Rightarrow>
     (case io_setReadDeadline io of Some e \<Rightarrow> Inl e
      | None \<Rightarrow>
     (case io_reads io of
        [] \<Rightarrow> Inl ErrTimeout
      | ReadTimeout # rs \<Rightarrow> Inl ErrTimeout
      | ReadError e # rs \<Rightarrow> Inl (Wrapped ''failed to read STUN response: '' e)
      | Packet p # rs \<Rightarrow> parseBindingResponse (take 1500 p) txID))))))"

section \<open>NAT diagnosis\<close>

(* internal/stun/stun.go:102-108 ProbeResult *)
record ProbeResult =
  LocalPort :: nat
  MappedA :: UDPAddr
  MappedB :: UDPAddr

(* internal/stun/stun.go:110-117 EndpointIndependent *)
definition EndpointIndependent :: "ProbeResult \<Rightarrow> bool" where
  "EndpointIndependent r \<longleftrightarrow>
     ip_Equal (ua_ip (MappedA r)) (ua_ip (MappedB r)) \<and> ua_port (MappedA r) = ua_port (MappedB r)"

(* internal/stun/stun.go:119-125 PortPreserving *)
definition PortPreserving :: "ProbeResult \<Rightarrow> bool" where
  "PortPreserving r \<longleftrightarrow> ua_port (MappedA r) = LocalPort r"

text \<open>listen gives the local port of the one socket both queries use.\<close>

(* internal/stun/stun.go:127-153 Probe *)
definition Probe ::
  "(string \<Rightarrow> err + nat) \<Rightarrow> (string \<Rightarrow> string \<Rightarrow> stun_io) \<Rightarrow> string \<Rightarrow> string \<Rightarrow> string \<Rightarrow> err + ProbeResult" where
  "Probe listen calls network serverA serverB =
     (case listen network of
        Inl e \<Rightarrow> Inl (Wrapped ''failed to bind probe socket: '' e)
      | Inr prt \<Rightarrow>
          (case queryMappedFrom (calls network serverA) of
             Inl e \<Rightarrow> Inl (Wrapped (''failed to query '' @ serverA @ '': '') e)
           | Inr a \<Rightarrow>
               (case queryMappedFrom (calls network serverB) of
                  Inl e \<Rightarrow> Inl (Wrapped (''failed to query '' @ serverB @ '': '') e)
                | Inr b \<Rightarrow> Inr \<lparr>LocalPort = prt, MappedA = a, MappedB = b\<rparr>)))"

section \<open>Correctness\<close>

text \<open>The response a server sends: a header and attributes, each padded to four bytes.\<close>

definition attr_bytes :: "nat \<times> bytes \<Rightarrow> bytes" where
  "attr_bytes = (\<lambda>(t, v). be_bytes 2 t @ be_bytes 2 (length v) @ v @
     replicate (if length v mod 4 \<noteq> 0 then 4 - length v mod 4 else 0) 0)"

definition binding_response :: "bytes \<Rightarrow> (nat \<times> bytes) list \<Rightarrow> bytes" where
  "binding_response txID attrs =
     (let body = concat (map attr_bytes attrs) in
      be_bytes 2 BindingResponse @ be_bytes 2 (length body) @ be_bytes 4 MagicCookie @ txID @ body)"

definition xor_mapped :: "UDPAddr \<Rightarrow> bytes \<Rightarrow> bytes" where
  "xor_mapped a txID =
     (let xport = be_bytes 2 (unat (word_of_nat (ua_port a) XOR (word_of_nat (MagicCookie div 2 ^ 16) :: 16 word))) in
      if take 12 (ua_ip a) = v4prefix
      then [0, 1] @ xport @
           be_bytes 4 (unat (word_of_nat (be_val (drop 12 (ua_ip a))) XOR (word_of_nat MagicCookie :: 32 word)))
      else [0, 2] @ xport @
           map2 (XOR) (take 4 (ua_ip a)) (be_bytes 4 MagicCookie) @ map2 (XOR) (drop 4 (ua_ip a)) txID)"

definition addr_ok :: "UDPAddr \<Rightarrow> bool" where
  "addr_ok a \<longleftrightarrow> length (ua_ip a) = 16 \<and> ua_port a < 65536"

lemma map2_xor_cancel:
  "length xs = length ys \<Longrightarrow> map2 (XOR) (map2 (XOR) xs ys) ys = (xs :: bytes)"
  by (induction xs ys rule: list_induct2) (simp_all add: xor.assoc)

lemma word_xor_cancel: "(a XOR b) XOR b = (a :: 'a::len word)"
  by (simp add: xor.assoc)

lemma unat_less_16: "unat (w :: 16 word) < 65536"
  using unsigned_less [of w] by simp

lemma unat_less_32: "unat (w :: 32 word) < 4294967296"
  using unsigned_less [of w] by simp

lemma parse_xor_mapped:
  assumes "addr_ok a" "length txID = 12"
  shows "parseXorMappedAddress (xor_mapped a txID) txID = Inr a"
proof -
  define xp where "xp = (word_of_nat (ua_port a) XOR (word_of_nat (MagicCookie div 2 ^ 16) :: 16 word))"
  have p16: "be_val (be_bytes 2 (unat xp)) = unat xp"
    using unat_less_16 [of xp] by (simp add: be_val_be_bytes)
  have port: "unat (xp XOR word_of_nat (MagicCookie div 65536)) = ua_port a"
    using assms(1) by (simp add: xp_def word_xor_cancel unat_of_nat addr_ok_def)
  show ?thesis
  proof (cases "take 12 (ua_ip a) = v4prefix")
    case True
    define x4 where "x4 = (word_of_nat (be_val (drop 12 (ua_ip a))) XOR (word_of_nat MagicCookie :: 32 word))"
    have l: "length (drop 12 (ua_ip a)) = 4" using assms(1) by (simp add: addr_ok_def)
    have v: "be_val (drop 12 (ua_ip a)) < 4294967296" using be_val_less [of "drop 12 (ua_ip a)"] l by simp
    have a4: "be_val (be_bytes 4 (unat x4)) = unat x4"
      using unat_less_32 [of x4] by (simp add: be_val_be_bytes)
    have "unat (x4 XOR word_of_nat MagicCookie) = be_val (drop 12 (ua_ip a))"
      using v by (simp add: x4_def word_xor_cancel unat_of_nat)
    then have "be_bytes 4 (unat (x4 XOR word_of_nat MagicCookie)) = drop 12 (ua_ip a)"
      using be_bytes_be_val [of "drop 12 (ua_ip a)"] l by simp
    then have ip: "net_IPv4 (be_bytes 4 (unat (x4 XOR word_of_nat MagicCookie))) = ua_ip a"
      using True by (metis append_take_drop_id net_IPv4_def)
    have enc: "xor_mapped a txID = [0, 1] @ be_bytes 2 (unat xp) @ be_bytes 4 (unat x4)"
      using True by (simp add: xor_mapped_def xp_def x4_def Let_def)
    have s: "slice 2 4 (xor_mapped a txID) = be_bytes 2 (unat xp)"
      "slice 4 8 (xor_mapped a txID) = be_bytes 4 (unat x4)" "xor_mapped a txID ! 1 = 1"
      "length (xor_mapped a txID) = 8"
      by (simp_all add: enc slice_def)
    show ?thesis
      unfolding parseXorMappedAddress_def Let_def s p16 a4 by (simp add: port ip)
  next
    case False
    have enc: "xor_mapped a txID = [0, 2] @ be_bytes 2 (unat xp) @
        map2 (XOR) (take 4 (ua_ip a)) (be_bytes 4 MagicCookie) @ map2 (XOR) (drop 4 (ua_ip a)) txID"
      using False by (simp add: xor_mapped_def xp_def Let_def)
    have l: "length (ua_ip a) = 16" using assms(1) by (simp add: addr_ok_def)
    have s: "slice 2 4 (xor_mapped a txID) = be_bytes 2 (unat xp)" "xor_mapped a txID ! 1 = 2"
      "length (xor_mapped a txID) = 20"
      "take 4 (slice 4 20 (xor_mapped a txID)) = map2 (XOR) (take 4 (ua_ip a)) (be_bytes 4 MagicCookie)"
      "drop 4 (slice 4 20 (xor_mapped a txID)) = map2 (XOR) (drop 4 (ua_ip a)) txID"
      using l assms(2) by (simp_all add: enc slice_def)
    have c: "map2 (XOR) (map2 (XOR) (take 4 (ua_ip a)) (be_bytes 4 MagicCookie)) (be_bytes 4 MagicCookie) = take 4 (ua_ip a)"
      by (rule map2_xor_cancel) (simp add: l)
    have t: "map2 (XOR) (map2 (XOR) (drop 4 (ua_ip a)) txID) (take 12 txID) = drop 4 (ua_ip a)"
      using assms(2) by (simp add: map2_xor_cancel l)
    show ?thesis
      unfolding parseXorMappedAddress_def Let_def s p16 c t by (simp add: port)
  qed
qed

definition attr_ok :: "nat \<times> bytes \<Rightarrow> bool" where
  "attr_ok = (\<lambda>(t, v). t < 65536 \<and> length v < 65536)"

lemma length_attr_bytes: "4 + length (snd a) \<le> length (attr_bytes a)"
  by (simp add: attr_bytes_def split: prod.split)

text \<open>One round of the loop at an attribute.\<close>

lemma parse_attrs_step:
  assumes d: "d = pre @ attr_bytes (t, v) @ suf" and ok: "attr_ok (t, v)"
    and stop: "length pre < stop"
  shows "parse_attrs d txID stop (length pre) =
    (if t = AttrXorMappedAddress then parseXorMappedAddress v txID
     else parse_attrs d txID stop (length (pre @ attr_bytes (t, v))))"
proof -
  let ?n = "length pre"
  have d': "d = pre @ be_bytes 2 t @ be_bytes 2 (length v) @ v @
      (replicate (if length v mod 4 \<noteq> 0 then 4 - length v mod 4 else 0) 0 @ suf)"
    by (simp add: d attr_bytes_def)
  have s: "slice ?n (?n + 2) d = be_bytes 2 t" "slice (?n + 2) (?n + 4) d = be_bytes 2 (length v)"
    "slice (?n + 4) (?n + 4 + length v) d = v"
    by (simp_all add: d' slice_def)
  have v: "be_val (be_bytes 2 t) = t" "be_val (be_bytes 2 (length v)) = length v"
    using ok by (simp_all add: attr_ok_def be_val_be_bytes)
  have l: "?n + 4 + length v \<le> length d" "length (pre @ attr_bytes (t, v)) =
      ?n + 4 + length v + (if length v mod 4 \<noteq> 0 then 4 - length v mod 4 else 0)"
    by (simp_all add: d' attr_bytes_def)
  show ?thesis
    by (subst parse_attrs.simps) (use stop l in \<open>simp only: s v Let_def, simp\<close>)
qed

lemma parse_attrs_find:
  assumes "\<forall>a\<in>set as. attr_ok a \<and> fst a \<noteq> AttrXorMappedAddress" "attr_ok (AttrXorMappedAddress, v)"
    "d = pre @ concat (map attr_bytes as) @ attr_bytes (AttrXorMappedAddress, v) @ suf"
    "length pre + length (concat (map attr_bytes as)) < stop"
  shows "parse_attrs d txID stop (length pre) = parseXorMappedAddress v txID"
  using assms
proof (induction as arbitrary: pre)
  case Nil
  then show ?case using parse_attrs_step [of d pre AttrXorMappedAddress v suf stop txID] by simp
next
  case (Cons a as)
  obtain t w where a: "a = (t, w)" by (cases a)
  have "parse_attrs d txID stop (length pre) = parse_attrs d txID stop (length (pre @ attr_bytes (t, w)))"
    using parse_attrs_step [of d pre t w _ stop txID] Cons.prems a by simp
  also have "\<dots> = parseXorMappedAddress v txID"
    by (rule Cons.IH) (use Cons.prems a in simp_all)
  finally show ?case .
qed

lemma parse_binding_response:
  assumes "length txID = 12" "addr_ok a"
    "\<forall>x\<in>set before. attr_ok x \<and> fst x \<noteq> AttrXorMappedAddress"
    "resp = binding_response txID (before @ (AttrXorMappedAddress, xor_mapped a txID) # after)"
    "length resp < 65536"
  shows "parseBindingResponse resp txID = Inr a"
proof -
  let ?x = "(AttrXorMappedAddress, xor_mapped a txID)"
  define body where "body = concat (map attr_bytes (before @ ?x # after))"
  define hdr where "hdr = be_bytes 2 BindingResponse @ be_bytes 2 (length body) @ be_bytes 4 MagicCookie @ txID"
  have resp: "resp = hdr @ body"
    unfolding assms(4) binding_response_def Let_def body_def [symmetric] hdr_def by simp
  have lh: "length hdr = 20" by (simp add: hdr_def assms(1))
  have lb: "length body < 65536" using assms(5) by (simp add: resp)
  have s: "slice 0 2 resp = be_bytes 2 BindingResponse" "slice 2 4 resp = be_bytes 2 (length body)"
    "slice 4 8 resp = be_bytes 4 MagicCookie" "slice 8 20 resp = txID"
    using assms(1) by (simp_all add: resp hdr_def slice_def)
  have v: "be_val (be_bytes 2 BindingResponse) = BindingResponse" "be_val (be_bytes 2 (length body)) = length body"
    "be_val (be_bytes 4 MagicCookie) = MagicCookie"
    using lb by (simp_all add: be_val_be_bytes BindingResponse_def MagicCookie_def)
  have ok: "attr_ok ?x"
    using assms(1,2) by (auto simp: attr_ok_def AttrXorMappedAddress_def xor_mapped_def Let_def addr_ok_def)
  have ne: "attr_bytes ?x \<noteq> []" using length_attr_bytes [of ?x] by auto
  have "parse_attrs resp txID (20 + length body) 20 = parseXorMappedAddress (xor_mapped a txID) txID"
    using parse_attrs_find [OF assms(3) ok, of resp hdr "concat (map attr_bytes after)" "20 + length body" txID]
      ne
    by (simp add: lh resp body_def)
  moreover have "length resp = 20 + length body" by (simp add: resp lh)
  ultimately show ?thesis
    by (simp add: parseBindingResponse_def s v Let_def HeaderSize_def list_ex_iff
        parse_xor_mapped [OF assms(2,1)])
qed

text \<open>A well-formed response to the request's own transaction ID, whatever other attributes
  come before or after the XOR-MAPPED-ADDRESS, gives back the address the server put in, IPv4 or
  IPv6.\<close>

theorem binding_response_roundtrip:
  assumes "length txID = 12" "addr_ok a"
    "\<forall>x\<in>set before. attr_ok x \<and> fst x \<noteq> AttrXorMappedAddress"
    "resp = binding_response txID (before @ (AttrXorMappedAddress, xor_mapped a txID) # after)"
    "length resp < 65536"
  shows "parseBindingResponse resp txID = Inr a"
  by (rule parse_binding_response [OF assms])

lemma binding_response_roundtrip_witness:
  "parseBindingResponse (binding_response (replicate 12 7)
     ([] @ (AttrXorMappedAddress, xor_mapped \<lparr>ua_ip = net_IPv4 [192, 0, 2, 1], ua_port = 40000\<rparr> (replicate 12 7)) # []))
     (replicate 12 7) = Inr \<lparr>ua_ip = net_IPv4 [192, 0, 2, 1], ua_port = 40000\<rparr>"
  by (rule binding_response_roundtrip [OF _ _ _ refl])
    (simp_all add: addr_ok_def net_IPv4_def v4prefix_def binding_response_def attr_bytes_def xor_mapped_def Let_def)

lemma parseXor_ok:
  "parseXorMappedAddress d txID = Inr a \<Longrightarrow> length txID = 12 \<Longrightarrow> addr_ok a"
  by (auto simp: parseXorMappedAddress_def Let_def addr_ok_def net_IPv4_def v4prefix_def
      unat_less_16 split: if_splits)

lemma parse_attrs_ok:
  "parse_attrs d txID stop off = Inr a \<Longrightarrow> length txID = 12 \<Longrightarrow> addr_ok a"
proof (induction d txID stop off rule: parse_attrs.induct)
  case (1 d txID stop off)
  show ?case
    using 1(2) by (subst (asm) parse_attrs.simps)
      (auto simp: Let_def split: if_splits dest: parseXor_ok [OF _ 1(3)] 1(1) [OF _ _ refl refl refl _ _ _ 1(3)])
qed

lemma parse_response_own:
  assumes "parseBindingResponse d txID = Inr a" "length txID = 12"
  shows "slice 8 20 d = txID \<and> be_val (slice 0 2 d) = BindingResponse \<and> be_val (slice 4 8 d) = MagicCookie \<and> addr_ok a"
proof -
  have len: "20 \<le> length d" and eq: "\<forall>i<12. slice 8 20 d ! i = txID ! i"
    and f: "be_val (slice 0 2 d) = BindingResponse" "be_val (slice 4 8 d) = MagicCookie"
    and r: "parse_attrs d (slice 8 20 d) (HeaderSize + be_val (slice 2 4 d)) HeaderSize = Inr a"
    using assms(1) by (auto simp: parseBindingResponse_def Let_def HeaderSize_def list_ex_iff split: if_splits)
  have l: "length (slice 8 20 d) = 12" using len by simp
  have "slice 8 20 d = txID" using eq l assms(2) by (intro nth_equalityI) auto
  with f parse_attrs_ok [OF r l] show ?thesis by simp
qed

text \<open>The socket loop returns the address of the first packet that answers its own request:
  every packet before it failed to parse, it carries the request's transaction ID and the magic
  cookie, and the address is 16 bytes with a 16-bit port; stray packets cannot make it fail.\<close>

theorem query_takes_own_response:
  assumes "query_reads txID rs = Inr a" "length txID = 12"
  shows "\<exists>pre p post. rs = map Packet pre @ Packet p # post \<and>
     (\<forall>q\<in>set pre. \<exists>e. parseBindingResponse (take 1500 q) txID = Inl e) \<and>
     parseBindingResponse (take 1500 p) txID = Inr a \<and> slice 8 20 (take 1500 p) = txID \<and> addr_ok a"
  using assms(1)
proof (induction rs)
  case (Cons r rs)
  then obtain p where r: "r = Packet p" by (cases r) auto
  show ?case
  proof (cases "parseBindingResponse (take 1500 p) txID")
    case (Inl e)
    with Cons.prems have "query_reads txID rs = Inr a" by (simp add: r)
    from Cons.IH [OF this] obtain pre q post where q: "rs = map Packet pre @ Packet q # post"
      "\<forall>q\<in>set pre. \<exists>e. parseBindingResponse (take 1500 q) txID = Inl e"
      "parseBindingResponse (take 1500 q) txID = Inr a" "slice 8 20 (take 1500 q) = txID" "addr_ok a"
      by blast
    then show ?thesis using Inl by (intro exI [of _ "p # pre"] exI [of _ q] exI [of _ post]) (auto simp: r)
  next
    case (Inr b)
    with Cons.prems have "parseBindingResponse (take 1500 p) txID = Inr a" by (simp add: r)
    with parse_response_own [OF this assms(2)] show ?thesis
      by (intro exI [of _ "[]"] exI [of _ p] exI [of _ rs]) (simp add: r)
  qed
qed simp

lemma query_takes_own_response_witness:
  "\<exists>pre p post. [Packet [1, 2, 3], Packet (binding_response (replicate 12 7)
       [(AttrXorMappedAddress, xor_mapped \<lparr>ua_ip = net_IPv4 [192, 0, 2, 1], ua_port = 40000\<rparr> (replicate 12 7))])] =
     map Packet pre @ Packet p # post \<and> slice 8 20 (take 1500 p) = replicate 12 7"
proof -
  let ?a = "\<lparr>ua_ip = net_IPv4 [192, 0, 2, 1], ua_port = 40000\<rparr>"
  let ?r = "binding_response (replicate 12 7) ([] @ (AttrXorMappedAddress, xor_mapped ?a (replicate 12 7)) # [])"
  have "take 1500 ?r = ?r"
    by (simp add: binding_response_def attr_bytes_def xor_mapped_def Let_def net_IPv4_def v4prefix_def)
  moreover have "parseBindingResponse ?r (replicate 12 7) = Inr ?a"
    by (rule parse_binding_response [OF _ _ _ refl])
      (simp_all add: addr_ok_def net_IPv4_def v4prefix_def binding_response_def attr_bytes_def xor_mapped_def Let_def)
  ultimately have "query_reads (replicate 12 7) [Packet [1, 2, 3], Packet ?r] = Inr ?a"
    by (simp add: parseBindingResponse_def [of "[1, 2, 3]"] HeaderSize_def)
  from query_takes_own_response [OF this length_replicate] show ?thesis
    unfolding append_Nil by blast
qed

end
