(* ===== verification/Addresses.thy ===== *)
theory Addresses
  imports Stun Go_Strings
begin

text \<open>
  Where a session can be reached. The server side (cmd/tezzerd: stuncache.go, main.go,
  checknat.go) caches STUN results, lists the addresses it advertises and diagnoses the NAT; the
  client side (cmd/tezzer: connect.go, familyprobe.go) turns them into the candidates it dials.
  STUN queries, local routes and interface addresses are parameters.
\<close>

section \<open>STUN cache\<close>

(* cmd/tezzerd/stuncache.go:21-24 stunCacheTTL *)
definition stunCacheTTL :: int where
  "stunCacheTTL = 5 * 60 * 1000000000"

(* cmd/tezzerd/stuncache.go:23-23 stunCacheFailureTTL *)
definition stunCacheFailureTTL :: int where
  "stunCacheFailureTTL = 30 * 1000000000"

(* cmd/tezzerd/stuncache.go:26-29 stunCacheEntry *)
record stunCacheEntry =
  sce_ip :: "bytes option"
  sce_expires :: int

(* cmd/tezzerd/stuncache.go:31-39 stunCache *)
record stunCache =
  sc_ttl :: int
  sc_failureTTL :: int
  sc_entries :: "string \<rightharpoonup> stunCacheEntry"

(* cmd/tezzerd/stuncache.go:41-47 newSTUNCache *)
definition newSTUNCache :: "int \<Rightarrow> int \<Rightarrow> stunCache" where
  "newSTUNCache ttl failureTTL = \<lparr>sc_ttl = ttl, sc_failureTTL = failureTTL, sc_entries = (\<lambda>k. None)\<rparr>"

text \<open>None is ok = false; Some None is a remembered failure.\<close>

(* cmd/tezzerd/stuncache.go:49-58 stunCache.get *)
definition stun_get :: "int \<Rightarrow> string \<Rightarrow> stunCache \<Rightarrow> bytes option option" where
  "stun_get now key c =
     (case sc_entries c key of
        None \<Rightarrow> None
      | Some e \<Rightarrow> if now > sce_expires e then None else Some (sce_ip e))"

(* cmd/tezzerd/stuncache.go:60-69 stunCache.put *)
definition stun_put :: "int \<Rightarrow> string \<Rightarrow> bytes option \<Rightarrow> stunCache \<Rightarrow> stunCache" where
  "stun_put now key ip c =
     (let ttl = (if ip = None then sc_failureTTL c else sc_ttl c) in
      c\<lparr>sc_entries := (sc_entries c)(key \<mapsto> \<lparr>sce_ip = ip, sce_expires = now + ttl\<rparr>)\<rparr>)"

text \<open>query is the STUN client's GetMappedAddr; now is the time of the lookup, later that of the
  answer.\<close>

(* cmd/tezzerd/main.go:864-889 queryStunMappedIP *)
definition queryStunMappedIP ::
  "(stun_Client \<Rightarrow> err + UDPAddr) \<Rightarrow> int \<Rightarrow> int \<Rightarrow> string \<Rightarrow> string \<Rightarrow> stunCache \<Rightarrow> bytes option \<times> stunCache"
where
  "queryStunMappedIP query now later network stunServer c =
     (let key = network @ ''|'' @ stunServer in
      case stun_get now key c of
        Some ip \<Rightarrow> (ip, c)
      | None \<Rightarrow>
          (case query ((stun_NewClient stunServer)\<lparr>Network := network\<rparr>) of
             Inl e \<Rightarrow> (None, stun_put later key None c)
           | Inr a \<Rightarrow> (Some (ua_ip a), stun_put later key (Some (ua_ip a)) c)))"

text \<open>A remembered answer, success or failure, is returned without another query until it
  expires: a success for the cache's lifetime, a failure for the shorter failure lifetime; other
  networks and servers are not affected.\<close>

theorem stun_cache_lifetime:
  assumes "stun_get now (network @ ''|'' @ server) c = None"
    "queryStunMappedIP query now later network server c = (ip, c')"
    "now' \<le> later + (if ip = None then sc_failureTTL c else sc_ttl c)"
    "other \<noteq> network @ ''|'' @ server"
  shows "queryStunMappedIP query' now' later' network server c' = (ip, c') \<and>
         stun_get now' other c' = stun_get now' other c \<and>
         (ip = None \<longleftrightarrow> (\<exists>e. query ((stun_NewClient server)\<lparr>Network := network\<rparr>) = Inl e))"
  using assms
  by (cases "query ((stun_NewClient server)\<lparr>Network := network\<rparr>)")
    (auto simp: queryStunMappedIP_def stun_put_def stun_get_def Let_def)

lemma stun_cache_lifetime_witness:
  "queryStunMappedIP (\<lambda>c. Inl EOF) 100 100 ''udp4'' ''s'' (stun_put 5 ''udp4|s'' None (newSTUNCache 300 95)) =
     (None, stun_put 5 ''udp4|s'' None (newSTUNCache 300 95))"
  by (rule stun_cache_lifetime [where now = 0 and later = 5 and c = "newSTUNCache 300 95" and other = "''x''"
      and query = "\<lambda>c. Inl EOF", THEN conjunct1])
    (simp_all add: stun_get_def newSTUNCache_def queryStunMappedIP_def Let_def)

section \<open>Advertised addresses\<close>

text \<open>route network target is the local address the system picks, None when dialling fails.\<close>

(* cmd/tezzerd/main.go:907-918 dialLocalAddr *)
definition dialLocalAddr :: "(string \<Rightarrow> string \<Rightarrow> bytes option) \<Rightarrow> string \<Rightarrow> string \<Rightarrow> string" where
  "dialLocalAddr route network target =
     (case route network target of None \<Rightarrow> [] | Some ip \<Rightarrow> IP_String ip)"

(* cmd/tezzerd/main.go:891-905 getLocalAddrs *)
definition getLocalAddrs :: "(string \<Rightarrow> string \<Rightarrow> bytes option) \<Rightarrow> bool \<Rightarrow> string list" where
  "getLocalAddrs route ipv4Only =
     (let v4 = dialLocalAddr route ''udp4'' ''8.8.8.8:80'';
          v6 = dialLocalAddr route ''udp6'' ''[2001:4860:4860::8888]:80'' in
      (if v4 \<noteq> [] then [v4] else []) @
      (if \<not> ipv4Only then (if v6 \<noteq> [] then [v6] else []) else []))"

text \<open>The session is given by whether QUIC is enabled and by its port; the second query sees the
  cache the first one left.\<close>

(* cmd/tezzerd/main.go:842-862 resolveUDPAddrs *)
definition resolveUDPAddrs ::
  "(stun_Client \<Rightarrow> err + UDPAddr) \<Rightarrow> (string \<Rightarrow> string \<Rightarrow> bytes option) \<Rightarrow> int \<Rightarrow> bool \<Rightarrow> nat \<Rightarrow>
   string \<Rightarrow> bool \<Rightarrow> stunCache \<Rightarrow> string list \<times> string list \<times> stunCache" where
  "resolveUDPAddrs query route now quicEnabled prt stunServer ipv4Only c =
     (if \<not> quicEnabled then ([], [], c)
      else
        let hostport = (\<lambda>ip. JoinHostPort (IP_String ip) (show_nat prt));
            of_ip = (\<lambda>ip. case ip of None \<Rightarrow> [] | Some i \<Rightarrow> [hostport i]);
            (stunAddrs, c') =
              (if stunServer \<noteq> [] then
                 (case queryStunMappedIP query now now ''udp4'' stunServer c of
                    (ip4, c1) \<Rightarrow>
                      if \<not> ipv4Only then
                        (case queryStunMappedIP query now now ''udp6'' stunServer c1 of
                           (ip6, c2) \<Rightarrow> (of_ip ip4 @ of_ip ip6, c2))
                      else (of_ip ip4, c1))
               else ([], c)) in
        (stunAddrs, map (\<lambda>ip. JoinHostPort ip (show_nat prt)) (getLocalAddrs route ipv4Only), c'))"

section \<open>NAT diagnosis\<close>

(* cmd/tezzerd/checknat.go:135-147 isLocalIP *)
definition isLocalIP :: "(err + bytes list) \<Rightarrow> bytes \<Rightarrow> bool" where
  "isLocalIP ifaces ip =
     (case ifaces of Inl e \<Rightarrow> False | Inr addrs \<Rightarrow> list_ex (\<lambda>a. ip_Equal a ip) addrs)"

text \<open>The lines a check prints, and whether it diagnosed anything. err_text renders an error.\<close>

(* cmd/tezzerd/checknat.go:56-101 checkNATFamily *)
definition checkNATFamily ::
  "(err \<Rightarrow> string) \<Rightarrow> (string \<Rightarrow> err + ProbeResult) \<Rightarrow> (err + bytes list) \<Rightarrow> string \<Rightarrow> string \<Rightarrow> string \<Rightarrow> string \<Rightarrow>
   string list \<times> bool" where
  "checkNATFamily err_text probe ifaces network label serverA serverB =
     (case probe network of
        Inl e \<Rightarrow> ([label @ '': probe failed: '' @ err_text e], False)
      | Inr res \<Rightarrow>
          let ipA = ua_ip (MappedA res); portA = ua_port (MappedA res); portB = ua_port (MappedB res);
              head = [label @ '':'', ''  public address:  '' @ IP_String ipA] in
          if isLocalIP ifaces ipA then
            (head @
             [''  NAT:             none (public address is assigned to this host)'',
              ''  verdict:         direct QUIC reachability depends only on firewalls''], True)
          else if \<not> EndpointIndependent res then
            (head @
             [''  mapping:         destination-dependent (symmetric: '' @ serverA @ '' saw port '' @ show_nat portA @
                '', '' @ serverB @ '' saw port '' @ show_nat portB @ '')'',
              ''  verdict:         STUN-derived candidates will NOT work.'',
              ''                   Use a fixed port (-udp-port) with router port forwarding,'',
              ''                   or rely on the SSH-forwarded path.''], True)
          else
            let preserving = (if PortPreserving res then ''yes'' else ''no'') in
            (head @
             [''  mapping:         endpoint-independent (cone)'',
              ''  port-preserving: '' @ preserving @ '' (local '' @ show_nat (LocalPort res) @ '' -> mapped '' @
                show_nat portA @ '')''] @
             (if PortPreserving res then
                [''  verdict:         direct QUIC from outside should work'',
                 ''                   (tezzer advertises public IP + QUIC listen port).'']
              else
                [''  verdict:         cone NAT but not port-preserving: the advertised candidate'',
                 ''                   (public IP + listen port) will not match the actual mapping.'',
                 ''                   Prefer a fixed port (-udp-port) with router port forwarding.'']), True))"

(* cmd/tezzerd/checknat.go:103-133 checkLocalAddr *)
definition checkLocalAddr :: "(string \<Rightarrow> string \<Rightarrow> bytes option) \<Rightarrow> bool \<Rightarrow> string list" where
  "checkLocalAddr route ipv4Only =
     (let v4 = dialLocalAddr route ''udp4'' ''8.8.8.8:80'';
          v6 = (if ipv4Only then [] else dialLocalAddr route ''udp6'' ''[2001:4860:4860::8888]:80'') in
      [if v4 \<noteq> [] then ''  IPv4 route: '' @ v4 @ '' (used)'' else ''  IPv4 route: unavailable''] @
      [if ipv4Only then ''  IPv6 route: skipped (-ipv4-only)''
       else if v6 = [] then ''  IPv6 route: unavailable''
       else if v4 = [] then ''  IPv6 route: '' @ v6 @ '' (used; IPv4 fallback)''
       else ''  IPv6 route: '' @ v6 @ '' (not used; IPv4 succeeded)''] @
      (if v4 = [] \<and> v6 = []
       then [''  advertised:  none (clients will fall back to STUN-derived addresses only)''] else []))"

(* cmd/tezzerd/checknat.go:26-54 runCheckNAT *)
definition runCheckNAT ::
  "(err \<Rightarrow> string) \<Rightarrow> (string \<Rightarrow> err + ProbeResult) \<Rightarrow> (err + bytes list) \<Rightarrow> (string \<Rightarrow> string \<Rightarrow> bytes option) \<Rightarrow>
   string \<Rightarrow> string \<Rightarrow> bool \<Rightarrow> string list \<times> int" where
  "runCheckNAT err_text probe ifaces route serverA serverB ipv4Only =
     (let families = [(''udp4'', ''IPv4'')] @ (if \<not> ipv4Only then [(''udp6'', ''IPv6'')] else []);
          results = map (\<lambda>(n, l). checkNATFamily err_text probe ifaces n l serverA serverB) families;
          diagnosed = list_ex snd results in
      ([''NAT check: querying '' @ serverA @ '' and '' @ serverB @ '' from a single socket per family'', []] @
       concat (map (\<lambda>(ls, d). ls @ [[]]) results) @
       [''LAN candidate address (same-LAN connect shortcut, see getLocalAddr):''] @
       checkLocalAddr route ipv4Only @ [[]] @
       [''Note: results reflect the outermost NAT on the path; stacked NATs (e.g. CGN)'',
        ''      cannot be distinguished. Mapping behavior is a property of the NAT device,'',
        ''      so it applies to tezzer's QUIC ports as well.''],
       if \<not> diagnosed then 1 else 0))"

lemma Join_nonempty: "xs \<noteq> [] \<Longrightarrow> \<forall>x\<in>set xs. x \<noteq> [] \<Longrightarrow> Join xs sep \<noteq> []"
  by (cases xs; cases "tl xs") auto

text \<open>On a host with an IPv4 and an IPv6 route the daemon advertises both local addresses, yet
  the diagnosis reports the IPv6 one as not used.\<close>

theorem check_nat_misreports_ipv6:
  assumes "dialLocalAddr route ''udp4'' ''8.8.8.8:80'' = v4" "v4 \<noteq> []"
    "dialLocalAddr route ''udp6'' ''[2001:4860:4860::8888]:80'' = v6" "v6 \<noteq> []"
  shows "getLocalAddrs route False = [v4, v6] \<and>
         checkLocalAddr route False =
           [''  IPv4 route: '' @ v4 @ '' (used)'', ''  IPv6 route: '' @ v6 @ '' (not used; IPv4 succeeded)'']"
  using assms by (simp add: getLocalAddrs_def checkLocalAddr_def Let_def)

lemma check_nat_misreports_ipv6_witness:
  "length (getLocalAddrs (\<lambda>n t. Some (if n = ''udp4'' then [10, 0, 0, 1] else [1])) False) = 2"
  using check_nat_misreports_ipv6 [OF refl _ refl, of "\<lambda>n t. Some (if n = ''udp4'' then [10, 0, 0, 1] else [1])"]
  by (simp add: dialLocalAddr_def IP_String_def ip4_String_def)

section \<open>Candidates\<close>

(* cmd/tezzer/connect.go:26-33 QUICInfo *)
record QUICInfo =
  qi_Port :: int
  qi_Key :: bytes
  qi_STUNAddrs :: "string list"
  qi_LocalAddrs :: "string list"
  qi_STUNServer :: string

text \<open>ifaces are the client's own interface addresses.\<close>

(* cmd/tezzer/connect.go:350-373 serverIsOnSameHost *)
definition serverIsOnSameHost :: "(err + bytes list) \<Rightarrow> string list \<Rightarrow> bool" where
  "serverIsOnSameHost ifaces serverLocalAddrs =
     (if length serverLocalAddrs = 0 then False
      else (case ifaces of
              Inl e \<Rightarrow> False
            | Inr addrs \<Rightarrow>
                list_ex (\<lambda>sa. case SplitHostPort sa of
                    Inl e \<Rightarrow> False
                  | Inr (serverIP, p) \<Rightarrow> serverIP \<noteq> [] \<and> list_ex (\<lambda>a. IP_String a = serverIP) addrs)
                  serverLocalAddrs))"

text \<open>The double loop that clears isRemoteConnection.\<close>

(* cmd/tezzer/connect.go:55-73 buildQUICCandidateAddrs *)
definition isRemoteConnection :: "string list \<Rightarrow> string list \<Rightarrow> bool" where
  "isRemoteConnection clientSTUNAddrs stunAddrs =
     (if length clientSTUNAddrs > 0 \<and> length stunAddrs > 0
      then fold (\<lambda>ca remote.
             let clientIP = split_host ca in
             if clientIP = [] then remote
             else fold (\<lambda>sa remote.
                    let serverIP = split_host sa in
                    if serverIP \<noteq> [] \<and> clientIP = serverIP then False else remote) stunAddrs remote)
           clientSTUNAddrs True
      else False)"

definition loopback :: "QUICInfo \<Rightarrow> string" where
  "loopback q = ''127.0.0.1:'' @ show_int (qi_Port q)"

(* cmd/tezzer/connect.go:50-97 buildQUICCandidateAddrs *)
definition buildQUICCandidateAddrs :: "(err + bytes list) \<Rightarrow> QUICInfo \<Rightarrow> string list \<Rightarrow> string list" where
  "buildQUICCandidateAddrs ifaces q clientSTUNAddrs =
     (let remote = isRemoteConnection clientSTUNAddrs (qi_STUNAddrs q);
          c1 = (if \<not> remote \<and> serverIsOnSameHost ifaces (qi_LocalAddrs q) then [loopback q] else []);
          c2 = (if \<not> remote then filter (\<lambda>a. a \<noteq> [] \<and> \<not> HasPrefix a ''127.'') (qi_LocalAddrs q) else []);
          c3 = filter (\<lambda>a. a \<noteq> []) (qi_STUNAddrs q);
          cs = c1 @ c2 @ c3 in
      if length cs = 0 \<and> \<not> remote then [loopback q] else cs)"

(* cmd/tezzer/connect.go:317-319 defaultSTUNServer *)
definition defaultSTUNServer :: string where
  "defaultSTUNServer = ''stun.l.google.com:19302''"

(* cmd/tezzer/connect.go:340-348 getClientSTUNAddr *)
definition getClientSTUNAddr :: "(stun_Client \<Rightarrow> err + UDPAddr) \<Rightarrow> string \<Rightarrow> string \<Rightarrow> err + UDPAddr" where
  "getClientSTUNAddr query network stunServer =
     query ((stun_NewClient stunServer)\<lparr>Network := network\<rparr>)"

definition addr_String :: "UDPAddr \<Rightarrow> string" where
  "addr_String a = JoinHostPort (if ua_ip a = [] then [] else IP_String (ua_ip a)) (show_nat (ua_port a))"

definition addr_list :: "err + UDPAddr \<Rightarrow> string list" where
  "addr_list r = (case r of Inl e \<Rightarrow> [] | Inr a \<Rightarrow> [addr_String a])"

(* cmd/tezzer/connect.go:321-338 getClientSTUNAddrs *)
definition getClientSTUNAddrs :: "(stun_Client \<Rightarrow> err + UDPAddr) \<Rightarrow> bool \<Rightarrow> string \<Rightarrow> string list" where
  "getClientSTUNAddrs query ipv4Only stunServer =
     (let server = (if stunServer = [] then defaultSTUNServer else stunServer) in
      addr_list (getClientSTUNAddr query ''udp4'' server) @
      (if \<not> ipv4Only then addr_list (getClientSTUNAddr query ''udp6'' server) else []))"

text \<open>The list startQUICTransport dials, and the one its candidate refresher gives.\<close>

(* cmd/tezzer/connect.go:116-133 startQUICTransport *)
definition start_candidates ::
  "(stun_Client \<Rightarrow> err + UDPAddr) \<Rightarrow> (err + bytes list) \<Rightarrow> bool \<Rightarrow> QUICInfo \<Rightarrow> string list" where
  "start_candidates query ifaces ipv4Only q =
     buildQUICCandidateAddrs ifaces q
       (if length (qi_STUNAddrs q) > 0 then getClientSTUNAddrs query ipv4Only (qi_STUNServer q) else [])"

(* cmd/tezzer/familyprobe.go:37-46 hasLocalRoute *)
definition hasLocalRoute :: "(string \<Rightarrow> string \<Rightarrow> bytes option) \<Rightarrow> string \<Rightarrow> string \<Rightarrow> bool" where
  "hasLocalRoute route network target \<longleftrightarrow> route network target \<noteq> None"

(* cmd/tezzer/familyprobe.go:29-35 probeTargets *)
definition probeTargets :: "string \<Rightarrow> string" where
  "probeTargets n =
     (if n = ''udp4'' then ''8.8.8.8:80'' else if n = ''udp6'' then ''[2001:4860:4860::8888]:80'' else [])"

text \<open>One round of the background refresh: the candidates handed to the transport, None when it
  leaves them as they are.\<close>

(* cmd/tezzer/familyprobe.go:69-98 refreshCandidatesOnce *)
definition refreshCandidatesOnce ::
  "(stun_Client \<Rightarrow> err + UDPAddr) \<Rightarrow> (string \<Rightarrow> string \<Rightarrow> bytes option) \<Rightarrow> (err + bytes list) \<Rightarrow> bool \<Rightarrow> bool \<Rightarrow>
   QUICInfo \<Rightarrow> string list option" where
  "refreshCandidatesOnce query route ifaces connected ipv4Only q =
     (if \<not> connected then None
      else
        let c4 = (if hasLocalRoute route ''udp4'' (probeTargets ''udp4'')
                  then addr_list (getClientSTUNAddr query ''udp4'' (qi_STUNServer q)) else []);
            c6 = (if \<not> ipv4Only \<and> hasLocalRoute route ''udp6'' (probeTargets ''udp6'')
                  then addr_list (getClientSTUNAddr query ''udp6'' (qi_STUNServer q)) else []);
            fresh = buildQUICCandidateAddrs ifaces q (c4 @ c6) in
        if length fresh = 0 then None else Some fresh)"

text \<open>The loop runs only when the server gave STUN addresses.\<close>

(* cmd/tezzer/familyprobe.go:48-67 startCandidateRefreshLoop *)
definition refresh_loop_runs :: "QUICInfo \<Rightarrow> bool" where
  "refresh_loop_runs q \<longleftrightarrow> length (qi_STUNAddrs q) \<noteq> 0"

lemma fold_conj:
  "(\<And>c r. f c r \<longleftrightarrow> r \<and> P c) \<Longrightarrow> fold f xs r \<longleftrightarrow> r \<and> (\<forall>c\<in>set xs. P c)"
  by (induction xs arbitrary: r) auto

lemma inner_fold:
  "fold (\<lambda>sa r. let serverIP = split_host sa in if serverIP \<noteq> [] \<and> ip = serverIP then False else r) sas r \<longleftrightarrow>
   r \<and> (\<forall>sa\<in>set sas. \<not> (split_host sa \<noteq> [] \<and> split_host sa = ip))"
  by (rule fold_conj) (auto simp: Let_def)

lemma outer_fold:
  "fold (\<lambda>ca r. let clientIP = split_host ca in if clientIP = [] then r
      else fold (\<lambda>sa r. let serverIP = split_host sa in if serverIP \<noteq> [] \<and> clientIP = serverIP then False else r) sas r)
     cas r \<longleftrightarrow>
   r \<and> (\<forall>ca\<in>set cas. \<not> (\<exists>sa\<in>set sas. split_host ca \<noteq> [] \<and> split_host ca = split_host sa))"
proof (rule fold_conj)
  fix c r
  show "(let clientIP = split_host c in if clientIP = [] then r
      else fold (\<lambda>sa r. let serverIP = split_host sa in if serverIP \<noteq> [] \<and> clientIP = serverIP then False else r) sas r) \<longleftrightarrow>
    r \<and> \<not> (\<exists>sa\<in>set sas. split_host c \<noteq> [] \<and> split_host c = split_host sa)"
    unfolding Let_def [of "split_host c"] inner_fold by auto
qed

lemma isRemote_iff:
  "isRemoteConnection cas sas \<longleftrightarrow>
   cas \<noteq> [] \<and> sas \<noteq> [] \<and>
   \<not> (\<exists>ca\<in>set cas. \<exists>sa\<in>set sas. split_host ca \<noteq> [] \<and> split_host ca = split_host sa)"
  unfolding isRemoteConnection_def outer_fold by auto

text \<open>A client whose public addresses share no host with the server's is given the server's
  public addresses only, in order: no loopback or private address is dialled. Every other client
  gets at least one candidate, and loopback only when the server is on this host or nothing else
  is known.\<close>

theorem candidate_selection:
  "(if cas \<noteq> [] \<and> qi_STUNAddrs q \<noteq> [] \<and>
       \<not> (\<exists>ca\<in>set cas. \<exists>sa\<in>set (qi_STUNAddrs q). split_host ca \<noteq> [] \<and> split_host ca = split_host sa)
    then buildQUICCandidateAddrs ifaces q cas = filter (\<lambda>a. a \<noteq> []) (qi_STUNAddrs q)
    else buildQUICCandidateAddrs ifaces q cas \<noteq> [] \<and>
         set (buildQUICCandidateAddrs ifaces q cas) \<subseteq> insert (loopback q) (set (qi_LocalAddrs q) \<union> set (qi_STUNAddrs q)) \<and>
         (if loopback q \<in> set (buildQUICCandidateAddrs ifaces q cas)
          then serverIsOnSameHost ifaces (qi_LocalAddrs q) \<or> loopback q \<in> set (qi_STUNAddrs q) \<or>
               buildQUICCandidateAddrs ifaces q cas = [loopback q]
          else True))"
  unfolding isRemote_iff [symmetric]
  by (auto simp: buildQUICCandidateAddrs_def Let_def loopback_def HasPrefix_def)

text \<open>For a server that does not name its STUN server the connection set-up queries the default
  one, but the background refresh queries the empty name; when that fails, it rebuilds the
  candidates as if the client had no public address, so that a remote client is handed the
  server's private addresses.\<close>

theorem refresh_ignores_default_server:
  assumes "qi_STUNServer q = []"
    "\<forall>n. \<exists>e. query \<lparr>ServerAddr = [], Timeout = 5 * 1000000000, IPv4Only = False, Network = n\<rparr> = Inl e"
    "a \<in> set (qi_LocalAddrs q)" "a \<noteq> []" "\<not> HasPrefix a ''127.''"
  shows "\<exists>fresh. refreshCandidatesOnce query route ifaces True v4 q = Some fresh \<and> a \<in> set fresh"
proof -
  have "addr_list (getClientSTUNAddr query n []) = []" for n
    using assms(2) by (auto simp: addr_list_def getClientSTUNAddr_def stun_NewClient_def split: sum.split)
      (metis Inl_Inr_False)
  then show ?thesis
    using assms(1,3-5)
    by (auto simp: refreshCandidatesOnce_def Let_def buildQUICCandidateAddrs_def isRemote_iff filter_empty_conv)
qed

definition old_server :: QUICInfo where
  "old_server = \<lparr>qi_Port = 4433, qi_Key = [], qi_STUNAddrs = [''198.51.100.7:4433''],
     qi_LocalAddrs = [''192.168.0.9:4433''], qi_STUNServer = []\<rparr>"

lemma refresh_ignores_default_server_witness:
  "\<exists>fresh. refreshCandidatesOnce (\<lambda>c. if ServerAddr c = [] then Inl EOF else Inr \<lparr>ua_ip = net_IPv4 [203, 0, 113, 5], ua_port = 9\<rparr>)
       (\<lambda>n t. Some []) (Inr []) True True old_server = Some fresh \<and> ''192.168.0.9:4433'' \<in> set fresh"
  by (rule refresh_ignores_default_server) (simp_all add: old_server_def HasPrefix_def)

text \<open>At set-up the same client, behind its own public address, dials the public address only.\<close>

lemma start_candidates_old_server:
  "start_candidates (\<lambda>c. if ServerAddr c = [] then Inl EOF else Inr \<lparr>ua_ip = net_IPv4 [203, 0, 113, 5], ua_port = 9\<rparr>)
     (Inr []) True old_server = [''198.51.100.7:4433'']"
proof -
  have "isRemoteConnection [''203.0.113.5:9''] [''198.51.100.7:4433'']"
    by (simp add: isRemote_iff split_host_def SplitHostPort_def last_index_byte_def)
  moreover have "IP_String (net_IPv4 [203, 0, 113, 5]) = ''203.0.113.5''"
    by (simp add: IP_String_def net_IPv4_def v4prefix_def ip4_String_def show_nat.simps char_of_def bit_0)
  ultimately show ?thesis
    by (simp add: start_candidates_def getClientSTUNAddrs_def getClientSTUNAddr_def old_server_def addr_list_def
        addr_String_def buildQUICCandidateAddrs_def defaultSTUNServer_def stun_NewClient_def Let_def
        JoinHostPort_def char_of_def bit_0 net_IPv4_def)
qed

(* cmd/tezzer/connect.go:278-289 quicSetupHint *)
definition quicSetupHint :: "string \<Rightarrow> int \<Rightarrow> string" where
  "quicSetupHint msg prt =
     (if \<not> Contains msg ''no recent network activity'' \<and> \<not> Contains msg ''handshake did not complete'' then []
      else ''hint: no response from UDP port '' @ show_int prt @
           ''. Check NAT port forwarding for that port, '' @
           ''that tezzerd runs with --udp-port <forwarded port> (otherwise ports are random), '' @
           ''and that the client network does not block UDP'')"

text \<open>The lines logged for a failure and the text remembered to suppress the same failure next time.\<close>

(* cmd/tezzer/connect.go:260-276 logQUICSetupFailure *)
definition logQUICSetupFailure :: "bool \<Rightarrow> string \<Rightarrow> string \<Rightarrow> int \<Rightarrow> string list \<times> string" where
  "logQUICSetupFailure hasStatus msg lst prt =
     (if msg = lst then ([], lst)
      else ((if hasStatus then [''QUIC setup failed: '' @ msg] else []) @
            (let hint = quicSetupHint msg prt in if hint \<noteq> [] then [hint] else []), msg))"

(* cmd/tezzer/connect.go:104-114 startQUICTransport *)
fun gen_clientID :: "(16 word) list \<Rightarrow> 16 word option" where
  "gen_clientID [] = None"
| "gen_clientID (r # rs) = (if r = 0 then gen_clientID rs else Some r)"

end
