(* ===== verification/Daemon.thy ===== *)
theory Daemon
  imports Handover Proto Session_Env Addresses
begin

text \<open>
  The daemon's Unix-socket connections (cmd/tezzerd/main.go): who is served, the handshake, the
  first command, the loop of an attached client, waiting for a session, and the goroutine that
  starts a new session's process once its QUIC connection stands. A connection is a state machine
  that reads one frame per step; what other connections and the sessions do happens between the
  steps. A session that is no longer in the map has been closed, and operations on it do nothing.
\<close>

section \<open>State and environment\<close>

datatype conn_state =
    AwaitHello
  | AwaitCommand
  | WaitingFor string
  | Attached string string
  | ConnClosed

text \<open>What a connection reads: an error, a frame that does not decode, a message; or, while waiting,
  the end of the session with the exit code it then has.\<close>

datatype conn_event =
    ReadErr
  | Undecodable
  | Got proto_msg
  | SessionEnded int

record tezzerd =
  mgr :: Manager
  stunMappedIPs :: stunCache

text \<open>de_sent says whether a message could be encoded and written. de_pty is the result of setting the
  pty's size or writing to it, de_new that of NewSession for a command, de_notfound errors.Is with
  exec.ErrNotFound.\<close>

record daemon_env =
  de_sent :: "proto_msg \<Rightarrow> bool"
  de_now :: time
  de_random :: bytes
  de_new :: "CreateSessionMsg \<Rightarrow> string \<Rightarrow> string \<Rightarrow> err + Session"
  de_notfound :: "err \<Rightarrow> bool"
  de_shell :: string
  de_path :: string
  de_pty :: "err option"
  de_listen :: "string \<Rightarrow> string \<Rightarrow> string + nat"
  de_active :: "string \<Rightarrow> ClientID list"
  de_stats :: "string \<Rightarrow> ClientSendStat list"
  de_query :: "stun_Client \<Rightarrow> err + UDPAddr"
  de_route :: "string \<Rightarrow> string \<Rightarrow> bytes option"
  de_stun :: string
  de_ipv4 :: bool
  de_build :: "string \<times> string \<times> string"
  de_remote :: string

datatype daemon_act =
    Reply proto_msg
  | DoMgr mgr_act
  | UseLogin string
  | StartWriter string string
  | StopWriter string
  | StartStarter string

fun err_Error :: "err \<Rightarrow> string" where
  "err_Error EOF = ''EOF''"
| "err_Error UnexpectedEOF = ''unexpected EOF''"
| "err_Error (ErrorString t) = t"
| "err_Error (Wrapped p e) = p @ '': '' @ err_Error e"

(* internal/session/manager.go:359-372 Manager.CreateSession *)
fun mgr_err_Error :: "mgr_err \<Rightarrow> string" where
  "mgr_err_Error (ErrDuplicateName n) = ''session name already in use: '' @ n"
| "mgr_err_Error (ErrTooManySessions n) = ''session limit reached (max '' @ show_int n @ '')''"
| "mgr_err_Error (ErrSessionNotFound k) = ''session not found: '' @ k"
| "mgr_err_Error (ErrNewSession e) = err_Error e"

section \<open>Answers\<close>

(* cmd/tezzerd/main.go:656-664 sendError *)
definition sendError :: "string \<Rightarrow> string \<Rightarrow> daemon_act" where
  "sendError code msg = Reply (ErrorM code msg)"

definition unix_seconds :: "time option \<Rightarrow> int" where
  "unix_seconds t = (case t of None \<Rightarrow> 0 | Some x \<Rightarrow> x div second)"

text \<open>The map from client number to statistics holds the last entry of each number.\<close>

(* cmd/tezzerd/main.go:721-757 clientInfosWithStats *)
definition clientInfosWithStats :: "ClientInfo list \<Rightarrow> ClientSendBufferStats list \<Rightarrow> proto_ClientInfo list" where
  "clientInfosWithStats infos stats =
     map (\<lambda>ci.
       let base = \<lparr>pc_ID = ci_ID ci, pc_Protocol = ci_Protocol ci, pc_RemoteAddr = ci_RemoteAddr ci,
                   pc_QUICRemoteAddr = '''', pc_UDPClientID = ci_QUICClientID ci, pc_SendBufferBytes = 0,
                   pc_LastSeen = 0, pc_SlowOutputWrites = 0, pc_MaxOutputWriteMs = 0,
                   pc_OutputStallEpisodes = 0, pc_OutputStallMs = 0, pc_ForwardsActive = 0,
                   pc_ForwardsOpened = 0, pc_ForwardBytesToTarget = 0, pc_ForwardBytesFromTarget = 0\<rparr> in
       (case find (\<lambda>x. cb_ClientID x = ci_QUICClientID ci) (rev stats) of
          None \<Rightarrow> base
        | Some x \<Rightarrow>
            base\<lparr>pc_SendBufferBytes := cb_TotalBytes x, pc_LastSeen := unix_seconds (cb_LastSeen x),
                 pc_QUICRemoteAddr := cb_QUICRemoteAddr x, pc_SlowOutputWrites := cb_SlowWrites x,
                 pc_MaxOutputWriteMs := cb_MaxWriteMs x, pc_OutputStallEpisodes := cb_StallEpisodes x,
                 pc_OutputStallMs := cb_CurrentStallMs x, pc_ForwardsActive := cb_ForwardsActive x,
                 pc_ForwardsOpened := cb_ForwardsOpened x, pc_ForwardBytesToTarget := cb_ForwardBytesToTarget x,
                 pc_ForwardBytesFromTarget := cb_ForwardBytesFromTarget x\<rparr>))
       infos"

(* cmd/tezzerd/main.go:666-719 sessionProtoInfo *)
definition sessionProtoInfo :: "ClientID list \<Rightarrow> ClientSendStat list \<Rightarrow> Session \<Rightarrow> SessionInfo" where
  "sessionProtoInfo active stats s =
     (let ob = GetOutputBufferStats s; (rows, cols) = Size s in
      \<lparr>si_SessionID = ID s, si_Name = Name s, si_Cmd = Cmd s, si_Rows = rows, si_Cols = cols,
       si_CreatedAt = CreatedAt s div second, si_ClientCount = GetClientCount active s,
       si_Clients = clientInfosWithStats (GetClientInfos active s) (GetClientSendBufferStats stats s),
       si_UDPEnabled = quicEnabled s, si_UDPPort = quicPort s, si_PTYClosed = ptyClosed s,
       si_LastDetachedAt = unix_seconds (lastDetachedAt s), si_LastOutputAt = unix_seconds (lastOutputAt s),
       si_LastInputAt = unix_seconds (lastInputAt s), si_OutputChunks = obs_ChunkCount ob,
       si_OutputBufferBytes = obs_TotalBytes ob, si_OldestChunkTime = unix_seconds (obs_OldestChunkTime ob),
       si_OutputColdSegments = obs_ColdSegments ob, si_OutputColdBytes = obs_ColdBytes ob,
       si_OutputColdRawBytes = obs_ColdRawBytes ob\<rparr>)"

(* cmd/tezzerd/main.go:830-840 serverMetaMsg *)
definition serverMetaMsg :: "daemon_env \<Rightarrow> Manager \<Rightarrow> ServerMetaMsg" where
  "serverMetaMsg env m =
     (let (build, built, version) = de_build env in
      \<lparr>sm_ServerBuildID = build, sm_ServerBuildTime = built, sm_ServerInstanceID = serverInstanceID m,
       sm_ServerVersion = version\<rparr>)"

text \<open>on_session is an operation of a session, on the session the connection holds.\<close>

definition on_session ::
  "string \<Rightarrow> (Session \<Rightarrow> Session \<times> session_act list) \<Rightarrow> tezzerd \<Rightarrow> tezzerd \<times> daemon_act list" where
  "on_session k f d = (let (m, acts) = with_session k f (mgr d) in (d\<lparr>mgr := m\<rparr>, map DoMgr acts))"

(* cmd/tezzerd/main.go:759-780 killSessionAndRespond *)
definition killSessionAndRespond :: "daemon_env \<Rightarrow> string \<Rightarrow> tezzerd \<Rightarrow> tezzerd \<times> daemon_act list" where
  "killSessionAndRespond env k d =
     (case DeleteSession (de_listen env) (de_now env) k (mgr d) of
        (_, _, Some e) \<Rightarrow> (d, [sendError ''NO_SUCH_SESSION'' (mgr_err_Error e)])
      | (m, acts, None) \<Rightarrow> (d\<lparr>mgr := m\<rparr>, map DoMgr acts @ [Reply (SessionKilledM k)]))"

(* cmd/tezzerd/main.go:785-791 waitSessionAndRespond *)
definition wait_begin :: "string \<Rightarrow> tezzerd \<Rightarrow> conn_state \<times> daemon_act list" where
  "wait_begin k d =
     (case GetSession k (mgr d) of
        Inl e \<Rightarrow> (ConnClosed, [sendError ''NO_SUCH_SESSION'' (mgr_err_Error e)])
      | Inr _ \<Rightarrow> (WaitingFor k, []))"

(* cmd/tezzerd/main.go:793-825 waitSessionAndRespond *)
fun wait_step :: "conn_event \<Rightarrow> daemon_act list" where
  "wait_step (SessionEnded code) =
     [Reply (NoteM ''SESSION_CLOSED'' ''PTY session has ended'' (if code \<ge> 0 then Some code else None))]"
| "wait_step _ = []"

section \<open>Handshake\<close>

text \<open>peer is the result of SO_PEERCRED. The connection is closed, or waits for HELLO.\<close>

(* cmd/tezzerd/main.go:240-256 handleConnection *)
definition authenticate :: "nat \<Rightarrow> err + nat \<Rightarrow> conn_state \<times> daemon_act list" where
  "authenticate currentUID peer =
     (case peer of
        Inl _ \<Rightarrow> (ConnClosed, [sendError ''UNAUTHORIZED'' ''Unix socket authentication failed''])
      | Inr peerUID \<Rightarrow>
          if peerUID \<noteq> currentUID then (ConnClosed, [sendError ''UNAUTHORIZED'' ''UID mismatch''])
          else (AwaitHello, []))"

(* cmd/tezzerd/main.go:258-295 handleConnection *)
definition hello_step :: "daemon_env \<Rightarrow> conn_event \<Rightarrow> conn_state \<times> daemon_act list" where
  "hello_step env e =
     (case e of
        Got (Hello name cols rows) \<Rightarrow>
          let welcome = WelcomeM ''tezzerd'' '''' in
          (if de_sent env welcome then AwaitCommand else ConnClosed, [Reply welcome])
      | Got _ \<Rightarrow> (ConnClosed, [sendError ''BAD_REQUEST'' ''expected HELLO''])
      | _ \<Rightarrow> (ConnClosed, []))"

section \<open>Creating and attaching\<close>

definition resolve :: "daemon_env \<Rightarrow> Session \<Rightarrow> tezzerd \<Rightarrow> string list \<times> string list \<times> tezzerd" where
  "resolve env s d =
     (let (stunAddrs, localAddrs, c) =
        resolveUDPAddrs (de_query env) (de_route env) (de_now env) (quicEnabled s) (nat (quicPort s))
          (de_stun env) (de_ipv4 env) (stunMappedIPs d) in
      (stunAddrs, localAddrs, d\<lparr>stunMappedIPs := c\<rparr>))"

(* cmd/tezzerd/main.go:422-434 handleConnection *)
definition createdMsg :: "daemon_env \<Rightarrow> Session \<Rightarrow> string list \<Rightarrow> string list \<Rightarrow> SessionCreatedMsg" where
  "createdMsg env s stunAddrs localAddrs =
     \<lparr>sc_SessionID = ID s, sc_Name = Name s, sc_UDPEnabled = quicEnabled s, sc_UDPPort = quicPort s,
      sc_UDPKey = quicKey s, sc_PTYClosed = False, sc_InitialOutput = [], sc_TermModes = [],
      sc_STUNAddrs = stunAddrs, sc_LocalAddrs = localAddrs, sc_STUNServer = de_stun env\<rparr>"

text \<open>The answer to a creation that fails.\<close>

(* cmd/tezzerd/main.go:399-416 handleConnection *)
fun create_failed :: "daemon_env \<Rightarrow> mgr_err \<Rightarrow> daemon_act" where
  "create_failed env (ErrDuplicateName n) = sendError ''DUPLICATE_NAME'' (mgr_err_Error (ErrDuplicateName n))"
| "create_failed env (ErrTooManySessions n) =
     sendError ''TOO_MANY_SESSIONS'' (mgr_err_Error (ErrTooManySessions n))"
| "create_failed env e =
     sendError ''INTERNAL''
       (''failed to create session: '' @ mgr_err_Error e @
        (case e of
           ErrNewSession x \<Rightarrow>
             if de_notfound env x
             then '' (tezzerd PATH='' @ de_path env @
                  ''; give an absolute path or add the directory to tezzerd's PATH)''
             else ''''
         | _ \<Rightarrow> ''''))"

text \<open>Once SESSION_CREATED is out: output is held back, the client attached, its writer and the
  goroutine that starts the process launched.\<close>

(* cmd/tezzerd/main.go:446-474 handleConnection *)
definition create_attach :: "daemon_env \<Rightarrow> string \<Rightarrow> tezzerd \<Rightarrow> (conn_state \<times> tezzerd) \<times> daemon_act list" where
  "create_attach env k d =
     (case sessionByID k (mgr d) of
        None \<Rightarrow> ((ConnClosed, d), [])
      | Some s \<Rightarrow>
          let clientID = snd (AttachClient ''UDS'' (de_remote env) 0 s);
              (d1, acts) = on_session k
                (\<lambda>s. (fst (AttachClient ''UDS'' (de_remote env) 0 (BeginQuicPendingMode s)), [])) d in
          ((Attached k clientID, d1), acts @ [StartStarter k, StartWriter k clientID]))"

(* cmd/tezzerd/main.go:386-474 handleConnection *)
definition create_command ::
  "daemon_env \<Rightarrow> CreateSessionMsg \<Rightarrow> tezzerd \<Rightarrow> (conn_state \<times> tezzerd) \<times> daemon_act list" where
  "create_command env m d =
     (case (if cs_Name m \<noteq> '''' then ValidateSessionName (cs_Name m) else None) of
        Some e \<Rightarrow> ((ConnClosed, d), [sendError ''BAD_REQUEST'' (err_Error e)])
      | None \<Rightarrow>
          let cmd = (if cs_LoginShell m then de_shell env else cs_Cmd m);
              k = generateSessionID (de_random env);
              (m1, acts, r) = CreateSession (de_random env) (de_new env m cmd) (de_now env) (cs_Name m) (mgr d);
              pre = map (\<lambda>a. DoMgr (SessAct k a)) acts;
              d1 = d\<lparr>mgr := m1\<rparr> in
          (case r of
             Inl e \<Rightarrow> ((ConnClosed, d1), pre @ [create_failed env e])
           | Inr s \<Rightarrow>
               let login = (if cs_LoginShell m then [UseLogin k] else []);
                   (stunAddrs, localAddrs, d2) = resolve env s d1;
                   created = SessionCreatedM (createdMsg env s stunAddrs localAddrs) in
               if de_sent env created
               then (case create_attach env k d2 of (cd, acts') \<Rightarrow> (cd, pre @ login @ [Reply created] @ acts'))
               else ((ConnClosed, d2), pre @ login @ [Reply created])))"

text \<open>The attach resizes unless a dimension is zero or less, attaches the client and only then answers.\<close>

(* cmd/tezzerd/main.go:476-520 handleConnection *)
definition attach_command ::
  "daemon_env \<Rightarrow> AttachSessionMsg \<Rightarrow> tezzerd \<Rightarrow> (conn_state \<times> tezzerd) \<times> daemon_act list" where
  "attach_command env m d =
     (let k = as_SessionID m in
      case GetSession k (mgr d) of
        Inl e \<Rightarrow> ((ConnClosed, d), [sendError ''NO_SUCH_SESSION'' (mgr_err_Error e)])
      | Inr s \<Rightarrow>
          let (s1, acts1) = (if as_Rows m > 0 \<and> as_Cols m > 0
                             then (case Session.Resize (de_pty env) (as_Rows m) (as_Cols m) s of (s1, a, _) \<Rightarrow> (s1, a))
                             else (s, []));
              (s2, clientID) = AttachClient ''UDS'' (de_remote env) (as_ClientID m) s1;
              (d1, acts) = on_session k (\<lambda>_. (s2, acts1)) d;
              (stunAddrs, localAddrs, d2) = resolve env s2 d1;
              attached = SessionCreatedM ((createdMsg env s2 stunAddrs localAddrs)
                \<lparr>sc_PTYClosed := ptyClosed s2, sc_TermModes := Restore (termModes s2)\<rparr>) in
          if de_sent env attached
          then ((Attached k clientID, d2), acts @ [Reply attached, StartWriter k clientID])
          else ((ConnClosed, d2), acts @ [Reply attached]))"

section \<open>First command\<close>

(* cmd/tezzerd/main.go:313-385 handleConnection *)
fun command_step :: "daemon_env \<Rightarrow> proto_msg \<Rightarrow> tezzerd \<Rightarrow> (conn_state \<times> tezzerd) \<times> daemon_act list" where
  "command_step env ListSessionsM d =
     ((ConnClosed, d),
      [Reply (SessionsListM
         (map (\<lambda>s. sessionProtoInfo (de_active env (ID s)) (de_stats env (ID s)) s) (GetAllSessions (mgr d)))
         (rfwd_snapshot (rfwd (mgr d))))])"
| "command_step env (GetSessionInfoM k) d =
     (case GetSession k (mgr d) of
        Inl e \<Rightarrow> ((ConnClosed, d), [sendError ''NO_SUCH_SESSION'' (mgr_err_Error e)])
      | Inr s \<Rightarrow> ((ConnClosed, d), [Reply (SessionInfoM (sessionProtoInfo (de_active env k) (de_stats env k) s))]))"
| "command_step env (KillSessionM k) d =
     (case killSessionAndRespond env k d of (d1, acts) \<Rightarrow> ((ConnClosed, d1), acts))"
| "command_step env (GetServerMetaM _) d = ((ConnClosed, d), [Reply (ServerMetaM (serverMetaMsg env (mgr d)))])"
| "command_step env (WaitSessionM k) d = (case wait_begin k d of (c, acts) \<Rightarrow> ((c, d), acts))"
| "command_step env (CreateSessionM m) d = create_command env m d"
| "command_step env (AttachSessionM m) d = attach_command env m d"
| "command_step env _ d =
     ((ConnClosed, d), [sendError ''BAD_REQUEST'' ''expected CREATE_SESSION or ATTACH_SESSION''])"

section \<open>An attached connection\<close>

text \<open>The cleanup after the loop; a kill returns without it.\<close>

(* cmd/tezzerd/main.go:645-654 handleConnection *)
definition conn_cleanup :: "daemon_env \<Rightarrow> string \<Rightarrow> string \<Rightarrow> tezzerd \<Rightarrow> (conn_state \<times> tezzerd) \<times> daemon_act list" where
  "conn_cleanup env k clientID d =
     (case on_session k (\<lambda>s. (DetachClient (de_now env) clientID s, [])) d of
        (d1, acts) \<Rightarrow> ((ConnClosed, d1), acts @ [StopWriter clientID]))"

(* cmd/tezzerd/main.go:587-642 handleConnection *)
fun loop_msg ::
  "daemon_env \<Rightarrow> string \<Rightarrow> string \<Rightarrow> proto_msg \<Rightarrow> tezzerd \<Rightarrow> (conn_state \<times> tezzerd) \<times> daemon_act list" where
  "loop_msg env k c (InputM _ b) d =
     (case on_session k (\<lambda>s. case WriteInput (de_pty env) (de_now env) b s of (s', a, _) \<Rightarrow> (s', a)) d of
        (d1, acts) \<Rightarrow> ((Attached k c, d1), acts))"
| "loop_msg env k c (ResizeM _ rows cols) d =
     (case on_session k (\<lambda>s. case Session.Resize (de_pty env) rows cols s of (s', a, _) \<Rightarrow> (s', a)) d of
        (d1, acts) \<Rightarrow> ((Attached k c, d1), acts))"
| "loop_msg env k c (UDPClientInfoM _ n) d =
     (case on_session k (\<lambda>s. case RegisterQUICClient n s of Inl _ \<Rightarrow> (s, []) | Inr s' \<Rightarrow> (s', [])) d of
        (d1, acts) \<Rightarrow> ((Attached k c, d1), acts))"
| "loop_msg env k c (PingM nonce) d = ((Attached k c, d), [Reply (PongM nonce)])"
| "loop_msg env k c (GetServerMetaM _) d = ((Attached k c, d), [Reply (ServerMetaM (serverMetaMsg env (mgr d)))])"
| "loop_msg env k c (KillSessionM j) d =
     (case killSessionAndRespond env j d of (d1, acts) \<Rightarrow> ((ConnClosed, d1), acts))"
| "loop_msg env k c _ d = ((Attached k c, d), [])"

(* cmd/tezzerd/main.go:569-643 handleConnection *)
fun loop_step ::
  "daemon_env \<Rightarrow> string \<Rightarrow> string \<Rightarrow> conn_event \<Rightarrow> tezzerd \<Rightarrow> (conn_state \<times> tezzerd) \<times> daemon_act list" where
  "loop_step env k c ReadErr d = conn_cleanup env k c d"
| "loop_step env k c (Got m) d = loop_msg env k c m d"
| "loop_step env k c _ d = ((Attached k c, d), [])"

section \<open>The connection\<close>

(* cmd/tezzerd/main.go:297-312 handleConnection *)
fun conn_step ::
  "daemon_env \<Rightarrow> conn_event \<Rightarrow> conn_state \<times> tezzerd \<Rightarrow> (conn_state \<times> tezzerd) \<times> daemon_act list" where
  "conn_step env e (AwaitHello, d) = (case hello_step env e of (c, acts) \<Rightarrow> ((c, d), acts))"
| "conn_step env e (AwaitCommand, d) = (case e of Got m \<Rightarrow> command_step env m d | _ \<Rightarrow> ((ConnClosed, d), []))"
| "conn_step env e (WaitingFor k, d) = ((ConnClosed, d), wait_step e)"
| "conn_step env e (Attached k c, d) = loop_step env k c e d"
| "conn_step env e (ConnClosed, d) = ((ConnClosed, d), [])"

text \<open>A connection's life, with what others do to the daemon in between.\<close>

datatype daemon_event =
    Own daemon_env conn_event
  | Others "mgr_event list"

fun conn_run ::
  "(bytes \<Rightarrow> err + bytes) \<Rightarrow> daemon_event list \<Rightarrow> conn_state \<times> tezzerd \<Rightarrow> (conn_state \<times> tezzerd) \<times> daemon_act list" where
  "conn_run deflate [] cd = (cd, [])"
| "conn_run deflate (Own env e # es) cd =
     (let (cd1, acts) = conn_step env e cd; (cd2, acts') = conn_run deflate es cd1 in (cd2, acts @ acts'))"
| "conn_run deflate (Others ms # es) (c, d) =
     conn_run deflate es (c, d\<lparr>mgr := fold (mgr_do (\<lambda>_ _. Inl '''') deflate) ms (mgr d)\<rparr>)"

section \<open>Starting the process\<close>

datatype starter_event =
    QuicReadyEv "err option" "err option"
  | DoneEv
  | TimedOut

(* cmd/tezzerd/main.go:454-474 handleConnection *)
definition starter_step :: "time \<Rightarrow> string \<Rightarrow> starter_event \<Rightarrow> tezzerd \<Rightarrow> tezzerd \<times> daemon_act list" where
  "starter_step now k e d =
     (case e of
        QuicReadyEv startErr sizeErr \<Rightarrow>
          (case sessionByID k (mgr d) of
             None \<Rightarrow> (d, [])
           | Some s \<Rightarrow>
               (case StartProcess startErr sizeErr s of
                  Inr s' \<Rightarrow> on_session k (\<lambda>_. (s', [])) d
                | Inl x \<Rightarrow>
                    let (d1, acts) = on_session k (Close now) d in
                    (d1, sendError ''INTERNAL'' (''failed to start '' @ Cmd s @ '': '' @ err_Error x) # acts)))
      | DoneEv \<Rightarrow> (d, [])
      | TimedOut \<Rightarrow>
          let (d1, acts) = on_session k (Close now) d in
          (d1, sendError ''QUIC_TIMEOUT'' ''QUIC connection not established in time'' # acts))"

section \<open>Startup and signals\<close>

text \<open>The flags set the policy and the limit before anything is restored, and the shared transport is
  opened only if none was handed over. inherited is the state of the predecessor, if there is one.\<close>

(* cmd/tezzerd/main.go:65-106 main *)
definition daemon_start ::
  "Manager \<Rightarrow> bool \<Rightarrow> bool \<Rightarrow> int \<Rightarrow> restore_sys \<Rightarrow> bytes option \<Rightarrow> int \<Rightarrow> (int \<Rightarrow> Manager \<Rightarrow> err + Manager) \<Rightarrow>
   err + Manager" where
  "daemon_start new noTCPForwarding noAgentForwarding limit sys inherited udpPort init =
     (let m1 = (if noTCPForwarding then SetTCPForwarding False new else new);
          m2 = (if noAgentForwarding then SetAgentForwarding False m1 else m1);
          m3 = (if limit > 0 then SetMaxSessions limit m2 else m2);
          m4 = (case inherited of None \<Rightarrow> m3 | Some b \<Rightarrow> fst (RestoreHandover sys b m3)) in
      if udpPort > 0 \<and> sharedTransport m4 = None
      then (case init udpPort m4 of
              Inl e \<Rightarrow> Inl (Wrapped ''failed to initialize shared QUIC transport'' e)
            | Inr m5 \<Rightarrow> Inr m5)
      else Inr m4)"

text \<open>The socket's path: in use if someone answers on it, otherwise removed before it is bound.\<close>

(* cmd/tezzerd/main.go:122-147 main *)
definition claim_socket ::
  "string \<Rightarrow> bool \<Rightarrow> bool \<Rightarrow> err option \<Rightarrow> err option \<Rightarrow> err option \<Rightarrow> err option" where
  "claim_socket path present answering removed bound chmodded =
     (if present \<and> answering then Some (ErrorString (''tezzerd is already running on socket: '' @ path))
      else
        (case (if present then removed else None) of
           Some e \<Rightarrow> Some (Wrapped ''failed to remove stale socket'' e)
         | None \<Rightarrow>
             (case bound of
                Some e \<Rightarrow> Some (Wrapped ''failed to listen on unix socket'' e)
              | None \<Rightarrow> map_option (Wrapped ''failed to chmod socket'') chmodded)))"

text \<open>A SIGUSR2 whose handover succeeds ends the process; one that fails changes nothing. After
  SIGINT or SIGTERM no signal is read.\<close>

datatype daemon_signal = SIGUSR1 | SIGUSR2 bool | SIGTERM

(* cmd/tezzerd/main.go:154-191 main *)
fun on_signals :: "daemon_signal list \<Rightarrow> bool \<Rightarrow> Manager \<Rightarrow> bool \<times> Manager \<times> mgr_act list" where
  "on_signals [] debug m = (debug, m, [])"
| "on_signals (SIGUSR1 # sigs) debug m = on_signals sigs (\<not> debug) m"
| "on_signals (SIGUSR2 replaced # sigs) debug m = (if replaced then (debug, m, []) else on_signals sigs debug m)"
| "on_signals (SIGTERM # sigs) debug m = (case mgr_Close m of (m', acts) \<Rightarrow> (debug, m', acts))"

section \<open>Who is served\<close>

text \<open>A daemon that has just started, and a client that has gone away.\<close>

definition daemon0 :: tezzerd where
  "daemon0 = \<lparr>mgr = NewManager None 0, stunMappedIPs = newSTUNCache stunCacheTTL stunCacheFailureTTL\<rparr>"

definition gone_client :: daemon_env where
  "gone_client =
     \<lparr>de_sent = (\<lambda>m. False), de_now = 1, de_random = [0, 1, 2], de_new = (\<lambda>m cmd k. Inr (session0 k cmd 24 80 None 0)),
      de_notfound = (\<lambda>e. False), de_shell = ''/bin/sh'', de_path = ''/bin'', de_pty = None,
      de_listen = (\<lambda>_ _. Inl ''busy''), de_active = (\<lambda>k. []), de_stats = (\<lambda>k. []), de_query = (\<lambda>c. Inl EOF),
      de_route = (\<lambda>n t. None), de_stun = '''', de_ipv4 = True, de_build = ('''', '''', ''1''), de_remote = ''@''\<rparr>"

definition create_work :: CreateSessionMsg where
  "create_work =
     \<lparr>cs_Name = ''work'', cs_Cmd = ''sh'', cs_Args = [], cs_Env = [], cs_Cwd = '''', cs_Cols = 80, cs_Rows = 24,
      cs_AgentForward = False, cs_LoginShell = False\<rparr>"

definition attach_work :: AttachSessionMsg where
  "attach_work = \<lparr>as_SessionID = ''s1'', as_FromSeq = 0, as_Cols = 80, as_Rows = 24, as_ClientID = 7\<rparr>"

fun replies :: "daemon_act list \<Rightarrow> proto_msg list" where
  "replies [] = []"
| "replies (Reply r # acts) = r # replies acts"
| "replies (_ # acts) = replies acts"

lemma replies_append [simp]: "replies (as @ bs) = replies as @ replies bs"
  by (induction as rule: replies.induct) simp_all

lemma replies_DoMgr [simp]: "replies (map DoMgr acts) = []" "replies (map (\<lambda>a. DoMgr (f a)) acts') = []"
  by (induction acts, simp_all) (induction acts', simp_all)

lemma on_session_acts [simp]:
  "replies (snd (on_session k f d)) = []"
  "StartStarter j \<notin> set (snd (on_session k f d))" "StartWriter j i \<notin> set (snd (on_session k f d))"
  by (auto simp: on_session_def case_prod_unfold Let_def)

text \<open>What others do meanwhile, and whether the connection's first frame is a HELLO it can welcome.\<close>

fun others_only :: "(bytes \<Rightarrow> err + bytes) \<Rightarrow> daemon_event list \<Rightarrow> tezzerd \<Rightarrow> tezzerd" where
  "others_only deflate [] d = d"
| "others_only deflate (Own env e # es) d = others_only deflate es d"
| "others_only deflate (Others ms # es) d =
     others_only deflate es (d\<lparr>mgr := fold (mgr_do (\<lambda>_ _. Inl '''') deflate) ms (mgr d)\<rparr>)"

fun greeted :: "daemon_event list \<Rightarrow> bool" where
  "greeted [] = False"
| "greeted (Others ms # es) = greeted es"
| "greeted (Own env e # es) =
     (de_sent env (WelcomeM ''tezzerd'' '''') \<and> (case e of Got (Hello _ _ _) \<Rightarrow> True | _ \<Rightarrow> False))"

lemma closed_run: "conn_run deflate es (ConnClosed, d) = ((ConnClosed, others_only deflate es d), [])"
  by (induction deflate es d rule: others_only.induct) simp_all

lemma ungreeted_run:
  assumes "\<not> greeted es" "conn_run deflate es (AwaitHello, d) = ((c, d'), acts)"
  shows "d' = others_only deflate es d \<and> (c = AwaitHello \<or> c = ConnClosed) \<and>
    (\<forall>a\<in>set acts. (\<exists>t. a = sendError ''BAD_REQUEST'' t) \<or> a = Reply (WelcomeM ''tezzerd'' ''''))"
  using assms
proof (induction deflate es d arbitrary: c d' acts rule: others_only.induct)
  case (2 deflate env e es d)
  then show ?case
    by (cases e) (auto simp: hello_step_def closed_run Let_def split: proto_msg.splits)
qed simp_all

text \<open>C15. Only the daemon's own user is served, and only after a HELLO: a connection from anyone else, or
  whose first frame is anything but a HELLO that could be answered, leaves the daemon exactly as
  other connections make it and is told nothing but an error or the welcome that did not get out.\<close>

theorem only_owner_served:
  assumes "authenticate uid peer = (c0, acts0)" "conn_run deflate es (c0, d) = ((c, d'), acts)"
    "peer \<noteq> Inr uid \<or> \<not> greeted es"
  shows "d' = others_only deflate es d \<and> (\<forall>k i. c \<noteq> Attached k i) \<and>
    (peer \<noteq> Inr uid \<longrightarrow> acts = [] \<and> (\<exists>t. acts0 = [sendError ''UNAUTHORIZED'' t])) \<and>
    (\<forall>a\<in>set (acts0 @ acts). (\<exists>code t. a = sendError code t) \<or> a = Reply (WelcomeM ''tezzerd'' ''''))"
proof (cases "peer = Inr uid")
  case True
  with assms have "c0 = AwaitHello" "acts0 = []" "\<not> greeted es" by (auto simp: authenticate_def)
  with ungreeted_run [of es deflate d c d' acts] assms(2) True show ?thesis by fastforce
next
  case False
  with assms(1) have "c0 = ConnClosed" "\<exists>t. acts0 = [sendError ''UNAUTHORIZED'' t]"
    by (auto simp: authenticate_def split: sum.splits if_splits)
  moreover from this assms(2) have "c = ConnClosed \<and> d' = others_only deflate es d \<and> acts = []"
    by (simp add: closed_run)
  ultimately show ?thesis using False by fastforce
qed

lemma only_owner_served_witness:
  "snd (fst (conn_run Inr [Own gone_client (Got (Hello ''tezzer'' 80 24)),
     Own gone_client (Got (CreateSessionM create_work))] (ConnClosed, daemon0))) = daemon0"
  using only_owner_served [of 1000 "Inr 1001" ConnClosed "[sendError ''UNAUTHORIZED'' ''UID mismatch'']" Inr
      "[Own gone_client (Got (Hello ''tezzer'' 80 24)), Own gone_client (Got (CreateSessionM create_work))]" daemon0]
  by (simp add: authenticate_def)

section \<open>Answers to the first command\<close>

fun answer_type :: "proto_msg \<Rightarrow> string" where
  "answer_type ListSessionsM = ''SESSIONS_LIST''"
| "answer_type (GetSessionInfoM _) = ''SESSION_INFO''"
| "answer_type (KillSessionM _) = ''SESSION_KILLED''"
| "answer_type (GetServerMetaM _) = ''SERVER_META''"
| "answer_type (CreateSessionM _) = ''SESSION_CREATED''"
| "answer_type (AttachSessionM _) = ''SESSION_CREATED''"
| "answer_type _ = ''ERROR''"

text \<open>An answer to a request: of its own type, or an error with one of the protocol's codes.\<close>

definition fits :: "proto_msg \<Rightarrow> proto_msg \<Rightarrow> bool" where
  "fits m r \<longleftrightarrow> msg_type r = answer_type m \<or> (\<exists>code t. r = ErrorM code t \<and> code \<in> set proto_errors)"

definition answered :: "daemon_env \<Rightarrow> proto_msg \<Rightarrow> conn_state \<Rightarrow> daemon_act list \<Rightarrow> bool" where
  "answered env m c acts \<longleftrightarrow>
     (\<exists>r. replies acts = [r] \<and> fits m r \<and>
       (case c of
          Attached k i \<Rightarrow> msg_type r = ''SESSION_CREATED'' \<and> de_sent env r \<and> StartWriter k i \<in> set acts
        | _ \<Rightarrow> c = ConnClosed))"

lemma answered_error: "code \<in> set proto_errors \<Longrightarrow> replies acts = [] \<Longrightarrow> answered env m ConnClosed (acts @ [sendError code t])"
  by (simp add: answered_def fits_def sendError_def)

lemma answered_error1: "code \<in> set proto_errors \<Longrightarrow> answered env m ConnClosed [sendError code t]"
  using answered_error [of code "[]"] by simp

lemma codes:
  "''BAD_REQUEST'' \<in> set proto_errors" "''NO_SUCH_SESSION'' \<in> set proto_errors" "''INTERNAL'' \<in> set proto_errors"
  "''DUPLICATE_NAME'' \<in> set proto_errors" "''TOO_MANY_SESSIONS'' \<in> set proto_errors"
  by (simp_all add: proto_errors_def)

lemma create_attach_answers:
  assumes "create_attach env k d = (cd, acts)"
  shows "replies acts = [] \<and> (case fst cd of Attached j i \<Rightarrow> StartWriter j i \<in> set acts | c \<Rightarrow> c = ConnClosed)"
  using assms
  by (auto simp: create_attach_def Let_def case_prod_unfold split: option.splits)

lemma create_answered:
  assumes "create_command env m d = ((c, d'), acts)"
  shows "answered env (CreateSessionM m) c acts"
proof (cases "if cs_Name m \<noteq> '''' then ValidateSessionName (cs_Name m) else None")
  case (Some e)
  with assms show ?thesis
    by (auto simp: create_command_def answered_error1 codes split: if_splits)
next
  case None
  let ?k = "generateSessionID (de_random env)"
  obtain m1 as r where cs: "CreateSession (de_random env)
      (de_new env m (if cs_LoginShell m then de_shell env else cs_Cmd m)) (de_now env) (cs_Name m) (mgr d) = (m1, as, r)"
    by (metis prod_cases3)
  show ?thesis
  proof (cases r)
    case (Inl e)
    have "\<exists>code t. create_failed env e = sendError code t \<and> code \<in> set proto_errors"
      by (cases e) (use codes in auto)
    with assms None cs Inl answered_error show ?thesis by (auto simp: create_command_def Let_def)
  next
    case (Inr s)
    obtain sa la d2 where re: "resolve env s (d\<lparr>mgr := m1\<rparr>) = (sa, la, d2)" by (metis prod_cases3)
    obtain cd acts' where ca: "create_attach env ?k d2 = (cd, acts')"
      by (cases "create_attach env ?k d2") blast
    with create_attach_answers [OF ca] assms None cs Inr re show ?thesis
      by (auto simp: create_command_def Let_def answered_def fits_def split: if_splits conn_state.splits)
  qed
qed

lemma attach_answered:
  assumes "attach_command env m d = ((c, d'), acts)"
  shows "answered env (AttachSessionM m) c acts"
proof (cases "GetSession (as_SessionID m) (mgr d)")
  case (Inl e)
  with assms show ?thesis
    by (auto simp: attach_command_def Let_def answered_error1 codes)
next
  case (Inr s)
  with assms show ?thesis
    by (auto simp: attach_command_def Let_def case_prod_unfold answered_def fits_def split: if_splits)
qed

text \<open>C18. Every first command is answered by exactly one message, of the type that belongs to the request
  or an error with a code of the protocol, except that waiting for an existing session says nothing
  yet. The connection goes on only after a SESSION_CREATED that was sent, with a writer for its client.\<close>

theorem answers_fit_requests:
  assumes "conn_step env (Got m) (AwaitCommand, d) = ((c, d'), acts)"
  shows "if \<exists>k. m = WaitSessionM k \<and> map_of (sessions (mgr d)) k \<noteq> None
    then acts = [] \<and> d' = d \<and> (\<exists>k. m = WaitSessionM k \<and> c = WaitingFor k)
    else answered env m c acts"
proof (cases m)
  case (CreateSessionM x)
  with assms create_answered show ?thesis by simp
next
  case (AttachSessionM x)
  with assms attach_answered show ?thesis by simp
next
  case (WaitSessionM k)
  with assms show ?thesis
    by (auto simp: wait_begin_def GetSession_def answered_error1 codes split: option.splits)
next
  case (GetSessionInfoM k)
  with assms show ?thesis
    by (cases "GetSession k (mgr d)") (auto simp: answered_error1 codes, simp add: answered_def fits_def)
next
  case (KillSessionM k)
  with assms show ?thesis
    by (cases "DeleteSession (de_listen env) (de_now env) k (mgr d)", cases "snd (snd (DeleteSession (de_listen env) (de_now env) k (mgr d)))")
      (auto simp: killSessionAndRespond_def answered_error1 codes, simp add: answered_def fits_def)
qed (use assms in \<open>auto simp: answered_error1 codes answered_def [of _ ListSessionsM]
  answered_def [of _ "GetServerMetaM _"] fits_def\<close>)

lemma answers_fit_requests_witness:
  "answered gone_client (KillSessionM ''s1'') ConnClosed [sendError ''NO_SUCH_SESSION'' ''session not found: s1'']"
  using answers_fit_requests [of gone_client "KillSessionM ''s1''" daemon0 ConnClosed daemon0
      "[sendError ''NO_SUCH_SESSION'' ''session not found: s1'']"]
  by (simp add: killSessionAndRespond_def DeleteSession_def daemon0_def NewManager_def)

section \<open>Clients that go away during the handshake\<close>

text \<open>A client may close its socket while the daemon asks a STUN server for its addresses; then the
  answer cannot be written. The cleanup keeps every session with an open pty or an attached client.\<close>

lemma cleanup_keeps:
  assumes "distinct (map fst (sessions m))" "map_of (sessions m) k = Some s" "\<not> ptyClosed s \<or> clients s \<noteq> []"
  shows "map_of (sessions (fst (cleanupClosedSessions listen active now m))) k = Some s"
  using assms(2,3) by (auto simp: cleanup_lookup [OF assms(1)])

lemma resolve_mgr: "resolve env s d = (sa, la, d2) \<Longrightarrow> mgr d2 = mgr d"
  by (auto simp: resolve_def case_prod_unfold Let_def)

lemma attach_starts_nothing: "StartStarter j \<notin> set (snd (attach_command env m d))"
  by (auto simp: attach_command_def Let_def case_prod_unfold sendError_def split: sum.splits)

lemma count_insert:
  "k \<notin> fst ` set al \<Longrightarrow> length (filter P (AList.update k v al)) = length (filter P al) + (if P (k, v) then 1 else 0)"
  by (induction al) auto

text \<open>When the SESSION_CREATED of a new session cannot be written, the handler returns before it
  launches the goroutine that starts the process, and nothing removes the session: it stays in the map
  with an open pty that never was, counts towards the session limit and holds its name. No cleanup
  removes it, and attaching to it later starts no process either.\<close>

theorem abandoned_creation_leaks:
  assumes "distinct (map fst (sessions (mgr d)))" "generateSessionID (de_random env) = k"
    "k \<notin> fst ` set (sessions (mgr d))"
    "CreateSession (de_random env) (de_new env cm (if cs_LoginShell cm then de_shell env else cs_Cmd cm))
       (de_now env) (cs_Name cm) (mgr d) = (m1, as, Inr s)" "\<not> ptyClosed s"
    "cs_Name cm \<noteq> ''''" "ValidateSessionName (cs_Name cm) = None" "\<forall>x. \<not> de_sent env (SessionCreatedM x)"
    "conn_step env (Got (CreateSessionM cm)) (AwaitCommand, d) = ((c, d'), acts)"
  shows "c = ConnClosed \<and> StartStarter j \<notin> set acts \<and> map_of (sessions (mgr d')) k = Some s \<and>
    activeSessionCountLocked (mgr d') = activeSessionCountLocked (mgr d) + 1 \<and>
    create_precheck (cs_Name cm) (mgr d') = Some (ErrDuplicateName (cs_Name cm)) \<and>
    map_of (sessions (fst (cleanupClosedSessions listen active now (mgr d')))) k = Some s \<and>
    StartStarter j \<notin> set (snd (conn_step env' (Got (AttachSessionM am)) (AwaitCommand, d')))"
proof -
  obtain sa la d2 where re: "resolve env s (d\<lparr>mgr := m1\<rparr>) = (sa, la, d2)" by (metis prod_cases3)
  have m1: "m1 = (mgr d)\<lparr>sessions := AList.update k s (sessions (mgr d))\<rparr>" "Name s = cs_Name cm"
    using assms(2,4) by (auto simp: CreateSession_def create_register_def Let_def split: option.splits sum.splits if_splits)
  have r: "c = ConnClosed \<and> mgr d' = m1 \<and> StartStarter j \<notin> set acts"
    using assms(4,6-9) re resolve_mgr [OF re] by (auto simp: create_command_def Let_def)
  have look: "map_of (sessions m1) k = Some s" using m1 by (simp add: alist.lookup_put)
  have d: "distinct (map fst (sessions m1))" using m1 assms(1) by (simp add: distinct_update)
  have "activeSessionCountLocked m1 = activeSessionCountLocked (mgr d) + 1"
    using m1 assms(3,5) by (simp add: activeSessionCountLocked_def count_insert)
  moreover have "FindByName (cs_Name cm) m1 \<noteq> None"
    unfolding FindByName_def map_option_is_None find_None_iff
    using map_of_SomeD [OF look] m1(2) assms(5) by auto
  ultimately show ?thesis
    using r look assms(5,6) cleanup_keeps [OF d look] attach_starts_nothing [of j env' am d']
    by (auto simp: create_precheck_def)
qed

lemma abandoned_creation_leaks_witness:
  "\<exists>d'. conn_step gone_client (Got (CreateSessionM create_work)) (AwaitCommand, daemon0) =
      ((ConnClosed, d'), [Reply (SessionCreatedM (createdMsg gone_client
        ((session0 ''AAEC'' ''sh'' 24 80 None 0)\<lparr>Name := ''work''\<rparr>) [] []))]) \<and>
    create_precheck ''work'' (mgr d') = Some (ErrDuplicateName ''work'')"
proof -
  let ?s = "(session0 ''AAEC'' ''sh'' 24 80 None 0)\<lparr>Name := ''work''\<rparr>"
  let ?d = "daemon0\<lparr>mgr := (NewManager None 0)\<lparr>sessions := [(''AAEC'', ?s)]\<rparr>\<rparr>"
  have k: "generateSessionID (de_random gone_client) = ''AAEC''"
    by (simp add: generateSessionID_def gone_client_def b64_alphabet_def)
  have cs: "CreateSession (de_random gone_client)
      (de_new gone_client create_work (if cs_LoginShell create_work then de_shell gone_client else cs_Cmd create_work))
      (de_now gone_client) (cs_Name create_work) (mgr daemon0) =
      ((NewManager None 0)\<lparr>sessions := [(''AAEC'', ?s)]\<rparr>, [], Inr ?s)"
    unfolding CreateSession_def k by (simp add: create_precheck_def create_register_def gone_client_def
      create_work_def daemon0_def NewManager_def FindByName_def Let_def)
  have name: "ValidateSessionName (cs_Name create_work) = None"
    by (simp add: ValidateSessionName_def create_work_def name_char_def)
  have step: "conn_step gone_client (Got (CreateSessionM create_work)) (AwaitCommand, daemon0) =
      ((ConnClosed, ?d), [Reply (SessionCreatedM (createdMsg gone_client ?s [] []))])"
    using cs name k
    by (simp add: create_command_def Let_def resolve_def resolveUDPAddrs_def session0_def)
      (simp add: gone_client_def create_work_def)
  show ?thesis
    using abandoned_creation_leaks [OF _ k _ cs _ _ name _ step] step
    by (simp add: daemon0_def NewManager_def gone_client_def create_work_def session0_def)
qed

text \<open>When the answer to an attach cannot be written, the handler returns without detaching the
  client it has attached. The client stays in the session for good: even after the pty has closed, the
  cleanup takes the session for one in use and never removes it, for as long as the client is there.\<close>

theorem abandoned_attach_leaks:
  assumes "distinct (map fst (sessions (mgr d)))" "map_of (sessions (mgr d)) k = Some s" "as_SessionID am = k"
    "\<forall>x. \<not> de_sent env (SessionCreatedM x)"
    "conn_step env (Got (AttachSessionM am)) (AwaitCommand, d) = ((c, d'), acts)"
  shows "c = ConnClosed \<and> StopWriter i \<notin> set acts \<and>
    (\<exists>s'. map_of (sessions (mgr d')) k = Some s' \<and> length (clients s') = length (clients s) + 1 \<and>
      map_of (sessions (fst (cleanupClosedSessions listen active now
        ((mgr d')\<lparr>sessions := AList.update k (pty_mark_closed t s') (sessions (mgr d'))\<rparr>)))) k =
      Some (pty_mark_closed t s'))"
proof -
  obtain s1 acts1 where s1: "(if as_Rows am > 0 \<and> as_Cols am > 0
      then (case Session.Resize (de_pty env) (as_Rows am) (as_Cols am) s of (s1, a, _) \<Rightarrow> (s1, a)) else (s, []))
      = (s1, acts1)" by (metis surj_pair)
  then have c1: "clients s1 = clients s"
    by (auto simp: Session.Resize_def split: if_splits option.splits)
  obtain s2 i2 where at: "AttachClient ''UDS'' (de_remote env) (as_ClientID am) s1 = (s2, i2)" by force
  then have c2: "length (clients s2) = length (clients s) + 1"
    using c1 by (auto simp: AttachClient_def Let_def)
  obtain d1 a1 where os: "on_session k (\<lambda>_. (s2, acts1)) d = (d1, a1)" by force
  then have m1: "mgr d1 = (mgr d)\<lparr>sessions := AList.update k s2 (sessions (mgr d))\<rparr>" "StopWriter i \<notin> set a1"
    using assms(2) by (auto simp: on_session_def with_session_def)
  obtain sa la d2 where re: "resolve env s2 d1 = (sa, la, d2)" by (metis prod_cases3)
  have r: "c = ConnClosed \<and> mgr d' = mgr d1 \<and> StopWriter i \<notin> set acts"
    using assms(2-5) s1 at os re resolve_mgr [OF re] m1(2)
    by (auto simp: attach_command_def GetSession_def Let_def)
  let ?m = "(mgr d1)\<lparr>sessions := AList.update k (pty_mark_closed t s2) (sessions (mgr d1))\<rparr>"
  have "map_of (sessions ?m) k = Some (pty_mark_closed t s2)" by (simp add: alist.lookup_put)
  moreover have "distinct (map fst (sessions ?m))" using assms(1) m1 by (simp add: distinct_update)
  moreover have "clients (pty_mark_closed t s2) \<noteq> []" using c2 by (auto simp: pty_mark_closed_def)
  ultimately have "map_of (sessions (fst (cleanupClosedSessions listen active now ?m))) k = Some (pty_mark_closed t s2)"
    by (blast intro: cleanup_keeps)
  moreover have "map_of (sessions (mgr d')) k = Some s2" using r m1 by (simp add: alist.lookup_put)
  ultimately show ?thesis using r c2 by auto
qed

lemma abandoned_attach_leaks_witness:
  "\<exists>d' acts s'. conn_step gone_client (Got (AttachSessionM attach_work))
      (AwaitCommand, daemon0\<lparr>mgr := (NewManager None 0)\<lparr>sessions := [(''s1'', idle_session ''s1'')]\<rparr>\<rparr>) =
      ((ConnClosed, d'), acts) \<and> map_of (sessions (mgr d')) ''s1'' = Some s' \<and> length (clients s') = 1"
proof -
  let ?d = "daemon0\<lparr>mgr := (NewManager None 0)\<lparr>sessions := [(''s1'', idle_session ''s1'')]\<rparr>\<rparr>"
  obtain c d' acts where step: "conn_step gone_client (Got (AttachSessionM attach_work)) (AwaitCommand, ?d) =
      ((c, d'), acts)" by (metis surj_pair)
  have h: "distinct (map fst (sessions (mgr ?d)))" "map_of (sessions (mgr ?d)) ''s1'' = Some (idle_session ''s1'')"
    "as_SessionID attach_work = ''s1''" "\<forall>x. \<not> de_sent gone_client (SessionCreatedM x)"
    by (simp_all add: attach_work_def gone_client_def)
  have "clients (idle_session ''s1'') = []" by (simp add: idle_session_def session0_def)
  with abandoned_attach_leaks [OF h step] step show ?thesis by fastforce
qed

end
