(* ===== verification/Open_Handles.thy ===== *)
theory Open_Handles
  imports Auth Daemon QClient
begin

text \<open>
  What the program opens for its connections and closes again: the listening socket of a QUIC server
  (internal/qtransport/server.go), the sockets of a client (client.go), and the descriptor through which
  the uid of a peer is read (internal/netx/uds_linux.go, uds_bsd.go). The state is the list of what is
  open; results of system calls and of quic-go are arguments.
\<close>

section \<open>Handles\<close>

text \<open>A QUIC transport and a listener have the number of the socket they are built on.\<close>

datatype handle = UdpSocket nat | QuicTransport nat | QuicListener nat | DupOf nat

type_synonym handles = "handle list"

text \<open>Two calls of Close: both are made, and the first error is the result.\<close>

definition first_err :: "err option \<Rightarrow> err option \<Rightarrow> err option" where
  "first_err a b = (case a of Some e \<Rightarrow> Some e | None \<Rightarrow> b)"

lemma first_err_None [simp]: "first_err a b = None \<longleftrightarrow> a = None \<and> b = None"
  by (simp add: first_err_def split: option.split)

section \<open>The server\<close>

record quic_Config =
  MaxIdleTimeout :: int
  KeepAlivePeriod :: int
  InitialPacketSize :: nat
  EnableDatagrams :: bool

(* internal/qtransport/client.go:21-39 quicConfig *)
definition quicConfig :: quic_Config where
  "quicConfig = \<lparr>MaxIdleTimeout = 60 * second, KeepAlivePeriod = 15 * second, InitialPacketSize = 1200,
     EnableDatagrams = True\<rparr>"

record server_sockets =
  sk_uconn :: nat
  sk_started :: bool

text \<open>listen is the result of Listen on the transport around the socket. A failure leaves the socket to
  the caller. The transport is counted from the moment it listens: the value built before Listen holds
  nothing but the reference to the socket, and is dropped when Listen fails.\<close>

(* internal/qtransport/server.go:126-148 NewServerFromPacketConn *)
definition NewServerFromPacketConn ::
  "crypto \<Rightarrow> (nat \<Rightarrow> tls_Config \<Rightarrow> quic_Config \<Rightarrow> err option) \<Rightarrow> bytes \<Rightarrow> nat \<Rightarrow> handles \<Rightarrow> handles \<times> (err + server_sockets)"
where
  "NewServerFromPacketConn cr listen k uconn hs =
     (case ServerTLS cr k of
        Inl e \<Rightarrow> (hs, Inl e)
      | Inr tlsConf \<Rightarrow>
          (case listen uconn tlsConf quicConfig of
             Some e \<Rightarrow> (hs, Inl e)
           | None \<Rightarrow> (QuicListener uconn # QuicTransport uconn # hs, Inr \<lparr>sk_uconn = uconn, sk_started = False\<rparr>)))"

(* internal/qtransport/server.go:106-124 NewServer *)
definition NewServer ::
  "crypto \<Rightarrow> (string \<Rightarrow> err + string) \<Rightarrow> (string \<Rightarrow> err + nat) \<Rightarrow> (nat \<Rightarrow> tls_Config \<Rightarrow> quic_Config \<Rightarrow> err option) \<Rightarrow>
   bytes \<Rightarrow> string \<Rightarrow> handles \<Rightarrow> handles \<times> (err + server_sockets)"
where
  "NewServer cr resolveUDPAddr listenUDP listen k listenAddr hs =
     (case resolveUDPAddr listenAddr of
        Inl e \<Rightarrow> (hs, Inl e)
      | Inr addr \<Rightarrow>
          (case listenUDP addr of
             Inl e \<Rightarrow> (hs, Inl e)
           | Inr uconn \<Rightarrow>
               (case NewServerFromPacketConn cr listen k uconn (UdpSocket uconn # hs) of
                  (hs1, Inl e) \<Rightarrow> (removeAll (UdpSocket uconn) hs1, Inl e)
                | (hs1, Inr srv) \<Rightarrow> (hs1, Inr srv))))"

(* internal/qtransport/server.go:192-197 quicServer.Start *)
definition srv_Start :: "server_sockets \<Rightarrow> server_sockets" where
  "srv_Start s = s\<lparr>sk_started := True\<rparr>"

text \<open>The connections handed to handleConn, of what Accept returns one after another.\<close>

(* internal/qtransport/server.go:199-207 quicServer.acceptLoop *)
fun acceptLoop :: "(err + nat) list \<Rightarrow> nat list" where
  "acceptLoop [] = []"
| "acceptLoop (Inl e # rs) = []"
| "acceptLoop (Inr conn # rs) = conn # acceptLoop rs"

(* internal/qtransport/server.go:708-726 quicServer.Close *)
definition srv_Close ::
  "err option \<Rightarrow> err option \<Rightarrow> err option \<Rightarrow> server_sockets \<Rightarrow> handles \<Rightarrow> server_sockets \<times> handles \<times> err option"
where
  "srv_Close lnErr trErr uconnErr s hs =
     (let s1 = s\<lparr>sk_started := False\<rparr>;
          h1 = removeAll (QuicListener (sk_uconn s)) hs;
          h2 = removeAll (QuicTransport (sk_uconn s)) h1; e2 = first_err lnErr trErr;
          h3 = removeAll (UdpSocket (sk_uconn s)) h2; e3 = first_err e2 uconnErr in
      (s1, h3, e3))"

text \<open>The socket of a server that is handed over. control is the error of Control, which then has not
  called its function.\<close>

(* internal/qtransport/server.go:167-187 quicServer.DupUDPSocketFd *)
definition DupUDPSocketFd :: "bool \<Rightarrow> err option \<Rightarrow> err option \<Rightarrow> err + int \<Rightarrow> err + int" where
  "DupUDPSocketFd isSyscallConn syscallConn control dup =
     (if \<not> isSyscallConn then Inl (ErrorString ''udp socket does not support SyscallConn'')
      else (case syscallConn of
              Some e \<Rightarrow> Inl e
            | None \<Rightarrow> (case control of Some e \<Rightarrow> Inl e | None \<Rightarrow> dup)))"

text \<open>The same for a pty or another socket, of which the interface is known.\<close>

(* internal/session/handover.go:95-109 dupFdNoCloexec *)
definition dupFdNoCloexec :: "err option \<Rightarrow> err option \<Rightarrow> err + int \<Rightarrow> err + int" where
  "dupFdNoCloexec syscallConn control dup =
     (case syscallConn of
        Some e \<Rightarrow> Inl e
      | None \<Rightarrow> (case control of Some e \<Rightarrow> Inl e | None \<Rightarrow> dup))"

lemma DupUDPSocketFd_dup: "DupUDPSocketFd True syscallConn control dup = dupFdNoCloexec syscallConn control dup"
  by (simp add: DupUDPSocketFd_def dupFdNoCloexec_def)

section \<open>The client\<close>

(* internal/qtransport/client.go:49-57 newLocalQUICTransport *)
definition newLocalQUICTransport :: "err + nat \<Rightarrow> handles \<Rightarrow> handles \<times> (err + nat)" where
  "newLocalQUICTransport listenUDP hs =
     (case listenUDP of
        Inl e \<Rightarrow> (hs, Inl e)
      | Inr uconn \<Rightarrow> (QuicTransport uconn # UdpSocket uconn # hs, Inr uconn))"

(* internal/qtransport/client.go:59-69 closeTransport *)
definition closeTransport :: "err option \<Rightarrow> err option \<Rightarrow> nat \<Rightarrow> handles \<Rightarrow> handles \<times> err option" where
  "closeTransport trErr connErr tr hs =
     (let h1 = removeAll (QuicTransport tr) hs; h2 = removeAll (UdpSocket tr) h1 in
      (h2, first_err trErr connErr))"

text \<open>The transports on their way to be closed, with their time. A goroutine waits for each of them, or
  for the client to be closed.\<close>

(* internal/qtransport/client.go:592-596 transportRetireGrace *)
definition transportRetireGrace :: int where
  "transportRetireGrace = 30 * second"

(* internal/qtransport/client.go:598-605 quicClient.retireTransport *)
definition retireTransport :: "int \<Rightarrow> nat \<Rightarrow> (int \<times> nat) list \<Rightarrow> (int \<times> nat) list" where
  "retireTransport now tr waiting = waiting @ [(now + transportRetireGrace, tr)]"

(* internal/qtransport/client.go:606-611 quicClient.retireTransport *)
definition retire_wake :: "int \<Rightarrow> bool \<Rightarrow> (int \<times> nat) list \<times> handles \<Rightarrow> (int \<times> nat) list \<times> handles" where
  "retire_wake now ctxDone wh =
     (let (waiting, hs) = wh; due = (\<lambda>w. ctxDone \<or> fst w \<le> now) in
      (filter (\<lambda>w. \<not> due w) waiting,
       fold (\<lambda>w hs. fst (closeTransport None None (snd w) hs)) (filter due waiting) hs))"

(* internal/qtransport/client.go:290-297 quicClient.connDead *)
definition connDead :: "(nat \<Rightarrow> bool) \<Rightarrow> quicClient \<Rightarrow> bool" where
  "connDead ended c = (case qc_conn c of None \<Rightarrow> False | Some conn \<Rightarrow> ended conn)"

text \<open>The path of a failed migration. Close panics when the connection ends between the check and the
  call; the panic is recovered.\<close>

datatype path_act = PathClose | LogPanic

(* internal/qtransport/client.go:568-582 closePath *)
definition closePath :: "bool \<Rightarrow> bool \<Rightarrow> path_act list" where
  "closePath ended panics = (if ended then [] else PathClose # (if panics then [LogPanic] else []))"

section \<open>The uid of a peer\<close>

datatype sockopt = SO_PEERCRED | LOCAL_PEERCRED

text \<open>The descriptor is a duplicate that File makes, and is closed when the function returns.\<close>

(* internal/netx/uds_linux.go:11-33 GetPeerUID *)
definition GetPeerUID :: "bool \<Rightarrow> err + nat \<Rightarrow> (nat \<Rightarrow> sockopt \<Rightarrow> err + nat) \<Rightarrow> handles \<Rightarrow> handles \<times> (err + nat)" where
  "GetPeerUID isUnixConn file getsockopt hs =
     (if \<not> isUnixConn then (hs, Inl (ErrorString ''not a Unix connection''))
      else
        (case file of
           Inl e \<Rightarrow> (hs, Inl (Wrapped ''failed to get file descriptor'' e))
         | Inr fd \<Rightarrow>
             let h1 = DupOf fd # hs in
             (removeAll (DupOf fd) h1,
              case getsockopt fd SO_PEERCRED of
                Inl e \<Rightarrow> Inl (Wrapped ''failed to get peer credentials'' e)
              | Inr uid \<Rightarrow> Inr uid)))"

(* internal/netx/uds_bsd.go:12-35 GetPeerUID *)
definition GetPeerUID_bsd :: "bool \<Rightarrow> err + nat \<Rightarrow> (nat \<Rightarrow> sockopt \<Rightarrow> err + nat) \<Rightarrow> handles \<Rightarrow> handles \<times> (err + nat)" where
  "GetPeerUID_bsd isUnixConn file getsockopt hs =
     (if \<not> isUnixConn then (hs, Inl (ErrorString ''not a Unix connection''))
      else
        (case file of
           Inl e \<Rightarrow> (hs, Inl (Wrapped ''failed to get file descriptor'' e))
         | Inr fd \<Rightarrow>
             let h1 = DupOf fd # hs in
             (removeAll (DupOf fd) h1,
              case getsockopt fd LOCAL_PEERCRED of
                Inl e \<Rightarrow> Inl (Wrapped ''failed to get peer credentials'' e)
              | Inr uid \<Rightarrow> Inr uid)))"

section \<open>Properties\<close>

text \<open>C31. A QUIC server that cannot be created, whatever fails, leaves nothing open; of one that was
  created, Close releases the listener, the transport and the socket whatever their errors, and reports
  the first of them.\<close>

theorem server_releases_its_socket:
  assumes "\<forall>addr u h. resolveUDPAddr a = Inr addr \<and> listenUDP addr = Inr u \<and> h \<in> set hs \<longrightarrow>
    h \<notin> {UdpSocket u, QuicTransport u, QuicListener u}"
  shows "case NewServer cr resolveUDPAddr listenUDP listen k a hs of
      (hs1, Inl e) \<Rightarrow> hs1 = hs
    | (hs1, Inr srv) \<Rightarrow> set hs \<subset> set hs1 \<and>
        (\<forall>x y z. case srv_Close x y z (srv_Start srv) hs1 of
           (s2, hs2, e) \<Rightarrow> hs2 = hs \<and> \<not> sk_started s2 \<and> (e = None \<longleftrightarrow> x = None \<and> y = None \<and> z = None) \<and>
             (e \<noteq> None \<longrightarrow> Some e = find (\<lambda>r. r \<noteq> None) [x, y, z]))"
proof (cases "resolveUDPAddr a")
  case (Inr addr)
  show ?thesis
  proof (cases "listenUDP addr")
    case u: (Inr u)
    have new: "UdpSocket u \<notin> set hs" "QuicTransport u \<notin> set hs" "QuicListener u \<notin> set hs"
      using assms Inr u by blast+
    show ?thesis
    proof (cases "ServerTLS cr k")
      case (Inl e)
      then show ?thesis by (simp add: NewServer_def NewServerFromPacketConn_def Inr u new)
    next
      case t: (Inr conf)
      show ?thesis
      proof (cases "listen u conf quicConfig")
        case None
        have "set hs \<subset> set (QuicListener u # QuicTransport u # UdpSocket u # hs)" using new by auto
        then show ?thesis
          by (simp add: NewServer_def NewServerFromPacketConn_def Inr u t None srv_Close_def srv_Start_def Let_def new)
            (simp add: first_err_def split: option.split)
      next
        case (Some e)
        then show ?thesis by (simp add: NewServer_def NewServerFromPacketConn_def Inr u t new)
      qed
    qed
  qed (simp add: NewServer_def Inr)
qed (simp add: NewServer_def)

definition demo_listen :: "nat \<Rightarrow> tls_Config \<Rightarrow> quic_Config \<Rightarrow> err option" where
  "demo_listen u conf q = None"

theorem server_releases_its_socket_witness:
  "\<exists>hs1 srv. NewServer plain_crypto (\<lambda>a. Inr a) (\<lambda>a. Inr 3) demo_listen [7] '':0'' [UdpSocket 1] = (hs1, Inr srv) \<and>
     UdpSocket 3 \<in> set hs1 \<and> fst (snd (srv_Close None (Some EOF) (Some UnexpectedEOF) (srv_Start srv) hs1)) = [UdpSocket 1] \<and>
     snd (snd (srv_Close None (Some EOF) (Some UnexpectedEOF) (srv_Start srv) hs1)) = Some EOF"
proof -
  obtain hs1 srv where new: "NewServer plain_crypto (\<lambda>a. Inr a) (\<lambda>a. Inr 3) demo_listen [7] '':0'' [UdpSocket 1] = (hs1, Inr srv)"
    "UdpSocket 3 \<in> set hs1"
    by (simp add: NewServer_def NewServerFromPacketConn_def ServerTLS_def tlsConfig_def deriveIdentity_def
        selfSignedCert_def plain_crypto_def demo_listen_def)
  have "\<forall>addr u h. Inr '':0'' = (Inr addr :: err + string) \<and> Inr 3 = (Inr u :: err + nat) \<and> h \<in> set [UdpSocket 1] \<longrightarrow>
      h \<notin> {UdpSocket u, QuicTransport u, QuicListener u}" by auto
  note server_releases_its_socket [of "\<lambda>a. Inr a" "'':0''" "\<lambda>a. Inr 3", OF this, of plain_crypto demo_listen "[7]"]
  then have all: "\<forall>x y z. case srv_Close x y z (srv_Start srv) hs1 of
      (s2, hs2, e) \<Rightarrow> hs2 = [UdpSocket 1] \<and> \<not> sk_started s2 \<and> (e = None \<longleftrightarrow> x = None \<and> y = None \<and> z = None) \<and>
        (e \<noteq> None \<longrightarrow> Some e = find (\<lambda>r. r \<noteq> None) [x, y, z])"
    unfolding new(1) by (simp only: prod.case sum.case) blast
  obtain s2 hs2 e where c: "srv_Close None (Some EOF) (Some UnexpectedEOF) (srv_Start srv) hs1 = (s2, hs2, e)" by (metis prod_cases3)
  have "hs2 = [UdpSocket 1] \<and> e = Some EOF"
    using all [THEN spec, THEN spec, THEN spec, of None "Some EOF" "Some UnexpectedEOF"] by (auto simp: c)
  then show ?thesis using new c by auto
qed

text \<open>On either system the daemon takes a connection of its socket for the owner's exactly when the
  kernel says so; the descriptor it asks through is not left open, whatever fails.\<close>

theorem owner_is_who_the_kernel_says:
  assumes "\<forall>fd. file = Inr fd \<longrightarrow> DupOf fd \<notin> set hs"
  shows "(authenticate uid (snd (GetPeerUID unix file getsockopt hs)) = (AwaitHello, []) \<longleftrightarrow>
      unix \<and> (\<exists>fd. file = Inr fd \<and> getsockopt fd SO_PEERCRED = Inr uid)) \<and>
    (authenticate uid (snd (GetPeerUID_bsd unix file getsockopt hs)) = (AwaitHello, []) \<longleftrightarrow>
      unix \<and> (\<exists>fd. file = Inr fd \<and> getsockopt fd LOCAL_PEERCRED = Inr uid)) \<and>
    fst (GetPeerUID unix file getsockopt hs) = hs \<and> fst (GetPeerUID_bsd unix file getsockopt hs) = hs"
  using assms
  by (auto simp: GetPeerUID_def GetPeerUID_bsd_def authenticate_def Let_def split: sum.splits if_splits)

theorem owner_is_who_the_kernel_says_witness:
  "authenticate 1000 (snd (GetPeerUID True (Inr 7) (\<lambda>fd opt. Inr 1000) [UdpSocket 7])) = (AwaitHello, [])"
  by (rule owner_is_who_the_kernel_says [of "Inr 7" "[UdpSocket 7]" 1000 True "\<lambda>fd opt. Inr 1000",
        THEN conjunct1, THEN iffD2]) simp_all

text \<open>A retired transport is closed after the grace, or at once when the client is closed.\<close>

lemma mem_close [simp]: "x \<in> set (fst (closeTransport a b tr hs)) \<longleftrightarrow> x \<in> set hs \<and> x \<noteq> QuicTransport tr \<and> x \<noteq> UdpSocket tr"
  by (auto simp: closeTransport_def Let_def)

lemma fold_close: "x \<in> set (fold (\<lambda>w hs. fst (closeTransport None None (snd w) hs)) ws hs) \<longleftrightarrow>
    x \<in> set hs \<and> (\<forall>w\<in>set ws. x \<noteq> QuicTransport (snd w) \<and> x \<noteq> UdpSocket (snd w))"
  by (induction ws arbitrary: hs) auto

theorem retired_transport_closed:
  assumes "(waiting', hs') = retire_wake now ctxDone (retireTransport t tr waiting, hs)"
    "ctxDone \<or> t + transportRetireGrace \<le> now"
  shows "QuicTransport tr \<notin> set hs' \<and> UdpSocket tr \<notin> set hs' \<and>
    (\<forall>u. u \<notin> snd ` set (retireTransport t tr waiting) \<and> UdpSocket u \<in> set hs \<longrightarrow> UdpSocket u \<in> set hs')"
  using assms by (fastforce simp: retire_wake_def retireTransport_def fold_close Let_def image_iff)

end
