(* ===== verification/Client_Exit.thy ===== *)
theory Client_Exit
  imports Client_Output QClient
begin

text \<open>
  The local terminal of the client (cmd/tezzer/main.go, terminal_linux.go, terminal_bsd.go): raw mode, where
  the log goes meanwhile, the goroutines of an attached client, what all of them write to the terminal on
  either descriptor, and the clean-up when run returns. The kernel's side of the terminal is a record of
  its flags; results of ioctls are arguments.
\<close>

section \<open>The terminal\<close>

text \<open>c_rest stands for the fields the program hands back as it got them.\<close>

record termios =
  c_oflag :: "32 word"
  c_rest :: bytes

text \<open>The numbers of the two requests, and the value of ONLCR, differ between systems. An ioctl that
  fails does nothing; the error of the second is not looked at.\<close>

datatype ioctl_request = TCGETS | TCSETS | TIOCGETA | TIOCSETA

(* cmd/tezzer/terminal_linux.go:12-20 restoreTerminalFlags *)
definition restoreTerminalFlags :: "32 word \<Rightarrow> (ioctl_request \<Rightarrow> err option) \<Rightarrow> termios \<Rightarrow> termios" where
  "restoreTerminalFlags ONLCR ioctl t =
     (if ioctl TCGETS = None
      then (let t1 = t\<lparr>c_oflag := or (c_oflag t) ONLCR\<rparr> in if ioctl TCSETS = None then t1 else t)
      else t)"

(* cmd/tezzer/terminal_bsd.go:12-20 restoreTerminalFlags *)
definition restoreTerminalFlags_bsd :: "32 word \<Rightarrow> (ioctl_request \<Rightarrow> err option) \<Rightarrow> termios \<Rightarrow> termios" where
  "restoreTerminalFlags_bsd ONLCR ioctl t =
     (if ioctl TIOCGETA = None
      then (let t1 = t\<lparr>c_oflag := or (c_oflag t) ONLCR\<rparr> in if ioctl TIOCSETA = None then t1 else t)
      else t)"

text \<open>term.MakeRaw, whose result is the argument, gives the flags as they were; -N does not touch the
  terminal.\<close>

(* cmd/tezzer/main.go:510-518 run *)
definition enter_raw :: "bool \<Rightarrow> (termios \<Rightarrow> err + termios) \<Rightarrow> termios \<Rightarrow> termios \<times> (err + termios option)" where
  "enter_raw isNoPTY makeRaw t =
     (if isNoPTY then (t, Inr None)
      else (case makeRaw t of
              Inl e \<Rightarrow> (t, Inl (Wrapped ''failed to set raw mode'' e))
            | Inr raw \<Rightarrow> (raw, Inr (Some t))))"

section \<open>In raw mode\<close>

datatype log_output = Old_output | Stderr_crlf | Stderr_crlf_and_file

(* cmd/tezzer/main.go:540-551 run *)
definition raw_log_output :: "bool \<Rightarrow> bool \<Rightarrow> bool \<Rightarrow> log_output" where
  "raw_log_output isNoPTY debug hasLogFile =
     (if isNoPTY then Old_output else if debug \<and> hasLogFile then Stderr_crlf_and_file else Stderr_crlf)"

text \<open>The status line is drawn at the top in inverse video, with the cursor saved around it; when it is
  cleared, a full-screen program may be asked to redraw (maybeRedrawAfterStatus).\<close>

datatype status_act = To_stderr bytes | Maybe_redraw

(* cmd/tezzer/main.go:552-556 run *)
definition draw_status :: "bytes \<Rightarrow> status_act list" where
  "draw_status msg =
     [To_stderr ([ESC] @ str_bytes ''[s'' @ [ESC] @ str_bytes ''[H'' @ [ESC] @ str_bytes ''[7m'' @ msg @
       [ESC] @ str_bytes ''[K'' @ [ESC] @ str_bytes ''[0m'' @ [ESC] @ str_bytes ''[u'')]"

(* cmd/tezzer/main.go:557-561 run *)
definition clear_status :: "status_act list" where
  "clear_status =
     [To_stderr ([ESC] @ str_bytes ''[s'' @ [ESC] @ str_bytes ''[H'' @ [ESC] @ str_bytes ''[K'' @ [ESC] @ str_bytes ''[u''),
      Maybe_redraw]"

datatype client_routine =
    Handle_stdin
  | Handle_server
  | Sample_rtt
  | Forward_listeners
  | Warn_forwarding
  | Log_remote_forward string
  | Warn_remote_forwarding
  | Warn_agent_forwarding

(* cmd/tezzer/main.go:589-612 run *)
definition client_routines :: "bool \<Rightarrow> nat \<Rightarrow> string list \<Rightarrow> string \<Rightarrow> client_routine list" where
  "client_routines isNoPTY forwards rforwards agentPath =
     (if isNoPTY then [] else [Handle_stdin]) @ [Handle_server, Sample_rtt] @
     (if forwards > 0 then [Forward_listeners, Warn_forwarding] else []) @
     (if rforwards = [] then [] else map Log_remote_forward rforwards @ [Warn_remote_forwarding]) @
     (if agentPath = '''' then [] else [Warn_agent_forwarding])"

section \<open>What is written to the terminal\<close>

text \<open>Stdout and stderr are the same terminal. tc_tty lists the writes on both in their order; tc_client is
  the state whose operations write to stdout and ask for status lines. TEZZER_STATUS=off draws none.\<close>

datatype tty_write = On_stdout bytes | On_stderr bytes

record tty_client =
  tc_client :: tclient
  tc_statusOff :: bool
  tc_tty :: "tty_write list"

fun status_write :: "status_act \<Rightarrow> tty_write list" where
  "status_write (To_stderr b) = [On_stderr b]"
| "status_write Maybe_redraw = []"

definition drawn :: "string \<Rightarrow> tty_write list" where
  "drawn msg = concat (map status_write (draw_status (str_bytes msg)))"

text \<open>An operation of the client: the status lines it asks for, then what it puts on stdout.\<close>

definition on_tty :: "(tclient \<Rightarrow> tclient) \<Rightarrow> tty_client \<Rightarrow> tty_client" where
  "on_tty f s =
     (let c = tc_client s; c' = f c;
          msgs = drop (length (status c)) (status c');
          out = drop (length (stdout c)) (stdout c') in
      s\<lparr>tc_client := c',
        tc_tty := tc_tty s @ (if tc_statusOff s then [] else concat (map drawn msgs)) @
          (if out = [] then [] else [On_stdout out])\<rparr>)"

definition to_stderr :: "bytes \<Rightarrow> tty_client \<Rightarrow> tty_client" where
  "to_stderr b s = s\<lparr>tc_tty := tc_tty s @ [On_stderr b]\<rparr>"

text \<open>A line of its own: CR LF, the text, CR LF.\<close>

definition notice :: "string \<Rightarrow> tty_client \<Rightarrow> tty_client" where
  "notice msg = to_stderr ([0x0D, 0x0A] @ str_bytes msg @ [0x0D, 0x0A])"

text \<open>The end of the session as each path tells it. The test and setting of sessionClosedNotified is one
  step, so that one of them prints.\<close>

(* cmd/tezzer/output.go:154-171 Client.handleServer *)
definition uds_on_tty :: "uds_msg \<Rightarrow> tty_client \<Rightarrow> tty_client" where
  "uds_on_tty m s =
     (let s1 = on_tty (\<lambda>c. fst (handle_uds_msg m c)) s in
      (case m of
         UdsNote kind text code \<Rightarrow>
           if kind = ''SESSION_CLOSED'' \<and> \<not> sessionClosedNotified (tc_client s)
           then notice (''[Tezzer] Session closed: '' @ text) s1 else s1
       | _ \<Rightarrow> s1))"

(* cmd/tezzer/connect.go:198-228 Client.startQUICTransport *)
definition gone_on_tty :: "string \<Rightarrow> int \<Rightarrow> tty_client \<Rightarrow> tty_client" where
  "gone_on_tty reason code s =
     (let s1 = on_tty (on_session_not_found reason code) s in
      if \<not> killing (tc_client s) \<and> HasPrefix reason ''SESSION_CLOSED:'' \<and> \<not> sessionClosedNotified (tc_client s)
      then notice (''[Tezzer] Session closed: '' @ TrimPrefix reason ''SESSION_CLOSED: '') s1
      else s1)"

(* cmd/tezzer/input.go:341-352 Client.handleStdin *)
definition detach_on_tty :: "tty_client \<Rightarrow> tty_client" where
  "detach_on_tty s =
     notice ''Detached from session.'' (on_tty (\<lambda>c. close_done (send_err ErrDetached (restoreTerminalModes c))) s)"

text \<open>killSession prints one of four lines, said, whatever became of the request.\<close>

(* cmd/tezzer/client.go:298-334 Client.killSession *)
definition kill_on_tty :: "string \<Rightarrow> tty_client \<Rightarrow> tty_client" where
  "kill_on_tty said s =
     on_tty (\<lambda>c. close_done (send_err ErrDetached c))
       (notice said (on_tty (\<lambda>c. (restoreTerminalModes c)\<lparr>killing := True\<rparr>) s))"

text \<open>A change of state of the QUIC transport draws a status line.\<close>

fun quic_on_tty :: "client_act \<Rightarrow> tty_client \<Rightarrow> tty_client" where
  "quic_on_tty (StateChange old new message) = on_tty (setStatusMessage (''[QUIC] '' @ message))"
| "quic_on_tty _ = (\<lambda>s. s)"

text \<open>What may be written while a client is attached: output on either path, notices, detaching and
  killing, status lines of any origin and their clearing, log lines (with CR LF), and the reset of the
  scroll region with its own status line.\<close>

datatype tty_op =
    Rendered "(nat \<times> bytes) list" bool
  | From_uds uds_msg
  | Not_found string int
  | Detached_here
  | Killed_here string
  | Quic_act client_act
  | Status_shown string
  | Status_cleared
  | Logged bytes
  | Scroll_reset

fun tty_on :: "tty_op \<Rightarrow> tty_client \<Rightarrow> tty_client" where
  "tty_on (Rendered chunks q) s = on_tty (renderOutput chunks q) s"
| "tty_on (From_uds m) s = uds_on_tty m s"
| "tty_on (Not_found reason code) s = gone_on_tty reason code s"
| "tty_on Detached_here s = detach_on_tty s"
| "tty_on (Killed_here said) s = kill_on_tty said s"
| "tty_on (Quic_act a) s = quic_on_tty a s"
| "tty_on (Status_shown m) s = on_tty (setStatusMessage m) s"
| "tty_on Status_cleared s = s\<lparr>tc_tty := tc_tty s @ concat (map status_write clear_status)\<rparr>"
| "tty_on (Logged line) s = to_stderr (replace_newlines line) s"
| "tty_on Scroll_reset s =
     s\<lparr>tc_tty := tc_tty s @ [On_stderr ([ESC] @ str_bytes ''[r''), On_stderr ([ESC] @ str_bytes ''[2J'' @ [ESC] @ str_bytes ''[H'')]
         @ drawn ''Scroll region reset''\<rparr>"

section \<open>The end of the run\<close>

datatype exit_act = Log_to_old_output | Close_transport | Log_line string | Close_log

text \<open>The deferred function, with what it does to client and terminal: closing the transport calls back
  for its last change of state. flags is restoreTerminalFlags of the system; restored is the error of
  term.Restore, which is not looked at.\<close>

(* cmd/tezzer/main.go:564-584 run *)
definition run_exit ::
  "bool \<Rightarrow> termios option \<Rightarrow> err option \<Rightarrow> (termios \<Rightarrow> termios) \<Rightarrow> bool \<Rightarrow> quicClient option \<Rightarrow> tty_client \<Rightarrow> termios \<Rightarrow>
   tty_client \<times> termios \<times> exit_act list"
where
  "run_exit isNoPTY oldState restored flags hasLogFile transport s t =
     (let acts = Log_to_old_output # (if transport = None then [] else [Close_transport]);
          s1 = (case transport of None \<Rightarrow> s | Some q \<Rightarrow> fold quic_on_tty (snd (qc_Close q)) s);
          s2 = (if isNoPTY then s1 else on_tty restoreTerminalModes s1);
          t1 = (if isNoPTY then t
                else (case oldState of None \<Rightarrow> t | Some old \<Rightarrow> if restored = None then old else t));
          t2 = (if isNoPTY then t1 else flags t1) in
      (s2, t2, acts @ (if hasLogFile then [Log_line ''tezzer client exited'', Close_log] else [])))"

section \<open>What is left behind\<close>

text \<open>Once output is stopped the terminal has had one reset, and nothing on stdout since; before that,
  the client is rendering.\<close>

fun is_stderr :: "tty_write \<Rightarrow> bool" where
  "is_stderr (On_stderr b) = True"
| "is_stderr (On_stdout b) = False"

definition shown :: "tty_write list \<Rightarrow> bytes" where
  "shown ws = concat (map (\<lambda>w. case w of On_stdout b \<Rightarrow> b | On_stderr b \<Rightarrow> []) ws)"

lemma shown_simps [simp]:
  "shown [] = []" "shown (On_stdout b # ws) = b @ shown ws" "shown (On_stderr b # ws) = shown ws"
  "shown (xs @ ys) = shown xs @ shown ys"
  by (simp_all add: shown_def)

lemma shown_stderr: "list_all is_stderr ws \<Longrightarrow> shown ws = []"
  by (induction ws rule: list.induct) (auto elim: is_stderr.elims)

definition reset_done :: "tty_write list \<Rightarrow> bool" where
  "reset_done ws \<longleftrightarrow> (\<exists>before after. ws = before @ [On_stdout terminalModeReset] @ after \<and> list_all is_stderr after)"

lemma reset_done_append: "reset_done ws \<Longrightarrow> list_all is_stderr vs \<Longrightarrow> reset_done (ws @ vs)"
  by (fastforce simp: reset_done_def)

definition tty_inv :: "tty_client \<Rightarrow> bool" where
  "tty_inv s \<longleftrightarrow> \<not> noPTY (tc_client s) \<and> shown (tc_tty s) = stdout (tc_client s) \<and>
     (outputStopped (tc_client s) \<longrightarrow> reset_done (tc_tty s))"

text \<open>What an operation of the client may do to it: write nothing, output while it is not stopped, or the
  reset that stops it.\<close>

definition well_behaved :: "tclient \<Rightarrow> tclient \<Rightarrow> bool" where
  "well_behaved c c' \<longleftrightarrow> noPTY c' = noPTY c \<and>
     (outputStopped c' = outputStopped c \<and> stdout c' = stdout c \<or>
      \<not> outputStopped c \<and> \<not> outputStopped c' \<and> (\<exists>b. stdout c' = stdout c @ b) \<or>
      \<not> outputStopped c \<and> outputStopped c' \<and> stdout c' = stdout c @ terminalModeReset)"

lemma drawn_stderr: "list_all is_stderr (drawn m)" "list_all is_stderr (concat (map drawn ms))"
  "list_all is_stderr (concat (map status_write clear_status))"
  by (auto simp: drawn_def draw_status_def clear_status_def list_all_iff)

lemma reset_nonempty: "terminalModeReset \<noteq> []"
  by (simp add: terminalModeReset_def)

lemma on_tty_inv:
  assumes "tty_inv s" "well_behaved (tc_client s) (f (tc_client s))"
  shows "tty_inv (on_tty f s)"
proof -
  let ?c = "tc_client s" and ?msgs = "drop (length (status (tc_client s))) (status (f (tc_client s)))"
  define ds where "ds = (if tc_statusOff s then [] else concat (map drawn ?msgs))"
  have ds: "list_all is_stderr ds" by (simp add: ds_def drawn_stderr)
  have e: "on_tty f s = s\<lparr>tc_client := f ?c, tc_tty := tc_tty s @ ds @
      (if drop (length (stdout ?c)) (stdout (f ?c)) = [] then [] else [On_stdout (drop (length (stdout ?c)) (stdout (f ?c)))])\<rparr>"
    by (simp add: on_tty_def Let_def ds_def)
  have sh: "shown (tc_tty (on_tty f s)) = stdout (f ?c)"
    using assms shown_stderr [OF ds] by (auto simp: e tty_inv_def well_behaved_def)
  from assms(2) consider (same) "outputStopped (f ?c) = outputStopped ?c" "stdout (f ?c) = stdout ?c"
    | (out) "\<not> outputStopped (f ?c)"
    | (reset) "stdout (f ?c) = stdout ?c @ terminalModeReset"
    unfolding well_behaved_def by blast
  then have "outputStopped (f ?c) \<longrightarrow> reset_done (tc_tty (on_tty f s))"
  proof cases
    case same
    then show ?thesis using assms(1) reset_done_append [OF _ ds] by (simp add: e tty_inv_def)
  next
    case reset
    then have "tc_tty (on_tty f s) = (tc_tty s @ ds) @ [On_stdout terminalModeReset] @ []"
      using reset_nonempty by (simp add: e)
    then show ?thesis unfolding reset_done_def using list.pred_inject(1) by blast
  qed simp
  with sh assms show ?thesis by (simp add: tty_inv_def well_behaved_def e)
qed

lemma stderr_inv: "tty_inv s \<Longrightarrow> list_all is_stderr vs \<Longrightarrow> tty_inv (s\<lparr>tc_tty := tc_tty s @ vs\<rparr>)"
  by (simp add: tty_inv_def shown_stderr reset_done_append)

lemma notice_inv: "tty_inv s \<Longrightarrow> tty_inv (notice msg s)" "tty_inv s \<Longrightarrow> tty_inv (to_stderr b s)"
  by (simp_all add: notice_def to_stderr_def stderr_inv)

lemma wb_same: "\<lbrakk>noPTY c' = noPTY c; outputStopped c' = outputStopped c; stdout c' = stdout c\<rbrakk> \<Longrightarrow> well_behaved c c'"
  by (simp add: well_behaved_def)

lemma wb_trans_same: "well_behaved c c' \<Longrightarrow> well_behaved c' c'' \<Longrightarrow> stdout c' = stdout c \<Longrightarrow>
    outputStopped c' = outputStopped c \<Longrightarrow> well_behaved c c''"
  by (auto simp: well_behaved_def)

lemma wb_then_same: "well_behaved c c' \<Longrightarrow> noPTY c'' = noPTY c' \<Longrightarrow> outputStopped c'' = outputStopped c' \<Longrightarrow>
    stdout c'' = stdout c' \<Longrightarrow> well_behaved c c''"
  by (simp add: well_behaved_def)

lemma wb_after_same: "well_behaved c' c'' \<Longrightarrow> noPTY c' = noPTY c \<Longrightarrow> outputStopped c' = outputStopped c \<Longrightarrow>
    stdout c' = stdout c \<Longrightarrow> well_behaved c c''"
  by (simp add: well_behaved_def)

lemma wb_restore: "\<not> noPTY c \<Longrightarrow> well_behaved c (restoreTerminalModes c)"
  by (simp add: well_behaved_def restoreTerminalModes_def Let_def)

lemma render_loop_kept:
  "noPTY (snd (snd (render_loop q chunks f buf c))) = noPTY c \<and>
   outputStopped (snd (snd (render_loop q chunks f buf c))) = outputStopped c \<and>
   stdout (snd (snd (render_loop q chunks f buf c))) = stdout c"
  by (induction q chunks f buf c rule: render_loop.induct) simp_all

lemma wb_render: "well_behaved c (renderOutput chunks q c)"
  using render_loop_kept [of q chunks "renderedSeq c" "[]" c]
  by (auto simp: well_behaved_def renderOutput_def writeOutput_def split: prod.split)

lemma send_err_frame [simp]: "noPTY (send_err e c) = noPTY c" "outputStopped (send_err e c) = outputStopped c"
  "stdout (send_err e c) = stdout c"
  by (simp_all add: send_err_def)

lemma code_frame [simp]: "noPTY (noteSessionExitCode n c) = noPTY c"
  "outputStopped (noteSessionExitCode n c) = outputStopped c" "stdout (noteSessionExitCode n c) = stdout c"
  by (simp_all add: noteSessionExitCode_def)

definition announced :: "tclient \<Rightarrow> tclient" where
  "announced c = (if sessionClosedNotified c then c else restoreTerminalModes (c\<lparr>sessionClosedNotified := True\<rparr>))"

lemma wb_announced:
  assumes "\<not> noPTY c'" "noPTY c' = noPTY c" "outputStopped c' = outputStopped c" "stdout c' = stdout c"
    "noPTY c'' = noPTY (announced c')" "outputStopped c'' = outputStopped (announced c')" "stdout c'' = stdout (announced c')"
  shows "well_behaved c c''"
proof -
  have "well_behaved c' (announced c')"
    using assms(1) by (auto simp: announced_def intro: wb_same wb_after_same [OF wb_restore])
  then show ?thesis using wb_then_same [OF wb_after_same] assms by metis
qed

lemma wb_uds:
  assumes "\<not> noPTY c"
  shows "well_behaved c (fst (handle_uds_msg m c))"
proof (cases m)
  case (UdsOutput n d)
  let ?c1 = "(if \<not> ct c \<and> lastSeq c > 0 \<and> n > lastSeq c + 1
      then setStatusMessage (''UDS: '' @ show_nat (n - lastSeq c - 1) @ '' messages lost (continuing)'') c else c)\<lparr>lastSeq := n\<rparr>"
  have "well_behaved c (renderOutput [(n, d)] False ?c1)"
    by (rule wb_after_same [OF wb_render]) (simp_all add: setStatusMessage_def)
  then show ?thesis by (simp add: UdsOutput Let_def)
next
  case (UdsNote kind words code)
  define c1 where "c1 = (case code of None \<Rightarrow> c | Some n \<Rightarrow> noteSessionExitCode n c)"
  have c1: "noPTY c1 = noPTY c" "outputStopped c1 = outputStopped c" "stdout c1 = stdout c"
    by (simp_all add: c1_def split: option.split)
  show ?thesis
  proof (cases "kind = ''SESSION_CLOSED''")
    case True
    then have "fst (handle_uds_msg m c) = close_done (announced c1)"
      by (simp add: UdsNote c1_def announced_def Let_def del: if_cancel)
    then show ?thesis using assms c1 by (intro wb_announced [of c1]) (simp_all add: close_done_def)
  next
    case False
    then show ?thesis by (auto simp: UdsNote setStatusMessage_def intro: wb_same)
  qed
qed (auto simp: Let_def close_done_def intro: wb_same)

lemma wb_gone:
  assumes "\<not> noPTY c"
  shows "well_behaved c (on_session_not_found reason code c)"
proof (cases "killing c \<or> \<not> HasPrefix reason ''SESSION_CLOSED:''")
  case True
  then show ?thesis by (auto simp: on_session_not_found_def intro: wb_same)
next
  case False
  then have "on_session_not_found reason code c = send_err ErrDetached (announced (noteSessionExitCode code c))"
    by (simp add: on_session_not_found_def announced_def Let_def)
  then show ?thesis using assms by (intro wb_announced [of "noteSessionExitCode code c"]) simp_all
qed

lemma tty_on_inv:
  assumes "tty_inv s"
  shows "tty_inv (tty_on op s)"
proof -
  have n: "\<not> noPTY (tc_client s)" using assms by (simp add: tty_inv_def)
  have restored: "tty_inv (on_tty g s)" if "\<And>c. noPTY (g c) = noPTY (restoreTerminalModes c)"
      "\<And>c. outputStopped (g c) = outputStopped (restoreTerminalModes c)" "\<And>c. stdout (g c) = stdout (restoreTerminalModes c)" for g
    using on_tty_inv [OF assms wb_then_same [OF wb_restore [OF n]]] that by metis
  have same: "tty_inv (on_tty g s')" if "tty_inv s'" "\<And>c. noPTY (g c) = noPTY c" "\<And>c. outputStopped (g c) = outputStopped c"
      "\<And>c. stdout (g c) = stdout c" for g s'
    using on_tty_inv [OF that(1) wb_same] that(2-4) by metis
  show ?thesis
  proof (cases op)
    case (From_uds m)
    have "tty_inv (on_tty (\<lambda>c. fst (handle_uds_msg m c)) s)" using assms n by (intro on_tty_inv wb_uds)
    then show ?thesis by (auto simp: From_uds uds_on_tty_def Let_def notice_inv split: uds_msg.split)
  next
    case (Not_found reason code)
    have "tty_inv (on_tty (on_session_not_found reason code) s)" using assms n by (intro on_tty_inv wb_gone)
    then show ?thesis by (simp add: Not_found gone_on_tty_def Let_def notice_inv)
  next
    case Detached_here
    show ?thesis unfolding Detached_here tty_on.simps detach_on_tty_def
      by (intro notice_inv restored) (simp_all add: close_done_def)
  next
    case (Killed_here said)
    show ?thesis unfolding Killed_here tty_on.simps kill_on_tty_def
      by (rule same, rule notice_inv, rule restored) (simp_all add: close_done_def)
  next
    case (Quic_act a)
    show ?thesis unfolding Quic_act by (cases a) (simp_all add: assms same setStatusMessage_def)
  qed (use assms same in \<open>simp_all add: on_tty_inv wb_render setStatusMessage_def notice_inv stderr_inv drawn_stderr
    del: append_assoc\<close>)
qed

text \<open>Closing the transport after the reset adds status lines at most.\<close>

lemma quic_inv: "tty_inv s \<Longrightarrow> tty_inv (fold quic_on_tty as s)"
proof (induction as arbitrary: s)
  case (Cons a as)
  from Cons.IH [of "quic_on_tty a s"] tty_on_inv [OF Cons.prems, of "Quic_act a"] show ?case by simp
qed simp

text \<open>C32. However the session and the connections end: when run has returned, the flags of the terminal are
  those from before raw mode, with the conversion of line feeds on, and the log goes where it went before.
  On the terminal, which stdout and stderr share, what was put on stdout is the output of the session
  followed by one reset of the modes, and nothing of the session is rendered any more. Only stderr is
  written after the reset: the notice of the end, status lines, log lines. And when the run ends without
  such a notice (a signal, a lost connection) the reset is the last thing of all.\<close>

theorem terminal_left_in_order:
  assumes "enter_raw False makeRaw t0 = (t1, Inr old)"
    "tc_client s0 = tclient0" "tc_tty s0 = []" "s = fold tty_on ops s0"
    "run_exit False old None (restoreTerminalFlags lf ioctl) hasLogFile transport s t = (s', t', acts)"
  shows "t' = restoreTerminalFlags lf ioctl t0 \<and> c_rest t' = c_rest t0 \<and> hd acts = Log_to_old_output \<and>
    (\<exists>before after. tc_tty s' = before @ [On_stdout terminalModeReset] @ after \<and>
       (\<forall>w\<in>set after. \<exists>b. w = On_stderr b) \<and> (\<not> outputStopped (tc_client s) \<longrightarrow> after = []) \<and>
       stdout (tc_client s') = shown before @ terminalModeReset) \<and>
    (\<forall>chunks q. renderOutput chunks q (tc_client s') = tc_client s')"
proof -
  have old: "old = Some t0" using assms(1) by (auto simp: enter_raw_def split: sum.splits)
  have "tty_inv s0" using assms(2,3) by (simp add: tty_inv_def tclient0_def)
  then have i: "tty_inv s" unfolding assms(4) by (induction ops arbitrary: s0) (simp_all add: tty_on_inv del: tty_on.simps)
  define s1 where "s1 = (case transport of None \<Rightarrow> s | Some q \<Rightarrow> fold quic_on_tty (snd (qc_Close q)) s)"
  have i1: "tty_inv s1" using i by (simp add: s1_def quic_inv split: option.split)
  have s': "s' = on_tty restoreTerminalModes s1" using assms(5) by (simp add: run_exit_def Let_def s1_def)
  have i': "tty_inv s'" unfolding s' using i1 by (intro on_tty_inv wb_restore) (simp_all add: tty_inv_def)
  have stop: "outputStopped (tc_client s')"
    by (simp add: s' on_tty_def Let_def restoreTerminalModes_def)
  have same: "outputStopped (tc_client s1) = outputStopped (tc_client s)"
  proof -
    have "outputStopped (tc_client (quic_on_tty a s)) = outputStopped (tc_client s)" for a s
      by (cases a) (simp_all add: on_tty_def Let_def setStatusMessage_def)
    then have "outputStopped (tc_client (fold quic_on_tty as s)) = outputStopped (tc_client s)" for as s
      by (induction as arbitrary: s) simp_all
    then show ?thesis by (simp add: s1_def split: option.split)
  qed
  obtain before after where ba: "tc_tty s' = before @ [On_stdout terminalModeReset] @ after" "list_all is_stderr after"
    "\<not> outputStopped (tc_client s) \<longrightarrow> after = []"
  proof (cases "outputStopped (tc_client s)")
    case True
    then show thesis using i' stop that unfolding tty_inv_def reset_done_def by blast
  next
    case False
    then have "restoreTerminalModes (tc_client s1) =
        (tc_client s1)\<lparr>outputStopped := True, stdout := stdout (tc_client s1) @ terminalModeReset\<rparr>"
      using same i1 by (simp add: restoreTerminalModes_def tty_inv_def Let_def)
    then have "tc_tty s' = tc_tty s1 @ [On_stdout terminalModeReset] @ []"
      using reset_nonempty by (simp add: s' on_tty_def Let_def)
    then show thesis using that [of "tc_tty s1" "[]"] by simp
  qed
  have "stdout (tc_client s') = shown before @ terminalModeReset"
    using i' ba shown_stderr [OF ba(2)] by (simp add: tty_inv_def flip: ba(1))
  moreover have "\<forall>w\<in>set after. \<exists>b. w = On_stderr b" using ba(2) by (auto simp: list_all_iff elim: is_stderr.elims)
  moreover have "t' = restoreTerminalFlags lf ioctl t0 \<and> hd acts = Log_to_old_output"
    using assms(5) old by (auto simp: run_exit_def Let_def)
  ultimately show ?thesis using ba stop by (auto simp: renderOutput_def restoreTerminalFlags_def Let_def)
qed

text \<open>After a detach the notice is not the end: closing the transport draws a status line over the top of
  the user's screen, and the program ends before the three seconds after which it would be cleared.\<close>

definition attached_tty :: tty_client where
  "attached_tty = \<lparr>tc_client = tclient0, tc_statusOff = False, tc_tty = []\<rparr>"

definition connected_quic :: quicClient where
  "connected_quic = (NewClient ''h:1'' 7 ''s1'')\<lparr>qc_state := StateConnected\<rparr>"

lemma closing_draws: "snd (qc_Close connected_quic) = [StateChange StateConnected StateClosed ''closed'']"
  by (simp add: qc_Close_def connected_quic_def NewClient_def setState_def)

theorem detach_leaves_status_line:
  "last (tc_tty (fst (run_exit False (Some t0) None flags False (Some connected_quic) (detach_on_tty attached_tty) t))) =
     last (drawn ''[QUIC] closed'') \<and>
   On_stderr ([0x0D, 0x0A] @ str_bytes ''Detached from session.'' @ [0x0D, 0x0A]) \<in>
     set (tc_tty (detach_on_tty attached_tty))"
  by (simp add: run_exit_def Let_def closing_draws detach_on_tty_def notice_def to_stderr_def on_tty_def attached_tty_def
      tclient0_def restoreTerminalModes_def setStatusMessage_def close_done_def send_err_def drawn_def draw_status_def)

lemma terminal_left_in_order_witness:
  "fst (snd (run_exit False (Some \<lparr>c_oflag = 1, c_rest = [9]\<rparr>) None (restoreTerminalFlags 4 (\<lambda>r. None)) False
     (Some connected_quic) (fold tty_on [Rendered [(1, [104])] True, Detached_here] attached_tty) \<lparr>c_oflag = 0, c_rest = [3]\<rparr>)) =
   \<lparr>c_oflag = 5, c_rest = [9]\<rparr>"
proof -
  let ?t0 = "\<lparr>c_oflag = 1, c_rest = [9]\<rparr>" and ?raw = "\<lparr>c_oflag = 0, c_rest = [3]\<rparr>"
  let ?ops = "[Rendered [(1, [104])] True, Detached_here]"
  have "enter_raw False (\<lambda>t. Inr ?raw) ?t0 = (?raw, Inr (Some ?t0))" by (simp add: enter_raw_def)
  moreover have "tc_client attached_tty = tclient0" "tc_tty attached_tty = []" by (simp_all add: attached_tty_def)
  ultimately have "fst (snd (run_exit False (Some ?t0) None (restoreTerminalFlags 4 (\<lambda>r. None)) False
     (Some connected_quic) (fold tty_on ?ops attached_tty) ?raw)) = restoreTerminalFlags 4 (\<lambda>r. None) ?t0"
    using terminal_left_in_order [OF _ _ _ refl, of "\<lambda>t. Inr ?raw" ?t0 ?raw "Some ?t0" attached_tty 4 "\<lambda>r. None" False
        "Some connected_quic" ?ops ?raw] by (metis prod.collapse)
  then show ?thesis by (simp add: restoreTerminalFlags_def)
qed

text \<open>With -N the flags are not touched, and nothing is put on stdout.\<close>

lemma no_pty_leaves_terminal:
  "enter_raw True makeRaw t = (t, Inr None) \<and> fst (snd (run_exit True old r flags hasLogFile transport s t)) = t \<and>
   stdout (tc_client (fst (run_exit True old r flags hasLogFile transport s t))) = stdout (tc_client s)"
proof -
  have "stdout (tc_client (quic_on_tty a s)) = stdout (tc_client s)" for a s
    by (cases a) (simp_all add: on_tty_def Let_def setStatusMessage_def)
  then have "stdout (tc_client (fold quic_on_tty as s)) = stdout (tc_client s)" for as s
    by (induction as arbitrary: s) simp_all
  then show ?thesis by (simp add: enter_raw_def run_exit_def Let_def split: option.split)
qed

end
