(* ===== verification/Relay.thy ===== *)
theory Relay
  imports Prelude "HOL-Library.Sublist"
begin

text \<open>
  The relays between a QUIC stream and a local connection: forwardPipe of both ends of the transport
  (internal/qtransport/forward.go), pipeForward of the session's listeners (internal/session/rforward.go,
  agent.go) and the client's -L connections (cmd/tezzer/forward.go). Each runs two io.Copy loops and
  differs in what it closes at their ends. Reads and writes of the two ends are events in any order.
\<close>

section \<open>Copying\<close>

datatype read_res = Data bytes | Eof | ReadFails

datatype write_res = Wrote | WroteSome nat

datatype copy_end = CopyDone | CopyReadErr | CopyWriteErr

text \<open>io.Copy: cp_read is what was read, cp_out what was written.\<close>

record copying =
  cp_read :: bytes
  cp_out :: bytes
  cp_end :: "copy_end option"

definition copy_start :: copying where
  "copy_start = \<lparr>cp_read = [], cp_out = [], cp_end = None\<rparr>"

fun copy_step :: "read_res \<Rightarrow> write_res \<Rightarrow> copying \<Rightarrow> copying" where
  "copy_step (Data b) Wrote k = k\<lparr>cp_read := cp_read k @ b, cp_out := cp_out k @ b\<rparr>"
| "copy_step (Data b) (WroteSome n) k =
     k\<lparr>cp_read := cp_read k @ b, cp_out := cp_out k @ take n b, cp_end := Some CopyWriteErr\<rparr>"
| "copy_step Eof _ k = k\<lparr>cp_end := Some CopyDone\<rparr>"
| "copy_step ReadFails _ k = k\<lparr>cp_end := Some CopyReadErr\<rparr>"

section \<open>The two ends\<close>

text \<open>The receiving half of a stream holds its resources until its end was read, or it was cancelled;
  the sending half until it was finished or cancelled.\<close>

datatype recv_half = RecvOpen | RecvAtEnd | RecvCancelled

datatype send_half = SendOpen | SendFin | SendCancelled

text \<open>up copies from the stream to the connection, down from the connection to the stream.\<close>

record pipe =
  pp_up :: copying
  pp_down :: copying
  pp_recv :: recv_half
  pp_send :: send_half
  pp_connShut :: bool
  pp_connClosed :: bool
  pp_toConn :: nat
  pp_fromConn :: nat

definition new_pipe :: pipe where
  "new_pipe = \<lparr>pp_up = copy_start, pp_down = copy_start, pp_recv = RecvOpen, pp_send = SendOpen,
     pp_connShut = False, pp_connClosed = False, pp_toConn = 0, pp_fromConn = 0\<rparr>"

definition CancelRead :: "pipe \<Rightarrow> pipe" where
  "CancelRead p = (if pp_recv p = RecvOpen then p\<lparr>pp_recv := RecvCancelled\<rparr> else p)"

definition CancelWrite :: "pipe \<Rightarrow> pipe" where
  "CancelWrite p = (if pp_send p = SendOpen then p\<lparr>pp_send := SendCancelled\<rparr> else p)"

text \<open>Close of a stream finishes its sending half only.\<close>

definition stream_Close :: "pipe \<Rightarrow> pipe" where
  "stream_Close p = (if pp_send p = SendOpen then p\<lparr>pp_send := SendFin\<rparr> else p)"

(* internal/qtransport/forward.go:241-245 forwardStream.Close *)
definition forwardStream_Close :: "pipe \<Rightarrow> pipe" where
  "forwardStream_Close p = stream_Close (CancelRead p)"

text \<open>Half-closing a connection is told apart from closing it: pp_connShut is the end that CloseWrite
  announces. A Close ends the connection for its peer as well, and takes its own reads and writes away.\<close>

definition conn_CloseWrite :: "pipe \<Rightarrow> pipe" where
  "conn_CloseWrite p = p\<lparr>pp_connShut := True\<rparr>"

definition conn_Close :: "pipe \<Rightarrow> pipe" where
  "conn_Close p = p\<lparr>pp_connClosed := True\<rparr>"

section \<open>The relay loop\<close>

text \<open>What a relay does when a copy has ended, and when both have.\<close>

record relay_ops =
  ro_up_end :: "copy_end \<Rightarrow> nat \<Rightarrow> pipe \<Rightarrow> pipe"
  ro_down_end :: "copy_end \<Rightarrow> nat \<Rightarrow> pipe \<Rightarrow> pipe"
  ro_finish :: "pipe \<Rightarrow> pipe"

datatype pipe_event = UpRead read_res write_res | DownRead read_res write_res

definition finished :: "pipe \<Rightarrow> bool" where
  "finished p \<longleftrightarrow> cp_end (pp_up p) \<noteq> None \<and> cp_end (pp_down p) \<noteq> None"

definition finish_if :: "relay_ops \<Rightarrow> pipe \<Rightarrow> pipe" where
  "finish_if ops p = (if finished p then ro_finish ops p else p)"

text \<open>A closed connection, or a receiving half cancelled on this side, gives no more data and takes none.\<close>

fun relay_step :: "relay_ops \<Rightarrow> pipe_event \<Rightarrow> pipe \<Rightarrow> pipe" where
  "relay_step ops (UpRead r w) p =
     (if cp_end (pp_up p) \<noteq> None then p
      else
        let r' = (if pp_recv p = RecvCancelled then ReadFails else r);
            w' = (if pp_connClosed p then WroteSome 0 else w);
            k = copy_step r' w' (pp_up p);
            p1 = p\<lparr>pp_up := k,
                   pp_recv := (if pp_recv p = RecvOpen \<and> (r' = Eof \<or> r' = ReadFails) then RecvAtEnd else pp_recv p)\<rparr> in
        (case cp_end k of
           None \<Rightarrow> p1
         | Some e \<Rightarrow> finish_if ops (ro_up_end ops e (length (cp_out k)) p1)))"
| "relay_step ops (DownRead r w) p =
     (if cp_end (pp_down p) \<noteq> None then p
      else
        let k = copy_step (if pp_connClosed p then ReadFails else r) w (pp_down p);
            p1 = p\<lparr>pp_down := k\<rparr> in
        (case cp_end k of
           None \<Rightarrow> p1
         | Some e \<Rightarrow> finish_if ops (ro_down_end ops e (length (cp_out k)) p1)))"

definition relay :: "relay_ops \<Rightarrow> pipe_event list \<Rightarrow> pipe" where
  "relay ops es = fold (relay_step ops) es new_pipe"

section \<open>The three relays\<close>

(* internal/qtransport/forward.go:169-199 forwardPipe *)
definition forwardPipe :: relay_ops where
  "forwardPipe =
     \<lparr>ro_up_end = (\<lambda>e n p.
        let p1 = p\<lparr>pp_toConn := (pp_toConn p + n) mod 2 ^ 64\<rparr> in
        if e = CopyDone then conn_CloseWrite p1 else conn_Close p1),
      ro_down_end = (\<lambda>e n p.
        let p1 = p\<lparr>pp_fromConn := (pp_fromConn p + n) mod 2 ^ 64\<rparr> in
        if e = CopyDone then stream_Close p1 else CancelWrite p1),
      ro_finish = conn_Close\<rparr>"

text \<open>pipeForward and its callers, which close both ends when it returns. It counts the bytes of the
  connection as those sent to the peer.\<close>

(* internal/session/rforward.go:431-462 pipeForward *)
definition pipeForward :: relay_ops where
  "pipeForward =
     \<lparr>ro_up_end = (\<lambda>e n p.
        let p1 = p\<lparr>pp_toConn := (pp_toConn p + n) mod 2 ^ 64\<rparr> in
        if e = CopyDone then conn_CloseWrite p1 else conn_Close p1),
      ro_down_end = (\<lambda>e n p.
        let p1 = p\<lparr>pp_fromConn := (pp_fromConn p + n) mod 2 ^ 64\<rparr> in
        if e = CopyDone then stream_Close p1 else forwardStream_Close p1),
      ro_finish = (\<lambda>p. conn_Close (forwardStream_Close p))\<rparr>"

text \<open>A connection to a -L listener; its bytes are not counted.\<close>

(* cmd/tezzer/forward.go:154-180 Client.handleForwardConn *)
definition handleForwardConn :: relay_ops where
  "handleForwardConn =
     \<lparr>ro_up_end = (\<lambda>e n p. if e = CopyDone then conn_CloseWrite p else conn_Close p),
      ro_down_end = (\<lambda>e n p. if e = CopyDone then stream_Close p else forwardStream_Close p),
      ro_finish = (\<lambda>p. forwardStream_Close (conn_Close p))\<rparr>"

section \<open>What every relay keeps\<close>

text \<open>A relay touches only the ends and the counters when a copy ends, shuts the connection for writing
  only after the end of the stream was read, and finishes the stream only after the end of the
  connection was.\<close>

definition copies :: "pipe \<Rightarrow> copying \<times> copying" where
  "copies p = (pp_up p, pp_down p)"

text \<open>A step of either copy: nothing when it is over, else one step of io.Copy, with the end handled.\<close>

lemma up_step_cases [case_names over goes ends]:
  obtains "relay_step ops (UpRead r w) p = p"
    | r' w' k x where "cp_end (pp_up p) = None" "k = copy_step r' w' (pp_up p)" "cp_end k = None"
        "relay_step ops (UpRead r w) p = p\<lparr>pp_up := k, pp_recv := x\<rparr>"
    | r' w' k x e n where "cp_end (pp_up p) = None" "k = copy_step r' w' (pp_up p)" "cp_end k = Some e"
        "relay_step ops (UpRead r w) p = finish_if ops (ro_up_end ops e n (p\<lparr>pp_up := k, pp_recv := x\<rparr>))"
proof (cases "cp_end (pp_up p)")
  case None
  define r' where "r' = (if pp_recv p = RecvCancelled then ReadFails else r)"
  define w' where "w' = (if pp_connClosed p then WroteSome 0 else w)"
  define k where "k = copy_step r' w' (pp_up p)"
  define x where "x = (if pp_recv p = RecvOpen \<and> (r' = Eof \<or> r' = ReadFails) then RecvAtEnd else pp_recv p)"
  have s: "relay_step ops (UpRead r w) p = (case cp_end k of None \<Rightarrow> p\<lparr>pp_up := k, pp_recv := x\<rparr>
      | Some e \<Rightarrow> finish_if ops (ro_up_end ops e (length (cp_out k)) (p\<lparr>pp_up := k, pp_recv := x\<rparr>)))"
    by (simp only: relay_step.simps None Let_def r'_def w'_def k_def x_def simp_thms if_False)
  show thesis
  proof (cases "cp_end k")
    case None
    then show thesis using that(2) [OF \<open>cp_end (pp_up p) = None\<close> k_def] s by simp
  next
    case (Some e)
    then show thesis using that(3) [OF \<open>cp_end (pp_up p) = None\<close> k_def] s by simp
  qed
qed (use that(1) in simp)

lemma down_step_cases [case_names over goes ends]:
  obtains "relay_step ops (DownRead r w) p = p"
    | r' k where "cp_end (pp_down p) = None" "k = copy_step r' w (pp_down p)" "cp_end k = None"
        "relay_step ops (DownRead r w) p = p\<lparr>pp_down := k\<rparr>"
    | r' k e n where "cp_end (pp_down p) = None" "k = copy_step r' w (pp_down p)" "cp_end k = Some e"
        "relay_step ops (DownRead r w) p = finish_if ops (ro_down_end ops e n (p\<lparr>pp_down := k\<rparr>))"
proof (cases "cp_end (pp_down p)")
  case None
  define r' where "r' = (if pp_connClosed p then ReadFails else r)"
  define k where "k = copy_step r' w (pp_down p)"
  have s: "relay_step ops (DownRead r w) p = (case cp_end k of None \<Rightarrow> p\<lparr>pp_down := k\<rparr>
      | Some e \<Rightarrow> finish_if ops (ro_down_end ops e (length (cp_out k)) (p\<lparr>pp_down := k\<rparr>)))"
    by (simp only: relay_step.simps None Let_def r'_def k_def simp_thms if_False)
  show thesis
  proof (cases "cp_end k")
    case None
    then show thesis using that(2) [OF \<open>cp_end (pp_down p) = None\<close> k_def] s by simp
  next
    case (Some e)
    then show thesis using that(3) [OF \<open>cp_end (pp_down p) = None\<close> k_def] s by simp
  qed
qed (use that(1) in simp)

locale relaying =
  fixes ops :: relay_ops
  assumes up_copies: "copies (ro_up_end ops e n p) = copies p"
    and down_copies: "copies (ro_down_end ops e n p) = copies p"
    and finish_copies: "copies (ro_finish ops p) = copies p"
    and up_shut: "pp_connShut (ro_up_end ops e n p) \<longleftrightarrow> pp_connShut p \<or> e = CopyDone"
    and down_shut: "pp_connShut (ro_down_end ops e n p) = pp_connShut p"
    and finish_shut: "pp_connShut (ro_finish ops p) = pp_connShut p"
begin

text \<open>out is the prefix of what was read, all of it unless a write failed.\<close>

definition exact :: "copying \<Rightarrow> bool" where
  "exact k \<longleftrightarrow> prefix (cp_out k) (cp_read k) \<and> (cp_end k \<noteq> Some CopyWriteErr \<longrightarrow> cp_out k = cp_read k)"

lemma exact_step: "exact k \<Longrightarrow> cp_end k = None \<Longrightarrow> exact (copy_step r w k)"
  by (cases "(r, w, k)" rule: copy_step.cases) (auto simp: exact_def take_is_prefix)

definition inv :: "pipe \<Rightarrow> bool" where
  "inv p \<longleftrightarrow> exact (pp_up p) \<and> exact (pp_down p) \<and> (pp_connShut p \<longleftrightarrow> cp_end (pp_up p) = Some CopyDone)"

lemma finish_if_inv: "inv (finish_if ops p) = inv p"
  using finish_copies [of p] finish_shut [of p] by (simp add: finish_if_def inv_def copies_def)

lemma up_end_inv:
  assumes "exact (pp_up p)" "exact (pp_down p)" "\<not> pp_connShut p" "cp_end (pp_up p) = Some e"
  shows "inv (finish_if ops (ro_up_end ops e n p))"
  using assms up_copies [of e n p] up_shut [of e n p] unfolding finish_if_inv by (simp add: inv_def copies_def)

lemma down_end_inv:
  assumes "inv p" shows "inv (finish_if ops (ro_down_end ops e n p))"
  using assms down_copies [of e n p] down_shut [of e n p] unfolding finish_if_inv by (simp add: inv_def copies_def)

lemma up_step_inv: "inv p \<Longrightarrow> inv (relay_step ops (UpRead r w) p)"
proof (cases rule: up_step_cases [of ops r w p])
  case (goes r' w' k x)
  assume "inv p"
  with goes exact_step show ?thesis by (auto simp: inv_def)
next
  case (ends r' w' k x e n)
  let ?q = "p\<lparr>pp_up := k, pp_recv := x\<rparr>"
  assume "inv p"
  then have "exact (pp_up ?q)" "exact (pp_down ?q)" "\<not> pp_connShut ?q" using ends exact_step by (auto simp: inv_def)
  from up_end_inv [OF this] ends(3) show ?thesis unfolding ends(4) by simp
qed simp

lemma down_step_inv: "inv p \<Longrightarrow> inv (relay_step ops (DownRead r w) p)"
proof (cases rule: down_step_cases [of ops r w p])
  case (goes r' k)
  assume "inv p"
  with goes exact_step show ?thesis by (auto simp: inv_def)
next
  case (ends r' k e n)
  assume "inv p"
  then have "inv (p\<lparr>pp_down := k\<rparr>)" using ends exact_step by (auto simp: inv_def)
  then show ?thesis unfolding ends(4) by (rule down_end_inv)
qed simp

lemma step_inv: "inv p \<Longrightarrow> inv (relay_step ops ev p)"
  by (cases ev) (simp_all only: up_step_inv down_step_inv)

lemma relay_inv: "inv (relay ops es)"
proof -
  have "inv p \<Longrightarrow> inv (fold (relay_step ops) es p)" for p by (induction es arbitrary: p) (simp_all add: step_inv)
  moreover have "inv new_pipe" by (simp add: inv_def exact_def new_pipe_def copy_start_def)
  ultimately show ?thesis by (simp add: relay_def)
qed

text \<open>What a step does to the two copies.\<close>

lemma finish_if_copies [simp]: "pp_up (finish_if ops p) = pp_up p" "pp_down (finish_if ops p) = pp_down p"
  using finish_copies [of p] by (simp_all add: finish_if_def copies_def)

lemma end_copies [simp]:
  "pp_up (ro_up_end ops e n p) = pp_up p" "pp_down (ro_up_end ops e n p) = pp_down p"
  "pp_up (ro_down_end ops e n p) = pp_up p" "pp_down (ro_down_end ops e n p) = pp_down p"
  using up_copies [of e n p] down_copies [of e n p] by (simp_all add: copies_def)

lemma up_step_copies:
  "pp_down (relay_step ops (UpRead r w) p) = pp_down p"
  "pp_up (relay_step ops (UpRead r w) p) =
     (if cp_end (pp_up p) \<noteq> None then pp_up p
      else copy_step (if pp_recv p = RecvCancelled then ReadFails else r)
             (if pp_connClosed p then WroteSome 0 else w) (pp_up p))"
  by (simp_all add: Let_def split: option.split)

lemma down_step_copies:
  "pp_up (relay_step ops (DownRead r w) p) = pp_up p"
  "pp_down (relay_step ops (DownRead r w) p) =
     (if cp_end (pp_down p) \<noteq> None then pp_down p
      else copy_step (if pp_connClosed p then ReadFails else r) w (pp_down p))"
  by (simp_all add: Let_def split: option.split)

end

lemmas end_ops = conn_Close_def conn_CloseWrite_def stream_Close_def forwardStream_Close_def CancelRead_def
  CancelWrite_def

interpretation fp: relaying forwardPipe
  by unfold_locales (auto simp: forwardPipe_def copies_def end_ops Let_def)

interpretation pf: relaying pipeForward
  by unfold_locales (auto simp: pipeForward_def copies_def end_ops Let_def)

interpretation hf: relaying handleForwardConn
  by unfold_locales (auto simp: handleForwardConn_def copies_def end_ops Let_def)

text \<open>In whatever order the two ends of a relay read and write, each direction hands on the bytes it
  read in order, without loss or repetition, all of them unless a write failed.\<close>

lemma relays_are_exact:
  assumes "ops \<in> {forwardPipe, pipeForward, handleForwardConn}" "k \<in> {pp_up (relay ops es), pp_down (relay ops es)}"
  shows "prefix (cp_out k) (cp_read k) \<and> (cp_end k \<noteq> Some CopyWriteErr \<longrightarrow> cp_out k = cp_read k)"
  using assms fp.relay_inv [of es] pf.relay_inv [of es] hf.relay_inv [of es]
  by (auto simp: fp.inv_def pf.inv_def hf.inv_def fp.exact_def pf.exact_def hf.exact_def)

section \<open>What is left of the stream\<close>

definition released :: "pipe \<Rightarrow> bool" where
  "released p \<longleftrightarrow> pp_recv p \<noteq> RecvOpen \<and> pp_send p \<noteq> SendOpen"

definition ends_inv :: "pipe \<Rightarrow> bool" where
  "ends_inv p \<longleftrightarrow>
     (pp_recv p \<noteq> RecvOpen \<longleftrightarrow> cp_end (pp_up p) = Some CopyDone \<or> cp_end (pp_up p) = Some CopyReadErr) \<and>
     (pp_send p \<noteq> SendOpen \<longleftrightarrow> cp_end (pp_down p) \<noteq> None) \<and> pp_recv p \<noteq> RecvCancelled"

lemma copy_end_cases:
  "cp_end k = None \<Longrightarrow> cp_end (copy_step r w k) =
     (case r of Eof \<Rightarrow> Some CopyDone | ReadFails \<Rightarrow> Some CopyReadErr
      | Data b \<Rightarrow> (case w of Wrote \<Rightarrow> None | WroteSome n \<Rightarrow> Some CopyWriteErr))"
  by (cases "(r, w, k)" rule: copy_step.cases) auto

lemma forwardPipe_ends: "ends_inv p \<Longrightarrow> ends_inv (relay_step forwardPipe ev p)"
proof (cases ev)
  case (UpRead r w)
  assume i: "ends_inv p"
  show ?thesis
  proof (cases "cp_end (pp_up p)")
    case None
    with i UpRead show ?thesis
      by (cases r) (auto simp: ends_inv_def Let_def copy_end_cases forwardPipe_def finish_if_def end_ops
          split: option.splits write_res.splits)
  qed (use i UpRead in simp)
next
  case (DownRead r w)
  assume i: "ends_inv p"
  show ?thesis
  proof (cases "cp_end (pp_down p)")
    case None
    with i DownRead show ?thesis
      by (cases r) (auto simp: ends_inv_def Let_def copy_end_cases forwardPipe_def finish_if_def end_ops
          split: option.splits write_res.splits)
  qed (use i DownRead in simp)
qed

lemma forwardPipe_run: "ends_inv (relay forwardPipe es)"
proof -
  have "ends_inv p \<Longrightarrow> ends_inv (fold (relay_step forwardPipe) es p)" for p
    by (induction es arbitrary: p) (simp_all add: forwardPipe_ends)
  moreover have "ends_inv new_pipe" by (simp add: ends_inv_def new_pipe_def copy_start_def)
  ultimately show ?thesis by (simp add: relay_def)
qed

locale releasing = relaying +
  assumes finish_releases: "released (ro_finish ops p)"
begin

lemma finish_if_released: "finished (finish_if ops q) \<Longrightarrow> released (finish_if ops q)"
  using finish_copies [of q] finish_releases [of q] by (auto simp: finish_if_def finished_def copies_def)

lemma step_released:
  assumes "finished p \<longrightarrow> released p"
  shows "finished (relay_step ops ev p) \<longrightarrow> released (relay_step ops ev p)"
proof (cases ev)
  case (UpRead r w)
  show ?thesis unfolding UpRead
    by (cases rule: up_step_cases [of ops r w p]) (use assms finish_if_released in \<open>auto simp: finished_def\<close>)
next
  case (DownRead r w)
  show ?thesis unfolding DownRead
    by (cases rule: down_step_cases [of ops r w p]) (use assms finish_if_released in \<open>auto simp: finished_def\<close>)
qed

lemma run_released: "finished (relay ops es) \<longrightarrow> released (relay ops es)"
proof -
  have "(finished p \<longrightarrow> released p) \<Longrightarrow>
      finished (fold (relay_step ops) es p) \<longrightarrow> released (fold (relay_step ops) es p)" for p
  proof (induction es arbitrary: p)
    case (Cons ev es)
    from Cons.IH [OF step_released [OF Cons.prems]] show ?case by simp
  qed simp
  moreover have "\<not> finished new_pipe" by (simp add: finished_def new_pipe_def copy_start_def)
  ultimately show ?thesis by (simp add: relay_def)
qed

end

interpretation pfr: releasing pipeForward
  by unfold_locales (auto simp: pipeForward_def released_def end_ops)

interpretation hfr: releasing handleForwardConn
  by unfold_locales (auto simp: handleForwardConn_def released_def end_ops)

text \<open>A relay that returns has released its stream, both halves of it, except that forwardPipe keeps
  the receiving half when its write to the connection failed: nothing cancels it or reads it to its
  end, so that it stays with the QUIC connection and the peer is never told to stop sending.\<close>

theorem failed_write_keeps_stream:
  "(if finished (relay pipeForward es) then released (relay pipeForward es) else True) \<and>
   (if finished (relay handleForwardConn es) then released (relay handleForwardConn es) else True) \<and>
   (if finished (relay forwardPipe es)
    then released (relay forwardPipe es) \<longleftrightarrow> cp_end (pp_up (relay forwardPipe es)) \<noteq> Some CopyWriteErr else True)"
proof -
  let ?p = "relay forwardPipe es"
  have "released ?p \<longleftrightarrow> cp_end (pp_up ?p) \<noteq> Some CopyWriteErr" if "finished ?p"
  proof -
    have "cp_end (pp_up ?p) \<in> {Some CopyDone, Some CopyReadErr, Some CopyWriteErr}"
      using that by (cases "the (cp_end (pp_up ?p))") (auto simp: finished_def)
    with forwardPipe_run [of es] that show ?thesis by (auto simp: released_def ends_inv_def finished_def)
  qed
  with pfr.run_released [of es] hfr.run_released [of es] show ?thesis by simp
qed

text \<open>A target that closes its connection while the client is still sending.\<close>

theorem failed_write_keeps_stream_example:
  "finished (relay forwardPipe [UpRead (Data [1]) Wrote, UpRead (Data [2]) (WroteSome 0), DownRead ReadFails Wrote]) \<and>
   \<not> released (relay forwardPipe [UpRead (Data [1]) Wrote, UpRead (Data [2]) (WroteSome 0), DownRead ReadFails Wrote])"
  by (simp add: relay_def new_pipe_def copy_start_def forwardPipe_def finish_if_def finished_def end_ops released_def)

end
