(* ===== verification/Tunnel.thy ===== *)
theory Tunnel
  imports Relay
begin

text \<open>
  A forwarded connection from end to end: the relay next to the listener (the client's handleForwardConn
  for -L, the session's pipeForward for -R and the agent), the QUIC stream, and forwardPipe next to the
  target. The stream gives one relay's receiving half what the other relay has written, its end only when
  the other has finished its sending half, and an error at any time (a reset, a lost connection).
\<close>

section \<open>The stream between two relays\<close>

record tunnel =
  tn_near :: pipe
  tn_far :: pipe

definition new_tunnel :: tunnel where
  "new_tunnel = \<lparr>tn_near = new_pipe, tn_far = new_pipe\<rparr>"

text \<open>What a read from the stream can answer the receiver, given the state of the sender.\<close>

fun can_read :: "pipe \<Rightarrow> read_res \<Rightarrow> pipe \<Rightarrow> bool" where
  "can_read sender (Data b) receiver \<longleftrightarrow> prefix (cp_read (pp_up receiver) @ b) (cp_out (pp_down sender))"
| "can_read sender Eof receiver \<longleftrightarrow> pp_send sender = SendFin \<and> cp_read (pp_up receiver) = cp_out (pp_down sender)"
| "can_read sender ReadFails receiver \<longleftrightarrow> True"

fun offered :: "pipe \<Rightarrow> pipe_event \<Rightarrow> pipe \<Rightarrow> bool" where
  "offered peer (UpRead r w) p \<longleftrightarrow> can_read peer r p"
| "offered peer (DownRead r w) p \<longleftrightarrow> True"

datatype tunnel_ev = Near pipe_event | Far pipe_event

fun tunnel_step :: "relay_ops \<Rightarrow> relay_ops \<Rightarrow> tunnel_ev \<Rightarrow> tunnel \<Rightarrow> tunnel" where
  "tunnel_step near far (Near ev) t =
     (if offered (tn_far t) ev (tn_near t) then t\<lparr>tn_near := relay_step near ev (tn_near t)\<rparr> else t)"
| "tunnel_step near far (Far ev) t =
     (if offered (tn_near t) ev (tn_far t) then t\<lparr>tn_far := relay_step far ev (tn_far t)\<rparr> else t)"

definition tunnel_run :: "relay_ops \<Rightarrow> relay_ops \<Rightarrow> tunnel_ev list \<Rightarrow> tunnel" where
  "tunnel_run near far es = fold (tunnel_step near far) es new_tunnel"

section \<open>What one relay promises the other\<close>

text \<open>fins says after which ends of its copy a relay finishes the stream instead of resetting it. A relay
  closes its connection only when both copies are over, or when the one to the connection has failed.\<close>

definition sent_fin :: "(copy_end \<Rightarrow> bool) \<Rightarrow> pipe \<Rightarrow> bool" where
  "sent_fin fins p \<longleftrightarrow> (pp_send p = SendFin \<longrightarrow> (\<exists>e. cp_end (pp_down p) = Some e \<and> fins e))"

definition closes_late :: "pipe \<Rightarrow> bool" where
  "closes_late p \<longleftrightarrow> (pp_connClosed p \<longrightarrow> finished p \<or> (\<exists>e. cp_end (pp_up p) = Some e \<and> e \<noteq> CopyDone))"

locale sending = relaying +
  fixes fins :: "copy_end \<Rightarrow> bool"
  assumes up_send: "pp_send (ro_up_end ops e n p) = SendFin \<Longrightarrow> pp_send p = SendFin"
    and down_send: "pp_send (ro_down_end ops e n p) = SendFin \<Longrightarrow> pp_send p = SendFin \<or> fins e"
    and finish_send: "pp_send (ro_finish ops p) = SendFin \<Longrightarrow> cp_end (pp_down p) = Some e \<Longrightarrow> pp_send p = SendFin \<or> fins e"
    and up_close: "pp_connClosed (ro_up_end ops e n p) \<Longrightarrow> pp_connClosed p \<or> e \<noteq> CopyDone"
    and down_close: "pp_connClosed (ro_down_end ops e n p) \<Longrightarrow> pp_connClosed p"
begin

lemma finish_if_sent:
  assumes "sent_fin fins p"
  shows "sent_fin fins (finish_if ops p)"
proof (cases "finished p")
  case True
  then obtain e where e: "cp_end (pp_down p) = Some e" by (auto simp: finished_def)
  have f: "finish_if ops p = ro_finish ops p" using True by (simp add: finish_if_def)
  have "pp_down (ro_finish ops p) = pp_down p" using finish_if_copies(2) [of p] by (simp only: f)
  with assms finish_send [of p e] e show ?thesis by (auto simp: sent_fin_def f)
qed (use assms in \<open>simp add: finish_if_def\<close>)

lemma finish_if_late:
  assumes "closes_late p"
  shows "closes_late (finish_if ops p)"
proof (cases "finished p")
  case True
  then have "finished (finish_if ops p)" by (simp add: finished_def)
  then show ?thesis by (simp add: closes_late_def)
qed (use assms in \<open>simp add: finish_if_def\<close>)

lemma step_sent:
  assumes "sent_fin fins p"
  shows "sent_fin fins (relay_step ops ev p)"
proof (cases ev)
  case (UpRead r w)
  show ?thesis unfolding UpRead
  proof (cases rule: up_step_cases [of ops r w p])
    case (ends r' w' k x e n)
    let ?q = "p\<lparr>pp_up := k, pp_recv := x\<rparr>"
    have "sent_fin fins (ro_up_end ops e n ?q)" using assms up_send [of e n ?q] by (auto simp: sent_fin_def)
    then show "sent_fin fins (relay_step ops (UpRead r w) p)" unfolding ends(4) by (rule finish_if_sent)
  qed (use assms in \<open>simp_all add: sent_fin_def\<close>)
next
  case (DownRead r w)
  show ?thesis unfolding DownRead
  proof (cases rule: down_step_cases [of ops r w p])
    case (ends r' k e n)
    have "sent_fin fins (ro_down_end ops e n (p\<lparr>pp_down := k\<rparr>))"
      using assms ends down_send [of e n "p\<lparr>pp_down := k\<rparr>"] by (auto simp: sent_fin_def)
    then show "sent_fin fins (relay_step ops (DownRead r w) p)" unfolding ends(4) by (rule finish_if_sent)
  qed (use assms in \<open>simp_all add: sent_fin_def\<close>)
qed

lemma step_late:
  assumes "closes_late p"
  shows "closes_late (relay_step ops ev p)"
proof (cases ev)
  case (UpRead r w)
  show ?thesis unfolding UpRead
  proof (cases rule: up_step_cases [of ops r w p])
    case (ends r' w' k x e n)
    let ?q = "p\<lparr>pp_up := k, pp_recv := x\<rparr>"
    have "closes_late (ro_up_end ops e n ?q)"
      using assms ends up_close [of e n ?q] by (auto simp: closes_late_def finished_def)
    then show "closes_late (relay_step ops (UpRead r w) p)" unfolding ends(4) by (rule finish_if_late)
  qed (use assms in \<open>simp_all add: closes_late_def finished_def\<close>)
next
  case (DownRead r w)
  show ?thesis unfolding DownRead
  proof (cases rule: down_step_cases [of ops r w p])
    case (ends r' k e n)
    have "closes_late (ro_down_end ops e n (p\<lparr>pp_down := k\<rparr>))"
      using assms ends down_close [of e n "p\<lparr>pp_down := k\<rparr>"] by (auto simp: closes_late_def finished_def)
    then show "closes_late (relay_step ops (DownRead r w) p)" unfolding ends(4) by (rule finish_if_late)
  qed (use assms in \<open>simp_all add: closes_late_def finished_def\<close>)
qed

end

section \<open>The stream carries what was written\<close>

definition linked :: "(copy_end \<Rightarrow> bool) \<Rightarrow> pipe \<Rightarrow> pipe \<Rightarrow> bool" where
  "linked fins s r \<longleftrightarrow>
     prefix (cp_read (pp_up r)) (cp_out (pp_down s)) \<and>
     (cp_end (pp_up r) = Some CopyDone \<longrightarrow>
        (\<exists>e. cp_end (pp_down s) = Some e \<and> fins e) \<and> cp_read (pp_up r) = cp_out (pp_down s))"

lemma linked_cong: "linked fins s r \<Longrightarrow> pp_down s' = pp_down s \<Longrightarrow> pp_up r' = pp_up r \<Longrightarrow> linked fins s' r'"
  by (simp add: linked_def)

lemma copy_grows: "prefix (cp_out k) (cp_out (copy_step r w k))"
  by (cases "(r, w, k)" rule: copy_step.cases) simp_all

context relaying begin

lemma sender_linked: "linked fins p r \<Longrightarrow> linked fins (relay_step ops ev p) r"
proof (cases ev)
  case (UpRead rd w)
  assume "linked fins p r"
  then show ?thesis unfolding UpRead by (rule linked_cong) (simp_all only: up_step_copies)
next
  case (DownRead rd w)
  assume l: "linked fins p r"
  show ?thesis
  proof (cases "cp_end (pp_down p)")
    case None
    then have "cp_end (pp_up r) \<noteq> Some CopyDone" using l by (auto simp: linked_def)
    moreover have "prefix (cp_out (pp_down p)) (cp_out (pp_down (relay_step ops ev p)))"
      unfolding DownRead down_step_copies using None by (simp add: copy_grows)
    ultimately show ?thesis using l by (auto simp: linked_def intro: prefix_order.trans)
  next
    case (Some e)
    with l show ?thesis unfolding DownRead by (intro linked_cong [OF l]) (simp_all only: down_step_copies, simp)
  qed
qed

lemma receiver_linked:
  assumes "linked fins s p" "sent_fin fins s" "offered s ev p"
  shows "linked fins s (relay_step ops ev p)"
proof (cases ev)
  case (DownRead rd w)
  show ?thesis unfolding DownRead by (rule linked_cong [OF assms(1)]) (simp_all only: down_step_copies)
next
  case (UpRead rd w)
  show ?thesis
  proof (cases "cp_end (pp_up p)")
    case None
    define r where "r = (if pp_recv p = RecvCancelled then ReadFails else rd)"
    define w' where "w' = (if pp_connClosed p then WroteSome 0 else w)"
    have up: "pp_up (relay_step ops ev p) = copy_step r w' (pp_up p)"
      unfolding UpRead up_step_copies r_def w'_def using None by simp
    have c: "can_read s r p" using assms(3) UpRead by (simp add: r_def)
    show ?thesis
    proof (cases r)
      case (Data b)
      with c None show ?thesis by (cases w') (simp_all add: linked_def up)
    next
      case Eof
      with c None assms(2) show ?thesis by (auto simp: linked_def up sent_fin_def)
    next
      case ReadFails
      with assms(1) None show ?thesis by (simp add: linked_def up)
    qed
  qed (use assms(1) UpRead in simp)
qed

end

section \<open>From end to end\<close>

text \<open>What the receiver's connection got of what the sender's gave.\<close>

definition end_follows :: "(copy_end \<Rightarrow> bool) \<Rightarrow> pipe \<Rightarrow> pipe \<Rightarrow> bool" where
  "end_follows fins s r \<longleftrightarrow>
     prefix (cp_out (pp_up r)) (cp_read (pp_down s)) \<and>
     (pp_connShut r \<longrightarrow> (\<exists>e. cp_end (pp_down s) = Some e \<and> fins e \<and>
        cp_out (pp_up r) = cp_out (pp_down s) \<and>
        (e \<noteq> CopyWriteErr \<longrightarrow> cp_out (pp_up r) = cp_read (pp_down s))))"

lemma closes_late_iff:
  "closes_late p \<longleftrightarrow> (pp_connClosed p \<longrightarrow> finished p \<or> cp_end (pp_up p) \<in> {Some CopyReadErr, Some CopyWriteErr})"
proof -
  have "(\<exists>e. cp_end (pp_up p) = Some e \<and> e \<noteq> CopyDone) \<longleftrightarrow> cp_end (pp_up p) \<in> {Some CopyReadErr, Some CopyWriteErr}"
    by (auto intro: copy_end.exhaust)
  then show ?thesis by (simp add: closes_late_def)
qed

locale tunnelling = near: sending near near_fins + far: sending far far_fins
  for near near_fins far far_fins
begin

definition tinv :: "tunnel \<Rightarrow> bool" where
  "tinv t \<longleftrightarrow> near.inv (tn_near t) \<and> far.inv (tn_far t) \<and>
     sent_fin near_fins (tn_near t) \<and> sent_fin far_fins (tn_far t) \<and>
     closes_late (tn_near t) \<and> closes_late (tn_far t) \<and>
     linked near_fins (tn_near t) (tn_far t) \<and> linked far_fins (tn_far t) (tn_near t)"

lemma step_tinv: "tinv t \<Longrightarrow> tinv (tunnel_step near far ev t)"
  by (cases ev)
    (simp_all add: tinv_def near.step_inv far.step_inv near.step_sent far.step_sent near.step_late far.step_late
      near.sender_linked far.sender_linked near.receiver_linked far.receiver_linked)

lemma run_tinv: "tinv (tunnel_run near far es)"
proof -
  have "tinv t \<Longrightarrow> tinv (fold (tunnel_step near far) es t)" for t
    by (induction es arbitrary: t) (simp_all add: step_tinv)
  moreover have "tinv new_tunnel"
    by (simp add: tinv_def near.inv_def far.inv_def near.exact_def far.exact_def sent_fin_def closes_late_def linked_def
        new_tunnel_def new_pipe_def copy_start_def)
  ultimately show ?thesis by (simp add: tunnel_run_def)
qed

lemma outcome:
  assumes "t = tunnel_run near far es"
  shows "end_follows near_fins (tn_near t) (tn_far t)" "end_follows far_fins (tn_far t) (tn_near t)"
    "closes_late (tn_near t)" "closes_late (tn_far t)"
proof -
  have "tinv t" unfolding assms by (rule run_tinv)
  then have n: "near.inv (tn_near t)" "far.inv (tn_far t)" "linked near_fins (tn_near t) (tn_far t)"
    "linked far_fins (tn_far t) (tn_near t)" and c: "closes_late (tn_near t)" "closes_late (tn_far t)"
    by (simp_all add: tinv_def)
  show "closes_late (tn_near t)" "closes_late (tn_far t)" by fact+
  show "end_follows near_fins (tn_near t) (tn_far t)" "end_follows far_fins (tn_far t) (tn_near t)"
    using n unfolding near.inv_def far.inv_def near.exact_def far.exact_def linked_def end_follows_def
    by (auto intro: prefix_order.trans)
qed

end

text \<open>forwardPipe resets the stream when its copy fails; the other two finish it, through
  forwardStream.Close.\<close>

interpretation lf: tunnelling handleForwardConn "\<lambda>e. True" forwardPipe "\<lambda>e. e = CopyDone"
  by unfold_locales (auto simp: handleForwardConn_def forwardPipe_def end_ops Let_def split: if_splits)

interpretation rf: tunnelling pipeForward "\<lambda>e. True" forwardPipe "\<lambda>e. e = CopyDone"
  by unfold_locales (auto simp: pipeForward_def forwardPipe_def end_ops Let_def split: if_splits)

text \<open>C39. A forwarded connection, however its two ends, the stream and the two relays interleave: each side
  receives a first part of what the other sent, in order. The end that the target's side announces reaches
  the listener's side (CloseWrite) only when the target has ended its own output and every byte of it has
  been written; a target that breaks off is never presented as one that ended. The other way the end
  follows everything that was put on the stream, and all that was read from the listener's connection unless
  writing to the stream failed. No relay closes its connection before both directions are over, unless the
  copy to that connection has failed.\<close>

theorem tunnel_is_transparent:
  assumes "near \<in> {handleForwardConn, pipeForward}" "t = tunnel_run near forwardPipe es"
  shows "prefix (cp_out (pp_up (tn_far t))) (cp_read (pp_down (tn_near t))) \<and>
    prefix (cp_out (pp_up (tn_near t))) (cp_read (pp_down (tn_far t))) \<and>
    (pp_connShut (tn_near t) \<longrightarrow> cp_end (pp_down (tn_far t)) = Some CopyDone \<and>
       cp_out (pp_up (tn_near t)) = cp_read (pp_down (tn_far t))) \<and>
    (pp_connShut (tn_far t) \<longrightarrow> (\<exists>e. cp_end (pp_down (tn_near t)) = Some e \<and>
       cp_out (pp_up (tn_far t)) = cp_out (pp_down (tn_near t)) \<and>
       (e \<noteq> CopyWriteErr \<longrightarrow> cp_out (pp_up (tn_far t)) = cp_read (pp_down (tn_near t))))) \<and>
    (\<forall>p\<in>{tn_near t, tn_far t}. pp_connClosed p \<longrightarrow>
       finished p \<or> cp_end (pp_up p) \<in> {Some CopyReadErr, Some CopyWriteErr})"
proof -
  have "end_follows (\<lambda>e. True) (tn_near t) (tn_far t) \<and> end_follows (\<lambda>e. e = CopyDone) (tn_far t) (tn_near t) \<and>
      closes_late (tn_near t) \<and> closes_late (tn_far t)"
    using assms lf.outcome [of t es] rf.outcome [of t es] by auto
  then show ?thesis unfolding end_follows_def closes_late_iff by auto
qed

text \<open>A request and its answer, both complete; then a target that breaks off.\<close>

definition request_answered :: "tunnel_ev list" where
  "request_answered =
     [Near (DownRead (Data [1, 2]) Wrote), Near (DownRead Eof Wrote), Far (UpRead (Data [1]) Wrote),
      Far (UpRead (Data [2]) Wrote), Far (UpRead Eof Wrote), Far (DownRead (Data [7]) Wrote),
      Near (UpRead (Data [7]) Wrote), Far (DownRead Eof Wrote), Near (UpRead Eof Wrote)]"

lemma tunnel_Cons:
  "tunnel_step near far e t = t1 \<Longrightarrow> P (fold (tunnel_step near far) es t1) \<Longrightarrow> P (fold (tunnel_step near far) (e # es) t)"
  by simp

lemmas tunnel_eval = new_tunnel_def new_pipe_def copy_start_def forwardPipe_def handleForwardConn_def finish_if_def
  finished_def end_ops

theorem tunnel_is_transparent_witness:
  "cp_read (pp_down (tn_far (tunnel_run handleForwardConn forwardPipe request_answered))) = [7] \<and>
   cp_out (pp_up (tn_near (tunnel_run handleForwardConn forwardPipe request_answered))) = [7]"
proof -
  let ?P = "\<lambda>t. pp_connShut (tn_near t) \<and> cp_read (pp_down (tn_far t)) = [7]"
  have "?P (tunnel_run handleForwardConn forwardPipe request_answered)"
    unfolding tunnel_run_def request_answered_def new_tunnel_def new_pipe_def copy_start_def
    apply (rule tunnel_Cons [where P = ?P], (simp add: tunnel_eval; fail))+
    apply simp
    done
  with tunnel_is_transparent [of handleForwardConn _ request_answered, OF _ refl] show ?thesis by simp
qed

text \<open>The listener's side does not keep to the same: when its connection is reset, the stream is finished
  all the same, and the target takes what it got for the whole.\<close>

definition listener_reset :: "tunnel_ev list" where
  "listener_reset =
     [Near (DownRead (Data [1]) Wrote), Near (DownRead ReadFails Wrote), Far (UpRead (Data [1]) Wrote), Far (UpRead Eof Wrote)]"

definition taken_for_whole :: "tunnel \<Rightarrow> bool" where
  "taken_for_whole t \<longleftrightarrow> cp_end (pp_down (tn_near t)) = Some CopyReadErr \<and> pp_connShut (tn_far t)"

theorem broken_connection_looks_ended:
  "taken_for_whole (tunnel_run handleForwardConn forwardPipe listener_reset)"
  unfolding tunnel_run_def listener_reset_def new_tunnel_def new_pipe_def copy_start_def
  apply (rule tunnel_Cons [where P = taken_for_whole], (simp add: tunnel_eval; fail))+
  apply (simp add: taken_for_whole_def)
  done

end
