(* ===== verification/Client_Input.thy ===== *)
theory Client_Input
  imports Client_Output
begin

text \<open>
  The input side of the client (cmd/tezzer/input.go and the keys of client.go): what the keyboard
  delivers is split into escape sequences, which are sent in one piece, and plain input, which is
  sent a read at a time without cutting a UTF-8 character; the escape key starts commands. The
  state extends that of the output side with the batching buffers and what was sent.
\<close>

section \<open>State\<close>

text \<open>What the keyboard loop causes besides sending: KStatus is the status line, KLog a line of
  the log, KStderr text for the user; KShowStatus and KWriteStats stand for Ctrl-^ i and s.\<close>

datatype key_act =
    KStatus string
  | KLog string
  | KSendError string err
  | KSendRecovered nat nat
  | KStderr string
  | KResize int int
  | KKill string
  | KConnClosed
  | KRedraw
  | KShowStatus
  | KWriteStats
  | KScrollReset

text \<open>Times are nanoseconds. k_sent holds every input handed to the transport, or written to the
  socket when there is none, in order; k_timer is the deadline of the flush timer of handleStdin
  when it is armed.\<close>

(* cmd/tezzer/client.go:27-145 Client *)
record kclient =
  k_out :: tclient
  k_sessionID :: string
  k_conn :: bool
  k_width :: int
  k_height :: int
  k_escapeByte :: byte
  k_escapePressed :: bool
  k_readOnly :: bool
  k_roWarned :: bool
  k_escBatchActive :: bool
  k_escBatchBuf :: bytes
  k_escBatchStart :: int
  k_inputBatchBuf :: bytes
  k_inputBatchStart :: int
  k_sendFailing :: bool
  k_sendDropped :: nat
  k_sendDroppedBytes :: nat
  k_debug :: bool
  k_statusOff :: bool
  k_statusMgr :: bool
  k_statusRedraw :: bool
  k_msgLog :: "(int \<times> string) list"
  k_timer :: "int option"
  k_sent :: "bytes list"
  k_acts :: "key_act list"

definition act :: "key_act \<Rightarrow> kclient \<Rightarrow> kclient" where
  "act a k = k\<lparr>k_acts := k_acts k @ [a]\<rparr>"

definition on_out :: "(tclient \<Rightarrow> tclient) \<Rightarrow> kclient \<Rightarrow> kclient" where
  "on_out f k = k\<lparr>k_out := f (k_out k)\<rparr>"

section \<open>Status messages\<close>

definition maxLogEntries :: nat where
  "maxLogEntries = 20"

(* cmd/tezzer/client.go:413-432 Client.addLogMessage *)
definition addLogMessage :: "int \<Rightarrow> string \<Rightarrow> kclient \<Rightarrow> kclient" where
  "addLogMessage now msg k =
     (let l = k_msgLog k @ [(now, msg)] in
      k\<lparr>k_msgLog := if length l > maxLogEntries then drop (length l - maxLogEntries) l else l\<rparr>)"

(* cmd/tezzer/client.go:400-411 Client.showRequestedStatus *)
definition showRequestedStatus :: "int \<Rightarrow> string \<Rightarrow> kclient \<Rightarrow> kclient" where
  "showRequestedStatus now msg k =
     (let k1 = addLogMessage now msg k in
      if \<not> k_statusMgr k1 then act (KLog msg) k1 else act (KStatus msg) k1)"

(* cmd/tezzer/client.go:389-398 Client.setStatusMessage *)
definition setStatus :: "int \<Rightarrow> string \<Rightarrow> kclient \<Rightarrow> kclient" where
  "setStatus now msg k =
     (if k_statusOff k then addLogMessage now msg k else showRequestedStatus now msg k)"

section \<open>Sending\<close>

text \<open>What the transport, or the encoding and the write to the socket, answer to the n-th input is
  the parameter result.\<close>

type_synonym send_results = "nat \<Rightarrow> err option"

(* cmd/tezzer/input.go:19-52 Client.sendInputBytes *)
definition sendInputBytes :: "send_results \<Rightarrow> int \<Rightarrow> bytes \<Rightarrow> kclient \<Rightarrow> kclient \<times> err option" where
  "sendInputBytes result now data k =
     (if k_readOnly k then
        (if k_roWarned k then (k, None)
         else (showRequestedStatus now ''read-only attach (-peek): input is not sent''
                 (k\<lparr>k_roWarned := True\<rparr>), None))
      else
        (k\<lparr>k_sent := k_sent k @ [data]\<rparr>,
         case result (length (k_sent k)) of
           None \<Rightarrow> None
         | Some e \<Rightarrow> Some (if ct (k_out k) then e else Wrapped ''write input error'' e)))"

(* cmd/tezzer/input.go:54-75 Client.noteSendResult *)
definition noteSendResult :: "string \<Rightarrow> nat \<Rightarrow> err option \<Rightarrow> kclient \<Rightarrow> kclient" where
  "noteSendResult kind n result k =
     (case result of
        Some e \<Rightarrow>
          let k1 = (if k_sendFailing k then k else act (KSendError kind e) (k\<lparr>k_sendFailing := True\<rparr>)) in
          k1\<lparr>k_sendDropped := k_sendDropped k1 + 1, k_sendDroppedBytes := k_sendDroppedBytes k1 + n\<rparr>
      | None \<Rightarrow>
          if k_sendFailing k
          then (act (KSendRecovered (k_sendDropped k) (k_sendDroppedBytes k)) k)
                 \<lparr>k_sendFailing := False, k_sendDropped := 0, k_sendDroppedBytes := 0\<rparr>
          else k)"

definition send_noted :: "send_results \<Rightarrow> int \<Rightarrow> string \<Rightarrow> bytes \<Rightarrow> kclient \<Rightarrow> kclient" where
  "send_noted result now kind data k =
     (let (k1, e) = sendInputBytes result now data k in noteSendResult kind (length data) e k1)"

(* cmd/tezzer/input.go:77-97 Client.flushEscBatch *)
definition flushEscBatch :: "send_results \<Rightarrow> int \<Rightarrow> kclient \<Rightarrow> kclient" where
  "flushEscBatch result now k =
     (if \<not> k_escBatchActive k \<or> length (k_escBatchBuf k) = 0 then k
      else (send_noted result now ''ESC batch'' (k_escBatchBuf k) k)
             \<lparr>k_escBatchActive := False, k_escBatchBuf := []\<rparr>)"

text \<open>The loop of utf8IncompleteTrail, over the data in reverse: i counts from 1 to limit.\<close>

(* cmd/tezzer/input.go:112-139 utf8IncompleteTrail *)
fun trail_loop :: "nat \<Rightarrow> nat \<Rightarrow> bytes \<Rightarrow> nat" where
  "trail_loop i limit [] = 0"
| "trail_loop i limit (b # bs) =
     (if i > limit then 0
      else if b < 0x80 then 0
      else if b \<ge> 0xC0 then
        (let expected = (if b < 0xE0 then 2 else if b < 0xF0 then 3 else 4) in
         if i < expected then i else 0)
      else trail_loop (i + 1) limit bs)"

(* cmd/tezzer/input.go:99-142 utf8IncompleteTrail *)
definition utf8IncompleteTrail :: "bytes \<Rightarrow> nat" where
  "utf8IncompleteTrail data =
     (let n = length data in
      if n = 0 then 0 else trail_loop 1 (if 3 > n then n else 3) (rev data))"

(* cmd/tezzer/input.go:144-183 Client.flushInputBatch *)
definition flushInputBatch :: "send_results \<Rightarrow> int \<Rightarrow> kclient \<Rightarrow> kclient" where
  "flushInputBatch result now k =
     (let buf = k_inputBatchBuf k in
      if length buf = 0 then k
      else
        let trail = utf8IncompleteTrail buf;
            holdBack = (if trail > 0 then drop (length buf - trail) buf else []);
            sendBuf = (if trail > 0 then take (length buf - trail) buf else buf);
            k1 = (if length sendBuf > 0 then send_noted result now ''Input batch'' sendBuf k else k) in
        if length holdBack > 0
        then k1\<lparr>k_inputBatchBuf := holdBack, k_inputBatchStart := now\<rparr>
        else k1\<lparr>k_inputBatchBuf := []\<rparr>)"

(* cmd/tezzer/input.go:185-195 isCSIFinal *)
definition isCSIFinal :: "byte \<Rightarrow> bool" where
  "isCSIFinal b = (b = 0x7E \<or> (b \<ge> 0x41 \<and> b \<le> 0x5A) \<or> (b \<ge> 0x61 \<and> b \<le> 0x7A))"

(* cmd/tezzer/input.go:197-243 shouldFlushEscBuf *)
definition shouldFlushEscBuf :: "bytes \<Rightarrow> bool" where
  "shouldFlushEscBuf buf =
     (let bufLen = length buf in
      if bufLen \<ge> 32 then True
      else if bufLen < 3 then False
      else if buf ! 0 \<noteq> ESC then False
      else if buf ! 1 = 0x4F then buf ! 2 \<in> {0x41, 0x42, 0x43, 0x44}
      else if buf ! 1 = 0x5B then
        (if bufLen = 3 \<and> buf ! 2 \<in> {0x41, 0x42, 0x43, 0x44} then True
         else isCSIFinal (buf ! (bufLen - 1)))
      else False)"

section \<open>Commands of the escape key\<close>

definition kdone :: "kclient \<Rightarrow> kclient" where
  "kdone k = on_out close_done k"

(* cmd/tezzer/main.go:310-321 escapeKeyDisplay *)
definition escapeKeyDisplay :: "byte \<Rightarrow> string" where
  "escapeKeyDisplay b =
     (if b = 0x7F then ''Ctrl-?''
      else if b \<le> 0x1F then ''Ctrl-'' @ [char_of (unat (0x40 + b))]
      else ''0x'' @ show_hex_pad 2 (unat b))"

(* cmd/tezzer/main.go:284-308 parseEscapeKey *)
definition parseEscapeKey :: "string \<Rightarrow> byte option" where
  "parseEscapeKey key =
     (if length key = 0 then None
      else
        let ch = (of_char (key ! 0) :: byte) in
        if ch \<ge> 0x40 \<and> ch \<le> 0x5F then Some (ch - 0x40)
        else if ch = 0x3F then Some 0x7F
        else if ch \<ge> 0x61 \<and> ch \<le> 0x7A then Some (ch - 0x61 + 1)
        else None)"

(* cmd/tezzer/client.go:291-295 Client.showHelp *)
definition showHelp :: "int \<Rightarrow> kclient \<Rightarrow> kclient" where
  "showHelp now k =
     showRequestedStatus now
       (''[Tezzer] '' @ escapeKeyDisplay (k_escapeByte k) @
        ''+ .Detach qQuit rRedraw fForce iStatus sStats dDebug hHelp'') k"

(* cmd/tezzer/client.go:576-592 Client.toggleDebug *)
definition toggleDebug :: "int \<Rightarrow> kclient \<Rightarrow> kclient" where
  "toggleDebug now k =
     (let newValue = \<not> k_debug k in
      showRequestedStatus now (''[Tezzer] Debug output: '' @ (if newValue then ''ON'' else ''OFF''))
        (k\<lparr>k_debug := newValue\<rparr>))"

(* cmd/tezzer/client.go:336-351 Client.forceExit *)
definition forceExit :: "kclient \<Rightarrow> kclient" where
  "forceExit k =
     (let k1 = kdone (on_out (send_err ErrDetached) k) in
      if k_conn k1 then act KConnClosed k1 else k1)"

text \<open>kill is what encoding and writing KILL_SESSION answer.\<close>

datatype kill_result = KillSent | KillNotEncoded | KillNotWritten

(* cmd/tezzer/client.go:297-334 Client.killSession *)
definition killSession_key :: "kill_result \<Rightarrow> kclient \<Rightarrow> kclient" where
  "killSession_key kill k =
     (let k1 = on_out (\<lambda>c. restoreTerminalModes c\<lparr>killing := True\<rparr>) k in
      if kill = KillNotEncoded then forceExit (act (KStderr ''Error encoding kill message'') k1)
      else if \<not> k_conn k1 then
        forceExit (act (KStderr (''Session '' @ k_sessionID k @ '': connection not available'')) k1)
      else if kill = KillNotWritten then forceExit (act (KStderr ''Failed to send kill'') k1)
      else forceExit (act (KStderr (''Session '' @ k_sessionID k @ '' killed.''))
                        (act (KKill (k_sessionID k)) k1)))"

(* cmd/tezzer/client.go:353-364 Client.resetScrollRegion *)
definition resetScrollRegion :: "int \<Rightarrow> kclient \<Rightarrow> kclient" where
  "resetScrollRegion now k = showRequestedStatus now ''Scroll region reset'' (act KScrollReset k)"

text \<open>resize is the error of SendResize, or of writing RESIZE to the socket.\<close>

(* cmd/tezzer/client.go:594-635 Client.sendResize *)
definition sendResize :: "int \<Rightarrow> err option \<Rightarrow> int \<Rightarrow> int \<Rightarrow> kclient \<Rightarrow> kclient \<times> err option" where
  "sendResize now resize width height k =
     (if k_readOnly k then (k, None)
      else
        let k1 = act (KResize width height) (k\<lparr>k_width := width, k_height := height\<rparr>) in
        if ct (k_out k1) then
          (case resize of
             None \<Rightarrow> (k1, None)
           | Some e \<Rightarrow> (setStatus now ''QUIC send resize error'' k1, None))
        else (k1, map_option (Wrapped ''write resize error'') resize))"

text \<open>requestServerRedraw runs on a goroutine of its own: it shrinks the width by one, waits and
  restores the size the terminal has then. The two parts are given what GetSize answers.\<close>

(* cmd/tezzer/client.go:371-376 Client.requestServerRedraw *)
definition redraw_shrink :: "int \<Rightarrow> err option \<Rightarrow> (int \<times> int) option \<Rightarrow> kclient \<Rightarrow> kclient \<times> bool" where
  "redraw_shrink now resize sz k =
     (case sz of
        None \<Rightarrow> (k, False)
      | Some (w, h) \<Rightarrow> if w \<le> 1 then (k, False) else (fst (sendResize now resize (w - 1) h k), True))"

(* cmd/tezzer/client.go:377-386 Client.requestServerRedraw *)
definition redraw_restore :: "int \<Rightarrow> err option \<Rightarrow> (int \<times> int) option \<Rightarrow> kclient \<Rightarrow> kclient" where
  "redraw_restore now resize sz k =
     (case sz of None \<Rightarrow> k | Some (w, h) \<Rightarrow> fst (sendResize now resize w h k))"

(* cmd/tezzer/client.go:511-522 Client.shouldRedrawAfterStatus *)
definition shouldRedrawAfterStatus :: "bool \<Rightarrow> kclient \<Rightarrow> bool" where
  "shouldRedrawAfterStatus connected k =
     (if \<not> k_statusRedraw k \<or> k_readOnly k then False
      else if screenState (k_out k) \<noteq> ScreenAlt then False
      else if ct (k_out k) \<and> \<not> connected then False
      else True)"

(* cmd/tezzer/client.go:501-509 Client.maybeRedrawAfterStatus *)
definition maybeRedrawAfterStatus :: "bool \<Rightarrow> kclient \<Rightarrow> kclient" where
  "maybeRedrawAfterStatus connected k =
     (if shouldRedrawAfterStatus connected k then act KRedraw k else k)"

text \<open>The byte after the escape key; the flag says handleStdin returns.\<close>

(* cmd/tezzer/input.go:331-405 Client.handleStdin *)
definition escape_command ::
  "send_results \<Rightarrow> kill_result \<Rightarrow> int \<Rightarrow> byte \<Rightarrow> kclient \<Rightarrow> kclient \<times> bool" where
  "escape_command result kill now b k0 =
     (let k = k0\<lparr>k_escapePressed := False\<rparr> in
      if b = 0x2E then
        (act (KStderr ''Detached from session.'')
           (act KConnClosed (kdone (on_out (\<lambda>c. send_err ErrDetached (restoreTerminalModes c)) k))), True)
      else if b = 0x69 then (act KShowStatus k, False)
      else if b = 0x68 then (showHelp now k, False)
      else if b = 0x73 then (act KWriteStats k, False)
      else if b = 0x64 then (toggleDebug now k, False)
      else if b = 0x71 then
        (if k_readOnly k then (showRequestedStatus now ''read-only attach (-peek): kill is disabled'' k, False)
         else (killSession_key kill k, True))
      else if b = 0x72 then (resetScrollRegion now k, False)
      else if b = 0x66 then
        (if k_readOnly k
         then (showRequestedStatus now ''read-only attach (-peek): server redraw is disabled'' k, False)
         else (act KRedraw k, False))
      else if b = k_escapeByte k then
        (case sendInputBytes result now [b] k of
           (k1, None) \<Rightarrow> (k1, False)
         | (k1, Some e) \<Rightarrow> (kdone (act (KSendError ''input'' e) k1), True))
      else (k, False))"

section \<open>The keyboard loop\<close>

(* cmd/tezzer/input.go:412-428 Client.handleStdin *)
definition start_esc :: "send_results \<Rightarrow> int \<Rightarrow> kclient \<Rightarrow> kclient" where
  "start_esc result now k =
     (let k1 = (if k_escBatchActive k then flushEscBatch result now k else k);
          k2 = (if length (k_inputBatchBuf k1) > 0 then flushInputBatch result now k1 else k1) in
      k2\<lparr>k_escBatchActive := True, k_escBatchBuf := [ESC], k_escBatchStart := now\<rparr>)"

(* cmd/tezzer/input.go:430-439 Client.handleStdin *)
definition in_esc :: "send_results \<Rightarrow> int \<Rightarrow> byte \<Rightarrow> kclient \<Rightarrow> kclient" where
  "in_esc result now b k =
     (let k1 = k\<lparr>k_escBatchBuf := k_escBatchBuf k @ [b]\<rparr> in
      if shouldFlushEscBuf (k_escBatchBuf k1) then flushEscBatch result now k1 else k1)"

(* cmd/tezzer/input.go:446-452 Client.handleStdin *)
definition plain_run :: "send_results \<Rightarrow> int \<Rightarrow> bytes \<Rightarrow> kclient \<Rightarrow> kclient" where
  "plain_run result now run k =
     (let k1 = (if length (k_inputBatchBuf k) = 0 then k\<lparr>k_inputBatchStart := now\<rparr> else k);
          k2 = k1\<lparr>k_inputBatchBuf := k_inputBatchBuf k1 @ run\<rparr> in
      if length (k_inputBatchBuf k2) \<ge> 512 then flushInputBatch result now k2 else k2)"

definition plain_byte :: "kclient \<Rightarrow> byte \<Rightarrow> bool" where
  "plain_byte k x \<longleftrightarrow> x \<noteq> ESC \<and> x \<noteq> k_escapeByte k"

text \<open>The loop over the bytes of one read. A run of plain input goes from its first byte to the
  next ESC or escape byte.\<close>

(* cmd/tezzer/input.go:325-455 Client.handleStdin *)
function key_loop ::
  "send_results \<Rightarrow> kill_result \<Rightarrow> int \<Rightarrow> bytes \<Rightarrow> kclient \<Rightarrow> kclient \<times> bool" where
  "key_loop result kill now [] k = (k, False)"
| "key_loop result kill now (b # rest) k =
     (if k_escapePressed k then
        (case escape_command result kill now b k of
           (k1, True) \<Rightarrow> (k1, True)
         | (k1, False) \<Rightarrow> key_loop result kill now rest k1)
      else if b = k_escapeByte k then key_loop result kill now rest (k\<lparr>k_escapePressed := True\<rparr>)
      else if b = ESC then key_loop result kill now rest (start_esc result now k)
      else if k_escBatchActive k then key_loop result kill now rest (in_esc result now b k)
      else key_loop result kill now (dropWhile (plain_byte k) rest)
             (plain_run result now (b # takeWhile (plain_byte k) rest) k))"
  by pat_completeness auto
termination
  by (relation "measure (\<lambda>(_, _, _, bs, _). length bs)") (auto simp: less_Suc_eq_le length_dropWhile_le)

declare key_loop.simps(2) [simp del]

text \<open>recheckFlushTimer: the delay until the pending batch is due, and the timer.\<close>

(* cmd/tezzer/input.go:262-282 Client.handleStdin *)
definition recheckFlushTimer :: "int \<Rightarrow> kclient \<Rightarrow> kclient" where
  "recheckFlushTimer now k =
     (if k_escBatchActive k
      then k\<lparr>k_timer := Some (now + max 0 (6000000 - (now - k_escBatchStart k)))\<rparr>
      else if length (k_inputBatchBuf k) > 0
      then k\<lparr>k_timer := Some (now + max 0 (2000000 - (now - k_inputBatchStart k)))\<rparr>
      else k\<lparr>k_timer := None\<rparr>)"

datatype key_event =
    KRead bytes
  | KReadEnd bool
  | KTimer

(* cmd/tezzer/input.go:307-314 Client.handleStdin *)
definition timer_fired :: "send_results \<Rightarrow> int \<Rightarrow> kclient \<Rightarrow> kclient" where
  "timer_fired result now k =
     (let k1 = (if k_escBatchActive k then flushEscBatch result now k else k);
          k2 = (if length (k_inputBatchBuf k1) > 0 then flushInputBatch result now k1 else k1) in
      recheckFlushTimer now k2)"

text \<open>One round of the select; the clock is read once. KReadEnd True is the end of file, KReadEnd
  False another error. The flag says handleStdin returns.\<close>

(* cmd/tezzer/input.go:315-463 Client.handleStdin *)
definition stdin_step ::
  "send_results \<Rightarrow> kill_result \<Rightarrow> int \<Rightarrow> key_event \<Rightarrow> kclient \<Rightarrow> kclient \<times> bool" where
  "stdin_step result kill now e k =
     (case e of
        KTimer \<Rightarrow>
          (case k_timer k of
             None \<Rightarrow> (k, False)
           | Some t \<Rightarrow> if now < t then (k, False) else (timer_fired result now (k\<lparr>k_timer := None\<rparr>), False))
      | KReadEnd eof \<Rightarrow>
          (kdone (if eof then k else act (KLog ''stdin read error'') k), True)
      | KRead data \<Rightarrow>
          (case key_loop result kill now data k of
             (k1, True) \<Rightarrow> (k1, True)
           | (k1, False) \<Rightarrow>
               (recheckFlushTimer now
                  (if length (k_inputBatchBuf k1) > 0 then flushInputBatch result now k1 else k1), False)))"

(* cmd/tezzer/input.go:245-314 Client.handleStdin *)
fun handleStdin ::
  "send_results \<Rightarrow> kill_result \<Rightarrow> (int \<times> key_event) list \<Rightarrow> kclient \<Rightarrow> kclient" where
  "handleStdin result kill [] k = k"
| "handleStdin result kill ((now, e) # evs) k =
     (case stdin_step result kill now e k of
        (k1, True) \<Rightarrow> k1
      | (k1, False) \<Rightarrow> handleStdin result kill evs k1)"

section \<open>A client and its terminal\<close>

text \<open>The Client run builds: an open connection, no transport yet. TEZZER_STATUS and TEZZER_DEBUG
  are read from the environment; modes is what the server answered on attach.\<close>

(* cmd/tezzer/main.go:464-528 run *)
definition new_kclient ::
  "string \<Rightarrow> byte \<Rightarrow> bool \<Rightarrow> bool \<Rightarrow> int \<times> int \<Rightarrow> string \<Rightarrow> string \<Rightarrow> bytes \<Rightarrow> kclient" where
  "new_kclient sid escapeByte noPty readOnly dims tezzerStatus tezzerDebug modes =
     (let redraw = (tezzerStatus = ''redraw'' \<and> \<not> noPty);
          tracker = (if redraw then Some (NewAltScreenTracker ScreenUnknown) else None);
          out = (if noPty \<or> length modes = 0
                 then tclient0\<lparr>noPTY := noPty, altScreen := tracker\<rparr>
                 else tclient0\<lparr>noPTY := noPty, altScreen := map_option (alt_scan modes) tracker,
                        stdout := modes\<rparr>) in
      \<lparr>k_out = out, k_sessionID = sid, k_conn = True, k_width = fst dims, k_height = snd dims,
       k_escapeByte = escapeByte, k_escapePressed = False, k_readOnly = readOnly, k_roWarned = False,
       k_escBatchActive = False, k_escBatchBuf = [], k_escBatchStart = 0,
       k_inputBatchBuf = [], k_inputBatchStart = 0,
       k_sendFailing = False, k_sendDropped = 0, k_sendDroppedBytes = 0,
       k_debug = (tezzerDebug \<noteq> ''''), k_statusOff = (tezzerStatus = ''off''),
       k_statusMgr = (\<not> noPty), k_statusRedraw = redraw, k_msgLog = [], k_timer = None,
       k_sent = [], k_acts = []\<rparr>)"

text \<open>What happens around the keyboard: a change of the window size, the two parts of a redraw,
  which a reconnection starts too, and the status line being cleared. win is the size the main loop
  remembers and running says that handleStdin has not returned.\<close>

datatype tty_event =
    TtyKey key_event
  | TtyWinch "(int \<times> int) option"
  | TtyShrink "(int \<times> int) option"
  | TtyRestore "(int \<times> int) option"
  | TtyCleared bool

record tty =
  win :: "int \<times> int"
  running :: bool
  tty_client :: kclient

(* cmd/tezzer/main.go:643-656 run *)
definition tty_step ::
  "send_results \<Rightarrow> kill_result \<Rightarrow> int \<times> err option \<times> tty_event \<Rightarrow> tty \<Rightarrow> tty" where
  "tty_step result kill e s =
     (case e of (now, resize, ev) \<Rightarrow>
        case ev of
          TtyKey k \<Rightarrow>
            (if running s
             then (let (c, quit) = stdin_step result kill now k (tty_client s) in
                   s\<lparr>tty_client := c, running := \<not> quit\<rparr>)
             else s)
        | TtyWinch sz \<Rightarrow>
            (case sz of
               None \<Rightarrow> s
             | Some (w, h) \<Rightarrow>
                 if w \<noteq> fst (win s) \<or> h \<noteq> snd (win s)
                 then s\<lparr>tty_client := fst (sendResize now resize w h (tty_client s)), win := (w, h)\<rparr>
                 else s)
        | TtyShrink sz \<Rightarrow> s\<lparr>tty_client := fst (redraw_shrink now resize sz (tty_client s))\<rparr>
        | TtyRestore sz \<Rightarrow> s\<lparr>tty_client := redraw_restore now resize sz (tty_client s)\<rparr>
        | TtyCleared connected \<Rightarrow> s\<lparr>tty_client := maybeRedrawAfterStatus connected (tty_client s)\<rparr>)"

section \<open>UTF-8\<close>

definition utf8_char :: "bytes \<Rightarrow> bool" where
  "utf8_char c =
     (case c of
        [] \<Rightarrow> False
      | b # r \<Rightarrow>
          if b < 0x80 then r = []
          else b \<ge> 0xC0 \<and> length r = (if b < 0xE0 then 1 else if b < 0xF0 then 2 else 3) \<and>
               list_all (\<lambda>x. 0x80 \<le> x \<and> x < 0xC0) r)"

lemma utf8_char_nonempty: "utf8_char c \<Longrightarrow> c \<noteq> []"
  by (auto simp: utf8_char_def)

lemma byte_order: "(0xC0 :: byte) \<le> b \<Longrightarrow> \<not> b < 0x80" "b < (0xC0 :: byte) \<Longrightarrow> \<not> 0xC0 \<le> b"
  "(0x80 :: byte) \<le> b \<Longrightarrow> \<not> b < 0x80"
  by (auto simp: word_less_nat_alt word_le_nat_alt)

lemma trail_loop_suffix:
  "trail_loop i l xs > 0 \<Longrightarrow> l \<le> l' \<Longrightarrow> trail_loop i l' (xs @ ys) = trail_loop i l xs"
  by (induction i l xs rule: trail_loop.induct) (auto simp: Let_def split: if_splits)

lemma trail_suffix:
  assumes "utf8IncompleteTrail s > 0"
  shows "utf8IncompleteTrail (p @ s) = utf8IncompleteTrail s"
proof -
  have "trail_loop 1 (min 3 (length (p @ s))) (rev s @ rev p) = trail_loop 1 (min 3 (length s)) (rev s)"
    using assms by (intro trail_loop_suffix) (auto simp: utf8IncompleteTrail_def Let_def min_def split: if_splits)
  then show ?thesis
    using assms by (auto simp: utf8IncompleteTrail_def Let_def min_def split: if_splits)
qed

lemma trail_le: "trail_loop i l xs = 0 \<or> trail_loop i l xs < i + length xs"
  by (induction i l xs rule: trail_loop.induct) (auto simp: Let_def)

lemma trail_le_length: "utf8IncompleteTrail s \<le> length s"
  using trail_le [of 1 "if 3 > length s then length s else 3" "rev s"]
  by (auto simp: utf8IncompleteTrail_def Let_def)

text \<open>A whole character leaves no trail, a begun one is the trail.\<close>

lemma trail_char:
  assumes "utf8_char c"
  shows "utf8IncompleteTrail (p @ c) = 0"
proof -
  obtain b r where c: "c = b # r" using assms by (cases c) (auto simp: utf8_char_def)
  consider "b < 0x80" "r = []"
    | r1 where "0xC0 \<le> b" "b < 0xE0" "r = [r1]"
    | r1 r2 where "0xC0 \<le> b" "\<not> b < 0xE0" "b < 0xF0" "r = [r1, r2]"
    | r1 r2 r3 where "0xC0 \<le> b" "\<not> b < 0xE0" "\<not> b < 0xF0" "r = [r1, r2, r3]"
    using assms unfolding c
    by (auto simp: utf8_char_def numeral_2_eq_2 numeral_3_eq_3 length_Suc_conv split: if_splits)
  then show ?thesis
    using assms unfolding c
    by cases (auto simp: utf8_char_def utf8IncompleteTrail_def Let_def byte_order)
qed

lemma trail_begun:
  assumes "utf8_char c" "strict_prefix p c"
  shows "utf8IncompleteTrail p = length p"
proof -
  obtain b r where c: "c = b # r" using assms by (cases c) (auto simp: utf8_char_def)
  show ?thesis
  proof (cases p)
    case (Cons x p1)
    with assms(2) c have p: "p = b # p1" and q: "strict_prefix p1 r" by auto
    from q have l: "length p1 < length r" by (rule prefix_length_less)
    from q have s: "set p1 \<subseteq> set r" by (meson set_mono_prefix strict_prefix_def)
    have r: "0xC0 \<le> b" "length r = (if b < 0xE0 then 1 else if b < 0xF0 then 2 else 3)"
      "\<forall>x\<in>set p1. 0x80 \<le> x \<and> x < 0xC0"
      using assms(1) l s unfolding c by (auto simp: utf8_char_def list_all_iff split: if_splits)
    have "p1 = [] \<or> (\<exists>x. p1 = [x]) \<or> (\<exists>x y. p1 = [x, y])"
      using l r(2) by (cases p1 rule: list.exhaust [OF _ ])
        (auto simp: length_Suc_conv numeral_2_eq_2 less_Suc_eq split: if_splits)
    then show ?thesis
      using r l unfolding p by (auto simp: utf8IncompleteTrail_def Let_def byte_order split: if_splits)
  qed (simp add: utf8IncompleteTrail_def)
qed

lemma trail_text:
  assumes "list_all utf8_char cs" "p = [] \<or> utf8_char c \<and> strict_prefix p c"
  shows "utf8IncompleteTrail (concat cs @ p) = length p"
proof (cases "p = []")
  case True
  show ?thesis
  proof (cases cs rule: rev_cases)
    case (snoc cs' d)
    then show ?thesis using assms True trail_char [of d "concat cs'"] by simp
  qed (simp add: True utf8IncompleteTrail_def)
next
  case False
  with assms(2) have "utf8IncompleteTrail p = length p" by (auto intro: trail_begun)
  with False show ?thesis using trail_suffix [of p] by simp
qed

text \<open>A prefix of a text is whole characters and the beginning of the next.\<close>

lemma text_prefix:
  assumes "prefix t (concat cs)"
  shows "\<exists>n p. n \<le> length cs \<and> t = concat (take n cs) @ p \<and> (p = [] \<or> n < length cs \<and> strict_prefix p (cs ! n))"
  using assms
proof (induction cs arbitrary: t)
  case (Cons c cs)
  show ?case
  proof (cases "strict_prefix t c")
    case True
    then show ?thesis by (intro exI [of _ 0] exI [of _ t]) simp
  next
    case False
    with Cons.prems have "prefix c t"
      by (metis concat.simps(2) prefixI prefix_order.less_le prefix_same_cases)
    then obtain t' where t: "t = c @ t'" by (auto elim: prefixE)
    with Cons.prems obtain n p where "n \<le> length cs" "t' = concat (take n cs) @ p"
      "p = [] \<or> n < length cs \<and> strict_prefix p (cs ! n)"
      using Cons.IH [of t'] by auto
    then show ?thesis using t by (intro exI [of _ "Suc n"] exI [of _ p]) simp
  qed
qed simp

lemma trail_before_ascii:
  assumes "list_all utf8_char cs" "prefix (t @ b # u) (concat cs)" "b < 0x80"
  shows "utf8IncompleteTrail t = 0"
proof -
  obtain n p where n: "n \<le> length cs" "t = concat (take n cs) @ p"
    "p = [] \<or> n < length cs \<and> strict_prefix p (cs ! n)"
    using text_prefix [of t cs] assms(2) by (meson append_prefixD)
  have ok: "list_all utf8_char (take n cs)" using assms(1) by (simp add: list_all_length)
  have "p = []"
  proof (rule ccontr)
    assume p: "p \<noteq> []"
    with n(3) have m: "n < length cs" "strict_prefix p (cs ! n)" by auto
    then obtain x q where x: "cs ! n = p @ x # q"
      by (metis strict_prefixE')
    have c: "utf8_char (cs ! n)" using m(1) assms(1) by (simp add: list_all_length)
    have "cs = take n cs @ cs ! n # drop (Suc n) cs" using m(1) by (simp add: id_take_nth_drop)
    then have "concat cs = concat (take n cs) @ p @ x # q @ concat (drop (Suc n) cs)"
      using x by (metis append.assoc append_Cons concat.simps(2) concat_append)
    with assms(2) n(2) have "b = x" by auto
    moreover from c x p have "\<not> x < 0x80"
      by (cases p) (auto simp: utf8_char_def list_all_iff byte_order split: if_splits)
    ultimately show False using assms(3) by simp
  qed
  then show ?thesis using trail_text [OF ok, of p] n(2) by simp
qed

section \<open>What the user typed\<close>

text \<open>The input meant for the session: what is typed without the escape key and its commands.
  pressed is k_escapePressed after the bytes; stays says that no command ends the loop or sends
  the escape byte itself.\<close>

fun typed :: "byte \<Rightarrow> bool \<Rightarrow> bytes \<Rightarrow> bytes" where
  "typed e p [] = []"
| "typed e True (b # bs) = typed e False bs"
| "typed e False (b # bs) = (if b = e then typed e True bs else b # typed e False bs)"

fun pressed :: "byte \<Rightarrow> bool \<Rightarrow> bytes \<Rightarrow> bool" where
  "pressed e p [] = p"
| "pressed e True (b # bs) = pressed e False bs"
| "pressed e False (b # bs) = pressed e (b = e) bs"

fun stays :: "byte \<Rightarrow> bool \<Rightarrow> bytes \<Rightarrow> bool" where
  "stays e p [] = True"
| "stays e True (b # bs) = (b \<notin> {0x2E, 0x71, e} \<and> stays e False bs)"
| "stays e False (b # bs) = stays e (b = e) bs"

lemma typed_append: "typed e p (a @ b) = typed e p a @ typed e (pressed e p a) b"
  by (induction e p a rule: typed.induct) auto

lemma stays_append: "stays e p (a @ b) \<longleftrightarrow> stays e p a \<and> stays e (pressed e p a) b"
  by (induction e p a rule: stays.induct) auto

lemma pressed_append: "pressed e p (a @ b) = pressed e (pressed e p a) b"
  by (induction e p a rule: pressed.induct) auto

lemma plain_run_typed:
  assumes "\<forall>x\<in>set r. x \<noteq> e"
  shows "typed e False (r @ bs) = r @ typed e False bs" "pressed e False (r @ bs) = pressed e False bs"
    "stays e False (r @ bs) = stays e False bs"
  using assms by (induction r) auto

section \<open>The invariant of the loop\<close>

text \<open>What was sent together with what is pending is what was typed, and while an escape
  sequence is collected no plain input is pending. For text without escape sequences (w) each
  input that was sent consists of whole characters.\<close>

definition whole :: "bytes list \<Rightarrow> bytes \<Rightarrow> bool" where
  "whole cs x \<longleftrightarrow> (\<exists>ds. x = concat ds \<and> set ds \<subseteq> set cs)"

definition text_inv :: "bytes list \<Rightarrow> kclient \<Rightarrow> bool" where
  "text_inv cs k \<longleftrightarrow>
     \<not> k_escBatchActive k \<and> (\<exists>n. concat (k_sent k) = concat (take n cs)) \<and> list_all (whole cs) (k_sent k)"

definition key_inv :: "bool \<Rightarrow> bytes list \<Rightarrow> bytes \<Rightarrow> kclient \<Rightarrow> bool" where
  "key_inv w cs t k \<longleftrightarrow>
     \<not> k_readOnly k \<and> concat (k_sent k) @ k_inputBatchBuf k @ k_escBatchBuf k = t \<and>
     (if k_escBatchActive k then k_inputBatchBuf k = [] \<and> k_escBatchBuf k \<noteq> [] \<and> length (k_escBatchBuf k) < 32
      else k_escBatchBuf k = []) \<and>
     (w \<longrightarrow> text_inv cs k)"

definition text_ok :: "bool \<Rightarrow> bytes list \<Rightarrow> bytes \<Rightarrow> bool" where
  "text_ok w cs t \<longleftrightarrow> list_all utf8_char cs \<and> prefix t (concat cs) \<and> (w \<longrightarrow> ESC \<notin> set t)"

lemma text_ok_prefix: "text_ok w cs (t @ u) \<Longrightarrow> text_ok w cs t"
  by (auto simp: text_ok_def dest: append_prefixD)

lemma noteSendResult_fields [simp]:
  "k_sent (noteSendResult kind n r k) = k_sent k"
  "k_readOnly (noteSendResult kind n r k) = k_readOnly k"
  "k_escapeByte (noteSendResult kind n r k) = k_escapeByte k"
  "k_escapePressed (noteSendResult kind n r k) = k_escapePressed k"
  "k_escBatchActive (noteSendResult kind n r k) = k_escBatchActive k"
  "k_escBatchBuf (noteSendResult kind n r k) = k_escBatchBuf k"
  "k_inputBatchBuf (noteSendResult kind n r k) = k_inputBatchBuf k"
  by (auto simp: noteSendResult_def act_def Let_def split: option.splits)

lemma showRequestedStatus_fields [simp]:
  "k_sent (showRequestedStatus now m k) = k_sent k"
  "k_readOnly (showRequestedStatus now m k) = k_readOnly k"
  "k_escapeByte (showRequestedStatus now m k) = k_escapeByte k"
  "k_escapePressed (showRequestedStatus now m k) = k_escapePressed k"
  "k_escBatchActive (showRequestedStatus now m k) = k_escBatchActive k"
  "k_escBatchBuf (showRequestedStatus now m k) = k_escBatchBuf k"
  "k_inputBatchBuf (showRequestedStatus now m k) = k_inputBatchBuf k"
  by (auto simp: showRequestedStatus_def addLogMessage_def act_def Let_def)

lemma send_noted_fields [simp]:
  "k_sent (send_noted r now kind d k) = (if k_readOnly k then k_sent k else k_sent k @ [d])"
  "k_readOnly (send_noted r now kind d k) = k_readOnly k"
  "k_escapeByte (send_noted r now kind d k) = k_escapeByte k"
  "k_escapePressed (send_noted r now kind d k) = k_escapePressed k"
  "k_escBatchActive (send_noted r now kind d k) = k_escBatchActive k"
  "k_escBatchBuf (send_noted r now kind d k) = k_escBatchBuf k"
  "k_inputBatchBuf (send_noted r now kind d k) = k_inputBatchBuf k"
  by (auto simp: send_noted_def sendInputBytes_def Let_def)

lemma flushEscBatch_fields [simp]:
  "k_readOnly (flushEscBatch r now k) = k_readOnly k"
  "k_escapeByte (flushEscBatch r now k) = k_escapeByte k"
  "k_escapePressed (flushEscBatch r now k) = k_escapePressed k"
  "k_inputBatchBuf (flushEscBatch r now k) = k_inputBatchBuf k"
  by (auto simp: flushEscBatch_def)

lemma flushInputBatch_fields [simp]:
  "k_readOnly (flushInputBatch r now k) = k_readOnly k"
  "k_escapeByte (flushInputBatch r now k) = k_escapeByte k"
  "k_escapePressed (flushInputBatch r now k) = k_escapePressed k"
  "k_escBatchActive (flushInputBatch r now k) = k_escBatchActive k"
  "k_escBatchBuf (flushInputBatch r now k) = k_escBatchBuf k"
  by (auto simp: flushInputBatch_def Let_def)

lemma flushEscBatch_sends:
  "k_escBatchActive k \<Longrightarrow> k_escBatchBuf k \<noteq> [] \<Longrightarrow>
   k_escBatchActive (flushEscBatch r now k) = False \<and> k_escBatchBuf (flushEscBatch r now k) = [] \<and>
   k_sent (flushEscBatch r now k) = (if k_readOnly k then k_sent k else k_sent k @ [k_escBatchBuf k])"
  by (simp add: flushEscBatch_def)

lemma flushInputBatch_sends:
  assumes "\<not> k_readOnly k"
  defines "t \<equiv> utf8IncompleteTrail (k_inputBatchBuf k)"
  defines "n \<equiv> length (k_inputBatchBuf k) - t"
  shows "k_inputBatchBuf (flushInputBatch r now k) = drop n (k_inputBatchBuf k)"
    "k_sent (flushInputBatch r now k) = k_sent k @ (if n = 0 then [] else [take n (k_inputBatchBuf k)])"
  using assms(1) trail_le_length [of "k_inputBatchBuf k"]
  by (auto simp: flushInputBatch_def Let_def t_def n_def)

lemma flushInputBatch_all:
  "\<not> k_readOnly k \<Longrightarrow> concat (k_sent (flushInputBatch r now k)) @ k_inputBatchBuf (flushInputBatch r now k) =
     concat (k_sent k) @ k_inputBatchBuf k"
  by (simp add: flushInputBatch_sends)

text \<open>A flush of text sends all whole characters and keeps the beginning of the next one.\<close>

definition begun :: "bytes list \<Rightarrow> bytes \<Rightarrow> bool" where
  "begun cs p \<longleftrightarrow> p = [] \<or> (\<exists>c\<in>set cs. strict_prefix p c)"

lemma flush_text:
  assumes "text_inv cs k" "\<not> k_readOnly k" "list_all utf8_char cs"
    "prefix (concat (k_sent k) @ k_inputBatchBuf k) (concat cs)"
  shows "text_inv cs (flushInputBatch r now k) \<and> begun cs (k_inputBatchBuf (flushInputBatch r now k))"
proof -
  obtain n where n: "concat (k_sent k) = concat (take n cs)" using assms(1) by (auto simp: text_inv_def)
  have "concat cs = concat (take n cs) @ concat (drop n cs)"
    by (metis append_take_drop_id concat_append)
  with assms(4) n have "prefix (k_inputBatchBuf k) (concat (drop n cs))" by simp
  then obtain m p where m: "k_inputBatchBuf k = concat (take m (drop n cs)) @ p"
    "p = [] \<or> m < length (drop n cs) \<and> strict_prefix p (drop n cs ! m)"
    using text_prefix by blast
  have c: "m < length (drop n cs) \<Longrightarrow> drop n cs ! m \<in> set cs"
    by (metis in_set_dropD nth_mem)
  have all: "list_all utf8_char (take m (drop n cs))"
    using assms(3) by (auto simp: list_all_iff dest!: in_set_takeD in_set_dropD)
  have "utf8IncompleteTrail (k_inputBatchBuf k) = length p"
    using trail_text [OF all, of p "drop n cs ! m"] m c assms(3) by (auto simp: list_all_iff)
  then have f: "k_inputBatchBuf (flushInputBatch r now k) = p"
    "k_sent (flushInputBatch r now k) =
       k_sent k @ (if concat (take m (drop n cs)) = [] then [] else [concat (take m (drop n cs))])"
    using flushInputBatch_sends [OF assms(2), of r now] by (simp_all add: m(1))
  have "concat (k_sent (flushInputBatch r now k)) = concat (take (n + m) cs)"
    using n f(2) by (simp add: take_add)
  moreover have "whole cs (concat (take m (drop n cs)))"
    unfolding whole_def by (intro exI conjI refl) (auto dest!: in_set_takeD in_set_dropD)
  ultimately show ?thesis
    using assms(1) f m(2) c by (auto simp: text_inv_def begun_def)
qed

lemma key_inv_flushInput:
  assumes "key_inv w cs t k" "text_ok w cs t"
  shows "key_inv w cs t (flushInputBatch r now k)"
proof -
  have "w \<Longrightarrow> text_inv cs (flushInputBatch r now k)"
    using assms flush_text [of cs k r now]
    by (auto simp: key_inv_def text_inv_def text_ok_def)
  then show ?thesis
    using assms(1) flushInputBatch_all [of k r now]
    by (auto simp: key_inv_def flushInputBatch_sends split: if_splits)
qed

lemma key_inv_flushEsc:
  "key_inv w cs t k \<Longrightarrow> key_inv w cs t (flushEscBatch r now k) \<and> k_escBatchActive (flushEscBatch r now k) = False"
  by (cases "k_escBatchActive k")
    (auto simp: key_inv_def text_inv_def flushEscBatch_sends, auto simp: flushEscBatch_def)

lemma escape_command_inv:
  assumes "key_inv w cs t k" "b \<notin> {0x2E, 0x71, k_escapeByte k}"
  shows "\<exists>k'. escape_command r kl now b k = (k', False) \<and> key_inv w cs t k' \<and>
     \<not> k_escapePressed k' \<and> k_escapeByte k' = k_escapeByte k"
  using assms
  by (auto simp: escape_command_def Let_def key_inv_def text_inv_def act_def showHelp_def toggleDebug_def
      resetScrollRegion_def split del: if_split split: if_split)

lemma start_esc_inv:
  assumes "key_inv w cs t k" "\<not> k_escBatchActive k \<Longrightarrow> utf8IncompleteTrail t = 0"
    "text_ok w cs (t @ ESC # u)"
  shows "key_inv w cs (t @ [ESC]) (start_esc r now k)"
proof -
  define k1 where "k1 = (if k_escBatchActive k then flushEscBatch r now k else k)"
  have k1: "key_inv w cs t k1" "\<not> k_escBatchActive k1"
    using key_inv_flushEsc [OF assms(1)] assms(1) by (auto simp: k1_def)
  have trail: "utf8IncompleteTrail (k_inputBatchBuf k1) = 0"
  proof (cases "k_escBatchActive k")
    case True
    then show ?thesis using assms(1) by (simp add: k1_def key_inv_def utf8IncompleteTrail_def)
  next
    case False
    then have "t = concat (k_sent k) @ k_inputBatchBuf k1" using assms(1) by (auto simp: key_inv_def k1_def)
    then show ?thesis using assms(2) [OF False] trail_suffix by (metis gr0I)
  qed
  define k2 where "k2 = (if length (k_inputBatchBuf k1) > 0 then flushInputBatch r now k1 else k1)"
  have "key_inv w cs t k2" using k1 assms(3) by (auto simp: k2_def intro: key_inv_flushInput text_ok_prefix)
  moreover have "k_inputBatchBuf k2 = []" "\<not> k_escBatchActive k2"
    using k1 trail by (auto simp: k2_def flushInputBatch_sends key_inv_def)
  moreover have "start_esc r now k = k2\<lparr>k_escBatchActive := True, k_escBatchBuf := [ESC], k_escBatchStart := now\<rparr>"
    by (simp add: start_esc_def k1_def k2_def Let_def)
  moreover have "\<not> w" using assms(3) by (auto simp: text_ok_def)
  ultimately show ?thesis by (auto simp: key_inv_def)
qed

lemma shouldFlush_full: "\<not> shouldFlushEscBuf buf \<Longrightarrow> length buf < 32"
  by (simp add: shouldFlushEscBuf_def Let_def split: if_splits)

lemma in_esc_inv:
  assumes "key_inv w cs t k" "k_escBatchActive k"
  shows "key_inv w cs (t @ [b]) (in_esc r now b k)"
  using assms
  by (auto simp: in_esc_def key_inv_def text_inv_def Let_def flushEscBatch_sends dest: shouldFlush_full)

lemma plain_run_inv:
  assumes "key_inv w cs t k" "\<not> k_escBatchActive k" "text_ok w cs (t @ run)"
  shows "key_inv w cs (t @ run) (plain_run r now run k)"
proof -
  define k2 where "k2 = (if length (k_inputBatchBuf k) = 0 then k\<lparr>k_inputBatchStart := now\<rparr> else k)
    \<lparr>k_inputBatchBuf := k_inputBatchBuf k @ run\<rparr>"
  have "key_inv w cs (t @ run) k2" using assms by (auto simp: key_inv_def text_inv_def k2_def)
  moreover have "plain_run r now run k = (if length (k_inputBatchBuf k2) \<ge> 512 then flushInputBatch r now k2 else k2)"
    by (simp add: plain_run_def k2_def Let_def)
  ultimately show ?thesis using assms(3) by (simp add: key_inv_flushInput)
qed

lemma start_esc_fields [simp]:
  "k_escapeByte (start_esc r now k) = k_escapeByte k"
  "k_escapePressed (start_esc r now k) = k_escapePressed k"
  by (auto simp: start_esc_def Let_def)

lemma in_esc_fields [simp]:
  "k_escapeByte (in_esc r now b k) = k_escapeByte k"
  "k_escapePressed (in_esc r now b k) = k_escapePressed k"
  by (auto simp: in_esc_def Let_def)

lemma plain_run_fields [simp]:
  "k_escapeByte (plain_run r now run k) = k_escapeByte k"
  "k_escapePressed (plain_run r now run k) = k_escapePressed k"
  "k_escBatchActive (plain_run r now run k) = k_escBatchActive k"
  by (auto simp: plain_run_def Let_def)

lemma key_inv_pressed: "key_inv w cs t k \<Longrightarrow> key_inv w cs t (k\<lparr>k_escapePressed := p\<rparr>)"
  by (simp add: key_inv_def text_inv_def)

definition key_result :: "bool \<Rightarrow> bytes list \<Rightarrow> bytes \<Rightarrow> bytes \<Rightarrow> kclient \<Rightarrow> kclient \<times> bool \<Rightarrow> bool" where
  "key_result w cs t bs k res \<longleftrightarrow>
     \<not> snd res \<and> key_inv w cs (t @ typed (k_escapeByte k) (k_escapePressed k) bs) (fst res) \<and>
     k_escapePressed (fst res) = pressed (k_escapeByte k) (k_escapePressed k) bs \<and>
     k_escapeByte (fst res) = k_escapeByte k"

lemma key_loop_inv:
  assumes "key_inv w cs t k" "text_ok w cs (t @ typed (k_escapeByte k) (k_escapePressed k) bs)"
    "stays (k_escapeByte k) (k_escapePressed k) bs"
  shows "key_result w cs t bs k (key_loop r kl now bs k)"
  using assms
proof (induction r kl now bs k arbitrary: t rule: key_loop.induct)
  case (1 r kl now k)
  then show ?case by (simp add: key_result_def)
next
  case (2 r kl now b rest k)
  note IH = "2.IH" and inv = "2.prems"(1) and tok = "2.prems"(2) and ok = "2.prems"(3)
  consider "k_escapePressed k" | "\<not> k_escapePressed k" "b = k_escapeByte k"
    | "\<not> k_escapePressed k" "b \<noteq> k_escapeByte k" "b = ESC"
    | "\<not> k_escapePressed k" "b \<noteq> k_escapeByte k" "b \<noteq> ESC" "k_escBatchActive k"
    | "\<not> k_escapePressed k" "b \<noteq> k_escapeByte k" "b \<noteq> ESC" "\<not> k_escBatchActive k"
    by blast
  then show ?case
  proof cases
    case 1
    obtain k' where k': "escape_command r kl now b k = (k', False)" "key_inv w cs t k'" "\<not> k_escapePressed k'"
      "k_escapeByte k' = k_escapeByte k"
      using escape_command_inv [OF inv, of b r kl now] ok 1 by auto
    have "key_result w cs t rest k' (key_loop r kl now rest k')"
      using IH(1) [OF 1 k'(1) [symmetric]] k' tok ok 1 by auto
    then show ?thesis using 1 k' by (simp add: key_loop.simps(2) key_result_def)
  next
    case 2
    let ?k = "k\<lparr>k_escapePressed := True\<rparr>"
    have "key_result w cs t rest ?k (key_loop r kl now rest ?k)"
      using IH(2) [of t] key_inv_pressed [OF inv] tok ok 2 by simp
    then show ?thesis using 2 by (simp add: key_loop.simps(2) key_result_def)
  next
    case 3
    have "utf8IncompleteTrail t = 0"
      using trail_before_ascii [of cs t ESC] tok 3 by (auto simp: text_ok_def)
    then have i: "key_inv w cs (t @ [ESC]) (start_esc r now k)"
      using 3 tok by (intro start_esc_inv [where u = "typed (k_escapeByte k) False rest"] inv) simp_all
    have "key_result w cs (t @ [ESC]) rest (start_esc r now k) (key_loop r kl now rest (start_esc r now k))"
      by (intro IH(3)) (use 3 i tok ok in simp_all)
    then show ?thesis using 3 by (simp add: key_loop.simps(2) key_result_def)
  next
    case 4
    have i: "key_inv w cs (t @ [b]) (in_esc r now b k)" by (intro in_esc_inv inv 4)
    have "key_result w cs (t @ [b]) rest (in_esc r now b k) (key_loop r kl now rest (in_esc r now b k))"
      by (intro IH(4)) (use 4 i tok ok in simp_all)
    then show ?thesis using 4 by (simp add: key_loop.simps(2) key_result_def)
  next
    case 5
    let ?run = "b # takeWhile (plain_byte k) rest" and ?rest = "dropWhile (plain_byte k) rest"
    let ?k = "plain_run r now ?run k"
    have e: "\<forall>x\<in>set ?run. x \<noteq> k_escapeByte k"
      using 5 by (auto simp: plain_byte_def dest: set_takeWhileD)
    have s: "b # rest = ?run @ ?rest" by simp
    have i: "key_inv w cs (t @ ?run) ?k" 
    proof (intro plain_run_inv inv 5)
      show "text_ok w cs (t @ ?run)"
        using tok 5 plain_run_typed [OF e, of ?rest]
        by (intro text_ok_prefix [of w cs "t @ ?run" "typed (k_escapeByte k) False ?rest"]) simp
    qed
    have "key_result w cs (t @ ?run) ?rest ?k (key_loop r kl now ?rest ?k)"
      by (intro IH(5)) (use 5 i tok ok plain_run_typed [OF e, of ?rest] in simp_all)
    then show ?thesis
      using 5 plain_run_typed [OF e, of ?rest] by (simp add: key_loop.simps(2) key_result_def)
  qed
qed

section \<open>The order and the wholeness of what is sent\<close>

text \<open>What the terminal delivers until the first read error.\<close>

fun reads :: "(int \<times> key_event) list \<Rightarrow> bytes" where
  "reads [] = []"
| "reads ((now, KRead d) # evs) = d @ reads evs"
| "reads ((now, KTimer) # evs) = reads evs"
| "reads ((now, KReadEnd eof) # evs) = []"

text \<open>Between two rounds of the loop a pending batch has an armed timer, and text waits only as
  the beginning of a character.\<close>

definition rest_inv :: "bool \<Rightarrow> bytes list \<Rightarrow> bytes \<Rightarrow> kclient \<Rightarrow> bool" where
  "rest_inv w cs t k \<longleftrightarrow>
     key_inv w cs t k \<and> (k_timer k = None \<longrightarrow> \<not> k_escBatchActive k \<and> k_inputBatchBuf k = []) \<and>
     (w \<longrightarrow> begun cs (k_inputBatchBuf k))"

lemma recheck_fields [simp]:
  "k_sent (recheckFlushTimer now k) = k_sent k"
  "k_readOnly (recheckFlushTimer now k) = k_readOnly k"
  "k_escapeByte (recheckFlushTimer now k) = k_escapeByte k"
  "k_escapePressed (recheckFlushTimer now k) = k_escapePressed k"
  "k_escBatchActive (recheckFlushTimer now k) = k_escBatchActive k"
  "k_escBatchBuf (recheckFlushTimer now k) = k_escBatchBuf k"
  "k_inputBatchBuf (recheckFlushTimer now k) = k_inputBatchBuf k"
  "k_timer (recheckFlushTimer now k) = None \<longleftrightarrow> \<not> k_escBatchActive k \<and> k_inputBatchBuf k = []"
  by (auto simp: recheckFlushTimer_def)

lemma key_inv_cong:
  "k_sent k' = k_sent k \<Longrightarrow> k_readOnly k' = k_readOnly k \<Longrightarrow> k_escBatchActive k' = k_escBatchActive k \<Longrightarrow>
   k_escBatchBuf k' = k_escBatchBuf k \<Longrightarrow> k_inputBatchBuf k' = k_inputBatchBuf k \<Longrightarrow>
   key_inv w cs t k' = key_inv w cs t k"
  by (simp add: key_inv_def text_inv_def)

lemma flush_rest:
  assumes "key_inv w cs t k" "text_ok w cs t"
  shows "rest_inv w cs t (recheckFlushTimer now
    (if length (k_inputBatchBuf k) > 0 then flushInputBatch r now k else k))"
proof -
  define k' where "k' = (if length (k_inputBatchBuf k) > 0 then flushInputBatch r now k else k)"
  have "key_inv w cs t k'" using assms by (simp add: k'_def key_inv_flushInput)
  moreover have "w \<Longrightarrow> begun cs (k_inputBatchBuf k')"
    using assms(1,2) flush_text [of cs k r now]
    by (auto simp: k'_def key_inv_def text_inv_def text_ok_def begun_def)
  moreover have "key_inv w cs t (recheckFlushTimer now k') = key_inv w cs t k'"
    by (rule key_inv_cong) simp_all
  ultimately show ?thesis unfolding k'_def [symmetric] by (simp add: rest_inv_def)
qed

lemma timer_fired_rest:
  assumes "key_inv w cs t k" "text_ok w cs t"
  shows "rest_inv w cs t (timer_fired r now k) \<and> \<not> k_escBatchActive (timer_fired r now k)"
proof -
  define k1 where "k1 = (if k_escBatchActive k then flushEscBatch r now k else k)"
  have k1: "key_inv w cs t k1" "\<not> k_escBatchActive k1"
    using key_inv_flushEsc [OF assms(1)] assms(1) by (auto simp: k1_def)
  have "timer_fired r now k =
      recheckFlushTimer now (if length (k_inputBatchBuf k1) > 0 then flushInputBatch r now k1 else k1)"
    by (simp add: timer_fired_def k1_def Let_def)
  then show ?thesis using flush_rest [OF k1(1) assms(2)] k1(2) by simp
qed

lemma timer_fired_keys [simp]:
  "k_escapeByte (timer_fired r now k) = k_escapeByte k"
  "k_escapePressed (timer_fired r now k) = k_escapePressed k"
  by (auto simp: timer_fired_def Let_def)

lemma stdin_inv:
  assumes "rest_inv w cs t k" "text_ok w cs (t @ typed (k_escapeByte k) (k_escapePressed k) (reads evs))"
    "stays (k_escapeByte k) (k_escapePressed k) (reads evs)"
  shows "rest_inv w cs (t @ typed (k_escapeByte k) (k_escapePressed k) (reads evs)) (handleStdin r kl evs k)"
  using assms
proof (induction evs arbitrary: t k rule: reads.induct)
  case (2 now d evs)
  let ?e = "k_escapeByte k" and ?p = "k_escapePressed k"
  let ?t = "t @ typed ?e ?p d"
  have ok: "text_ok w cs (?t @ typed ?e (pressed ?e ?p d) (reads evs))"
    using "2.prems"(2) by (simp add: typed_append)
  then have okd: "text_ok w cs ?t" by (rule text_ok_prefix)
  have st: "stays ?e ?p d" "stays ?e (pressed ?e ?p d) (reads evs)"
    using "2.prems"(3) by (simp_all add: stays_append)
  obtain k1 b where k1: "key_loop r kl now d k = (k1, b)" by (cases "key_loop r kl now d k")
  have "key_result w cs t d k (k1, b)"
    using key_loop_inv [of w cs t k d r kl now] "2.prems"(1) okd st(1) k1 by (simp add: rest_inv_def)
  then have res: "\<not> b" "key_inv w cs ?t k1" "k_escapePressed k1 = pressed ?e ?p d" "k_escapeByte k1 = ?e"
    by (simp_all add: key_result_def)
  define k2 where "k2 = recheckFlushTimer now (if length (k_inputBatchBuf k1) > 0 then flushInputBatch r now k1 else k1)"
  have "rest_inv w cs ?t k2" unfolding k2_def by (rule flush_rest [OF res(2) okd])
  moreover have "k_escapeByte k2 = ?e" "k_escapePressed k2 = pressed ?e ?p d"
    using res by (simp_all add: k2_def)
  ultimately have "rest_inv w cs (?t @ typed ?e (pressed ?e ?p d) (reads evs)) (handleStdin r kl evs k2)"
    using "2.IH" [of ?t k2] ok st(2) by simp
  moreover have "stdin_step r kl now (KRead d) k = (k2, False)"
    using k1 res(1) by (simp add: stdin_step_def k2_def)
  ultimately show ?case by (simp add: typed_append)
next
  case (3 now evs)
  have "text_ok w cs t" using "3.prems"(2) by (rule text_ok_prefix)
  have i: "key_inv w cs t (k\<lparr>k_timer := None\<rparr>)"
    using "3.prems"(1) by (subst key_inv_cong [of _ k]) (simp_all add: rest_inv_def)
  show ?case
  proof (cases "k_timer k")
    case (Some due)
    then show ?thesis
      using "3.IH" [of t "timer_fired r now (k\<lparr>k_timer := None\<rparr>)"] "3.IH" [of t k] "3.prems"
        timer_fired_rest [OF i \<open>text_ok w cs t\<close>, of r now]
      by (simp add: stdin_step_def)
  qed (use 3 in \<open>simp add: stdin_step_def\<close>)
next
  case (4 now eof evs)
  have "key_inv w cs t (kdone (if eof then k else act (KLog ''stdin read error'') k))"
    using "4.prems"(1) by (subst key_inv_cong [of _ k]) (simp_all add: rest_inv_def kdone_def on_out_def act_def)
  then show ?case
    using "4.prems"(1) by (simp add: stdin_step_def rest_inv_def kdone_def on_out_def act_def)
qed simp

abbreviation typing_client :: "byte \<Rightarrow> bool \<Rightarrow> kclient" where
  "typing_client e ro \<equiv> new_kclient ''s'' e False ro (80, 24) '''' '''' []"

lemma rest_inv_new: "rest_inv w cs [] (new_kclient sid e np False dims env dbg tm)"
  by (auto simp: rest_inv_def key_inv_def text_inv_def begun_def new_kclient_def Let_def intro: exI [of _ 0])

lemma new_kclient_fields [simp]:
  "k_escapeByte (new_kclient sid e np ro dims env dbg tm) = e"
  "k_escapePressed (new_kclient sid e np ro dims env dbg tm) = False"
  "k_readOnly (new_kclient sid e np ro dims env dbg tm) = ro"
  "k_sent (new_kclient sid e np ro dims env dbg tm) = []"
  "k_acts (new_kclient sid e np ro dims env dbg tm) = []"
  by (simp_all add: new_kclient_def Let_def)

lemma handle_rest:
  assumes "list_all utf8_char cs" "prefix (typed e False (reads evs)) (concat cs)" "stays e False (reads evs)"
    "w \<longrightarrow> ESC \<notin> set (typed e False (reads evs))"
  shows "rest_inv w cs (typed e False (reads evs))
     (handleStdin r kl evs (new_kclient sid e np False dims env dbg tm))"
  using stdin_inv [of w cs "[]" "new_kclient sid e np False dims env dbg tm" evs r kl] rest_inv_new assms
  by (simp add: text_ok_def)

text \<open>C22. What the user types reaches the session in order: however the terminal splits UTF-8 text with
  escape sequences into reads, whenever the flush timer fires and whatever the sends answer, what
  was sent followed by what is pending is the typed text without the commands of the escape key;
  what is pending has an armed timer, and when that fires a pending escape sequence is sent.
  Left out (stays) are the commands that end the client, and the escape key typed twice, which is sent
  before what was typed ahead of it in the same read (literal_escape_overtakes).\<close>

theorem typed_text_in_order:
  assumes "list_all utf8_char cs" "prefix (typed e False (reads evs)) (concat cs)" "stays e False (reads evs)"
  assumes k: "k = handleStdin r kl evs (new_kclient sid e np False dims env dbg tm)"
  shows "concat (k_sent k) @ k_inputBatchBuf k @ k_escBatchBuf k = typed e False (reads evs) \<and>
     length (k_escBatchBuf k) < 32 \<and>
     (k_inputBatchBuf k @ k_escBatchBuf k \<noteq> [] \<longrightarrow>
        (\<exists>due. k_timer k = Some due \<and> (\<forall>now\<ge>due. k_escBatchBuf (fst (stdin_step r kl now KTimer k)) = [])))"
proof -
  have i: "rest_inv False cs (typed e False (reads evs)) k"
    unfolding k using assms(1-3) by (intro handle_rest) simp_all
  then have key: "key_inv False cs (typed e False (reads evs)) k" by (simp add: rest_inv_def)
  have "text_ok False cs (typed e False (reads evs))" using assms(1,2) by (simp add: text_ok_def)
  moreover have "key_inv False cs (typed e False (reads evs)) (k\<lparr>k_timer := None\<rparr>)"
    using key by (subst key_inv_cong [of _ k]) simp_all
  ultimately have "k_escBatchBuf (timer_fired r now (k\<lparr>k_timer := None\<rparr>)) = []" for now
    using timer_fired_rest [of False cs "typed e False (reads evs)" "k\<lparr>k_timer := None\<rparr>" r now]
    by (simp add: rest_inv_def key_inv_def split: if_splits)
  then show ?thesis
    using i key by (auto simp: rest_inv_def key_inv_def stdin_step_def split: if_splits)
qed

theorem typed_text_in_order_witness:
  "concat (k_sent (handleStdin (\<lambda>n. None) KillSent
      [(0, KRead [0x61, 0xE3, 0x81]), (1, KRead [0x82, 0x1E, 0x69, ESC, 0x5B]), (2, KTimer), (3, KRead [0x41, ESC])]
      (typing_client 0x1E False))) @ [ESC] = [0x61, 0xE3, 0x81, 0x82, ESC, 0x5B, 0x41, ESC]"
proof -
  let ?evs = "[(0::int, KRead [0x61, 0xE3, 0x81]), (1, KRead [0x82, 0x1E, 0x69, ESC, 0x5B]), (2, KTimer),
    (3, KRead [0x41, ESC])]"
  let ?cs = "[[0x61], [0xE3, 0x81, 0x82], [ESC], [0x5B], [0x41], [ESC]] :: bytes list"
  let ?k = "handleStdin (\<lambda>n. None) KillSent ?evs (typing_client 0x1E False)"
  have "list_all utf8_char ?cs" "prefix (typed 0x1E False (reads ?evs)) (concat ?cs)"
    "stays 0x1E False (reads ?evs)"
    by code_simp+
  from typed_text_in_order [OF this refl, of "\<lambda>n. None" KillSent "''s''" False "(80, 24)" "''''" "''''" "[]"]
  have "concat (k_sent ?k) @ k_inputBatchBuf ?k @ k_escBatchBuf ?k = typed 0x1E False (reads ?evs)" by blast
  moreover have "k_inputBatchBuf ?k @ k_escBatchBuf ?k = [ESC]" "typed 0x1E False (reads ?evs) =
    [0x61, 0xE3, 0x81, 0x82, ESC, 0x5B, 0x41, ESC]" by code_simp+
  ultimately show ?thesis by simp
qed

text \<open>For text without escape sequences each input that was sent consists of whole characters, all
  characters typed completely have been sent at the end of every read, and only the beginning of
  the next one waits.\<close>

theorem whole_characters:
  assumes "list_all utf8_char cs" "prefix (typed e False (reads evs)) (concat cs)" "stays e False (reads evs)"
    "ESC \<notin> set (typed e False (reads evs))"
  assumes k: "k = handleStdin r kl evs (new_kclient sid e np False dims env dbg tm)"
  shows "(\<exists>n. concat (k_sent k) = concat (take n cs) \<and>
        typed e False (reads evs) = concat (take n cs) @ k_inputBatchBuf k) \<and>
     (\<forall>x\<in>set (k_sent k). \<exists>ds. x = concat ds \<and> set ds \<subseteq> set cs) \<and>
     (k_inputBatchBuf k = [] \<or> (\<exists>c\<in>set cs. strict_prefix (k_inputBatchBuf k) c))"
proof -
  have "rest_inv True cs (typed e False (reads evs)) k"
    unfolding k using assms(1-4) by (intro handle_rest) simp_all
  then show ?thesis
    by (auto simp: rest_inv_def key_inv_def text_inv_def begun_def list_all_iff whole_def)
qed

theorem whole_characters_witness:
  "k_sent (handleStdin (\<lambda>n. None) KillSent [(0, KRead [0x61, 0xE3, 0x81]), (1, KRead [0x82, 0x62])]
      (typing_client 0x1E False)) = [[0x61], [0xE3, 0x81, 0x82, 0x62]] \<and>
   (\<exists>ds. [0xE3, 0x81, 0x82, 0x62 :: byte] = concat ds \<and> set ds \<subseteq> {[0x61], [0xE3, 0x81, 0x82], [0x62]})"
proof -
  let ?evs = "[(0::int, KRead [0x61, 0xE3, 0x81]), (1, KRead [0x82, 0x62])]"
  let ?cs = "[[0x61], [0xE3, 0x81, 0x82], [0x62]] :: bytes list"
  let ?k = "handleStdin (\<lambda>n. None) KillSent ?evs (typing_client 0x1E False)"
  have "list_all utf8_char ?cs" "prefix (typed 0x1E False (reads ?evs)) (concat ?cs)"
    "stays 0x1E False (reads ?evs)" "ESC \<notin> set (typed 0x1E False (reads ?evs))"
    by code_simp+
  from whole_characters [OF this refl, of "\<lambda>n. None" KillSent "''s''" False "(80, 24)" "''''" "''''" "[]"]
  have "\<forall>x\<in>set (k_sent ?k). \<exists>ds. x = concat ds \<and> set ds \<subseteq> set ?cs" by blast
  moreover have "k_sent ?k = [[0x61], [0xE3, 0x81, 0x82, 0x62]]" by code_simp
  ultimately show ?thesis by simp
qed

section \<open>Where the order is lost\<close>

text \<open>The doubled escape key is sent at once, before what was typed earlier in the same read: the
  escape byte overtakes the text in front of it.\<close>

theorem literal_escape_overtakes:
  assumes "1 \<le> length s" "length s < 512" "ESC \<notin> set s" "e \<notin> set s" "utf8IncompleteTrail s = 0"
    "e < 0x20" "e \<noteq> ESC" "r 0 = None"
  shows "k_sent (handleStdin r kl [(now, KRead (s @ [e, e]))]
      (new_kclient sid e np False dims env dbg tm)) = [[e], s]"
proof -
  let ?k = "new_kclient sid e np False dims env dbg tm"
  have cmd: "e \<noteq> 0x2E" "e \<noteq> 0x69" "e \<noteq> 0x68" "e \<noteq> 0x73" "e \<noteq> 0x64" "e \<noteq> 0x71" "e \<noteq> 0x72" "e \<noteq> 0x66"
    using assms(6) by (auto simp: word_less_nat_alt)
  obtain b bs where s: "s = b # bs" using assms(1) by (cases s) auto
  have b: "b \<noteq> e" "b \<noteq> ESC" using assms(3,4) s by auto
  have run: "takeWhile (plain_byte ?k) (bs @ [e, e]) = bs" "dropWhile (plain_byte ?k) (bs @ [e, e]) = [e, e]"
  proof -
    have "\<forall>x\<in>set bs. plain_byte ?k x" "\<not> plain_byte ?k e"
      using assms(3,4) s by (auto simp: plain_byte_def)
    then show "takeWhile (plain_byte ?k) (bs @ [e, e]) = bs" "dropWhile (plain_byte ?k) (bs @ [e, e]) = [e, e]"
      by (simp_all add: takeWhile_append2 dropWhile_append2)
  qed
  define k1 where "k1 = ?k\<lparr>k_inputBatchStart := now, k_inputBatchBuf := s\<rparr>"
  have "key_loop r kl now (s @ [e, e]) ?k = key_loop r kl now [e, e] k1"
    using assms(2) s b run
    by (simp add: key_loop.simps(2) new_kclient_def Let_def plain_run_def k1_def)
  also have "\<dots> = (k1\<lparr>k_sent := [[e]]\<rparr>, False)"
    using assms(7,8) cmd
    by (simp add: key_loop.simps k1_def escape_command_def Let_def sendInputBytes_def new_kclient_def)
  finally show ?thesis
    using s assms(5)
    by (simp add: stdin_step_def k1_def flushInputBatch_sends)
qed

theorem literal_escape_overtakes_witness:
  "k_sent (handleStdin (\<lambda>n. None) KillSent [(0, KRead [0x61, 0x62, 0x1E, 0x1E])] (typing_client 0x1E False)) =
     [[0x1E], [0x61, 0x62]]"
  using literal_escape_overtakes [of "[0x61, 0x62]" "0x1E" "\<lambda>n. None" KillSent 0 "''s''" False "(80, 24)" "''''" "''''" "[]"]
  by (simp add: utf8IncompleteTrail_def)

text \<open>A byte that begins a character and is followed by nothing is never sent, however often the
  flush timer fires, and the timer is armed again two milliseconds later each time.\<close>

theorem held_byte_never_sent:
  assumes "0xC0 \<le> b" "k_inputBatchBuf k = [b]" "\<not> k_escBatchActive k" "k_timer k \<noteq> None"
  assumes k': "k' = handleStdin r kl (map (\<lambda>t. (t, KTimer)) ts) k"
  shows "k_sent k' = k_sent k \<and> k_inputBatchBuf k' = [b] \<and>
     (\<forall>t due. k_timer k' = Some due \<and> due \<le> t \<longrightarrow> k_timer (fst (stdin_step r kl t KTimer k')) = Some (t + 2000000))"
proof -
  have trail: "utf8IncompleteTrail [b] = 1"
    using assms(1) by (auto simp: utf8IncompleteTrail_def Let_def byte_order)
  have fire: "timer_fired r t c = c\<lparr>k_inputBatchStart := t, k_timer := Some (t + 2000000)\<rparr>"
    if "k_inputBatchBuf c = [b]" "\<not> k_escBatchActive c" for t c
    using that trail by (simp add: timer_fired_def flushInputBatch_def Let_def recheckFlushTimer_def)
  have "k_sent k' = k_sent k \<and> k_inputBatchBuf k' = [b] \<and> \<not> k_escBatchActive k' \<and> k_timer k' \<noteq> None"
    unfolding k' using assms(2-4)
  proof (induction ts arbitrary: k)
    case (Cons t ts)
    define c where "c = fst (stdin_step r kl t KTimer k)"
    have "k_sent c = k_sent k" "k_inputBatchBuf c = [b]" "\<not> k_escBatchActive c" "k_timer c \<noteq> None"
      "stdin_step r kl t KTimer k = (c, False)"
      using Cons.prems by (auto simp: c_def stdin_step_def fire split: option.splits)
    then show ?case using Cons.IH [of c] by simp
  qed simp
  then show ?thesis by (auto simp: stdin_step_def fire)
qed

theorem held_byte_never_sent_witness:
  "k_sent (handleStdin (\<lambda>n. None) KillSent
     (map (\<lambda>t. (t, KTimer)) [2000000, 9000000])
     (handleStdin (\<lambda>n. None) KillSent [(0, KRead [0xE9])] (typing_client 0x1E False))) = []"
proof -
  let ?k = "handleStdin (\<lambda>n. None) KillSent [(0, KRead [0xE9])] (typing_client 0x1E False)"
  have k: "k_inputBatchBuf ?k = [0xE9]" "\<not> k_escBatchActive ?k" "k_timer ?k \<noteq> None" "k_sent ?k = []"
    by code_simp+
  show ?thesis
    using held_byte_never_sent [of "0xE9" ?k _ "\<lambda>n. None" KillSent "[2000000, 9000000]", OF _ _ _ _ refl] k
    by (simp add: word_le_nat_alt)
qed

section \<open>A read-only client\<close>

definition silent :: "kclient \<Rightarrow> bool" where
  "silent k \<longleftrightarrow> k_readOnly k \<and> k_sent k = [] \<and>
     list_all (\<lambda>a. case a of KResize w h \<Rightarrow> False | KKill sid \<Rightarrow> False | KRedraw \<Rightarrow> False | _ \<Rightarrow> True) (k_acts k)"

lemma silent_status: "silent k \<Longrightarrow> silent (showRequestedStatus now m k)"
  by (auto simp: silent_def showRequestedStatus_def addLogMessage_def act_def Let_def)

lemma silent_noted: "silent k \<Longrightarrow> silent (send_noted r now kind d k)"
  using silent_status [of "k\<lparr>k_roWarned := True\<rparr>" now]
  by (auto simp: send_noted_def sendInputBytes_def noteSendResult_def silent_def act_def)

lemma silent_cong: "k_readOnly k' = k_readOnly k \<Longrightarrow> k_sent k' = k_sent k \<Longrightarrow> k_acts k' = k_acts k \<Longrightarrow> silent k' = silent k"
  by (simp add: silent_def)

lemma silent_update [simp]:
  "silent (k\<lparr>k_escBatchActive := a\<rparr>) = silent k" "silent (k\<lparr>k_escBatchBuf := x\<rparr>) = silent k"
  "silent (k\<lparr>k_escBatchStart := t\<rparr>) = silent k" "silent (k\<lparr>k_inputBatchBuf := x\<rparr>) = silent k"
  "silent (k\<lparr>k_inputBatchStart := t\<rparr>) = silent k" "silent (k\<lparr>k_escapePressed := a\<rparr>) = silent k"
  "silent (k\<lparr>k_timer := u\<rparr>) = silent k" "silent (k\<lparr>k_debug := a\<rparr>) = silent k"
  "silent (k\<lparr>k_roWarned := a\<rparr>) = silent k" "silent (on_out f k) = silent k"
  by (simp_all add: silent_def on_out_def)

lemma silent_flush: "silent k \<Longrightarrow> silent (flushEscBatch r now k)" "silent k \<Longrightarrow> silent (flushInputBatch r now k)"
  by (auto simp: flushEscBatch_def flushInputBatch_def Let_def silent_noted)

lemma silent_act: "silent k \<Longrightarrow> (case a of KResize w h \<Rightarrow> False | KKill sid \<Rightarrow> False | KRedraw \<Rightarrow> False | _ \<Rightarrow> True) \<Longrightarrow>
    silent (act a k)"
  by (simp add: silent_def act_def)

lemma silent_command:
  assumes "silent k"
  shows "silent (fst (escape_command r kl now b k))"
proof -
  have ro: "k_readOnly k" using assms by (simp add: silent_def)
  have "silent (fst (sendInputBytes r now [b] (k\<lparr>k_escapePressed := False\<rparr>)))"
    using assms ro by (auto simp: sendInputBytes_def intro!: silent_status)
  then show ?thesis
    using assms ro
    by (auto simp: escape_command_def Let_def showHelp_def toggleDebug_def resetScrollRegion_def kdone_def
        intro!: silent_act silent_status split: prod.splits option.splits)
qed

lemma silent_loop: "silent k \<Longrightarrow> silent (fst (key_loop r kl now bs k))"
proof (induction r kl now bs k rule: key_loop.induct)
  case (2 r kl now b rest k)
  have c: "silent (fst (escape_command r kl now b k))" by (rule silent_command [OF 2(6)])
  have s: "silent (start_esc r now k)" "silent (in_esc r now b k)" "silent (plain_run r now run k)" for run
    using 2(6) by (auto simp: start_esc_def in_esc_def plain_run_def Let_def silent_flush)
  show ?case
    using 2 c s by (subst key_loop.simps(2)) (auto split: prod.splits bool.splits)
qed simp

lemma silent_recheck: "silent (recheckFlushTimer now k) = silent k"
  by (simp add: recheckFlushTimer_def)

lemma silent_stdin: "silent k \<Longrightarrow> silent (fst (stdin_step r kl now e k))"
  using silent_loop [of k r kl now]
  by (cases e)
    (auto simp: stdin_step_def timer_fired_def Let_def kdone_def silent_recheck silent_flush
      intro!: silent_act split: prod.splits bool.splits option.splits, (metis fst_conv silent_flush(2))+)

lemma silent_stdin_eq: "stdin_step r kl now e k = (k', b) \<Longrightarrow> silent k \<Longrightarrow> silent k'"
  using silent_stdin [of k r kl now e] by simp

lemma silent_resize: "silent k \<Longrightarrow> sendResize now rz w h k = (k, None)"
  by (simp add: sendResize_def silent_def)

lemma silent_cleared: "silent k \<Longrightarrow> maybeRedrawAfterStatus connected k = k"
  by (simp add: maybeRedrawAfterStatus_def shouldRedrawAfterStatus_def silent_def)

lemma silent_tty: "silent (tty_client s) \<Longrightarrow> silent (tty_client (tty_step r kl e s))"
  by (auto simp: tty_step_def redraw_shrink_def redraw_restore_def silent_resize silent_cleared
      dest: silent_stdin_eq split: prod.splits tty_event.splits option.splits)

text \<open>C23. A client attached with -peek sends nothing: whatever is typed, however the window is resized,
  the connection comes back or the status line is cleared, no input, no size, no kill and no redraw
  reaches the session.\<close>

theorem peek_sends_nothing:
  "let k = tty_client (fold (tty_step r kl) evs
        \<lparr>win = dims, running = True, tty_client = new_kclient sid e np True dims env dbg tm\<rparr>) in
   k_sent k = [] \<and> (\<forall>w h. KResize w h \<notin> set (k_acts k)) \<and> (\<forall>x. KKill x \<notin> set (k_acts k)) \<and>
   KRedraw \<notin> set (k_acts k)"
proof -
  have "silent (tty_client (fold (tty_step r kl) evs s))" if "silent (tty_client s)" for s
    using that by (induction evs arbitrary: s) (simp_all add: silent_tty)
  then have "silent (tty_client (fold (tty_step r kl) evs
      \<lparr>win = dims, running = True, tty_client = new_kclient sid e np True dims env dbg tm\<rparr>))"
    by (simp add: silent_def)
  then show ?thesis by (auto simp: silent_def Let_def list_all_iff)
qed

section \<open>The screen a client attaches to\<close>

lemma alt_scan_plain:
  assumes "ESC \<notin> set p" "at_scan t = altGround"
  shows "alt_scan p t = t"
proof -
  have "from_esc p = []" using assms(1) by (auto simp: from_esc_def dropWhile_eq_Nil_conv)
  then show ?thesis using assms(2) by (subst alt_scan.simps) (auto split: list.splits)
qed

definition not_seen_alt :: "tclient \<Rightarrow> bool" where
  "not_seen_alt c \<longleftrightarrow> screenState c \<noteq> ScreenAlt \<and> (\<forall>t. altScreen c = Some t \<longrightarrow> at_scan t = altGround)"

lemma trackScreen_plain:
  "not_seen_alt c \<Longrightarrow> ESC \<notin> set d \<Longrightarrow> not_seen_alt (trackScreen n f d c)"
  by (auto simp: not_seen_alt_def trackScreen_def Let_def alt_scan_plain alt_Reset_def NewAltScreenTracker_def
      split: option.splits)

lemma render_loop_plain:
  "not_seen_alt c \<Longrightarrow> \<forall>ch\<in>set chs. ESC \<notin> set (snd ch) \<Longrightarrow> not_seen_alt (snd (snd (render_loop q chs f buf c)))"
  by (induction q chs f buf c rule: render_loop.induct) (auto simp: trackScreen_plain)

lemma renderOutput_plain:
  "not_seen_alt c \<Longrightarrow> \<forall>ch\<in>set chs. ESC \<notin> set (snd ch) \<Longrightarrow> not_seen_alt (renderOutput chs q c)"
  using render_loop_plain [of c chs q "renderedSeq c" "[]"]
  by (auto simp: renderOutput_def writeOutput_def not_seen_alt_def split: prod.splits)

text \<open>The modes answered on attach, which may well say that the alternate screen is on, are scanned
  by the tracker but never reach screenState: until the output itself switches screens, no redraw
  follows the status line.\<close>

theorem seeded_screen_is_forgotten:
  assumes "at_scan (alt_scan tm (NewAltScreenTracker ScreenUnknown)) = altGround"
    "\<forall>(chs, q)\<in>set outs. \<forall>ch\<in>set chs. ESC \<notin> set (snd ch)"
  shows "\<not> shouldRedrawAfterStatus connected
     (on_out (fold (\<lambda>(chs, q). renderOutput chs q) outs) (new_kclient sid e np ro dims env dbg tm))"
proof -
  have "not_seen_alt (fold (\<lambda>(chs, q). renderOutput chs q) outs c)" if "not_seen_alt c" for c
    using that assms(2) by (induction outs arbitrary: c) (auto simp: renderOutput_plain)
  moreover have "not_seen_alt (k_out (new_kclient sid e np ro dims env dbg tm))"
    using assms(1) by (auto simp: not_seen_alt_def new_kclient_def tclient0_def Let_def NewAltScreenTracker_def)
  ultimately have "screenState (fold (\<lambda>(chs, q). renderOutput chs q) outs
      (k_out (new_kclient sid e np ro dims env dbg tm))) \<noteq> ScreenAlt"
    unfolding not_seen_alt_def by blast
  then show ?thesis by (cases ro) (simp_all add: shouldRedrawAfterStatus_def on_out_def)
qed

lemma seeded_screen_example:
  "at_state (the (altScreen (k_out (new_kclient ''s'' 0x1E False False (80, 24) ''redraw'' ''''
     [ESC, 0x5B, 0x3F, 0x31, 0x30, 0x34, 0x39, 0x68])))) = ScreenAlt"
  by (simp add: new_kclient_def Let_def alt_scan_fold NewAltScreenTracker_def alt_step_def alt_byte_def is_digit_def
      isAltParam_def maxParam_def is_final_def is_intermediate_def)

end
