(* ===== verification/Client_Commands.thy ===== *)
theory Client_Commands
  imports Daemon QClient Client_Input
begin

text \<open>
  The commands of the client (cmd/tezzer/main.go, forward.go, rforward.go, admin.go, rpc.go,
  sessions_json.go, agent.go): the checks of the flags, the choice of a session, the request that
  creates or attaches, one request and one answer on the socket, the -L and -R specifications, and
  what the listings show.
\<close>

section \<open>Forward specifications\<close>

(* cmd/tezzer/forward.go:23-29 forwardSpec *)
record forwardSpec =
  fs_listenAddr :: string
  fs_target :: string

definition forwardSpec_String :: "forwardSpec \<Rightarrow> string" where
  "forwardSpec_String f = fs_listenAddr f @ '' -> '' @ fs_target f"

text \<open>Colons inside brackets do not separate. The string is taken as valid UTF-8.\<close>

(* cmd/tezzer/forward.go:42-62 splitForwardParts *)
fun split_parts :: "string \<Rightarrow> int \<Rightarrow> string \<Rightarrow> string list" where
  "split_parts cur depth [] = [cur]"
| "split_parts cur depth (r # s) =
     (if r = CHR ''['' then split_parts (cur @ [r]) (depth + 1) s
      else if r = CHR '']'' then split_parts (cur @ [r]) (depth - 1) s
      else if r = CHR '':'' \<and> depth = 0 then cur # split_parts [] depth s
      else split_parts (cur @ [r]) depth s)"

definition splitForwardParts :: "string \<Rightarrow> string list" where
  "splitForwardParts s = split_parts [] 0 s"

(* cmd/tezzer/forward.go:64-66 stripBrackets *)
definition stripBrackets :: "string \<Rightarrow> string" where
  "stripBrackets s =
     (let t = TrimPrefix s ''['' in if HasSuffix t '']'' then butlast t else t)"

(* cmd/tezzer/forward.go:68-71 validPort *)
definition validPort :: "string \<Rightarrow> bool" where
  "validPort s = (case Atoi s of None \<Rightarrow> False | Some n \<Rightarrow> n \<ge> 1 \<and> n \<le> 65535)"

text \<open>IP.IsLoopback of an address as ParseIP gives it.\<close>

definition IsLoopback :: "nat list \<Rightarrow> bool" where
  "IsLoopback g = (if is_v4 g then (g ! 6) div 256 = 127 else g = [0, 0, 0, 0, 0, 0, 0, 1])"

definition loopback_bind :: "string \<Rightarrow> bool" where
  "loopback_bind bind =
     (bind = ''localhost'' \<or> (case ParseIP bind of None \<Rightarrow> False | Some g \<Rightarrow> IsLoopback g))"

(* cmd/tezzer/forward.go:73-105 parseForwardSpec *)
definition parseForwardSpec :: "string \<Rightarrow> string + forwardSpec" where
  "parseForwardSpec spec =
     (let finish = (\<lambda>bind port host hostport.
            let host = stripBrackets host in
            if \<not> loopback_bind bind
            then Inl (''invalid -L bind address '' @ bind @ '': only loopback is allowed'')
            else if \<not> validPort port \<or> \<not> validPort hostport then Inl (''invalid port in -L spec '' @ spec)
            else if host = '''' then Inl (''empty host in -L spec '' @ spec)
            else Inr \<lparr>fs_listenAddr = JoinHostPort bind port, fs_target = JoinHostPort host hostport\<rparr>) in
      case splitForwardParts spec of
        [port, host, hostport] \<Rightarrow> finish ''127.0.0.1'' port host hostport
      | [bind, port, host, hostport] \<Rightarrow> finish (stripBrackets bind) port host hostport
      | _ \<Rightarrow> Inl (''invalid -L spec '' @ spec @ '' (want [bind:]port:host:hostport)''))"

(* cmd/tezzer/rforward.go:26-35 remoteForwardSpec *)
record remoteForwardSpec =
  rs_port :: port
  rs_target :: string

definition remoteForwardSpec_String :: "remoteForwardSpec \<Rightarrow> string" where
  "remoteForwardSpec_String r = ''server localhost:'' @ show_nat (unat (rs_port r)) @ '' -> '' @ rs_target r"

(* cmd/tezzer/rforward.go:55-63 parseRemoteForwardSpec *)
definition rspec_of :: "string \<Rightarrow> string \<Rightarrow> string \<Rightarrow> string \<Rightarrow> string + remoteForwardSpec" where
  "rspec_of spec port host0 hostport =
     (let host = stripBrackets host0 in
      if \<not> validPort port \<or> \<not> validPort hostport
      then Inl (''invalid port in -R spec '' @ spec @ '' (port 0 is not supported)'')
      else if host = '''' then Inl (''empty host in -R spec '' @ spec)
      else Inr \<lparr>rs_port = word_of_int (the (Atoi port)), rs_target = JoinHostPort host hostport\<rparr>)"

(* cmd/tezzer/rforward.go:37-64 parseRemoteForwardSpec *)
definition parseRemoteForwardSpec :: "string \<Rightarrow> string + remoteForwardSpec" where
  "parseRemoteForwardSpec spec =
     (case splitForwardParts spec of
        [port, host, hostport] \<Rightarrow> rspec_of spec port host hostport
      | [bind0, port, host, hostport] \<Rightarrow>
          (let bind = stripBrackets bind0 in
           if \<not> loopback_bind bind
           then Inl (''invalid -R bind address '' @ bind @ '': only loopback is allowed'')
           else rspec_of spec port host hostport)
      | _ \<Rightarrow> Inl (''invalid -R spec '' @ spec @ '' (want [bind:]port:host:hostport)''))"

definition maxRemoteForwards :: nat where
  "maxRemoteForwards = 16"

text \<open>seen is the set of ports so far.\<close>

(* cmd/tezzer/rforward.go:71-84 parseRemoteForwardSpecs *)
fun parse_rspecs :: "port list \<Rightarrow> string list \<Rightarrow> string + remoteForwardSpec list" where
  "parse_rspecs seen [] = Inr []"
| "parse_rspecs seen (spec # specs) =
     (case parseRemoteForwardSpec spec of
        Inl e \<Rightarrow> Inl e
      | Inr sp \<Rightarrow>
          if rs_port sp \<in> set seen then Inl (''duplicate -R port '' @ show_nat (unat (rs_port sp)))
          else
            (case parse_rspecs (rs_port sp # seen) specs of
               Inl e \<Rightarrow> Inl e
             | Inr sps \<Rightarrow> Inr (sp # sps)))"

(* cmd/tezzer/rforward.go:66-85 parseRemoteForwardSpecs *)
definition parseRemoteForwardSpecs :: "string list \<Rightarrow> string + remoteForwardSpec list" where
  "parseRemoteForwardSpecs specs =
     (if length specs > maxRemoteForwards then Inl (''too many -R (max '' @ show_nat maxRemoteForwards @ '')'')
      else parse_rspecs [] specs)"

(* cmd/tezzer/rforward.go:152-159 remoteForwardTargets *)
definition remoteForwardTargets :: "remoteForwardSpec list \<Rightarrow> port \<rightharpoonup> string" where
  "remoteForwardTargets specs = fold (\<lambda>sp m. m(rs_port sp \<mapsto> rs_target sp)) specs Map.empty"

text \<open>hex.DecodeString succeeds on an even number of hexadecimal digits.\<close>

(* cmd/tezzer/rforward.go:144-150 validDeviceID *)
definition validDeviceID :: "string \<Rightarrow> bool" where
  "validDeviceID s = (if length s \<noteq> 32 then False else list_all (\<lambda>c. hex_val c \<noteq> None) s)"

text \<open>read1 and read2 are what reading the file answers before and after the attempt to create it;
  fresh is the hexadecimal form of the random bytes; mkdir, create and save are errors of the
  calls. The result is the identifier and a warning.\<close>

(* cmd/tezzer/rforward.go:107-142 loadOrCreateDeviceID *)
definition loadOrCreateDeviceID ::
  "string option \<Rightarrow> string option \<Rightarrow> string \<Rightarrow> err option \<Rightarrow> err option \<Rightarrow> err option \<Rightarrow> string \<times> err option" where
  "loadOrCreateDeviceID read1 read2 fresh mkdir create save =
     (let stored = (\<lambda>r. case r of
              None \<Rightarrow> None
            | Some b \<Rightarrow> if validDeviceID (TrimSpace b) then Some (TrimSpace b) else None) in
      case stored read1 of
        Some s \<Rightarrow> (s, None)
      | None \<Rightarrow>
          (case mkdir of
             Some e \<Rightarrow> (fresh, Some e)
           | None \<Rightarrow>
               (case create of
                  Some e \<Rightarrow> (case stored read2 of Some s \<Rightarrow> (s, None) | None \<Rightarrow> (fresh, Some e))
                | None \<Rightarrow> (fresh, save))))"

section \<open>Warnings about forwards\<close>

text \<open>prev is lastFwdWarn; a warning within five seconds of the last goes to the log only.\<close>

(* cmd/tezzer/forward.go:182-198 Client.forwardWarn *)
definition forwardWarn :: "int \<Rightarrow> string \<Rightarrow> int option \<Rightarrow> kclient \<Rightarrow> int option \<times> kclient" where
  "forwardWarn now msg prev k =
     (let throttled = (case prev of None \<Rightarrow> False | Some t \<Rightarrow> now - t < 5000000000) in
      if throttled then (prev, act (KLog msg) k)
      else (Some now, setStatus now msg k))"

text \<open>checks are what check answers at each tick, support and connection; the last is the one
  at the deadline. The result is the warning.\<close>

(* cmd/tezzer/forward.go:200-224 Client.pollForFeatureSupport *)
fun pollForFeatureSupport :: "(bool \<times> bool) list \<Rightarrow> bool \<times> bool \<Rightarrow> string \<Rightarrow> string \<Rightarrow> string option" where
  "pollForFeatureSupport [] (supported, connected) unsupportedMsg notConnectedMsg =
     (if connected \<and> \<not> supported then Some unsupportedMsg
      else if \<not> connected then Some notConnectedMsg
      else None)"
| "pollForFeatureSupport ((supported, connected) # ticks) final unsupportedMsg notConnectedMsg =
     (if connected \<and> supported then None
      else pollForFeatureSupport ticks final unsupportedMsg notConnectedMsg)"

section \<open>Requests on the socket\<close>

text \<open>send is the error of encoding or writing the request, answer what reading and decoding the
  next frame gives; want selects the type of the answer. The texts of the errors do not tell encoding
  from writing, nor reading from decoding, and name the message that came instead of the Go types.\<close>

(* cmd/tezzer/rpc.go:17-43 roundTrip *)
definition roundTrip :: "err option \<Rightarrow> err + proto_msg \<Rightarrow> (proto_msg \<Rightarrow> 'a option) \<Rightarrow> err + 'a" where
  "roundTrip send answer want =
     (case send of
        Some e \<Rightarrow> Inl (Wrapped ''write error'' e)
      | None \<Rightarrow>
          (case answer of
             Inl e \<Rightarrow> Inl (Wrapped ''read error'' e)
           | Inr msg \<Rightarrow>
               (case want msg of
                  Some resp \<Rightarrow> Inr resp
                | None \<Rightarrow>
                    (case msg of
                       ErrorM code message \<Rightarrow> Inl (ErrorString (''server error: '' @ code @ '': '' @ message))
                     | _ \<Rightarrow> Inl (ErrorString (''unexpected '' @ msg_type msg))))))"

(* cmd/tezzer/rpc.go:45-86 dialAndHandshake *)
definition dialAndHandshake :: "err option \<Rightarrow> err option \<Rightarrow> err + proto_msg \<Rightarrow> err option" where
  "dialAndHandshake dial send answer =
     (case dial of
        Some e \<Rightarrow> Some e
      | None \<Rightarrow>
          (case send of
             Some e \<Rightarrow> Some (Wrapped ''failed to write hello'' e)
           | None \<Rightarrow>
               (case answer of
                  Inl e \<Rightarrow> Some (Wrapped ''failed to read welcome'' e)
                | Inr (WelcomeM name txt0) \<Rightarrow> None
                | Inr msg \<Rightarrow> Some (ErrorString (''expected WELCOME, got '' @ msg_type msg)))))"

fun want_list :: "proto_msg \<Rightarrow> (SessionInfo list \<times> RemoteForwardInfo list) option" where
  "want_list (SessionsListM ss rfs) = Some (ss, rfs)"
| "want_list _ = None"

fun want_note :: "proto_msg \<Rightarrow> (string \<times> string \<times> int option) option" where
  "want_note (NoteM kind txt0 code) = Some (kind, txt0, code)"
| "want_note _ = None"

fun want_created :: "proto_msg \<Rightarrow> SessionCreatedMsg option" where
  "want_created (SessionCreatedM m) = Some m"
| "want_created _ = None"

fun want_killed :: "proto_msg \<Rightarrow> string option" where
  "want_killed (SessionKilledM s) = Some s"
| "want_killed _ = None"

fun want_meta :: "proto_msg \<Rightarrow> ServerMetaMsg option" where
  "want_meta (ServerMetaM m) = Some m"
| "want_meta _ = None"

text \<open>What one administrative command sees: the connection, the write of its request, the answer.\<close>

record rpc =
  rpc_dial :: "err option"
  rpc_send :: "err option"
  rpc_answer :: "err + proto_msg"

definition call :: "rpc \<Rightarrow> (proto_msg \<Rightarrow> 'a option) \<Rightarrow> err + 'a" where
  "call c want =
     (case rpc_dial c of Some e \<Rightarrow> Inl e | None \<Rightarrow> roundTrip (rpc_send c) (rpc_answer c) want)"

(* cmd/tezzer/admin.go:32-50 fetchSessions *)
definition fetchSessions :: "rpc \<Rightarrow> err + SessionInfo list" where
  "fetchSessions c = (case call c want_list of Inl e \<Rightarrow> Inl e | Inr (ss, rfs) \<Rightarrow> Inr ss)"

(* cmd/tezzer/admin.go:96-115 findSessionByName *)
definition findSessionByName :: "rpc \<Rightarrow> string \<Rightarrow> err + SessionInfo option" where
  "findSessionByName c name =
     (case fetchSessions c of
        Inl e \<Rightarrow> Inl e
      | Inr infos \<Rightarrow> Inr (find (\<lambda>s. si_Name s = name \<and> \<not> si_PTYClosed s) infos))"

definition newer :: "SessionInfo option \<Rightarrow> SessionInfo \<Rightarrow> SessionInfo option" where
  "newer latest s =
     (if si_PTYClosed s then latest
      else (case latest of
              None \<Rightarrow> Some s
            | Some l \<Rightarrow> if si_CreatedAt s > si_CreatedAt l then Some s else latest))"

(* cmd/tezzer/admin.go:380-405 getLatestSessionID *)
definition getLatestSessionID :: "rpc \<Rightarrow> err + string" where
  "getLatestSessionID c =
     (case fetchSessions c of
        Inl e \<Rightarrow> Inl e
      | Inr infos \<Rightarrow>
          (case foldl newer None infos of None \<Rightarrow> Inr '''' | Some s \<Rightarrow> Inr (si_SessionID s)))"

(* cmd/tezzer/admin.go:335-360 waitSession *)
definition waitSession :: "rpc \<Rightarrow> err + int" where
  "waitSession c =
     (case call c want_note of
        Inl e \<Rightarrow> Inl e
      | Inr (kind, txt0, code) \<Rightarrow>
          if kind \<noteq> ''SESSION_CLOSED'' then Inl (ErrorString (''unexpected notification kind '' @ kind))
          else (case code of Some n \<Rightarrow> Inr n | None \<Rightarrow> Inr 0))"

(* cmd/tezzer/admin.go:362-378 killSession *)
definition kill_command :: "rpc \<Rightarrow> err + string" where
  "kill_command c =
     (case call c want_killed of Inl e \<Rightarrow> Inl e | Inr s \<Rightarrow> Inr (''Session '' @ s @ '' killed''))"

section \<open>What the client is asked to do\<close>

record flags =
  f_session :: string
  f_resume :: bool
  f_name :: string
  f_cmd :: string
  f_args :: "string list"
  f_list :: bool
  f_info :: string
  f_stats :: string
  f_logs :: string
  f_kill :: string
  f_wait :: bool
  f_peek :: bool
  f_escape :: string
  f_L :: "string list"
  f_R :: "string list"
  f_N :: bool
  f_A :: bool
  f_version :: bool
  f_serverVersion :: bool

datatype admin_command =
    AServerVersion
  | AList
  | AInfo string
  | AStats string
  | ALogs string
  | AKill string

text \<open>What run is called with.\<close>

record run_args =
  ra_session :: string
  ra_cmd :: string
  ra_args :: "string list"
  ra_name :: string
  ra_escape :: byte
  ra_forwards :: "forwardSpec list"
  ra_rforwards :: "remoteForwardSpec list"
  ra_noPTY :: bool
  ra_agent :: bool
  ra_readOnly :: bool
  ra_agentSock :: string

datatype plan =
    PrintVersion
  | Admin admin_command
  | Refuse string
  | WaitFor string
  | RunWith run_args

(* cmd/tezzer/main.go:327-337 resolveCommand *)
definition resolveCommand :: "string \<Rightarrow> string list \<Rightarrow> string \<times> string list" where
  "resolveCommand cmd args =
     (case args of
        a # as \<Rightarrow> if cmd = '''' then (a, as) else (cmd, args)
      | [] \<Rightarrow> (cmd, args))"

text \<open>The administrative commands, in the order in which main looks at the flags.\<close>

(* cmd/tezzer/main.go:75-121 main *)
definition admin_plan :: "flags \<Rightarrow> admin_command option" where
  "admin_plan f =
     (if f_serverVersion f then Some AServerVersion
      else if f_list f then Some AList
      else if f_info f \<noteq> '''' then Some (AInfo (f_info f))
      else if f_stats f \<noteq> '''' then Some (AStats (f_stats f))
      else if f_logs f \<noteq> '''' then Some (ALogs (f_logs f))
      else if f_kill f \<noteq> '''' then Some (AKill (f_kill f))
      else None)"

(* cmd/tezzer/main.go:123-169 main *)
definition check_flags :: "flags \<Rightarrow> string option" where
  "check_flags f =
     (let unselected = (f_session f = '''' \<and> \<not> f_resume f \<and> f_name f = '''') in
      if f_name f \<noteq> '''' \<and> (f_session f \<noteq> '''' \<or> f_resume f)
      then Some ''cannot use -name with -session or -resume''
      else if f_N f \<and> f_L f = [] \<and> f_R f = [] then Some ''-N requires at least one -L or -R''
      else if f_N f \<and> unselected
      then Some ''-N requires -session, -resume, or -name to select an existing session''
      else if f_N f \<and> f_A f then Some ''-A cannot be combined with -N''
      else if f_wait f \<and> (f_N f \<or> f_A f \<or> f_L f \<noteq> [] \<or> f_R f \<noteq> [] \<or> f_peek f)
      then Some ''-wait cannot be combined with -N, -A, -L, -R, or -peek''
      else if f_wait f \<and> unselected
      then Some ''-wait requires -session, -resume, or -name to select an existing session''
      else if f_peek f \<and> (f_N f \<or> f_A f) then Some ''-peek cannot be combined with -N or -A''
      else if f_peek f \<and> unselected
      then Some ''-peek requires -session, -resume, or -name to select an existing session''
      else None)"

text \<open>lookup is the connection on which -resume or -name asks for the sessions. The session
  identifier, empty for a new session.\<close>

(* cmd/tezzer/main.go:171-220 main *)
definition choose_session :: "rpc \<Rightarrow> flags \<Rightarrow> string + string" where
  "choose_session lookup f =
     (let resumed =
            (if f_resume f then
               (if f_session f \<noteq> '''' then Inl ''cannot use both -resume and -session flags''
                else
                  (case getLatestSessionID lookup of
                     Inl e \<Rightarrow> Inl ''failed to get latest session''
                   | Inr sid \<Rightarrow> if sid = '''' then Inl ''no active sessions found'' else Inr sid))
             else Inr (f_session f)) in
      case resumed of
        Inl m \<Rightarrow> Inl m
      | Inr sid \<Rightarrow>
          if f_name f = '''' then Inr sid
          else
            (case ValidateSessionName (f_name f) of
               Some e \<Rightarrow> Inl (err_Error e)
             | None \<Rightarrow>
                 (case findSessionByName lookup (f_name f) of
                    Inl e \<Rightarrow> Inl ''failed to look up session by name''
                  | Inr (Some s) \<Rightarrow> Inr (si_SessionID s)
                  | Inr None \<Rightarrow>
                      if f_N f \<or> f_wait f \<or> f_peek f
                      then Inl (''no active session named '' @ f_name f)
                      else Inr sid)))"

fun parse_all :: "('a \<Rightarrow> string + 'b) \<Rightarrow> 'a list \<Rightarrow> string + 'b list" where
  "parse_all p [] = Inr []"
| "parse_all p (x # xs) =
     (case p x of
        Inl e \<Rightarrow> Inl e
      | Inr y \<Rightarrow> (case parse_all p xs of Inl e \<Rightarrow> Inl e | Inr ys \<Rightarrow> Inr (y # ys)))"

text \<open>agentSock is $SSH_AUTH_SOCK when it names a socket.\<close>

(* cmd/tezzer/agent.go:14-27 resolveLocalAgentSockPath *)
definition resolveLocalAgentSockPath :: "string \<Rightarrow> bool \<Rightarrow> string" where
  "resolveLocalAgentSockPath path is_socket = (if path = '''' then '''' else if \<not> is_socket then '''' else path)"

text \<open>home says whether the home directory, where the device identifier is kept, is known.\<close>

(* cmd/tezzer/main.go:222-276 main *)
definition main_run :: "bool \<Rightarrow> string \<Rightarrow> string \<Rightarrow> flags \<Rightarrow> plan" where
  "main_run home agentSock sid f =
     (if f_wait f then WaitFor sid
      else
        (case parse_all parseForwardSpec (f_L f) of
           Inl m \<Rightarrow> Refuse m
         | Inr forwards \<Rightarrow>
             (case parseRemoteForwardSpecs (f_R f) of
                Inl m \<Rightarrow> Refuse m
              | Inr rforwards \<Rightarrow>
                  if rforwards \<noteq> [] \<and> \<not> home then Refuse ''-R: home directory''
                  else
                    (case parseEscapeKey (f_escape f) of
                       None \<Rightarrow> Refuse ''invalid escape key''
                     | Some e \<Rightarrow>
                         (let (cmd, args) = resolveCommand (f_cmd f) (f_args f) in
                          RunWith \<lparr>ra_session = sid, ra_cmd = cmd, ra_args = args, ra_name = f_name f,
                            ra_escape = e, ra_forwards = forwards, ra_rforwards = rforwards,
                            ra_noPTY = f_N f, ra_agent = f_A f, ra_readOnly = f_peek f,
                            ra_agentSock = (if f_A f then agentSock else '''')\<rparr>)))))"

(* cmd/tezzer/main.go:50-121 main *)
definition main_plan :: "rpc \<Rightarrow> bool \<Rightarrow> string \<Rightarrow> flags \<Rightarrow> plan" where
  "main_plan lookup home agentSock f =
     (if f_version f then PrintVersion
      else
        (case admin_plan f of
           Some a \<Rightarrow> Admin a
         | None \<Rightarrow>
             (case check_flags f of
                Some m \<Rightarrow> Refuse m
              | None \<Rightarrow>
                  (case choose_session lookup f of
                     Inl m \<Rightarrow> Refuse m
                   | Inr sid \<Rightarrow> main_run home agentSock sid f))))"

section \<open>Creating and attaching\<close>

text \<open>The request of run: parent is TEZZER_SESSION, dims the size of the terminal and term_env
  TERM. None is the refusal to attach to the session the client runs in.\<close>

(* cmd/tezzer/main.go:339-447 run *)
definition run_request :: "string \<Rightarrow> int \<times> int \<Rightarrow> string \<Rightarrow> run_args \<Rightarrow> proto_msg option" where
  "run_request parent dims term_env a =
     (let (width, height) = (if ra_noPTY a then (0, 0) else dims) in
      if parent \<noteq> '''' \<and> ra_session a \<noteq> '''' \<and> ra_session a = parent then None
      else if ra_session a = '''' then
        (let loginShell = (ra_cmd a = '''') in
         Some (CreateSessionM
           \<lparr>cs_Name = ra_name a, cs_Cmd = (if loginShell then ''/bin/bash'' else ra_cmd a),
            cs_Args = ra_args a, cs_Env = [(''TERM'', term_env)], cs_Cwd = '''', cs_Cols = width, cs_Rows = height,
            cs_AgentForward = ra_agent a, cs_LoginShell = loginShell\<rparr>))
      else
        (let (cols, rows) = (if ra_readOnly a then (0, 0) else (width, height)) in
         Some (AttachSessionM
           \<lparr>as_SessionID = ra_session a, as_FromSeq = 0, as_Cols = cols, as_Rows = rows, as_ClientID = 0\<rparr>)))"

(* cmd/tezzer/connect.go:35-48 quicInfoFromSessionCreated *)
definition quicInfoFromSessionCreated :: "SessionCreatedMsg \<Rightarrow> QUICInfo option" where
  "quicInfoFromSessionCreated m =
     (if \<not> sc_UDPEnabled m then None
      else Some \<lparr>qi_Port = sc_UDPPort m, qi_Key = sc_UDPKey m, qi_STUNAddrs = sc_STUNAddrs m,
             qi_LocalAddrs = sc_LocalAddrs m, qi_STUNServer = sc_STUNServer m\<rparr>)"

text \<open>What run does with the answer: it ends, with output to show and a session to kill, or goes on
  with the name and the address of the session.\<close>

datatype run_answer =
    RunFailed err
  | RunEnded bytes string
  | RunAttached string string "QUICInfo option" bytes

(* cmd/tezzer/main.go:398-461 run *)
definition run_answered :: "run_args \<Rightarrow> err option \<Rightarrow> err + proto_msg \<Rightarrow> run_answer" where
  "run_answered a send answer =
     (case roundTrip send answer want_created of
        Inl e \<Rightarrow> RunFailed e
      | Inr m \<Rightarrow>
          let name = (if sc_Name m \<noteq> '''' then sc_Name m else ra_name a) in
          if ra_session a = '''' then
            (if sc_PTYClosed m then RunEnded (sc_InitialOutput m) (sc_SessionID m)
             else RunAttached (sc_SessionID m) name (quicInfoFromSessionCreated m) [])
          else
            (if sc_PTYClosed m then RunFailed (ErrorString ''session PTY has already terminated'')
             else RunAttached (ra_session a) name (quicInfoFromSessionCreated m) (sc_TermModes m)))"

section \<open>Listings\<close>

text \<open>Padding of fmt's %-*s and %*d, for text of one byte per character. fmt_time renders a Unix time.\<close>

definition padr :: "nat \<Rightarrow> string \<Rightarrow> string" where
  "padr w s = s @ replicate (w - length s) CHR '' ''"

definition padl :: "nat \<Rightarrow> string \<Rightarrow> string" where
  "padl w s = replicate (w - length s) CHR '' '' @ s"

definition crlf :: string where
  "crlf = [CHR 0x0D, CHR 0x0A]"

text \<open>Exact arithmetic in place of the floating point of Seconds, Minutes and Hours.\<close>

(* cmd/tezzer/admin.go:15-30 formatAgo *)
definition formatAgo :: "int \<Rightarrow> string" where
  "formatAgo d0 =
     (let d = max 0 d0 in
      if d < 60 * 1000000000 then show_int (d div 1000000000) @ ''s''
      else if d < 3600 * 1000000000 then show_int (d div (60 * 1000000000)) @ ''m''
      else if d < 86400 * 1000000000 then show_int (d div (3600 * 1000000000)) @ ''h''
      else show_int (d div (86400 * 1000000000)) @ ''d'')"

(* cmd/tezzer/admin.go:72-94 formatRemoteForwards *)
definition formatRemoteForwards :: "(int \<Rightarrow> string) \<Rightarrow> RemoteForwardInfo list \<Rightarrow> string" where
  "formatRemoteForwards fmt_time rfs =
     (if rfs = [] then ''''
      else
        crlf @ ''REMOTE FORWARDS (-R)'' @ crlf @
        padr 6 ''PORT'' @ '' '' @ padr 9 ''DEVICE'' @ '' '' @ padr 24 ''CLIENTS'' @ '' '' @ padl 6 ''ACTIVE'' @ '' '' @
        padl 8 ''OPENED'' @ '' '' @ ''STATE'' @ crlf @
        concat (map (\<lambda>rf.
          let (device, state) =
                (if rfi_Device rf = ''''
                 then (''-'', if rfi_BindError rf \<noteq> '''' then ''bind failed: '' @ rfi_BindError rf else ''not listening'')
                 else (rfi_Device rf, ''listening since '' @ fmt_time (rfi_ListenFrom rf)));
              clients = show_nat (rfi_Live rf) @ '' live/'' @ show_nat (rfi_Dormant rf) @ '' dormant/'' @
                show_nat (rfi_Waiting rf) @ '' wait'' in
          padr 6 (show_nat (unat (rfi_Port rf))) @ '' '' @ padr 9 device @ '' '' @ padr 24 clients @ '' '' @
          padl 6 (show_nat (rfi_Active rf)) @ '' '' @ padl 8 (show_nat (rfi_Opened rf)) @ '' '' @ state @ crlf) rfs))"

(* cmd/tezzer/admin.go:117-126 ignoredCommandNotice *)
definition ignoredCommandNotice :: "string \<Rightarrow> string \<Rightarrow> string \<Rightarrow> string list \<Rightarrow> string" where
  "ignoredCommandNotice name existingCmd cmd args =
     (if cmd = '''' \<or> (cmd = existingCmd \<and> args = []) then ''''
      else ''Session '' @ name @ '' already exists (running '' @ existingCmd @ ''); the given command '' @
             Join (cmd # args) '' '' @ '' is not used'' @ [CHR 0x0A])"

definition last_seen :: "SessionInfo \<Rightarrow> int" where
  "last_seen s = fold (\<lambda>c m. if pc_LastSeen c > m then pc_LastSeen c else m) (si_Clients s) 0"

text \<open>UDPAddresses, which no current server sets, is left out.\<close>

(* cmd/tezzer/admin.go:178-199 formatSessionsList *)
definition client_line :: "int \<Rightarrow> proto_ClientInfo \<Rightarrow> string" where
  "client_line now c =
     ''  - '' @ pc_Protocol c @ '' ('' @ pc_ID c @ '')'' @
     (if pc_RemoteAddr c \<noteq> '''' then '' from '' @ pc_RemoteAddr c else '''') @
     (if pc_QUICRemoteAddr c \<noteq> '''' then '' quic='' @ pc_QUICRemoteAddr c else '''') @
     (if pc_UDPClientID c \<noteq> 0 then '' [QUIC ClientID='' @ show_nat (unat (pc_UDPClientID c)) @ '']'' else '''') @
     (if pc_LastSeen c > 0 then '' last='' @ formatAgo (now - pc_LastSeen c * 1000000000) else '''') @ crlf"

(* cmd/tezzer/admin.go:149-177 formatSessionsList *)
definition session_line :: "int \<Rightarrow> (int \<Rightarrow> string) \<Rightarrow> nat \<Rightarrow> nat \<Rightarrow> SessionInfo \<Rightarrow> string" where
  "session_line now fmt_time maxIDLen maxNameLen s =
     padr maxIDLen (si_SessionID s) @ '' '' @
     padr maxNameLen (if si_Name s = '''' then ''-'' else si_Name s) @ '' '' @
     padr 15 (si_Cmd s) @ '' '' @ padl 4 (show_int (si_Rows s)) @ '' '' @ padl 4 (show_int (si_Cols s)) @ '' '' @
     padl 8 (show_nat (si_ClientCount s)) @ '' '' @
     padr 6 (if si_PTYClosed s then ''closed'' else ''active'') @ '' '' @
     padr 19 (if si_LastDetachedAt s \<noteq> 0 then fmt_time (si_LastDetachedAt s) else ''-'') @ '' '' @
     padr 11 (if last_seen s > 0 then formatAgo (now - last_seen s * 1000000000) else ''-'') @ '' '' @
     fmt_time (si_CreatedAt s) @ crlf"

(* cmd/tezzer/admin.go:128-202 formatSessionsList *)
definition formatSessionsList :: "int \<Rightarrow> (int \<Rightarrow> string) \<Rightarrow> SessionInfo list \<Rightarrow> string" where
  "formatSessionsList now fmt_time infos =
     (if infos = [] then ''No active sessions'' @ [CHR 0x0A]
      else
        let maxIDLen = fold (\<lambda>s m. max m (length (si_SessionID s))) infos 22;
            maxNameLen = fold (\<lambda>s m. max m (length (si_Name s))) infos 4 in
        padr maxIDLen ''SESSION ID'' @ '' '' @ padr maxNameLen ''NAME'' @ '' '' @ padr 15 ''COMMAND'' @ '' '' @
        padl 4 ''ROWS'' @ '' '' @ padl 4 ''COLS'' @ '' '' @ padl 8 ''CLIENTS'' @ '' '' @ padr 6 ''STATUS'' @ '' '' @
        padr 19 ''DETACHED'' @ '' '' @ padr 11 ''LAST ACTIVE'' @ '' '' @ ''CREATED'' @ crlf @
        concat (map (\<lambda>s. session_line now fmt_time maxIDLen maxNameLen s @
                         concat (map (client_line now) (si_Clients s))) infos))"

(* cmd/tezzer/admin.go:407-426 showServerVersion *)
definition showServerVersion :: "rpc \<Rightarrow> err + ServerMetaMsg" where
  "showServerVersion c =
     (case rpc_dial c of
        Some e \<Rightarrow> Inl (Wrapped ''failed to connect to tezzerd (is it running?)'' e)
      | None \<Rightarrow>
          (case roundTrip (rpc_send c) (rpc_answer c) want_meta of
             Inl e \<Rightarrow>
               if Contains (err_Error e) ''BAD_REQUEST''
               then Inl (Wrapped ''tezzerd is too old to report its version'' e) else Inl e
           | Inr m \<Rightarrow> Inr m))"

(* cmd/tezzer/admin.go:430-437 formatServerVersion *)
definition formatServerVersion :: "ServerMetaMsg \<Rightarrow> string" where
  "formatServerVersion m =
     ''tezzerd '' @ (if sm_ServerVersion m = '''' then ''unknown'' else sm_ServerVersion m) @
     '' (commit '' @ sm_ServerBuildID m @ '', built '' @ sm_ServerBuildTime m @ '')''"

section \<open>Modes that need a session never create one\<close>

definition listed_ids :: "rpc \<Rightarrow> bool" where
  "listed_ids c \<longleftrightarrow>
     (case rpc_answer c of Inr (SessionsListM ss rfs) \<Rightarrow> list_all (\<lambda>s. si_SessionID s \<noteq> '''') ss | _ \<Rightarrow> True)"

lemma call_list:
  assumes "call c want_list = Inr (ss, rfs)"
  shows "rpc_answer c = Inr (SessionsListM ss rfs)"
proof -
  obtain m where "rpc_answer c = Inr m" "want_list m = Some (ss, rfs)"
    using assms
    by (auto simp: call_def roundTrip_def split: option.splits sum.splits proto_msg.splits)
  then show ?thesis by (cases m) simp_all
qed

lemma fetch_ids: "listed_ids c \<Longrightarrow> fetchSessions c = Inr ss \<Longrightarrow> s \<in> set ss \<Longrightarrow> si_SessionID s \<noteq> ''''"
  by (auto simp: fetchSessions_def listed_ids_def list_all_iff dest!: call_list split: sum.splits)

lemma find_ids: "listed_ids c \<Longrightarrow> findSessionByName c n = Inr (Some s) \<Longrightarrow> si_SessionID s \<noteq> ''''"
  by (auto simp: findSessionByName_def find_Some_iff dest!: fetch_ids split: sum.splits)

lemma chosen_not_empty:
  assumes "listed_ids lookup" "check_flags f = None" "f_N f \<or> f_wait f \<or> f_peek f"
    "choose_session lookup f = Inr sid"
  shows "sid \<noteq> ''''"
proof -
  have sel: "f_session f \<noteq> '''' \<or> f_resume f \<or> f_name f \<noteq> ''''"
    using assms(2,3) by (auto simp: check_flags_def Let_def split: if_splits)
  show ?thesis
    using assms(3,4) sel find_ids [OF assms(1)]
    by (auto simp: choose_session_def Let_def split: if_splits sum.splits option.splits)
qed

text \<open>C24. The modes for an existing session, -N, -wait and -peek, never create one: whatever the server
  answers to the lookup, as long as the sessions it lists have identifiers (listed_ids), the command that
  goes out attaches to a session or waits for one, and none is sent when no session can be found. A
  listed session with an empty identifier would be taken for none, and one be created.\<close>

theorem existing_only_never_creates:
  assumes "f_N f \<or> f_wait f \<or> f_peek f" "listed_ids lookup"
  shows "case main_plan lookup home agentSock f of
      RunWith a \<Rightarrow> \<not> f_wait f \<and> (\<forall>m parent dims term_env. run_request parent dims term_env a \<noteq> Some (CreateSessionM m))
    | WaitFor sid \<Rightarrow> f_wait f \<and> sid \<noteq> ''''
    | _ \<Rightarrow> True"
proof -
  have req: "ra_session a \<noteq> '''' \<Longrightarrow> run_request parent dims term_env a \<noteq> Some (CreateSessionM m)"
    for a parent dims term_env m
    by (auto simp: run_request_def split: prod.splits if_splits)
  have run: "case main_run home agentSock sid f of
      RunWith a \<Rightarrow> \<not> f_wait f \<and> ra_session a = sid | WaitFor s \<Rightarrow> f_wait f \<and> s = sid | _ \<Rightarrow> True" for sid
    by (simp add: main_run_def split: sum.split option.split prod.split)
  show ?thesis
  proof (cases "f_version f \<or> admin_plan f \<noteq> None \<or> check_flags f \<noteq> None")
    case True
    then show ?thesis by (auto simp: main_plan_def split: option.split)
  next
    case False
    then have plan: "main_plan lookup home agentSock f =
        (case choose_session lookup f of Inl m \<Rightarrow> Refuse m | Inr sid \<Rightarrow> main_run home agentSock sid f)"
      by (auto simp: main_plan_def)
    show ?thesis
    proof (cases "choose_session lookup f")
      case (Inr sid)
      then have "sid \<noteq> ''''" using chosen_not_empty [OF assms(2) _ assms(1)] False by simp
      then show ?thesis
        using plan Inr run [of sid] req by (cases "main_run home agentSock sid f") auto
    qed (simp add: plan)
  qed
qed

definition flags0 :: flags where
  "flags0 =
     \<lparr>f_session = '''', f_resume = False, f_name = '''', f_cmd = '''', f_args = [], f_list = False, f_info = '''',
      f_stats = '''', f_logs = '''', f_kill = '''', f_wait = False, f_peek = False, f_escape = ''^'', f_L = [],
      f_R = [], f_N = False, f_A = False, f_version = False, f_serverVersion = False\<rparr>"

theorem existing_only_never_creates_witness:
  "main_plan \<lparr>rpc_dial = None, rpc_send = None, rpc_answer = Inr (SessionsListM [] [])\<rparr> True ''''
     (flags0\<lparr>f_name := ''work'', f_peek := True\<rparr>) = Refuse ''no active session named work'' \<and>
   (case main_plan \<lparr>rpc_dial = None, rpc_send = None, rpc_answer = Inl EOF\<rparr> True ''''
       (flags0\<lparr>f_session := ''s1'', f_peek := True\<rparr>) of
      RunWith a \<Rightarrow> \<forall>m. run_request '''' (80, 24) ''xterm'' a \<noteq> Some (CreateSessionM m) | _ \<Rightarrow> False)"
proof -
  let ?f = "flags0\<lparr>f_session := ''s1'', f_peek := True\<rparr>"
  let ?c = "\<lparr>rpc_dial = None, rpc_send = None, rpc_answer = Inl EOF\<rparr>"
  have "case main_plan ?c True '''' ?f of
      RunWith a \<Rightarrow> \<not> f_wait ?f \<and> (\<forall>m parent dims term_env. run_request parent dims term_env a \<noteq> Some (CreateSessionM m))
    | WaitFor sid \<Rightarrow> f_wait ?f \<and> sid \<noteq> '''' | _ \<Rightarrow> True"
    by (rule existing_only_never_creates) (simp_all add: listed_ids_def)
  moreover have "\<exists>a. main_plan ?c True '''' ?f = RunWith a"
    by (simp add: main_plan_def flags0_def admin_plan_def check_flags_def choose_session_def main_run_def
        parseRemoteForwardSpecs_def maxRemoteForwards_def parseEscapeKey_def resolveCommand_def)
  moreover have "main_plan \<lparr>rpc_dial = None, rpc_send = None, rpc_answer = Inr (SessionsListM [] [])\<rparr> True ''''
     (flags0\<lparr>f_name := ''work'', f_peek := True\<rparr>) = Refuse ''no active session named work''"
    by (simp add: main_plan_def flags0_def admin_plan_def check_flags_def choose_session_def
        ValidateSessionName_def name_char_def findSessionByName_def fetchSessions_def call_def roundTrip_def)
  ultimately show ?thesis by auto
qed

section \<open>Waiting for a session\<close>

text \<open>C25. -wait and the daemon together: the request for a session the daemon does not know is answered
  with an error that the command reports; for one it knows there is no answer before the session
  ends, and then the command exits with the code the process ended with, or 0 when none is known.\<close>

theorem wait_reports_exit_code:
  "case command_step env (WaitSessionM k) d of ((state, d'), acts) \<Rightarrow>
     if map_of (sessions (mgr d)) k = None
     then state = ConnClosed \<and>
       (\<exists>m. replies acts = [m] \<and> (\<exists>e. waitSession \<lparr>rpc_dial = None, rpc_send = None, rpc_answer = Inr m\<rparr> = Inl e))
     else state = WaitingFor k \<and> acts = [] \<and>
       (\<forall>code. \<exists>m. replies (wait_step (SessionEnded code)) = [m] \<and>
          waitSession \<lparr>rpc_dial = None, rpc_send = None, rpc_answer = Inr m\<rparr> = Inr (max code 0))"
  by (auto simp: wait_begin_def GetSession_def sendError_def waitSession_def call_def roundTrip_def
      split: option.splits)

section \<open>Attaching by name\<close>

lemma listed_named:
  assumes "mgr_inv m" "n \<noteq> ''''" "find (\<lambda>s. Name s = n \<and> \<not> ptyClosed s) (GetAllSessions m) = r"
  shows "(\<forall>k s. active_named m k s \<and> Name s = n \<longrightarrow> r = Some s) \<and>
    (\<forall>s. r = Some s \<longrightarrow> active_named m (ID s) s \<and> Name s = n)"
proof -
  have d: "distinct (map fst (sessions m))" and id: "\<And>k s. map_of (sessions m) k = Some s \<Longrightarrow> ID s = k"
    and u: "\<And>k k' s s'. active_named m k s \<Longrightarrow> active_named m k' s' \<Longrightarrow> Name s = Name s' \<Longrightarrow> k = k'"
    using assms(1) unfolding mgr_inv_def by blast+
  have mem: "s \<in> set (GetAllSessions m) \<longleftrightarrow> map_of (sessions m) (ID s) = Some s" for s
    using map_of_eq_Some [OF d] id by (force simp: GetAllSessions_def)
  have found: "active_named m (ID s) s \<and> Name s = n" if "r = Some s" for s
  proof -
    have "s \<in> set (GetAllSessions m)" "Name s = n" "\<not> ptyClosed s"
      using that assms(3) by (auto simp: find_Some_iff)
    then show ?thesis using mem assms(2) by (auto simp: active_named_def)
  qed
  moreover have "r = Some s" if a: "active_named m k s" "Name s = n" for k s
  proof (cases r)
    case None
    with assms(3) have "s \<notin> set (GetAllSessions m) \<or> Name s \<noteq> n \<or> ptyClosed s"
      by (auto simp: find_None_iff)
    with a mem id show ?thesis by (auto simp: active_named_def)
  next
    case (Some s')
    with found [OF Some] have "ID s' = k" using u [of "ID s'" s' k s] a by simp
    with found [OF Some] a(1) Some show ?thesis by (simp add: active_named_def)
  qed
  ultimately show ?thesis by blast
qed

lemma choose_named:
  assumes "ValidateSessionName (f_name f) = None" "f_session f = ''''" "\<not> f_resume f"
    "findSessionByName lookup (f_name f) = Inr x"
  shows "choose_session lookup f =
    (case x of
       Some s \<Rightarrow> Inr (si_SessionID s)
     | None \<Rightarrow> if f_N f \<or> f_wait f \<or> f_peek f then Inl (''no active session named '' @ f_name f) else Inr '''')"
proof -
  have "f_name f \<noteq> ''''" using assms(1) by (auto simp: ValidateSessionName_def)
  then show ?thesis unfolding choose_session_def Let_def using assms by (simp only: if_False simp_thms sum.case option.case refl)
qed

lemma find_map: "find P (map f xs) = map_option f (find (P \<circ> f) xs)"
  by (induction xs) auto

lemma listed_fields [simp]:
  "si_SessionID (sessionProtoInfo a b s) = ID s" "si_Name (sessionProtoInfo a b s) = Name s"
  "si_PTYClosed (sessionProtoInfo a b s) = ptyClosed s" "si_CreatedAt (sessionProtoInfo a b s) = CreatedAt s div second"
  by (simp_all add: sessionProtoInfo_def Let_def case_prod_unfold)

text \<open>-name, the daemon and its sessions together: with the list the daemon answers, the client
  attaches to the active session of that name when there is one, and otherwise asks for a new
  session with the name; the choice is unique because active names are.\<close>

theorem named_session_found:
  assumes "mgr_inv (mgr d)" "ValidateSessionName n = None" "f_name f = n" "f_session f = ''''" "\<not> f_resume f"
    "replies (snd (command_step env ListSessionsM d)) = [m]"
  defines "chosen \<equiv> choose_session \<lparr>rpc_dial = None, rpc_send = None, rpc_answer = Inr m\<rparr> f"
  shows "(\<forall>k s. active_named (mgr d) k s \<and> Name s = n \<longrightarrow> chosen = Inr k) \<and>
    ((\<nexists>k s. active_named (mgr d) k s \<and> Name s = n) \<longrightarrow>
       (if f_N f \<or> f_wait f \<or> f_peek f then (\<exists>msg. chosen = Inl msg) else chosen = Inr ''''))"
proof -
  let ?info = "\<lambda>s. sessionProtoInfo (de_active env (ID s)) (de_stats env (ID s)) s"
  define r where "r = find (\<lambda>s. Name s = n \<and> \<not> ptyClosed s) (GetAllSessions (mgr d))"
  have n: "n \<noteq> ''''" using assms(2) by (auto simp: ValidateSessionName_def)
  have "(\<lambda>s. si_Name s = n \<and> \<not> si_PTYClosed s) \<circ> ?info = (\<lambda>s. Name s = n \<and> \<not> ptyClosed s)"
    by (simp add: fun_eq_iff)
  then have "findSessionByName \<lparr>rpc_dial = None, rpc_send = None, rpc_answer = Inr m\<rparr> n = Inr (map_option ?info r)"
    using assms(6) by (auto simp: findSessionByName_def fetchSessions_def call_def roundTrip_def find_map r_def)
  then have c: "chosen = (case r of
      Some s \<Rightarrow> Inr (ID s)
    | None \<Rightarrow> if f_N f \<or> f_wait f \<or> f_peek f then Inl (''no active session named '' @ n) else Inr '''')"
    unfolding chosen_def using choose_named [of f _ "map_option ?info r"] assms(2-5) by (cases r) simp_all
  have id: "active_named (mgr d) k s \<Longrightarrow> ID s = k" for k s
    using assms(1) by (simp add: mgr_inv_def active_named_def)
  note l = listed_named [OF assms(1) n r_def [symmetric]]
  show ?thesis
  proof (cases r)
    case None
    then have "\<not> (active_named (mgr d) k s \<and> Name s = n)" for k s using l by blast
    moreover have "chosen = (if f_N f \<or> f_wait f \<or> f_peek f then Inl (''no active session named '' @ n) else Inr '''')"
      using c None by simp
    ultimately show ?thesis by (cases "f_N f \<or> f_wait f \<or> f_peek f") auto
  next
    case (Some s)
    then have "active_named (mgr d) k x \<and> Name x = n \<Longrightarrow> k = ID s" for k x using l id by blast
    moreover have "active_named (mgr d) (ID s) s \<and> Name s = n" using l Some by blast
    moreover have "chosen = Inr (ID s)" using c Some by simp
    ultimately show ?thesis by blast
  qed
qed

theorem named_session_found_witness:
  "choose_session \<lparr>rpc_dial = None, rpc_send = None, rpc_answer = Inr (SessionsListM
       [sessionProtoInfo [] [] ((session0 ''AAEC'' ''sh'' 24 80 None 0)\<lparr>Name := ''work''\<rparr>)] [])\<rparr>
     (flags0\<lparr>f_name := ''work''\<rparr>) = Inr ''AAEC''"
proof -
  let ?s = "(session0 ''AAEC'' ''sh'' 24 80 None 0)\<lparr>Name := ''work''\<rparr>"
  let ?d = "daemon0\<lparr>mgr := (NewManager None 0)\<lparr>sessions := [(''AAEC'', ?s)]\<rparr>\<rparr>"
  have "mgr_inv (mgr ?d)"
    by (auto simp: mgr_inv_def active_named_def NewManager_def session0_def split: if_splits)
  moreover have "ValidateSessionName ''work'' = None"
    by (simp add: ValidateSessionName_def name_char_def)
  moreover have "replies (snd (command_step gone_client ListSessionsM ?d)) =
      [SessionsListM [sessionProtoInfo [] [] ?s] []]"
    by (simp add: GetAllSessions_def gone_client_def NewManager_def rfwd_snapshot_def )
  moreover have "active_named (mgr ?d) ''AAEC'' ?s \<and> Name ?s = ''work''"
    by (simp add: active_named_def session0_def)
  ultimately show ?thesis
    using named_session_found [of ?d "''work''" "flags0\<lparr>f_name := ''work''\<rparr>" gone_client,
        THEN conjunct1, rule_format, of _ "''AAEC''" ?s]
    by (simp add: flags0_def del: listed_fields)
qed

section \<open>What -resume picks\<close>

lemma newest:
  "case foldl newer l infos of
     None \<Rightarrow> l = None \<and> (\<forall>s\<in>set infos. si_PTYClosed s)
   | Some s \<Rightarrow> (l = Some s \<or> s \<in> set infos \<and> \<not> si_PTYClosed s) \<and>
       (\<forall>x. l = Some x \<longrightarrow> si_CreatedAt x \<le> si_CreatedAt s) \<and>
       (\<forall>x\<in>set infos. \<not> si_PTYClosed x \<longrightarrow> si_CreatedAt x \<le> si_CreatedAt s)"
proof (induction infos arbitrary: l)
  case (Cons a infos)
  show ?case
    using Cons.IH [of "newer l a"]
    by (cases "foldl newer (newer l a) infos")
      (auto simp: newer_def split: option.splits if_splits)
qed (simp split: option.split)

text \<open>The session of -resume has not ended and none that has not ended is newer by a second or
  more; but CreatedAt is in seconds on the socket, so of two created within one second the daemon
  lists the older first and the client keeps it.\<close>

theorem resume_picks_active:
  assumes "fetchSessions c = Inr infos" "getLatestSessionID c = Inr sid" "list_all (\<lambda>s. si_SessionID s \<noteq> '''') infos"
  shows "if sid = '''' then (\<forall>s\<in>set infos. si_PTYClosed s)
    else \<exists>s\<in>set infos. si_SessionID s = sid \<and> \<not> si_PTYClosed s \<and>
      (\<forall>x\<in>set infos. \<not> si_PTYClosed x \<longrightarrow> si_CreatedAt x \<le> si_CreatedAt s)"
  using assms newest [of None infos]
  by (auto simp: getLatestSessionID_def list_all_iff split: option.splits)

lemma resume_picks_older:
  "getLatestSessionID \<lparr>rpc_dial = None, rpc_send = None, rpc_answer = Inr (SessionsListM
     (map (sessionProtoInfo [] []) [session0 ''old'' ''sh'' 24 80 None 1000000000, session0 ''new'' ''sh'' 24 80 None 1900000000]) [])\<rparr>
   = Inr ''old''"
  by (simp add: getLatestSessionID_def fetchSessions_def call_def roundTrip_def newer_def second_def)
    (simp add: session0_def)

section \<open>Reading -L and -R\<close>

definition plain_part :: "string \<Rightarrow> bool" where
  "plain_part s \<longleftrightarrow> bracket_free s \<and> CHR '':'' \<notin> set s"

lemma split_plain:
  "plain_part s \<Longrightarrow> split_parts cur 0 (s @ CHR '':'' # t) = (cur @ s) # split_parts [] 0 t"
  "plain_part s \<Longrightarrow> split_parts cur 0 s = [cur @ s]"
  by (induction s arbitrary: cur) (auto simp: plain_part_def bracket_free_def)

lemma split_inside:
  "bracket_free s \<Longrightarrow> split_parts cur 1 (s @ CHR '']'' # t) = split_parts (cur @ s @ '']'') 0 t"
  by (induction s arbitrary: cur) (auto simp: bracket_free_def)

definition host_part :: "string \<Rightarrow> string" where
  "host_part h = (if CHR '':'' \<in> set h then ''['' @ h @ '']'' else h)"

lemma JoinHostPort_part: "JoinHostPort h p = host_part h @ '':'' @ p"
  by (simp add: JoinHostPort_def host_part_def)

lemma split_host_part:
  assumes "bracket_free h"
  shows "split_parts [] 0 (host_part h @ CHR '':'' # t) = host_part h # split_parts [] 0 t"
proof (cases "CHR '':'' \<in> set h")
  case True
  then have "split_parts [] 0 (host_part h @ CHR '':'' # t) = split_parts ''['' 1 (h @ CHR '']'' # CHR '':'' # t)"
    by (simp add: host_part_def)
  then show ?thesis using True by (simp add: split_inside [OF assms] host_part_def)
next
  case False
  then show ?thesis using assms split_plain(1) [of h "[]" t] by (simp add: host_part_def plain_part_def)
qed

lemma HasPrefix_one: "HasPrefix s [c] \<longleftrightarrow> s \<noteq> [] \<and> hd s = c"
  by (cases s) (auto simp: HasPrefix_def)

lemma HasSuffix_one: "HasSuffix s [c] \<longleftrightarrow> s \<noteq> [] \<and> last s = c"
  by (cases s rule: rev_cases) (auto simp: HasSuffix_def suffix_def)

lemma strip_host_part:
  assumes "bracket_free h"
  shows "stripBrackets (host_part h) = h"
proof (cases "h = []")
  case False
  then have "hd h \<noteq> CHR ''[''" "last h \<noteq> CHR '']''"
    using assms unfolding bracket_free_def by (metis hd_in_set last_in_set)+
  then show ?thesis
    by (simp add: stripBrackets_def host_part_def TrimPrefix_def HasPrefix_one HasSuffix_one)
qed (simp add: stripBrackets_def host_part_def TrimPrefix_def HasPrefix_one HasSuffix_one)

lemma validPort_plain:
  assumes "validPort p"
  shows "plain_part p"
proof -
  obtain n where "Atoi p = Some n" using assms by (auto simp: validPort_def split: option.splits)
  then have "p \<noteq> []" "list_all digit_char (if hd p = CHR ''-'' \<or> hd p = CHR ''+'' then tl p else p)"
    by (auto simp: Atoi_def Let_def split: if_splits)
  then have "set p \<subseteq> insert CHR ''-'' (insert CHR ''+'' (Collect digit_char))"
    by (cases p) (auto simp: list_all_iff split: if_splits)
  then show ?thesis by (auto simp: plain_part_def bracket_free_def digit_char_def)
qed

text \<open>A -L specification written from an address to listen on and a target is read back as the two,
  IPv6 addresses in brackets included, and net.SplitHostPort takes both apart again; the listener is
  bound to a loopback address.\<close>

theorem forward_spec_roundtrip:
  assumes "loopback_bind bind" "bracket_free bind" "validPort port"
    "host \<noteq> ''''" "bracket_free host" "validPort hostport"
  shows "parseForwardSpec (JoinHostPort bind port @ '':'' @ JoinHostPort host hostport) =
      Inr \<lparr>fs_listenAddr = JoinHostPort bind port, fs_target = JoinHostPort host hostport\<rparr> \<and>
    SplitHostPort (JoinHostPort bind port) = Inr (bind, port) \<and>
    SplitHostPort (JoinHostPort host hostport) = Inr (host, hostport)"
proof -
  note p = validPort_plain [OF assms(3)] and q = validPort_plain [OF assms(6)]
  have "splitForwardParts (JoinHostPort bind port @ '':'' @ JoinHostPort host hostport) =
      [host_part bind, port, host_part host, hostport]"
    by (simp add: splitForwardParts_def JoinHostPort_part split_host_part assms(2,5) split_plain p q)
  then show ?thesis
    using assms p q
    by (simp add: parseForwardSpec_def strip_host_part SplitHostPort_Join plain_part_def)
qed

theorem forward_spec_roundtrip_witness:
  "parseForwardSpec ''[::1]:8080:[fe80::1]:22'' =
     Inr \<lparr>fs_listenAddr = ''[::1]:8080'', fs_target = ''[fe80::1]:22''\<rparr>"
proof -
  have "replicate 7 (0 :: nat) = [0, 0, 0, 0, 0, 0, 0]" "replicate 6 (0 :: nat) = [0, 0, 0, 0, 0, 0]" by code_simp+
  then have "loopback_bind ''::1''"
    by (simp add: loopback_bind_def ParseIP_def ParseIPv6_def v6_side_def v6_group_def hex_val_def
        digit_char_def digit_val_def is_v4_def IsLoopback_def)
  moreover have "validPort ''8080''" "validPort ''22''"
    by (simp_all add: validPort_def Atoi_def digit_char_def digits_val_def digit_val_def)
  ultimately show ?thesis
    using forward_spec_roundtrip [of "''::1''" "''8080''" "''fe80::1''" "''22''"]
    by (simp add: bracket_free_def JoinHostPort_def)
qed

text \<open>Every -R port is given once, is not 0, and has its own target in the table the transport dials from.\<close>

lemma parts_cases:
  assumes "(case xs of [a, b, c] \<Rightarrow> f a b c | [a, b, c, d] \<Rightarrow> g a b c d | _ \<Rightarrow> Inl e) = Inr r"
  shows "(\<exists>a b c. f a b c = Inr r) \<or> (\<exists>a b c d. g a b c d = Inr r)"
  using assms by (auto split: list.split_asm)

lemma parse_rspec_valid:
  assumes "parseRemoteForwardSpec spec = Inr r"
  shows "\<exists>p. validPort p \<and> rs_port r = word_of_int (the (Atoi p))"
proof -
  have "\<exists>p h q. rspec_of spec p h q = Inr r"
    using parts_cases [OF assms [unfolded parseRemoteForwardSpec_def Let_def]]
    by (metis Inl_Inr_False)
  then show ?thesis by (auto simp: rspec_of_def Let_def split: if_splits)
qed

lemma parse_rspec_port:
  assumes "parseRemoteForwardSpec spec = Inr r"
  shows "rs_port r \<noteq> 0"
proof -
  obtain p where p: "validPort p" "rs_port r = word_of_int (the (Atoi p))"
    using parse_rspec_valid [OF assms] by blast
  then obtain n where n: "Atoi p = Some n" "1 \<le> n" "n \<le> 65535"
    by (auto simp: validPort_def split: option.splits)
  then have "\<not> 65536 dvd n" by (auto dest: zdvd_imp_le)
  then show ?thesis using p(2) n(1) by (simp add: word_of_int_eq_0_iff)
qed

lemma parse_rspecs_distinct:
  "parse_rspecs seen specs = Inr rs \<Longrightarrow>
   distinct (map rs_port rs) \<and> set (map rs_port rs) \<inter> set seen = {} \<and> length rs = length specs \<and>
   (\<forall>r\<in>set rs. rs_port r \<noteq> 0)"
  by (induction specs arbitrary: seen rs)
    (fastforce split: sum.splits if_splits dest: parse_rspec_port)+

lemma targets_fold:
  "distinct (map rs_port rs) \<Longrightarrow>
   fold (\<lambda>sp m. m(rs_port sp \<mapsto> rs_target sp)) rs m p =
     (case find (\<lambda>r. rs_port r = p) rs of Some r \<Rightarrow> Some (rs_target r) | None \<Rightarrow> m p)"
proof (induction rs arbitrary: m)
  case (Cons r rs)
  show ?case
  proof (cases "rs_port r = p")
    case True
    with Cons.prems have "find (\<lambda>x. rs_port x = p) rs = None"
      by (auto simp: find_None_iff image_iff)
    with True Cons show ?thesis by simp
  qed (use Cons in simp)
qed simp

theorem remote_forwards_distinct:
  assumes "parseRemoteForwardSpecs specs = Inr rs"
  shows "distinct (map rs_port rs) \<and> length rs \<le> 16 \<and>
    (\<forall>r\<in>set rs. rs_port r \<noteq> 0 \<and> remoteForwardTargets rs (rs_port r) = Some (rs_target r))"
proof -
  have p: "distinct (map rs_port rs)" "length rs \<le> 16" "\<forall>r\<in>set rs. rs_port r \<noteq> 0"
    using assms parse_rspecs_distinct [of "[]" specs rs]
    by (auto simp: parseRemoteForwardSpecs_def maxRemoteForwards_def split: if_splits)
  have "find (\<lambda>x. rs_port x = rs_port r) rs = Some r" if r: "r \<in> set rs" for r
  proof (cases "find (\<lambda>x. rs_port x = rs_port r) rs")
    case None
    then show ?thesis using r by (auto simp: find_None_iff)
  next
    case (Some x)
    then have "x \<in> set rs" "rs_port x = rs_port r" by (auto simp: find_Some_iff)
    with p(1) r Some show ?thesis by (auto simp: distinct_map dest: inj_onD)
  qed
  then show ?thesis using p by (simp add: remoteForwardTargets_def targets_fold)
qed

end
