(* ===== verification/Client_Connect.thy ===== *)
theory Client_Connect
  imports Client_Commands QServer
begin

text \<open>
  How the client sets its QUIC transport up and goes on with it (cmd/tezzer/connect.go, the end of run
  in cmd/tezzer/main.go): the number it draws, the message that announces it on the Unix socket, the
  candidates, the wiring of the callbacks, the first attempt and the retries in the background. The
  client's own state is the one of Client_Input, the transport the one of QClient; the answers of the
  random source, the STUN queries, the socket and the network are parameters of an attempt.
\<close>

section \<open>State\<close>

text \<open>cc_uds are the frames written to the Unix socket, cc_pumps the output goroutines and
  cc_refreshers the refresh loops started.\<close>

(* cmd/tezzer/client.go:27-145 Client *)
record cclient =
  cc_k :: kclient
  cc_ct :: "quicClient option"
  cc_meta :: "(string \<times> string \<times> bytes) option"
  cc_rforwards :: "remoteForwardSpec list"
  cc_deviceID :: string
  cc_agentSockPath :: string
  cc_uds :: "proto_msg list"
  cc_pumps :: nat
  cc_refreshers :: nat

record connect_sys =
  cn_now :: int
  cn_rand :: "client_id list"
  cn_randErr :: err
  cn_query :: "stun_Client \<Rightarrow> err + UDPAddr"
  cn_ifaces :: "err + bytes list"
  cn_ipv4Only :: bool
  cn_encode :: "err option"
  cn_write :: "err option"
  cn_attempt :: attempt

definition on_k :: "(kclient \<Rightarrow> kclient) \<Rightarrow> cclient \<Rightarrow> cclient" where
  "on_k f c = c\<lparr>cc_k := f (cc_k c)\<rparr>"

(* cmd/tezzer/client.go:170-176 Client.setTransport *)
definition setTransport :: "quicClient \<Rightarrow> cclient \<Rightarrow> cclient" where
  "setTransport t c = on_k (on_out (\<lambda>o'. o'\<lparr>ct := True\<rparr>)) (c\<lparr>cc_ct := Some t\<rparr>)"

section \<open>Messages on the socket\<close>

definition write_uds :: "string \<Rightarrow> connect_sys \<Rightarrow> proto_msg \<Rightarrow> cclient \<Rightarrow> cclient \<times> err option" where
  "write_uds what sys m c =
     (case cn_encode sys of
        Some e \<Rightarrow> (c, Some (Wrapped what e))
      | None \<Rightarrow>
          (case cn_write sys of
             Some e \<Rightarrow> (c, Some e)
           | None \<Rightarrow> (c\<lparr>cc_uds := cc_uds c @ [m]\<rparr>, None)))"

(* cmd/tezzer/connect.go:375-390 Client.sendQUICClientInfo *)
definition sendQUICClientInfo :: "connect_sys \<Rightarrow> client_id \<Rightarrow> cclient \<Rightarrow> cclient \<times> err option" where
  "sendQUICClientInfo sys clientID c =
     write_uds ''failed to encode client ID info'' sys (UDPClientInfoM (k_sessionID (cc_k c)) clientID) c"

(* cmd/tezzer/connect.go:393-408 Client.requestServerMeta *)
definition requestServerMeta :: "connect_sys \<Rightarrow> cclient \<Rightarrow> cclient \<times> err option" where
  "requestServerMeta sys c =
     write_uds ''failed to encode get server meta'' sys (GetServerMetaM (k_sessionID (cc_k c))) c"

section \<open>Callbacks\<close>

(* cmd/tezzer/connect.go:179-185 Client.startQUICTransport *)
definition on_state_change ::
  "int \<Rightarrow> ConnectionState \<Rightarrow> ConnectionState \<Rightarrow> string \<Rightarrow> kclient \<Rightarrow> kclient" where
  "on_state_change now old new message k =
     (let k1 = addLogMessage now (''[QUIC] state: '' @ message) (setStatus now (''[QUIC] '' @ message) k) in
      if new = StateConnected \<and> old = StateRecovering then act KRedraw k1 else k1)"

text \<open>What an operation of the transport does, as far as the client hears of it.\<close>

(* cmd/tezzer/connect.go:179-187 Client.startQUICTransport *)
fun heard :: "int \<Rightarrow> client_act \<Rightarrow> kclient \<Rightarrow> kclient" where
  "heard now (StateChange old new message) k = on_state_change now old new message k"
| "heard now (LogMessage message) k = addLogMessage now message k"
| "heard now _ k = k"

(* cmd/tezzer/connect.go:186-198 Client.startQUICTransport *)
fun on_ctrl_event :: "int \<Rightarrow> ctrl_event \<Rightarrow> cclient \<Rightarrow> cclient" where
  "on_ctrl_event now (ServerMetaEv build built inst) c = c\<lparr>cc_meta := Some (build, built, inst)\<rparr>"
| "on_ctrl_event now (SessionGoneEv reason code) c = on_k (on_out (on_session_not_found reason code)) c"
| "on_ctrl_event now (StatusEv m) c = on_k (setStatus now m) c"
| "on_ctrl_event now (LogEv m) c = on_k (addLogMessage now m) c"

text \<open>An operation of the transport in use, with its callbacks.\<close>

definition on_transport ::
  "int \<Rightarrow> (quicClient \<Rightarrow> quicClient \<times> client_act list) \<Rightarrow> cclient \<Rightarrow> cclient" where
  "on_transport now f c =
     (case cc_ct c of
        None \<Rightarrow> c
      | Some t \<Rightarrow> (case f t of (t', acts) \<Rightarrow> on_k (fold (heard now) acts) (c\<lparr>cc_ct := Some t'\<rparr>)))"

(* cmd/tezzer/connect.go:230-243 Client.startQUICTransport *)
definition candidate_refresher :: "connect_sys \<Rightarrow> QUICInfo \<Rightarrow> kclient \<Rightarrow> kclient \<times> string list" where
  "candidate_refresher sys q k =
     (let fresh = start_candidates (cn_query sys) (cn_ifaces sys) (cn_ipv4Only sys) q in
      (if length fresh > 0
       then addLogMessage (cn_now sys) (''QUIC: refreshed candidates: '' @ Join fresh '', '') k else k, fresh))"

section \<open>Setting the transport up\<close>

text \<open>The targets of -R as the map built from the specifications, a later one replacing an earlier.\<close>

definition rforward_list :: "remoteForwardSpec list \<Rightarrow> (port \<times> string) list" where
  "rforward_list specs = fold (\<lambda>r. AList.update (rs_port r) (rs_target r)) specs []"

(* cmd/tezzer/connect.go:151-175 Client.startQUICTransport *)
definition new_transport :: "cclient \<Rightarrow> string list \<Rightarrow> client_id \<Rightarrow> quicClient" where
  "new_transport c candidates clientID =
     (let t = NewClient (hd candidates) clientID (k_sessionID (cc_k c));
          t = (if cc_agentSockPath c \<noteq> '''' then SetAgentSockPath (cc_agentSockPath c) t else t);
          t = (if length (cc_rforwards c) > 0
               then SetRemoteForwards (cc_deviceID c) (rforward_list (cc_rforwards c)) t else t);
          seed = renderedSeq (k_out (cc_k c)) in
      if seed > 0 then SeedResyncOffset seed t else t)"

(* cmd/tezzer/connect.go:116-131 Client.startQUICTransport *)
definition announce :: "connect_sys \<Rightarrow> QUICInfo \<Rightarrow> client_id \<Rightarrow> cclient \<Rightarrow> cclient" where
  "announce sys q clientID c =
     (let now = cn_now sys;
          cas = getClientSTUNAddrs (cn_query sys) (cn_ipv4Only sys) (qi_STUNServer q);
          c1 = (if length (qi_STUNAddrs q) > 0
                then on_k (setStatus now (if length cas > 0 then ''client STUN address: '' @ Join cas '', ''
                                          else ''warning: failed to get client STUN address'')) c
                else c) in
      case sendQUICClientInfo sys clientID c1 of
        (c2, None) \<Rightarrow> c2
      | (c2, Some e) \<Rightarrow> on_k (setStatus now (''warning: failed to send client ID info: '' @ err_Error e)) c2)"

text \<open>The transport's own actions are the second result.\<close>

(* cmd/tezzer/connect.go:109-258 Client.startQUICTransport *)
definition startQUICTransport ::
  "connect_sys \<Rightarrow> QUICInfo \<Rightarrow> cclient \<Rightarrow> cclient \<times> client_act list \<times> err option" where
  "startQUICTransport sys q c =
     (case gen_clientID (cn_rand sys) of
        None \<Rightarrow> (c, [], Some (Wrapped ''failed to generate client ID'' (cn_randErr sys)))
      | Some clientID \<Rightarrow>
          let now = cn_now sys;
              c1 = announce sys q clientID c;
              candidates = start_candidates (cn_query sys) (cn_ifaces sys) (cn_ipv4Only sys) q;
              c2 = (if length candidates > 0
                    then on_k (setStatus now (''QUIC candidates: '' @ Join candidates '', '')) c1 else c1) in
          if length candidates = 0 then (c2, [], Some (ErrorString ''no QUIC candidate addresses''))
          else
            (case QClient.Start (cn_attempt sys) ((new_transport c2 candidates clientID)\<lparr>qc_candidates := candidates\<rparr>) of
               (t, acts, Some e) \<Rightarrow>
                 (case qc_Close t of
                    (t', acts') \<Rightarrow>
                      (on_k (setStatus now (''QUIC: '' @ err_Error e)) (on_k (fold (heard now) (acts @ acts')) c2),
                       acts @ acts', Some (Wrapped ''failed to connect'' e)))
             | (t, acts, None) \<Rightarrow>
                 (let c3 = setTransport t (on_k (fold (heard now) acts) c2) in
                  (if refresh_loop_runs q then c3\<lparr>cc_refreshers := cc_refreshers c3 + 1\<rparr> else c3, acts, None))))"

section \<open>Retrying\<close>

datatype retry_event = ClientDone | RetryTick connect_sys

definition log_lines :: "string list \<Rightarrow> kclient \<Rightarrow> kclient" where
  "log_lines ls k = fold (\<lambda>l. act (KLog l)) ls k"

definition note_failure :: "err \<Rightarrow> string \<Rightarrow> QUICInfo \<Rightarrow> cclient \<Rightarrow> cclient \<times> string" where
  "note_failure e lastErr q c =
     (case logQUICSetupFailure (k_statusMgr (cc_k c)) (err_Error e) lastErr (qi_Port q) of
        (ls, m) \<Rightarrow> (on_k (log_lines ls) c, m))"

definition start_pump :: "int \<Rightarrow> string \<Rightarrow> cclient \<Rightarrow> cclient" where
  "start_pump now m c = (on_k (setStatus now m) c)\<lparr>cc_pumps := cc_pumps c + 1\<rparr>"

(* cmd/tezzer/connect.go:296-315 Client.retryQUICTransport *)
fun retry_ticks :: "retry_event list \<Rightarrow> QUICInfo \<Rightarrow> string \<Rightarrow> cclient \<Rightarrow> cclient \<times> client_act list" where
  "retry_ticks [] q lastErr c = (c, [])"
| "retry_ticks (ClientDone # es) q lastErr c = (c, [])"
| "retry_ticks (RetryTick sys # es) q lastErr c =
     (if cc_ct c \<noteq> None then (c, [])
      else
        (case startQUICTransport sys q c of
           (c1, acts, Some e) \<Rightarrow>
             (case note_failure e lastErr q c1 of
                (c2, lastErr') \<Rightarrow> (case retry_ticks es q lastErr' c2 of (c3, acts') \<Rightarrow> (c3, acts @ acts')))
         | (c1, acts, None) \<Rightarrow>
             (start_pump (cn_now sys) ''[Tezzer] QUIC connection established (background retry)'' c1, acts)))"

(* cmd/tezzer/connect.go:291-295 Client.retryQUICTransport *)
definition retryQUICTransport ::
  "retry_event list \<Rightarrow> QUICInfo \<Rightarrow> err \<Rightarrow> cclient \<Rightarrow> cclient \<times> client_act list" where
  "retryQUICTransport es q firstErr c =
     (case note_failure firstErr '''' q c of (c1, lastErr) \<Rightarrow> retry_ticks es q lastErr c1)"

(* cmd/tezzer/main.go:614-632 run *)
definition setup_quic :: "connect_sys \<Rightarrow> retry_event list \<Rightarrow> QUICInfo option \<Rightarrow> cclient \<Rightarrow> cclient \<times> client_act list" where
  "setup_quic sys es quicInfo c =
     (case quicInfo of
        None \<Rightarrow> (c, [])
      | Some q \<Rightarrow>
          (case startQUICTransport sys q c of
             (c1, acts, Some e) \<Rightarrow>
               (case retryQUICTransport es q e
                       (on_k (setStatus (cn_now sys) (''QUIC setup failed, retrying in background: '' @ err_Error e)) c1) of
                  (c2, acts') \<Rightarrow> (c2, acts @ acts'))
           | (c1, acts, None) \<Rightarrow>
               (start_pump (cn_now sys) (''QUIC enabled: server port '' @ show_int (qi_Port q)) c1, acts)))"

section \<open>What a set-up leaves alone\<close>

lemma status_frame [simp]:
  "k_out (addLogMessage now m k) = k_out k" "k_out (setStatus now m k) = k_out k"
  "k_sessionID (addLogMessage now m k) = k_sessionID k" "k_sessionID (setStatus now m k) = k_sessionID k"
  by (auto simp: setStatus_def showRequestedStatus_def addLogMessage_def act_def Let_def)

lemma heard_frame [simp]:
  "k_out (heard now a k) = k_out k" "k_sessionID (heard now a k) = k_sessionID k"
  by (cases a; simp add: on_state_change_def act_def Let_def)+

lemma heard_fold [simp]:
  "k_out (fold (heard now) as k) = k_out k" "k_sessionID (fold (heard now) as k) = k_sessionID k"
  by (induction as arbitrary: k) auto

lemma on_k_simps [simp]:
  "cc_k (on_k f c) = f (cc_k c)" "cc_ct (on_k f c) = cc_ct c" "cc_uds (on_k f c) = cc_uds c"
  "cc_pumps (on_k f c) = cc_pumps c" "cc_meta (on_k f c) = cc_meta c"
  "cc_rforwards (on_k f c) = cc_rforwards c" "cc_deviceID (on_k f c) = cc_deviceID c"
  "cc_agentSockPath (on_k f c) = cc_agentSockPath c" "cc_refreshers (on_k f c) = cc_refreshers c"
  by (simp_all add: on_k_def)

lemma on_out_simps [simp]: "k_sessionID (on_out f k) = k_sessionID k" "k_out (on_out f k) = f (k_out k)"
  by (simp_all add: on_out_def)

lemma log_lines_frame [simp]:
  "k_out (log_lines ls k) = k_out k" "k_sessionID (log_lines ls k) = k_sessionID k"
  unfolding log_lines_def by (induction ls arbitrary: k) (auto simp: act_def)

definition same_setup :: "cclient \<Rightarrow> cclient \<Rightarrow> bool" where
  "same_setup c' c \<longleftrightarrow> k_out (cc_k c') = k_out (cc_k c) \<and> k_sessionID (cc_k c') = k_sessionID (cc_k c) \<and>
     cc_ct c' = cc_ct c \<and> cc_pumps c' = cc_pumps c \<and> cc_rforwards c' = cc_rforwards c \<and>
     cc_deviceID c' = cc_deviceID c \<and> cc_agentSockPath c' = cc_agentSockPath c"

lemma announce_same:
  "same_setup (announce sys q n c) c"
  "cc_uds (announce sys q n c) =
     cc_uds c @ (if cn_encode sys = None \<and> cn_write sys = None then [UDPClientInfoM (k_sessionID (cc_k c)) n] else [])"
  by (auto simp: announce_def same_setup_def sendQUICClientInfo_def write_uds_def Let_def split: option.split)

lemma gen_clientID_nonzero: "gen_clientID rs = Some n \<Longrightarrow> n \<noteq> 0"
  by (induction rs) (auto split: if_splits)

section \<open>The set-up agrees with the server\<close>

lemma new_transport_fields:
  "helloMsg ((new_transport c cs n)\<lparr>qc_candidates := cs'\<rparr>) = helloMsg (new_transport c cs n)"
  "qc_conn ((new_transport c cs n)\<lparr>qc_candidates := cs'\<rparr>) = None"
  by (simp_all add: helloMsg_def remoteForwardPorts_def new_transport_def NewClient_def SetAgentSockPath_def
      SetRemoteForwards_def SeedResyncOffset_def Let_def)

text \<open>What the hello of a new transport says.\<close>

lemma new_transport_hello:
  "cm_Type (helloMsg (new_transport c cs n)) = ctrlHello"
  "cm_ClientID (helloMsg (new_transport c cs n)) = n"
  "cm_SessionID (helloMsg (new_transport c cs n)) = k_sessionID (cc_k c)"
  "cm_LastOffset (helloMsg (new_transport c cs n)) = renderedSeq (k_out (cc_k c))"
  "cm_AgentForward (helloMsg (new_transport c cs n)) \<longleftrightarrow> cc_agentSockPath c \<noteq> ''''"
  by (simp_all add: helloMsg_def remoteForwardPorts_def new_transport_def NewClient_def SetAgentSockPath_def
      SetRemoteForwards_def SeedResyncOffset_def ctrl_msg_def Let_def)

lemma Start_ok:
  assumes "QClient.Start a t = (t', acts, None)"
  shows "\<exists>conn. qc_conn t' = Some conn \<and> SendHello conn (helloMsg t) \<in> set acts \<and> qc_state t' = StateConnected"
  using assms
  by (auto simp: QClient.Start_def setState_def helloMsg_def remoteForwardPorts_def Let_def
      split: option.splits prod.splits if_splits)

lemma same_renderedSeq: "same_setup c' c \<Longrightarrow> new_transport c' cs n = new_transport c cs n"
  by (simp add: new_transport_def same_setup_def Let_def)

lemma startQUIC_ok:
  assumes "startQUICTransport sys q c = (c', acts, None)"
  obtains n cs t conn where "gen_clientID (cn_rand sys) = Some n" "cc_ct c' = Some t" "qc_conn t = Some conn"
    "qc_state t = StateConnected" "SendHello conn (helloMsg (new_transport c cs n)) \<in> set acts"
    "cc_uds c' = cc_uds (announce sys q n c)" "ct (k_out (cc_k c'))"
proof -
  obtain n where n: "gen_clientID (cn_rand sys) = Some n"
    using assms by (auto simp: startQUICTransport_def split: option.splits)
  let ?cs = "start_candidates (cn_query sys) (cn_ifaces sys) (cn_ipv4Only sys) q"
  let ?c1 = "announce sys q n c"
  let ?c2 = "on_k (setStatus (cn_now sys) (''QUIC candidates: '' @ Join ?cs '', '')) ?c1"
  have cs: "?cs \<noteq> []" using assms n by (auto simp: startQUICTransport_def)
  have "same_setup ?c2 c" using announce_same(1) [of sys q n c] by (simp add: same_setup_def)
  then have same: "new_transport ?c2 ?cs n = new_transport c ?cs n" by (rule same_renderedSeq)
  obtain t acts' e where s: "QClient.Start (cn_attempt sys) ((new_transport c ?cs n)\<lparr>qc_candidates := ?cs\<rparr>) = (t, acts', e)"
    by (metis prod_cases3)
  with assms n cs same have e: "e = None" and a: "acts' = acts" and t: "cc_ct c' = Some t" "ct (k_out (cc_k c'))"
    "cc_uds c' = cc_uds ?c1"
    by (auto simp: startQUICTransport_def Let_def setTransport_def split: option.splits prod.splits if_splits)
  from Start_ok [OF s [unfolded e]] obtain conn where "qc_conn t = Some conn" "qc_state t = StateConnected"
    "SendHello conn (helloMsg (new_transport c ?cs n)) \<in> set acts" unfolding new_transport_fields a by blast
  with that [of n t conn ?cs] n t show thesis by blast
qed

text \<open>C33. When the QUIC transport of a client stands, both ways the server hears of it name the same
  client: the number in the message on the Unix socket puts the client among the targets of the
  output of its session, the hello registers the connection under exactly that target, and the
  resynchronisation starts with the first position the client has not rendered. The number is never
  the zero that stands for no QUIC.\<close>

theorem setup_agrees_with_server:
  assumes "startQUICTransport sys q c = (c', acts, None)" "cn_encode sys = None" "cn_write sys = None"
    "ID s = k_sessionID (cc_k c)" "st s"
  shows "\<exists>n t conn h s'. n \<noteq> 0 \<and> cc_uds c' = cc_uds c @ [UDPClientInfoM (ID s) n] \<and>
     cc_ct c' = Some t \<and> qc_conn t = Some conn \<and> qc_state t = StateConnected \<and> SendHello conn h \<in> set acts \<and>
     RegisterQUICClient n s = Inr s' \<and> ClientID (ID s) n \<in> set (snd (out_targets s')) \<and>
     (case handle_hello k addr (FirstFrame h None) srv of (srv', sacts) \<Rightarrow>
        map_of (qs_clients srv') (ClientID (ID s) n) = Some k \<and>
        OnResync (ClientID (ID s) n) ((renderedSeq (k_out (cc_k c)) + 1) mod 2 ^ 64) \<in> set sacts)"
proof -
  from assms(1) obtain n cs t conn where o: "gen_clientID (cn_rand sys) = Some n" "cc_ct c' = Some t"
    "qc_conn t = Some conn" "qc_state t = StateConnected"
    "SendHello conn (helloMsg (new_transport c cs n)) \<in> set acts" "cc_uds c' = cc_uds (announce sys q n c)"
    by (rule startQUIC_ok)
  let ?h = "helloMsg (new_transport c cs n)"
  have "\<exists>s'. RegisterQUICClient n s = Inr s' \<and> n \<in> set (quicClientIDsOut s') \<and> ID s' = ID s"
    using assms(5) by (auto simp: RegisterQUICClient_def signalQuicReadyLocked_def Let_def)
  then obtain s' where r: "RegisterQUICClient n s = Inr s'" "n \<in> set (quicClientIDsOut s')" "ID s' = ID s" by blast
  have "case handle_hello k addr (FirstFrame ?h None) srv of (srv', sacts) \<Rightarrow>
      map_of (qs_clients srv') (ClientID (ID s) n) = Some k \<and>
      OnResync (ClientID (ID s) n) ((renderedSeq (k_out (cc_k c)) + 1) mod 2 ^ 64) \<in> set sacts"
    using assms(4)
    by (auto simp: handle_hello_def new_transport_hello Let_def update_conv split: prod.splits)
  moreover have "cc_uds c' = cc_uds c @ [UDPClientInfoM (ID s) n]"
    using o(6) assms(2-4) announce_same(2) [of sys q n c] by simp
  ultimately show ?thesis
    using o r gen_clientID_nonzero [OF o(1)] by (intro exI conjI) (assumption | simp add: out_targets_def)+
qed

text \<open>A client of the session s1 whose server offers no STUN, and an attempt that reaches it.\<close>

definition quic_client0 :: cclient where
  "quic_client0 =
     \<lparr>cc_k = new_kclient ''s1'' 30 False False (80, 24) '''' '''' [], cc_ct = None, cc_meta = None,
      cc_rforwards = [], cc_deviceID = '''', cc_agentSockPath = '''', cc_uds = [], cc_pumps = 0, cc_refreshers = 0\<rparr>"

definition quic_info0 :: QUICInfo where
  "quic_info0 = \<lparr>qi_Port = 4433, qi_Key = [], qi_STUNAddrs = [], qi_LocalAddrs = [], qi_STUNServer = ''''\<rparr>"

definition connecting :: "client_id list \<Rightarrow> attempt \<Rightarrow> connect_sys" where
  "connecting rs a =
     \<lparr>cn_now = 5, cn_rand = rs, cn_randErr = EOF, cn_query = (\<lambda>_. Inl EOF), cn_ifaces = Inr [], cn_ipv4Only = False,
      cn_encode = None, cn_write = None, cn_attempt = a\<rparr>"

lemma candidates0: "start_candidates query (Inr []) v4 quic_info0 = [loopback quic_info0]"
  by (simp add: start_candidates_def quic_info0_def buildQUICCandidateAddrs_def serverIsOnSameHost_def
      isRemoteConnection_def Let_def)

lemma connecting_starts:
  "startQUICTransport (connecting [0, 7] (good_attempt 3)) quic_info0 quic_client0 =
     (fst (startQUICTransport (connecting [0, 7] (good_attempt 3)) quic_info0 quic_client0),
      fst (snd (startQUICTransport (connecting [0, 7] (good_attempt 3)) quic_info0 quic_client0)), None)"
proof -
  have "snd (snd (QClient.Start (good_attempt 3) t)) = None" for t
    by (simp add: QClient.Start_def good_attempt_def dialParallel_def dialCandidate_def Let_def case_prod_unfold)
  then show ?thesis
    by (simp add: startQUICTransport_def connecting_def candidates0 Let_def case_prod_unfold split: option.split)
qed

theorem setup_agrees_with_server_witness:
  "\<exists>n. n \<noteq> 0 \<and>
     cc_uds (fst (startQUICTransport (connecting [0, 7] (good_attempt 3)) quic_info0 quic_client0)) = [UDPClientInfoM ''s1'' n]"
proof -
  let ?s = "shared_session\<lparr>ID := ''s1''\<rparr>"
  have "cn_encode (connecting rs a) = None" "cn_write (connecting rs a) = None" for rs a
    by (simp_all add: connecting_def)
  moreover have "st ?s" "ID ?s = k_sessionID (cc_k quic_client0)"
    by (simp_all add: quic_client0_def new_kclient_def Let_def shared_session_def)
  ultimately obtain n where "n \<noteq> 0"
    "cc_uds (fst (startQUICTransport (connecting [0, 7] (good_attempt 3)) quic_info0 quic_client0)) =
       cc_uds quic_client0 @ [UDPClientInfoM (ID ?s) n]"
    using setup_agrees_with_server [OF connecting_starts, of ?s] by blast
  then show ?thesis by (intro exI [of _ n]) (simp add: quic_client0_def)
qed

section \<open>A set-up that fails\<close>

lemma note_failure_same: "note_failure e l q c = (c', m) \<Longrightarrow> same_setup c' c \<and> cc_uds c' = cc_uds c"
  by (auto simp: note_failure_def same_setup_def split: prod.splits)

lemma Start_fails_closed:
  assumes "QClient.Start a t = (t', acts, Some e)" "qc_conn t = None"
  shows "\<forall>tr. OpenTransport tr \<in> set acts \<longrightarrow> CloseTransportA tr \<in> set acts \<union> set (snd (qc_Close t'))"
proof -
  obtain w fails acts1 where d: "dialParallel (at_dial a) (dial_candidates t) = (w, fails, acts1)" by (metis prod_cases3)
  have open1: "OpenTransport tr \<in> set acts1 \<Longrightarrow> CloseTransportA tr \<in> set acts1 \<or> (\<exists>addr conn. w = Some (addr, conn, tr))" for tr
    by (rule dial_opens(1) [OF d])
  show ?thesis
    using assms d open1
    by (cases "at_control a"; cases "at_hello a"; cases "at_input a")
      (fastforce simp: QClient.Start_def qc_Close_def setState_def Let_def split: option.splits prod.splits)+
qed

lemma failed_setup:
  assumes "startQUICTransport sys q c = (c', acts, Some e)"
  shows "same_setup c' c \<and> (\<exists>ms. cc_uds c' = cc_uds c @ ms \<and> length ms \<le> 1) \<and>
    (\<forall>tr. OpenTransport tr \<in> set acts \<longrightarrow> CloseTransportA tr \<in> set acts)"
proof (cases "gen_clientID (cn_rand sys)")
  case None
  with assms show ?thesis by (auto simp: startQUICTransport_def same_setup_def)
next
  case (Some n)
  let ?cs = "start_candidates (cn_query sys) (cn_ifaces sys) (cn_ipv4Only sys) q"
  let ?c1 = "announce sys q n c"
  note a = announce_same [of sys q n c]
  show ?thesis
  proof (cases "?cs = []")
    case True
    with assms Some a show ?thesis by (auto simp: startQUICTransport_def same_setup_def Let_def)
  next
    case False
    let ?c2 = "on_k (setStatus (cn_now sys) (''QUIC candidates: '' @ Join ?cs '', '')) ?c1"
    let ?t0 = "(new_transport ?c2 ?cs n)\<lparr>qc_candidates := ?cs\<rparr>"
    obtain t acts1 e1 where s: "QClient.Start (cn_attempt sys) ?t0 = (t, acts1, e1)" by (metis prod_cases3)
    obtain t' acts2 where cl: "qc_Close t = (t', acts2)" by force
    from assms Some False s cl obtain x where r: "e1 = Some x" "acts = acts1 @ acts2"
      "same_setup c' ?c1" "cc_uds c' = cc_uds ?c1"
      by (auto simp: startQUICTransport_def Let_def same_setup_def split: option.splits prod.splits if_splits)
    have "same_setup c' c" using r(3) a(1) by (simp add: same_setup_def)
    moreover have "\<forall>tr. OpenTransport tr \<in> set acts1 \<longrightarrow> CloseTransportA tr \<in> set acts"
      using Start_fails_closed [OF s [unfolded r(1)] new_transport_fields(2)] cl r(2) by auto
    moreover have "OpenTransport tr \<notin> set acts2" for tr
      using cl by (auto simp: qc_Close_def setState_def split: prod.splits option.splits if_splits)
    ultimately show ?thesis using r a(2) by auto
  qed
qed

text \<open>A set-up that fails, wherever it does, leaves the client on the Unix socket with its rendering
  as it was, has told the server of at most one number, and closes every local socket it opened.\<close>

theorem failed_setup_leaves_client:
  assumes "startQUICTransport sys q c = (c', acts, Some e)"
  shows "same_setup c' c \<and> (\<exists>ms. cc_uds c' = cc_uds c @ ms \<and> length ms \<le> 1) \<and>
    (\<forall>tr. OpenTransport tr \<in> set acts \<longrightarrow> CloseTransportA tr \<in> set acts)"
  by (rule failed_setup [OF assms])

lemma connecting_fails:
  "snd (snd (startQUICTransport (connecting [7] ((good_attempt 3)\<lparr>at_control := Some EOF\<rparr>)) quic_info0 c)) =
     Some (Wrapped ''failed to connect'' EOF)"
proof -
  have "snd (snd (QClient.Start ((good_attempt 3)\<lparr>at_control := Some EOF\<rparr>) t)) = Some EOF" for t
    by (simp add: QClient.Start_def good_attempt_def dialParallel_def dialCandidate_def Let_def case_prod_unfold)
  then show ?thesis
    by (simp add: startQUICTransport_def connecting_def candidates0 Let_def case_prod_unfold split: option.split)
qed

theorem failed_setup_leaves_client_witness:
  "\<exists>c' acts e. startQUICTransport (connecting [7] ((good_attempt 3)\<lparr>at_control := Some EOF\<rparr>)) quic_info0 quic_client0 =
     (c', acts, Some e) \<and> cc_ct c' = None"
proof -
  obtain c' acts where r: "startQUICTransport (connecting [7] ((good_attempt 3)\<lparr>at_control := Some EOF\<rparr>)) quic_info0
      quic_client0 = (c', acts, Some (Wrapped ''failed to connect'' EOF))"
    using connecting_fails by (metis prod.collapse)
  with failed_setup_leaves_client [OF r] show ?thesis by (auto simp: same_setup_def quic_client0_def)
qed

section \<open>Numbers that are never taken back\<close>

text \<open>The connection of an attached client that sends ms and goes away.\<close>

definition serve_until_gone :: "daemon_env \<Rightarrow> string \<Rightarrow> string \<Rightarrow> proto_msg list \<Rightarrow> tezzerd \<Rightarrow> tezzerd" where
  "serve_until_gone env k cl ms d =
     snd (fst (loop_step env k cl ReadErr (fold (\<lambda>m d. snd (fst (loop_step env k cl (Got m) d))) ms d)))"

lemma startQUIC_uds:
  assumes "startQUICTransport sys q c = (c', acts, e)" "gen_clientID (cn_rand sys) = Some n"
  shows "cc_uds c' = cc_uds (announce sys q n c)"
  using assms
  by (auto simp: startQUICTransport_def setTransport_def Let_def split: prod.splits option.splits if_splits)

text \<open>An attempt that cannot succeed, although its message on the Unix socket is written.\<close>

definition hopeless :: "QUICInfo \<Rightarrow> connect_sys \<Rightarrow> bool" where
  "hopeless q sys \<longleftrightarrow> cn_encode sys = None \<and> cn_write sys = None \<and>
     (\<forall>c. snd (snd (startQUICTransport sys q c)) \<noteq> None)"

lemma retries_announce:
  assumes "\<forall>sys\<in>set syss. hopeless q sys" "map (\<lambda>sys. gen_clientID (cn_rand sys)) syss = map Some ids"
    "cc_ct c = None"
  shows "cc_uds (fst (retry_ticks (map RetryTick syss) q l c)) =
    cc_uds c @ map (UDPClientInfoM (k_sessionID (cc_k c))) ids"
  using assms
proof (induction syss arbitrary: ids l c)
  case (Cons sys syss)
  then obtain n ids' where ids: "ids = n # ids'" "gen_clientID (cn_rand sys) = Some n"
    "map (\<lambda>sys. gen_clientID (cn_rand sys)) syss = map Some ids'" by auto
  have h: "hopeless q sys" using Cons.prems(1) by simp
  then obtain c1 acts e where s: "startQUICTransport sys q c = (c1, acts, Some e)"
    unfolding hopeless_def by (metis option.exhaust prod.collapse)
  obtain c2 l' where nf: "note_failure e l q c1 = (c2, l')" by force
  have c1: "same_setup c1 c" using failed_setup [OF s] by blast
  have "cc_uds c1 = cc_uds c @ [UDPClientInfoM (k_sessionID (cc_k c)) n]"
    using startQUIC_uds [OF s ids(2)] announce_same(2) [of sys q n c] h by (simp add: hopeless_def)
  moreover have "same_setup c2 c1" "cc_uds c2 = cc_uds c1" using note_failure_same [OF nf] by auto
  moreover have "cc_uds (fst (retry_ticks (map RetryTick syss) q l' c2)) =
      cc_uds c2 @ map (UDPClientInfoM (k_sessionID (cc_k c2))) ids'"
    using Cons.prems c1 \<open>same_setup c2 c1\<close> ids(3) by (intro Cons.IH) (auto simp: same_setup_def)
  ultimately show ?case
    using s nf ids(1) c1 Cons.prems(3) by (simp add: case_prod_unfold same_setup_def)
qed simp

lemma register_message:
  assumes "map_of (sessions (mgr d)) k = Some s" "st s" "n \<notin> set (quicClientIDsOut s)"
  shows "\<exists>s'. map_of (sessions (mgr (snd (fst (loop_step env k cl (Got (UDPClientInfoM j n)) d))))) k = Some s' \<and>
     st s' \<and> quicClientIDsOut s' = quicClientIDsOut s @ [n]"
  using assms
  by (auto simp: on_session_def with_session_def RegisterQUICClient_def signalQuicReadyLocked_def Let_def update_conv)

lemma register_messages:
  assumes "map_of (sessions (mgr d)) k = Some s" "st s" "distinct ids" "set ids \<inter> set (quicClientIDsOut s) = {}"
  shows "\<exists>s'. map_of (sessions (mgr (fold (\<lambda>m d. snd (fst (loop_step env k cl (Got m) d))) (map (UDPClientInfoM j) ids) d))) k =
       Some s' \<and> st s' \<and> quicClientIDsOut s' = quicClientIDsOut s @ ids"
  using assms
proof (induction ids arbitrary: d s)
  case (Cons n ids)
  obtain s1 where s1: "map_of (sessions (mgr (snd (fst (loop_step env k cl (Got (UDPClientInfoM j n)) d))))) k = Some s1"
    "st s1" "quicClientIDsOut s1 = quicClientIDsOut s @ [n]"
    using register_message [of d k s n env cl j] Cons.prems by auto
  have "distinct ids" "set ids \<inter> set (quicClientIDsOut s1) = {}" using Cons.prems s1(3) by auto
  from Cons.IH [OF s1(1,2) this] show ?case using s1(3) by (simp del: loop_step.simps)
qed simp

lemma cleanup_keeps_numbers:
  assumes "map_of (sessions (mgr d)) k = Some s"
  shows "\<exists>s'. map_of (sessions (mgr (snd (fst (loop_step env k cl ReadErr d))))) k = Some s' \<and>
     quicClientIDsOut s' = quicClientIDsOut s"
  using assms
  by (auto simp: conn_cleanup_def on_session_def with_session_def DetachClient_def Let_def update_conv
      split: prod.splits option.split)

text \<open>Every attempt of a client to set QUIC up draws a new number and announces it, and no operation
  of the session takes a number back: while UDP does not get through, each retry adds a target to the
  output of the session, and all of them stay when the client has gone.\<close>

theorem retries_grow_the_fan_out:
  assumes "\<forall>sys\<in>set syss. hopeless q sys" "map (\<lambda>sys. gen_clientID (cn_rand sys)) syss = map Some ids"
    "cc_ct c = None" "cc_uds c = []" "map_of (sessions (mgr d)) k = Some s" "st s"
    "distinct ids" "set ids \<inter> set (quicClientIDsOut s) = {}"
  shows "\<exists>s'. map_of (sessions (mgr (serve_until_gone env k cl
      (cc_uds (fst (retry_ticks (map RetryTick syss) q l c))) d))) k = Some s' \<and>
     quicClientIDsOut s' = quicClientIDsOut s @ ids"
proof -
  let ?j = "k_sessionID (cc_k c)"
  let ?d1 = "fold (\<lambda>m d. snd (fst (loop_step env k cl (Got m) d))) (map (UDPClientInfoM ?j) ids) d"
  obtain s1 where s1: "map_of (sessions (mgr ?d1)) k = Some s1" "quicClientIDsOut s1 = quicClientIDsOut s @ ids"
    using register_messages [OF assms(5-8)] by blast
  have "cc_uds (fst (retry_ticks (map RetryTick syss) q l c)) = map (UDPClientInfoM ?j) ids"
    using retries_announce [OF assms(1-3)] assms(4) by simp
  then show ?thesis
    using cleanup_keeps_numbers [OF s1(1), of env cl] s1(2) by (simp add: serve_until_gone_def del: loop_step.simps)
qed

lemma hopeless_example: "hopeless quic_info0 (connecting [n] ((good_attempt 3)\<lparr>at_control := Some EOF\<rparr>))"
proof -
  have a: "snd (snd (QClient.Start ((good_attempt 3)\<lparr>at_control := Some EOF\<rparr>) t)) = Some EOF" for t
    by (simp add: QClient.Start_def good_attempt_def dialParallel_def dialCandidate_def Let_def case_prod_unfold)
  have "snd (snd (startQUICTransport (connecting [n] ((good_attempt 3)\<lparr>at_control := Some EOF\<rparr>)) quic_info0 c)) \<noteq> None" for c
    using a by (simp add: startQUICTransport_def connecting_def candidates0 Let_def case_prod_unfold split: option.split)
  then show ?thesis by (simp add: hopeless_def connecting_def)
qed

definition shared_daemon :: tezzerd where
  "shared_daemon = daemon0\<lparr>mgr := (NewManager None 0)\<lparr>sessions := [(''s1'', shared_session)]\<rparr>\<rparr>"

theorem retries_grow_the_fan_out_witness:
  "\<exists>s'. map_of (sessions (mgr (serve_until_gone gone_client ''s1'' ''client-1''
      (cc_uds (fst (retry_ticks (map RetryTick (map (\<lambda>n. connecting [n] ((good_attempt 3)\<lparr>at_control := Some EOF\<rparr>)) [7, 8]))
         quic_info0 ''x'' quic_client0))) shared_daemon))) ''s1'' = Some s' \<and> quicClientIDsOut s' = [7, 8]"
proof -
  let ?syss = "map (\<lambda>n. connecting [n] ((good_attempt 3)\<lparr>at_control := Some EOF\<rparr>)) [7, 8]"
  have h: "\<forall>sys\<in>set ?syss. hopeless quic_info0 sys" using hopeless_example by auto
  have g: "map (\<lambda>sys. gen_clientID (cn_rand sys)) ?syss = map Some [7, 8]" by (simp add: connecting_def)
  have m: "map_of (sessions (mgr shared_daemon)) ''s1'' = Some shared_session" by (simp add: shared_daemon_def)
  have s: "st shared_session" "quicClientIDsOut shared_session = []" by (simp_all add: shared_session_def session0_def)
  have c: "cc_ct quic_client0 = None" "cc_uds quic_client0 = []" by (simp_all add: quic_client0_def)
  have i: "distinct [7, 8 :: client_id]" "set [7, 8 :: client_id] \<inter> set (quicClientIDsOut shared_session) = {}"
    using s by simp_all
  show ?thesis
    using retries_grow_the_fan_out [OF h g c m s(1) i, of gone_client "''client-1''" "''x''"] unfolding s(2) append_Nil .
qed

section \<open>Redrawing after a recovery\<close>

definition redraws :: "kclient \<Rightarrow> nat" where
  "redraws k = count_list (k_acts k) KRedraw"

fun wants_redraw :: "client_act \<Rightarrow> nat" where
  "wants_redraw (StateChange old new m) = (if old = StateRecovering \<and> new = StateConnected then 1 else 0)"
| "wants_redraw _ = 0"

lemma redraws_status [simp]:
  "redraws (addLogMessage now m k) = redraws k" "redraws (setStatus now m k) = redraws k"
  by (auto simp: redraws_def setStatus_def showRequestedStatus_def addLogMessage_def act_def Let_def)

lemma redraws_heard: "redraws (heard now a k) = redraws k + wants_redraw a"
proof (cases a)
  case (StateChange old new m)
  have "redraws (act KRedraw k') = redraws k' + 1" for k' by (simp add: redraws_def act_def)
  with StateChange show ?thesis by (simp add: on_state_change_def Let_def)
qed auto

lemma redraws_fold: "redraws (fold (heard now) as k) = redraws k + sum_list (map wants_redraw as)"
  by (induction as arbitrary: k) (auto simp: redraws_heard)

definition redraw_sum :: "client_act list \<Rightarrow> nat" where
  "redraw_sum as = sum_list (map wants_redraw as)"

lemma redraw_sum_simps [simp]:
  "redraw_sum [] = 0" "redraw_sum (a # as) = wants_redraw a + redraw_sum as"
  "redraw_sum (as @ bs) = redraw_sum as + redraw_sum bs"
  by (simp_all add: redraw_sum_def)

lemma redraw_sum_quiet: "(\<And>a. a \<in> set as \<Longrightarrow> wants_redraw a = 0) \<Longrightarrow> redraw_sum as = 0"
  by (induction as) auto

lemma dial_quiet: "dialParallel dial cs = (w, fails, acts) \<Longrightarrow> redraw_sum acts = 0"
proof -
  have "dial_loop rs w0 = (w, fails, acts) \<Longrightarrow> redraw_sum acts = 0" for rs w0 w fails acts
    by (induction rs w0 arbitrary: w fails acts rule: dial_loop.induct) (auto split: prod.splits option.splits)
  moreover have "redraw_sum (concat (map fst (map dialCandidate ds))) = 0" for ds
  proof (rule redraw_sum_quiet)
    have "wants_redraw a = 0" if "a \<in> set (fst (dialCandidate d))" for a d
      using that by (cases "dt_socket d"; cases "dt_resolve d"; cases "dt_conn d") (auto simp: dialCandidate_def)
    then show "wants_redraw a = 0" if "a \<in> set (concat (map fst (map dialCandidate ds)))" for a
      using that by auto
  qed
  ultimately show "dialParallel dial cs = (w, fails, acts) \<Longrightarrow> redraw_sum acts = 0"
    by (auto simp: dialParallel_def Let_def split: prod.splits)
qed

lemma reconnect_dial_quiet:
  assumes "reconnect_dial a t = (t', w, fails, acts)" "qc_state t = StateRecovering"
  shows "redraw_sum acts = 0 \<and> qc_state t' = StateRecovering"
proof -
  obtain w1 f1 a1 where d1: "dialParallel (at_dial a) (dial_candidates t) = (w1, f1, a1)" by (metis prod_cases3)
  show ?thesis
  proof (cases "at_refresher a")
    case None
    with assms d1 dial_quiet [OF d1] show ?thesis by (auto simp: reconnect_dial_def split: if_splits)
  next
    case (Some fresh)
    obtain w2 f2 a2 where d2: "dialParallel (at_dial a) fresh = (w2, f2, a2)" by (metis prod_cases3)
    with Some assms d1 dial_quiet [OF d1] dial_quiet [OF d2] show ?thesis
      by (auto simp: reconnect_dial_def setState_def Let_def split: if_splits)
  qed
qed

lemma adopt_quiet:
  assumes "adoptConn a w t = (t', acts, e)"
  shows "redraw_sum acts = 0 \<and> qc_state t' = qc_state t"
proof -
  have r: "redraw_sum (map RetireTransport xs) = 0" for xs by (rule redraw_sum_quiet) auto
  show ?thesis
    using assms r
    by (cases w; cases "at_control a"; cases "at_hello a"; cases "at_input a")
      (auto simp: adoptConn_def Let_def split: option.splits)
qed

lemma reconnect_redraws:
  assumes "reconnect a reason t = (t', acts, e)"
  shows "if e = None then qc_state t' = StateConnected \<and> redraw_sum acts = 1
    else qc_state t' = StateRecovering \<and> redraw_sum acts = 0"
proof -
  obtain t1 a1 where s1: "setState StateRecovering (''reconnecting: '' @ reason) t = (t1, a1)" by force
  then have t1: "qc_state t1 = StateRecovering" "redraw_sum a1 = 0" by (auto simp: setState_def split: if_splits)
  show ?thesis
  proof (cases "at_tls a")
    case (Some x)
    then have "t' = t1" "acts = a1" "e = Some x" using assms s1 by (auto simp: reconnect_def)
    with t1 show ?thesis by simp
  next
    case None
    obtain t2 w fails a2 where d: "reconnect_dial a t1 = (t2, w, fails, a2)" by (metis prod_cases4)
    note q = reconnect_dial_quiet [OF d t1(1)]
    show ?thesis
    proof (cases w)
      assume "w = None"
      with assms s1 t1 None d q show ?thesis by (auto simp: reconnect_def)
    next
      fix wn assume "w = Some wn"
      obtain t3 a3 e3 where ad: "adoptConn a wn t2 = (t3, a3, e3)" by (metis prod_cases3)
      with adopt_quiet [OF ad] assms s1 t1 None d q \<open>w = Some wn\<close> show ?thesis
        by (cases e3) (auto simp: reconnect_def setState_def recordRecovery_def Let_def)
    qed
  qed
qed

lemma migrate_redraws:
  assumes "migrate a reason t = (t', acts, e)"
  shows "if e = None then qc_state t' = StateConnected \<and> redraw_sum acts = 1 else redraw_sum acts = 0"
  using assms
  by (auto simp: migrate_def setState_def recordRecovery_def Let_def split: if_splits sum.splits option.splits)

lemma recover_redraws:
  assumes "recoverWith a reason tryMigrate t = (t', acts)" "\<not> inBackoff (at_now a) t"
  shows "redraw_sum acts = (if qc_state t' = StateConnected then 1 else 0)"
proof -
  obtain t1 a1 fin where g: "(if tryMigrate \<and> \<not> at_dead a
      then (case migrate a reason t of (c1, acts, e) \<Rightarrow> (c1, acts, e = None)) else (t, [], False)) = (t1, a1, fin)"
    by (metis prod_cases3)
  have m: "if fin then qc_state t1 = StateConnected \<and> redraw_sum a1 = 1 else redraw_sum a1 = 0"
  proof (cases "tryMigrate \<and> \<not> at_dead a")
    case True
    obtain t2 a2 e2 where "migrate a reason t = (t2, a2, e2)" by (metis prod_cases3)
    with migrate_redraws [OF this] g True show ?thesis by auto
  qed (use g in auto)
  show ?thesis
  proof (cases fin)
    case True
    with assms g m show ?thesis by (auto simp: recoverWith_def resetBackoff_def)
  next
    case False
    obtain t2 a2 e2 where r: "reconnect a reason t1 = (t2, a2, e2)" by (metis prod_cases3)
    with reconnect_redraws [OF r] assms g m False show ?thesis
      by (cases e2) (auto simp: recoverWith_def resetBackoff_def bumpBackoff_def Let_def)
  qed
qed

text \<open>Through the callbacks of the client, a recovery that gets the connection back asks the server
  for exactly one redraw, and one that fails, or waits for the backoff, for none.\<close>

theorem redraw_after_recovery:
  assumes "cc_ct c = Some t"
  shows "redraws (cc_k (on_transport now (recoverWith a reason tryMigrate) c)) = redraws (cc_k c) +
    (if \<not> inBackoff (at_now a) t \<and>
        map_option qc_state (cc_ct (on_transport now (recoverWith a reason tryMigrate) c)) = Some StateConnected
     then 1 else 0)"
proof -
  obtain t' acts where r: "recoverWith a reason tryMigrate t = (t', acts)" by force
  have "redraw_sum acts = (if \<not> inBackoff (at_now a) t \<and> qc_state t' = StateConnected then 1 else 0)"
    using r recover_redraws [OF r] by (cases "inBackoff (at_now a) t") (auto simp: recoverWith_def)
  with r assms show ?thesis by (simp add: on_transport_def redraws_fold flip: redraw_sum_def)
qed

theorem redraw_after_recovery_witness:
  "redraws (cc_k (on_transport 9 (recoverWith (good_attempt 3) ''connection lost'' True)
     (quic_client0\<lparr>cc_ct := Some (lost_client\<lparr>qc_backoffUntil := None\<rparr>)\<rparr>))) = 1"
proof -
  let ?t = "lost_client\<lparr>qc_backoffUntil := None\<rparr>"
  let ?c = "quic_client0\<lparr>cc_ct := Some ?t\<rparr>"
  have b: "\<not> inBackoff (at_now (good_attempt 3)) ?t" by (simp add: inBackoff_def)
  have "qc_state (fst (recoverWith (good_attempt 3) ''connection lost'' True ?t)) = StateConnected"
    using recover_reachable [OF good_reachable, of 3 ?t] b by (simp split: if_splits)
  then have "map_option qc_state (cc_ct (on_transport 9 (recoverWith (good_attempt 3) ''connection lost'' True) ?c)) =
      Some StateConnected"
    by (simp add: on_transport_def case_prod_unfold)
  with redraw_after_recovery [of ?c ?t 9 "good_attempt 3" "''connection lost''" True] b
  show ?thesis by (simp add: quic_client0_def redraws_def new_kclient_def Let_def)
qed

end
