(* ===== verification/Restart.thy ===== *)
theory Restart
  imports Daemon "HOL-Library.Multiset"
begin

text \<open>
  The process of the daemon around a restart (cmd/tezzerd/handover.go, the start in main.go), the
  paths of the sockets (internal/netx/uds.go) and the build information (internal/version). Open
  descriptors are a multiset of numbers, the environment a list of assignments of which, as in Go's
  os.Getenv, the first of a name counts. The results of system calls are parameters.
\<close>

section \<open>Paths of the sockets\<close>

text \<open>filepath.Join of two clean paths.\<close>

definition path_join :: "string \<Rightarrow> string \<Rightarrow> string" where
  "path_join a b = (if a = '''' then b else if last a = CHR ''/'' then a @ b else a @ ''/'' @ b)"

text \<open>xdg is $XDG_RUNTIME_DIR, mkdir the error of creating a directory.\<close>

(* internal/netx/uds.go:9-29 baseDir *)
definition baseDir :: "string \<Rightarrow> err + string \<Rightarrow> (string \<Rightarrow> err option) \<Rightarrow> err + string" where
  "baseDir xdg home mkdir =
     (if xdg \<noteq> '''' \<and> mkdir xdg = None then Inr xdg
      else
        (case home of
           Inl e \<Rightarrow> Inl (Wrapped ''failed to get home directory'' e)
         | Inr h \<Rightarrow>
             let tezzerDir = path_join h ''.tezzer'' in
             (case mkdir tezzerDir of
                Some e \<Rightarrow> Inl (Wrapped ''failed to create tezzer directory'' e)
              | None \<Rightarrow> Inr tezzerDir)))"

(* internal/netx/uds.go:31-39 GetDefaultSocketPath *)
definition GetDefaultSocketPath :: "string \<Rightarrow> err + string \<Rightarrow> (string \<Rightarrow> err option) \<Rightarrow> err + string" where
  "GetDefaultSocketPath xdg home mkdir =
     (case baseDir xdg home mkdir of Inl e \<Rightarrow> Inl e | Inr dir \<Rightarrow> Inr (path_join dir ''tezzer.sock''))"

(* internal/netx/uds.go:41-55 GetAgentSocketPath *)
definition GetAgentSocketPath ::
  "string \<Rightarrow> err + string \<Rightarrow> (string \<Rightarrow> err option) \<Rightarrow> string \<Rightarrow> err + string" where
  "GetAgentSocketPath xdg home mkdir sessionID =
     (case baseDir xdg home mkdir of
        Inl e \<Rightarrow> Inl e
      | Inr dir \<Rightarrow>
          let agentDir = path_join dir ''tezzer-agent'' in
          (case mkdir agentDir of
             Some e \<Rightarrow> Inl (Wrapped ''failed to create agent socket directory'' e)
           | None \<Rightarrow> Inr (path_join agentDir (sessionID @ ''.sock''))))"

section \<open>The binary to run\<close>

text \<open>absp is filepath.Abs, look exec.LookPath.\<close>

(* cmd/tezzerd/handover.go:80-104 resolveSelfExecutable *)
definition resolveSelfExecutable ::
  "(string \<Rightarrow> err + string) \<Rightarrow> (string \<Rightarrow> err + string) \<Rightarrow> string \<Rightarrow> string" where
  "resolveSelfExecutable absp look arg0 =
     (if CHR ''/'' \<in> set arg0 then (case absp arg0 of Inr p \<Rightarrow> p | Inl _ \<Rightarrow> arg0)
      else
        (case look arg0 of
           Inr p \<Rightarrow> (case absp p of Inr q \<Rightarrow> q | Inl _ \<Rightarrow> p)
         | Inl _ \<Rightarrow> ''/proc/self/exe''))"

section \<open>The environment\<close>

type_synonym environ = "(string \<times> string) list"

definition Getenv :: "string \<Rightarrow> environ \<Rightarrow> string" where
  "Getenv k env = (case map_of env k of None \<Rightarrow> '''' | Some v \<Rightarrow> v)"

definition Unsetenv :: "string \<Rightarrow> environ \<Rightarrow> environ" where
  "Unsetenv k env = filter (\<lambda>kv. fst kv \<noteq> k) env"

(* internal/session/handover.go:35-37 HandoverEnvVar *)
definition HandoverEnvVar :: string where
  "HandoverEnvVar = ''TEZZER_HANDOVER_FD''"

lemma Getenv_Unsetenv [simp]: "Getenv k (Unsetenv k env) = ''''"
proof -
  have "map_of (Unsetenv k env) k = None" by (auto simp: Unsetenv_def map_of_eq_None_iff)
  then show ?thesis by (simp add: Getenv_def)
qed

lemma Getenv_set: "k \<notin> fst ` set env \<Longrightarrow> Getenv k (env @ [(k, v)]) = v"
  by (simp add: Getenv_def map_add_def map_of_eq_None_iff [THEN iffD2])

lemma Unsetenv_none [simp]: "k \<notin> fst ` set (Unsetenv k env)"
  by (auto simp: Unsetenv_def)

lemma Unsetenv_set: "k \<notin> fst ` set env \<Longrightarrow> Unsetenv k (env @ [(k, v)]) = env"
  by (auto simp: Unsetenv_def filter_id_conv)

section \<open>Replacing the process\<close>

text \<open>What the process holds: its open descriptors, and whether the locks of the manager and of the
  sessions are held.\<close>

record process =
  pr_fds :: "int multiset"
  pr_locked :: bool

text \<open>create makes the state file, seek rewinds it, dup duplicates its descriptor without the
  close-on-exec flag and exec replaces the process, or fails.\<close>

record exec_sys =
  ex_handover :: handover_sys
  ex_create :: "err + int"
  ex_seek :: "err option"
  ex_dup :: "err + int"
  ex_exec :: "err option"

datatype exec_result =
    NotReplaced err
  | ReplacedBy string environ bytes

text \<open>WriteHandover takes the locks and duplicates descriptors; it, and abort after it, give both
  back.\<close>

(* internal/session/handover.go:130-148 Manager.WriteHandover *)
definition hold :: "int list \<Rightarrow> process \<Rightarrow> process" where
  "hold fds p = p\<lparr>pr_fds := pr_fds p + mset fds, pr_locked := True\<rparr>"

(* internal/session/handover.go:138-146 Manager.WriteHandover *)
definition release :: "int list \<Rightarrow> process \<Rightarrow> process" where
  "release fds p = p\<lparr>pr_fds := pr_fds p - mset fds, pr_locked := False\<rparr>"

definition open_fd :: "int \<Rightarrow> process \<Rightarrow> process" where
  "open_fd fd p = p\<lparr>pr_fds := add_mset fd (pr_fds p)\<rparr>"

definition close_fd :: "int \<Rightarrow> process \<Rightarrow> process" where
  "close_fd fd p = p\<lparr>pr_fds := pr_fds p - {#fd#}\<rparr>"

text \<open>On success the state file itself is closed by the exec and the duplicates stay open.\<close>

(* cmd/tezzerd/handover.go:34-78 performHandover *)
definition performHandover ::
  "exec_sys \<Rightarrow> string \<Rightarrow> environ \<Rightarrow> Manager \<Rightarrow> process \<Rightarrow> process \<times> exec_result" where
  "performHandover sys exe env m p =
     (case ex_create sys of
        Inl e \<Rightarrow> (p, NotReplaced (Wrapped ''create state file'' e))
      | Inr f \<Rightarrow>
          let p1 = open_fd f p in
          (case WriteHandover (ex_handover sys) m of
             HandoverFailed e fds \<Rightarrow>
               (close_fd f (release fds (hold fds p1)), NotReplaced (Wrapped ''serialize state'' e))
           | HandoverReady b fds ds \<Rightarrow>
               let p2 = hold fds p1 in
               (case ex_seek sys of
                  Some e \<Rightarrow> (close_fd f (release fds p2), NotReplaced (Wrapped ''seek state file'' e))
                | None \<Rightarrow>
                    (case ex_dup sys of
                       Inl e \<Rightarrow> (close_fd f (release fds p2), NotReplaced (Wrapped ''dup state fd'' e))
                     | Inr stateFd \<Rightarrow>
                         let p3 = open_fd stateFd p2 in
                         (case ex_exec sys of
                            None \<Rightarrow>
                              (close_fd f p3,
                               ReplacedBy exe (env @ [(HandoverEnvVar, show_int stateFd)]) b)
                          | Some e \<Rightarrow>
                              (release fds (close_fd f (close_fd stateFd p3)), NotReplaced (Wrapped (''exec '' @ exe) e)))))))"

text \<open>The start of a daemon: the state of a predecessor is read from the descriptor the environment
  names, whose content file gives.\<close>

(* cmd/tezzerd/main.go:79-96 main *)
definition inherit ::
  "restore_sys \<Rightarrow> (int \<Rightarrow> bytes) \<Rightarrow> environ \<Rightarrow> Manager \<Rightarrow> environ \<times> Manager \<times> (nat \<times> err option) option" where
  "inherit sys file env m =
     (let fdStr = Getenv HandoverEnvVar env in
      if fdStr = '''' then (env, m, None)
      else
        let env1 = Unsetenv HandoverEnvVar env in
        (case Atoi fdStr of
           None \<Rightarrow> (env1, m, None)
         | Some fd \<Rightarrow>
             (case RestoreHandover sys (file fd) m of (m', n, e) \<Rightarrow> (env1, m', Some (n, e)))))"

section \<open>A restart that fails, and one that succeeds\<close>

lemma process_cong: "pr_fds p = pr_fds q \<Longrightarrow> pr_locked p = pr_locked q \<Longrightarrow> p = (q :: process)"
  by simp

text \<open>C34. A restart that cannot be completed, whatever call fails, leaves the daemon as it was: every
  descriptor opened on the way is closed again, no other is, and no lock stays held.\<close>

theorem failed_restart_changes_nothing:
  assumes "performHandover sys exe env m p = (p', NotReplaced e)" "\<not> pr_locked p"
  shows "p' = p"
proof (cases "WriteHandover (ex_handover sys) m")
  case (HandoverFailed e' fds)
  show ?thesis
    using assms HandoverFailed
    by (intro process_cong)
      (auto simp: performHandover_def open_fd_def close_fd_def hold_def release_def split: sum.splits)
next
  case (HandoverReady b fds ds)
  show ?thesis
    using assms HandoverReady
    by (intro process_cong)
      (auto simp: performHandover_def Let_def open_fd_def close_fd_def hold_def release_def
        split: sum.splits option.splits)
qed

text \<open>A daemon without sessions whose restart fails only in the call that replaces the process, and
  one whose restart succeeds.\<close>

definition empty_handover :: handover_sys where
  "empty_handover =
     \<lparr>hy_dupPty = (\<lambda>k. Inl EOF), hy_dupUDP = (\<lambda>k. Inl EOF), hy_dupShared = Inl EOF, hy_pid = (\<lambda>k. 0),
      hy_args = (\<lambda>k. []), hy_enc = (\<lambda>st. Inr [1, 2])\<rparr>"

definition restarting :: "err option \<Rightarrow> exec_sys" where
  "restarting e =
     \<lparr>ex_handover = empty_handover, ex_create = Inr 5, ex_seek = None, ex_dup = Inr 6, ex_exec = e\<rparr>"

lemma write_empty: "WriteHandover empty_handover (NewManager None 0) = HandoverReady [1, 2] [] []"
  by (simp add: WriteHandover_def empty_handover_def NewManager_def disconnected_def)

theorem failed_restart_changes_nothing_witness:
  "fst (performHandover (restarting (Some EOF)) ''/usr/bin/tezzerd'' [] (NewManager None 0)
     \<lparr>pr_fds = {#0, 1, 2#}, pr_locked = False\<rparr>) = \<lparr>pr_fds = {#0, 1, 2#}, pr_locked = False\<rparr>"
proof -
  let ?p = "\<lparr>pr_fds = {#0, 1, 2#}, pr_locked = False\<rparr>"
  obtain p' where "performHandover (restarting (Some EOF)) ''/usr/bin/tezzerd'' [] (NewManager None 0) ?p =
      (p', NotReplaced (Wrapped (''exec /usr/bin/tezzerd'') EOF))"
    by (simp add: performHandover_def restarting_def write_empty)
  then show ?thesis using failed_restart_changes_nothing by (metis fst_conv process.select_convs(2))
qed

text \<open>strconv.Atoi of a descriptor's number.\<close>

lemma show_nat_head: "hd (show_nat n) \<notin> {CHR ''-'', CHR ''+''}"
proof -
  have "digit_char (hd (show_nat n))"
    using show_nat_digits [of n] show_nat_nonempty [of n] by (simp add: list_all_iff)
  then show ?thesis by (auto simp: digit_char_def)
qed

lemma Atoi_show_int: "0 \<le> n \<Longrightarrow> n < 2 ^ 63 \<Longrightarrow> Atoi (show_int n) = Some n"
  using show_nat_digits [of "nat n"] show_nat_head [of "nat n"]
  by (simp add: Atoi_def Let_def show_int_def)

text \<open>C35. A restart that completes starts the same binary with the state of the manager: the
  successor finds the state file through the environment and restores from exactly what was
  written, the descriptors it was given are open, and the environment it goes on with is the one of
  its predecessor, so that restarts can follow each other.\<close>

theorem restart_carries_state:
  assumes "performHandover sys exe (Unsetenv HandoverEnvVar env0) m p = (p', ReplacedBy exe' env b)"
    "ex_dup sys = Inr stateFd" "0 \<le> stateFd" "stateFd < 2 ^ 63" "file stateFd = b"
  shows "\<exists>fds ds. WriteHandover (ex_handover sys) m = HandoverReady b fds ds \<and> exe' = exe \<and>
     pr_fds p' = pr_fds p + mset fds + {#stateFd#} \<and>
     (case RestoreHandover r b m0 of (m', n, e) \<Rightarrow>
        inherit r file env m0 = (Unsetenv HandoverEnvVar env0, m', Some (n, e)))"
proof -
  obtain fds ds where w: "WriteHandover (ex_handover sys) m = HandoverReady b fds ds"
    and e: "env = Unsetenv HandoverEnvVar env0 @ [(HandoverEnvVar, show_int stateFd)]" and x: "exe' = exe"
    and p: "pr_fds p' = pr_fds p + mset fds + {#stateFd#}"
    using assms(1,2)
    by (auto simp: performHandover_def Let_def open_fd_def close_fd_def hold_def
        split: sum.splits option.splits handover_result.splits)
  have "Getenv HandoverEnvVar env = show_int stateFd" unfolding e by (simp add: Getenv_set)
  moreover have "show_int stateFd \<noteq> ''''" using assms(3) by (simp add: show_int_def)
  moreover have "Unsetenv HandoverEnvVar env = Unsetenv HandoverEnvVar env0" unfolding e by (simp add: Unsetenv_set)
  ultimately have "inherit r file env m0 =
      (case RestoreHandover r b m0 of (m', n, e) \<Rightarrow> (Unsetenv HandoverEnvVar env0, m', Some (n, e)))"
    using assms(3-5) by (simp add: inherit_def Atoi_show_int split: prod.split)
  then show ?thesis using w x p by (auto split: prod.splits)
qed

definition failing_restore :: restore_sys where
  "failing_restore =
     \<lparr>ry_dec = (\<lambda>b. Inl EOF), ry_find = (\<lambda>p. None), ry_agent = (\<lambda>k. Inl EOF), ry_conn = (\<lambda>fd. None),
      ry_server = (\<lambda>k. None), ry_start = (\<lambda>fd. None)\<rparr>"

theorem restart_carries_state_witness:
  "\<exists>m' n e. inherit failing_restore (\<lambda>fd. if fd = 6 then [1, 2] else [])
     [(''HOME'', ''/h''), (HandoverEnvVar, show_int 6)] (NewManager None 0) =
     ([(''HOME'', ''/h'')], m', Some (n, e))"
proof -
  let ?p = "\<lparr>pr_fds = {#}, pr_locked = False\<rparr>"
  have u: "Unsetenv HandoverEnvVar [(''HOME'', ''/h'')] = [(''HOME'', ''/h'')]"
    by (simp add: Unsetenv_def HandoverEnvVar_def)
  obtain p' where "performHandover (restarting None) ''/usr/bin/tezzerd'' (Unsetenv HandoverEnvVar [(''HOME'', ''/h'')])
      (NewManager None 0) ?p =
      (p', ReplacedBy ''/usr/bin/tezzerd'' [(''HOME'', ''/h''), (HandoverEnvVar, show_int 6)] [1, 2])"
    by (simp add: performHandover_def restarting_def write_empty u)
  from restart_carries_state [OF this, of 6 "\<lambda>fd. if fd = 6 then [1, 2] else []" failing_restore "NewManager None 0"]
  show ?thesis by (auto simp: restarting_def u split: prod.splits)
qed

end
