(* ===== verification/Client_Files.thy ===== *)
theory Client_Files
  imports Client_Connect Restart Complex_Main
begin

text \<open>
  What the client writes about itself (cmd/tezzer/clientlog.go, stats.go, sessions_json.go, the status
  line in client.go): log files with a link per session, the statistics of Ctrl-^ s, the JSON of -list
  and -info, and the line of Ctrl-^ i. Files are an association list of full paths; the only
  directories are those of the logs and the statistics, without subdirectories that hold files of
  interest. encoding/json and time formats are parameters; floating-point figures, which are carried
  and printed only, are real numbers.
\<close>

section \<open>Log files\<close>

text \<open>A file has its last modification, which for a link is the moment it was made.\<close>

datatype node = Dir | LogFile int "string list" | Link int string

type_synonym files = "(string \<times> node) list"

(* cmd/tezzer/clientlog.go:12-19 clientLogDir *)
definition clientLogDir :: "err + string \<Rightarrow> err + string" where
  "clientLogDir home =
     (case home of
        Inl e \<Rightarrow> Inl (Wrapped ''failed to get home dir'' e)
      | Inr h \<Rightarrow> Inr (path_join (path_join h ''.tezzer'') ''logs''))"

fun older :: "int \<Rightarrow> node \<Rightarrow> bool" where
  "older cutoff Dir = False"
| "older cutoff (LogFile m _) = (m < cutoff)"
| "older cutoff (Link m _) = (m < cutoff)"

definition inside :: "string \<Rightarrow> string \<Rightarrow> bool" where
  "inside dir path \<longleftrightarrow> HasPrefix path (dir @ ''/'')"

(* cmd/tezzer/clientlog.go:68-87 cleanOldClientLogs *)
definition cleanOldClientLogs :: "string \<Rightarrow> int \<Rightarrow> int \<Rightarrow> files \<Rightarrow> files" where
  "cleanOldClientLogs logDir maxAge now fs =
     filter (\<lambda>(path, n). \<not> (inside logDir path \<and> older (now - maxAge) n)) fs"

definition week :: int where
  "week = 7 * 24 * 3600 * 1000000000"

text \<open>mkdir and opening are the errors of the calls; stamp is the time as text and pid the process.\<close>

(* cmd/tezzer/clientlog.go:21-43 openClientLogFile *)
definition openClientLogFile ::
  "err + string \<Rightarrow> err option \<Rightarrow> err option \<Rightarrow> int \<Rightarrow> string \<Rightarrow> int \<Rightarrow> files \<Rightarrow> files \<times> (err + string)" where
  "openClientLogFile home mkdir opening now stamp pid fs =
     (case clientLogDir home of
        Inl e \<Rightarrow> (fs, Inl e)
      | Inr logDir \<Rightarrow>
          (case mkdir of
             Some e \<Rightarrow> (fs, Inl (Wrapped ''failed to create log dir'' e))
           | None \<Rightarrow>
               let fs1 = cleanOldClientLogs logDir week now fs;
                   logPath = path_join logDir (''client-'' @ stamp @ ''-'' @ show_int pid @ ''.log'') in
               (case opening of
                  Some e \<Rightarrow> (fs1, Inl (Wrapped (''failed to open log file '' @ logPath) e))
                | None \<Rightarrow>
                    (if map_of fs1 logPath = None then AList.update logPath (LogFile now []) fs1 else fs1, Inr logPath))))"

(* cmd/tezzer/clientlog.go:59-66 sessionLogPath *)
definition sessionLogPath :: "err + string \<Rightarrow> string \<Rightarrow> err + string" where
  "sessionLogPath home sid =
     (case clientLogDir home of Inl e \<Rightarrow> Inl e | Inr d \<Rightarrow> Inr (path_join d (''session-'' @ sid @ ''.log'')))"

(* cmd/tezzer/clientlog.go:45-57 createSessionLogSymlink *)
definition createSessionLogSymlink :: "err + string \<Rightarrow> int \<Rightarrow> string \<Rightarrow> string \<Rightarrow> files \<Rightarrow> files" where
  "createSessionLogSymlink home now sid logFile fs =
     (case sessionLogPath home sid of Inl e \<Rightarrow> fs | Inr link \<Rightarrow> AList.update link (Link now logFile) fs)"

text \<open>A line written to an open log file, whose name may have gone.\<close>

(* cmd/tezzer/clientlog.go:109-128 fileLogger.Print *)
definition log_line :: "int \<Rightarrow> string \<Rightarrow> string \<Rightarrow> files \<Rightarrow> files" where
  "log_line now path line fs =
     (case map_of fs path of Some (LogFile _ ls) \<Rightarrow> AList.update path (LogFile now (ls @ [line])) fs | _ \<Rightarrow> fs)"

(* cmd/tezzer/main.go:530-538 run *)
definition start_logging ::
  "err + string \<Rightarrow> err option \<Rightarrow> err option \<Rightarrow> int \<Rightarrow> string \<Rightarrow> int \<Rightarrow> string \<Rightarrow> string list \<Rightarrow> files \<Rightarrow>
   files \<times> (err + string)" where
  "start_logging home mkdir opening now stamp pid sid hello fs =
     (case openClientLogFile home mkdir opening now stamp pid fs of
        (fs1, Inl e) \<Rightarrow> (fs1, Inl e)
      | (fs1, Inr path) \<Rightarrow> (createSessionLogSymlink home now sid path (fold (log_line now path) hello fs1), Inr path))"

(* cmd/tezzer/clientlog.go:89-107 showSessionLogs *)
definition showSessionLogs :: "err + string \<Rightarrow> string \<Rightarrow> files \<Rightarrow> err + string list" where
  "showSessionLogs home sid fs =
     (case sessionLogPath home sid of
        Inl e \<Rightarrow> Inl e
      | Inr link \<Rightarrow>
          let missing = Inl (ErrorString (''log not found for session '' @ sid @ '' (connect once to create)'')) in
          (case map_of fs link of
             Some (LogFile _ ls) \<Rightarrow> Inr ((''# '' @ link) # ls)
           | Some (Link _ target) \<Rightarrow>
               (case map_of fs target of Some (LogFile _ ls) \<Rightarrow> Inr ((''# '' @ target) # ls) | _ \<Rightarrow> missing)
           | _ \<Rightarrow> missing))"

section \<open>Statistics\<close>

record clientInfoJSON =
  cj_BuildID :: string
  cj_BuiltAt :: string
  cj_TerminalCols :: int
  cj_TerminalRows :: int
  cj_DebugOutput :: bool

record transportStatsJSON =
  tj_State :: string
  tj_RTTMs :: real
  tj_LossRate :: real
  tj_BytesSent :: nat
  tj_BytesReceived :: nat
  tj_RecoveryCount :: nat
  tj_LastRecoveryMs :: real

(* cmd/tezzer/stats.go:12-48 clientStatsJSON *)
record clientStatsJSON =
  sj_Timestamp :: string
  sj_SessionID :: string
  sj_Client :: clientInfoJSON
  sj_Server :: "(string \<times> string) option"
  sj_Transport :: "transportStatsJSON option"
  sj_Notifications :: "(string \<times> string) list"
  sj_LogFile :: string

(* cmd/tezzer/stats.go:50-56 statsFilePath *)
definition statsFilePath :: "err + string \<Rightarrow> string \<Rightarrow> err + string" where
  "statsFilePath home sid =
     (case home of
        Inl e \<Rightarrow> Inl e
      | Inr h \<Rightarrow> Inr (path_join (path_join (path_join h ''.tezzer'') ''stats'') (sid @ ''.stats.json'')))"

text \<open>What quic-go counts on the connection, if there is one.\<close>

record conn_stats =
  ks_SmoothedRTT :: int
  ks_BytesSent :: nat
  ks_BytesReceived :: nat
  ks_PacketsSent :: nat
  ks_PacketsLost :: nat

(* internal/qtransport/client.go:880-898 quicClient.Stats *)
definition transport_stats :: "conn_stats \<Rightarrow> quicClient \<Rightarrow> transportStatsJSON" where
  "transport_stats q t =
     (let base = \<lparr>tj_State = ConnectionState_String (qc_state t), tj_RTTMs = 0, tj_LossRate = 0, tj_BytesSent = 0,
        tj_BytesReceived = 0, tj_RecoveryCount = qc_recoveryCount t, tj_LastRecoveryMs = of_nat (qc_lastRecoveryMs t)\<rparr> in
      if qc_conn t = None then base
      else base\<lparr>tj_RTTMs := of_int (ks_SmoothedRTT q div 1000) / 1000, tj_BytesSent := ks_BytesSent q,
             tj_BytesReceived := ks_BytesReceived q,
             tj_LossRate := (if ks_PacketsSent q > 0 then of_nat (ks_PacketsLost q) / of_nat (ks_PacketsSent q) else 0)\<rparr>)"

text \<open>arrived is the answer to the request for the server's description, if it comes within a second;
  fmt is the time format of RFC 3339, logName the name of the log file or empty.\<close>

record stats_env =
  se_now :: int
  se_fmt :: "int \<Rightarrow> string"
  se_home :: "err + string"
  se_build :: "string \<times> string"
  se_arrived :: "(string \<times> string \<times> bytes) option"
  se_conn :: conn_stats
  se_logName :: string
  se_mkdir :: "err option"
  se_enc :: "clientStatsJSON \<Rightarrow> err + string"
  se_write :: "err option"

(* cmd/tezzer/stats.go:58-73 Client.writeStatsFile *)
definition await_meta :: "connect_sys \<Rightarrow> stats_env \<Rightarrow> cclient \<Rightarrow> cclient" where
  "await_meta sys env c =
     (if cc_meta c \<noteq> None then c
      else
        (case requestServerMeta sys c of
           (c1, Some e) \<Rightarrow> c1
         | (c1, None) \<Rightarrow> c1\<lparr>cc_meta := se_arrived env\<rparr>))"

(* cmd/tezzer/stats.go:75-121 Client.writeStatsFile *)
definition client_stats :: "stats_env \<Rightarrow> cclient \<Rightarrow> clientStatsJSON" where
  "client_stats env c =
     \<lparr>sj_Timestamp = se_fmt env (se_now env), sj_SessionID = k_sessionID (cc_k c),
      sj_Client = \<lparr>cj_BuildID = fst (se_build env), cj_BuiltAt = snd (se_build env), cj_TerminalCols = k_width (cc_k c),
        cj_TerminalRows = k_height (cc_k c), cj_DebugOutput = k_debug (cc_k c)\<rparr>,
      sj_Server = map_option (\<lambda>(b, t, _). (b, t)) (cc_meta c),
      sj_Transport = map_option (transport_stats (se_conn env)) (cc_ct c),
      sj_Notifications = map (\<lambda>(t, m). (se_fmt env t, m)) (k_msgLog (cc_k c)), sj_LogFile = se_logName env\<rparr>"

(* cmd/tezzer/stats.go:58-144 Client.writeStatsFile *)
definition writeStatsFile :: "connect_sys \<Rightarrow> stats_env \<Rightarrow> cclient \<Rightarrow> files \<Rightarrow> cclient \<times> files" where
  "writeStatsFile sys env c fs =
     (let c1 = await_meta sys env c; s = client_stats env c1;
          report = (\<lambda>m. on_k (showRequestedStatus (se_now env) (''Stats: '' @ m)) c1) in
      case statsFilePath (se_home env) (k_sessionID (cc_k c)) of
        Inl e \<Rightarrow> (report (err_Error e), fs)
      | Inr path \<Rightarrow>
          (case se_mkdir env of
             Some e \<Rightarrow> (report (''mkdir: '' @ err_Error e), fs)
           | None \<Rightarrow>
               (case se_enc env s of
                  Inl e \<Rightarrow> (report (''marshal: '' @ err_Error e), fs)
                | Inr data \<Rightarrow>
                    (case se_write env of
                       Some e \<Rightarrow> (report (''write: '' @ err_Error e), fs)
                     | None \<Rightarrow> (report path, AList.update path (LogFile (se_now env) [data]) fs)))))"

text \<open>show_f prints a number with the given digits behind the point.\<close>

(* cmd/tezzer/stats.go:159-194 showSessionStats *)
definition stats_lines :: "(nat \<Rightarrow> real \<Rightarrow> string) \<Rightarrow> clientStatsJSON \<Rightarrow> string list" where
  "stats_lines show_f s =
     [''Session:  '' @ sj_SessionID s, ''Updated:  '' @ sj_Timestamp s, '''', ''--- Client ---'',
      ''Build:    '' @ cj_BuildID (sj_Client s) @ '' ('' @ cj_BuiltAt (sj_Client s) @ '')'',
      ''Terminal: '' @ show_int (cj_TerminalCols (sj_Client s)) @ ''x'' @ show_int (cj_TerminalRows (sj_Client s)),
      ''Debug:    '' @ (if cj_DebugOutput (sj_Client s) then ''true'' else ''false'')]
     @ (case sj_Server s of None \<Rightarrow> [] | Some (b, t) \<Rightarrow> ['''', ''--- Server ---'', ''Build:    '' @ b @ '' ('' @ t @ '')''])
     @ (case sj_Transport s of
          None \<Rightarrow> []
        | Some t \<Rightarrow>
            ['''', ''--- Transport ---'', ''State:    '' @ tj_State t, ''RTT:      '' @ show_f 2 (tj_RTTMs t) @ '' ms'',
             ''Loss:     '' @ show_f 2 (tj_LossRate t * 100) @ '' %'',
             ''Sent:     '' @ show_nat (tj_BytesSent t) @ '' bytes'',
             ''Received: '' @ show_nat (tj_BytesReceived t) @ '' bytes'',
             ''Recoveries: '' @ show_nat (tj_RecoveryCount t) @ '' (last '' @ show_f 0 (tj_LastRecoveryMs t) @ '' ms)''])
     @ (if sj_LogFile s \<noteq> '''' then ['''', ''Log:      '' @ sj_LogFile s] else [])
     @ (if length (sj_Notifications s) > 0
        then ['''', ''--- Recent Notifications ---''] @ map (\<lambda>(t, m). t @ ''  '' @ m) (rev (sj_Notifications s)) else [])"

(* cmd/tezzer/stats.go:146-194 showSessionStats *)
definition showSessionStats ::
  "(string \<Rightarrow> err + clientStatsJSON) \<Rightarrow> (nat \<Rightarrow> real \<Rightarrow> string) \<Rightarrow> err + string \<Rightarrow> string \<Rightarrow> bool \<Rightarrow> files \<Rightarrow> err + string list" where
  "showSessionStats dec show_f home sid jsonOut fs =
     (case statsFilePath home sid of
        Inl e \<Rightarrow> Inl e
      | Inr path \<Rightarrow>
          (case map_of fs path of
             Some (LogFile _ [data]) \<Rightarrow>
               if jsonOut then Inr [data]
               else (case dec data of Inl e \<Rightarrow> Inl (Wrapped ''parse error'' e) | Inr s \<Rightarrow> Inr (stats_lines show_f s))
           | _ \<Rightarrow> Inl (ErrorString (''stats not found for '' @ sid @ '' (use Ctrl-^ s to generate)''))))"

section \<open>How long a log can be shown\<close>

lemma path_join_inj: "path_join d a = path_join d b \<Longrightarrow> a = b"
  by (auto simp: path_join_def split: if_splits)

definition link_path :: "string \<Rightarrow> string \<Rightarrow> string" where
  "link_path d sid = path_join d (''session-'' @ sid @ ''.log'')"

definition log_path :: "string \<Rightarrow> string \<Rightarrow> int \<Rightarrow> string" where
  "log_path d stamp pid = path_join d (''client-'' @ stamp @ ''-'' @ show_int pid @ ''.log'')"

lemma path_join_head: "path_join d (a # as) = path_join d (b # bs) \<Longrightarrow> a = b"
  using path_join_inj by fastforce

lemma link_path_inj: "link_path d a = link_path d b \<longleftrightarrow> a = b"
  unfolding link_path_def by (auto dest: path_join_inj)

lemma log_not_link: "log_path d stamp pid \<noteq> link_path d sid"
  unfolding link_path_def log_path_def append_Cons by (auto dest!: path_join_head)

lemma path_join_last: "b \<noteq> '''' \<Longrightarrow> path_join a b \<noteq> '''' \<and> last (path_join a b) = last b"
  by (simp add: path_join_def)

lemma logDir_inside:
  assumes "clientLogDir home = Inr d" shows "inside d (path_join d a)"
proof -
  obtain x where "d = path_join x ''logs''" using assms by (auto simp: clientLogDir_def split: sum.splits)
  with path_join_last [of "''logs''" x] have "d \<noteq> ''''" "last d \<noteq> CHR ''/''" by auto
  then show ?thesis by (simp add: path_join_def inside_def HasPrefix_def)
qed

lemma map_of_kept:
  "distinct (map fst xs) \<Longrightarrow> map_of (filter (\<lambda>(p, n). P p n) xs) k =
     (case map_of xs k of None \<Rightarrow> None | Some n \<Rightarrow> if P k n then Some n else None)"
  by (induction xs) (auto split: option.split simp: map_of_eq_None_iff)

lemma distinct_kept: "distinct (map fst xs) \<Longrightarrow> distinct (map fst (filter P xs))"
  by (metis distinct_map_filter)

lemma clean_lookup:
  "distinct (map fst fs) \<Longrightarrow> map_of (cleanOldClientLogs d age now fs) p =
     (case map_of fs p of None \<Rightarrow> None | Some n \<Rightarrow> if inside d p \<and> older (now - age) n then None else Some n)"
  unfolding cleanOldClientLogs_def by (subst map_of_kept) (auto split: option.split)

lemma log_line_lookup:
  "map_of (log_line t path l fs) p =
     (case map_of fs path of
        Some (LogFile m ls) \<Rightarrow> if p = path then Some (LogFile t (ls @ [l])) else map_of fs p
      | _ \<Rightarrow> map_of fs p)"
  by (auto simp: log_line_def update_conv split: option.split node.split)

lemma log_line_distinct: "distinct (map fst fs) \<Longrightarrow> distinct (map fst (log_line t path l fs))"
  by (auto simp: log_line_def AList.distinct_update split: option.split node.split)

lemma log_lines_lookup:
  assumes "map_of fs path = Some (LogFile m ls)"
  shows "map_of (fold (\<lambda>(t, l). log_line t path l) ws fs) path =
      Some (LogFile (if ws = [] then m else fst (last ws)) (ls @ map snd ws))"
    and "p \<noteq> path \<Longrightarrow> map_of (fold (\<lambda>(t, l). log_line t path l) ws fs) p = map_of fs p"
    and "distinct (map fst fs) \<Longrightarrow> distinct (map fst (fold (\<lambda>(t, l). log_line t path l) ws fs))"
proof -
  have "map_of (fold (\<lambda>(t, l). log_line t path l) ws fs) path =
        Some (LogFile (if ws = [] then m else fst (last ws)) (ls @ map snd ws)) \<and>
      (p \<noteq> path \<longrightarrow> map_of (fold (\<lambda>(t, l). log_line t path l) ws fs) p = map_of fs p) \<and>
      (distinct (map fst fs) \<longrightarrow> distinct (map fst (fold (\<lambda>(t, l). log_line t path l) ws fs)))"
    using assms
  proof (induction ws arbitrary: fs m ls)
    case (Cons w ws)
    obtain t l where w: "w = (t, l)" by force
    have "map_of (log_line t path l fs) path = Some (LogFile t (ls @ [l]))"
      using Cons.prems by (simp add: log_line_lookup)
    from Cons.IH [OF this] Cons.prems show ?case
      using log_line_distinct [of fs t path l] by (auto simp: w log_line_lookup)
  qed auto
  then show "map_of (fold (\<lambda>(t, l). log_line t path l) ws fs) path =
      Some (LogFile (if ws = [] then m else fst (last ws)) (ls @ map snd ws))"
    "p \<noteq> path \<Longrightarrow> map_of (fold (\<lambda>(t, l). log_line t path l) ws fs) p = map_of fs p"
    "distinct (map fst fs) \<Longrightarrow> distinct (map fst (fold (\<lambda>(t, l). log_line t path l) ws fs))" by auto
qed

lemma hello_fold: "fold (log_line now path) hello fs = fold (\<lambda>(t, l). log_line t path l) (map (Pair now) hello) fs"
  by (induction hello arbitrary: fs) auto

text \<open>The files after the start of a client with a log file of its own.\<close>

lemma start_logging_lookup:
  assumes "start_logging (Inr h) None None now stamp pid sid hello fs = (fs', Inr path)"
    "clientLogDir (Inr h) = Inr d" "distinct (map fst fs)" "map_of fs path = None"
  shows "path = log_path d stamp pid"
    "map_of fs' path = Some (LogFile now hello)"
    "map_of fs' (link_path d sid) = Some (Link now path)"
    "p \<noteq> path \<Longrightarrow> p \<noteq> link_path d sid \<Longrightarrow> map_of fs' p = map_of (cleanOldClientLogs d week now fs) p"
    "distinct (map fst fs')"
proof -
  define fs1 where "fs1 = AList.update path (LogFile now []) (cleanOldClientLogs d week now fs)"
  define fs2 where "fs2 = fold (\<lambda>(t, l). log_line t path l) (map (Pair now) hello) fs1"
  have n: "map_of (cleanOldClientLogs d week now fs) path = None" using clean_lookup [OF assms(3)] assms(4) by simp
  have p: "path = log_path d stamp pid"
    using assms(1,2)
    by (auto simp: start_logging_def openClientLogFile_def Let_def log_path_def split: if_splits)
  have fs': "fs' = AList.update (link_path d sid) (Link now path) fs2"
    using assms(1,2) n unfolding fs2_def hello_fold [symmetric]
    by (auto simp: start_logging_def openClientLogFile_def createSessionLogSymlink_def sessionLogPath_def Let_def
        fs1_def link_path_def split: if_splits)
  have d1: "distinct (map fst fs1)"
    unfolding fs1_def cleanOldClientLogs_def by (intro AList.distinct_update distinct_kept assms(3))
  have f1: "map_of fs1 path = Some (LogFile now [])" by (simp add: fs1_def update_conv)
  have lp: "link_path d sid \<noteq> path" unfolding p by (rule log_not_link [symmetric])
  note ll = log_lines_lookup [OF f1, where ws = "map (Pair now) hello", folded fs2_def]
  have last: "(if map (Pair now) hello = [] then now else fst (last (map (Pair now) hello))) = now"
    by (simp add: last_map)
  show "path = log_path d stamp pid" by (rule p)
  show "map_of fs' path = Some (LogFile now hello)"
    using ll(1) lp last by (simp add: fs' update_conv comp_def)
  show "map_of fs' (link_path d sid) = Some (Link now path)" by (simp add: fs' update_conv)
  show "map_of fs' p = map_of (cleanOldClientLogs d week now fs) p" if "p \<noteq> path" "p \<noteq> link_path d sid"
    using that ll(2) by (simp add: fs' update_conv fs1_def)
  show "distinct (map fst fs')" using ll(3) d1 by (simp add: fs' AList.distinct_update)
qed

text \<open>The log of a client that stays attached and goes on logging can be shown for a week only: the link
  of its session keeps the time of its creation, so that any client started later than that removes it,
  although the log itself is kept.\<close>

theorem log_shown_for_a_week:
  assumes "start_logging (Inr h) None None t0 stamp pid sid hello fs0 = (fs1, Inr path)"
    "clientLogDir (Inr h) = Inr d" "distinct (map fst fs0)" "map_of fs0 path = None"
    "ws \<noteq> []" "fst (last ws) \<ge> t1 - week" "fs2 = fold (\<lambda>(t, l). log_line t path l) ws fs1"
    "start_logging (Inr h) None None t1 stamp2 pid2 sid2 hello2 fs2 = (fs3, Inr path2)"
    "map_of fs2 path2 = None" "sid2 \<noteq> sid"
  shows "map_of fs3 path = Some (LogFile (fst (last ws)) (hello @ map snd ws)) \<and>
    showSessionLogs (Inr h) sid fs3 =
      (if t1 - week \<le> t0 then Inr ((''# '' @ path) # hello @ map snd ws)
       else Inl (ErrorString (''log not found for session '' @ sid @ '' (connect once to create)'')))"
proof -
  let ?link = "link_path d sid"
  note s1 = start_logging_lookup [OF assms(1-4)]
  note w = log_lines_lookup [OF s1(2), where ws = ws, folded assms(7)]
  have d2: "distinct (map fst fs2)" by (rule w(3) [OF s1(5)])
  note s2 = start_logging_lookup [OF assms(8,2) d2 assms(9)]
  have "?link \<noteq> link_path d sid2" "path \<noteq> link_path d sid2" "?link \<noteq> path2" "path \<noteq> ?link"
    using assms(10) log_not_link by (auto simp: link_path_inj s1(1) s2(1) eq_commute)
  moreover have "path \<noteq> path2" using w(1) assms(9) by auto
  moreover have "map_of fs2 ?link = Some (Link t0 path)" using w(2) [of ?link] s1(3) calculation(4) by simp
  ultimately have l: "map_of fs3 ?link = (if t0 < t1 - week then None else Some (Link t0 path))"
    and f: "map_of fs3 path = Some (LogFile (fst (last ws)) (hello @ map snd ws))"
    using s2(4) clean_lookup [OF d2] w(1) assms(5,6) logDir_inside [OF assms(2)] by (auto simp: link_path_def)
  then show ?thesis using assms(2) by (auto simp: showSessionLogs_def sessionLogPath_def Let_def link_path_def)
qed

lemma start_logging_ok:
  assumes "clientLogDir (Inr h) = Inr d"
  shows "snd (start_logging (Inr h) None None now stamp pid sid hello fs) = Inr (log_path d stamp pid)"
  using assms by (simp add: start_logging_def openClientLogFile_def Let_def log_path_def)

text \<open>A client that has been attached for two weeks when another one starts.\<close>

definition two_starts :: "files \<times> files \<times> string" where
  "two_starts =
     (let (fs1, r) = start_logging (Inr ''/h'') None None 0 ''t'' 1 ''a'' [''started''] [];
          path = (case r of Inl _ \<Rightarrow> '''' | Inr p \<Rightarrow> p);
          fs2 = log_line (2 * week) path ''still here'' fs1 in
      (fs2, fst (start_logging (Inr ''/h'') None None (2 * week) ''t'' 2 ''b'' [''started''] fs2), path))"

theorem log_shown_for_a_week_witness:
  "case two_starts of (fs2, fs3, path) \<Rightarrow>
     map_of fs3 path = Some (LogFile (2 * week) [''started'', ''still here'']) \<and>
     (\<exists>e. showSessionLogs (Inr ''/h'') ''a'' fs3 = Inl e)"
proof -
  obtain d where d: "clientLogDir (Inr ''/h'') = Inr d" by (simp add: clientLogDir_def)
  obtain fs1 where a: "start_logging (Inr ''/h'') None None 0 ''t'' 1 ''a'' [''started''] [] = (fs1, Inr (log_path d ''t'' 1))"
    using start_logging_ok [OF d] by (metis prod.collapse)
  let ?p = "log_path d ''t'' 1"
  let ?fs2 = "log_line (2 * week) ?p ''still here'' fs1"
  obtain fs3 where b: "start_logging (Inr ''/h'') None None (2 * week) ''t'' 2 ''b'' [''started''] ?fs2 =
      (fs3, Inr (log_path d ''t'' 2))"
    using start_logging_ok [OF d] by (metis prod.collapse)
  note s = start_logging_lookup [OF a d, simplified]
  have "log_path d ''t'' 2 \<noteq> ?p"
    unfolding log_path_def by (auto dest!: path_join_inj simp: show_int_def show_nat.simps)
  then have n: "map_of ?fs2 (log_path d ''t'' 2) = None"
    using s(2) s(4) [of "log_path d ''t'' 2"] log_not_link by (simp add: log_line_lookup cleanOldClientLogs_def)
  have f: "?fs2 = fold (\<lambda>(t, l). log_line t ?p l) [(2 * week, ''still here'')] fs1" by simp
  have k: "map_of [] ?p = None" "distinct (map fst [])" by simp_all
  have w: "[(2 * week, ''still here'')] \<noteq> []" "fst (last [(2 * week, ''still here'')]) \<ge> 2 * week - week" "''b'' \<noteq> ''a''"
    "\<not> 2 * week - week \<le> 0"
    by (simp_all add: week_def)
  have t: "two_starts = (?fs2, fs3, ?p)" using a b by (simp add: two_starts_def Let_def)
  show ?thesis
    using log_shown_for_a_week [OF a d k(2,1) w(1,2) f b n w(3)] w(4) unfolding t prod.case by auto
qed

section \<open>Statistics written and shown\<close>

lemma await_same: "k_sessionID (cc_k (await_meta sys env c)) = k_sessionID (cc_k c)"
  "k_msgLog (cc_k (await_meta sys env c)) = k_msgLog (cc_k c)"
  by (auto simp: await_meta_def requestServerMeta_def write_uds_def split: option.split)

lemma conditional_tail:
  "g [] = [] \<Longrightarrow> \<exists>pre. a @ b @ c @ d @ (if length xs > 0 then e @ g xs else []) = pre @ g xs"
  by (cases xs) (auto intro: exI [of _ "a @ b @ c @ d @ e"])

lemma stats_lines_end:
  "\<exists>pre. stats_lines show_f s = pre @ map (\<lambda>(t, m). t @ ''  '' @ m) (rev (sj_Notifications s))"
  unfolding stats_lines_def by (rule conditional_tail) simp

text \<open>What Ctrl-^ s has written is what -stats shows: when no step fails and the encoding can be read
  back, the shown lines are those of the client's state at that moment, with the server's part when its
  description has arrived, and end with the log of messages, the latest first.\<close>

theorem statistics_shown:
  assumes "statsFilePath (se_home env) (k_sessionID (cc_k c)) = Inr path" "se_mkdir env = None" "se_write env = None"
    "se_enc env (client_stats env (await_meta sys env c)) = Inr data"
    "dec data = Inr (client_stats env (await_meta sys env c))" "writeStatsFile sys env c fs = (c', fs')"
  shows "\<exists>pre. showSessionStats dec show_f (se_home env) (k_sessionID (cc_k c)) False fs' =
      Inr (pre @ map (\<lambda>(t, m). se_fmt env t @ ''  '' @ m) (rev (k_msgLog (cc_k c)))) \<and>
    k_msgLog (cc_k c') = k_msgLog (addLogMessage (se_now env) (''Stats: '' @ path) (cc_k c))"
proof -
  let ?s = "client_stats env (await_meta sys env c)"
  have n: "sj_Notifications ?s = map (\<lambda>(t, m). (se_fmt env t, m)) (k_msgLog (cc_k c))"
    by (simp add: client_stats_def await_same)
  have w: "fs' = AList.update path (LogFile (se_now env) [data]) fs"
    "c' = on_k (showRequestedStatus (se_now env) (''Stats: '' @ path)) (await_meta sys env c)"
    using assms by (simp_all add: writeStatsFile_def Let_def)
  have "showSessionStats dec show_f (se_home env) (k_sessionID (cc_k c)) False fs' = Inr (stats_lines show_f ?s)"
    using assms(1,5) by (simp add: showSessionStats_def w(1) update_conv)
  moreover obtain pre where "stats_lines show_f ?s = pre @ map (\<lambda>(t, m). t @ ''  '' @ m) (rev (sj_Notifications ?s))"
    using stats_lines_end by blast
  then have "stats_lines show_f ?s = pre @ map (\<lambda>(t, m). se_fmt env t @ ''  '' @ m) (rev (k_msgLog (cc_k c)))"
    by (simp add: n rev_map case_prod_unfold comp_def)
  moreover have "k_msgLog (cc_k c') = k_msgLog (addLogMessage (se_now env) (''Stats: '' @ path) (cc_k c))"
    by (simp add: w(2) showRequestedStatus_def addLogMessage_def act_def Let_def await_same)
  ultimately show ?thesis by (intro exI [of _ pre]) simp
qed

definition stats_env0 :: stats_env where
  "stats_env0 = \<lparr>se_now = 9, se_fmt = (\<lambda>t. ''T''), se_home = Inr ''/h'', se_build = (''b'', ''t''), se_arrived = None,
     se_conn = \<lparr>ks_SmoothedRTT = 0, ks_BytesSent = 0, ks_BytesReceived = 0, ks_PacketsSent = 0, ks_PacketsLost = 0\<rparr>,
     se_logName = '''', se_mkdir = None, se_enc = (\<lambda>s. Inr (sj_SessionID s)), se_write = None\<rparr>"

theorem statistics_shown_witness:
  "k_msgLog (cc_k (fst (writeStatsFile (connecting [7] (good_attempt 3)) stats_env0 quic_client0 []))) =
     [(9, ''Stats: /h/.tezzer/stats/s1.stats.json'')]"
proof -
  let ?c = quic_client0
  let ?s = "client_stats stats_env0 (await_meta (connecting [7] (good_attempt 3)) stats_env0 ?c)"
  have p: "statsFilePath (se_home stats_env0) (k_sessionID (cc_k ?c)) = Inr ''/h/.tezzer/stats/s1.stats.json''"
    by (simp add: statsFilePath_def stats_env0_def path_join_def quic_client0_def new_kclient_def Let_def)
  have e: "se_mkdir stats_env0 = None" "se_write stats_env0 = None" "se_enc stats_env0 ?s = Inr (sj_SessionID ?s)"
    by (simp_all add: stats_env0_def)
  obtain c' fs' where w: "writeStatsFile (connecting [7] (good_attempt 3)) stats_env0 ?c [] = (c', fs')" by force
  from statistics_shown [where dec = "\<lambda>_. Inr ?s", OF p e(1,2,3) refl w] w show ?thesis
    by (simp add: addLogMessage_def maxLogEntries_def stats_env0_def quic_client0_def new_kclient_def Let_def)
qed

section \<open>Sessions as JSON\<close>

text \<open>Fields that are copied without change are kept as the record they come from.\<close>

(* cmd/tezzer/sessions_json.go:18-36 sessionClientJSON *)
record sessionClientJSON =
  ej_info :: proto_ClientInfo
  ej_LastSeenAt :: string

(* cmd/tezzer/sessions_json.go:38-60 sessionJSON *)
record sessionJSON =
  fj_info :: SessionInfo
  fj_Status :: string
  fj_CreatedAt :: string
  fj_LastDetachedAt :: string
  fj_LastActiveAt :: string
  fj_LastOutputAt :: string
  fj_LastInputAt :: string
  fj_OldestChunkAt :: string
  fj_Clients :: "sessionClientJSON list"

(* cmd/tezzer/sessions_json.go:67-81 remoteForwardJSON *)
record remoteForwardJSON =
  rj_info :: RemoteForwardInfo
  rj_Listening :: bool
  rj_ListenFrom :: string

(* cmd/tezzer/sessions_json.go:83-89 unixRFC3339 *)
definition unixRFC3339 :: "(int \<Rightarrow> string) \<Rightarrow> int \<Rightarrow> string" where
  "unixRFC3339 fmt ts = (if ts = 0 then '''' else fmt ts)"

(* cmd/tezzer/sessions_json.go:91-148 toSessionJSON *)
definition toSessionJSON :: "(int \<Rightarrow> string) \<Rightarrow> SessionInfo \<Rightarrow> sessionJSON" where
  "toSessionJSON fmt s =
     \<lparr>fj_info = s, fj_Status = (if si_PTYClosed s then ''closed'' else ''active''),
      fj_CreatedAt = unixRFC3339 fmt (si_CreatedAt s), fj_LastDetachedAt = unixRFC3339 fmt (si_LastDetachedAt s),
      fj_LastActiveAt = unixRFC3339 fmt (fold (\<lambda>c m. if pc_LastSeen c > m then pc_LastSeen c else m) (si_Clients s) 0),
      fj_LastOutputAt = unixRFC3339 fmt (si_LastOutputAt s), fj_LastInputAt = unixRFC3339 fmt (si_LastInputAt s),
      fj_OldestChunkAt = unixRFC3339 fmt (si_OldestChunkTime s),
      fj_Clients = map (\<lambda>c. \<lparr>ej_info = c, ej_LastSeenAt = unixRFC3339 fmt (pc_LastSeen c)\<rparr>) (si_Clients s)\<rparr>"

(* cmd/tezzer/sessions_json.go:150-177 formatSessionsListJSON *)
definition formatSessionsListJSON ::
  "(sessionJSON list \<times> remoteForwardJSON list \<Rightarrow> err + string) \<Rightarrow> (int \<Rightarrow> string) \<Rightarrow> SessionInfo list \<Rightarrow>
   RemoteForwardInfo list \<Rightarrow> err + string" where
  "formatSessionsListJSON enc fmt infos rfs =
     (case enc (map (toSessionJSON fmt) infos,
                map (\<lambda>r. \<lparr>rj_info = r, rj_Listening = (rfi_Device r \<noteq> ''''),
                          rj_ListenFrom = unixRFC3339 fmt (rfi_ListenFrom r)\<rparr>) rfs) of
        Inl e \<Rightarrow> Inl e
      | Inr data \<Rightarrow> Inr (data @ [CHR 0x0A]))"

(* cmd/tezzer/sessions_json.go:179-186 formatSessionInfoJSON *)
definition formatSessionInfoJSON ::
  "(sessionJSON \<Rightarrow> err + string) \<Rightarrow> (int \<Rightarrow> string) \<Rightarrow> SessionInfo \<Rightarrow> err + string" where
  "formatSessionInfoJSON enc fmt s =
     (case enc (toSessionJSON fmt s) of Inl e \<Rightarrow> Inl e | Inr data \<Rightarrow> Inr (data @ [CHR 0x0A]))"

section \<open>The status line\<close>

definition rttHistorySize :: nat where
  "rttHistorySize = 10"

(* cmd/tezzer/client.go:192-203 Client.sampleRTTHistory *)
definition sample_rtt :: "real option \<Rightarrow> real list \<Rightarrow> real list" where
  "sample_rtt rtt h =
     (case rtt of
        None \<Rightarrow> h
      | Some r \<Rightarrow> (let h' = h @ [r] in if length h' > rttHistorySize then drop (length h' - rttHistorySize) h' else h'))"

text \<open>The blocks are numbered; indices are those of exact arithmetic.\<close>

definition sparklineBlocks :: nat where
  "sparklineBlocks = 8"

(* cmd/tezzer/client.go:210-236 renderSparkline *)
definition renderSparkline :: "real list \<Rightarrow> nat list" where
  "renderSparkline samples =
     (case samples of
        [] \<Rightarrow> []
      | s0 # _ \<Rightarrow>
          let lo = fold (\<lambda>v m. if v < m then v else m) samples s0;
              hi = fold (\<lambda>v m. if v > m then v else m) samples s0;
              span = hi - lo in
          map (\<lambda>v. if span = 0 then 0 else nat \<lfloor>(v - lo) / span * real (sparklineBlocks - 1)\<rfloor>) samples)"

(* cmd/tezzer/client.go:276-289 nameLabel *)
definition nameLabel :: "string \<Rightarrow> string" where
  "nameLabel name =
     (if name = '''' then ''''
      else ''name:'' @ (if length name > 20 then take 19 name @ ''~'' else name) @ '' '')"

text \<open>The part for the transport, if there is one, the time since the last output, the numbers of
  connections and the screen are given.\<close>

(* cmd/tezzer/client.go:238-274 Client.showStatus *)
definition showStatus ::
  "int \<Rightarrow> string \<Rightarrow> (real \<Rightarrow> string) \<Rightarrow> (nat list \<Rightarrow> string) \<Rightarrow> (ConnectionState \<times> real \<times> real list) option \<Rightarrow>
   string option \<Rightarrow> int \<times> nat \<Rightarrow> int \<times> nat \<Rightarrow> (ScreenState \<Rightarrow> string) \<Rightarrow> kclient \<Rightarrow> kclient" where
  "showStatus now name show_rtt blocks tr elapsed fwd rfw scr k =
     showRequestedStatus now
       (''[Tezzer] '' @ nameLabel name @ ''sess:'' @ take 6 (k_sessionID k) @ '' | '' @
        (case tr of
           None \<Rightarrow> ''UDS''
         | Some (s, rtt, h) \<Rightarrow>
             ConnectionState_String s @ '' RTT:'' @ show_rtt rtt @ ''ms '' @ blocks (renderSparkline h)) @
        (case elapsed of None \<Rightarrow> '''' | Some e \<Rightarrow> '' | out:'' @ e) @
        (if snd fwd > 0 then '' | fwd:'' @ show_int (fst fwd) @ ''/'' @ show_nat (snd fwd) else '''') @
        (if snd rfw > 0 then '' | rfwd:'' @ show_int (fst rfw) @ ''/'' @ show_nat (snd rfw) else '''') @
        (if k_statusRedraw k then '' | scr:'' @ scr (screenState (k_out k)) else '''')) k"

lemma fold_min: "fold (\<lambda>v m. if v < m then v else m) xs (a :: real) \<le> a \<and>
    (\<forall>v\<in>set xs. fold (\<lambda>v m. if v < m then v else m) xs a \<le> v)"
  by (induction xs arbitrary: a) (auto, meson dual_order.strict_implies_order dual_order.trans, meson order_trans linorder_not_less)

lemma fold_max: "fold (\<lambda>v m. if v > m then v else m) xs (a :: real) \<ge> a \<and>
    (\<forall>v\<in>set xs. fold (\<lambda>v m. if v > m then v else m) xs a \<ge> v)"
  by (induction xs arbitrary: a) (auto, meson dual_order.strict_implies_order dual_order.trans, meson order_trans linorder_not_less)

text \<open>The line over the samples has a block for each, and no index leaves the eight blocks there are.\<close>

theorem sparkline_in_range:
  "length (renderSparkline samples) = length samples \<and> set (renderSparkline samples) \<subseteq> {0..<sparklineBlocks}"
proof (cases samples)
  case (Cons s0 ss)
  define lo where "lo = fold (\<lambda>v m. if v < m then v else m) samples s0"
  define hi where "hi = fold (\<lambda>v m. if v > m then v else m) samples s0"
  have b: "lo \<le> v" "v \<le> hi" if "v \<in> set samples" for v
    using that fold_min [where xs = samples and a = s0] fold_max [where xs = samples and a = s0] by (auto simp: lo_def hi_def)
  have idx: "nat \<lfloor>(v - lo) / (hi - lo) * real (sparklineBlocks - 1)\<rfloor> < sparklineBlocks"
    if "v \<in> set samples" "hi - lo \<noteq> 0" for v
  proof -
    have "(v - lo) / (hi - lo) \<le> 1" using b [OF that(1)] that(2) by (simp add: divide_le_eq)
    then have "(v - lo) / (hi - lo) * real (sparklineBlocks - 1) \<le> 1 * 7"
      unfolding sparklineBlocks_def by (intro mult_mono) auto
    then have "nat \<lfloor>(v - lo) / (hi - lo) * real (sparklineBlocks - 1)\<rfloor> \<le> 7" by linarith
    then show ?thesis unfolding sparklineBlocks_def by linarith
  qed
  have "renderSparkline samples =
      map (\<lambda>v. if hi - lo = 0 then 0 else nat \<lfloor>(v - lo) / (hi - lo) * real (sparklineBlocks - 1)\<rfloor>) samples"
    using Cons by (simp add: renderSparkline_def lo_def hi_def Let_def)
  with idx show ?thesis by (auto simp: sparklineBlocks_def)
qed (simp add: renderSparkline_def)

end
