(* ===== verification/Session_Report.thy ===== *)
theory Session_Report
  imports Client_Files
begin

text \<open>
  What -list and -info print (cmd/tezzer/admin.go): the two requests, the choice between text and JSON, and
  the text about one session. Formats of points in time and of durations, and the encoder of JSON, are
  arguments.
\<close>

section \<open>Sessions of the daemon\<close>

definition nl :: string where
  "nl = [CHR 0x0A]"

text \<open>The output, or the error with nothing printed.\<close>

(* cmd/tezzer/admin.go:52-70 listSessions *)
definition listSessions ::
  "(sessionJSON list \<times> remoteForwardJSON list \<Rightarrow> err + string) \<Rightarrow> (int \<Rightarrow> string) \<Rightarrow> (int \<Rightarrow> string) \<Rightarrow> int \<Rightarrow> rpc \<Rightarrow>
   bool \<Rightarrow> err + string"
where
  "listSessions enc rfc3339 fmt_time now c jsonOut =
     (case call c want_list of
        Inl e \<Rightarrow> Inl e
      | Inr (infos, rfs) \<Rightarrow>
          if jsonOut then
            (case formatSessionsListJSON enc rfc3339 infos rfs of
               Inl e \<Rightarrow> Inl (Wrapped ''json encode error'' e)
             | Inr out \<Rightarrow> Inr out)
          else Inr (formatSessionsList now fmt_time infos @ formatRemoteForwards fmt_time rfs))"

section \<open>One session\<close>

fun want_info :: "proto_msg \<Rightarrow> SessionInfo option" where
  "want_info (SessionInfoM s) = Some s"
| "want_info _ = None"

text \<open>A point in time with its age, truncated to seconds.\<close>

definition with_age :: "int \<Rightarrow> (int \<Rightarrow> string) \<Rightarrow> (int \<Rightarrow> string) \<Rightarrow> int \<Rightarrow> string" where
  "with_age now fmt_time show_dur t =
     fmt_time t @ '' ('' @ show_dur (let d = now - t * second in d - (if d \<ge> 0 then d mod second else - ((- d) mod second))) @ '' ago)''"

text \<open>The clients; UDPAddresses, which no current server sets, is left out.\<close>

(* cmd/tezzer/admin.go:284-299 showSessionInfo *)
definition info_ident :: "proto_ClientInfo \<Rightarrow> string" where
  "info_ident c =
     ''  - '' @ pc_Protocol c @ '' ('' @ pc_ID c @ '')'' @
     (if pc_RemoteAddr c \<noteq> '''' then '' from '' @ pc_RemoteAddr c else '''') @
     (if pc_QUICRemoteAddr c \<noteq> '''' then '' quic='' @ pc_QUICRemoteAddr c else '''') @
     (if pc_UDPClientID c \<noteq> 0 then '' [QUIC ClientID='' @ show_nat (unat (pc_UDPClientID c)) @ '']'' else '''')"

(* cmd/tezzer/admin.go:300-328 showSessionInfo *)
definition info_traffic :: "int \<Rightarrow> (int \<Rightarrow> string) \<Rightarrow> (int \<Rightarrow> string) \<Rightarrow> proto_ClientInfo \<Rightarrow> string" where
  "info_traffic now fmt_time show_dur c =
     (if pc_SendBufferBytes c > 0 then ''      Output sent: '' @ show_int (pc_SendBufferBytes c) @ '' bytes'' @ nl else '''') @
     (if pc_SlowOutputWrites c > 0 \<or> pc_MaxOutputWriteMs c > 0 \<or> pc_OutputStallEpisodes c > 0
      then ''      Output backpressure: '' @ show_nat (pc_SlowOutputWrites c) @ '' slow writes, max '' @
           show_nat (pc_MaxOutputWriteMs c) @ '' ms'' @
           (if pc_OutputStallEpisodes c > 0 then '', '' @ show_nat (pc_OutputStallEpisodes c) @ '' stalls'' else '''') @
           (if pc_OutputStallMs c > 0 then '' [STALLED NOW: '' @ show_nat (pc_OutputStallMs c div 1000) @ ''s]'' else '''') @ nl
      else '''') @
     (if pc_ForwardsOpened c > 0
      then ''      Forwards: '' @ show_int (pc_ForwardsActive c) @ '' active / '' @ show_nat (pc_ForwardsOpened c) @ '' total, '' @
           show_nat (pc_ForwardBytesToTarget c) @ '' bytes out / '' @ show_nat (pc_ForwardBytesFromTarget c) @ '' bytes in'' @ nl
      else '''') @
     (if pc_LastSeen c > 0 then ''      Last output: '' @ with_age now fmt_time show_dur (pc_LastSeen c) @ nl else '''')"

text \<open>The retained output.\<close>

(* cmd/tezzer/admin.go:264-278 showSessionInfo *)
definition info_buffer :: "int \<Rightarrow> (int \<Rightarrow> string) \<Rightarrow> (int \<Rightarrow> string) \<Rightarrow> SessionInfo \<Rightarrow> string" where
  "info_buffer now fmt_time show_dur s =
     (if si_OutputChunks s > 0 \<or> si_OutputBufferBytes s > 0
      then nl @ ''Output Buffer:'' @ nl @
           ''  Chunks:      '' @ show_nat (si_OutputChunks s) @ nl @
           ''  Total bytes: '' @ show_int (si_OutputBufferBytes s) @ nl @
           (if si_OutputColdSegments s > 0
            then ''  Cold:        '' @ show_nat (si_OutputColdSegments s) @ '' segments, '' @ show_int (si_OutputColdBytes s) @
                 '' bytes compressed ('' @ show_int (si_OutputColdRawBytes s) @ '' bytes raw)'' @ nl
            else '''') @
           (if si_OldestChunkTime s > 0 then ''  Oldest:      '' @ with_age now fmt_time show_dur (si_OldestChunkTime s) @ nl else '''')
      else '''')"

(* cmd/tezzer/admin.go:229-332 showSessionInfo *)
definition info_text :: "int \<Rightarrow> (int \<Rightarrow> string) \<Rightarrow> (int \<Rightarrow> string) \<Rightarrow> SessionInfo \<Rightarrow> string" where
  "info_text now fmt_time show_dur s =
     ''Session ID: '' @ si_SessionID s @ nl @
     (if si_Name s \<noteq> '''' then ''Name:       '' @ si_Name s @ nl else '''') @
     ''Command:    '' @ si_Cmd s @ nl @
     ''Size:       '' @ show_int (si_Cols s) @ '' cols x '' @ show_int (si_Rows s) @ '' rows'' @ nl @
     ''Clients:    '' @ show_nat (si_ClientCount s) @ nl @
     (if si_PTYClosed s then ''Status:     Closed (PTY terminated)'' else ''Status:     Active'') @ nl @
     (if si_LastOutputAt s > 0 then ''Last output: '' @ with_age now fmt_time show_dur (si_LastOutputAt s) @ nl else '''') @
     (if si_LastInputAt s > 0 then ''Last input:  '' @ with_age now fmt_time show_dur (si_LastInputAt s) @ nl else '''') @
     (if si_UDPEnabled s then ''QUIC:       Enabled (UDP port '' @ show_int (si_UDPPort s) @ '')'' else ''QUIC:       Disabled'') @ nl @
     info_buffer now fmt_time show_dur s @
     (if si_Clients s = [] then ''''
      else nl @ ''Connected clients:'' @ nl @
           concat (map (\<lambda>c. info_ident c @ nl @ info_traffic now fmt_time show_dur c) (si_Clients s))) @
     nl @ ''Created:    '' @ fmt_time (si_CreatedAt s) @ nl"

(* cmd/tezzer/admin.go:204-227 showSessionInfo *)
definition showSessionInfo ::
  "(sessionJSON \<Rightarrow> err + string) \<Rightarrow> (int \<Rightarrow> string) \<Rightarrow> (int \<Rightarrow> string) \<Rightarrow> (int \<Rightarrow> string) \<Rightarrow> int \<Rightarrow> rpc \<Rightarrow> bool \<Rightarrow> err + string"
where
  "showSessionInfo enc rfc3339 fmt_time show_dur now c jsonOut =
     (case call c want_info of
        Inl e \<Rightarrow> Inl e
      | Inr s \<Rightarrow>
          if jsonOut then
            (case formatSessionInfoJSON enc rfc3339 s of
               Inl e \<Rightarrow> Inl (Wrapped ''json encode error'' e)
             | Inr out \<Rightarrow> Inr out)
          else Inr (info_text now fmt_time show_dur s))"

section \<open>Lemmas\<close>

text \<open>Both listings name a client in the same way.\<close>

lemma client_line_ident:
  "client_line now c = info_ident c @ (if pc_LastSeen c > 0 then '' last='' @ formatAgo (now - pc_LastSeen c * 1000000000) else '''') @ crlf"
  by (simp add: client_line_def info_ident_def)

text \<open>A session that is not found, an old server, a connection that breaks: nothing is printed.\<close>

lemma info_fails_iff:
  "showSessionInfo enc rfc fmt dur now c False = Inl e \<longleftrightarrow> call c want_info = Inl e"
  by (simp add: showSessionInfo_def split: sum.split)

lemma info_not_found:
  "\<lbrakk>rpc_dial c = None; rpc_send c = None; rpc_answer c = Inr (ErrorM code message)\<rbrakk> \<Longrightarrow>
   showSessionInfo enc rfc fmt dur now c j = Inl (ErrorString (''server error: '' @ code @ '': '' @ message))"
  by (simp add: showSessionInfo_def call_def roundTrip_def)

text \<open>A client without traffic has its one line.\<close>

lemma quiet_client:
  "\<lbrakk>pc_SendBufferBytes c \<le> 0; pc_SlowOutputWrites c = 0; pc_MaxOutputWriteMs c = 0; pc_OutputStallEpisodes c = 0;
    pc_ForwardsOpened c = 0; pc_LastSeen c \<le> 0\<rbrakk> \<Longrightarrow> info_traffic now fmt dur c = ''''"
  by (simp add: info_traffic_def)

end
