(* ===== verification/Agent_Sockets.thy ===== *)
theory Agent_Sockets
  imports Relay QServer QClient Restart
begin

text \<open>
  SSH agent forwarding (internal/session/agent.go, internal/qtransport/agent.go): the socket of a
  session, the limit of the connections relayed at a time, and the handshake that opens a stream to
  the client that provides the agent, with the handshakes of the other two kinds of forwarding
  (internal/qtransport/forward.go, rforward.go). The goroutines of the connections are a step
  relation; the relay itself is in Relay.
\<close>

section \<open>The socket\<close>

text \<open>A remainder of the socket is removed first, whose error does not count.\<close>

(* internal/session/agent.go:26-38 newAgentListener *)
definition newAgentListener ::
  "string \<Rightarrow> err + string \<Rightarrow> (string \<Rightarrow> err option) \<Rightarrow> (string \<Rightarrow> err option) \<Rightarrow> string \<Rightarrow> err + string" where
  "newAgentListener xdg home mkdir listen sessionID =
     (case GetAgentSocketPath xdg home mkdir sessionID of
        Inl e \<Rightarrow> Inl e
      | Inr path \<Rightarrow> (case listen path of Some e \<Rightarrow> Inl e | None \<Rightarrow> Inr path))"

section \<open>Opening a stream to the provider\<close>

(* internal/qtransport/agent.go:54-88 quicServer.OpenAgentStream *)
definition OpenAgentStream ::
  "err option \<Rightarrow> err option \<Rightarrow> (err + ctrlMsg) \<Rightarrow> string \<Rightarrow> quicServer \<Rightarrow> err + nat" where
  "OpenAgentStream stream wr answer sid s =
     (case agent_target sid s of
        Inl e \<Rightarrow> Inl e
      | Inr c \<Rightarrow>
          (case openBidiStream stream wr answer ctrlAgentOpenOK ctrlAgentOpenErr of
             Inl (Rejected_by reason) \<Rightarrow> Inl (ErrorString (''agent open rejected by client: '' @ reason))
           | Inl (OpenErr e) \<Rightarrow> Inl (Wrapped ''agent open'' e)
           | Inr _ \<Rightarrow> Inr c))"

text \<open>The two ends of an agent request agree: when its frames arrive, the server relays the
  connection exactly when the session has a provider that is connected and that client has reached
  the agent whose socket it was given; a client without agent forwarding never dials one.\<close>

theorem agent_ends_agree:
  "(\<exists>c. OpenAgentStream None None (Inr (fst (handleAgentStream dial q))) sid s = Inr c) \<longleftrightarrow>
     (\<exists>c. agent_target sid s = Inr c) \<and>
     snd (handleAgentStream dial q) = Some (qc_agentSockPath q) \<and> qc_agentSockPath q \<noteq> '''' \<and>
     dial (qc_agentSockPath q) = None"
  by (auto simp: OpenAgentStream_def openBidiStream_def handleAgentStream_def ctrl_msg_def
      split: sum.split option.split)

section \<open>The other handshakes\<close>

text \<open>A stream of -L, opened by the client: connected is whether its connection is alive.\<close>

(* internal/qtransport/forward.go:208-230 quicClient.OpenForward *)
definition OpenForward ::
  "bool \<Rightarrow> err option \<Rightarrow> err option \<Rightarrow> (err + ctrlMsg) \<Rightarrow> quicClient \<Rightarrow> err + unit" where
  "OpenForward connected stream wr answer c =
     (if \<not> ForwardingSupported c
      then Inl (ErrorString ''server does not advertise TCP forwarding (old server or --no-tcp-forwarding)'')
      else if qc_conn c = None \<or> \<not> connected then Inl (ErrorString ''not connected'')
      else
        (case openBidiStream stream wr answer ctrlFwdOpenOK ctrlFwdOpenErr of
           Inl (Rejected_by reason) \<Rightarrow> Inl (ErrorString (''forward rejected by server: '' @ reason))
         | Inl (OpenErr e) \<Rightarrow> Inl (Wrapped ''forward open'' e)
         | Inr _ \<Rightarrow> Inr ()))"

text \<open>A stream of -R, opened by the server; a refusal is an error of its own, after which no other
  client is tried.\<close>

(* internal/qtransport/rforward.go:74-93 quicServer.OpenRemoteForward *)
definition OpenRemoteForward ::
  "err option \<Rightarrow> err option \<Rightarrow> (err + ctrlMsg) \<Rightarrow> ClientID \<Rightarrow> quicServer \<Rightarrow> open_err + nat" where
  "OpenRemoteForward stream wr answer cid s =
     (case remote_target cid s of
        Inl e \<Rightarrow> Inl (OpenErr e)
      | Inr c \<Rightarrow>
          (case openBidiStream stream wr answer ctrlRFwdOpenOK ctrlRFwdOpenErr of
             Inl (Rejected_by reason) \<Rightarrow> Inl (Rejected_by reason)
           | Inl (OpenErr e) \<Rightarrow> Inl (OpenErr (Wrapped ''remote forward open'' e))
           | Inr _ \<Rightarrow> Inr c))"

text \<open>What the client reads of the server's handling of its request when the answer gets through; the
  counters of the connection are those at the end of the handshake.\<close>

definition forward_answer ::
  "nat \<Rightarrow> string \<Rightarrow> (string \<Rightarrow> err + unit) \<Rightarrow> (err \<Rightarrow> string) \<Rightarrow> quicServer \<Rightarrow> quicServer \<times> (err + ctrlMsg)" where
  "forward_answer c target dial text s =
     (case forward_begin c (Inr ((ctrl_msg ctrlFwdOpen)\<lparr>cm_Msg := target\<rparr>)) s of
        (s1, Some None) \<Rightarrow> (s1, Inl EOF)
      | (s1, Some (Some m)) \<Rightarrow> (s1, Inr m)
      | (s1, None) \<Rightarrow> (case forward_dialled c (dial target) text None s1 of (s2, m, _) \<Rightarrow> (s2, Inr m)))"

lemma on_conn_conns: "map_of (qs_conns (on_conn c f s)) c = map_option f (map_of (qs_conns s) c)"
proof -
  have "map_of (map (\<lambda>(d, sc). if d = c then (d, f sc) else (d, sc)) xs) c = map_option f (map_of xs c)" for xs
    by (induction xs) auto
  then show ?thesis by (simp add: on_conn_def)
qed

text \<open>A client gets a forwarded connection exactly when the server allows forwarding, knows the
  connection, has fewer than 64 of them open on it and reaches the target; in that case, and in no
  other, the count of the connection goes up by one.\<close>

theorem forward_ends_agree:
  assumes "ForwardingSupported q" "qc_conn q \<noteq> None" "map_of (qs_conns s) c = Some sc"
    "forward_answer c target dial text s = (s', answer)"
  shows "(if OpenForward True None None answer q = Inr ()
     then \<not> qs_fwdDisabled s \<and> sv_fwdActive sc < 64 \<and> dial target = Inr () \<and>
       map_option sv_fwdActive (map_of (qs_conns s') c) = Some (sv_fwdActive sc + 1)
     else (qs_fwdDisabled s \<or> \<not> sv_fwdActive sc < 64 \<or> dial target \<noteq> Inr ()) \<and>
       map_option sv_fwdActive (map_of (qs_conns s') c) = Some (sv_fwdActive sc))"
  using assms
  by (auto simp: forward_answer_def forward_begin_def forward_dialled_def OpenForward_def openBidiStream_def
      ctrl_msg_def maxForwardsPerClient_def on_conn_conns Let_def split: sum.splits if_splits)

theorem forward_ends_agree_witness:
  "\<exists>q s. ForwardingSupported q \<and> map_option sv_fwdActive (map_of (qs_conns s) 3) = Some 0 \<and>
     (case forward_answer 3 ''h:80'' (\<lambda>_. Inr ()) (\<lambda>e. ''x'') s of (s', answer) \<Rightarrow>
        map_option sv_fwdActive (map_of (qs_conns s') 3) = Some (1 :: int))"
proof -
  let ?q = "(NewClient ''h:1'' 7 ''s1'')\<lparr>qc_serverFeatures := FeatureTCPForward, qc_conn := Some 1\<rparr>"
  let ?sc = "new_client ((ctrl_msg ctrlHello)\<lparr>cm_SessionID := ''s1'', cm_ClientID := 7\<rparr>) False ''a:1''"
  let ?s = "new_server\<lparr>qs_conns := [(3, ?sc)]\<rparr>"
  have q: "ForwardingSupported ?q" "qc_conn ?q \<noteq> None"
    by (simp_all add: ForwardingSupported_def FeatureTCPForward_def)
  have m: "map_of (qs_conns ?s) 3 = Some ?sc" "sv_fwdActive ?sc = 0" "\<not> qs_fwdDisabled ?s"
    by (simp_all add: new_client_def new_server_def)
  obtain s' answer where a: "forward_answer 3 ''h:80'' (\<lambda>_. Inr ()) (\<lambda>e. ''x'') ?s = (s', answer)" by force
  from forward_ends_agree [OF q m(1) a] m(2,3) have "map_option sv_fwdActive (map_of (qs_conns s') 3) = Some 1"
    by (simp split: if_splits)
  with q(1) m a show ?thesis by (intro exI [of _ ?q] exI [of _ ?s]) simp
qed

section \<open>The connections of a session's agent socket\<close>

(* internal/session/agent.go:20-22 maxAgentStreams *)
definition maxAgentStreams :: int where
  "maxAgentStreams = 8"

datatype agent_phase = Accepted | Refused | Opening | Piping nat | Leaving

text \<open>al_active is the atomic counter agentActive of the session.\<close>

record agent_socket =
  al_active :: int
  al_conns :: "nat \<rightharpoonup> agent_phase"

definition new_agent_socket :: agent_socket where
  "new_agent_socket = \<lparr>al_active = 0, al_conns = Map.empty\<rparr>"

text \<open>The steps of the goroutines: each changes the counter at most once. opened k is what
  OpenAgentStream answers for the connection k.\<close>

(* internal/session/agent.go:41-77 Session.handleAgentConn *)
inductive agent_step :: "(nat \<Rightarrow> err + nat) \<Rightarrow> agent_socket \<Rightarrow> agent_socket \<Rightarrow> bool" for opened where
  accept: "al_conns a k = None \<Longrightarrow> agent_step opened a (a\<lparr>al_conns := (al_conns a)(k \<mapsto> Accepted)\<rparr>)"
| count: "al_conns a k = Some Accepted \<Longrightarrow> n = al_active a + 1 \<Longrightarrow>
    agent_step opened a
      (a\<lparr>al_active := n, al_conns := (al_conns a)(k \<mapsto> if n > maxAgentStreams then Refused else Opening)\<rparr>)"
| refuse: "al_conns a k = Some Refused \<Longrightarrow>
    agent_step opened a (a\<lparr>al_active := al_active a - 1, al_conns := (al_conns a)(k := None)\<rparr>)"
| fail: "al_conns a k = Some Opening \<Longrightarrow> opened k = Inl e \<Longrightarrow>
    agent_step opened a (a\<lparr>al_conns := (al_conns a)(k \<mapsto> Leaving)\<rparr>)"
| pipe: "al_conns a k = Some Opening \<Longrightarrow> opened k = Inr c \<Longrightarrow>
    agent_step opened a (a\<lparr>al_conns := (al_conns a)(k \<mapsto> Piping c)\<rparr>)"
| piped: "al_conns a k = Some (Piping c) \<Longrightarrow>
    agent_step opened a (a\<lparr>al_conns := (al_conns a)(k \<mapsto> Leaving)\<rparr>)"
| leave: "al_conns a k = Some Leaving \<Longrightarrow>
    agent_step opened a (a\<lparr>al_active := al_active a - 1, al_conns := (al_conns a)(k := None)\<rparr>)"

fun served :: "agent_phase \<Rightarrow> bool" where
  "served Accepted = False"
| "served Refused = False"
| "served _ = True"

definition in_phase :: "(agent_phase \<Rightarrow> bool) \<Rightarrow> agent_socket \<Rightarrow> nat set" where
  "in_phase P a = {k. \<exists>ph. al_conns a k = Some ph \<and> P ph}"

lemma in_phase_upd:
  "in_phase P (a\<lparr>al_active := n, al_conns := (al_conns a)(k := x)\<rparr>) =
     (case x of None \<Rightarrow> in_phase P a - {k} | Some ph \<Rightarrow> if P ph then insert k (in_phase P a) else in_phase P a - {k})"
  "in_phase P (a\<lparr>al_conns := (al_conns a)(k := x)\<rparr>) =
     (case x of None \<Rightarrow> in_phase P a - {k} | Some ph \<Rightarrow> if P ph then insert k (in_phase P a) else in_phase P a - {k})"
  by (auto simp: in_phase_def split: option.split)

lemma in_phase_iff: "al_conns a k = Some ph \<Longrightarrow> k \<in> in_phase P a \<longleftrightarrow> P ph" "al_conns a k = None \<Longrightarrow> k \<notin> in_phase P a"
  by (auto simp: in_phase_def)

definition counted :: "agent_phase \<Rightarrow> bool" where
  "counted ph \<longleftrightarrow> ph \<noteq> Accepted"

definition agent_sock_inv :: "agent_socket \<Rightarrow> bool" where
  "agent_sock_inv a \<longleftrightarrow> finite (dom (al_conns a)) \<and> al_active a = int (card (in_phase counted a)) \<and>
     int (card (in_phase served a)) \<le> maxAgentStreams"

lemma in_phase_finite: "finite (dom (al_conns a)) \<Longrightarrow> finite (in_phase P a)"
  by (rule finite_subset [of _ "dom (al_conns a)"]) (auto simp: in_phase_def)

lemma served_counted: "served ph \<Longrightarrow> counted ph"
  by (cases ph) (auto simp: counted_def)

lemma served_le_counted: "finite (dom (al_conns a)) \<Longrightarrow> card (in_phase served a) \<le> card (in_phase counted a)"
  by (rule card_mono [OF in_phase_finite]) (auto simp: in_phase_def served_counted)

lemma agent_step_inv: "agent_step opened a b \<Longrightarrow> agent_sock_inv a \<Longrightarrow> agent_sock_inv b"
proof (induction rule: agent_step.induct)
  case (count a k n)
  note f = in_phase_finite [of a] served_le_counted [of a]
  from count f show ?case
    by (auto simp: agent_sock_inv_def in_phase_upd in_phase_iff counted_def)
next
  case (leave a k)
  note f = in_phase_finite [of a]
  have k: "k \<in> in_phase counted a" using leave(1) by (simp add: in_phase_iff counted_def)
  with f leave have "card (in_phase counted a) > 0" by (auto simp: agent_sock_inv_def card_gt_0_iff)
  moreover note k
  moreover have "card (in_phase served a - {k}) \<le> card (in_phase served a)"
    using leave f by (intro card_mono) (auto simp: agent_sock_inv_def)
  ultimately show ?case
    using leave f by (auto simp: agent_sock_inv_def in_phase_upd card_Diff_singleton)
next
  case (refuse a k)
  note f = in_phase_finite [of a]
  have k: "k \<in> in_phase counted a" using refuse(1) by (simp add: in_phase_iff counted_def)
  with f refuse have "card (in_phase counted a) > 0" by (auto simp: agent_sock_inv_def card_gt_0_iff)
  moreover note k
  moreover have "card (in_phase served a - {k}) \<le> card (in_phase served a)"
    using refuse f by (intro card_mono) (auto simp: agent_sock_inv_def)
  ultimately show ?case
    using refuse f by (auto simp: agent_sock_inv_def in_phase_upd card_Diff_singleton)
qed (auto simp: agent_sock_inv_def in_phase_upd in_phase_iff counted_def insert_absorb)

lemma agent_reach_inv: "(agent_step opened)\<^sup>*\<^sup>* a b \<Longrightarrow> agent_sock_inv a \<Longrightarrow> agent_sock_inv b"
  by (induction rule: rtranclp_induct) (auto intro: agent_step_inv)

text \<open>C40. However the goroutines of an agent socket interleave, at most eight connections are relayed or
  about to be at a time, the counter is the number of connections that have passed it, and it is back
  at zero when all of them have left, so that no slot is lost.\<close>

theorem agent_streams_bounded:
  assumes "(agent_step opened)\<^sup>*\<^sup>* new_agent_socket a"
  shows "int (card (in_phase served a)) \<le> 8 \<and> al_active a = int (card (in_phase counted a)) \<and>
    (if al_conns a = Map.empty then al_active a = 0 else True)"
proof -
  have "agent_sock_inv new_agent_socket"
    by (simp add: agent_sock_inv_def new_agent_socket_def in_phase_def maxAgentStreams_def)
  from agent_reach_inv [OF assms this] show ?thesis
    by (auto simp: agent_sock_inv_def maxAgentStreams_def in_phase_def)
qed

theorem agent_streams_bounded_witness:
  "al_active (new_agent_socket\<lparr>al_active := 1, al_conns := [7 \<mapsto> Opening]\<rparr>) =
     int (card (in_phase counted (new_agent_socket\<lparr>al_active := 1, al_conns := [7 \<mapsto> Opening]\<rparr>)))"
proof -
  let ?a = "new_agent_socket\<lparr>al_conns := [7 \<mapsto> Accepted]\<rparr>"
  have "agent_step (\<lambda>k. Inr 3) new_agent_socket ?a"
    using agent_step.accept [of new_agent_socket 7 "\<lambda>k. Inr 3"] by (simp add: new_agent_socket_def)
  moreover have "agent_step (\<lambda>k. Inr 3) ?a (new_agent_socket\<lparr>al_active := 1, al_conns := [7 \<mapsto> Opening]\<rparr>)"
    using agent_step.count [of ?a 7 1 "\<lambda>k. Inr 3"] by (simp add: new_agent_socket_def maxAgentStreams_def)
  ultimately have "(agent_step (\<lambda>k. Inr 3))\<^sup>*\<^sup>* new_agent_socket
      (new_agent_socket\<lparr>al_active := 1, al_conns := [7 \<mapsto> Opening]\<rparr>)"
    by (meson converse_rtranclp_into_rtranclp r_into_rtranclp)
  from agent_streams_bounded [OF this] show ?thesis by blast
qed

end
