(* ===== verification/Client_Forwards.thy ===== *)
theory Client_Forwards
  imports Agent_Sockets Relay Client_Commands
begin

text \<open>
  The client's end of -L (cmd/tezzer/forward.go): its listeners, the connections they accept, the stream
  opened for each and the relay, with the warnings about what the server does not support (forward.go,
  rforward.go, agent.go). Results of net.Listen and of the transport are arguments.
\<close>

section \<open>State\<close>

text \<open>Connections are numbered as they are accepted. fc_pending has those whose stream is being opened,
  fc_refused those that were closed without one, fc_pipes the relays, running or ended.\<close>

record fwd_client =
  fc_listening :: "forwardSpec list"
  fc_done :: bool
  fc_next :: nat
  fc_pending :: "(nat \<times> forwardSpec) list"
  fc_refused :: "nat list"
  fc_pipes :: "(nat \<times> pipe) list"
  fc_active :: int
  fc_lastWarn :: "int option"
  fc_k :: kclient

definition fc_warn :: "int \<Rightarrow> string \<Rightarrow> fwd_client \<Rightarrow> fwd_client" where
  "fc_warn now msg s = (case forwardWarn now msg (fc_lastWarn s) (fc_k s) of (t, k) \<Rightarrow> s\<lparr>fc_lastWarn := t, fc_k := k\<rparr>)"

section \<open>Steps\<close>

text \<open>A listener that cannot be opened is reported, the others are opened all the same; hasLog is whether there
  is a log file.\<close>

(* cmd/tezzer/forward.go:107-124 Client.startForwardListeners *)
fun startForwardListeners ::
  "bool \<Rightarrow> (err \<Rightarrow> string) \<Rightarrow> int \<Rightarrow> (forwardSpec \<times> err option) list \<Rightarrow> fwd_client \<Rightarrow> fwd_client" where
  "startForwardListeners hasLog err_text now [] s = s"
| "startForwardListeners hasLog err_text now ((sp, listen) # sps) s =
     (case listen of
        Some e \<Rightarrow> startForwardListeners hasLog err_text now sps (fc_warn now (''-L '' @ forwardSpec_String sp @ '': '' @ err_text e) s)
      | None \<Rightarrow>
          startForwardListeners hasLog err_text now sps
            (s\<lparr>fc_k := (if hasLog then act (KLog (''forward: listening '' @ forwardSpec_String sp)) (fc_k s) else fc_k s),
               fc_listening := fc_listening s @ [sp]\<rparr>))"

text \<open>When done is closed the listeners are closed, and their loops end.\<close>

(* cmd/tezzer/forward.go:126-134 Client.acceptForwardLoop *)
definition acceptForwardLoop :: "forwardSpec \<Rightarrow> fwd_client \<Rightarrow> fwd_client" where
  "acceptForwardLoop sp s =
     (if sp \<notin> set (fc_listening s) then s
      else s\<lparr>fc_pending := fc_pending s @ [(fc_next s, sp)], fc_next := fc_next s + 1\<rparr>)"

definition forwards_done :: "fwd_client \<Rightarrow> fwd_client" where
  "forwards_done s = s\<lparr>fc_done := True, fc_listening := []\<rparr>"

text \<open>opened is None without a QUIC transport, else the result of OpenForward.\<close>

(* cmd/tezzer/forward.go:136-153 Client.handleForwardConn *)
definition forward_open :: "(err \<Rightarrow> string) \<Rightarrow> int \<Rightarrow> nat \<Rightarrow> (err + unit) option \<Rightarrow> fwd_client \<Rightarrow> fwd_client" where
  "forward_open err_text now n opened s =
     (case map_of (fc_pending s) n of
        None \<Rightarrow> s
      | Some sp \<Rightarrow>
          let s1 = s\<lparr>fc_pending := AList.delete n (fc_pending s)\<rparr>;
              close = (\<lambda>msg. (fc_warn now msg s1)\<lparr>fc_refused := fc_refused s1 @ [n]\<rparr>) in
          (case opened of
             None \<Rightarrow> close (''forward '' @ forwardSpec_String sp @ '': QUIC transport not ready'')
           | Some (Inl e) \<Rightarrow> close (''forward '' @ forwardSpec_String sp @ '': '' @ err_text e)
           | Some (Inr _) \<Rightarrow> s1\<lparr>fc_active := fc_active s1 + 1, fc_pipes := fc_pipes s1 @ [(n, new_pipe)]\<rparr>))"

text \<open>A step of a relay; the count goes down when handleForwardConn returns.\<close>

definition forward_relay :: "nat \<Rightarrow> pipe_event \<Rightarrow> fwd_client \<Rightarrow> fwd_client" where
  "forward_relay n ev s =
     (case map_of (fc_pipes s) n of
        None \<Rightarrow> s
      | Some p \<Rightarrow>
          let q = relay_step handleForwardConn ev p in
          s\<lparr>fc_pipes := AList.update n q (fc_pipes s),
            fc_active := (if finished q \<and> \<not> finished p then fc_active s - 1 else fc_active s)\<rparr>)"

datatype fwd_event =
    Fwd_accept forwardSpec
  | Fwd_opened int nat "(err + unit) option"
  | Fwd_relay nat pipe_event
  | Fwd_done

fun fwd_on :: "(err \<Rightarrow> string) \<Rightarrow> fwd_event \<Rightarrow> fwd_client \<Rightarrow> fwd_client" where
  "fwd_on err_text (Fwd_accept sp) s = acceptForwardLoop sp s"
| "fwd_on err_text (Fwd_opened now n opened) s = forward_open err_text now n opened s"
| "fwd_on err_text (Fwd_relay n ev) s = forward_relay n ev s"
| "fwd_on err_text Fwd_done s = forwards_done s"

section \<open>What the server does not support\<close>

text \<open>checks are the answers at the ticks and at the deadline: is the feature supported, is there a
  transport.\<close>

(* cmd/tezzer/forward.go:226-235 Client.warnIfForwardingUnsupported *)
definition warnIfForwardingUnsupported :: "(bool \<times> bool) list \<Rightarrow> bool \<times> bool \<Rightarrow> string option" where
  "warnIfForwardingUnsupported ticks final = pollForFeatureSupport ticks final
     ''-L: server does not support TCP forwarding (old server or --no-tcp-forwarding)''
     ''-L: QUIC transport not established; forwarding unavailable''"

(* cmd/tezzer/rforward.go:161-170 Client.warnIfRemoteForwardingUnsupported *)
definition warnIfRemoteForwardingUnsupported :: "(bool \<times> bool) list \<Rightarrow> bool \<times> bool \<Rightarrow> string option" where
  "warnIfRemoteForwardingUnsupported ticks final = pollForFeatureSupport ticks final
     ''-R: server does not support remote forwarding (old server or --no-tcp-forwarding)''
     ''-R: QUIC transport not established; remote forwarding unavailable''"

(* cmd/tezzer/agent.go:29-39 Client.warnIfAgentForwardingUnsupported *)
definition warnIfAgentForwardingUnsupported :: "(bool \<times> bool) list \<Rightarrow> bool \<times> bool \<Rightarrow> string option" where
  "warnIfAgentForwardingUnsupported ticks final = pollForFeatureSupport ticks final
     ''-A: server does not support agent forwarding (old server or --no-agent-forwarding)''
     ''-A: QUIC transport not established; agent forwarding unavailable''"

section \<open>Every connection is accounted for\<close>

definition relays_running :: "(nat \<times> pipe) list \<Rightarrow> nat" where
  "relays_running ps = length (filter (\<lambda>np. \<not> finished (snd np)) ps)"

text \<open>A number is pending, refused or relayed, once; the count is that of the relays that run; one that has
  ended has released its stream and closed its connection.\<close>

definition fwd_numbers :: "fwd_client \<Rightarrow> nat multiset" where
  "fwd_numbers s = mset (map fst (fc_pending s) @ fc_refused s @ map fst (fc_pipes s))"

definition pipe_ok :: "pipe \<Rightarrow> bool" where
  "pipe_ok p \<longleftrightarrow> (\<exists>es. p = relay handleForwardConn es) \<and> (finished p \<longrightarrow> released p \<and> pp_connClosed p)"

definition fwd_inv :: "fwd_client \<Rightarrow> bool" where
  "fwd_inv s \<longleftrightarrow> fwd_numbers s = mset [0..<fc_next s] \<and> fc_active s = int (relays_running (fc_pipes s)) \<and>
     (\<forall>np\<in>set (fc_pipes s). pipe_ok (snd np)) \<and> (fc_done s \<longrightarrow> fc_listening s = [])"

lemma hf_finish_closes:
  assumes "finished p \<longrightarrow> pp_connClosed p" "finished (relay_step handleForwardConn ev p)"
  shows "pp_connClosed (relay_step handleForwardConn ev p)"
proof -
  have fin: "pp_connClosed (finish_if handleForwardConn q)" if "finished q" for q
    using that by (simp add: finish_if_def handleForwardConn_def forwardStream_Close_def stream_Close_def CancelRead_def conn_Close_def)
  have fin': "finished (finish_if handleForwardConn q) \<Longrightarrow> pp_connClosed (finish_if handleForwardConn q)" for q
    using fin [of q] by (cases "finished q") (auto simp: finish_if_def)
  show ?thesis
  proof (cases ev)
    case (UpRead r w)
    show ?thesis
    proof (cases "cp_end (pp_up p)")
      case None
      define r' where "r' = (if pp_recv p = RecvCancelled then ReadFails else r)"
      define k where "k = copy_step r' (if pp_connClosed p then WroteSome 0 else w) (pp_up p)"
      define p1 where "p1 = p\<lparr>pp_up := k,
        pp_recv := (if pp_recv p = RecvOpen \<and> (r' = Eof \<or> r' = ReadFails) then RecvAtEnd else pp_recv p)\<rparr>"
      have s: "relay_step handleForwardConn (UpRead r w) p = (case cp_end k of None \<Rightarrow> p1
          | Some e \<Rightarrow> finish_if handleForwardConn (ro_up_end handleForwardConn e (length (cp_out k)) p1))"
        by (simp only: relay_step.simps None Let_def r'_def k_def p1_def simp_thms if_False)
      show ?thesis
        using assms(2) fin' unfolding UpRead s by (cases "cp_end k") (simp_all add: finished_def p1_def)
    qed (use assms UpRead in simp)
  next
    case (DownRead r w)
    show ?thesis
    proof (cases "cp_end (pp_down p)")
      case None
      define k where "k = copy_step (if pp_connClosed p then ReadFails else r) w (pp_down p)"
      have s: "relay_step handleForwardConn (DownRead r w) p = (case cp_end k of None \<Rightarrow> p\<lparr>pp_down := k\<rparr>
          | Some e \<Rightarrow> finish_if handleForwardConn (ro_down_end handleForwardConn e (length (cp_out k)) (p\<lparr>pp_down := k\<rparr>)))"
        by (simp only: relay_step.simps None Let_def k_def simp_thms if_False)
      show ?thesis
        using assms(2) fin' unfolding DownRead s by (cases "cp_end k") (simp_all add: finished_def)
    qed (use assms DownRead in simp)
  qed
qed

lemma delete_id: "n \<notin> fst ` set al \<Longrightarrow> AList.delete n al = al"
  by (induction al) auto

lemma mset_delete:
  "map_of al n = Some v \<Longrightarrow> distinct (map fst al) \<Longrightarrow> mset (map fst al) = add_mset n (mset (map fst (AList.delete n al)))"
  by (induction al) (auto simp: delete_id)

lemma relays_running_update:
  assumes "map_of ps n = Some p" "distinct (map fst ps)"
  shows "int (relays_running (AList.update n q ps)) =
    int (relays_running ps) - (if finished p then 0 else 1) + (if finished q then 0 else 1)"
  using assms by (induction ps) (auto simp: relays_running_def)

lemma set_update: "(m, x) \<in> set (AList.update n q ps) \<Longrightarrow> (m, x) \<in> set ps \<or> x = q"
  by (induction ps) (auto split: if_splits)

lemma relay_snoc: "relay_step ops ev (relay ops es) = relay ops (es @ [ev])"
  by (simp add: relay_def)

lemma fc_warn_fields [simp]:
  "fc_listening (fc_warn now msg s) = fc_listening s" "fc_done (fc_warn now msg s) = fc_done s"
  "fc_next (fc_warn now msg s) = fc_next s" "fc_pending (fc_warn now msg s) = fc_pending s"
  "fc_refused (fc_warn now msg s) = fc_refused s" "fc_pipes (fc_warn now msg s) = fc_pipes s"
  "fc_active (fc_warn now msg s) = fc_active s"
  by (simp_all add: fc_warn_def split: prod.split)

lemma fwd_distinct: "fwd_numbers s = mset [0..<k] \<Longrightarrow> distinct (map fst (fc_pending s)) \<and> distinct (map fst (fc_pipes s))"
  unfolding fwd_numbers_def by (metis distinct_append distinct_upt mset_eq_imp_distinct_iff)

lemma new_pipe_ok: "pipe_ok new_pipe"
proof -
  have "new_pipe = relay handleForwardConn []" by (simp add: relay_def)
  moreover have "\<not> finished new_pipe" by (simp add: finished_def new_pipe_def copy_start_def)
  ultimately show ?thesis unfolding pipe_ok_def by blast
qed

lemma step_pipe_ok: "pipe_ok p \<Longrightarrow> pipe_ok (relay_step handleForwardConn ev p)"
  unfolding pipe_ok_def using hf_finish_closes hfr.run_released relay_snoc by metis

lemma fwd_open_inv:
  assumes "fwd_inv s"
  shows "fwd_inv (forward_open err_text now n opened s)"
proof (cases "map_of (fc_pending s) n")
  case (Some sp)
  let ?pend = "AList.delete n (fc_pending s)"
  have i: "fwd_numbers s = mset [0..<fc_next s]" "fc_active s = int (relays_running (fc_pipes s))"
    "\<forall>np\<in>set (fc_pipes s). pipe_ok (snd np)" "fc_done s \<longrightarrow> fc_listening s = []"
    using assms by (auto simp: fwd_inv_def)
  have num: "add_mset n (mset (map fst ?pend) + mset (fc_refused s) + mset (map fst (fc_pipes s))) = mset [0..<fc_next s]"
    using i(1) mset_delete [OF Some] fwd_distinct [OF i(1)] unfolding fwd_numbers_def by (simp add: add.assoc del: mset_upt)
  have "relays_running (fc_pipes s @ [(n, new_pipe)]) = relays_running (fc_pipes s) + 1"
    by (simp add: relays_running_def finished_def new_pipe_def copy_start_def)
  with i num new_pipe_ok show ?thesis
    by (auto simp: fwd_inv_def fwd_numbers_def forward_open_def Some Let_def add.assoc simp del: mset_upt split: option.split sum.split)
qed (use assms in \<open>simp add: forward_open_def\<close>)

lemma fwd_relay_inv:
  assumes "fwd_inv s"
  shows "fwd_inv (forward_relay n ev s)"
proof (cases "map_of (fc_pipes s) n")
  case (Some p)
  let ?q = "relay_step handleForwardConn ev p"
  have i: "fwd_numbers s = mset [0..<fc_next s]" "fc_active s = int (relays_running (fc_pipes s))"
    "\<forall>np\<in>set (fc_pipes s). pipe_ok (snd np)" "fc_done s \<longrightarrow> fc_listening s = []"
    using assms by (auto simp: fwd_inv_def)
  have p: "(n, p) \<in> set (fc_pipes s)" using Some by (rule map_of_SomeD)
  then have ok: "pipe_ok p" using i(3) by force
  have keys: "map fst (AList.update n ?q (fc_pipes s)) = map fst (fc_pipes s)"
    using p by (force simp: update_keys image_iff)
  have stays: "finished p \<Longrightarrow> finished ?q" by (cases ev) (simp_all add: finished_def)
  let ?s = "forward_relay n ev s"
  have s': "?s = s\<lparr>fc_pipes := AList.update n ?q (fc_pipes s),
      fc_active := (if finished ?q \<and> \<not> finished p then fc_active s - 1 else fc_active s)\<rparr>"
    by (simp add: forward_relay_def Some Let_def)
  have "fwd_numbers ?s = mset [0..<fc_next s]"
  proof -
    have "fc_pending ?s = fc_pending s" "fc_refused ?s = fc_refused s" "map fst (fc_pipes ?s) = map fst (fc_pipes s)"
      by (simp_all add: s' keys)
    with i(1) show ?thesis unfolding fwd_numbers_def by (simp only:)
  qed
  moreover have "fc_active ?s = int (relays_running (fc_pipes ?s))"
    using i(2) stays relays_running_update [OF Some conjunct2 [OF fwd_distinct [OF i(1)]], of ?q] by (auto simp: s')
  moreover have "pipe_ok (snd np)" if "np \<in> set (fc_pipes ?s)" for np
  proof -
    have "(fst np, snd np) \<in> set (AList.update n ?q (fc_pipes s))" using that by (simp add: s')
    from set_update [OF this] show ?thesis using i(3) step_pipe_ok [OF ok, of ev] by force
  qed
  ultimately show ?thesis using i(4) unfolding fwd_inv_def by (simp add: s')
qed (use assms in \<open>simp add: forward_relay_def\<close>)

lemma fwd_on_inv:
  assumes "fwd_inv s"
  shows "fwd_inv (fwd_on err_text e s)"
proof (cases e)
  case (Fwd_accept sp)
  then show ?thesis using assms by (auto simp: fwd_inv_def fwd_numbers_def acceptForwardLoop_def simp del: mset_upt)
next
  case Fwd_done
  then show ?thesis using assms by (auto simp: fwd_inv_def fwd_numbers_def forwards_done_def simp del: mset_upt)
qed (use assms in \<open>simp_all add: fwd_open_inv fwd_relay_inv\<close>)

lemma fwd_run_inv: "fwd_inv s \<Longrightarrow> fwd_inv (fold (fwd_on err_text) es s)"
  by (induction es arbitrary: s) (auto intro: fwd_on_inv simp del: fwd_on.simps)

definition fwd_start :: "kclient \<Rightarrow> fwd_client" where
  "fwd_start k = \<lparr>fc_listening = [], fc_done = False, fc_next = 0, fc_pending = [], fc_refused = [], fc_pipes = [],
     fc_active = 0, fc_lastWarn = None, fc_k = k\<rparr>"

lemma listen_fields:
  "fc_pending (startForwardListeners hasLog err_text now sps s) = fc_pending s \<and>
   fc_refused (startForwardListeners hasLog err_text now sps s) = fc_refused s \<and>
   fc_pipes (startForwardListeners hasLog err_text now sps s) = fc_pipes s \<and>
   fc_active (startForwardListeners hasLog err_text now sps s) = fc_active s \<and>
   fc_next (startForwardListeners hasLog err_text now sps s) = fc_next s \<and>
   fc_done (startForwardListeners hasLog err_text now sps s) = fc_done s \<and>
   fc_listening (startForwardListeners hasLog err_text now sps s) =
     fc_listening s @ map fst (filter (\<lambda>sp. snd sp = None) sps)"
proof (induction sps arbitrary: s)
  case (Cons sp sps)
  show ?case by (cases sp; cases "snd sp") (simp_all add: Cons.IH)
qed simp

text \<open>C38. Of the -L specifications the client listens exactly on those for which net.Listen succeeded. Each connection
  accepted on them is in one place: its stream is being opened, it was closed for want of one, or it is
  relayed; the number shown is that of the relays that run, and a relay that has ended has released both
  halves of its stream and closed its connection.\<close>

theorem forwards_accounted:
  assumes "s = fold (fwd_on err_text) es (startForwardListeners hasLog err_text now sps (fwd_start k))"
  shows "fwd_numbers s = mset [0..<fc_next s] \<and> fc_active s = int (relays_running (fc_pipes s)) \<and>
    (\<forall>np\<in>set (fc_pipes s). finished (snd np) \<longrightarrow> released (snd np) \<and> pp_connClosed (snd np)) \<and>
    (es = [] \<longrightarrow> fc_listening s = map fst (filter (\<lambda>sp. snd sp = None) sps))"
proof -
  let ?s = "startForwardListeners hasLog err_text now sps (fwd_start k)"
  have "fwd_inv ?s" unfolding fwd_inv_def fwd_numbers_def by (simp add: listen_fields) (simp add: fwd_start_def relays_running_def)
  then have "fwd_inv s" unfolding assms by (rule fwd_run_inv)
  then show ?thesis using assms by (auto simp: fwd_inv_def pipe_ok_def listen_fields fwd_start_def)
qed

definition one_forward :: fwd_client where
  "one_forward = startForwardListeners True (\<lambda>e. ''in use'') 0
     [(\<lparr>fs_listenAddr = ''127.0.0.1:80'', fs_target = ''h:1''\<rparr>, Some EOF),
      (\<lparr>fs_listenAddr = ''127.0.0.1:81'', fs_target = ''h:2''\<rparr>, None)]
     (fwd_start (typing_client 30 False))"

lemma forwards_accounted_witness:
  "fc_listening one_forward = [\<lparr>fs_listenAddr = ''127.0.0.1:81'', fs_target = ''h:2''\<rparr>] \<and>
   fc_active (fold (fwd_on (\<lambda>e. ''in use'')) [Fwd_accept \<lparr>fs_listenAddr = ''127.0.0.1:81'', fs_target = ''h:2''\<rparr>, Fwd_opened 1 0 (Some (Inr ()))]
     one_forward) = 1"
proof -
  have l: "fc_listening one_forward = [\<lparr>fs_listenAddr = ''127.0.0.1:81'', fs_target = ''h:2''\<rparr>]"
    by (simp add: one_forward_def listen_fields fwd_start_def)
  let ?es = "[Fwd_accept \<lparr>fs_listenAddr = ''127.0.0.1:81'', fs_target = ''h:2''\<rparr>, Fwd_opened 1 0 (Some (Inr ()))]"
  let ?s = "fold (fwd_on (\<lambda>e. ''in use'')) ?es one_forward"
  have "fc_pipes ?s = [(0, new_pipe)]"
    using l by (simp add: acceptForwardLoop_def forward_open_def Let_def) (simp add: one_forward_def listen_fields fwd_start_def)
  moreover have "fc_active ?s = int (relays_running (fc_pipes ?s))"
    unfolding one_forward_def by (rule forwards_accounted [OF refl, THEN conjunct2, THEN conjunct1])
  ultimately have "fc_active ?s = 1" by (simp add: relays_running_def finished_def new_pipe_def copy_start_def)
  with l show ?thesis by blast
qed

end
