(* ===== verification/Version.thy ===== *)
theory Version
  imports Prelude
begin

text \<open>
  The build information of both programs (internal/version/version.go): what the linker injected,
  completed from the version control settings the compiler embeds.
\<close>

section \<open>Build information\<close>

record build_info =
  bi_Version :: string
  bi_GitCommit :: string
  bi_BuildTime :: string

text \<open>One setting of debug.ReadBuildInfo: the revision, whether it was modified, and the time.\<close>

(* internal/version/version.go:31-44 init *)
definition vcs_setting :: "string \<times> string \<Rightarrow> string \<times> string \<times> string \<Rightarrow> string \<times> string \<times> string" where
  "vcs_setting s r =
     (case (s, r) of
        ((key, value), rev', modified, built) \<Rightarrow>
          if key = ''vcs.revision'' then (value, modified, built)
          else if key = ''vcs.modified'' then (rev', value, built)
          else if key = ''vcs.time'' \<and> built = ''unknown'' then (rev', modified, value)
          else (rev', modified, built))"

text \<open>settings is what debug.ReadBuildInfo answers, if anything.\<close>

(* internal/version/version.go:21-53 init *)
definition version_init :: "(string \<times> string) list option \<Rightarrow> build_info \<Rightarrow> build_info" where
  "version_init settings b =
     (if bi_GitCommit b \<noteq> ''unknown'' then b
      else
        (case settings of
           None \<Rightarrow> b
         | Some ss \<Rightarrow>
             let (rev0, modified, built) = fold vcs_setting ss ('''', '''', bi_BuildTime b);
                 rev1 = (if length rev0 > 7 then take 7 rev0 else rev0);
                 b1 = b\<lparr>bi_BuildTime := built\<rparr> in
             if rev1 \<noteq> ''''
             then b1\<lparr>bi_GitCommit := rev1 @ (if modified = ''true'' then ''-dirty'' else '''')\<rparr>
             else b1))"

(* internal/version/version.go:65-70 String *)
definition version_String :: "build_info \<Rightarrow> string \<Rightarrow> string \<Rightarrow> string \<Rightarrow> string \<Rightarrow> string" where
  "version_String b gover goos goarch program =
     program @ '' '' @ bi_Version b @ '' (commit '' @ bi_GitCommit b @ '', built '' @ bi_BuildTime b @ '', '' @
     gover @ '' '' @ goos @ ''/'' @ goarch @ '')''"

text \<open>What the linker was given is never replaced.\<close>

lemma version_keeps_linked: "bi_GitCommit b \<noteq> ''unknown'' \<Longrightarrow> version_init settings b = b"
  by (simp add: version_init_def)

lemma version_init_example:
  "bi_GitCommit (version_init (Some [(''vcs.modified'', ''true''), (''vcs.revision'', ''88800e4abc'')])
     \<lparr>bi_Version = ''dev'', bi_GitCommit = ''unknown'', bi_BuildTime = ''unknown''\<rparr>) = ''88800e4-dirty''"
  by (simp add: version_init_def vcs_setting_def)

end
