(* ===== verification/Daemon_Loops.thy ===== *)
theory Daemon_Loops
  imports Daemon Version
begin

text \<open>
  What runs in the daemon beside its connections: the first decisions of main and the loop that accepts
  connections (cmd/tezzerd/main.go), and the two periodic loops of the session manager
  (internal/session/manager.go).
\<close>

section \<open>Start\<close>

datatype main_next = Print_version string | Diagnose_nat | Serve bool

text \<open>Serve carries the initial value of the debug flag.\<close>

(* cmd/tezzerd/main.go:47-63 main *)
definition main_first :: "bool \<Rightarrow> bool \<Rightarrow> string \<Rightarrow> string \<Rightarrow> main_next" where
  "main_first showVersion checkNAT version tezzerDebug =
     (if showVersion then Print_version version
      else if checkNAT then Diagnose_nat
      else Serve (tezzerDebug \<noteq> ''''))"

text \<open>The connections handed to handleConnection, and whether an error is logged at the end. shutdown
  is whether the signal handler has closed shutdownCh by the time of the error, quiet whether the error
  is that of a closed listener. The last element of the list, if any, is the last one looked at.\<close>

(* cmd/tezzerd/main.go:198-217 main *)
fun main_accept :: "bool \<Rightarrow> (err \<Rightarrow> bool) \<Rightarrow> (err + nat) list \<Rightarrow> nat list \<times> bool" where
  "main_accept shutdown quiet [] = ([], False)"
| "main_accept shutdown quiet (Inl e # rs) = ([], \<not> shutdown \<and> \<not> quiet e)"
| "main_accept shutdown quiet (Inr conn # rs) = (case main_accept shutdown quiet rs of (cs, l) \<Rightarrow> (conn # cs, l))"

section \<open>Periodic work\<close>

text \<open>The loops run at each tick until done is closed; what they see of the transports, and the clock,
  are given with the tick.\<close>

record cleanup_env =
  ce_now :: time
  ce_active :: "string \<Rightarrow> ClientID list"
  ce_listen :: "string \<Rightarrow> string \<Rightarrow> string + nat"

(* internal/session/manager.go:267-270 Manager.runSessionCleanup *)
definition cleanup_tick :: "(bytes \<Rightarrow> err + bytes) \<Rightarrow> cleanup_env \<Rightarrow> Manager \<Rightarrow> Manager \<times> mgr_act list" where
  "cleanup_tick deflate env m =
     (case cleanupClosedSessions (ce_listen env) (ce_active env) (ce_now env) m of
        (m1, acts) \<Rightarrow> (evictStaleOutputBuffers deflate (ce_now env) m1, acts))"

(* internal/session/manager.go:259-273 Manager.runSessionCleanup *)
fun runSessionCleanup :: "(bytes \<Rightarrow> err + bytes) \<Rightarrow> cleanup_env option list \<Rightarrow> Manager \<Rightarrow> Manager \<times> mgr_act list" where
  "runSessionCleanup deflate [] m = (m, [])"
| "runSessionCleanup deflate (None # ticks) m = (m, [])"
| "runSessionCleanup deflate (Some env # ticks) m =
     (case cleanup_tick deflate env m of
        (m1, acts) \<Rightarrow> (case runSessionCleanup deflate ticks m1 of (m2, acts2) \<Rightarrow> (m2, acts @ acts2)))"

(* internal/session/manager.go:244-258 Manager.runRemoteForwardTicker *)
fun runRemoteForwardTicker :: "cleanup_env option list \<Rightarrow> Manager \<Rightarrow> Manager \<times> mgr_act list" where
  "runRemoteForwardTicker [] m = (m, [])"
| "runRemoteForwardTicker (None # ticks) m = (m, [])"
| "runRemoteForwardTicker (Some env # ticks) m =
     (case remote_forward_tick (ce_listen env) (ce_now env) m of
        (m1, acts) \<Rightarrow> (case runRemoteForwardTicker ticks m1 of (m2, acts2) \<Rightarrow> (m2, acts @ acts2)))"

section \<open>Ended sessions are collected\<close>

definition over_and_unused :: "(string \<Rightarrow> ClientID list) \<Rightarrow> time \<Rightarrow> string \<Rightarrow> Session \<Rightarrow> bool" where
  "over_and_unused active now k s \<longleftrightarrow>
     ptyClosed s \<and> clients s = [] \<and> \<not> (st s \<and> ID s \<in> cid_Session ` set (active k)) \<and>
     (case ptyClosedAt s of None \<Rightarrow> True | Some t \<Rightarrow> now - t > 30 * second)"

lemma evict_lookup:
  "map_of (sessions (evictStaleOutputBuffers deflate now m)) k = map_option (EvictStaleOutput deflate now) (map_of (sessions m) k)"
  by (simp add: evictStaleOutputBuffers_def map_of_map)

lemma tick_lookup:
  assumes "distinct (map fst (sessions m))"
  shows "map_of (sessions (fst (cleanup_tick deflate env m))) k =
    (case map_of (sessions m) k of
       None \<Rightarrow> None
     | Some s \<Rightarrow> if over_and_unused (ce_active env) (ce_now env) k s then None
                else Some (EvictStaleOutput deflate (ce_now env) s))"
  unfolding cleanup_tick_def over_and_unused_def
  by (cases "map_of (sessions m) k") (auto simp: case_prod_beta evict_lookup cleanup_lookup [OF assms] split: option.splits)

lemma tick_distinct:
  assumes "distinct (map fst (sessions m))"
  shows "distinct (map fst (sessions (fst (cleanup_tick deflate env m))))"
proof -
  have "distinct (map fst al) \<Longrightarrow> distinct (map fst (fold AList.delete ks al))" for ks and al :: "(string \<times> Session) list"
    by (induction ks arbitrary: al) (simp_all add: distinct_delete)
  moreover have "map fst (sessions (evictStaleOutputBuffers deflate now m)) = map fst (sessions m)" for now m
    by (simp add: evictStaleOutputBuffers_def case_prod_unfold comp_def)
  ultimately show ?thesis using assms
    by (simp add: cleanup_tick_def case_prod_beta cleanupClosedSessions_def delete_each_sessions)
qed

lemma evict_keeps_unused: "over_and_unused active now k (EvictStaleOutput deflate t s) = over_and_unused active now k s"
  using session_more [OF evict_stale_more [of deflate t s]] by (simp add: over_and_unused_def)

text \<open>A session whose pty was closed and that no client uses on either path disappears with the first
  tick later than thirty seconds after it was closed; a session for which this is so at no tick stays,
  with only its retained output shortened.\<close>

theorem ended_sessions_collected:
  assumes "distinct (map fst (sessions m))" "map_of (sessions m) k = Some s"
  shows "map_of (sessions (fst (runSessionCleanup deflate (map Some envs) m))) k =
    (if \<exists>env\<in>set envs. over_and_unused (ce_active env) (ce_now env) k s then None
     else Some (fold (\<lambda>env. EvictStaleOutput deflate (ce_now env)) envs s))"
  using assms
proof (induction envs arbitrary: m s)
  case (Cons env envs)
  let ?m = "fst (cleanup_tick deflate env m)"
  have d: "distinct (map fst (sessions ?m))" by (rule tick_distinct [OF Cons.prems(1)])
  have run: "fst (runSessionCleanup deflate (map Some (env # envs)) m) = fst (runSessionCleanup deflate (map Some envs) ?m)"
    by (simp add: case_prod_beta)
  have gone: "map_of (sessions m') k = None \<Longrightarrow> distinct (map fst (sessions m')) \<Longrightarrow>
      map_of (sessions (fst (runSessionCleanup deflate (map Some es) m'))) k = None" for m' es
  proof (induction es arbitrary: m')
    case (Cons e es)
    have "map_of (sessions (fst (cleanup_tick deflate e m'))) k = None" using tick_lookup [OF Cons.prems(2)] Cons.prems(1) by simp
    then show ?case using Cons.IH [OF _ tick_distinct [OF Cons.prems(2)]] by (simp add: case_prod_beta)
  qed simp
  show ?case
  proof (cases "over_and_unused (ce_active env) (ce_now env) k s")
    case True
    then have "map_of (sessions ?m) k = None" using tick_lookup [OF Cons.prems(1)] Cons.prems(2) by simp
    then show ?thesis using gone d True unfolding run by simp
  next
    case False
    then have "map_of (sessions ?m) k = Some (EvictStaleOutput deflate (ce_now env) s)"
      using tick_lookup [OF Cons.prems(1)] Cons.prems(2) by simp
    from Cons.IH [OF d this] show ?thesis using False unfolding run by (simp add: evict_keeps_unused)
  qed
qed simp

lemma ended_sessions_collected_witness:
  "map_of (sessions (fst (runSessionCleanup Inr
     (map Some [\<lparr>ce_now = 10 * second, ce_active = (\<lambda>k. []), ce_listen = (\<lambda>_ _. Inl ''busy'')\<rparr>,
                \<lparr>ce_now = 70 * second, ce_active = (\<lambda>k. []), ce_listen = (\<lambda>_ _. Inl ''busy'')\<rparr>])
     ((NewManager None 0)\<lparr>sessions := [(''s1'', (session0 ''s1'' ''sh'' 24 80 None 0)\<lparr>ptyClosed := True, ptyClosedAt := Some 0\<rparr>)]\<rparr>)))) ''s1'' = None"
  by (subst ended_sessions_collected [where s = "(session0 ''s1'' ''sh'' 24 80 None 0)\<lparr>ptyClosed := True, ptyClosedAt := Some 0\<rparr>"])
    (simp_all add: over_and_unused_def session0_def second_def)

end
