(* ===== verification/Client_Watchdog.thy ===== *)
theory Client_Watchdog
  imports QClient
begin

text \<open>
  The watchdog of the client transport as a loop (internal/qtransport/client.go): the two clocks it
  reads, the jump of the wall clock it takes for a suspension, the log of late ticks, and the
  recoveries it starts in the background, of which the flag recovering lets one run at a time. The
  decision of one tick is watchdog_tick of QClient.
\<close>

section \<open>Ticks\<close>

text \<open>The wall clock goes on while the machine is suspended, the monotonic clock stands still.\<close>

record clock =
  wall_ns :: int
  mono_ns :: int

text \<open>tk_sched is the wall clock the ticker puts into the tick, tk_real the time it is handled.\<close>

record tick =
  tk_sched :: int
  tk_real :: clock
  tk_dead :: bool

(* internal/qtransport/client.go:217-236 quicClient.watchdog *)
record watchdog =
  wd_last :: clock
  wd_lastJump :: "int option"
  wd_client :: quicClient
  wd_started :: "(string \<times> bool) list"
  wd_jumps :: "int list"
  wd_gaps :: nat

definition tick_interval :: int where
  "tick_interval = 1000000000"

definition tickGapLogThreshold :: int where
  "tickGapLogThreshold = 500000000"

definition slept :: "tick \<Rightarrow> watchdog \<Rightarrow> int" where
  "slept k w = tk_sched k - wall_ns (wd_last w)"

(* internal/qtransport/client.go:241-289 quicClient.watchdog *)
definition watchdog_step :: "tick \<Rightarrow> watchdog \<Rightarrow> watchdog" where
  "watchdog_step k w =
     (let wallDelta = wall_ns (tk_real k) - wall_ns (wd_last w);
          monoDelta = mono_ns (tk_real k) - mono_ns (wd_last w);
          w1 = w\<lparr>wd_last := tk_real k,
                 wd_gaps := (if wallDelta - tick_interval > tickGapLogThreshold
                               \<or> monoDelta - tick_interval > tickGapLogThreshold
                             then wd_gaps w + 1 else wd_gaps w)\<rparr> in
      case watchdog_tick (mono_ns (tk_real k)) (slept k w) (tk_dead k) (wd_lastJump w) (wd_client w) of
        (c, lastJump, r) \<Rightarrow>
          w1\<lparr>wd_client := c, wd_lastJump := lastJump,
             wd_started := wd_started w @ (case r of None \<Rightarrow> [] | Some x \<Rightarrow> [x]),
             wd_jumps := wd_jumps w @ (if lastJump = wd_lastJump w then [] else [mono_ns (tk_real k)])\<rparr>)"

text \<open>What happens to a recovery that was started: it runs, or finds another one running. An input
  that fails starts one as well.\<close>

datatype watch_event =
    WTick tick
  | WRun attempt
  | WSkip
  | WInputFailed int

(* internal/qtransport/client.go:367-381 quicClient.recoverWith *)
fun wd_event :: "watch_event \<Rightarrow> watchdog \<Rightarrow> watchdog" where
  "wd_event (WTick k) w = watchdog_step k w"
| "wd_event (WRun a) w =
     (case wd_started w of
        [] \<Rightarrow> w
      | (reason, tryMigrate) # rest \<Rightarrow>
          w\<lparr>wd_started := rest, wd_client := fst (recoverWith a reason tryMigrate (wd_client w))\<rparr>)"
| "wd_event WSkip w = w\<lparr>wd_started := tl (wd_started w)\<rparr>"
| "wd_event (WInputFailed now) w =
     (case SendInput now (Some EOF) [] (wd_client w) of
        (c, _, r) \<Rightarrow> w\<lparr>wd_client := c, wd_started := wd_started w @ (case r of None \<Rightarrow> [] | Some x \<Rightarrow> [(x, True)])\<rparr>)"

definition watch_run :: "watch_event list \<Rightarrow> watchdog \<Rightarrow> watchdog" where
  "watch_run es w = fold wd_event es w"

definition new_watchdog :: "clock \<Rightarrow> quicClient \<Rightarrow> watchdog" where
  "new_watchdog now c =
     \<lparr>wd_last = now, wd_lastJump = None, wd_client = c, wd_started = [], wd_jumps = [], wd_gaps = 0\<rparr>"

section \<open>How often a jump starts a recovery\<close>

fun spaced :: "int \<Rightarrow> int list \<Rightarrow> bool" where
  "spaced d (a # b # xs) \<longleftrightarrow> b - a \<ge> d \<and> spaced d (b # xs)"
| "spaced d _ \<longleftrightarrow> True"

lemma spaced_snoc: "spaced d (xs @ [b]) \<longleftrightarrow> spaced d xs \<and> (xs = [] \<or> b - last xs \<ge> d)"
  by (induction d xs rule: spaced.induct) auto

lemma spaced_length: "spaced d xs \<Longrightarrow> xs \<noteq> [] \<Longrightarrow> int (length xs - 1) * d \<le> last xs - hd xs"
proof (induction d xs rule: spaced.induct)
  case (1 d a b xs)
  then show ?case by (auto simp: algebra_simps)
qed auto

definition jumps_inv :: "watchdog \<Rightarrow> bool" where
  "jumps_inv w \<longleftrightarrow> spaced jumpRecoveryCooldown (wd_jumps w) \<and>
     wd_lastJump w = (if wd_jumps w = [] then None else Some (last (wd_jumps w)))"

lemma jumps_inv_step: "jumps_inv w \<Longrightarrow> jumps_inv (wd_event e w)"
proof (cases e)
  case (WTick k)
  assume "jumps_inv w"
  with WTick show ?thesis
    by (auto simp: jumps_inv_def watchdog_step_def watchdog_tick_def spaced_snoc Let_def jumpRecoveryCooldown_def
        split: option.splits if_splits)
qed (auto simp: jumps_inv_def split: list.split prod.split)

lemma jumps_inv_run: "jumps_inv w \<Longrightarrow> jumps_inv (watch_run es w)"
  unfolding watch_run_def by (induction es arbitrary: w) (auto simp: jumps_inv_step)

text \<open>However often the wall clock jumps, and whatever else happens between the ticks, the
  recoveries that jumps start are at least fifteen seconds apart on the monotonic clock, so that n
  of them take at least 15 (n - 1) seconds.\<close>

theorem jump_recoveries_bounded:
  assumes "wd_jumps (watch_run es (new_watchdog now c)) = js" "js \<noteq> []"
  shows "spaced jumpRecoveryCooldown js \<and> int (length js - 1) * (15 * 1000000000) \<le> last js - hd js"
proof -
  have "jumps_inv (new_watchdog now c)" by (simp add: jumps_inv_def new_watchdog_def)
  from jumps_inv_run [OF this, of es] assms(1) have "spaced jumpRecoveryCooldown js" by (simp add: jumps_inv_def)
  with spaced_length [OF this assms(2)] show ?thesis by (simp add: jumpRecoveryCooldown_def)
qed

definition jump_tick :: "int \<Rightarrow> int \<Rightarrow> tick" where
  "jump_tick w m = \<lparr>tk_sched = w, tk_real = \<lparr>wall_ns = w, mono_ns = m\<rparr>, tk_dead = False\<rparr>"

text \<open>A connected client, and jumps at 20, 25 and 40 seconds of the monotonic clock.\<close>

definition woken :: "watch_event list" where
  "woken = [WTick (jump_tick 100000000000 20000000000), WTick (jump_tick 200000000000 25000000000), WSkip,
     WTick (jump_tick 300000000000 40000000000)]"

definition connected_client :: quicClient where
  "connected_client = (NewClient ''h:1'' 7 ''s1'')\<lparr>qc_state := StateConnected, qc_conn := Some 1, qc_tr := Some 1\<rparr>"

lemma woken_jumps:
  "wd_jumps (watch_run woken (new_watchdog \<lparr>wall_ns = 0, mono_ns = 0\<rparr> connected_client)) = [20000000000, 40000000000]"
  by (simp add: watch_run_def woken_def new_watchdog_def connected_client_def watchdog_step_def watchdog_tick_def
      jump_tick_def slept_def sleepThreshold_def jumpRecoveryCooldown_def resetBackoff_def NewClient_def Let_def)

theorem jump_recoveries_bounded_witness: "spaced jumpRecoveryCooldown [20000000000, 40000000000]"
  using jump_recoveries_bounded [OF woken_jumps] by simp

section \<open>Waking up\<close>

text \<open>C36. A jump of the wall clock by more than fifteen seconds that meets a client that is not
  recovering and has not been woken lately gets it connected by the attempt it starts, if the
  server can be reached, without waiting for a backoff and, when the server will have given the
  connection up, without trying to migrate.\<close>

theorem wake_reconnects:
  assumes "qc_state (wd_client w) \<noteq> StateRecovering" "slept k w > sleepThreshold" "wd_started w = []"
    "case wd_lastJump w of None \<Rightarrow> True | Some t \<Rightarrow> mono_ns (tk_real k) - t \<ge> jumpRecoveryCooldown"
    "reachable a"
  shows "wd_started (wd_event (WTick k) w) = [(''sleep wake detected'', slept k w < 45 * 1000000000)] \<and>
    qc_state (wd_client (watch_run [WTick k, WRun a] w)) = StateConnected"
proof -
  have st: "wd_started (wd_event (WTick k) w) = [(''sleep wake detected'', slept k w < 45 * 1000000000)]"
    and cl: "wd_client (wd_event (WTick k) w) = resetBackoff (wd_client w)"
    using assms(1-4)
    by (auto simp: watchdog_step_def watchdog_tick_def serverLikelyTimedOut_def Let_def not_le split: option.splits)
  have "\<not> inBackoff (at_now a) (resetBackoff (wd_client w))" by (simp add: inBackoff_def resetBackoff_def)
  with recover_reachable [OF assms(5), of "resetBackoff (wd_client w)"] st cl show ?thesis
    by (simp add: watch_run_def del: wd_event.simps(1))
qed

text \<open>The same jump while the client is already recovering starts an attempt as well, but leaves the
  backoff as it is: on the monotonic clock none of it has passed during the suspension.\<close>

text \<open>A client that was suspended while it was recovering does not notice it: whatever the wall
  clock says, it waits for the rest of a backoff of up to a minute before it tries again.\<close>

theorem sleep_while_recovering_waits:
  assumes "qc_state (wd_client w) = StateRecovering" "wd_started w = []"
    "qc_backoffUntil (wd_client w) = Some u" "at_now a < u"
  shows "wd_client (watch_run [WTick k, WRun a] w) = wd_client w"
  using assms
  by (simp add: watch_run_def watchdog_step_def watchdog_tick_def Let_def recoverWith_def inBackoff_def)

theorem wake_reconnects_witness:
  "qc_state (wd_client (watch_run [WTick (jump_tick 3600000000000 2000000000), WRun (good_attempt 3)]
     (new_watchdog \<lparr>wall_ns = 0, mono_ns = 0\<rparr> connected_client))) = StateConnected"
proof -
  let ?w = "new_watchdog \<lparr>wall_ns = 0, mono_ns = 0\<rparr> connected_client"
  have "qc_state (wd_client ?w) \<noteq> StateRecovering" "wd_started ?w = []" "wd_lastJump ?w = None"
    "slept (jump_tick 3600000000000 2000000000) ?w > sleepThreshold"
    by (simp_all add: new_watchdog_def connected_client_def slept_def jump_tick_def sleepThreshold_def)
  then show ?thesis
    using wake_reconnects [of ?w "jump_tick 3600000000000 2000000000" "good_attempt 3", OF _ _ _ _ good_reachable] by simp
qed

theorem sleep_while_recovering_waits_witness:
  "wd_client (watch_run [WTick (jump_tick 3600000000000 2000000000), WRun (good_attempt 3000000000)]
     (new_watchdog \<lparr>wall_ns = 0, mono_ns = 0\<rparr> (lost_client\<lparr>qc_backoffUntil := Some 60000000000\<rparr>))) =
     lost_client\<lparr>qc_backoffUntil := Some 60000000000\<rparr>"
  using sleep_while_recovering_waits [of "new_watchdog \<lparr>wall_ns = 0, mono_ns = 0\<rparr> (lost_client\<lparr>qc_backoffUntil := Some 60000000000\<rparr>)"
      60000000000 "good_attempt 3000000000"]
  by (simp add: new_watchdog_def lost_client_def good_attempt_def)

end
