(* ===== verification/Spec2Isabelle.thy ===== *)
theory Spec2Isabelle
  imports End_To_End Input_Path Frame_Writers Open_Handles Client_Exit Tunnel Session_Report Client_Forwards Daemon_Loops QServer Client_Commands Auth Client_Watchdog Agent_Sockets Client_Files Version
begin

text \<open>
  A verification development for tezzer, a remote terminal whose sessions outlive the connections to
  them.

  The program. A daemon (cmd/tezzerd) runs on the host. Users reach it through ssh and a Unix socket,
  on which length-prefixed msgpack frames travel (internal/netx, internal/proto). It keeps the sessions
  (internal/session): a pty with its process, the retained output in an uncompressed and a compressed
  tier, the clients that are attached, port and agent forwarding. Output and input travel over QUIC
  once a client has set it up (internal/qtransport); the Unix socket remains for requests, and for
  output until then. A client (cmd/tezzer) that loses its network reconnects and asks for the output
  after the last position it has seen; the session replays what it still holds. A daemon that is
  replaced by a new version hands its sessions over to it by exec.

  How it is modelled. A Go struct is a record, an enumeration a datatype, a goroutine's step between
  two accesses to shared state (usually one critical section) one function from state to state; an
  operation that locks twice is two functions. What other goroutines do in between is any sequence of
  such steps, as a fold over events or an inductive step relation. An error is Inl of a sum, the zero
  value of an optional pointer None, a Go map an association list with distinct keys or a map. Writes
  to sockets, to the terminal, log lines that a user sees and calls of other components are values
  (acts) in the order they happen. uint64 counters are naturals with the wrap-around written out,
  lengths and byte counters integers; bit fields are words. Clocks, random bytes, results of system
  calls and of third-party packages are arguments: msgpack (marshal, unmarshal), compress/flate
  (deflate, inflate, with the law flate_laws), quic-go (the results of dials, probes and writes in the
  records of an attempt, and the frames that arrive), HKDF, Ed25519 and x509 (a record with its laws in
  Auth), encoding/json, formats of times and of floating-point numbers.

  The theories, by the part of src/ they model:

  Prelude: byte streams, big-endian integers, io.ReadFull, decimal numbers, the locale frame_codec.
  Go_Strings: the functions of strings, strconv and net the program uses.

  Frames: internal/netx/framing.go and internal/qtransport/frame.go. Each format is an interpretation of
  frame_codec, which gives that a stream of frames is read back, and that a stream cut at any byte
  gives exactly its complete frames.
  Proto: internal/proto/messages.go.
  Input_Dedup: internal/qtransport/input_dedup.go; the bytes of the keyboard, sent twice, arrive once.

  Cold_Buffer and Output_Buffer: internal/session/coldbuffer.go and the buffer of session.go: append,
  the three evictions, background compression in its two critical sections, reading back from an
  offset. The invariant buf_inv (counters, order, bounds of segments) holds after every interleaving;
  retained, what can be read back, is the abstraction: the buffer implements a list of chunks that is
  appended to at the end and shortened at the front.
  Session, Session_Env, Session_Props, Session_Delivery: the rest of session.go. Session extends the
  record of the buffer. Session_Props runs every sequence of critical sections, with the compression
  in flight and the progress of Close in the state; Session_Delivery says who receives which chunk.
  Resync: the loop of handleConn (qtransport/server.go) against pumpOutput (client.go). The callback
  between transport and session is the locale resync_source, interpreted on outputFromOffset.
  Term_Trackers: internal/termui. Both scanners interpret the locale chunk_scanner.
  Client_Output: cmd/tezzer/output.go and rendering in client.go.
  End_To_End composes buffer, resynchronisation, connections, readers and rendering. Input_Path is the
  other direction: SendInput, streams and datagrams of successive connections, both readers of the
  server, the channel and the goroutine that writes to the pty.

  Transport_Types: internal/transport/transport.go. QServer and QClient: internal/qtransport/server.go and
  client.go with liveness.go and the parts of agent.go, forward.go and rforward.go that belong to each
  end. Client_Watchdog: the loop of the watchdog with its two clocks. Auth: internal/qtransport/auth.go.
  Relay and Agent_Sockets: the copying between streams and connections on both ends (locales relaying
  and releasing, interpreted on each of the relays) and the listeners that feed it. Tunnel joins the two
  relays of a forwarded connection by their stream (locale tunnelling).
  Remote_Forward: internal/session/rforward.go, the registry of ports with its owners and waiters.
  Client_Forwards: the -L listeners of cmd/tezzer/forward.go on top of Relay.
  Frame_Writers: the goroutines that share a connection (udsConn, connMu, ctrlMu); the locale
  locked_writer extends frame_codec by the parts in which a frame is written.
  Open_Handles: the sockets of both transports and the uid of a peer, with what is open at each moment.
  Stun and Addresses: internal/stun, the STUN cache and the NAT check of the daemon, and the candidate
  addresses of the client.

  Manager: internal/session/manager.go. Its map is behind the locale keyed_store, interpreted on
  association lists. Daemon: cmd/tezzerd/main.go, a connection as a state machine over the frames it
  reads; Daemon_Loops its start, its accept loop and the periodic loops. Handover and Restart:
  internal/session/handover.go, cmd/tezzerd/handover.go and internal/netx/uds.go.
  Client_Input, Client_Connect, Client_Commands, Client_Files: the keyboard, the set-up of the transport,
  the command line with its requests, and the files and listings of cmd/tezzer. Session_Report: what
  -list and -info print. Client_Exit: raw mode, all that is written to the terminal on stdout and stderr,
  and the clean-up of run.
  Version: internal/version.
\<close>

text \<open>
  What the theorems show. Each part has its invariant, preserved by all its operations (buffer, session,
  manager, registry of forwards, local sockets of the client, connections to an agent), and its
  functional behaviour including errors. Above them stand the properties that concern several parts.

  Output: chunks are numbered by the session; whatever connections are lost and wherever their streams
  are cut, the terminal shows the session's output in order and nothing twice, and all of it unless one
  of the disturbances named by calm in End_To_End occurs. Two of those are known to happen: live output that
  overtakes a resynchronisation (live_output_overtakes_resync, live_output_overtakes_replay) and
  readers that overlap. A client set up by Client_Connect agrees with its session and the server on its
  number and its position. Modes and screen of the terminal are restored for later clients.

  Input: what is typed is sent in order; whatever becomes of datagrams and connections, each keystroke
  reaches the pty at most once and never before an earlier one of its connection, and in a calm run
  only tails of lost connections are missing. What makes a run other than calm is real too: the
  readers of two connections are not ordered (readers_of_two_connections_race). A read-only client
  sends nothing. On the Unix socket output and answers arrive as whole frames in order.

  Life cycle: the gate of a new session opens when both ends are ready; its exit status reaches the
  clients on either path; every order of closing is harmless to the pty. Requests are answered by
  messages of their type, and only the owner of the daemon is served. A client that lost its
  connection is connected again a minute after the server can be reached and the attempts begun before
  that have failed; a suspended one at once. A restart carries every running session over, or changes
  nothing. A transport closes what it has opened, whatever fails, and so do the relays with one
  exception (failed_write_keeps_stream). A forwarded connection hands on what each side sends and its
  end, except that a listener's connection that breaks off looks ended (broken_connection_looks_ended).
  The terminal is left with its flags and its modes reset, and nothing of the session after the reset,
  though a status line may follow it (detach_leaves_status_line); ended sessions are collected.

  Bounds, termination and fuel. Loops over lists are structural; the evictions, the scanners and the
  readers of frames are functions with termination proofs (measures on what is left). The
  resynchronisation loop and the write loop of a frame are bounded by nothing in the code and are
  partial functions into option; that the former ends is part of resync_complete, that the latter does
  when every write makes progress is a lemma beside it. Loops that wait for events (keyboard, watchdog,
  connections, registry) are folds over a list of events of any length: no fuel is chosen.
  Positions are assumed to stay below 2 ^ 64, which one chunk a nanosecond reaches after centuries;
  where the code wraps, the model does.

  Not modelled. System calls (ioctl, getsockopt, dup, opening sockets and files) and quic-go are not
  looked into: their results are arguments, and what they open and close is state. The flag tables of
  both mains, the debug switches and the texts of debugging logs carry no state. Getters of one field
  are that field. Of the interfaces in internal/transport only the data is modelled: their
  implementations are the models of QServer and QClient. Setters of callbacks are the wiring of the
  models. Memory ordering within a critical section, and the scheduler, are not: any order of the
  steps is allowed.
\<close>

end
